(* ===== verification/HD_Prelude.thy ===== *)
theory HD_Prelude
  imports Main "HOL-Library.Word" "HOL-Library.Monad_Syntax"
begin

text \<open>
  What every component theory shares: the machine integer types, the model of raw C++ byte
  buffers (a read or a write outside the buffer is \<^const>\<open>None\<close>, which stands for undefined
  behaviour), big- and little-endian words, the linear slot scan that the fixed-size tables of
  the program use, and the collections of rewrite rules the component proofs refer to.
\<close>

unbundle bit_operations_syntax

named_theorems wire_simps \<open>sizes and layouts of encoded wire structures\<close>
named_theorems const_simps \<open>numeric constants of the source\<close>

section \<open>Machine types\<close>

type_synonym u8 = "8 word"
type_synonym u16 = "16 word"
type_synonym u32 = "32 word"
type_synonym u64 = "64 word"
type_synonym bytes = "u8 list"

text \<open>A computation whose \<^const>\<open>None\<close> is undefined behaviour of the C++ program.\<close>

type_synonym 'a ub = "'a option"

section \<open>Raw buffers\<close>

text \<open>
  \<^term>\<open>wr off bs m\<close> stores the bytes \<open>bs\<close> at offset \<open>off\<close> of the buffer \<open>m\<close>
  (\<^verbatim>\<open>std::memcpy(buf + off, ...)\<close> or consecutive byte stores); \<^term>\<open>rd off n m\<close> reads
  \<open>n\<close> bytes.
\<close>

definition wr :: "int \<Rightarrow> bytes \<Rightarrow> bytes \<Rightarrow> bytes ub" where
  "wr off bs m =
     (if 0 \<le> off \<and> off + int (length bs) \<le> int (length m)
      then Some (take (nat off) m @ bs @ drop (nat off + length bs) m)
      else None)"

definition rd :: "int \<Rightarrow> int \<Rightarrow> bytes \<Rightarrow> bytes ub" where
  "rd off n m =
     (if 0 \<le> off \<and> 0 \<le> n \<and> off + n \<le> int (length m)
      then Some (take (nat n) (drop (nat off) m))
      else None)"

definition rd8 :: "int \<Rightarrow> bytes \<Rightarrow> u8 ub" where
  "rd8 off m = (if 0 \<le> off \<and> off < int (length m) then Some (m ! nat off) else None)"

lemma wr_append:
  assumes "off = int (length pre)"
  shows "wr off bs (pre @ rest) =
    (if length bs \<le> length rest then Some (pre @ bs @ drop (length bs) rest) else None)"
  using assms by (simp add: wr_def)

lemma wr_0:
  "wr 0 bs m = (if length bs \<le> length m then Some (bs @ drop (length bs) m) else None)"
  using wr_append [of 0 "[]" bs m] by simp

text \<open>
  \<^term>\<open>wrote bs m\<close> is the buffer \<open>m\<close> after its first \<^term>\<open>length bs\<close> bytes were
  overwritten by \<open>bs\<close>: the shape every sequential builder leaves behind.
\<close>

definition wrote :: "bytes \<Rightarrow> bytes \<Rightarrow> bytes" where
  "wrote bs m = bs @ drop (length bs) m"

lemma wr_start: "wr 0 bs m = (if length bs \<le> length m then Some (wrote bs m) else None)"
  by (simp add: wr_0 wrote_def)

lemma wr_wrote:
  assumes "off = int (length pre)" and "length pre \<le> length m"
  shows "wr off bs (wrote pre m) =
    (if length pre + length bs \<le> length m then Some (wrote (pre @ bs) m) else None)"
  using assms by (simp add: wr_append wrote_def add.commute Nat.le_diff_conv2)

lemma length_wrote [simp]: "length bs \<le> length m \<Longrightarrow> length (wrote bs m) = length m"
  by (simp add: wrote_def)

lemma drop_wrote: "n = length bs \<Longrightarrow> drop n (wrote bs m) = drop n m"
  by (simp add: wrote_def)

lemma wrote_Nil [simp]: "wrote [] m = m"
  by (simp add: wrote_def)

lemma wr_terminator:
  "length s < length m \<Longrightarrow>
    wr (int (length s)) [b] (wrote s m) = Some (s @ b # drop (Suc (length s)) m)"
  by (simp add: wrote_def wr_append)

lemma rd_wrote_prefix:
  assumes "off = int (length pre)" and "n = int (length bs)"
  shows "rd off n (wrote (pre @ bs @ post) m) = Some bs"
  using assms by (simp add: wrote_def rd_def)

lemma bind_if_distrib:
  "Option.bind (if c then x else y) f = (if c then Option.bind x f else Option.bind y f)"
  by simp

lemma wr_Some_length: "wr off bs m = Some m' \<Longrightarrow> length m' = length m"
  by (auto simp: wr_def min_def split: if_splits)

lemma rd_append:
  assumes "off = int (length pre)" and "n = int (length bs)"
  shows "rd off n (pre @ bs @ rest) = Some bs"
  using assms by (simp add: rd_def)

lemma rd_0_all: "n = int (length bs) \<Longrightarrow> rd 0 n bs = Some bs"
  by (simp add: rd_def)

lemma rd_defined: "0 \<le> off \<Longrightarrow> 0 \<le> n \<Longrightarrow> off + n \<le> int (length m) \<Longrightarrow>
    rd off n m = Some (take (nat n) (drop (nat off) m))"
  by (simp add: rd_def)

lemma rd_length: "rd off n m = Some bs \<Longrightarrow> length bs = nat n"
  by (auto simp: rd_def split: if_splits)

lemma rd8_defined: "0 \<le> off \<Longrightarrow> off < int (length m) \<Longrightarrow> rd8 off m = Some (m ! nat off)"
  by (simp add: rd8_def)

text \<open>\<^verbatim>\<open>std::memcpy(buf + off, src + soff, n)\<close>\<close>

definition memcpy :: "int \<Rightarrow> bytes \<Rightarrow> int \<Rightarrow> int \<Rightarrow> bytes \<Rightarrow> bytes ub" where
  "memcpy off src soff n m = do { bs \<leftarrow> rd soff n src; wr off bs m }"

lemma memcpy_all: "n = int (length src) \<Longrightarrow> memcpy off src 0 n m = wr off src m"
  by (simp add: memcpy_def rd_0_all)

lemma memcpy_defined:
  "0 \<le> soff \<Longrightarrow> 0 \<le> n \<Longrightarrow> soff + n \<le> int (length src) \<Longrightarrow>
    memcpy off src soff n m = wr off (take (nat n) (drop (nat soff) src)) m"
  by (simp add: memcpy_def rd_defined)

lemmas buf_simps = wr_start wr_wrote memcpy_all bind_if_distrib

text \<open>Reads and stores in arrays of other element types.\<close>

definition arr_get :: "int \<Rightarrow> 'a list \<Rightarrow> 'a ub" where
  "arr_get i xs = (if 0 \<le> i \<and> i < int (length xs) then Some (xs ! nat i) else None)"

definition arr_set :: "int \<Rightarrow> 'a \<Rightarrow> 'a list \<Rightarrow> 'a list ub" where
  "arr_set i v xs = (if 0 \<le> i \<and> i < int (length xs) then Some (xs[nat i := v]) else None)"

lemma those_map_Some: "(\<And>x. x \<in> set xs \<Longrightarrow> f x = Some (g x)) \<Longrightarrow> those (map f xs) = Some (map g xs)"
  by (induction xs) auto

lemma those_length: "those xs = Some ys \<Longrightarrow> length ys = length xs"
  by (induction xs arbitrary: ys) (auto split: option.splits)

lemma uint_of_nat_u16: "n < 65536 \<Longrightarrow> uint (of_nat n :: u16) = int n"
  by (simp add: unsigned_of_nat take_bit_nat_eq_self)

lemma uint_of_nat_u32: "n < 4294967296 \<Longrightarrow> uint (of_nat n :: u32) = int n"
  by (simp add: unsigned_of_nat take_bit_nat_eq_self)

lemma take_bit_eq_self_u32: "uint (v :: u32) < 2 ^ n \<Longrightarrow> take_bit n v = v"
  by (rule word_uint_eqI) (simp add: unsigned_take_bit_eq take_bit_int_eq_self)

lemma ex_true: "\<exists>b. b"
  by blast

lemma length_split:
  assumes "length xs = n + m"
  obtains g h where "xs = g @ h" "length g = n" "length h = m"
  using assms that [of "take n xs" "drop n xs"] by simp

lemma length_3E:
  assumes "length xs = 3"
  obtains a b c where "xs = [a, b, c]"
  using assms by (auto simp: numeral_eq_Suc length_Suc_conv)

lemma length_4E:
  assumes "length xs = 4"
  obtains a b c d where "xs = [a, b, c, d]"
  using assms by (auto simp: numeral_eq_Suc length_Suc_conv)

section \<open>Words as bytes\<close>

text \<open>Most significant byte first, as the shift-and-cast stores of the source write them.\<close>

definition be16 :: "u16 \<Rightarrow> bytes" where
  "be16 v = [ucast (drop_bit 8 v), ucast v]"

definition be24 :: "u32 \<Rightarrow> bytes" where
  "be24 v = [ucast (drop_bit 16 v), ucast (drop_bit 8 v), ucast v]"

definition be32 :: "u32 \<Rightarrow> bytes" where
  "be32 v = [ucast (drop_bit 24 v), ucast (drop_bit 16 v), ucast (drop_bit 8 v), ucast v]"

definition of_be16 :: "u8 \<Rightarrow> u8 \<Rightarrow> u16" where
  "of_be16 a b = push_bit 8 (ucast a) OR ucast b"

definition of_be24 :: "u8 \<Rightarrow> u8 \<Rightarrow> u8 \<Rightarrow> u32" where
  "of_be24 a b c = push_bit 16 (ucast a) OR push_bit 8 (ucast b) OR ucast c"

definition of_be32 :: "u8 \<Rightarrow> u8 \<Rightarrow> u8 \<Rightarrow> u8 \<Rightarrow> u32" where
  "of_be32 a b c d =
     push_bit 24 (ucast a) OR push_bit 16 (ucast b) OR push_bit 8 (ucast c) OR ucast d"

definition be64 :: "u64 \<Rightarrow> bytes" where
  "be64 v = map (\<lambda>i. ucast (drop_bit (56 - i * 8) v)) [0..<8]"

definition of_be64 :: "bytes \<Rightarrow> u64" where
  "of_be64 bs = fold (\<lambda>b v. push_bit 8 v OR ucast b) bs 0"

lemma length_be64 [wire_simps, simp]: "length (be64 v) = 8"
  by (simp add: be64_def)

lemma length_be [wire_simps, simp]:
  "length (be16 v) = 2" "length (be24 w) = 3" "length (be32 w) = 4"
  by (simp_all add: be16_def be24_def be32_def)

lemma of_be16_be16 [simp]: "of_be16 (ucast (drop_bit 8 v)) (ucast v) = v"
  unfolding of_be16_def by (rule bit_word_eqI) (auto simp: bit_simps)

lemma of_be32_be32 [simp]:
  "of_be32 (ucast (drop_bit 24 v)) (ucast (drop_bit 16 v)) (ucast (drop_bit 8 v)) (ucast v) = v"
proof (rule bit_word_eqI)
  fix n :: nat
  assume "n < LENGTH(32)"
  consider "n < 8" | "8 \<le> n" "n < 16" | "16 \<le> n" "n < 24" | "24 \<le> n" by linarith
  then show "bit (of_be32 (ucast (drop_bit 24 v)) (ucast (drop_bit 16 v))
      (ucast (drop_bit 8 v)) (ucast v)) n = bit v n"
    using \<open>n < LENGTH(32)\<close> by cases (auto simp: of_be32_def bit_simps)
qed

lemma of_be24_be24 [simp]:
  "of_be24 (ucast (drop_bit 16 v)) (ucast (drop_bit 8 v)) (ucast v) = take_bit 24 v"
proof (rule bit_word_eqI)
  fix n :: nat
  assume "n < LENGTH(32)"
  consider "n < 8" | "8 \<le> n" "n < 16" | "16 \<le> n" by linarith
  then show "bit (of_be24 (ucast (drop_bit 16 v)) (ucast (drop_bit 8 v)) (ucast v)) n
      = bit (take_bit 24 v) n"
    using \<open>n < LENGTH(32)\<close> by cases (auto simp: of_be24_def bit_simps)
qed

lemma bit_u8_high [simp]: "8 \<le> n \<Longrightarrow> \<not> bit (b :: u8) n"
  using bit_imp_le_length [of b n] by auto

lemma be16_of_be16 [simp]: "be16 (of_be16 a b) = [a, b]"
  by (auto simp: be16_def of_be16_def bit_simps intro!: bit_word_eqI)

lemma be32_of_be32 [simp]: "be32 (of_be32 a b c d) = [a, b, c, d]"
  by (auto simp: be32_def of_be32_def bit_simps intro!: bit_word_eqI)

lemma be24_of_be24 [simp]: "be24 (of_be24 a b c) = [a, b, c]"
  by (auto simp: be24_def of_be24_def bit_simps intro!: bit_word_eqI)

lemma of_be64_expand:
  "of_be64 [a, b, c, d, e, f, g, h] =
     push_bit 56 (ucast a) OR push_bit 48 (ucast b) OR push_bit 40 (ucast c) OR
     push_bit 32 (ucast d) OR push_bit 24 (ucast e) OR push_bit 16 (ucast f) OR
     push_bit 8 (ucast g) OR ucast h"
  by (simp add: of_be64_def push_bit_or or.assoc)

lemma upt_0_8: "[0..<8] = [0, 1, 2, 3, 4, 5, 6, 7 :: nat]"
  by (simp add: upt_rec)

lemma byte_step: "push_bit 8 (drop_bit (n + 8) v) OR ucast (ucast (drop_bit n v) :: u8) = drop_bit n v"
  for v :: u64
proof (rule bit_word_eqI)
  fix m :: nat
  assume "m < LENGTH(64)"
  then show "bit (push_bit 8 (drop_bit (n + 8) v) OR ucast (ucast (drop_bit n v) :: u8)) m
      = bit (drop_bit n v) m"
    by (cases "m < 8") (auto simp: bit_simps)
qed

lemma of_be64_be64 [simp]: "of_be64 (be64 v) = v"
proof -
  have top: "ucast (ucast (drop_bit 56 v) :: u8) = drop_bit 56 v"
    by (rule bit_word_eqI) (auto simp: bit_simps dest: bit_imp_le_length)
  show ?thesis
    using byte_step [of 48 v] byte_step [of 40 v] byte_step [of 32 v] byte_step [of 24 v]
      byte_step [of 16 v] byte_step [of 8 v] byte_step [of 0 v]
    by (simp add: of_be64_def be64_def upt_0_8 top)
qed

lemma be64_of_be64 [simp]: "length bs = 8 \<Longrightarrow> be64 (of_be64 bs) = bs"
proof -
  assume "length bs = 8"
  then obtain a b c d e f g h where "bs = [a, b, c, d, e, f, g, h]"
    by (auto simp: numeral_eq_Suc length_Suc_conv)
  then show ?thesis
    by (auto simp: be64_def upt_0_8 of_be64_expand bit_simps intro!: bit_word_eqI)
qed

text \<open>Host (little-endian) to network byte order.\<close>

definition htonl :: "u32 \<Rightarrow> u32" where
  "htonl v = of_be32 (ucast v) (ucast (drop_bit 8 v)) (ucast (drop_bit 16 v)) (ucast (drop_bit 24 v))"

definition htons :: "u16 \<Rightarrow> u16" where
  "htons v = of_be16 (ucast v) (ucast (drop_bit 8 v))"

lemma htons_bit:
  "bit (htons v) n \<longleftrightarrow> (if n < 8 then bit v (n + 8) else n < 16 \<and> bit v (n - 8))"
  by (cases "n < 8") (auto simp: htons_def of_be16_def bit_simps add.commute)

lemma htons_htons [simp]: "htons (htons v) = v"
proof (rule bit_word_eqI)
  fix n :: nat
  assume n: "n < LENGTH(16)"
  then show "bit (htons (htons v)) n = bit v n"
    by (cases "n < 8") (auto simp: htons_bit)
qed

lemma htons_xor: "htons (a XOR b) = htons a XOR htons b"
  by (rule bit_word_eqI) (auto simp: htons_bit bit_xor_iff)

lemma of_be32_bit:
  "bit (of_be32 a b c d) n \<longleftrightarrow>
     (if n < 8 then bit d n else if n < 16 then bit c (n - 8) else if n < 24 then bit b (n - 16)
      else bit a (n - 24))"
proof -
  consider "n < 8" | "8 \<le> n" "n < 16" | "16 \<le> n" "n < 24" | "24 \<le> n" "n < 32" | "32 \<le> n"
    by linarith
  then show ?thesis
    by cases (auto simp: of_be32_def bit_simps)
qed

lemma htonl_bit:
  "bit (htonl v) n \<longleftrightarrow>
     (if n < 8 then bit v (24 + n) else if n < 16 then bit v (8 + n) else if n < 24 then bit v (n - 8)
      else n < 32 \<and> bit v (n - 24))"
proof -
  consider "n < 8" | "8 \<le> n" "n < 16" | "16 \<le> n" "n < 24" | "24 \<le> n" "n < 32" | "32 \<le> n"
    by linarith
  then show ?thesis
    by cases (auto simp: htonl_def of_be32_bit bit_simps)
qed

lemma htonl_htonl [simp]: "htonl (htonl v) = v"
proof (rule bit_word_eqI)
  fix n :: nat
  assume "n < LENGTH(32)"
  consider "n < 8" | "8 \<le> n" "n < 16" | "16 \<le> n" "n < 24" | "24 \<le> n" by linarith
  then show "bit (htonl (htonl v)) n = bit v n"
    using \<open>n < LENGTH(32)\<close> by cases (auto simp: htonl_bit)
qed

lemma htonl_and: "htonl (a AND b) = htonl a AND htonl b"
  by (rule bit_word_eqI) (auto simp: htonl_bit bit_and_iff)

lemma htonl_inj [simp]: "htonl a = htonl b \<longleftrightarrow> a = b"
  by (metis htonl_htonl)

lemma htonl_0 [simp]: "htonl a = 0 \<longleftrightarrow> a = 0"
proof -
  have "htonl 0 = 0" by (simp add: htonl_def of_be32_def)
  then show ?thesis by (metis htonl_inj)
qed

lemma htonl_xor: "htonl (a XOR b) = htonl a XOR htonl b"
  by (rule bit_word_eqI) (auto simp: htonl_bit bit_xor_iff)

section \<open>Linear scans over fixed-size tables\<close>

text \<open>
  \<^term>\<open>scan P xs\<close> is the loop \<^verbatim>\<open>for (i = 0; i < N; ++i) if (P(xs[i])) return i;\<close> that
  looks up entries and free slots in the fixed-size arrays of the program.
\<close>

fun scan :: "('a \<Rightarrow> bool) \<Rightarrow> 'a list \<Rightarrow> nat option" where
  "scan P [] = None"
| "scan P (x # xs) = (if P x then Some 0 else map_option Suc (scan P xs))"

lemma scan_None_iff: "scan P xs = None \<longleftrightarrow> (\<forall>x \<in> set xs. \<not> P x)"
  by (induction xs) auto

lemma scan_Some_iff:
  "scan P xs = Some i \<longleftrightarrow> i < length xs \<and> P (xs ! i) \<and> (\<forall>j < i. \<not> P (xs ! j))"
proof (induction xs arbitrary: i)
  case Nil
  then show ?case by simp
next
  case (Cons x xs)
  show ?case
    by (cases i) (auto simp: Cons.IH less_Suc_eq_0_disj)
qed

lemma scan_SomeD: "scan P xs = Some i \<Longrightarrow> i < length xs \<and> P (xs ! i)"
  by (simp add: scan_Some_iff)

lemma scan_replicate [simp]:
  "scan P (replicate n x) = (if 0 < n \<and> P x then Some 0 else None)"
  by (induction n) auto

lemma scan_cong: "(\<And>x. x \<in> set xs \<Longrightarrow> P x = Q x) \<Longrightarrow> scan P xs = scan Q xs"
  by (induction xs) auto

lemma length_filter_update:
  "i < length xs \<Longrightarrow>
    length (filter P (xs[i := y])) + (if P (xs ! i) then 1 else 0)
      = length (filter P xs) + (if P y then 1 else 0)"
proof (induction xs arbitrary: i)
  case Nil
  then show ?case by simp
next
  case (Cons x xs)
  then show ?case by (cases i) auto
qed

lemma list_all_update: "list_all P xs \<Longrightarrow> P y \<Longrightarrow> list_all P (xs[i := y])"
  by (metis list_all_iff set_update_subset_insert insertE subsetD)

section \<open>Slot tables: fixed arrays of entries with a liveness mark and a key\<close>

text \<open>
  The peer registry, the relay table, the TURN allocations and their permissions and channels
  are arrays whose entries carry an occupancy mark and a key. The abstract view of such an
  array is a finite map.
\<close>

definition slot_find :: "('e \<Rightarrow> bool) \<Rightarrow> ('e \<Rightarrow> 'k) \<Rightarrow> 'e list \<Rightarrow> 'k \<Rightarrow> nat option" where
  "slot_find live key_of es k = scan (\<lambda>e. live e \<and> key_of e = k) es"

definition slot_view :: "('e \<Rightarrow> bool) \<Rightarrow> ('e \<Rightarrow> 'k) \<Rightarrow> 'e list \<Rightarrow> ('k \<rightharpoonup> 'e)" where
  "slot_view live key_of es k = map_option (\<lambda>i. es ! i) (slot_find live key_of es k)"

definition slot_uniq :: "('e \<Rightarrow> bool) \<Rightarrow> ('e \<Rightarrow> 'k) \<Rightarrow> 'e list \<Rightarrow> bool" where
  "slot_uniq live key_of es \<longleftrightarrow>
     (\<forall>i < length es. \<forall>j < length es. live (es ! i) \<longrightarrow> live (es ! j) \<longrightarrow>
        key_of (es ! i) = key_of (es ! j) \<longrightarrow> i = j)"

definition slot_count :: "('e \<Rightarrow> bool) \<Rightarrow> 'e list \<Rightarrow> nat" where
  "slot_count live es = length (filter live es)"

lemma slot_count_le: "slot_count live es \<le> length es"
  by (simp add: slot_count_def)

lemma slot_free_None_iff: "scan (\<lambda>e. \<not> live e) es = None \<longleftrightarrow> slot_count live es = length es"
  by (auto simp: scan_None_iff slot_count_def filter_id_conv
      dest: length_filter_less [of _ _ live] intro: arg_cong [of _ _ length])

locale slot_table =
  fixes live :: "'e \<Rightarrow> bool" and key_of :: "'e \<Rightarrow> 'k" and blank :: 'e
  assumes blank_dead: "\<not> live blank"
begin

lemma find_SomeD:
  "slot_find live key_of es k = Some i \<Longrightarrow> i < length es \<and> live (es ! i) \<and> key_of (es ! i) = k"
  by (auto simp: slot_find_def dest: scan_SomeD)

lemma find_None_iff:
  "slot_find live key_of es k = None \<longleftrightarrow> (\<forall>i < length es. live (es ! i) \<longrightarrow> key_of (es ! i) \<noteq> k)"
  by (auto simp: slot_find_def scan_None_iff all_set_conv_all_nth)

lemma find_uniq:
  assumes "slot_uniq live key_of es" "i < length es" "live (es ! i)" "key_of (es ! i) = k"
  shows "slot_find live key_of es k = Some i"
proof (cases "slot_find live key_of es k")
  case None
  with assms show ?thesis by (auto simp: find_None_iff)
next
  case (Some j)
  with assms find_SomeD [OF Some] show ?thesis by (auto simp: slot_uniq_def)
qed

lemma view_eq_Some:
  assumes "slot_uniq live key_of es"
  shows "slot_view live key_of es k = Some e \<longleftrightarrow> e \<in> set es \<and> live e \<and> key_of e = k"
proof
  assume "slot_view live key_of es k = Some e"
  then show "e \<in> set es \<and> live e \<and> key_of e = k"
    by (auto simp: slot_view_def dest: find_SomeD)
next
  assume "e \<in> set es \<and> live e \<and> key_of e = k"
  then obtain i where "i < length es" "es ! i = e" "live e" "key_of e = k"
    by (auto simp: in_set_conv_nth)
  with find_uniq [OF assms, of i k] show "slot_view live key_of es k = Some e"
    by (simp add: slot_view_def)
qed

lemma view_None_iff:
  "slot_view live key_of es k = None \<longleftrightarrow> (\<forall>e \<in> set es. live e \<longrightarrow> key_of e \<noteq> k)"
  by (auto simp: slot_view_def find_None_iff all_set_conv_all_nth)

lemma blank_table:
  "slot_uniq live key_of (replicate n blank)"
  "slot_view live key_of (replicate n blank) = Map.empty"
  "slot_count live (replicate n blank) = 0"
  using blank_dead by (auto simp: slot_uniq_def slot_view_def slot_find_def slot_count_def)

lemma uniq_update:
  assumes u: "slot_uniq live key_of es" and i: "i < length es"
    and e: "\<And>j. live e \<Longrightarrow> j < length es \<Longrightarrow> j \<noteq> i \<Longrightarrow> live (es ! j) \<Longrightarrow> key_of (es ! j) \<noteq> key_of e"
  shows "slot_uniq live key_of (es[i := e])"
  unfolding slot_uniq_def
proof (intro allI impI)
  fix a b
  assume ab: "a < length (es[i := e])" "b < length (es[i := e])"
    and l: "live (es[i := e] ! a)" "live (es[i := e] ! b)"
    and k: "key_of (es[i := e] ! a) = key_of (es[i := e] ! b)"
  show "a = b"
  proof (cases "a = i \<or> b = i")
    case True
    with ab l k i e [of a] e [of b] show ?thesis by (cases "a = i"; cases "b = i") auto
  next
    case False
    with ab l k u show ?thesis by (auto simp: slot_uniq_def)
  qed
qed

lemma add_slot:
  assumes u: "slot_uniq live key_of es" and i: "i < length es" "\<not> live (es ! i)"
    and e: "live e" "slot_find live key_of es (key_of e) = None"
  shows "slot_uniq live key_of (es[i := e])"
    and "slot_view live key_of (es[i := e]) = (slot_view live key_of es)(key_of e \<mapsto> e)"
    and "slot_count live (es[i := e]) = Suc (slot_count live es)"
proof -
  from e(2) have fresh: "\<And>j. j < length es \<Longrightarrow> live (es ! j) \<Longrightarrow> key_of (es ! j) \<noteq> key_of e"
    by (simp add: find_None_iff)
  show u': "slot_uniq live key_of (es[i := e])"
    by (rule uniq_update [OF u i(1)]) (use fresh in auto)
  show "slot_view live key_of (es[i := e]) = (slot_view live key_of es)(key_of e \<mapsto> e)"
  proof
    fix k
    have mem: "x \<in> set (es[i := e]) \<and> live x \<longleftrightarrow> x = e \<or> x \<in> set es \<and> live x" for x
      using i e by (auto simp: in_set_conv_nth nth_list_update)
    have new: "x \<in> set es \<Longrightarrow> live x \<Longrightarrow> key_of x \<noteq> key_of e" for x
      using fresh by (auto simp: in_set_conv_nth)
    have "slot_view live key_of (es[i := e]) k = Some x \<longleftrightarrow>
        ((slot_view live key_of es)(key_of e \<mapsto> e)) k = Some x" for x
      using mem [of x] new [of x] e(1)
      by (auto simp: view_eq_Some [OF u'] view_eq_Some [OF u])
    then show "slot_view live key_of (es[i := e]) k =
        ((slot_view live key_of es)(key_of e \<mapsto> e)) k"
      by (metis not_None_eq)
  qed
  show "slot_count live (es[i := e]) = Suc (slot_count live es)"
    using length_filter_update [OF i(1), of live e] i e by (simp add: slot_count_def)
qed

lemma modify_slot:
  assumes u: "slot_uniq live key_of es" and f: "slot_find live key_of es k = Some i"
    and e: "live e" "key_of e = k"
  shows "slot_uniq live key_of (es[i := e])"
    and "slot_view live key_of (es[i := e]) = (slot_view live key_of es)(k \<mapsto> e)"
    and "slot_count live (es[i := e]) = slot_count live es"
proof -
  from find_SomeD [OF f] have i: "i < length es" "live (es ! i)" "key_of (es ! i) = k"
    by simp_all
  show u': "slot_uniq live key_of (es[i := e])"
    by (rule uniq_update [OF u i(1)]) (use u i e in \<open>auto simp: slot_uniq_def\<close>)
  have "slot_find live key_of (es[i := e]) k' = slot_find live key_of es k'" for k'
  proof (cases "slot_find live key_of es k'")
    case None
    then have "slot_find live key_of (es[i := e]) k' = None"
      using i e by (auto simp: find_None_iff nth_list_update)
    with None show ?thesis by simp
  next
    case (Some j)
    with find_SomeD [OF Some] i e u have "slot_find live key_of (es[i := e]) k' = Some j"
      by (intro find_uniq [OF u']) (auto simp: nth_list_update)
    with Some show ?thesis by simp
  qed
  then have "slot_view live key_of (es[i := e]) k' = ((slot_view live key_of es)(k \<mapsto> e)) k'" for k'
    using f i by (cases "slot_find live key_of es k'")
      (auto simp: slot_view_def nth_list_update dest: find_SomeD)
  then show "slot_view live key_of (es[i := e]) = (slot_view live key_of es)(k \<mapsto> e)"
    by (rule ext)
  show "slot_count live (es[i := e]) = slot_count live es"
    using length_filter_update [OF i(1), of live e] i e by (simp add: slot_count_def)
qed

lemma kill_slot:
  assumes u: "slot_uniq live key_of es" and f: "slot_find live key_of es k = Some i"
    and e: "\<not> live e"
  shows "slot_uniq live key_of (es[i := e])"
    and "slot_view live key_of (es[i := e]) = (slot_view live key_of es)(k := None)"
    and "Suc (slot_count live (es[i := e])) = slot_count live es"
proof -
  from find_SomeD [OF f] have i: "i < length es" "live (es ! i)" "key_of (es ! i) = k"
    by simp_all
  show u': "slot_uniq live key_of (es[i := e])"
    by (rule uniq_update [OF u i(1)]) (use e in auto)
  have others: "x \<in> set (es[i := e]) \<and> live x \<longleftrightarrow> x \<in> set es \<and> live x \<and> key_of x \<noteq> k" for x
    using i e u unfolding slot_uniq_def
    by (auto simp: in_set_conv_nth nth_list_update split: if_splits)
  show "slot_view live key_of (es[i := e]) = (slot_view live key_of es)(k := None)"
  proof
    fix k'
    have "slot_view live key_of (es[i := e]) k' = Some x \<longleftrightarrow>
        ((slot_view live key_of es)(k := None)) k' = Some x" for x
      using others [of x] by (auto simp: view_eq_Some [OF u'] view_eq_Some [OF u])
    then show "slot_view live key_of (es[i := e]) k' =
        ((slot_view live key_of es)(k := None)) k'"
      by (metis not_None_eq)
  qed
  show "Suc (slot_count live (es[i := e])) = slot_count live es"
    using length_filter_update [OF i(1), of live e] i e by (simp add: slot_count_def)
qed

lemma uniq_tail: "slot_uniq live key_of (x # xs) \<Longrightarrow> slot_uniq live key_of xs"
  unfolding slot_uniq_def by (metis Suc_less_eq length_Cons nat.inject nth_Cons_Suc)

lemma uniq_head:
  assumes "slot_uniq live key_of (x # xs)" "live x"
  shows "key_of x \<notin> key_of ` set (filter live xs)"
proof
  assume "key_of x \<in> key_of ` set (filter live xs)"
  then obtain j where "j < length xs" "live (xs ! j)" "key_of (xs ! j) = key_of x"
    by (auto simp: in_set_conv_nth)
  then show False
    using assms(1) [unfolded slot_uniq_def, rule_format, of 0 "Suc j"] assms(2) by simp
qed

lemma distinct_keys: "slot_uniq live key_of es \<Longrightarrow> distinct (map key_of (filter live es))"
proof (induction es)
  case Nil
  then show ?case by simp
next
  case (Cons x xs)
  then show ?case using uniq_tail [OF Cons.prems] uniq_head [OF Cons.prems] by auto
qed

lemma count_card:
  assumes "slot_uniq live key_of es"
  shows "finite (dom (slot_view live key_of es))"
    and "slot_count live es = card (dom (slot_view live key_of es))"
proof -
  have "dom (slot_view live key_of es) = set (map key_of (filter live es))"
    by (auto simp: dom_def view_eq_Some [OF assms])
  then show "finite (dom (slot_view live key_of es))"
    and "slot_count live es = card (dom (slot_view live key_of es))"
    using distinct_card [OF distinct_keys [OF assms]] by (simp_all add: slot_count_def)
qed

end

section \<open>Registries with removal\<close>

text \<open>
  What the clients of a registry rely on: a finite map, its counter and a removal. The
  registries of the program interpret it, so that removing a batch of keys (a revocation list,
  the expired entries of a table) is understood once.
\<close>

locale removable_registry =
  fixes inv :: "'s \<Rightarrow> bool" and view :: "'s \<Rightarrow> 'k \<Rightarrow> 'v option"
    and count :: "'s \<Rightarrow> int" and remove :: "'k \<Rightarrow> 's \<Rightarrow> 's"
  assumes inv_remove: "inv s \<Longrightarrow> inv (remove k s)"
    and view_remove: "inv s \<Longrightarrow> view (remove k s) = (view s)(k := None)"
    and count_view: "inv s \<Longrightarrow> finite (dom (view s)) \<and> count s = int (card (dom (view s)))"
begin

lemma remove_batch:
  "inv s \<Longrightarrow> inv (fold remove ks s) \<and> view (fold remove ks s) = view s |` (- set ks)"
proof (induction ks arbitrary: s)
  case Nil
  then show ?case by (simp add: restrict_map_def)
next
  case (Cons k ks)
  then show ?case
    by (auto simp: inv_remove view_remove restrict_map_def fun_eq_iff)
qed

lemma remove_batch_count:
  assumes "inv s"
  shows "count (fold remove ks s) = count s - int (card (set ks \<inter> dom (view s)))"
proof -
  let ?s = "fold remove ks s"
  from remove_batch [OF assms, of ks] have i: "inv ?s" and v: "dom (view ?s) = dom (view s) - set ks"
    by (auto simp: restrict_map_def dom_def split: if_splits)
  have "card (dom (view s) - set ks) = card (dom (view s)) - card (set ks \<inter> dom (view s))"
    using count_view [OF assms] by (metis Int_commute card_Diff_subset_Int finite_Int)
  moreover have "card (set ks \<inter> dom (view s)) \<le> card (dom (view s))"
    using count_view [OF assms] by (intro card_mono) auto
  ultimately show ?thesis
    using count_view [OF assms] count_view [OF i] v by simp
qed

lemma remove_absent: "inv s \<Longrightarrow> view s k = None \<Longrightarrow> view (remove k s) = view s"
  by (auto simp: view_remove fun_eq_iff)

end

end
