(* ===== verification/Derp_Protocol.thy ===== *)
theory Derp_Protocol
  imports HD_Prelude
begin

text \<open>
  The DERP wire protocol: \<^verbatim>\<open>include/hyper_derp/protocol.h\<close> and \<^verbatim>\<open>src/protocol.cc\<close>. A builder
  takes the output buffer and returns the buffer after its stores together with the size it
  reports; \<^const>\<open>None\<close> is a store outside the buffer.
\<close>

section \<open>Wire constants and types\<close>

definition kKeySize :: int where [const_simps, simp]: "kKeySize = 32"
definition kFrameHeaderSize :: int where [const_simps, simp]: "kFrameHeaderSize = 5"
definition kMaxFramePayload :: int where [const_simps, simp]: "kMaxFramePayload = 64 * 1024"
definition kMaxFrameSize :: int where
  [const_simps, simp]: "kMaxFrameSize = kFrameHeaderSize + kMaxFramePayload"
definition kPingDataSize :: int where [const_simps, simp]: "kPingDataSize = 8"
definition kProtocolVersion :: int where [const_simps, simp]: "kProtocolVersion = 2"

text \<open>\<^verbatim>\<open>using Key = std::array<uint8_t, kKeySize>\<close>: a byte list of length 32.\<close>

type_synonym Key = bytes

definition is_Key :: "Key \<Rightarrow> bool" where
  "is_Key k \<longleftrightarrow> int (length k) = kKeySize"

definition zero_Key :: Key where
  "zero_Key = replicate (nat kKeySize) 0"

definition ToKey :: "bytes \<Rightarrow> Key ub" where
  "ToKey p = rd 0 kKeySize p"

text \<open>
  A scoped enumeration with a fixed underlying type holds any value of that type; values
  without an enumerator are the last constructor.
\<close>

datatype FrameType =
    Frame_kServerKey | Frame_kClientInfo | Frame_kServerInfo | Frame_kSendPacket
  | Frame_kRecvPacket | Frame_kKeepAlive | Frame_kNotePreferred | Frame_kPeerGone
  | Frame_kPeerPresent | Frame_kForwardPacket | Frame_kWatchConns | Frame_kClosePeer
  | Frame_kPing | Frame_kPong | Frame_kHealth | Frame_kRestarting
  | Frame_unnamed u8

fun FrameType_byte :: "FrameType \<Rightarrow> u8" where
  "FrameType_byte Frame_kServerKey = 0x01"
| "FrameType_byte Frame_kClientInfo = 0x02"
| "FrameType_byte Frame_kServerInfo = 0x03"
| "FrameType_byte Frame_kSendPacket = 0x04"
| "FrameType_byte Frame_kRecvPacket = 0x05"
| "FrameType_byte Frame_kKeepAlive = 0x06"
| "FrameType_byte Frame_kNotePreferred = 0x07"
| "FrameType_byte Frame_kPeerGone = 0x08"
| "FrameType_byte Frame_kPeerPresent = 0x09"
| "FrameType_byte Frame_kForwardPacket = 0x0a"
| "FrameType_byte Frame_kWatchConns = 0x10"
| "FrameType_byte Frame_kClosePeer = 0x11"
| "FrameType_byte Frame_kPing = 0x12"
| "FrameType_byte Frame_kPong = 0x13"
| "FrameType_byte Frame_kHealth = 0x14"
| "FrameType_byte Frame_kRestarting = 0x15"
| "FrameType_byte (Frame_unnamed b) = b"

definition FrameType_of :: "u8 \<Rightarrow> FrameType" where
  "FrameType_of b =
     (if b = 0x01 then Frame_kServerKey else if b = 0x02 then Frame_kClientInfo
      else if b = 0x03 then Frame_kServerInfo else if b = 0x04 then Frame_kSendPacket
      else if b = 0x05 then Frame_kRecvPacket else if b = 0x06 then Frame_kKeepAlive
      else if b = 0x07 then Frame_kNotePreferred else if b = 0x08 then Frame_kPeerGone
      else if b = 0x09 then Frame_kPeerPresent else if b = 0x0a then Frame_kForwardPacket
      else if b = 0x10 then Frame_kWatchConns else if b = 0x11 then Frame_kClosePeer
      else if b = 0x12 then Frame_kPing else if b = 0x13 then Frame_kPong
      else if b = 0x14 then Frame_kHealth else if b = 0x15 then Frame_kRestarting
      else Frame_unnamed b)"

datatype PeerGoneReason = Gone_kDisconnected | Gone_kNotHere

fun PeerGoneReason_byte :: "PeerGoneReason \<Rightarrow> u8" where
  "PeerGoneReason_byte Gone_kDisconnected = 0x00"
| "PeerGoneReason_byte Gone_kNotHere = 0x01"

section \<open>Frame header codec\<close>

definition ReadFrameType :: "bytes \<Rightarrow> FrameType ub" where
  "ReadFrameType hdr = do { b \<leftarrow> rd8 0 hdr; Some (FrameType_of b) }"

definition ReadPayloadLen :: "bytes \<Rightarrow> u32 ub" where
  "ReadPayloadLen hdr = do {
     b1 \<leftarrow> rd8 1 hdr; b2 \<leftarrow> rd8 2 hdr; b3 \<leftarrow> rd8 3 hdr; b4 \<leftarrow> rd8 4 hdr;
     Some (of_be32 b1 b2 b3 b4) }"

definition WriteFrameHeader :: "bytes \<Rightarrow> FrameType \<Rightarrow> u32 \<Rightarrow> bytes ub" where
  "WriteFrameHeader hdr ty payload_len =
     wr 0 [FrameType_byte ty, ucast (drop_bit 24 payload_len), ucast (drop_bit 16 payload_len),
           ucast (drop_bit 8 payload_len), ucast payload_len] hdr"

definition IsValidPayloadLen :: "u32 \<Rightarrow> bool" where
  "IsValidPayloadLen len \<longleftrightarrow> uint len \<le> kMaxFramePayload"

definition SendPacketDstKey :: "bytes \<Rightarrow> bytes ub" where
  "SendPacketDstKey payload = rd 0 kKeySize payload"

definition SendPacketData :: "bytes \<Rightarrow> bytes ub" where
  "SendPacketData payload =
     (if kKeySize \<le> int (length payload) then Some (drop (nat kKeySize) payload) else None)"

definition SendPacketDataLen :: "int \<Rightarrow> int" where
  "SendPacketDataLen payload_len = payload_len - kKeySize"

section \<open>Frame builders\<close>

definition BuildRecvPacket :: "bytes \<Rightarrow> Key \<Rightarrow> bytes \<Rightarrow> int \<Rightarrow> (bytes \<times> int) ub" where
  "BuildRecvPacket buf src_key data data_len = (let payload_len = kKeySize + data_len in do {
     m \<leftarrow> WriteFrameHeader buf Frame_kRecvPacket (word_of_int payload_len);
     m \<leftarrow> memcpy kFrameHeaderSize src_key 0 kKeySize m;
     m \<leftarrow> memcpy (kFrameHeaderSize + kKeySize) data 0 data_len m;
     Some (m, kFrameHeaderSize + payload_len) })"

definition BuildPeerGone :: "bytes \<Rightarrow> Key \<Rightarrow> PeerGoneReason \<Rightarrow> (bytes \<times> int) ub" where
  "BuildPeerGone buf peer_key reason = (let payload_len = kKeySize + 1 in do {
     m \<leftarrow> WriteFrameHeader buf Frame_kPeerGone (word_of_int payload_len);
     m \<leftarrow> memcpy kFrameHeaderSize peer_key 0 kKeySize m;
     m \<leftarrow> wr (kFrameHeaderSize + kKeySize) [PeerGoneReason_byte reason] m;
     Some (m, kFrameHeaderSize + payload_len) })"

definition BuildPeerPresent :: "bytes \<Rightarrow> Key \<Rightarrow> (bytes \<times> int) ub" where
  "BuildPeerPresent buf peer_key = do {
     m \<leftarrow> WriteFrameHeader buf Frame_kPeerPresent (word_of_int kKeySize);
     m \<leftarrow> memcpy kFrameHeaderSize peer_key 0 kKeySize m;
     Some (m, kFrameHeaderSize + kKeySize) }"

definition BuildKeepAlive :: "bytes \<Rightarrow> (bytes \<times> int) ub" where
  "BuildKeepAlive buf = do {
     m \<leftarrow> WriteFrameHeader buf Frame_kKeepAlive 0;
     Some (m, kFrameHeaderSize) }"

definition BuildPong :: "bytes \<Rightarrow> bytes \<Rightarrow> (bytes \<times> int) ub" where
  "BuildPong buf ping_data = do {
     m \<leftarrow> WriteFrameHeader buf Frame_kPong (word_of_int kPingDataSize);
     m \<leftarrow> memcpy kFrameHeaderSize ping_data 0 kPingDataSize m;
     Some (m, kFrameHeaderSize + kPingDataSize) }"

definition BuildHealth :: "bytes \<Rightarrow> bytes \<Rightarrow> int \<Rightarrow> (bytes \<times> int) ub" where
  "BuildHealth buf msg msg_len = do {
     m \<leftarrow> WriteFrameHeader buf Frame_kHealth (word_of_int msg_len);
     m \<leftarrow> memcpy kFrameHeaderSize msg 0 msg_len m;
     Some (m, kFrameHeaderSize + msg_len) }"

definition BuildServerKey :: "bytes \<Rightarrow> Key \<Rightarrow> (bytes \<times> int) ub" where
  "BuildServerKey buf server_key = do {
     m \<leftarrow> WriteFrameHeader buf Frame_kServerKey (word_of_int kKeySize);
     m \<leftarrow> memcpy kFrameHeaderSize server_key 0 kKeySize m;
     Some (m, kFrameHeaderSize + kKeySize) }"

definition BuildRestarting :: "bytes \<Rightarrow> u32 \<Rightarrow> u32 \<Rightarrow> (bytes \<times> int) ub" where
  "BuildRestarting buf reconnect_in_ms try_for_ms = do {
     m \<leftarrow> WriteFrameHeader buf Frame_kRestarting 8;
     m \<leftarrow> wr kFrameHeaderSize
            [ucast (drop_bit 24 reconnect_in_ms), ucast (drop_bit 16 reconnect_in_ms),
             ucast (drop_bit 8 reconnect_in_ms), ucast reconnect_in_ms,
             ucast (drop_bit 24 try_for_ms), ucast (drop_bit 16 try_for_ms),
             ucast (drop_bit 8 try_for_ms), ucast try_for_ms] m;
     Some (m, kFrameHeaderSize + 8) }"

section \<open>The abstract frame format and the builders\<close>

text \<open>The specification: a frame is a type byte, a big-endian length and the payload.\<close>

definition derp_frame :: "FrameType \<Rightarrow> bytes \<Rightarrow> bytes" where
  "derp_frame ty payload = FrameType_byte ty # be32 (of_nat (length payload)) @ payload"

text \<open>
  What every builder promises: when the frame fits, the buffer starts with the frame, the rest
  of the buffer is untouched and the reported size is the frame's; when it does not fit, some
  store is out of bounds.
\<close>

definition builds :: "bytes \<Rightarrow> bytes \<Rightarrow> (bytes \<times> int) ub \<Rightarrow> bool" where
  "builds buf frame r \<longleftrightarrow>
     r = (if length frame \<le> length buf
          then Some (wrote frame buf, int (length frame)) else None)"

lemma FrameType_byte_of [simp]: "FrameType_byte (FrameType_of b) = b"
  by (simp add: FrameType_of_def)

lemma FrameType_of_named [simp]:
  "(\<And>b. ty \<noteq> Frame_unnamed b) \<Longrightarrow> FrameType_of (FrameType_byte ty) = ty"
  by (cases ty) (simp_all add: FrameType_of_def)

lemma length_derp_frame [wire_simps, simp]: "length (derp_frame ty payload) = 5 + length payload"
  by (simp add: derp_frame_def)

lemma WriteFrameHeader_eq:
  "WriteFrameHeader buf ty len =
     (if 5 \<le> length buf then Some (wrote (FrameType_byte ty # be32 len) buf) else None)"
  by (simp add: WriteFrameHeader_def wr_start be32_def)

lemmas derp_build_simps =
  builds_def WriteFrameHeader_eq buf_simps derp_frame_def is_Key_def Let_def

lemma BuildRecvPacket_builds:
  assumes "is_Key k" and "n = int (length data)"
  shows "builds buf (derp_frame Frame_kRecvPacket (k @ data)) (BuildRecvPacket buf k data n)"
  using assms by (simp add: BuildRecvPacket_def derp_build_simps)

lemma BuildPeerGone_builds:
  "is_Key k \<Longrightarrow>
    builds buf (derp_frame Frame_kPeerGone (k @ [PeerGoneReason_byte r])) (BuildPeerGone buf k r)"
  by (simp add: BuildPeerGone_def derp_build_simps)

lemma BuildPeerPresent_builds:
  "is_Key k \<Longrightarrow> builds buf (derp_frame Frame_kPeerPresent k) (BuildPeerPresent buf k)"
  by (simp add: BuildPeerPresent_def derp_build_simps)

lemma BuildKeepAlive_builds: "builds buf (derp_frame Frame_kKeepAlive []) (BuildKeepAlive buf)"
  by (simp add: BuildKeepAlive_def derp_build_simps)

lemma BuildPong_builds:
  "int (length d) = kPingDataSize \<Longrightarrow> builds buf (derp_frame Frame_kPong d) (BuildPong buf d)"
  by (simp add: BuildPong_def derp_build_simps)

lemma BuildHealth_builds:
  "n = int (length msg) \<Longrightarrow> builds buf (derp_frame Frame_kHealth msg) (BuildHealth buf msg n)"
  by (simp add: BuildHealth_def derp_build_simps)

lemma BuildServerKey_builds:
  "is_Key k \<Longrightarrow> builds buf (derp_frame Frame_kServerKey k) (BuildServerKey buf k)"
  by (simp add: BuildServerKey_def derp_build_simps)

lemma BuildRestarting_builds:
  "builds buf (derp_frame Frame_kRestarting (be32 a @ be32 b)) (BuildRestarting buf a b)"
  by (simp add: BuildRestarting_def derp_build_simps be32_def)

section \<open>Properties\<close>

lemma rd8_wrote_hdr:
  "rd8 0 (wrote (t # be32 len) m) = Some t"
  "rd8 1 (wrote (t # be32 len) m) = Some (ucast (drop_bit 24 len))"
  "rd8 2 (wrote (t # be32 len) m) = Some (ucast (drop_bit 16 len))"
  "rd8 3 (wrote (t # be32 len) m) = Some (ucast (drop_bit 8 len))"
  "rd8 4 (wrote (t # be32 len) m) = Some (ucast len)"
  by (simp_all add: rd8_def wrote_def be32_def)

text \<open>
  A DERP frame header written by \<^const>\<open>WriteFrameHeader\<close> is read back unchanged: the
  length field carries every 32-bit length, the type byte every frame type, and no byte after
  the five header bytes changes.
\<close>

theorem derp_header_roundtrip:
  assumes "kFrameHeaderSize \<le> int (length buf)"
  shows "\<exists>m. WriteFrameHeader buf ty len = Some m \<and> ReadPayloadLen m = Some len \<and>
    ReadFrameType m = Some (FrameType_of (FrameType_byte ty)) \<and>
    length m = length buf \<and> drop 5 m = drop 5 buf"
  using assms
  by (simp add: WriteFrameHeader_eq ReadPayloadLen_def ReadFrameType_def rd8_wrote_hdr drop_wrote)

theorem derp_header_roundtrip_witness:
  "\<exists>m. WriteFrameHeader (replicate 6 0) Frame_kPing 65536 = Some m \<and>
    ReadPayloadLen m = Some 65536 \<and> ReadFrameType m = Some Frame_kPing"
  using derp_header_roundtrip [of "replicate 6 0" Frame_kPing 65536]
  by (auto simp: FrameType_of_def)

text \<open>
  Every DERP frame builder writes exactly the abstract frame (type, big-endian length,
  payload) at the start of the buffer, leaves the rest of the buffer alone and returns the
  frame's size; it is undefined exactly when the buffer is shorter than the frame.
\<close>

theorem derp_builders_exact:
  assumes k: "is_Key k" and ping: "int (length ping) = kPingDataSize"
  shows "builds buf (derp_frame Frame_kRecvPacket (k @ data))
           (BuildRecvPacket buf k data (int (length data))) \<and>
    builds buf (derp_frame Frame_kPeerGone (k @ [PeerGoneReason_byte r])) (BuildPeerGone buf k r) \<and>
    builds buf (derp_frame Frame_kPeerPresent k) (BuildPeerPresent buf k) \<and>
    builds buf (derp_frame Frame_kKeepAlive []) (BuildKeepAlive buf) \<and>
    builds buf (derp_frame Frame_kPong ping) (BuildPong buf ping) \<and>
    builds buf (derp_frame Frame_kHealth msg) (BuildHealth buf msg (int (length msg))) \<and>
    builds buf (derp_frame Frame_kServerKey k) (BuildServerKey buf k) \<and>
    builds buf (derp_frame Frame_kRestarting (be32 a @ be32 b)) (BuildRestarting buf a b)"
  using BuildRecvPacket_builds [OF k refl] BuildPeerGone_builds [OF k] BuildPeerPresent_builds [OF k]
    BuildKeepAlive_builds BuildPong_builds [OF ping] BuildHealth_builds [OF refl]
    BuildServerKey_builds [OF k] BuildRestarting_builds
  by simp

theorem derp_builders_exact_witness:
  "is_Key zero_Key \<and>
   builds (replicate 40 1) (derp_frame Frame_kRecvPacket (zero_Key @ [7]))
     (BuildRecvPacket (replicate 40 1) zero_Key [7] 1)"
proof -
  have "is_Key zero_Key" by (simp add: is_Key_def zero_Key_def)
  moreover have "int (length (replicate 8 (0::u8))) = kPingDataSize" by simp
  ultimately show ?thesis
    using derp_builders_exact [of zero_Key "replicate 8 0" "replicate 40 1" "[7]"
        Gone_kNotHere "[]" 0 0]
    by simp
qed

end
