(* ===== verification/Hd_Protocol.thy ===== *)
theory Hd_Protocol
  imports Derp_Protocol "HOL-Library.Signed_Division"
begin

text \<open>
  The HD wire protocol: \<^verbatim>\<open>include/hyper_derp/hd_protocol.h\<close> and \<^verbatim>\<open>src/hd_protocol.cc\<close>.
  Builders return the buffer after their stores and the value the C++ function returns
  (\<^verbatim>\<open>-1\<close> for a refused argument). Parsers take the payload, the length the caller claims for
  it and the output structure, and return the boolean of the C++ function with the structure as
  the function leaves it, also on the paths that return \<^verbatim>\<open>false\<close> half way.
\<close>

section \<open>Wire constants\<close>

definition kHdFrameHeaderSize :: int where [const_simps, simp]: "kHdFrameHeaderSize = 4"
definition kHdMaxFramePayload :: int where [const_simps, simp]: "kHdMaxFramePayload = 64 * 1024"
definition kHdPingDataSize :: int where [const_simps, simp]: "kHdPingDataSize = 8"
definition kHdMeshDstSize :: int where [const_simps, simp]: "kHdMeshDstSize = 2"
definition kHdFleetDstSize :: int where [const_simps, simp]: "kHdFleetDstSize = 4"
definition kHdRouteEntrySize :: int where [const_simps, simp]: "kHdRouteEntrySize = 3"
definition kHdRedirectMaxUrl :: int where [const_simps, simp]: "kHdRedirectMaxUrl = 256"
definition kHdOpenConnSize :: int where [const_simps, simp]: "kHdOpenConnSize = 14"
definition kHdIncomingConnSize :: int where [const_simps, simp]: "kHdIncomingConnSize = 44"
definition kHdIncomingRespSize :: int where [const_simps, simp]: "kHdIncomingRespSize = 11"
definition kHdIncomingResultSize :: int where [const_simps, simp]: "kHdIncomingResultSize = 12"
definition kHdOpenResultMinSize :: int where [const_simps, simp]: "kHdOpenResultMinSize = 16"
definition kHdMaxRelayPath :: int where [const_simps, simp]: "kHdMaxRelayPath = 32"
definition kHdMaxEndpointHint :: int where [const_simps, simp]: "kHdMaxEndpointHint = 128"
definition kHdMaxFleetIdLen :: int where [const_simps, simp]: "kHdMaxFleetIdLen = 64"
definition kHdRelayExtSize :: int where [const_simps, simp]: "kHdRelayExtSize = 7"
definition kHdFlagAllowUpgrade :: u8 where [const_simps, simp]: "kHdFlagAllowUpgrade = 0x01"
definition kHdFlagAllowDowngrade :: u8 where [const_simps, simp]: "kHdFlagAllowDowngrade = 0x02"
definition kHdFlagAccept :: u8 where [const_simps, simp]: "kHdFlagAccept = 0x01"

text \<open>The bytes of the literal \<^verbatim>\<open>"RELAY"\<close>.\<close>

definition kHdRelayMagic :: bytes where "kHdRelayMagic = [0x52, 0x45, 0x4C, 0x41, 0x59]"

section \<open>Enumerations\<close>

datatype HdFrameType =
    HdFrame_kData | HdFrame_kPing | HdFrame_kPong | HdFrame_kMeshData | HdFrame_kFleetData
  | HdFrame_kEnroll | HdFrame_kApproved | HdFrame_kDenied | HdFrame_kPeerInfo
  | HdFrame_kPeerGone | HdFrame_kRedirect | HdFrame_kOpenConnection
  | HdFrame_kOpenConnectionResult | HdFrame_kIncomingConnection
  | HdFrame_kIncomingConnResponse | HdFrame_kIncomingConnResult
  | HdFrame_kFleetOpenConnection | HdFrame_kFleetOpenConnectionResult
  | HdFrame_kRouteAnnounce | HdFrame_unnamed u8

fun HdFrameType_byte :: "HdFrameType \<Rightarrow> u8" where
  "HdFrameType_byte HdFrame_kData = 0x01"
| "HdFrameType_byte HdFrame_kPing = 0x02"
| "HdFrameType_byte HdFrame_kPong = 0x03"
| "HdFrameType_byte HdFrame_kMeshData = 0x04"
| "HdFrameType_byte HdFrame_kFleetData = 0x05"
| "HdFrameType_byte HdFrame_kEnroll = 0x10"
| "HdFrameType_byte HdFrame_kApproved = 0x11"
| "HdFrameType_byte HdFrame_kDenied = 0x12"
| "HdFrameType_byte HdFrame_kPeerInfo = 0x20"
| "HdFrameType_byte HdFrame_kPeerGone = 0x21"
| "HdFrameType_byte HdFrame_kRedirect = 0x22"
| "HdFrameType_byte HdFrame_kOpenConnection = 0x23"
| "HdFrameType_byte HdFrame_kOpenConnectionResult = 0x24"
| "HdFrameType_byte HdFrame_kIncomingConnection = 0x25"
| "HdFrameType_byte HdFrame_kIncomingConnResponse = 0x26"
| "HdFrameType_byte HdFrame_kIncomingConnResult = 0x27"
| "HdFrameType_byte HdFrame_kFleetOpenConnection = 0x28"
| "HdFrameType_byte HdFrame_kFleetOpenConnectionResult = 0x29"
| "HdFrameType_byte HdFrame_kRouteAnnounce = 0x30"
| "HdFrameType_byte (HdFrame_unnamed b) = b"

definition HdFrameType_of :: "u8 \<Rightarrow> HdFrameType" where
  "HdFrameType_of b =
     (if b = 0x01 then HdFrame_kData else if b = 0x02 then HdFrame_kPing
      else if b = 0x03 then HdFrame_kPong else if b = 0x04 then HdFrame_kMeshData
      else if b = 0x05 then HdFrame_kFleetData else if b = 0x10 then HdFrame_kEnroll
      else if b = 0x11 then HdFrame_kApproved else if b = 0x12 then HdFrame_kDenied
      else if b = 0x20 then HdFrame_kPeerInfo else if b = 0x21 then HdFrame_kPeerGone
      else if b = 0x22 then HdFrame_kRedirect else if b = 0x23 then HdFrame_kOpenConnection
      else if b = 0x24 then HdFrame_kOpenConnectionResult
      else if b = 0x25 then HdFrame_kIncomingConnection
      else if b = 0x26 then HdFrame_kIncomingConnResponse
      else if b = 0x27 then HdFrame_kIncomingConnResult
      else if b = 0x28 then HdFrame_kFleetOpenConnection
      else if b = 0x29 then HdFrame_kFleetOpenConnectionResult
      else if b = 0x30 then HdFrame_kRouteAnnounce else HdFrame_unnamed b)"

datatype HdIntent =
    Intent_kPreferDirect | Intent_kRequireDirect | Intent_kPreferRelay | Intent_kRequireRelay
  | Intent_unnamed u8

fun HdIntent_byte :: "HdIntent \<Rightarrow> u8" where
  "HdIntent_byte Intent_kPreferDirect = 0"
| "HdIntent_byte Intent_kRequireDirect = 1"
| "HdIntent_byte Intent_kPreferRelay = 2"
| "HdIntent_byte Intent_kRequireRelay = 3"
| "HdIntent_byte (Intent_unnamed b) = b"

definition HdIntent_of :: "u8 \<Rightarrow> HdIntent" where
  "HdIntent_of b =
     (if b = 0 then Intent_kPreferDirect else if b = 1 then Intent_kRequireDirect
      else if b = 2 then Intent_kPreferRelay else if b = 3 then Intent_kRequireRelay
      else Intent_unnamed b)"

datatype HdConnMode = Mode_kDenied | Mode_kDirect | Mode_kRelayed | Mode_unnamed u8

fun HdConnMode_byte :: "HdConnMode \<Rightarrow> u8" where
  "HdConnMode_byte Mode_kDenied = 0"
| "HdConnMode_byte Mode_kDirect = 1"
| "HdConnMode_byte Mode_kRelayed = 2"
| "HdConnMode_byte (Mode_unnamed b) = b"

definition HdConnMode_of :: "u8 \<Rightarrow> HdConnMode" where
  "HdConnMode_of b =
     (if b = 0 then Mode_kDenied else if b = 1 then Mode_kDirect
      else if b = 2 then Mode_kRelayed else Mode_unnamed b)"

datatype HdDenyReason =
    Deny_kNone | Deny_kPolicyForbids | Deny_kPairForbids | Deny_kPeerUnreachable
  | Deny_kTargetUnresponsive | Deny_kTooManyOpenConns | Deny_kFleetRoutingNotImplemented
  | Deny_kIntentConflict | Deny_kPeerOverride | Deny_kDirectCapExceeded
  | Deny_kRegionPolicyViolation | Deny_kFederationDenied | Deny_kNatIncompatible
  | Deny_unnamed u16

fun HdDenyReason_word :: "HdDenyReason \<Rightarrow> u16" where
  "HdDenyReason_word Deny_kNone = 0x0000"
| "HdDenyReason_word Deny_kPolicyForbids = 0x0001"
| "HdDenyReason_word Deny_kPairForbids = 0x0002"
| "HdDenyReason_word Deny_kPeerUnreachable = 0x0003"
| "HdDenyReason_word Deny_kTargetUnresponsive = 0x0004"
| "HdDenyReason_word Deny_kTooManyOpenConns = 0x0005"
| "HdDenyReason_word Deny_kFleetRoutingNotImplemented = 0x0006"
| "HdDenyReason_word Deny_kIntentConflict = 0x0101"
| "HdDenyReason_word Deny_kPeerOverride = 0x0102"
| "HdDenyReason_word Deny_kDirectCapExceeded = 0x0201"
| "HdDenyReason_word Deny_kRegionPolicyViolation = 0x0301"
| "HdDenyReason_word Deny_kFederationDenied = 0x0401"
| "HdDenyReason_word Deny_kNatIncompatible = 0x0501"
| "HdDenyReason_word (Deny_unnamed w) = w"

definition HdDenyReason_of :: "u16 \<Rightarrow> HdDenyReason" where
  "HdDenyReason_of w =
     (if w = 0x0000 then Deny_kNone else if w = 0x0001 then Deny_kPolicyForbids
      else if w = 0x0002 then Deny_kPairForbids else if w = 0x0003 then Deny_kPeerUnreachable
      else if w = 0x0004 then Deny_kTargetUnresponsive
      else if w = 0x0005 then Deny_kTooManyOpenConns
      else if w = 0x0006 then Deny_kFleetRoutingNotImplemented
      else if w = 0x0101 then Deny_kIntentConflict else if w = 0x0102 then Deny_kPeerOverride
      else if w = 0x0201 then Deny_kDirectCapExceeded
      else if w = 0x0301 then Deny_kRegionPolicyViolation
      else if w = 0x0401 then Deny_kFederationDenied
      else if w = 0x0501 then Deny_kNatIncompatible else Deny_unnamed w)"

datatype HdRedirectReason =
    Redirect_kDraining | Redirect_kRebalancing | Redirect_kGeoCorrection
  | Redirect_kPolicyRequired | Redirect_kCapacityFull | Redirect_unnamed u8

fun HdRedirectReason_byte :: "HdRedirectReason \<Rightarrow> u8" where
  "HdRedirectReason_byte Redirect_kDraining = 0x01"
| "HdRedirectReason_byte Redirect_kRebalancing = 0x02"
| "HdRedirectReason_byte Redirect_kGeoCorrection = 0x03"
| "HdRedirectReason_byte Redirect_kPolicyRequired = 0x04"
| "HdRedirectReason_byte Redirect_kCapacityFull = 0x05"
| "HdRedirectReason_byte (Redirect_unnamed b) = b"

definition HdRedirectReason_of :: "u8 \<Rightarrow> HdRedirectReason" where
  "HdRedirectReason_of b =
     (if b = 0x01 then Redirect_kDraining else if b = 0x02 then Redirect_kRebalancing
      else if b = 0x03 then Redirect_kGeoCorrection else if b = 0x04 then Redirect_kPolicyRequired
      else if b = 0x05 then Redirect_kCapacityFull else Redirect_unnamed b)"

section \<open>Frame header codec and payload accessors\<close>

definition HdReadFrameType :: "bytes \<Rightarrow> HdFrameType ub" where
  "HdReadFrameType hdr = do { b \<leftarrow> rd8 0 hdr; Some (HdFrameType_of b) }"

definition HdReadPayloadLen :: "bytes \<Rightarrow> u32 ub" where
  "HdReadPayloadLen hdr = do {
     b1 \<leftarrow> rd8 1 hdr; b2 \<leftarrow> rd8 2 hdr; b3 \<leftarrow> rd8 3 hdr; Some (of_be24 b1 b2 b3) }"

definition HdWriteFrameHeader :: "bytes \<Rightarrow> HdFrameType \<Rightarrow> u32 \<Rightarrow> bytes ub" where
  "HdWriteFrameHeader hdr ty payload_len =
     wr 0 [HdFrameType_byte ty, ucast (drop_bit 16 payload_len),
           ucast (drop_bit 8 payload_len), ucast payload_len] hdr"

definition HdIsValidPayloadLen :: "u32 \<Rightarrow> bool" where
  "HdIsValidPayloadLen len \<longleftrightarrow> uint len \<le> kHdMaxFramePayload"

definition ReadU16 :: "int \<Rightarrow> bytes \<Rightarrow> u16 ub" where
  "ReadU16 off p = do { a \<leftarrow> rd8 off p; b \<leftarrow> rd8 (off + 1) p; Some (of_be16 a b) }"

definition WriteU16 :: "int \<Rightarrow> u16 \<Rightarrow> bytes \<Rightarrow> bytes ub" where
  "WriteU16 off v m = wr off [ucast (drop_bit 8 v), ucast v] m"

definition ReadU64 :: "int \<Rightarrow> bytes \<Rightarrow> u64 ub" where
  "ReadU64 off p = do { bs \<leftarrow> rd off 8 p; Some (fold (\<lambda>b v. push_bit 8 v OR ucast b) bs 0) }"

definition WriteU64 :: "int \<Rightarrow> u64 \<Rightarrow> bytes \<Rightarrow> bytes ub" where
  "WriteU64 off v m = wr off (map (\<lambda>i. ucast (drop_bit (56 - i * 8) v)) [0..<8]) m"

definition HdReadMeshDst :: "bytes \<Rightarrow> u16 ub" where
  "HdReadMeshDst payload = do { a \<leftarrow> rd8 0 payload; b \<leftarrow> rd8 1 payload; Some (of_be16 a b) }"

definition HdReadFleetRelay :: "bytes \<Rightarrow> u16 ub" where
  "HdReadFleetRelay payload = do { a \<leftarrow> rd8 0 payload; b \<leftarrow> rd8 1 payload; Some (of_be16 a b) }"

definition HdReadFleetPeer :: "bytes \<Rightarrow> u16 ub" where
  "HdReadFleetPeer payload = do { a \<leftarrow> rd8 2 payload; b \<leftarrow> rd8 3 payload; Some (of_be16 a b) }"

section \<open>Frame builders\<close>

definition HdBuildDataHeader :: "bytes \<Rightarrow> int \<Rightarrow> (bytes \<times> int) ub" where
  "HdBuildDataHeader buf payload_len = do {
     m \<leftarrow> HdWriteFrameHeader buf HdFrame_kData (word_of_int payload_len);
     Some (m, kHdFrameHeaderSize) }"

definition HdBuildPing :: "bytes \<Rightarrow> bytes \<Rightarrow> (bytes \<times> int) ub" where
  "HdBuildPing buf data = do {
     m \<leftarrow> HdWriteFrameHeader buf HdFrame_kPing (word_of_int kHdPingDataSize);
     m \<leftarrow> memcpy kHdFrameHeaderSize data 0 kHdPingDataSize m;
     Some (m, kHdFrameHeaderSize + kHdPingDataSize) }"

definition HdBuildPong :: "bytes \<Rightarrow> bytes \<Rightarrow> (bytes \<times> int) ub" where
  "HdBuildPong buf data = do {
     m \<leftarrow> HdWriteFrameHeader buf HdFrame_kPong (word_of_int kHdPingDataSize);
     m \<leftarrow> memcpy kHdFrameHeaderSize data 0 kHdPingDataSize m;
     Some (m, kHdFrameHeaderSize + kHdPingDataSize) }"

definition HdBuildEnroll :: "bytes \<Rightarrow> Key \<Rightarrow> bytes \<Rightarrow> int \<Rightarrow> (bytes \<times> int) ub" where
  "HdBuildEnroll buf client_key hmac hmac_len = (let payload_len = kKeySize + hmac_len in do {
     m \<leftarrow> HdWriteFrameHeader buf HdFrame_kEnroll (word_of_int payload_len);
     m \<leftarrow> memcpy kHdFrameHeaderSize client_key 0 kKeySize m;
     m \<leftarrow> memcpy (kHdFrameHeaderSize + kKeySize) hmac 0 hmac_len m;
     Some (m, kHdFrameHeaderSize + payload_len) })"

definition HdBuildApproved :: "bytes \<Rightarrow> Key \<Rightarrow> (bytes \<times> int) ub" where
  "HdBuildApproved buf client_key = do {
     m \<leftarrow> HdWriteFrameHeader buf HdFrame_kApproved (word_of_int kKeySize);
     m \<leftarrow> memcpy kHdFrameHeaderSize client_key 0 kKeySize m;
     Some (m, kHdFrameHeaderSize + kKeySize) }"

definition HdBuildDenied :: "bytes \<Rightarrow> u8 \<Rightarrow> bytes \<Rightarrow> int \<Rightarrow> (bytes \<times> int) ub" where
  "HdBuildDenied buf reason msg msg_len = (let payload_len = 1 + msg_len in do {
     m \<leftarrow> HdWriteFrameHeader buf HdFrame_kDenied (word_of_int payload_len);
     m \<leftarrow> wr kHdFrameHeaderSize [reason] m;
     m \<leftarrow> memcpy (kHdFrameHeaderSize + 1) msg 0 msg_len m;
     Some (m, kHdFrameHeaderSize + payload_len) })"

definition HdBuildPeerGone :: "bytes \<Rightarrow> Key \<Rightarrow> u8 \<Rightarrow> (bytes \<times> int) ub" where
  "HdBuildPeerGone buf peer_key reason = (let payload_len = kKeySize + 1 in do {
     m \<leftarrow> HdWriteFrameHeader buf HdFrame_kPeerGone (word_of_int payload_len);
     m \<leftarrow> memcpy kHdFrameHeaderSize peer_key 0 kKeySize m;
     m \<leftarrow> wr (kHdFrameHeaderSize + kKeySize) [reason] m;
     Some (m, kHdFrameHeaderSize + payload_len) })"

definition HdBuildPeerInfo :: "bytes \<Rightarrow> Key \<Rightarrow> bytes \<Rightarrow> int \<Rightarrow> (bytes \<times> int) ub" where
  "HdBuildPeerInfo buf peer_key candidate_data candidate_len =
     (let payload_len = kKeySize + candidate_len in do {
     m \<leftarrow> HdWriteFrameHeader buf HdFrame_kPeerInfo (word_of_int payload_len);
     m \<leftarrow> memcpy kHdFrameHeaderSize peer_key 0 kKeySize m;
     m \<leftarrow> (if candidate_len > 0
           then memcpy (kHdFrameHeaderSize + kKeySize) candidate_data 0 candidate_len m
           else Some m);
     Some (m, kHdFrameHeaderSize + payload_len) })"

definition HdBuildMeshDataHeader :: "bytes \<Rightarrow> u16 \<Rightarrow> int \<Rightarrow> (bytes \<times> int) ub" where
  "HdBuildMeshDataHeader buf dst_peer_id payload_len = do {
     m \<leftarrow> HdWriteFrameHeader buf HdFrame_kMeshData (word_of_int (kHdMeshDstSize + payload_len));
     m \<leftarrow> wr kHdFrameHeaderSize [ucast (drop_bit 8 dst_peer_id), ucast dst_peer_id] m;
     Some (m, kHdFrameHeaderSize + kHdMeshDstSize) }"

definition HdBuildFleetDataHeader :: "bytes \<Rightarrow> u16 \<Rightarrow> u16 \<Rightarrow> int \<Rightarrow> (bytes \<times> int) ub" where
  "HdBuildFleetDataHeader buf dst_relay_id dst_peer_id payload_len = do {
     m \<leftarrow> HdWriteFrameHeader buf HdFrame_kFleetData (word_of_int (kHdFleetDstSize + payload_len));
     m \<leftarrow> wr kHdFrameHeaderSize
            [ucast (drop_bit 8 dst_relay_id), ucast dst_relay_id,
             ucast (drop_bit 8 dst_peer_id), ucast dst_peer_id] m;
     Some (m, kHdFrameHeaderSize + kHdFleetDstSize) }"

text \<open>
  The loop of \<^verbatim>\<open>HdBuildRouteAnnounce\<close> from iteration \<open>i\<close> on, with \<open>n\<close> iterations left
  and the write pointer at \<open>p\<close>.
\<close>

fun route_announce_loop :: "nat \<Rightarrow> int \<Rightarrow> int \<Rightarrow> u16 list \<Rightarrow> u8 list \<Rightarrow> bytes \<Rightarrow> bytes ub" where
  "route_announce_loop 0 i p relay_ids hops m = Some m"
| "route_announce_loop (Suc n) i p relay_ids hops m = do {
     r \<leftarrow> arr_get i relay_ids; h \<leftarrow> arr_get i hops;
     m \<leftarrow> wr p [ucast (drop_bit 8 r), ucast r, h] m;
     route_announce_loop n (i + 1) (p + kHdRouteEntrySize) relay_ids hops m }"

definition HdBuildRouteAnnounce ::
  "bytes \<Rightarrow> int \<Rightarrow> u16 list \<Rightarrow> u8 list \<Rightarrow> int \<Rightarrow> (bytes \<times> int) ub" where
  "HdBuildRouteAnnounce buf buf_size relay_ids hops count =
     (let payload_len = count * kHdRouteEntrySize;
          total = kHdFrameHeaderSize + payload_len in
      if total > buf_size then Some (buf, -1) else do {
        m \<leftarrow> HdWriteFrameHeader buf HdFrame_kRouteAnnounce (word_of_int payload_len);
        m \<leftarrow> route_announce_loop (nat count) 0 kHdFrameHeaderSize relay_ids hops m;
        Some (m, total) })"

fun route_parse_loop ::
  "nat \<Rightarrow> int \<Rightarrow> int \<Rightarrow> bytes \<Rightarrow> u16 list \<Rightarrow> u8 list \<Rightarrow> (u16 list \<times> u8 list) ub" where
  "route_parse_loop 0 i p payload ids hops = Some (ids, hops)"
| "route_parse_loop (Suc n) i p payload ids hops = do {
     a \<leftarrow> rd8 p payload; b \<leftarrow> rd8 (p + 1) payload; h \<leftarrow> rd8 (p + 2) payload;
     ids \<leftarrow> arr_set i (of_be16 a b) ids; hops \<leftarrow> arr_set i h hops;
     route_parse_loop n (i + 1) (p + kHdRouteEntrySize) payload ids hops }"

definition HdParseRouteAnnounce ::
  "bytes \<Rightarrow> int \<Rightarrow> u16 list \<Rightarrow> u8 list \<Rightarrow> int \<Rightarrow> (u16 list \<times> u8 list \<times> int) ub" where
  "HdParseRouteAnnounce payload payload_len out_ids out_hops max_out =
     (let entry_count = payload_len sdiv kHdRouteEntrySize;
          entry_count = (if entry_count > max_out then max_out else entry_count) in do {
        (ids, hops) \<leftarrow> route_parse_loop (nat entry_count) 0 0 payload out_ids out_hops;
        Some (ids, hops, entry_count) })"

section \<open>Routing policy frames\<close>

record HdOpenConnection =
  oc_target_peer_id :: u16
  oc_target_relay_id :: u16
  oc_intent :: HdIntent
  oc_flags :: u8
  oc_correlation_id :: u64

record HdOpenConnectionResult =
  ocr_correlation_id :: u64
  ocr_mode :: HdConnMode
  ocr_deny_reason :: HdDenyReason
  ocr_sub_reason :: u8
  ocr_relay_path :: "u16 list" \<comment> \<open>\<^verbatim>\<open>uint16_t relay_path[kHdMaxRelayPath]\<close>\<close>
  ocr_relay_path_len :: int
  ocr_endpoint_hint :: bytes \<comment> \<open>\<^verbatim>\<open>char endpoint_hint[kHdMaxEndpointHint + 1]\<close>\<close>
  ocr_endpoint_hint_len :: int

record HdIncomingConnection =
  ic_initiator_key :: Key
  ic_initiator_peer_id :: u16
  ic_intent :: HdIntent
  ic_flags :: u8
  ic_correlation_id :: u64

record HdIncomingConnResponse =
  icr_correlation_id :: u64
  icr_intent :: HdIntent
  icr_flags :: u8
  icr_accept :: u8

record HdIncomingConnResult =
  ics_correlation_id :: u64
  ics_mode :: HdConnMode
  ics_deny_reason :: HdDenyReason
  ics_sub_reason :: u8

record HdFleetOpenConnection =
  foc_origin_relay_id :: u16
  foc_origin_fleet_id :: bytes \<comment> \<open>\<^verbatim>\<open>char origin_fleet_id[kHdMaxFleetIdLen + 1]\<close>\<close>
  foc_origin_fleet_id_len :: int
  foc_target_key :: Key
  foc_inner_conn :: bytes \<comment> \<open>\<^verbatim>\<open>uint8_t inner_conn[kHdOpenConnSize]\<close>\<close>

definition HdBuildOpenConnection ::
  "bytes \<Rightarrow> u16 \<Rightarrow> u16 \<Rightarrow> HdIntent \<Rightarrow> u8 \<Rightarrow> u64 \<Rightarrow> (bytes \<times> int) ub" where
  "HdBuildOpenConnection buf target_peer_id target_relay_id intent flags correlation_id = do {
     m \<leftarrow> HdWriteFrameHeader buf HdFrame_kOpenConnection (word_of_int kHdOpenConnSize);
     m \<leftarrow> WriteU16 kHdFrameHeaderSize target_peer_id m;
     m \<leftarrow> WriteU16 (kHdFrameHeaderSize + 2) target_relay_id m;
     m \<leftarrow> wr (kHdFrameHeaderSize + 4) [HdIntent_byte intent] m;
     m \<leftarrow> wr (kHdFrameHeaderSize + 5) [flags] m;
     m \<leftarrow> WriteU64 (kHdFrameHeaderSize + 6) correlation_id m;
     Some (m, kHdFrameHeaderSize + kHdOpenConnSize) }"

definition HdParseOpenConnection ::
  "bytes \<Rightarrow> int \<Rightarrow> HdOpenConnection \<Rightarrow> (bool \<times> HdOpenConnection) ub" where
  "HdParseOpenConnection payload payload_len out =
     (if payload_len \<noteq> kHdOpenConnSize then Some (False, out) else do {
        t \<leftarrow> ReadU16 0 payload;
        r \<leftarrow> ReadU16 2 payload;
        i \<leftarrow> rd8 4 payload;
        f \<leftarrow> rd8 5 payload;
        c \<leftarrow> ReadU64 6 payload;
        Some (True, out\<lparr>oc_target_peer_id := t, oc_target_relay_id := r,
          oc_intent := HdIntent_of i, oc_flags := f, oc_correlation_id := c\<rparr>) })"

text \<open>\<^verbatim>\<open>for (i = 0; i < n; i++) { WriteU16(q, path[i]); q += 2; }\<close>\<close>

fun write_path_loop :: "nat \<Rightarrow> int \<Rightarrow> int \<Rightarrow> u16 list \<Rightarrow> bytes \<Rightarrow> bytes ub" where
  "write_path_loop 0 i q path m = Some m"
| "write_path_loop (Suc n) i q path m = do {
     v \<leftarrow> arr_get i path;
     m \<leftarrow> WriteU16 q v m;
     write_path_loop n (i + 1) (q + 2) path m }"

definition HdBuildOpenConnectionResult ::
  "bytes \<Rightarrow> int \<Rightarrow> u64 \<Rightarrow> HdConnMode \<Rightarrow> HdDenyReason \<Rightarrow> u8 \<Rightarrow> u16 list \<Rightarrow> int \<Rightarrow> bytes \<Rightarrow> int \<Rightarrow>
   (bytes \<times> int) ub" where
  "HdBuildOpenConnectionResult buf buf_size correlation_id mode deny_reason sub_reason
       relay_path relay_path_len endpoint_hint endpoint_hint_len =
     (if relay_path_len < 0 \<or> relay_path_len > kHdMaxRelayPath then Some (buf, -1)
      else if endpoint_hint_len < 0 \<or> endpoint_hint_len > kHdMaxEndpointHint then Some (buf, -1)
      else (let payload_len = kHdOpenResultMinSize + relay_path_len * 2 + endpoint_hint_len;
                total = kHdFrameHeaderSize + payload_len in
        if total > buf_size then Some (buf, -1) else do {
          m \<leftarrow> HdWriteFrameHeader buf HdFrame_kOpenConnectionResult (word_of_int payload_len);
          m \<leftarrow> WriteU64 kHdFrameHeaderSize correlation_id m;
          m \<leftarrow> wr (kHdFrameHeaderSize + 8) [HdConnMode_byte mode] m;
          m \<leftarrow> WriteU16 (kHdFrameHeaderSize + 9) (HdDenyReason_word deny_reason) m;
          m \<leftarrow> wr (kHdFrameHeaderSize + 11) [sub_reason] m;
          m \<leftarrow> WriteU16 (kHdFrameHeaderSize + 12) (word_of_int relay_path_len) m;
          m \<leftarrow> write_path_loop (nat relay_path_len) 0 (kHdFrameHeaderSize + 14) relay_path m;
          m \<leftarrow> WriteU16 (kHdFrameHeaderSize + 14 + relay_path_len * 2)
                 (word_of_int endpoint_hint_len) m;
          m \<leftarrow> (if endpoint_hint_len > 0
                then memcpy (kHdFrameHeaderSize + 16 + relay_path_len * 2)
                       endpoint_hint 0 endpoint_hint_len m
                else Some m);
          Some (m, total) }))"

text \<open>\<^verbatim>\<open>for (i = 0; i < n; i++) out->relay_path[i] = ReadU16(payload + 14 + i * 2);\<close>\<close>

fun read_path_loop :: "nat \<Rightarrow> int \<Rightarrow> bytes \<Rightarrow> u16 list \<Rightarrow> u16 list ub" where
  "read_path_loop 0 i payload path = Some path"
| "read_path_loop (Suc n) i payload path = do {
     v \<leftarrow> ReadU16 (14 + i * 2) payload;
     path \<leftarrow> arr_set i v path;
     read_path_loop n (i + 1) payload path }"

definition HdParseOpenConnectionResult ::
  "bytes \<Rightarrow> int \<Rightarrow> HdOpenConnectionResult \<Rightarrow> (bool \<times> HdOpenConnectionResult) ub" where
  "HdParseOpenConnectionResult payload payload_len out =
     (if payload_len < kHdOpenResultMinSize then Some (False, out) else do {
        c \<leftarrow> ReadU64 0 payload;
        md \<leftarrow> rd8 8 payload;
        dr \<leftarrow> ReadU16 9 payload;
        sr \<leftarrow> rd8 11 payload;
        let out = out\<lparr>ocr_correlation_id := c, ocr_mode := HdConnMode_of md,
                      ocr_deny_reason := HdDenyReason_of dr, ocr_sub_reason := sr\<rparr>;
        pl \<leftarrow> ReadU16 12 payload;
        let path_len = uint pl;
        if path_len > kHdMaxRelayPath then Some (False, out) else do {
          let fixed = kHdOpenResultMinSize + path_len * 2;
          if payload_len < fixed then Some (False, out) else do {
            path \<leftarrow> read_path_loop (nat path_len) 0 payload (ocr_relay_path out);
            let out = out\<lparr>ocr_relay_path := path, ocr_relay_path_len := path_len\<rparr>;
            hl \<leftarrow> ReadU16 (14 + path_len * 2) payload;
            let hint_len = uint hl;
            if hint_len > kHdMaxEndpointHint then Some (False, out)
            else if payload_len \<noteq> fixed + hint_len then Some (False, out)
            else do {
              hint \<leftarrow> (if hint_len > 0
                       then memcpy 0 payload (16 + path_len * 2) hint_len (ocr_endpoint_hint out)
                       else Some (ocr_endpoint_hint out));
              hint \<leftarrow> wr hint_len [0] hint;
              Some (True, out\<lparr>ocr_endpoint_hint := hint, ocr_endpoint_hint_len := hint_len\<rparr>) } } } })"

definition HdBuildIncomingConnection ::
  "bytes \<Rightarrow> Key \<Rightarrow> u16 \<Rightarrow> HdIntent \<Rightarrow> u8 \<Rightarrow> u64 \<Rightarrow> (bytes \<times> int) ub" where
  "HdBuildIncomingConnection buf initiator_key initiator_peer_id intent flags correlation_id = do {
     m \<leftarrow> HdWriteFrameHeader buf HdFrame_kIncomingConnection (word_of_int kHdIncomingConnSize);
     m \<leftarrow> memcpy kHdFrameHeaderSize initiator_key 0 kKeySize m;
     m \<leftarrow> WriteU16 (kHdFrameHeaderSize + 32) initiator_peer_id m;
     m \<leftarrow> wr (kHdFrameHeaderSize + 34) [HdIntent_byte intent] m;
     m \<leftarrow> wr (kHdFrameHeaderSize + 35) [flags] m;
     m \<leftarrow> WriteU64 (kHdFrameHeaderSize + 36) correlation_id m;
     Some (m, kHdFrameHeaderSize + kHdIncomingConnSize) }"

definition HdParseIncomingConnection ::
  "bytes \<Rightarrow> int \<Rightarrow> HdIncomingConnection \<Rightarrow> (bool \<times> HdIncomingConnection) ub" where
  "HdParseIncomingConnection payload payload_len out =
     (if payload_len \<noteq> kHdIncomingConnSize then Some (False, out) else do {
        k \<leftarrow> memcpy 0 payload 0 kKeySize (ic_initiator_key out);
        p \<leftarrow> ReadU16 32 payload;
        i \<leftarrow> rd8 34 payload;
        f \<leftarrow> rd8 35 payload;
        c \<leftarrow> ReadU64 36 payload;
        Some (True, out\<lparr>ic_initiator_key := k, ic_initiator_peer_id := p,
          ic_intent := HdIntent_of i, ic_flags := f, ic_correlation_id := c\<rparr>) })"

definition HdBuildIncomingConnResponse ::
  "bytes \<Rightarrow> u64 \<Rightarrow> HdIntent \<Rightarrow> u8 \<Rightarrow> u8 \<Rightarrow> (bytes \<times> int) ub" where
  "HdBuildIncomingConnResponse buf correlation_id intent flags accept = do {
     m \<leftarrow> HdWriteFrameHeader buf HdFrame_kIncomingConnResponse (word_of_int kHdIncomingRespSize);
     m \<leftarrow> WriteU64 kHdFrameHeaderSize correlation_id m;
     m \<leftarrow> wr (kHdFrameHeaderSize + 8) [HdIntent_byte intent] m;
     m \<leftarrow> wr (kHdFrameHeaderSize + 9) [flags] m;
     m \<leftarrow> wr (kHdFrameHeaderSize + 10) [accept] m;
     Some (m, kHdFrameHeaderSize + kHdIncomingRespSize) }"

definition HdParseIncomingConnResponse ::
  "bytes \<Rightarrow> int \<Rightarrow> HdIncomingConnResponse \<Rightarrow> (bool \<times> HdIncomingConnResponse) ub" where
  "HdParseIncomingConnResponse payload payload_len out =
     (if payload_len \<noteq> kHdIncomingRespSize then Some (False, out) else do {
        c \<leftarrow> ReadU64 0 payload;
        i \<leftarrow> rd8 8 payload;
        f \<leftarrow> rd8 9 payload;
        a \<leftarrow> rd8 10 payload;
        Some (True, out\<lparr>icr_correlation_id := c, icr_intent := HdIntent_of i,
          icr_flags := f, icr_accept := a\<rparr>) })"

definition HdBuildIncomingConnResult ::
  "bytes \<Rightarrow> u64 \<Rightarrow> HdConnMode \<Rightarrow> HdDenyReason \<Rightarrow> u8 \<Rightarrow> (bytes \<times> int) ub" where
  "HdBuildIncomingConnResult buf correlation_id mode deny_reason sub_reason = do {
     m \<leftarrow> HdWriteFrameHeader buf HdFrame_kIncomingConnResult (word_of_int kHdIncomingResultSize);
     m \<leftarrow> WriteU64 kHdFrameHeaderSize correlation_id m;
     m \<leftarrow> wr (kHdFrameHeaderSize + 8) [HdConnMode_byte mode] m;
     m \<leftarrow> WriteU16 (kHdFrameHeaderSize + 9) (HdDenyReason_word deny_reason) m;
     m \<leftarrow> wr (kHdFrameHeaderSize + 11) [sub_reason] m;
     Some (m, kHdFrameHeaderSize + kHdIncomingResultSize) }"

definition HdParseIncomingConnResult ::
  "bytes \<Rightarrow> int \<Rightarrow> HdIncomingConnResult \<Rightarrow> (bool \<times> HdIncomingConnResult) ub" where
  "HdParseIncomingConnResult payload payload_len out =
     (if payload_len \<noteq> kHdIncomingResultSize then Some (False, out) else do {
        c \<leftarrow> ReadU64 0 payload;
        md \<leftarrow> rd8 8 payload;
        dr \<leftarrow> ReadU16 9 payload;
        sr \<leftarrow> rd8 11 payload;
        Some (True, out\<lparr>ics_correlation_id := c, ics_mode := HdConnMode_of md,
          ics_deny_reason := HdDenyReason_of dr, ics_sub_reason := sr\<rparr>) })"

definition HdBuildFleetOpenConnection ::
  "bytes \<Rightarrow> int \<Rightarrow> u16 \<Rightarrow> bytes \<Rightarrow> int \<Rightarrow> Key \<Rightarrow> bytes \<Rightarrow> int \<Rightarrow> (bytes \<times> int) ub" where
  "HdBuildFleetOpenConnection buf buf_size origin_relay_id origin_fleet_id origin_fleet_id_len
       target_key inner_conn inner_conn_len =
     (if origin_fleet_id_len < 0 \<or> origin_fleet_id_len > kHdMaxFleetIdLen then Some (buf, -1)
      else if inner_conn_len \<noteq> kHdOpenConnSize then Some (buf, -1)
      else (let payload_len = 2 + 2 + origin_fleet_id_len + kKeySize + kHdOpenConnSize;
                total = kHdFrameHeaderSize + payload_len in
        if total > buf_size then Some (buf, -1) else do {
          m \<leftarrow> HdWriteFrameHeader buf HdFrame_kFleetOpenConnection (word_of_int payload_len);
          m \<leftarrow> WriteU16 kHdFrameHeaderSize origin_relay_id m;
          m \<leftarrow> WriteU16 (kHdFrameHeaderSize + 2) (word_of_int origin_fleet_id_len) m;
          m \<leftarrow> (if origin_fleet_id_len > 0
                then memcpy (kHdFrameHeaderSize + 4) origin_fleet_id 0 origin_fleet_id_len m
                else Some m);
          m \<leftarrow> memcpy (kHdFrameHeaderSize + 4 + origin_fleet_id_len) target_key 0 kKeySize m;
          m \<leftarrow> memcpy (kHdFrameHeaderSize + 4 + origin_fleet_id_len + kKeySize)
                 inner_conn 0 inner_conn_len m;
          Some (m, total) }))"

definition HdParseFleetOpenConnection ::
  "bytes \<Rightarrow> int \<Rightarrow> HdFleetOpenConnection \<Rightarrow> (bool \<times> HdFleetOpenConnection) ub" where
  "HdParseFleetOpenConnection payload payload_len out =
     (if payload_len < 2 + 2 + kKeySize + kHdOpenConnSize then Some (False, out) else do {
        r \<leftarrow> ReadU16 0 payload;
        let out = out\<lparr>foc_origin_relay_id := r\<rparr>;
        fl \<leftarrow> ReadU16 2 payload;
        let fid_len = uint fl;
        if fid_len < 0 \<or> fid_len > kHdMaxFleetIdLen then Some (False, out)
        else if payload_len \<noteq> 2 + 2 + fid_len + kKeySize + kHdOpenConnSize then Some (False, out)
        else do {
          fid \<leftarrow> (if fid_len > 0 then memcpy 0 payload 4 fid_len (foc_origin_fleet_id out)
                  else Some (foc_origin_fleet_id out));
          fid \<leftarrow> wr fid_len [0] fid;
          k \<leftarrow> memcpy 0 payload (4 + fid_len) kKeySize (foc_target_key out);
          inner \<leftarrow> memcpy 0 payload (4 + fid_len + kKeySize) kHdOpenConnSize (foc_inner_conn out);
          Some (True, out\<lparr>foc_origin_fleet_id := fid, foc_origin_fleet_id_len := fid_len,
            foc_target_key := k, foc_inner_conn := inner\<rparr>) } })"

definition HdBuildFleetOpenConnectionResult ::
  "bytes \<Rightarrow> int \<Rightarrow> u64 \<Rightarrow> HdConnMode \<Rightarrow> HdDenyReason \<Rightarrow> u8 \<Rightarrow> u16 list \<Rightarrow> int \<Rightarrow> bytes \<Rightarrow> int \<Rightarrow>
   (bytes \<times> int) ub" where
  "HdBuildFleetOpenConnectionResult buf buf_size correlation_id mode deny_reason sub_reason
       relay_path relay_path_len endpoint_hint endpoint_hint_len = do {
     (m, total) \<leftarrow> HdBuildOpenConnectionResult buf buf_size correlation_id mode deny_reason
       sub_reason relay_path relay_path_len endpoint_hint endpoint_hint_len;
     m \<leftarrow> (if total > 0 then wr 0 [HdFrameType_byte HdFrame_kFleetOpenConnectionResult] m
           else Some m);
     Some (m, total) }"

section \<open>Redirect and relay enrolment\<close>

definition HdBuildRedirect ::
  "bytes \<Rightarrow> HdRedirectReason \<Rightarrow> bytes \<Rightarrow> int \<Rightarrow> (bytes \<times> int) ub" where
  "HdBuildRedirect buf reason target_url url_len =
     (if url_len < 0 \<or> url_len > kHdRedirectMaxUrl then Some (buf, -1)
      else (let payload_len = 1 + url_len in do {
        m \<leftarrow> HdWriteFrameHeader buf HdFrame_kRedirect (word_of_int payload_len);
        m \<leftarrow> wr kHdFrameHeaderSize [HdRedirectReason_byte reason] m;
        m \<leftarrow> (if url_len > 0 then memcpy (kHdFrameHeaderSize + 1) target_url 0 url_len m
              else Some m);
        Some (m, kHdFrameHeaderSize + payload_len) }))"

definition HdParseRedirect ::
  "bytes \<Rightarrow> int \<Rightarrow> HdRedirectReason \<Rightarrow> bytes \<Rightarrow> int \<Rightarrow> (HdRedirectReason \<times> bytes \<times> int) ub" where
  "HdParseRedirect payload payload_len out_reason out_url out_url_size =
     (if payload_len < 1 then Some (out_reason, out_url, -1)
      else (let url_len = payload_len - 1 in
        if url_len > kHdRedirectMaxUrl then Some (out_reason, out_url, -1)
        else if out_url_size < url_len + 1 then Some (out_reason, out_url, -1)
        else do {
          r \<leftarrow> rd8 0 payload;
          u \<leftarrow> (if url_len > 0 then memcpy 0 payload 1 url_len out_url else Some out_url);
          u \<leftarrow> wr url_len [0] u;
          Some (HdRedirectReason_of r, u, url_len) }))"

definition HdBuildRelayEnroll ::
  "bytes \<Rightarrow> Key \<Rightarrow> bytes \<Rightarrow> int \<Rightarrow> u16 \<Rightarrow> (bytes \<times> int) ub" where
  "HdBuildRelayEnroll buf client_key hmac hmac_len relay_id =
     (let payload_len = kKeySize + hmac_len + kHdRelayExtSize; off = kHdFrameHeaderSize in do {
        m \<leftarrow> HdWriteFrameHeader buf HdFrame_kEnroll (word_of_int payload_len);
        m \<leftarrow> memcpy off client_key 0 kKeySize m;
        let off = off + kKeySize;
        m \<leftarrow> memcpy off hmac 0 hmac_len m;
        let off = off + hmac_len;
        m \<leftarrow> wr off [ucast (drop_bit 8 relay_id), ucast relay_id] m;
        let off = off + 2;
        m \<leftarrow> memcpy off kHdRelayMagic 0 5 m;
        Some (m, kHdFrameHeaderSize + payload_len) })"

end
