(* ===== verification/Hd_Codec.thy ===== *)
theory Hd_Codec
  imports Hd_Protocol
begin

text \<open>
  Correctness of the HD codec of \<^verbatim>\<open>hd_protocol.cc\<close>: the byte-level builders and parsers of
  theory \<open>Hd_Protocol\<close> against a declarative description of the frame payloads.
\<close>

section \<open>Abstract frames\<close>

definition hd_frame :: "HdFrameType \<Rightarrow> bytes \<Rightarrow> bytes" where
  "hd_frame ty payload = HdFrameType_byte ty # be24 (of_nat (length payload)) @ payload"

definition open_conn_payload :: "HdOpenConnection \<Rightarrow> bytes" where
  "open_conn_payload r =
     be16 (oc_target_peer_id r) @ be16 (oc_target_relay_id r) @
     [HdIntent_byte (oc_intent r), oc_flags r] @ be64 (oc_correlation_id r)"

definition incoming_conn_payload :: "HdIncomingConnection \<Rightarrow> bytes" where
  "incoming_conn_payload r =
     ic_initiator_key r @ be16 (ic_initiator_peer_id r) @
     [HdIntent_byte (ic_intent r), ic_flags r] @ be64 (ic_correlation_id r)"

definition incoming_resp_payload :: "HdIncomingConnResponse \<Rightarrow> bytes" where
  "incoming_resp_payload r =
     be64 (icr_correlation_id r) @ [HdIntent_byte (icr_intent r), icr_flags r, icr_accept r]"

definition incoming_result_payload :: "HdIncomingConnResult \<Rightarrow> bytes" where
  "incoming_result_payload r =
     be64 (ics_correlation_id r) @ [HdConnMode_byte (ics_mode r)] @
     be16 (HdDenyReason_word (ics_deny_reason r)) @ [ics_sub_reason r]"

definition open_result_payload ::
  "u64 \<Rightarrow> HdConnMode \<Rightarrow> HdDenyReason \<Rightarrow> u8 \<Rightarrow> u16 list \<Rightarrow> bytes \<Rightarrow> bytes" where
  "open_result_payload c md dr sr path hint =
     be64 c @ [HdConnMode_byte md] @ be16 (HdDenyReason_word dr) @ [sr] @
     be16 (of_nat (length path)) @ concat (map be16 path) @
     be16 (of_nat (length hint)) @ hint"

definition fleet_open_payload :: "u16 \<Rightarrow> bytes \<Rightarrow> Key \<Rightarrow> bytes \<Rightarrow> bytes" where
  "fleet_open_payload r fid k inner = be16 r @ be16 (of_nat (length fid)) @ fid @ k @ inner"

definition route_payload :: "(u16 \<times> u8) list \<Rightarrow> bytes" where
  "route_payload es = concat (map (\<lambda>(r, h). be16 r @ [h]) es)"

lemma length_hd_frame [wire_simps, simp]: "length (hd_frame ty payload) = 4 + length payload"
  by (simp add: hd_frame_def)

section \<open>Enumerations survive the wire\<close>

lemma enum_byte_of [simp]:
  "HdFrameType_byte (HdFrameType_of b) = b"
  "HdIntent_byte (HdIntent_of b) = b"
  "HdConnMode_byte (HdConnMode_of b) = b"
  "HdDenyReason_word (HdDenyReason_of w) = w"
  "HdRedirectReason_byte (HdRedirectReason_of b) = b"
  by (simp_all add: HdFrameType_of_def HdIntent_of_def HdConnMode_of_def HdDenyReason_of_def
      HdRedirectReason_of_def)

text \<open>A value of an enumeration is canonical when it is what its wire value decodes to.\<close>

definition canonical_intent :: "HdIntent \<Rightarrow> bool" where
  "canonical_intent i \<longleftrightarrow> HdIntent_of (HdIntent_byte i) = i"

definition canonical_mode :: "HdConnMode \<Rightarrow> bool" where
  "canonical_mode m \<longleftrightarrow> HdConnMode_of (HdConnMode_byte m) = m"

definition canonical_deny :: "HdDenyReason \<Rightarrow> bool" where
  "canonical_deny r \<longleftrightarrow> HdDenyReason_of (HdDenyReason_word r) = r"

lemma canonical_of [simp]:
  "canonical_intent (HdIntent_of b)" "canonical_mode (HdConnMode_of b)"
  "canonical_deny (HdDenyReason_of w)"
  by (simp_all add: canonical_intent_def canonical_mode_def canonical_deny_def)

lemma canonical_named [simp]:
  "canonical_intent Intent_kPreferDirect" "canonical_intent Intent_kRequireDirect"
  "canonical_intent Intent_kPreferRelay" "canonical_intent Intent_kRequireRelay"
  "canonical_mode Mode_kDenied" "canonical_mode Mode_kDirect" "canonical_mode Mode_kRelayed"
  by (simp_all add: canonical_intent_def canonical_mode_def HdIntent_of_def HdConnMode_of_def)

lemma canonical_deny_named [simp]:
  "(\<And>w. r \<noteq> Deny_unnamed w) \<Longrightarrow> canonical_deny r"
  by (cases r) (simp_all add: canonical_deny_def HdDenyReason_of_def)

section \<open>Builders\<close>

lemma HdWriteFrameHeader_eq:
  "HdWriteFrameHeader buf ty len =
     (if 4 \<le> length buf then Some (wrote (HdFrameType_byte ty # be24 len) buf) else None)"
  by (simp add: HdWriteFrameHeader_def wr_start be24_def)

lemma WriteU16_eq: "WriteU16 off v m = wr off (be16 v) m"
  by (simp add: WriteU16_def be16_def)

lemma WriteU64_eq: "WriteU64 off v m = wr off (be64 v) m"
  by (simp add: WriteU64_def be64_def)

lemma ReadU64_eq: "ReadU64 off p = map_option of_be64 (rd off 8 p)"
  by (cases "rd off 8 p") (simp_all add: ReadU64_def of_be64_def)

lemma be16_fold: "[ucast (drop_bit 8 v), ucast v] = be16 v"
  by (simp add: be16_def)

lemmas hd_build_simps =
  builds_def HdWriteFrameHeader_eq WriteU16_eq WriteU64_eq buf_simps hd_frame_def is_Key_def Let_def

lemma HdBuildPing_builds:
  "int (length d) = kHdPingDataSize \<Longrightarrow> builds buf (hd_frame HdFrame_kPing d) (HdBuildPing buf d)"
  by (simp add: HdBuildPing_def hd_build_simps)

lemma HdBuildPong_builds:
  "int (length d) = kHdPingDataSize \<Longrightarrow> builds buf (hd_frame HdFrame_kPong d) (HdBuildPong buf d)"
  by (simp add: HdBuildPong_def hd_build_simps)

lemma HdBuildEnroll_builds:
  "is_Key k \<Longrightarrow> n = int (length hmac) \<Longrightarrow>
    builds buf (hd_frame HdFrame_kEnroll (k @ hmac)) (HdBuildEnroll buf k hmac n)"
  by (simp add: HdBuildEnroll_def hd_build_simps)

lemma HdBuildApproved_builds:
  "is_Key k \<Longrightarrow> builds buf (hd_frame HdFrame_kApproved k) (HdBuildApproved buf k)"
  by (simp add: HdBuildApproved_def hd_build_simps)

lemma HdBuildDenied_builds:
  "n = int (length msg) \<Longrightarrow>
    builds buf (hd_frame HdFrame_kDenied (r # msg)) (HdBuildDenied buf r msg n)"
  by (simp add: HdBuildDenied_def hd_build_simps)

lemma HdBuildPeerGone_builds:
  "is_Key k \<Longrightarrow> builds buf (hd_frame HdFrame_kPeerGone (k @ [r])) (HdBuildPeerGone buf k r)"
  by (simp add: HdBuildPeerGone_def hd_build_simps)

lemma HdBuildPeerInfo_builds:
  "is_Key k \<Longrightarrow> n = int (length cand) \<Longrightarrow>
    builds buf (hd_frame HdFrame_kPeerInfo (k @ cand)) (HdBuildPeerInfo buf k cand n)"
  by (cases cand) (simp_all add: HdBuildPeerInfo_def hd_build_simps)

lemma HdBuildRelayEnroll_builds:
  "is_Key k \<Longrightarrow> n = int (length hmac) \<Longrightarrow>
    builds buf (hd_frame HdFrame_kEnroll (k @ hmac @ be16 rid @ kHdRelayMagic))
      (HdBuildRelayEnroll buf k hmac n rid)"
  by (simp add: HdBuildRelayEnroll_def hd_build_simps be16_fold kHdRelayMagic_def)

lemma HdBuildRedirect_builds:
  "int (length url) \<le> kHdRedirectMaxUrl \<Longrightarrow> n = int (length url) \<Longrightarrow>
    builds buf (hd_frame HdFrame_kRedirect (HdRedirectReason_byte r # url))
      (HdBuildRedirect buf r url n)"
  by (cases url) (simp_all add: HdBuildRedirect_def hd_build_simps)

lemma HdBuildOpenConnection_builds:
  "builds buf (hd_frame HdFrame_kOpenConnection (open_conn_payload r))
     (HdBuildOpenConnection buf (oc_target_peer_id r) (oc_target_relay_id r) (oc_intent r)
        (oc_flags r) (oc_correlation_id r))"
  by (simp add: HdBuildOpenConnection_def open_conn_payload_def hd_build_simps)

lemma HdBuildIncomingConnection_builds:
  "is_Key (ic_initiator_key r) \<Longrightarrow>
   builds buf (hd_frame HdFrame_kIncomingConnection (incoming_conn_payload r))
     (HdBuildIncomingConnection buf (ic_initiator_key r) (ic_initiator_peer_id r) (ic_intent r)
        (ic_flags r) (ic_correlation_id r))"
  by (simp add: HdBuildIncomingConnection_def incoming_conn_payload_def hd_build_simps)

lemma HdBuildIncomingConnResponse_builds:
  "builds buf (hd_frame HdFrame_kIncomingConnResponse (incoming_resp_payload r))
     (HdBuildIncomingConnResponse buf (icr_correlation_id r) (icr_intent r) (icr_flags r)
        (icr_accept r))"
  by (simp add: HdBuildIncomingConnResponse_def incoming_resp_payload_def hd_build_simps)

lemma HdBuildIncomingConnResult_builds:
  "builds buf (hd_frame HdFrame_kIncomingConnResult (incoming_result_payload r))
     (HdBuildIncomingConnResult buf (ics_correlation_id r) (ics_mode r) (ics_deny_reason r)
        (ics_sub_reason r))"
  by (simp add: HdBuildIncomingConnResult_def incoming_result_payload_def hd_build_simps)

subsection \<open>Builders with loops\<close>

lemma take_Suc_drop: "j < length xs \<Longrightarrow> take (Suc n) (drop j xs) = xs ! j # take n (drop (Suc j) xs)"
  by (metis Cons_nth_drop_Suc take_Suc_Cons)

lemma write_path_loop_wrote:
  "i = int j \<Longrightarrow> j + n \<le> length path \<Longrightarrow> q = int (length pre) \<Longrightarrow> length pre \<le> length m \<Longrightarrow>
    write_path_loop n i q path (wrote pre m) =
      (if length pre + 2 * n \<le> length m
       then Some (wrote (pre @ concat (map be16 (take n (drop j path)))) m) else None)"
proof (induction n arbitrary: i j q pre)
  case 0
  then show ?case by simp
next
  case (Suc n)
  have IH: "length pre + 2 \<le> length m \<Longrightarrow>
      write_path_loop n (i + 1) (q + 2) path (wrote (pre @ be16 (path ! j)) m) =
      (if length pre + 2 + 2 * n \<le> length m
       then Some (wrote ((pre @ be16 (path ! j)) @
              concat (map be16 (take n (drop (Suc j) path)))) m) else None)"
    using Suc.IH [of "i + 1" "Suc j" "q + 2" "pre @ be16 (path ! j)"] Suc.prems by simp
  show ?case
    using Suc.prems IH
    by (simp add: arr_get_def WriteU16_eq wr_wrote take_Suc_drop bind_if_distrib)
qed

lemma route_announce_loop_wrote:
  "i = int j \<Longrightarrow> j + n \<le> length ids \<Longrightarrow> length hops = length ids \<Longrightarrow> q = int (length pre) \<Longrightarrow>
    length pre \<le> length m \<Longrightarrow>
    route_announce_loop n i q ids hops (wrote pre m) =
      (if length pre + 3 * n \<le> length m
       then Some (wrote (pre @ route_payload (take n (drop j (zip ids hops)))) m) else None)"
proof (induction n arbitrary: i j q pre)
  case 0
  then show ?case by (simp add: route_payload_def)
next
  case (Suc n)
  let ?e = "[ucast (drop_bit 8 (ids ! j)), ucast (ids ! j), hops ! j]"
  have IH: "length pre + 3 \<le> length m \<Longrightarrow>
      route_announce_loop n (i + 1) (q + 3) ids hops (wrote (pre @ ?e) m) =
      (if length pre + 3 + 3 * n \<le> length m
       then Some (wrote ((pre @ ?e) @ route_payload (take n (drop (Suc j) (zip ids hops)))) m)
       else None)"
    using Suc.IH [of "i + 1" "Suc j" "q + 3" "pre @ ?e"] Suc.prems by simp
  have "route_payload ((ids ! j, hops ! j) # es) = ?e @ route_payload es" for es
    by (simp add: route_payload_def be16_def)
  with Suc.prems IH show ?case
    by (simp add: arr_get_def wr_wrote take_Suc_drop bind_if_distrib)
qed

lemma length_route_payload [wire_simps, simp]: "length (route_payload es) = 3 * length es"
  by (induction es) (auto simp: route_payload_def)

lemma length_concat_be16 [wire_simps, simp]: "length (concat (map be16 path)) = 2 * length path"
  by (induction path) auto

lemma length_open_result_payload [wire_simps, simp]:
  "length (open_result_payload c md dr sr path hint) = 16 + 2 * length path + length hint"
  by (simp add: open_result_payload_def)

text \<open>
  The builders that check a declared buffer size refuse with \<open>-1\<close> and an untouched buffer,
  and otherwise write the frame.
\<close>

definition builds_checked :: "bytes \<Rightarrow> int \<Rightarrow> bool \<Rightarrow> bytes \<Rightarrow> (bytes \<times> int) ub \<Rightarrow> bool" where
  "builds_checked buf buf_size ok frame r \<longleftrightarrow>
     r = (if ok \<and> int (length frame) \<le> buf_size then Some (wrote frame buf, int (length frame))
          else Some (buf, -1))"

lemma HdBuildOpenConnectionResult_builds:
  assumes size: "buf_size \<le> int (length buf)"
  shows "builds_checked buf buf_size
      (int (length path) \<le> kHdMaxRelayPath \<and> int (length hint) \<le> kHdMaxEndpointHint)
      (hd_frame HdFrame_kOpenConnectionResult (open_result_payload c md dr sr path hint))
      (HdBuildOpenConnectionResult buf buf_size c md dr sr path (int (length path))
         hint (int (length hint)))"
proof -
  let ?h = "HdFrameType_byte HdFrame_kOpenConnectionResult #
    be24 (of_nat (16 + 2 * length path + length hint))"
  let ?p = "?h @ be64 c @ [HdConnMode_byte md] @ be16 (HdDenyReason_word dr) @ [sr] @
    be16 (of_nat (length path))"
  have loop: "18 \<le> length buf \<Longrightarrow>
     write_path_loop (length path) 0 18 path (wrote ?p buf) =
       (if 18 + 2 * length path \<le> length buf
        then Some (wrote (?p @ concat (map be16 path)) buf) else None)"
    using write_path_loop_wrote [of 0 0 "length path" path 18 ?p buf] by simp
  have hdr: "hd_frame HdFrame_kOpenConnectionResult (open_result_payload c md dr sr path hint)
      = ?p @ concat (map be16 path) @ be16 (of_nat (length hint)) @ hint"
    by (simp add: hd_frame_def open_result_payload_def add.assoc)
  have w: "word_of_int (16 + int (length path) * 2 + int (length hint)) =
      (of_nat (16 + 2 * length path + length hint) :: u32)"
    by simp
  show ?thesis
    using size loop hdr w
    by (cases hint) (auto simp: HdBuildOpenConnectionResult_def builds_checked_def
        HdWriteFrameHeader_eq WriteU16_eq WriteU64_eq buf_simps Let_def mult.commute [of _ 2])
qed

lemma HdBuildFleetOpenConnectionResult_builds:
  assumes size: "buf_size \<le> int (length buf)"
  shows "builds_checked buf buf_size
      (int (length path) \<le> kHdMaxRelayPath \<and> int (length hint) \<le> kHdMaxEndpointHint)
      (hd_frame HdFrame_kFleetOpenConnectionResult (open_result_payload c md dr sr path hint))
      (HdBuildFleetOpenConnectionResult buf buf_size c md dr sr path (int (length path))
         hint (int (length hint)))"
proof -
  have swap: "length (x # xs) \<le> length m \<Longrightarrow> wr 0 [b] (wrote (x # xs) m) = Some (wrote (b # xs) m)"
    for x b :: u8 and xs m
    by (simp add: wr_0 wrote_def)
  show ?thesis
    using HdBuildOpenConnectionResult_builds [OF size, of path hint c md dr sr] size
    by (auto simp: HdBuildFleetOpenConnectionResult_def builds_checked_def hd_frame_def swap)
qed

lemma HdBuildRouteAnnounce_builds:
  assumes size: "buf_size \<le> int (length buf)" and n: "n \<le> length ids" "length hops = length ids"
  shows "builds_checked buf buf_size True
      (hd_frame HdFrame_kRouteAnnounce (route_payload (take n (zip ids hops))))
      (HdBuildRouteAnnounce buf buf_size ids hops (int n))"
proof -
  let ?h = "HdFrameType_byte HdFrame_kRouteAnnounce # be24 (of_nat (3 * n))"
  have "4 \<le> length buf \<Longrightarrow>
      route_announce_loop n 0 4 ids hops (wrote ?h buf) =
      (if 4 + 3 * n \<le> length buf
       then Some (wrote (?h @ route_payload (take n (zip ids hops))) buf) else None)"
    using route_announce_loop_wrote [of 0 0 n ids hops 4 ?h buf] n by simp
  with size n show ?thesis
    by (auto simp: HdBuildRouteAnnounce_def builds_checked_def HdWriteFrameHeader_eq hd_frame_def
        Let_def min_def mult.commute [of _ 3])
qed

lemma HdBuildFleetOpenConnection_builds:
  assumes size: "buf_size \<le> int (length buf)" and k: "is_Key k"
    and inner: "int (length inner) = kHdOpenConnSize"
  shows "builds_checked buf buf_size (int (length fid) \<le> kHdMaxFleetIdLen)
      (hd_frame HdFrame_kFleetOpenConnection (fleet_open_payload rid fid k inner))
      (HdBuildFleetOpenConnection buf buf_size rid fid (int (length fid)) k inner
         (int (length inner)))"
  using assms
  by (cases fid) (auto simp: HdBuildFleetOpenConnection_def builds_checked_def is_Key_def
      HdWriteFrameHeader_eq WriteU16_eq buf_simps hd_frame_def fleet_open_payload_def Let_def
      algebra_simps)

section \<open>Parsers\<close>

lemma ReadU16_at:
  assumes "off = int (length pre)"
  shows "ReadU16 off (pre @ be16 v @ post) = Some v"
  using assms by (simp add: ReadU16_def rd8_def be16_def nth_append nat_add_distrib)

lemma ReadU64_at:
  assumes "off = int (length pre)"
  shows "ReadU64 off (pre @ be64 v @ post) = Some v"
  using assms by (simp add: ReadU64_eq rd_append)

lemma rd8_at:
  assumes "off = int (length pre)"
  shows "rd8 off (pre @ b # post) = Some b"
  using assms by (simp add: rd8_def nth_append)

lemma ReadU16_defined:
  "0 \<le> off \<Longrightarrow> off + 2 \<le> int (length p) \<Longrightarrow> \<exists>v. ReadU16 off p = Some v"
  by (simp add: ReadU16_def rd8_def)

lemma ReadU64_defined:
  "0 \<le> off \<Longrightarrow> off + 8 \<le> int (length p) \<Longrightarrow> \<exists>v. ReadU64 off p = Some v"
  by (simp add: ReadU64_eq rd_def)

lemma wr_defined: "0 \<le> off \<Longrightarrow> off + int (length bs) \<le> int (length m) \<Longrightarrow> \<exists>m'. wr off bs m = Some m'"
  by (simp add: wr_def)

lemma memcpy_ok:
  "0 \<le> off \<Longrightarrow> 0 \<le> soff \<Longrightarrow> 0 \<le> n \<Longrightarrow> soff + n \<le> int (length src) \<Longrightarrow> off + n \<le> int (length m) \<Longrightarrow>
    \<exists>m'. memcpy off src soff n m = Some m' \<and> length m' = length m"
  by (auto simp: memcpy_defined wr_def min_def nat_diff_distrib)

lemma read_path_loop_defined:
  "0 \<le> i \<Longrightarrow> 14 + 2 * (i + int n) \<le> int (length payload) \<Longrightarrow> i + int n \<le> int (length path) \<Longrightarrow>
    \<exists>p. read_path_loop n i payload path = Some p \<and> length p = length path"
proof (induction n arbitrary: i path)
  case 0
  then show ?case by simp
next
  case (Suc n)
  obtain v where v: "ReadU16 (14 + i * 2) payload = Some v"
    using ReadU16_defined [of "14 + i * 2" payload] Suc.prems by auto
  from Suc.prems have "\<exists>p. read_path_loop n (i + 1) payload (path[nat i := v]) = Some p \<and>
      length p = length (path[nat i := v])"
    by (intro Suc.IH) auto
  with Suc.prems v show ?case by (simp add: arr_set_def)
qed

lemma read_path_loop_read:
  assumes "length pre = 14 + 2 * j" and "j + length vs \<le> length path"
  shows "read_path_loop (length vs) (int j) (pre @ concat (map be16 vs) @ post) path =
    Some (take j path @ vs @ drop (j + length vs) path)"
  using assms
proof (induction vs arbitrary: pre j path)
  case Nil
  then show ?case by simp
next
  case (Cons v vs)
  have v: "ReadU16 (14 + int j * 2) (pre @ be16 v @ concat (map be16 vs) @ post) = Some v"
    using Cons.prems by (intro ReadU16_at) simp
  have "read_path_loop (length vs) (int (Suc j)) ((pre @ be16 v) @ concat (map be16 vs) @ post)
      (path[j := v]) = Some (take (Suc j) (path[j := v]) @ vs @ drop (Suc j + length vs) (path[j := v]))"
    using Cons.prems by (intro Cons.IH) auto
  with v Cons.prems show ?case
    by (simp add: arr_set_def take_Suc_conv_app_nth add.commute)
qed

lemma route_parse_loop_read:
  assumes "length pre = 3 * j" and "j + length es \<le> length ids" and "length hops = length ids"
  shows "route_parse_loop (length es) (int j) (3 * int j) (pre @ route_payload es @ post) ids hops =
    Some (take j ids @ map fst es @ drop (j + length es) ids,
          take j hops @ map snd es @ drop (j + length es) hops)"
  using assms
proof (induction es arbitrary: pre j ids hops)
  case Nil
  then show ?case by simp
next
  case (Cons e es)
  obtain r h where e: "e = (r, h)" by (cases e)
  let ?p = "pre @ route_payload (e # es) @ post"
  have p: "?p = (pre @ be16 r @ [h]) @ route_payload es @ post"
    by (simp add: e route_payload_def)
  have rds: "rd8 (3 * int j) ?p = Some (ucast (drop_bit 8 r))" "rd8 (3 * int j + 1) ?p = Some (ucast r)"
    "rd8 (3 * int j + 2) ?p = Some h"
    using Cons.prems(1)
    by (simp_all add: e route_payload_def be16_def rd8_def nth_append nat_add_distrib nat_mult_distrib)
  have "route_parse_loop (length es) (int (Suc j)) (3 * int (Suc j)) ?p (ids[j := r]) (hops[j := h]) =
    Some (take (Suc j) (ids[j := r]) @ map fst es @ drop (Suc j + length es) (ids[j := r]),
          take (Suc j) (hops[j := h]) @ map snd es @ drop (Suc j + length es) (hops[j := h]))"
    unfolding p using Cons.prems by (intro Cons.IH) auto
  with rds Cons.prems show ?case
    by (simp add: arr_set_def e take_Suc_conv_app_nth algebra_simps)
qed

subsection \<open>Fixed-size payloads: a payload is accepted exactly when it is an encoding\<close>

lemmas parse_simps = ReadU16_def ReadU64_eq rd8_def rd_def be16_def

lemma HdParseOpenConnection_iff:
  "HdParseOpenConnection payload (int (length payload)) out = Some (True, r) \<longleftrightarrow>
     payload = open_conn_payload r \<and> canonical_intent (oc_intent r)"
proof
  assume p: "HdParseOpenConnection payload (int (length payload)) out = Some (True, r)"
  then have "length payload = 14" by (auto simp: HdParseOpenConnection_def split: if_splits)
  then have "length payload = 4 + (2 + 8)" by simp
  then obtain x y z where xyz: "payload = x @ y @ z" "length x = 4" "length y = 2" "length z = 8"
    by (metis length_split)
  obtain a b c d where "x = [a, b, c, d]" using xyz(2) by (rule length_4E)
  moreover obtain e f where "y = [e, f]"
    using xyz(3) by (auto simp: numeral_eq_Suc length_Suc_conv)
  ultimately show "payload = open_conn_payload r \<and> canonical_intent (oc_intent r)"
    using p xyz by (auto simp: HdParseOpenConnection_def open_conn_payload_def ReadU16_def
        ReadU64_eq rd8_def rd_def)
next
  assume "payload = open_conn_payload r \<and> canonical_intent (oc_intent r)"
  then show "HdParseOpenConnection payload (int (length payload)) out = Some (True, r)"
    by (cases r, cases out)
      (simp add: HdParseOpenConnection_def open_conn_payload_def parse_simps canonical_intent_def)
qed

lemma HdParseIncomingConnResponse_iff:
  "HdParseIncomingConnResponse payload (int (length payload)) out = Some (True, r) \<longleftrightarrow>
     payload = incoming_resp_payload r \<and> canonical_intent (icr_intent r)"
proof
  assume p: "HdParseIncomingConnResponse payload (int (length payload)) out = Some (True, r)"
  then have "length payload = 8 + 3"
    by (auto simp: HdParseIncomingConnResponse_def split: if_splits)
  then obtain g a b c where g: "payload = g @ [a, b, c]" "length g = 8"
    by (metis length_split length_3E)
  with p show "payload = incoming_resp_payload r \<and> canonical_intent (icr_intent r)"
    by (auto simp: HdParseIncomingConnResponse_def incoming_resp_payload_def parse_simps nth_append)
next
  assume "payload = incoming_resp_payload r \<and> canonical_intent (icr_intent r)"
  then show "HdParseIncomingConnResponse payload (int (length payload)) out = Some (True, r)"
    by (cases r, cases out) (simp add: HdParseIncomingConnResponse_def incoming_resp_payload_def
        parse_simps nth_append canonical_intent_def)
qed

lemma HdParseIncomingConnResult_iff:
  "HdParseIncomingConnResult payload (int (length payload)) out = Some (True, r) \<longleftrightarrow>
     payload = incoming_result_payload r \<and> canonical_mode (ics_mode r) \<and>
     canonical_deny (ics_deny_reason r)"
proof
  assume p: "HdParseIncomingConnResult payload (int (length payload)) out = Some (True, r)"
  then have "length payload = 8 + 4"
    by (auto simp: HdParseIncomingConnResult_def split: if_splits)
  then obtain g a b c d where g: "payload = g @ [a, b, c, d]" "length g = 8"
    by (metis length_split length_4E)
  with p show "payload = incoming_result_payload r \<and> canonical_mode (ics_mode r) \<and>
     canonical_deny (ics_deny_reason r)"
    by (auto simp: HdParseIncomingConnResult_def incoming_result_payload_def ReadU16_def ReadU64_eq
        rd8_def rd_def nth_append)
next
  assume "payload = incoming_result_payload r \<and> canonical_mode (ics_mode r) \<and>
     canonical_deny (ics_deny_reason r)"
  then show "HdParseIncomingConnResult payload (int (length payload)) out = Some (True, r)"
    by (cases r, cases out) (simp add: HdParseIncomingConnResult_def incoming_result_payload_def
        parse_simps nth_append canonical_mode_def canonical_deny_def)
qed

lemma memcpy_whole:
  assumes "length m = nat n" "0 \<le> soff" "0 \<le> n" "soff + n \<le> int (length src)"
  shows "memcpy 0 src soff n m = Some (take (nat n) (drop (nat soff) src))"
  using assms by (simp add: memcpy_defined wr_start wrote_def nat_diff_distrib le_diff_conv2)

lemma HdParseIncomingConnection_iff:
  assumes "is_Key (ic_initiator_key out)"
  shows "HdParseIncomingConnection payload (int (length payload)) out = Some (True, r) \<longleftrightarrow>
     payload = incoming_conn_payload r \<and> is_Key (ic_initiator_key r) \<and>
     canonical_intent (ic_intent r)"
proof
  assume p: "HdParseIncomingConnection payload (int (length payload)) out = Some (True, r)"
  then have "length payload = 32 + (4 + 8)"
    by (auto simp: HdParseIncomingConnection_def split: if_splits)
  then obtain k x g where "payload = k @ x @ g" "length k = 32" "length x = 4" "length g = 8"
    by (metis length_split)
  then obtain a b c d where
    k: "payload = k @ a # b # c # d # g" "length k = 32" "length g = 8"
    by (auto elim!: length_4E)
  with p assms show "payload = incoming_conn_payload r \<and> is_Key (ic_initiator_key r) \<and>
     canonical_intent (ic_intent r)"
    by (auto simp: HdParseIncomingConnection_def incoming_conn_payload_def ReadU16_def ReadU64_eq
        rd8_def rd_def nth_append is_Key_def memcpy_whole)
next
  assume "payload = incoming_conn_payload r \<and> is_Key (ic_initiator_key r) \<and>
     canonical_intent (ic_intent r)"
  with assms show "HdParseIncomingConnection payload (int (length payload)) out = Some (True, r)"
    by (cases r, cases out) (simp add: HdParseIncomingConnection_def incoming_conn_payload_def
        parse_simps nth_append canonical_intent_def is_Key_def memcpy_whole)
qed

subsection \<open>Variable-size payloads\<close>

lemma HdParseOpenConnectionResult_read:
  assumes path: "int (length path) \<le> kHdMaxRelayPath" and hint: "int (length hint) \<le> kHdMaxEndpointHint"
    and md: "canonical_mode md" and dr: "canonical_deny dr"
    and arrs: "int (length (ocr_relay_path out)) = kHdMaxRelayPath"
      "int (length (ocr_endpoint_hint out)) = kHdMaxEndpointHint + 1"
  shows "HdParseOpenConnectionResult (open_result_payload c md dr sr path hint)
      (int (length (open_result_payload c md dr sr path hint))) out =
    Some (True, \<lparr>ocr_correlation_id = c, ocr_mode = md, ocr_deny_reason = dr, ocr_sub_reason = sr,
      ocr_relay_path = path @ drop (length path) (ocr_relay_path out),
      ocr_relay_path_len = int (length path),
      ocr_endpoint_hint = hint @ 0 # drop (Suc (length hint)) (ocr_endpoint_hint out),
      ocr_endpoint_hint_len = int (length hint)\<rparr>)"
proof -
  let ?p = "open_result_payload c md dr sr path hint"
  let ?n = "of_nat (length path) :: u16" and ?hn = "of_nat (length hint) :: u16"
  let ?h = "be64 c @ [HdConnMode_byte md] @ be16 (HdDenyReason_word dr) @ [sr] @ be16 ?n"
  have reads: "ReadU64 0 ?p = Some c" "rd8 8 ?p = Some (HdConnMode_byte md)"
    "ReadU16 9 ?p = Some (HdDenyReason_word dr)" "rd8 11 ?p = Some sr" "ReadU16 12 ?p = Some ?n"
    by (simp_all add: open_result_payload_def parse_simps nth_append)
  have loop: "read_path_loop (length path) 0 ?p (ocr_relay_path out) =
      Some (path @ drop (length path) (ocr_relay_path out))"
    using read_path_loop_read [of ?h 0 path "ocr_relay_path out" "be16 ?hn @ hint"] path arrs
    by (simp add: open_result_payload_def)
  have hl: "ReadU16 (14 + int (length path) * 2) ?p = Some ?hn"
    using ReadU16_at [of "14 + int (length path) * 2" "?h @ concat (map be16 path)" ?hn hint]
    by (simp add: open_result_payload_def)
  have rh: "rd (16 + int (length path) * 2) (int (length hint)) ?p = Some hint"
    using rd_append [of "16 + int (length path) * 2" "?h @ concat (map be16 path) @ be16 ?hn"
        "int (length hint)" hint "[]"]
    by (simp add: open_result_payload_def)
  have st: "wr (int (length hint)) [0] (wrote hint (ocr_endpoint_hint out)) =
      Some (hint @ 0 # drop (Suc (length hint)) (ocr_endpoint_hint out))"
    using arrs hint by (intro wr_terminator) simp
  have u: "uint ?n = int (length path)" "uint ?hn = int (length hint)"
    using path hint by (simp_all add: uint_of_nat_u16)
  show ?thesis
    using path hint arrs reads loop hl rh st md dr
    by (cases "hint = []"; cases out)
      (simp_all add: HdParseOpenConnectionResult_def u memcpy_def wr_start canonical_mode_def
        canonical_deny_def)
qed

lemma HdParseFleetOpenConnection_read:
  assumes fid: "int (length fid) \<le> kHdMaxFleetIdLen" and k: "is_Key k"
    and inner: "int (length inner) = kHdOpenConnSize"
    and arrs: "int (length (foc_origin_fleet_id out)) = kHdMaxFleetIdLen + 1"
      "is_Key (foc_target_key out)" "int (length (foc_inner_conn out)) = kHdOpenConnSize"
  shows "HdParseFleetOpenConnection (fleet_open_payload rid fid k inner)
      (int (length (fleet_open_payload rid fid k inner))) out =
    Some (True, \<lparr>foc_origin_relay_id = rid,
      foc_origin_fleet_id = fid @ 0 # drop (Suc (length fid)) (foc_origin_fleet_id out),
      foc_origin_fleet_id_len = int (length fid), foc_target_key = k, foc_inner_conn = inner\<rparr>)"
proof -
  let ?p = "fleet_open_payload rid fid k inner"
  let ?n = "of_nat (length fid) :: u16"
  have reads: "ReadU16 0 ?p = Some rid" "ReadU16 2 ?p = Some ?n"
    by (simp_all add: fleet_open_payload_def parse_simps)
  have rf: "rd 4 (int (length fid)) ?p = Some fid"
    using rd_append [of 4 "be16 rid @ be16 ?n" "int (length fid)" fid "k @ inner"]
    by (simp add: fleet_open_payload_def)
  have st: "wr (int (length fid)) [0] (wrote fid (foc_origin_fleet_id out)) =
      Some (fid @ 0 # drop (Suc (length fid)) (foc_origin_fleet_id out))"
    using arrs fid by (intro wr_terminator) simp
  have rk: "rd (4 + int (length fid)) 32 ?p = Some k"
    using rd_append [of "4 + int (length fid)" "be16 rid @ be16 ?n @ fid" 32 k inner] k
    by (simp add: fleet_open_payload_def is_Key_def)
  have ri: "rd (36 + int (length fid)) 14 ?p = Some inner"
    using rd_append [of "36 + int (length fid)" "be16 rid @ be16 ?n @ fid @ k" 14 inner "[]"] k inner
    by (simp add: fleet_open_payload_def is_Key_def)
  have u: "uint ?n = int (length fid)"
    using fid by (simp add: uint_of_nat_u16)
  have l: "length ?p = 50 + length fid"
    using k inner by (simp add: fleet_open_payload_def is_Key_def)
  show ?thesis
    using fid k inner arrs reads rf st rk ri u l
    by (cases "fid = []"; cases out)
      (simp_all add: HdParseFleetOpenConnection_def memcpy_def wr_start wrote_def is_Key_def
        Let_def ac_simps)
qed

lemma HdParseRedirect_read:
  assumes "int (length url) \<le> kHdRedirectMaxUrl" and "int (length url) < n"
    and "n \<le> int (length out_url)" and "HdRedirectReason_of (HdRedirectReason_byte r) = r"
  shows "HdParseRedirect (HdRedirectReason_byte r # url) (int (Suc (length url))) old out_url n =
    Some (r, url @ 0 # drop (Suc (length url)) out_url, int (length url))"
proof -
  have "rd 1 (int (length url)) (HdRedirectReason_byte r # url) = Some url"
    by (simp add: rd_def)
  moreover have "wr (int (length url)) [0] (wrote url out_url) =
      Some (url @ 0 # drop (Suc (length url)) out_url)"
    using assms by (intro wr_terminator) simp
  ultimately show ?thesis
    using assms by (cases "url = []")
      (simp_all add: HdParseRedirect_def rd8_def memcpy_def wr_start Let_def)
qed

lemma HdParseRouteAnnounce_read:
  assumes "int (length es) \<le> max_out" and "max_out = int (length ids)" and "length hops = length ids"
  shows "HdParseRouteAnnounce (route_payload es) (int (length (route_payload es))) ids hops max_out =
    Some (map fst es @ drop (length es) ids, map snd es @ drop (length es) hops, int (length es))"
proof -
  have "3 * int (length es) sdiv 3 = int (length es)"
    by (simp add: signed_divide_int_def sgn_if)
  then show ?thesis
    using assms route_parse_loop_read [of "[]" 0 es ids hops "[]"]
    by (auto simp: HdParseRouteAnnounce_def Let_def)
qed

subsection \<open>No parser reads or writes out of bounds\<close>

lemma HdParseOpenConnectionResult_defined:
  assumes len: "payload_len \<le> int (length payload)"
    and arrs: "int (length (ocr_relay_path out)) = kHdMaxRelayPath"
      "int (length (ocr_endpoint_hint out)) = kHdMaxEndpointHint + 1"
  shows "HdParseOpenConnectionResult payload payload_len out \<noteq> None"
proof (cases "payload_len < kHdOpenResultMinSize")
  case True
  then show ?thesis by (simp add: HdParseOpenConnectionResult_def)
next
  case False
  with len have l: "16 \<le> int (length payload)" by simp
  obtain c md dr sr pl where r: "ReadU64 0 payload = Some c" "rd8 8 payload = Some md"
    "ReadU16 9 payload = Some dr" "rd8 11 payload = Some sr" "ReadU16 12 payload = Some pl"
    using l ReadU64_defined [of 0 payload] ReadU16_defined [of 9 payload]
      ReadU16_defined [of 12 payload] by (auto simp: rd8_def)
  show ?thesis
  proof (cases "uint pl \<le> 32 \<and> 16 + uint pl * 2 \<le> payload_len")
    case False
    with r show ?thesis by (auto simp: HdParseOpenConnectionResult_def Let_def)
  next
    case True
    then obtain p hl where p: "read_path_loop (nat (uint pl)) 0 payload (ocr_relay_path out) = Some p"
      and hl: "ReadU16 (14 + uint pl * 2) payload = Some hl"
      using read_path_loop_defined [of 0 "nat (uint pl)" payload "ocr_relay_path out"]
        ReadU16_defined [of "14 + uint pl * 2" payload] len arrs by auto
    have "uint hl \<le> 128 \<Longrightarrow> payload_len = 16 + uint pl * 2 + uint hl \<Longrightarrow>
        \<exists>h. memcpy 0 payload (16 + uint pl * 2) (uint hl) (ocr_endpoint_hint out) = Some h \<and>
          length h = 129"
      using memcpy_ok [of 0 "16 + uint pl * 2" "uint hl" payload "ocr_endpoint_hint out"] len arrs
      by simp
    with True r p hl arrs show ?thesis
      by (auto simp: HdParseOpenConnectionResult_def Let_def wr_def ex_true)
  qed
qed

lemma HdParseFleetOpenConnection_defined:
  assumes len: "payload_len \<le> int (length payload)"
    and arrs: "int (length (foc_origin_fleet_id out)) = kHdMaxFleetIdLen + 1"
      "is_Key (foc_target_key out)" "int (length (foc_inner_conn out)) = kHdOpenConnSize"
  shows "HdParseFleetOpenConnection payload payload_len out \<noteq> None"
proof (cases "payload_len < 50")
  case True
  then show ?thesis by (simp add: HdParseFleetOpenConnection_def)
next
  case False
  with len obtain r fl where r: "ReadU16 0 payload = Some r" "ReadU16 2 payload = Some fl"
    using ReadU16_defined [of 0 payload] ReadU16_defined [of 2 payload] by auto
  have "uint fl \<le> 64 \<Longrightarrow> payload_len = 50 + uint fl \<Longrightarrow>
     (\<exists>f. memcpy 0 payload 4 (uint fl) (foc_origin_fleet_id out) = Some f \<and> length f = 65) \<and>
     (\<exists>k. memcpy 0 payload (4 + uint fl) 32 (foc_target_key out) = Some k) \<and>
     (\<exists>i. memcpy 0 payload (36 + uint fl) 14 (foc_inner_conn out) = Some i)"
    using memcpy_ok [of 0 4 "uint fl" payload "foc_origin_fleet_id out"]
      memcpy_ok [of 0 "4 + uint fl" 32 payload "foc_target_key out"]
      memcpy_ok [of 0 "36 + uint fl" 14 payload "foc_inner_conn out"] len arrs
    by (auto simp: is_Key_def)
  with False r arrs show ?thesis
    by (auto simp: HdParseFleetOpenConnection_def Let_def wr_def ac_simps ex_true)
qed

lemma route_parse_loop_defined:
  "0 \<le> i \<Longrightarrow> 0 \<le> p \<Longrightarrow> p + 3 * int n \<le> int (length payload) \<Longrightarrow> i + int n \<le> int (length ids) \<Longrightarrow>
    length hops = length ids \<Longrightarrow> route_parse_loop n i p payload ids hops \<noteq> None"
proof (induction n arbitrary: i p ids hops)
  case 0
  then show ?case by simp
next
  case (Suc n)
  then show ?case by (simp add: rd8_def arr_set_def)
qed

lemma HdParseRouteAnnounce_defined:
  assumes "payload_len \<le> int (length payload)" "max_out \<le> int (length ids)" "length hops = length ids"
  shows "HdParseRouteAnnounce payload payload_len ids hops max_out \<noteq> None"
proof -
  let ?e = "payload_len sdiv 3"
  let ?n = "if ?e > max_out then max_out else ?e"
  have "0 \<le> payload_len \<Longrightarrow> ?e * 3 \<le> payload_len" "payload_len < 0 \<Longrightarrow> ?e \<le> 0"
    by (simp_all add: signed_divide_int_def sgn_if) presburger?
  then have "3 * int (nat ?n) \<le> int (length payload) \<and> int (nat ?n) \<le> int (length ids)"
    using assms by (cases "0 \<le> payload_len") (auto split: if_splits)
  then have "route_parse_loop (nat ?n) 0 0 payload ids hops \<noteq> None"
    using assms by (intro route_parse_loop_defined) auto
  then show ?thesis by (auto simp: HdParseRouteAnnounce_def Let_def)
qed

section \<open>Properties\<close>

text \<open>
  The HD header carries the low 24 bits of the payload length, so every length that
  \<^const>\<open>HdIsValidPayloadLen\<close> accepts (at most 64 KiB) is read back unchanged, and so is the
  frame type byte; the bytes after the header are untouched.
\<close>

theorem hd_header_roundtrip:
  assumes "kHdFrameHeaderSize \<le> int (length buf)"
  shows "\<exists>m. HdWriteFrameHeader buf ty len = Some m \<and>
    HdReadPayloadLen m = Some (take_bit 24 len) \<and>
    (HdIsValidPayloadLen len \<longrightarrow> HdReadPayloadLen m = Some len) \<and>
    HdReadFrameType m = Some (HdFrameType_of (HdFrameType_byte ty)) \<and>
    length m = length buf \<and> drop 4 m = drop 4 buf"
proof -
  let ?m = "wrote (HdFrameType_byte ty # be24 len) buf"
  have small: "HdIsValidPayloadLen len \<Longrightarrow> take_bit 24 len = len"
    by (simp add: HdIsValidPayloadLen_def take_bit_eq_self_u32)
  have rds: "rd8 0 ?m = Some (HdFrameType_byte ty)" "rd8 1 ?m = Some (ucast (drop_bit 16 len))"
    "rd8 2 ?m = Some (ucast (drop_bit 8 len))" "rd8 3 ?m = Some (ucast len)"
    by (simp_all add: rd8_def wrote_def be24_def)
  show ?thesis
    using assms small rds by (simp add: HdWriteFrameHeader_eq HdReadPayloadLen_def
        HdReadFrameType_def drop_wrote)
qed

theorem hd_header_roundtrip_witness:
  "\<exists>m. HdWriteFrameHeader (replicate 5 9) HdFrame_kMeshData 65536 = Some m \<and>
     HdReadPayloadLen m = Some 65536"
  using hd_header_roundtrip [of "replicate 5 9" HdFrame_kMeshData 65536]
  by (auto simp: HdIsValidPayloadLen_def)

text \<open>
  Every fixed-layout HD frame builder writes exactly the abstract frame (type, 24-bit
  length, payload) at the start of the buffer, leaves the rest of the buffer alone and returns
  the frame's size; it is undefined exactly when the buffer is shorter than the frame.
\<close>

theorem hd_builders_exact:
  assumes k: "is_Key k" and ping: "int (length ping) = kHdPingDataSize"
    and url: "int (length url) \<le> kHdRedirectMaxUrl" and ik: "is_Key (ic_initiator_key ic)"
  shows "builds buf (hd_frame HdFrame_kPing ping) (HdBuildPing buf ping) \<and>
    builds buf (hd_frame HdFrame_kPong ping) (HdBuildPong buf ping) \<and>
    builds buf (hd_frame HdFrame_kEnroll (k @ hmac)) (HdBuildEnroll buf k hmac (int (length hmac))) \<and>
    builds buf (hd_frame HdFrame_kEnroll (k @ hmac @ be16 rid @ kHdRelayMagic))
           (HdBuildRelayEnroll buf k hmac (int (length hmac)) rid) \<and>
    builds buf (hd_frame HdFrame_kApproved k) (HdBuildApproved buf k) \<and>
    builds buf (hd_frame HdFrame_kDenied (reason # msg))
           (HdBuildDenied buf reason msg (int (length msg))) \<and>
    builds buf (hd_frame HdFrame_kPeerGone (k @ [reason])) (HdBuildPeerGone buf k reason) \<and>
    builds buf (hd_frame HdFrame_kPeerInfo (k @ cand))
           (HdBuildPeerInfo buf k cand (int (length cand))) \<and>
    builds buf (hd_frame HdFrame_kRedirect (HdRedirectReason_byte rr # url))
           (HdBuildRedirect buf rr url (int (length url))) \<and>
    builds buf (hd_frame HdFrame_kOpenConnection (open_conn_payload oc))
           (HdBuildOpenConnection buf (oc_target_peer_id oc) (oc_target_relay_id oc) (oc_intent oc)
              (oc_flags oc) (oc_correlation_id oc)) \<and>
    builds buf (hd_frame HdFrame_kIncomingConnection (incoming_conn_payload ic))
           (HdBuildIncomingConnection buf (ic_initiator_key ic) (ic_initiator_peer_id ic)
              (ic_intent ic) (ic_flags ic) (ic_correlation_id ic)) \<and>
    builds buf (hd_frame HdFrame_kIncomingConnResponse (incoming_resp_payload icr))
           (HdBuildIncomingConnResponse buf (icr_correlation_id icr) (icr_intent icr)
              (icr_flags icr) (icr_accept icr)) \<and>
    builds buf (hd_frame HdFrame_kIncomingConnResult (incoming_result_payload ics))
           (HdBuildIncomingConnResult buf (ics_correlation_id ics) (ics_mode ics)
              (ics_deny_reason ics) (ics_sub_reason ics))"
  by (intro conjI) (rule HdBuildPing_builds [OF ping] HdBuildPong_builds [OF ping] HdBuildEnroll_builds [OF k refl]
      HdBuildRelayEnroll_builds [OF k refl] HdBuildApproved_builds [OF k]
      HdBuildDenied_builds [OF refl] HdBuildPeerGone_builds [OF k] HdBuildPeerInfo_builds [OF k refl]
      HdBuildRedirect_builds [OF url refl] HdBuildOpenConnection_builds
      HdBuildIncomingConnection_builds [OF ik] HdBuildIncomingConnResponse_builds
      HdBuildIncomingConnResult_builds)+

theorem hd_builders_exact_witness:
  "builds (replicate 60 1) (hd_frame HdFrame_kRedirect [1, 7])
     (HdBuildRedirect (replicate 60 1) Redirect_kDraining [7] 1) \<and>
   builds (replicate 60 1) (hd_frame HdFrame_kPeerInfo (zero_Key @ [7]))
     (HdBuildPeerInfo (replicate 60 1) zero_Key [7] 1)"
proof -
  have k: "is_Key zero_Key" by (simp add: is_Key_def zero_Key_def)
  have ping: "int (length (replicate 8 (0::u8))) = kHdPingDataSize" by simp
  have url: "int (length [7 :: u8]) \<le> kHdRedirectMaxUrl" by simp
  have ik: "is_Key (ic_initiator_key \<lparr>ic_initiator_key = zero_Key, ic_initiator_peer_id = 1,
     ic_intent = Intent_kPreferRelay, ic_flags = 0, ic_correlation_id = 9\<rparr>)" by (simp add: k)
  note b = hd_builders_exact [OF k ping url ik, of "replicate 60 1"]
  from b [where cand = "[7]" and rr = Redirect_kDraining] show ?thesis by simp
qed

text \<open>
  C28: The builders that are told the buffer's size (connection results, fleet open requests,
  route announcements) never write outside it: when the declared size is at most the real one
  they are defined, return -1 with an untouched buffer if a part exceeds its limit or the frame
  does not fit, and otherwise write exactly the frame.
\<close>

theorem hd_sized_builders_exact:
  assumes size: "buf_size \<le> int (length buf)" and k: "is_Key k"
    and inner: "int (length inner) = kHdOpenConnSize"
    and n: "n \<le> length ids" "length hops = length ids"
  shows "builds_checked buf buf_size
      (int (length path) \<le> kHdMaxRelayPath \<and> int (length hint) \<le> kHdMaxEndpointHint)
      (hd_frame HdFrame_kOpenConnectionResult (open_result_payload c md dr sr path hint))
      (HdBuildOpenConnectionResult buf buf_size c md dr sr path (int (length path))
         hint (int (length hint))) \<and>
    builds_checked buf buf_size
      (int (length path) \<le> kHdMaxRelayPath \<and> int (length hint) \<le> kHdMaxEndpointHint)
      (hd_frame HdFrame_kFleetOpenConnectionResult (open_result_payload c md dr sr path hint))
      (HdBuildFleetOpenConnectionResult buf buf_size c md dr sr path (int (length path))
         hint (int (length hint))) \<and>
    builds_checked buf buf_size (int (length fid) \<le> kHdMaxFleetIdLen)
      (hd_frame HdFrame_kFleetOpenConnection (fleet_open_payload rid fid k inner))
      (HdBuildFleetOpenConnection buf buf_size rid fid (int (length fid)) k inner
         (int (length inner))) \<and>
    builds_checked buf buf_size True
      (hd_frame HdFrame_kRouteAnnounce (route_payload (take n (zip ids hops))))
      (HdBuildRouteAnnounce buf buf_size ids hops (int n))"
  by (intro conjI) (rule HdBuildOpenConnectionResult_builds [OF size] HdBuildFleetOpenConnectionResult_builds [OF size]
      HdBuildFleetOpenConnection_builds [OF size k inner] HdBuildRouteAnnounce_builds [OF size n])+

theorem hd_sized_builders_exact_witness:
  "HdBuildRouteAnnounce [0, 0, 0, 0, 0, 0, 0, 0] 8 [258] [5] 1 =
     Some ([0x30, 0, 0, 3, 1, 2, 5, 0], 7) \<and>
   HdBuildRouteAnnounce [0, 0, 0, 0, 0, 0, 0, 0] 6 [258] [5] 1 =
     Some ([0, 0, 0, 0, 0, 0, 0, 0], -1)"
proof -
  have k: "is_Key zero_Key" by (simp add: is_Key_def zero_Key_def)
  have i: "int (length (replicate 14 (0::u8))) = kHdOpenConnSize" by simp
  note t = hd_sized_builders_exact [OF _ k i, where buf = "[0, 0, 0, 0, 0, 0, 0, 0]" and n = 1
      and ids = "[258]" and hops = "[5]"]
  from t [of 8] t [of 6] show ?thesis
    by (simp add: builds_checked_def hd_frame_def route_payload_def be16_def be24_def wrote_def)
qed

text \<open>
  C26: The four fixed-size routing frames are decoded bijectively: a payload is accepted exactly
  when it is the encoding of the record the parser returns (with enumeration values in the form
  their wire byte decodes to), whatever the output structure held before.
\<close>

theorem hd_fixed_parse_iff:
  assumes "is_Key (ic_initiator_key ic0)"
  shows "(HdParseOpenConnection payload (int (length payload)) oc0 = Some (True, oc) \<longleftrightarrow>
      payload = open_conn_payload oc \<and> canonical_intent (oc_intent oc)) \<and>
    (HdParseIncomingConnection payload (int (length payload)) ic0 = Some (True, ic) \<longleftrightarrow>
      payload = incoming_conn_payload ic \<and> is_Key (ic_initiator_key ic) \<and>
      canonical_intent (ic_intent ic)) \<and>
    (HdParseIncomingConnResponse payload (int (length payload)) icr0 = Some (True, icr) \<longleftrightarrow>
      payload = incoming_resp_payload icr \<and> canonical_intent (icr_intent icr)) \<and>
    (HdParseIncomingConnResult payload (int (length payload)) ics0 = Some (True, ics) \<longleftrightarrow>
      payload = incoming_result_payload ics \<and> canonical_mode (ics_mode ics) \<and>
      canonical_deny (ics_deny_reason ics))"
  by (intro conjI) (rule HdParseOpenConnection_iff HdParseIncomingConnection_iff [OF assms]
      HdParseIncomingConnResponse_iff HdParseIncomingConnResult_iff)+

theorem hd_fixed_parse_iff_witness:
  "HdParseOpenConnection [0, 3, 0, 2, 1, 1, 0, 0, 0, 0, 0, 0, 0, 9] 14
     \<lparr>oc_target_peer_id = 0, oc_target_relay_id = 0, oc_intent = Intent_kPreferDirect,
      oc_flags = 0, oc_correlation_id = 0\<rparr> =
   Some (True, \<lparr>oc_target_peer_id = 3, oc_target_relay_id = 2, oc_intent = Intent_kRequireDirect,
      oc_flags = 1, oc_correlation_id = 9\<rparr>)"
proof -
  have k: "is_Key (ic_initiator_key \<lparr>ic_initiator_key = zero_Key, ic_initiator_peer_id = 0,
     ic_intent = Intent_kPreferDirect, ic_flags = 0, ic_correlation_id = 0\<rparr>)"
    by (simp add: is_Key_def zero_Key_def)
  show ?thesis
    using hd_fixed_parse_iff [OF k, of "[0, 3, 0, 2, 1, 1, 0, 0, 0, 0, 0, 0, 0, 9]"
        "\<lparr>oc_target_peer_id = 0, oc_target_relay_id = 0, oc_intent = Intent_kPreferDirect,
          oc_flags = 0, oc_correlation_id = 0\<rparr>"
        "\<lparr>oc_target_peer_id = 3, oc_target_relay_id = 2, oc_intent = Intent_kRequireDirect,
          oc_flags = 1, oc_correlation_id = 9\<rparr>"]
    by (simp add: open_conn_payload_def be16_def be64_def upt_0_8)
qed

lemma drop_4_hd_frame: "drop 4 (wrote (hd_frame ty p) m) = p @ drop (4 + length p) m"
proof -
  obtain h where "hd_frame ty p = h @ p" "length h = 4"
    by (simp add: hd_frame_def be24_def)
  then show ?thesis by (simp add: wrote_def)
qed

text \<open>
  A connection result that fits its buffer survives the wire: the parser, given the payload
  of the frame the builder wrote, returns every field, the relay path in the front of its array
  and the endpoint hint as a terminated string.
\<close>

theorem hd_open_result_roundtrip:
  assumes path: "int (length path) \<le> kHdMaxRelayPath"
    and hint: "int (length hint) \<le> kHdMaxEndpointHint"
    and md: "canonical_mode md" and dr: "canonical_deny dr"
    and size: "int (20 + 2 * length path + length hint) \<le> buf_size" "buf_size \<le> int (length buf)"
    and arrs: "int (length (ocr_relay_path out)) = kHdMaxRelayPath"
      "int (length (ocr_endpoint_hint out)) = kHdMaxEndpointHint + 1"
  shows "\<exists>m n. HdBuildOpenConnectionResult buf buf_size c md dr sr path (int (length path))
        hint (int (length hint)) = Some (m, n) \<and>
      n = int (20 + 2 * length path + length hint) \<and>
      HdParseOpenConnectionResult (take (nat n - 4) (drop 4 m)) (n - 4) out =
        Some (True, \<lparr>ocr_correlation_id = c, ocr_mode = md, ocr_deny_reason = dr,
          ocr_sub_reason = sr,
          ocr_relay_path = path @ drop (length path) (ocr_relay_path out),
          ocr_relay_path_len = int (length path),
          ocr_endpoint_hint = hint @ 0 # drop (Suc (length hint)) (ocr_endpoint_hint out),
          ocr_endpoint_hint_len = int (length hint)\<rparr>)"
proof -
  let ?p = "open_result_payload c md dr sr path hint"
  have b: "HdBuildOpenConnectionResult buf buf_size c md dr sr path (int (length path))
        hint (int (length hint)) =
      Some (wrote (hd_frame HdFrame_kOpenConnectionResult ?p) buf, int (4 + length ?p))"
    using HdBuildOpenConnectionResult_builds [OF size(2), of path hint c md dr sr] path hint size(1)
    by (simp add: builds_checked_def)
  show ?thesis
    using HdParseOpenConnectionResult_read [OF path hint md dr arrs, of c sr]
    by (auto simp: b drop_4_hd_frame nat_add_distrib add.assoc)
qed

definition example_result :: HdOpenConnectionResult where
  "example_result = \<lparr>ocr_correlation_id = 0, ocr_mode = Mode_kDenied, ocr_deny_reason = Deny_kNone,
     ocr_sub_reason = 0, ocr_relay_path = replicate 32 0, ocr_relay_path_len = 0,
     ocr_endpoint_hint = replicate 129 0, ocr_endpoint_hint_len = 0\<rparr>"

theorem hd_open_result_roundtrip_witness:
  "\<exists>m n r. HdBuildOpenConnectionResult (replicate 64 0) 64 77 Mode_kRelayed Deny_kNone 1 [3, 9] 2
      [65, 66] 2 = Some (m, n) \<and> n = 26 \<and>
    HdParseOpenConnectionResult (take (nat n - 4) (drop 4 m)) (n - 4) example_result = Some (True, r) \<and>
    ocr_relay_path_len r = 2 \<and> take 2 (ocr_relay_path r) = [3, 9] \<and>
    take 3 (ocr_endpoint_hint r) = [65, 66, 0]"
proof -
  have "int (length [3, 9 :: u16]) \<le> kHdMaxRelayPath" "int (length [65, 66 :: u8]) \<le> kHdMaxEndpointHint"
    "canonical_mode Mode_kRelayed" "canonical_deny Deny_kNone"
    "int (20 + 2 * length [3, 9 :: u16] + length [65, 66 :: u8]) \<le> 64"
    "64 \<le> int (length (replicate 64 (0 :: u8)))"
    "int (length (ocr_relay_path example_result)) = kHdMaxRelayPath"
    "int (length (ocr_endpoint_hint example_result)) = kHdMaxEndpointHint + 1"
    by (simp_all add: example_result_def)
  from hd_open_result_roundtrip [OF this, of 77 1] show ?thesis
    by (auto simp: example_result_def)
qed

text \<open>
  C25: A relayed cross-relay request survives the wire: the target relay recovers the origin
  relay and fleet id, the target key and the inner frame, and the inner bytes parse back to the
  OpenConnection request the origin relay embedded.
\<close>

theorem hd_fleet_open_roundtrip:
  assumes fid: "int (length fid) \<le> kHdMaxFleetIdLen" and k: "is_Key k"
    and ci: "canonical_intent (oc_intent oc)"
    and size: "int (54 + length fid) \<le> buf_size" "buf_size \<le> int (length buf)"
    and arrs: "int (length (foc_origin_fleet_id out)) = kHdMaxFleetIdLen + 1"
      "is_Key (foc_target_key out)" "int (length (foc_inner_conn out)) = kHdOpenConnSize"
  shows "\<exists>m n r. HdBuildFleetOpenConnection buf buf_size rid fid (int (length fid)) k
        (open_conn_payload oc) kHdOpenConnSize = Some (m, n) \<and>
      n = int (54 + length fid) \<and>
      HdParseFleetOpenConnection (take (nat n - 4) (drop 4 m)) (n - 4) out = Some (True, r) \<and>
      foc_origin_relay_id r = rid \<and> foc_origin_fleet_id_len r = int (length fid) \<and>
      take (Suc (length fid)) (foc_origin_fleet_id r) = fid @ [0] \<and>
      foc_target_key r = k \<and>
      HdParseOpenConnection (foc_inner_conn r) kHdOpenConnSize oc0 = Some (True, oc)"
proof -
  let ?i = "open_conn_payload oc"
  let ?p = "fleet_open_payload rid fid k ?i"
  have i: "int (length ?i) = kHdOpenConnSize" by (simp add: open_conn_payload_def)
  have len: "length ?p = 50 + length fid"
    using i k by (simp add: fleet_open_payload_def is_Key_def)
  have b: "HdBuildFleetOpenConnection buf buf_size rid fid (int (length fid)) k ?i 14 =
      Some (wrote (hd_frame HdFrame_kFleetOpenConnection ?p) buf, int (4 + length ?p))"
    using HdBuildFleetOpenConnection_builds [OF size(2) k i, of fid rid] fid size(1) len i
    by (simp add: builds_checked_def)
  have inner: "HdParseOpenConnection ?i 14 oc0 = Some (True, oc)"
    using HdParseOpenConnection_iff [of ?i oc0 oc] i ci by simp
  show ?thesis
    using HdParseFleetOpenConnection_read [OF fid k i arrs, of rid] inner
    by (simp add: b drop_4_hd_frame len nat_add_distrib)
qed

theorem hd_fleet_open_roundtrip_witness:
  "\<exists>m r. HdBuildFleetOpenConnection (replicate 64 0) 64 5 [70] 1 zero_Key
      (open_conn_payload \<lparr>oc_target_peer_id = 3, oc_target_relay_id = 2,
        oc_intent = Intent_kPreferRelay, oc_flags = 1, oc_correlation_id = 9\<rparr>) 14 = Some (m, 55) \<and>
    HdParseFleetOpenConnection (take 51 (drop 4 m)) 51
      \<lparr>foc_origin_relay_id = 0, foc_origin_fleet_id = replicate 65 0, foc_origin_fleet_id_len = 0,
       foc_target_key = zero_Key, foc_inner_conn = replicate 14 0\<rparr> = Some (True, r) \<and>
    foc_origin_relay_id r = 5 \<and> foc_target_key r = zero_Key"
proof -
  have "int (length [70 :: u8]) \<le> kHdMaxFleetIdLen" "is_Key zero_Key"
    "canonical_intent (oc_intent \<lparr>oc_target_peer_id = 3, oc_target_relay_id = 2,
        oc_intent = Intent_kPreferRelay, oc_flags = 1, oc_correlation_id = 9\<rparr>)"
    "int (54 + length [70 :: u8]) \<le> 64" "64 \<le> int (length (replicate 64 (0 :: u8)))"
    "int (length (foc_origin_fleet_id \<lparr>foc_origin_relay_id = 0, foc_origin_fleet_id = replicate 65 0,
       foc_origin_fleet_id_len = 0, foc_target_key = zero_Key, foc_inner_conn = replicate 14 0\<rparr>))
       = kHdMaxFleetIdLen + 1"
    "is_Key (foc_target_key \<lparr>foc_origin_relay_id = 0, foc_origin_fleet_id = replicate 65 0,
       foc_origin_fleet_id_len = 0, foc_target_key = zero_Key, foc_inner_conn = replicate 14 0\<rparr>)"
    "int (length (foc_inner_conn \<lparr>foc_origin_relay_id = 0, foc_origin_fleet_id = replicate 65 0,
       foc_origin_fleet_id_len = 0, foc_target_key = zero_Key, foc_inner_conn = replicate 14 0\<rparr>))
       = kHdOpenConnSize"
    by (simp_all add: is_Key_def zero_Key_def)
  from hd_fleet_open_roundtrip [OF this, of 5 "\<lparr>oc_target_peer_id = 0, oc_target_relay_id = 0,
      oc_intent = Intent_kPreferDirect, oc_flags = 0, oc_correlation_id = 0\<rparr>"]
  show ?thesis by auto
qed

lemma HdParseRouteAnnounce_read_prefix:
  assumes "n \<le> length es" "int n = max_out" "max_out \<le> int (length ids)" "length hops = length ids"
  shows "HdParseRouteAnnounce (route_payload es) (int (length (route_payload es))) ids hops max_out =
    Some (map fst (take n es) @ drop n ids, map snd (take n es) @ drop n hops, int n)"
proof -
  have "int (length (route_payload es)) sdiv 3 = int (length es)"
    by (simp add: signed_divide_int_def sgn_if)
  moreover have "route_payload (take n es) @ route_payload (drop n es) = route_payload es"
    by (metis append_take_drop_id concat_append map_append route_payload_def)
  ultimately show ?thesis
    using assms route_parse_loop_read [of "[]" 0 "take n es" ids hops "route_payload (drop n es)"]
    by (auto simp: HdParseRouteAnnounce_def Let_def)
qed

text \<open>
  A route announcement survives the wire: parsing the frame the builder wrote fills the
  front of the two output arrays with the announced relays and hop counts, and a receiver with
  fewer slots than announced entries keeps exactly the first ones.
\<close>

theorem hd_route_announce_roundtrip:
  assumes "length hops = length ids" and "length ohops = length oids"
    and "int (4 + 3 * length ids) \<le> buf_size" "buf_size \<le> int (length buf)"
  shows "\<exists>m n. HdBuildRouteAnnounce buf buf_size ids hops (int (length ids)) = Some (m, n) \<and>
    HdParseRouteAnnounce (take (nat n - 4) (drop 4 m)) (n - 4) oids ohops (int (length oids)) =
      (let k = min (length ids) (length oids) in
       Some (take k ids @ drop k oids, take k hops @ drop k ohops, int k))"
proof -
  let ?es = "zip ids hops"
  have b: "HdBuildRouteAnnounce buf buf_size ids hops (int (length ids)) =
      Some (wrote (hd_frame HdFrame_kRouteAnnounce (route_payload ?es)) buf, int (4 + 3 * length ids))"
    using HdBuildRouteAnnounce_builds [OF assms(4) order_refl assms(1)] assms
    by (simp add: builds_checked_def)
  have c: "take (4 + 3 * length ids - 4) (drop 4 (wrote (hd_frame HdFrame_kRouteAnnounce
      (route_payload ?es)) buf)) = route_payload ?es"
    using assms by (simp add: drop_4_hd_frame)
  have l: "length (route_payload ?es) = 3 * length ids" using assms by simp
  have p: "HdParseRouteAnnounce (route_payload ?es) (int (3 * length ids)) oids ohops
      (int (length oids)) = (let k = min (length ids) (length oids) in
       Some (take k ids @ drop k oids, take k hops @ drop k ohops, int k))"
  proof (cases "length ids \<le> length oids")
    case True
    with HdParseRouteAnnounce_read [of ?es "int (length oids)" oids ohops] assms l show ?thesis
      by (simp add: min_def Let_def)
  next
    case False
    with HdParseRouteAnnounce_read_prefix [of "length oids" ?es "int (length oids)" oids ohops]
      assms l show ?thesis by (simp add: min_def Let_def take_map [symmetric])
  qed
  show ?thesis using b c p by (auto simp: nat_add_distrib nat_mult_distrib)
qed

theorem hd_route_announce_roundtrip_witness:
  "\<exists>m n. HdBuildRouteAnnounce (replicate 16 0) 16 [7, 8] [1, 2] 2 = Some (m, n) \<and>
    HdParseRouteAnnounce (take (nat n - 4) (drop 4 m)) (n - 4) [0] [0] 1 = Some ([7], [1], 1)"
  using hd_route_announce_roundtrip [of "[1, 2]" "[7, 8]" "[0]" "[0]" 16 "replicate 16 0"] by simp

text \<open>
  C27: No HD parser reads or writes out of bounds, whatever bytes the peer sent: with a claimed
  payload length that does not exceed the payload and output arrays of the declared sizes,
  every parser is defined.
\<close>

theorem hd_parsers_memory_safe:
  assumes len: "payload_len \<le> int (length payload)"
    and ocr: "int (length (ocr_relay_path ocr)) = kHdMaxRelayPath"
      "int (length (ocr_endpoint_hint ocr)) = kHdMaxEndpointHint + 1"
    and foc: "int (length (foc_origin_fleet_id foc)) = kHdMaxFleetIdLen + 1"
      "is_Key (foc_target_key foc)" "int (length (foc_inner_conn foc)) = kHdOpenConnSize"
    and ic: "is_Key (ic_initiator_key ic)"
    and ids: "max_out \<le> int (length ids)" "length hops = length ids"
    and url: "url_size \<le> int (length url)"
  shows "HdParseOpenConnection payload payload_len oc \<noteq> None \<and>
    HdParseOpenConnectionResult payload payload_len ocr \<noteq> None \<and>
    HdParseIncomingConnection payload payload_len ic \<noteq> None \<and>
    HdParseIncomingConnResponse payload payload_len icr \<noteq> None \<and>
    HdParseIncomingConnResult payload payload_len ics \<noteq> None \<and>
    HdParseFleetOpenConnection payload payload_len foc \<noteq> None \<and>
    HdParseRedirect payload payload_len rr url url_size \<noteq> None \<and>
    HdParseRouteAnnounce payload payload_len ids hops max_out \<noteq> None"
proof (intro conjI)
  show "HdParseOpenConnection payload payload_len oc \<noteq> None"
    using len by (auto simp: HdParseOpenConnection_def parse_simps ex_true)
  show "HdParseIncomingConnection payload payload_len ic \<noteq> None"
    using len ic by (auto simp: HdParseIncomingConnection_def parse_simps ex_true memcpy_def wr_def
        is_Key_def)
  show "HdParseIncomingConnResponse payload payload_len icr \<noteq> None"
    using len by (auto simp: HdParseIncomingConnResponse_def parse_simps ex_true)
  show "HdParseIncomingConnResult payload payload_len ics \<noteq> None"
    using len by (auto simp: HdParseIncomingConnResult_def parse_simps ex_true)
  show "HdParseRedirect payload payload_len rr url url_size \<noteq> None"
    using len url memcpy_ok [of 0 1 "payload_len - 1" payload url]
    by (auto simp: HdParseRedirect_def Let_def rd8_def wr_def)
  show "HdParseOpenConnectionResult payload payload_len ocr \<noteq> None"
    by (rule HdParseOpenConnectionResult_defined [OF len ocr])
  show "HdParseFleetOpenConnection payload payload_len foc \<noteq> None"
    by (rule HdParseFleetOpenConnection_defined [OF len foc])
  show "HdParseRouteAnnounce payload payload_len ids hops max_out \<noteq> None"
    by (rule HdParseRouteAnnounce_defined [OF len ids])
qed

theorem hd_parsers_memory_safe_witness:
  "HdParseOpenConnectionResult (replicate 20 255) 20 example_result \<noteq> None"
proof -
  have "(20 :: int) \<le> int (length (replicate 20 (255 :: u8)))"
    "int (length (ocr_relay_path example_result)) = kHdMaxRelayPath"
    "int (length (ocr_endpoint_hint example_result)) = kHdMaxEndpointHint + 1"
    "int (length (foc_origin_fleet_id \<lparr>foc_origin_relay_id = 0, foc_origin_fleet_id = replicate 65 0,
       foc_origin_fleet_id_len = 0, foc_target_key = zero_Key, foc_inner_conn = replicate 14 0\<rparr>))
       = kHdMaxFleetIdLen + 1"
    "is_Key (foc_target_key \<lparr>foc_origin_relay_id = 0, foc_origin_fleet_id = replicate 65 0,
       foc_origin_fleet_id_len = 0, foc_target_key = zero_Key, foc_inner_conn = replicate 14 0\<rparr>)"
    "int (length (foc_inner_conn \<lparr>foc_origin_relay_id = 0, foc_origin_fleet_id = replicate 65 0,
       foc_origin_fleet_id_len = 0, foc_target_key = zero_Key, foc_inner_conn = replicate 14 0\<rparr>))
       = kHdOpenConnSize"
    "is_Key (ic_initiator_key \<lparr>ic_initiator_key = zero_Key, ic_initiator_peer_id = 0,
       ic_intent = Intent_kPreferDirect, ic_flags = 0, ic_correlation_id = 0\<rparr>)"
    "(0 :: int) \<le> int (length ([] :: u16 list))" "length ([] :: u8 list) = length ([] :: u16 list)"
    "(0 :: int) \<le> int (length ([] :: u8 list))"
    by (simp_all add: is_Key_def zero_Key_def example_result_def)
  from hd_parsers_memory_safe [OF this] show ?thesis by blast
qed

end
