(* ===== verification/Key_Format.thy ===== *)
theory Key_Format
  imports Derp_Protocol
begin

text \<open>
  Prefixed key strings: \<^verbatim>\<open>include/hyper_derp/key_format.h\<close> and \<^verbatim>\<open>src/key_format.cc\<close>.
  \<^verbatim>\<open>sodium_bin2hex\<close> and \<^verbatim>\<open>sodium_hex2bin\<close> belong to libsodium; they are the parameters
  \<open>bin2hex\<close> (the characters written for a byte string) and \<open>hex2bin\<close> (old contents of the
  output, the characters: return code, decoded length and new contents of the output).
\<close>

section \<open>Data\<close>

type_synonym bin2hex_fn = "bytes \<Rightarrow> string"
type_synonym hex2bin_fn = "bytes \<Rightarrow> string \<Rightarrow> int \<times> nat \<times> bytes"

datatype KeyPrefix = Prefix_kInvalid | Prefix_kRawHex | Prefix_kRelay | Prefix_kClient

definition kKeyPrefixLen :: nat where [const_simps, simp]: "kKeyPrefixLen = 3"
definition kPrefixedKeyLen :: nat where [const_simps, simp]: "kPrefixedKeyLen = 67"
definition kKeyPrefixRelay :: string where "kKeyPrefixRelay = ''rk_''"
definition kKeyPrefixClient :: string where "kKeyPrefixClient = ''ck_''"

section \<open>Operations\<close>

definition FormatWithPrefix :: "bin2hex_fn \<Rightarrow> Key \<Rightarrow> string \<Rightarrow> string" where
  "FormatWithPrefix bin2hex key prefix =
     take kKeyPrefixLen prefix @ take (nat kKeySize * 2) (bin2hex key)"

definition HexToKey :: "hex2bin_fn \<Rightarrow> string \<Rightarrow> Key \<Rightarrow> bool \<times> Key" where
  "HexToKey hex2bin hex out =
     (if int (length hex) \<noteq> kKeySize * 2 then (False, out)
      else (case hex2bin out hex of (rc, decoded, out') \<Rightarrow>
        if rc \<noteq> 0 then (False, out') else (int decoded = kKeySize, out')))"

definition KeyToRkString :: "bin2hex_fn \<Rightarrow> Key \<Rightarrow> string" where
  "KeyToRkString bin2hex key = FormatWithPrefix bin2hex key kKeyPrefixRelay"

definition KeyToCkString :: "bin2hex_fn \<Rightarrow> Key \<Rightarrow> string" where
  "KeyToCkString bin2hex key = FormatWithPrefix bin2hex key kKeyPrefixClient"

definition ParseKeyString :: "hex2bin_fn \<Rightarrow> string \<Rightarrow> Key \<Rightarrow> KeyPrefix \<times> Key" where
  "ParseKeyString hex2bin s out =
     (if int (length s) = kKeySize * 2 then
        (case HexToKey hex2bin s out of (ok, out') \<Rightarrow>
           if ok then (Prefix_kRawHex, out') else (Prefix_kInvalid, out'))
      else if length s = kPrefixedKeyLen then
        (let body = take (nat kKeySize * 2) (drop kKeyPrefixLen s);
             pre = take kKeyPrefixLen s;
             (ok1, out1) = (if pre = kKeyPrefixRelay then HexToKey hex2bin body out
                            else (False, out)) in
         if ok1 then (Prefix_kRelay, out1)
         else (let (ok2, out2) = (if pre = kKeyPrefixClient then HexToKey hex2bin body out1
                                  else (False, out1)) in
           if ok2 then (Prefix_kClient, out2) else (Prefix_kInvalid, out2)))
      else (Prefix_kInvalid, out))"

section \<open>What the code relies on in libsodium\<close>

text \<open>
  \<^verbatim>\<open>sodium_bin2hex\<close> writes two characters per byte and \<^verbatim>\<open>sodium_hex2bin\<close> decodes what
  \<^verbatim>\<open>sodium_bin2hex\<close> wrote; a successful decoding of 64 characters leaves 32 bytes.
\<close>

definition sodium_hex :: "bin2hex_fn \<Rightarrow> hex2bin_fn \<Rightarrow> bool" where
  "sodium_hex bin2hex hex2bin \<longleftrightarrow>
     (\<forall>bs. length (bin2hex bs) = 2 * length bs) \<and>
     (\<forall>bs out. length out = length bs \<longrightarrow> hex2bin out (bin2hex bs) = (0, length bs, bs))"

text \<open>An instance: lower-case hexadecimal.\<close>

definition hex_digit :: "u8 \<Rightarrow> char" where
  "hex_digit d = (''0123456789abcdef'') ! unat d"

definition hex_value :: "char \<Rightarrow> u8 option" where
  "hex_value c = map_option of_nat (scan (\<lambda>d. d = c) ''0123456789abcdef'')"

definition hex_encode :: bin2hex_fn where
  "hex_encode bs = concat (map (\<lambda>b. [hex_digit (drop_bit 4 b), hex_digit (b AND 15)]) bs)"

fun hex_decode_loop :: "string \<Rightarrow> bytes \<Rightarrow> bytes option" where
  "hex_decode_loop [] acc = Some (rev acc)"
| "hex_decode_loop [_] acc = None"
| "hex_decode_loop (h # l # cs) acc =
     (case (hex_value h, hex_value l) of
        (Some a, Some b) \<Rightarrow> hex_decode_loop cs ((push_bit 4 a OR b) # acc)
      | _ \<Rightarrow> None)"

definition hex_decode :: hex2bin_fn where
  "hex_decode out cs =
     (case hex_decode_loop cs [] of
        None \<Rightarrow> (-1, 0, out)
      | Some bs \<Rightarrow> if length bs \<le> length out then (0, length bs, bs @ drop (length bs) out)
                   else (-1, 0, out))"

lemma hex_table: "list_all (\<lambda>n. hex_value (hex_digit (of_nat n)) = Some (of_nat n)) [0..<16]"
  by code_simp

lemma hex_value_digit: "d < 16 \<Longrightarrow> hex_value (hex_digit d) = Some d"
proof -
  assume "d < 16"
  then have "unat d < 16" by (simp add: word_less_nat_alt)
  with hex_table show ?thesis by (auto simp: list_all_iff dest: bspec [of _ _ "unat d"])
qed

lemma nibbles: "(drop_bit 4 b :: u8) < 16" "(b AND 15 :: u8) < 16"
  "push_bit 4 (drop_bit 4 b) OR (b AND 15) = (b :: u8)"
proof -
  have "unat b < 256" using unsigned_less [of b] by simp
  then show "drop_bit 4 b < 16"
    by (simp add: word_less_nat_alt unsigned_drop_bit_eq drop_bit_nat_def take_bit_nat_def
        less_mult_imp_div_less)
  have m: "(15 :: u8) = mask 4" by (simp add: mask_eq_exp_minus_1)
  show "b AND 15 < 16" 
    by (simp add: m take_bit_eq_mask [symmetric] word_less_nat_alt unsigned_take_bit_eq
        take_bit_nat_def)
  show "push_bit 4 (drop_bit 4 b) OR (b AND 15) = b"
    by (rule bit_word_eqI) (auto simp: m bit_simps)
qed

lemma hex_decode_encode: "hex_decode_loop (hex_encode bs) acc = Some (rev acc @ bs)"
  by (induction bs arbitrary: acc) (simp_all add: hex_encode_def hex_value_digit nibbles)

lemma sodium_hex_instance: "sodium_hex hex_encode hex_decode"
proof -
  have "length (hex_encode bs) = 2 * length bs" for bs
    by (induction bs) (simp_all add: hex_encode_def)
  then show ?thesis by (simp add: sodium_hex_def hex_decode_def hex_decode_encode)
qed

section \<open>Properties\<close>

lemma HexToKey_bin2hex:
  "sodium_hex bin2hex hex2bin \<Longrightarrow> is_Key k \<Longrightarrow> is_Key out \<Longrightarrow>
    HexToKey hex2bin (bin2hex k) out = (True, k)"
  by (simp add: sodium_hex_def HexToKey_def is_Key_def)

text \<open>
  C29: Key strings are parsed back: the relay form, the client form and the raw hexadecimal form
  of a key each give back that key with the prefix kind that tells them apart, and a string of
  any other length is refused with the output untouched.
\<close>

theorem key_string_roundtrip:
  assumes h: "sodium_hex bin2hex hex2bin" and k: "is_Key k" and out: "is_Key out"
  shows "ParseKeyString hex2bin (KeyToRkString bin2hex k) out = (Prefix_kRelay, k) \<and>
    ParseKeyString hex2bin (KeyToCkString bin2hex k) out = (Prefix_kClient, k) \<and>
    ParseKeyString hex2bin (bin2hex k) out = (Prefix_kRawHex, k) \<and>
    (length s \<notin> {64, 67} \<longrightarrow> ParseKeyString hex2bin s out = (Prefix_kInvalid, out))"
proof -
  have "length (bin2hex k) = 64" using h k by (simp add: sodium_hex_def is_Key_def)
  then show ?thesis
    using HexToKey_bin2hex [OF h k out]
    by (auto simp: ParseKeyString_def KeyToRkString_def KeyToCkString_def FormatWithPrefix_def
        kKeyPrefixRelay_def kKeyPrefixClient_def)
qed

theorem key_string_roundtrip_witness:
  "ParseKeyString hex_decode (KeyToCkString hex_encode zero_Key) zero_Key = (Prefix_kClient, zero_Key)"
proof -
  have "is_Key zero_Key" by (simp add: is_Key_def zero_Key_def)
  with key_string_roundtrip [OF sodium_hex_instance] show ?thesis by blast
qed

end
