(* ===== verification/Hd_Peers.thy ===== *)
theory Hd_Peers
  imports Hd_Protocol Key_Format
begin

text \<open>
  The HD peer registry: \<^verbatim>\<open>include/hyper_derp/hd_peers.h\<close> and \<^verbatim>\<open>src/hd_peers.cc\<close>.
  Arrays of the source are lists of the declared length; a pointer into an array is the index it
  points to. The registry mutex makes each operation atomic, so an operation is a function on
  the registry. Files are a map from paths to contents; what the C library does on them
  (whether a file opens, how many bytes each \<^verbatim>\<open>fwrite\<close> writes, whether \<^verbatim>\<open>rename\<close>
  succeeds) is an argument. \<^verbatim>\<open>inet_aton\<close> and \<^verbatim>\<open>crypto_auth_verify\<close> are arguments too.
\<close>

section \<open>Data\<close>

datatype HdPeerState = PeerState_kPending | PeerState_kApproved | PeerState_kDenied

datatype HdEnrollMode = Enroll_kManual | Enroll_kAutoApprove

definition kHdMaxPeers :: nat where "kHdMaxPeers = 4096"
definition kHdMaxForwardRules :: nat where "kHdMaxForwardRules = 16"
definition kHdHmacSize :: int where [const_simps, simp]: "kHdHmacSize = 32"

record HdForwardRule =
  fr_dst_key :: Key
  fr_occupied :: u8

record HdPeerPolicy =
  pp_override_client :: bool
  pp_has_pin :: bool
  pp_pinned_intent :: HdIntent
  pp_audit_tag :: bytes
  pp_reason :: bytes

record HdPeer =
  hp_key :: Key
  hp_fd :: int
  hp_peer_id :: u16
  hp_state :: HdPeerState
  hp_occupied :: u8 \<comment> \<open>0 empty, 1 live, 2 tombstone\<close>
  hp_rules :: "HdForwardRule list"
  hp_rule_count :: int
  hp_enrolled_at :: u64

record HdRelayPolicy =
  rp_default_mode :: HdIntent
  rp_forbid_direct :: bool
  rp_forbid_relayed :: bool
  rp_max_direct_peers :: int
  rp_audit_relayed_traffic :: bool

record HdFleetPolicy =
  fp_allow_direct :: bool
  fp_allow_relayed :: bool
  fp_require_relay_for_cross_region :: bool

record HdFederationAccept =
  fa_fleet_id :: string
  fa_allowed_destinations :: "string list"

record HdFederationPolicy =
  fed_local_fleet_id :: string
  fed_accept_from :: "HdFederationAccept list"
  fed_reject_from :: "string list"

record HdEnrollPolicy =
  ep_max_peers :: int
  ep_allowed_keys :: "string list"
  ep_require_ip_range :: string

record HdPeerRegistry =
  reg_peers :: "HdPeer list"
  reg_peer_count :: int
  reg_enroll_mode :: HdEnrollMode
  reg_policy :: HdEnrollPolicy
  reg_relay_key :: Key
  reg_next_peer_id :: u16
  reg_relay_id :: u16
  reg_denylist :: "Key list"
  reg_denylist_path :: string
  reg_policies :: "HdPeerPolicy list"
  reg_peer_policy_path :: string
  reg_relay_policy :: HdRelayPolicy
  reg_fleet_policy :: HdFleetPolicy
  reg_federation_policy :: HdFederationPolicy
  reg_direct_in_use :: int

text \<open>The values of the member initialisers.\<close>

definition HdForwardRule_init :: HdForwardRule where
  "HdForwardRule_init = \<lparr>fr_dst_key = zero_Key, fr_occupied = 0\<rparr>"

definition HdPeerPolicy_init :: HdPeerPolicy where
  "HdPeerPolicy_init = \<lparr>pp_override_client = False, pp_has_pin = False,
     pp_pinned_intent = Intent_kPreferDirect, pp_audit_tag = [], pp_reason = []\<rparr>"

definition HdPeer_init :: HdPeer where
  "HdPeer_init = \<lparr>hp_key = zero_Key, hp_fd = -1, hp_peer_id = 0, hp_state = PeerState_kPending,
     hp_occupied = 0, hp_rules = replicate kHdMaxForwardRules HdForwardRule_init,
     hp_rule_count = 0, hp_enrolled_at = 0\<rparr>"

definition HdPeerRegistry_init :: HdPeerRegistry where
  "HdPeerRegistry_init = \<lparr>reg_peers = replicate kHdMaxPeers HdPeer_init, reg_peer_count = 0,
     reg_enroll_mode = Enroll_kManual,
     reg_policy = \<lparr>ep_max_peers = 0, ep_allowed_keys = [], ep_require_ip_range = ''''\<rparr>,
     reg_relay_key = zero_Key, reg_next_peer_id = 1, reg_relay_id = 0, reg_denylist = [],
     reg_denylist_path = '''', reg_policies = replicate kHdMaxPeers HdPeerPolicy_init,
     reg_peer_policy_path = '''',
     reg_relay_policy = \<lparr>rp_default_mode = Intent_kPreferDirect, rp_forbid_direct = False,
       rp_forbid_relayed = False, rp_max_direct_peers = 0, rp_audit_relayed_traffic = True\<rparr>,
     reg_fleet_policy = \<lparr>fp_allow_direct = True, fp_allow_relayed = True,
       fp_require_relay_for_cross_region = False\<rparr>,
     reg_federation_policy = \<lparr>fed_local_fleet_id = '''', fed_accept_from = [],
       fed_reject_from = []\<rparr>,
     reg_direct_in_use = 0\<rparr>"

section \<open>Enrolment and federation policies\<close>

definition GlobMatch :: "string \<Rightarrow> string \<Rightarrow> bool" where
  "GlobMatch pattern text =
     (if pattern = [] then True
      else (case scan (\<lambda>c. c = CHR ''*'') pattern of
        None \<Rightarrow> pattern = text
      | Some star \<Rightarrow> if length text < star then False else take star pattern = take star text))"

text \<open>
  The digit loop of \<^verbatim>\<open>ParseCidrV4\<close>: undefined when the \<^verbatim>\<open>int\<close> overflows,
  \<^term>\<open>Some None\<close> when it returns false.
\<close>

fun cidr_bits_loop :: "string \<Rightarrow> int \<Rightarrow> int option ub" where
  "cidr_bits_loop [] bits = Some (Some bits)"
| "cidr_bits_loop (c # cs) bits =
     (if (of_char c :: int) < 48 \<or> 57 < (of_char c :: int) then Some None
      else (let bits = bits * 10 + (of_char c - 48) in
        if 2147483647 < bits then None else cidr_bits_loop cs bits))"

definition c_str :: "string \<Rightarrow> string" where
  "c_str s = takeWhile (\<lambda>c. c \<noteq> CHR 0x00) s"

text \<open>The result is \<^term>\<open>Some (net, mask)\<close> in network byte order.\<close>

definition ParseCidrV4 :: "(string \<Rightarrow> u32 option) \<Rightarrow> string \<Rightarrow> (u32 \<times> u32) option ub" where
  "ParseCidrV4 inet_aton cidr =
     (case scan (\<lambda>c. c = CHR ''/'') cidr of
        None \<Rightarrow> Some None
      | Some slash \<Rightarrow> do {
          r \<leftarrow> cidr_bits_loop (drop (slash + 1) cidr) 0;
          case r of
            None \<Rightarrow> Some None
          | Some bits \<Rightarrow>
              if bits < 0 \<or> 32 < bits then Some None
              else (case inet_aton (c_str (take slash cidr)) of
                  None \<Rightarrow> Some None
                | Some s_addr \<Rightarrow>
                    (let mask_host = (if bits = 0 then 0 else push_bit (nat (32 - bits)) (- 1));
                         net_mask = htonl mask_host in
                     Some (Some (s_addr AND net_mask, net_mask)))) })"

text \<open>
  The second component is what the function stores through \<^verbatim>\<open>out_reason\<close>
  (\<^const>\<open>None\<close>: nothing).
\<close>

definition HdFederationAllows ::
  "bin2hex_fn \<Rightarrow> HdFederationPolicy \<Rightarrow> string \<Rightarrow> Key \<Rightarrow> bool \<times> string option" where
  "HdFederationAllows bin2hex policy origin_fleet_id target_key =
     (if list_ex (\<lambda>r. GlobMatch r origin_fleet_id) (fed_reject_from policy)
      then (False, Some ''origin rejected'')
      else if fed_accept_from policy = [] then (False, Some ''no accept_from rules'')
      else (let key_str = KeyToCkString bin2hex target_key;
                key_hex = drop kKeyPrefixLen key_str in
        case find (\<lambda>rule. GlobMatch (fa_fleet_id rule) origin_fleet_id) (fed_accept_from policy) of
          None \<Rightarrow> (False, Some ''fleet not in accept_from'')
        | Some rule \<Rightarrow>
            if fa_allowed_destinations rule = [] then (True, None)
            else if list_ex (\<lambda>pat. GlobMatch pat key_str \<or> GlobMatch pat key_hex)
                      (fa_allowed_destinations rule) then (True, None)
            else (False, Some ''destination not allowed'')))"

definition HdPolicyAllows ::
  "bin2hex_fn \<Rightarrow> (string \<Rightarrow> u32 option) \<Rightarrow> HdPeerRegistry \<Rightarrow> Key \<Rightarrow> u32 \<Rightarrow>
   (bool \<times> string option) ub" where
  "HdPolicyAllows bin2hex inet_aton reg client_key peer_ipv4_be =
     (let pol = reg_policy reg;
          key_str = KeyToCkString bin2hex client_key;
          key_hex = drop kKeyPrefixLen key_str in
      if 0 < ep_max_peers pol \<and> ep_max_peers pol \<le> reg_peer_count reg
      then Some (False, Some ''max_peers exceeded'')
      else if ep_allowed_keys pol \<noteq> [] \<and>
        \<not> list_ex (\<lambda>pat. GlobMatch pat key_str \<or> GlobMatch pat key_hex) (ep_allowed_keys pol)
      then Some (False, Some ''key not in allowed_keys'')
      else if ep_require_ip_range pol \<noteq> [] \<and> peer_ipv4_be \<noteq> 0 then do {
        r \<leftarrow> ParseCidrV4 inet_aton (ep_require_ip_range pol);
        case r of
          None \<Rightarrow> Some (False, Some ''invalid require_ip_range'')
        | Some (net, net_mask) \<Rightarrow>
            if (peer_ipv4_be AND net_mask) \<noteq> net then Some (False, Some ''peer ip out of range'')
            else Some (True, None) }
      else Some (True, None))"

section \<open>Registry operations\<close>

definition HdPeersInit :: "HdPeerRegistry \<Rightarrow> Key \<Rightarrow> HdEnrollMode \<Rightarrow> HdPeerRegistry" where
  "HdPeersInit reg relay_key mode =
     reg\<lparr>reg_relay_key := relay_key, reg_enroll_mode := mode, reg_peer_count := 0,
         reg_peers := replicate kHdMaxPeers HdPeer_init\<rparr>"

definition HdPeersLookup :: "HdPeerRegistry \<Rightarrow> Key \<Rightarrow> nat option" where
  "HdPeersLookup reg key = scan (\<lambda>p. hp_occupied p = 1 \<and> hp_key p = key) (reg_peers reg)"

definition HdPeersLookupPolicy :: "HdPeerRegistry \<Rightarrow> Key \<Rightarrow> HdPeerPolicy option" where
  "HdPeersLookupPolicy reg key =
     (case scan (\<lambda>p. hp_occupied p = 1 \<and> hp_key p = key) (reg_peers reg) of
        None \<Rightarrow> None | Some i \<Rightarrow> Some (reg_policies reg ! i))"

definition HdPeersLookupById :: "HdPeerRegistry \<Rightarrow> u16 \<Rightarrow> nat option" where
  "HdPeersLookupById reg peer_id =
     scan (\<lambda>p. hp_occupied p = 1 \<and> hp_peer_id p = peer_id) (reg_peers reg)"

definition HdPeersInsert :: "HdPeerRegistry \<Rightarrow> Key \<Rightarrow> int \<Rightarrow> HdPeerRegistry \<times> nat option" where
  "HdPeersInsert reg key fd =
     (case scan (\<lambda>p. hp_occupied p = 1 \<and> hp_key p = key) (reg_peers reg) of
        Some i \<Rightarrow> (reg, Some i)
      | None \<Rightarrow>
          (case scan (\<lambda>p. hp_occupied p \<noteq> 1) (reg_peers reg) of
             None \<Rightarrow> (reg, None)
           | Some i \<Rightarrow>
               (let p = (reg_peers reg ! i)\<lparr>hp_key := key, hp_fd := fd,
                      hp_peer_id := reg_next_peer_id reg,
                      hp_state := (if reg_enroll_mode reg = Enroll_kAutoApprove
                                   then PeerState_kApproved else PeerState_kPending),
                      hp_occupied := 1, hp_rule_count := 0, hp_enrolled_at := 0,
                      hp_rules := replicate kHdMaxForwardRules HdForwardRule_init\<rparr>;
                    next = reg_next_peer_id reg + 1 in
                (reg\<lparr>reg_peers := (reg_peers reg)[i := p],
                     reg_next_peer_id := (if next = 0 then 1 else next),
                     reg_peer_count := reg_peer_count reg + 1\<rparr>, Some i))))"

definition HdPeersApprove :: "HdPeerRegistry \<Rightarrow> Key \<Rightarrow> HdPeerRegistry \<times> bool" where
  "HdPeersApprove reg key =
     (case HdPeersLookup reg key of
        None \<Rightarrow> (reg, False)
      | Some i \<Rightarrow> (reg\<lparr>reg_peers := (reg_peers reg)[i := (reg_peers reg ! i)
                        \<lparr>hp_state := PeerState_kApproved\<rparr>]\<rparr>, True))"

definition HdPeersDeny :: "HdPeerRegistry \<Rightarrow> Key \<Rightarrow> HdPeerRegistry \<times> bool" where
  "HdPeersDeny reg key =
     (case HdPeersLookup reg key of
        None \<Rightarrow> (reg, False)
      | Some i \<Rightarrow> (reg\<lparr>reg_peers := (reg_peers reg)[i := (reg_peers reg ! i)
                        \<lparr>hp_state := PeerState_kDenied\<rparr>]\<rparr>, True))"

definition HdPeersRemove :: "HdPeerRegistry \<Rightarrow> Key \<Rightarrow> HdPeerRegistry" where
  "HdPeersRemove reg key =
     (case HdPeersLookup reg key of
        None \<Rightarrow> reg
      | Some i \<Rightarrow> reg\<lparr>reg_peers := (reg_peers reg)[i := (reg_peers reg ! i)\<lparr>hp_occupied := 2\<rparr>],
                       reg_peer_count := reg_peer_count reg - 1\<rparr>)"

definition HdPeersIsDenied :: "HdPeerRegistry \<Rightarrow> Key \<Rightarrow> bool" where
  "HdPeersIsDenied reg key = list_ex (\<lambda>k. k = key) (reg_denylist reg)"

definition HdPeersAddRule :: "HdPeerRegistry \<Rightarrow> Key \<Rightarrow> Key \<Rightarrow> HdPeerRegistry \<times> bool" where
  "HdPeersAddRule reg peer_key dst_key =
     (case HdPeersLookup reg peer_key of
        None \<Rightarrow> (reg, False)
      | Some i \<Rightarrow>
          (let p = reg_peers reg ! i in
           if int kHdMaxForwardRules \<le> hp_rule_count p then (reg, False)
           else (case scan (\<lambda>r. fr_occupied r = 0) (hp_rules p) of
               None \<Rightarrow> (reg, False)
             | Some j \<Rightarrow>
                 (reg\<lparr>reg_peers := (reg_peers reg)[i := p\<lparr>
                    hp_rules := (hp_rules p)[j := (hp_rules p ! j)
                      \<lparr>fr_dst_key := dst_key, fr_occupied := 1\<rparr>],
                    hp_rule_count := hp_rule_count p + 1\<rparr>]\<rparr>, True))))"

definition HdPeersRemoveRule :: "HdPeerRegistry \<Rightarrow> Key \<Rightarrow> Key \<Rightarrow> HdPeerRegistry \<times> bool" where
  "HdPeersRemoveRule reg peer_key dst_key =
     (case HdPeersLookup reg peer_key of
        None \<Rightarrow> (reg, False)
      | Some i \<Rightarrow>
          (let p = reg_peers reg ! i in
           case scan (\<lambda>r. fr_occupied r = 1 \<and> fr_dst_key r = dst_key) (hp_rules p) of
             None \<Rightarrow> (reg, False)
           | Some j \<Rightarrow>
               (reg\<lparr>reg_peers := (reg_peers reg)[i := p\<lparr>
                  hp_rules := (hp_rules p)[j := HdForwardRule_init],
                  hp_rule_count := hp_rule_count p - 1\<rparr>]\<rparr>, True)))"

definition HdVerifyEnrollment ::
  "(bytes \<Rightarrow> bytes \<Rightarrow> Key \<Rightarrow> int) \<Rightarrow> HdPeerRegistry \<Rightarrow> Key \<Rightarrow> bytes \<Rightarrow> bool" where
  "HdVerifyEnrollment crypto_auth_verify reg client_key hmac \<longleftrightarrow>
     crypto_auth_verify hmac client_key (reg_relay_key reg) = 0"

text \<open>
  The listing loop: \<open>n\<close> entries are written so far. The output arrays are returned as the
  entries stored in them from index \<open>n\<close> on.
\<close>

fun peers_list_loop :: "HdPeer list \<Rightarrow> int \<Rightarrow> int \<Rightarrow> (Key \<times> HdPeerState) list" where
  "peers_list_loop [] n max_out = []"
| "peers_list_loop (p # ps) n max_out =
     (if n < max_out then
        (if hp_occupied p \<noteq> 1 then peers_list_loop ps n max_out
         else (hp_key p, hp_state p) # peers_list_loop ps (n + 1) max_out)
      else [])"

definition HdPeersList :: "HdPeerRegistry \<Rightarrow> int \<Rightarrow> (Key \<times> HdPeerState) list \<times> int" where
  "HdPeersList reg max_out =
     (let out = peers_list_loop (reg_peers reg) 0 max_out in (out, int (length out)))"

section \<open>Persistence\<close>

text \<open>
  An output stream counts its \<^verbatim>\<open>fwrite\<close> calls; the number of bytes the \<open>i\<close>-th call
  manages to write is given by the environment, and so is whether a path can be opened and
  whether the final \<^verbatim>\<open>rename\<close> succeeds.
\<close>

type_synonym files = "string \<rightharpoonup> bytes"

record c_io =
  io_fopen_ok :: "string \<Rightarrow> bool"
  io_fwrite :: "nat \<Rightarrow> nat"
  io_rename_ok :: bool

record out_file =
  of_calls :: nat
  of_data :: bytes

definition fwrite :: "c_io \<Rightarrow> bytes \<Rightarrow> out_file \<Rightarrow> out_file \<times> nat" where
  "fwrite io bs f =
     (let n = min (length bs) (io_fwrite io (of_calls f)) in
      (f\<lparr>of_calls := of_calls f + 1, of_data := of_data f @ take n bs\<rparr>, n))"

definition WriteU16LE :: "c_io \<Rightarrow> out_file \<Rightarrow> u16 \<Rightarrow> out_file" where
  "WriteU16LE io f v = fst (fwrite io [ucast v, ucast (drop_bit 8 v)] f)"

definition WriteU32LE :: "c_io \<Rightarrow> out_file \<Rightarrow> u32 \<Rightarrow> out_file" where
  "WriteU32LE io f v =
     fst (fwrite io [ucast v, ucast (drop_bit 8 v), ucast (drop_bit 16 v), ucast (drop_bit 24 v)] f)"

text \<open>Reading consumes the rest of the file; \<^const>\<open>None\<close> is a short read.\<close>

definition ReadExact :: "nat \<Rightarrow> bytes \<Rightarrow> (bytes \<times> bytes) option" where
  "ReadExact n f = (if n \<le> length f then Some (take n f, drop n f) else None)"

definition ReadU16LE :: "bytes \<Rightarrow> (u16 \<times> bytes) option" where
  "ReadU16LE f = do {
     (b, f) \<leftarrow> ReadExact 2 f;
     Some (ucast (b ! 0) OR push_bit 8 (ucast (b ! 1)), f) }"

definition ReadU32LE :: "bytes \<Rightarrow> (u32 \<times> bytes) option" where
  "ReadU32LE f = do {
     (b, f) \<leftarrow> ReadExact 4 f;
     Some (ucast (b ! 0) OR push_bit 8 (ucast (b ! 1)) OR push_bit 16 (ucast (b ! 2)) OR
           push_bit 24 (ucast (b ! 3)), f) }"

definition fopen_rb :: "c_io \<Rightarrow> files \<Rightarrow> string \<Rightarrow> bytes option" where
  "fopen_rb io files path = (if io_fopen_ok io path then files path else None)"

text \<open>The last steps of both save functions: rename the temporary file over the real one.\<close>

definition commit_file :: "c_io \<Rightarrow> files \<Rightarrow> string \<Rightarrow> bytes \<Rightarrow> files \<times> bool" where
  "commit_file io files path data =
     (let tmp = path @ ''.tmp'' in
      if io_rename_ok io then (files(tmp := None, path := Some data), True)
      else (files(tmp := None), False))"

definition policy_unset :: "HdPeerPolicy \<Rightarrow> bool" where
  "policy_unset pol \<longleftrightarrow> \<not> pp_has_pin pol \<and> \<not> pp_override_client pol \<and>
     pp_audit_tag pol = [] \<and> pp_reason pol = []"

fun policy_count_loop :: "(HdPeer \<times> HdPeerPolicy) list \<Rightarrow> u32 \<Rightarrow> u32" where
  "policy_count_loop [] count = count"
| "policy_count_loop ((p, pol) # rest) count =
     (if hp_occupied p \<noteq> 1 then policy_count_loop rest count
      else if policy_unset pol then policy_count_loop rest count
      else policy_count_loop rest (count + 1))"

fun policy_save_loop :: "c_io \<Rightarrow> (HdPeer \<times> HdPeerPolicy) list \<Rightarrow> out_file \<Rightarrow> out_file" where
  "policy_save_loop io [] f = f"
| "policy_save_loop io ((p, pol) # rest) f =
     (if hp_occupied p \<noteq> 1 then policy_save_loop io rest f
      else if policy_unset pol then policy_save_loop io rest f
      else
        (let f = fst (fwrite io (hp_key p) f);
             f = fst (fwrite io [if pp_has_pin pol then 1 else 0,
                                 HdIntent_byte (pp_pinned_intent pol),
                                 if pp_override_client pol then 1 else 0] f);
             f = WriteU16LE io f (of_nat (length (pp_audit_tag pol)));
             f = fst (fwrite io (pp_audit_tag pol) f);
             f = WriteU16LE io f (of_nat (length (pp_reason pol)));
             f = fst (fwrite io (pp_reason pol) f) in
         policy_save_loop io rest f))"

definition HdPeerPolicySave :: "c_io \<Rightarrow> files \<Rightarrow> HdPeerRegistry \<Rightarrow> files \<times> bool" where
  "HdPeerPolicySave io files reg =
     (if reg_peer_policy_path reg = [] then (files, False)
      else if \<not> io_fopen_ok io (reg_peer_policy_path reg @ ''.tmp'') then (files, False)
      else (let slots = zip (reg_peers reg) (reg_policies reg);
                f = \<lparr>of_calls = 0, of_data = []\<rparr>;
                f = WriteU32LE io f (policy_count_loop slots 0);
                f = policy_save_loop io slots f in
            commit_file io files (reg_peer_policy_path reg) (of_data f)))"

text \<open>One record of the policy file; \<^const>\<open>None\<close> is the \<^verbatim>\<open>break\<close> of the loop.\<close>

definition policy_read_record :: "bytes \<Rightarrow> (Key \<times> HdPeerPolicy \<times> bytes) option" where
  "policy_read_record f = do {
     (key, f) \<leftarrow> ReadExact (nat kKeySize) f;
     (hdr, f) \<leftarrow> ReadExact 3 f;
     (tag_len, f) \<leftarrow> ReadU16LE f;
     (tag, f) \<leftarrow> (if tag_len \<noteq> 0 then ReadExact (unat tag_len) f else Some ([], f));
     (reason_len, f) \<leftarrow> ReadU16LE f;
     (reason, f) \<leftarrow> (if reason_len \<noteq> 0 then ReadExact (unat reason_len) f else Some ([], f));
     Some (key, \<lparr>pp_override_client = (hdr ! 2 \<noteq> 0), pp_has_pin = (hdr ! 0 \<noteq> 0),
             pp_pinned_intent = HdIntent_of (hdr ! 1), pp_audit_tag = tag, pp_reason = reason\<rparr>, f) }"

definition policy_apply :: "Key \<Rightarrow> HdPeerPolicy \<Rightarrow> HdPeerRegistry \<Rightarrow> HdPeerRegistry" where
  "policy_apply key pol reg =
     (case scan (\<lambda>p. hp_occupied p = 1 \<and> hp_key p = key) (reg_peers reg) of
        None \<Rightarrow> reg | Some j \<Rightarrow> reg\<lparr>reg_policies := (reg_policies reg)[j := pol]\<rparr>)"

fun policy_load_loop :: "nat \<Rightarrow> bytes \<Rightarrow> HdPeerRegistry \<Rightarrow> HdPeerRegistry" where
  "policy_load_loop 0 f reg = reg"
| "policy_load_loop (Suc n) f reg =
     (case policy_read_record f of
        None \<Rightarrow> reg
      | Some (key, pol, f) \<Rightarrow> policy_load_loop n f (policy_apply key pol reg))"

definition HdPeerPolicyLoad :: "c_io \<Rightarrow> files \<Rightarrow> HdPeerRegistry \<Rightarrow> HdPeerRegistry \<times> bool" where
  "HdPeerPolicyLoad io files reg =
     (if reg_peer_policy_path reg = [] then (reg, True)
      else (case fopen_rb io files (reg_peer_policy_path reg) of
          None \<Rightarrow> (reg, True)
        | Some f \<Rightarrow>
            (case ReadU32LE f of
               None \<Rightarrow> (reg, True)
             | Some (count, f) \<Rightarrow> (policy_load_loop (unat count) f reg, True))))"

definition HdPeersSetPolicy ::
  "c_io \<Rightarrow> files \<Rightarrow> HdPeerRegistry \<Rightarrow> Key \<Rightarrow> HdPeerPolicy \<Rightarrow> files \<times> HdPeerRegistry \<times> bool" where
  "HdPeersSetPolicy io files reg key policy =
     (case scan (\<lambda>p. hp_occupied p = 1 \<and> hp_key p = key) (reg_peers reg) of
        None \<Rightarrow> (files, reg, False)
      | Some i \<Rightarrow>
          (let reg = reg\<lparr>reg_policies := (reg_policies reg)[i := policy]\<rparr>;
               files = (if reg_peer_policy_path reg \<noteq> [] then fst (HdPeerPolicySave io files reg)
                        else files) in
           (files, reg, True)))"

definition HdPeersClearPolicy ::
  "c_io \<Rightarrow> files \<Rightarrow> HdPeerRegistry \<Rightarrow> Key \<Rightarrow> files \<times> HdPeerRegistry \<times> bool" where
  "HdPeersClearPolicy io files reg key =
     (case scan (\<lambda>p. hp_occupied p = 1 \<and> hp_key p = key) (reg_peers reg) of
        None \<Rightarrow> (files, reg, False)
      | Some i \<Rightarrow>
          (let reg = reg\<lparr>reg_policies := (reg_policies reg)[i := HdPeerPolicy_init]\<rparr>;
               files = (if reg_peer_policy_path reg \<noteq> [] then fst (HdPeerPolicySave io files reg)
                        else files) in
           (files, reg, True)))"

subsection \<open>The denylist\<close>

text \<open>\<^const>\<open>None\<close>: a write came up short.\<close>

fun denylist_save_loop :: "c_io \<Rightarrow> Key list \<Rightarrow> out_file \<Rightarrow> out_file option" where
  "denylist_save_loop io [] f = Some f"
| "denylist_save_loop io (k # ks) f =
     (case fwrite io k f of (f, n) \<Rightarrow>
        if int n \<noteq> kKeySize then None else denylist_save_loop io ks f)"

definition HdDenylistSave :: "c_io \<Rightarrow> files \<Rightarrow> HdPeerRegistry \<Rightarrow> files \<times> bool" where
  "HdDenylistSave io files reg =
     (let tmp = reg_denylist_path reg @ ''.tmp'' in
      if reg_denylist_path reg = [] then (files, False)
      else if \<not> io_fopen_ok io tmp then (files, False)
      else (case denylist_save_loop io (reg_denylist reg) \<lparr>of_calls = 0, of_data = []\<rparr> of
          None \<Rightarrow> (files(tmp := None), False)
        | Some f \<Rightarrow> commit_file io files (reg_denylist_path reg) (of_data f)))"

function denylist_read_loop :: "bytes \<Rightarrow> Key list \<Rightarrow> Key list" where
  "denylist_read_loop f acc =
     (if length f < nat kKeySize then acc
      else denylist_read_loop (drop (nat kKeySize) f) (acc @ [take (nat kKeySize) f]))"
  by pat_completeness auto

termination denylist_read_loop
  by (relation "measure (\<lambda>(f, acc). length f)") auto

declare denylist_read_loop.simps [simp del]

definition HdDenylistLoad :: "c_io \<Rightarrow> files \<Rightarrow> HdPeerRegistry \<Rightarrow> HdPeerRegistry \<times> bool" where
  "HdDenylistLoad io files reg =
     (let reg = reg\<lparr>reg_denylist := []\<rparr> in
      if reg_denylist_path reg = [] then (reg, True)
      else (case fopen_rb io files (reg_denylist_path reg) of
          None \<Rightarrow> (reg, True)
        | Some f \<Rightarrow> (reg\<lparr>reg_denylist := denylist_read_loop f []\<rparr>, True)))"

definition HdPeersRevoke ::
  "c_io \<Rightarrow> files \<Rightarrow> HdPeerRegistry \<Rightarrow> Key \<Rightarrow> files \<times> HdPeerRegistry" where
  "HdPeersRevoke io files reg key =
     (let reg = (if \<not> HdPeersIsDenied reg key
                 then reg\<lparr>reg_denylist := reg_denylist reg @ [key]\<rparr> else reg);
          reg = (case HdPeersLookup reg key of
                   None \<Rightarrow> reg
                 | Some i \<Rightarrow>
                     reg\<lparr>reg_peers := (reg_peers reg)[i := (reg_peers reg ! i)\<lparr>hp_occupied := 2\<rparr>],
                         reg_peer_count := reg_peer_count reg - 1\<rparr>);
          files = (if reg_denylist_path reg \<noteq> [] then fst (HdDenylistSave io files reg)
                   else files) in
      (files, reg))"

end
