(* ===== verification/Hd_Registry.thy ===== *)
theory Hd_Registry
  imports Hd_Peers "HOL-Library.Multiset"
begin

text \<open>
  Correctness of the HD peer registry (theory \<open>Hd_Peers\<close>): the registry is a finite map from
  keys to peers with an exact counter, every operation keeps its invariant, and the two files it
  persists are read back as they were written.
\<close>

section \<open>Invariant and abstraction\<close>

abbreviation peer_live :: "HdPeer \<Rightarrow> bool" where
  "peer_live p \<equiv> hp_occupied p = 1"

definition hd_peer_ok :: "HdPeer \<Rightarrow> bool" where
  "hd_peer_ok p \<longleftrightarrow> is_Key (hp_key p) \<and> length (hp_rules p) = kHdMaxForwardRules \<and>
     (\<forall>r \<in> set (hp_rules p). is_Key (fr_dst_key r) \<and> (fr_occupied r = 0 \<or> fr_occupied r = 1)) \<and>
     hp_rule_count p = int (slot_count (\<lambda>r. fr_occupied r = 1) (hp_rules p)) \<and>
     (peer_live p \<longrightarrow> hp_peer_id p \<noteq> 0)"

definition hd_reg_inv :: "HdPeerRegistry \<Rightarrow> bool" where
  "hd_reg_inv reg \<longleftrightarrow> length (reg_peers reg) = kHdMaxPeers \<and>
     length (reg_policies reg) = kHdMaxPeers \<and> list_all hd_peer_ok (reg_peers reg) \<and>
     slot_uniq peer_live hp_key (reg_peers reg) \<and>
     reg_peer_count reg = int (slot_count peer_live (reg_peers reg)) \<and>
     reg_next_peer_id reg \<noteq> 0 \<and> list_all is_Key (reg_denylist reg)"

definition peers_view :: "HdPeerRegistry \<Rightarrow> Key \<Rightarrow> HdPeer option" where
  "peers_view reg = slot_view peer_live hp_key (reg_peers reg)"

interpretation hp: slot_table peer_live hp_key HdPeer_init
  by unfold_locales (simp add: HdPeer_init_def)

lemma HdPeersLookup_find: "HdPeersLookup reg key = slot_find peer_live hp_key (reg_peers reg) key"
  by (simp add: HdPeersLookup_def slot_find_def)

lemma is_Key_zero [simp]: "is_Key zero_Key"
  by (simp add: is_Key_def zero_Key_def)

lemma blank_rules_ok: "hd_peer_ok p \<Longrightarrow> is_Key k \<Longrightarrow> i \<noteq> 0 \<Longrightarrow>
    hd_peer_ok (p\<lparr>hp_key := k, hp_fd := fd, hp_peer_id := i, hp_state := st, hp_occupied := 1,
      hp_rule_count := 0, hp_enrolled_at := t,
      hp_rules := replicate kHdMaxForwardRules HdForwardRule_init\<rparr>)"
  by (simp add: hd_peer_ok_def HdForwardRule_init_def slot_count_def)

lemma HdPeer_init_ok: "hd_peer_ok HdPeer_init"
  by (simp add: hd_peer_ok_def HdPeer_init_def HdForwardRule_init_def slot_count_def)

lemma list_all_nth: "list_all P xs \<Longrightarrow> i < length xs \<Longrightarrow> P (xs ! i)"
  by (simp add: list_all_length)

lemma lookup_ok:
  "hd_reg_inv reg \<Longrightarrow> HdPeersLookup reg key = Some i \<Longrightarrow>
    i < length (reg_peers reg) \<and> hd_peer_ok (reg_peers reg ! i) \<and> peer_live (reg_peers reg ! i) \<and>
    hp_key (reg_peers reg ! i) = key"
  by (auto simp: HdPeersLookup_find hd_reg_inv_def list_all_length dest: hp.find_SomeD)

section \<open>Every operation\<close>

lemma HdPeersInit_inv:
  assumes "length (reg_policies reg) = kHdMaxPeers" "reg_next_peer_id reg \<noteq> 0"
    "list_all is_Key (reg_denylist reg)"
  shows "hd_reg_inv (HdPeersInit reg k mode)" "peers_view (HdPeersInit reg k mode) = Map.empty"
  using assms hp.blank_table [of kHdMaxPeers]
  by (simp_all add: hd_reg_inv_def peers_view_def HdPeersInit_def HdPeer_init_ok list_all_iff)

text \<open>Replacing the entry of a live peer by one with the same key.\<close>

lemma modify_peer:
  assumes inv: "hd_reg_inv reg" and f: "HdPeersLookup reg key = Some i"
    and e: "peer_live e" "hp_key e = key" "hd_peer_ok e"
  shows "hd_reg_inv (reg\<lparr>reg_peers := (reg_peers reg)[i := e]\<rparr>)"
    and "peers_view (reg\<lparr>reg_peers := (reg_peers reg)[i := e]\<rparr>) = (peers_view reg)(key \<mapsto> e)"
proof -
  from inv have u: "slot_uniq peer_live hp_key (reg_peers reg)" by (simp add: hd_reg_inv_def)
  note m = hp.modify_slot [OF u f [unfolded HdPeersLookup_find] e(1,2)]
  from m(1,3) inv e show "hd_reg_inv (reg\<lparr>reg_peers := (reg_peers reg)[i := e]\<rparr>)"
    by (simp add: hd_reg_inv_def list_all_update)
  from m(2) show "peers_view (reg\<lparr>reg_peers := (reg_peers reg)[i := e]\<rparr>) = (peers_view reg)(key \<mapsto> e)"
    by (simp add: peers_view_def)
qed

lemma kill_peer:
  assumes inv: "hd_reg_inv reg" and f: "HdPeersLookup reg key = Some i"
  defines "reg' \<equiv> reg\<lparr>reg_peers := (reg_peers reg)[i := (reg_peers reg ! i)\<lparr>hp_occupied := 2\<rparr>],
      reg_peer_count := reg_peer_count reg - 1\<rparr>"
  shows "hd_reg_inv reg'" and "peers_view reg' = (peers_view reg)(key := None)"
proof -
  from inv have u: "slot_uniq peer_live hp_key (reg_peers reg)" by (simp add: hd_reg_inv_def)
  have dead: "\<not> peer_live ((reg_peers reg ! i)\<lparr>hp_occupied := 2\<rparr>)" by simp
  note m = hp.kill_slot [OF u f [unfolded HdPeersLookup_find] dead]
  have ok: "hd_peer_ok ((reg_peers reg ! i)\<lparr>hp_occupied := 2\<rparr>)"
    using lookup_ok [OF inv f] by (auto simp: hd_peer_ok_def)
  from m(1,3) inv ok show "hd_reg_inv reg'"
    by (auto simp: hd_reg_inv_def reg'_def list_all_update)
  from m(2) show "peers_view reg' = (peers_view reg)(key := None)"
    by (simp add: peers_view_def reg'_def)
qed

lemma lookup_view: "peers_view reg key = map_option (\<lambda>i. reg_peers reg ! i) (HdPeersLookup reg key)"
  by (simp add: peers_view_def slot_view_def HdPeersLookup_find)

lemma HdPeersRemove_inv: "hd_reg_inv reg \<Longrightarrow> hd_reg_inv (HdPeersRemove reg key)"
  by (auto simp: HdPeersRemove_def kill_peer split: option.split)

lemma HdPeersRemove_view:
  "hd_reg_inv reg \<Longrightarrow> peers_view (HdPeersRemove reg key) = (peers_view reg)(key := None)"
proof (cases "HdPeersLookup reg key")
  case None
  then show ?thesis by (auto simp: HdPeersRemove_def lookup_view fun_eq_iff)
next
  case (Some i)
  assume "hd_reg_inv reg"
  from kill_peer(2) [OF this Some] Some show ?thesis by (simp add: HdPeersRemove_def)
qed

interpretation hreg: removable_registry hd_reg_inv peers_view reg_peer_count
  "\<lambda>key reg. HdPeersRemove reg key"
proof unfold_locales
  fix reg :: HdPeerRegistry
  assume "hd_reg_inv reg"
  then show "finite (dom (peers_view reg)) \<and> reg_peer_count reg = int (card (dom (peers_view reg)))"
    using hp.count_card [of "reg_peers reg"] by (simp add: hd_reg_inv_def peers_view_def)
qed (simp_all add: HdPeersRemove_inv HdPeersRemove_view)

text \<open>What a fresh enrolment stores.\<close>

definition enrolled :: "HdPeerRegistry \<Rightarrow> Key \<Rightarrow> int \<Rightarrow> HdPeer" where
  "enrolled reg key fd = \<lparr>hp_key = key, hp_fd = fd, hp_peer_id = reg_next_peer_id reg,
     hp_state = (if reg_enroll_mode reg = Enroll_kAutoApprove then PeerState_kApproved
                 else PeerState_kPending),
     hp_occupied = 1, hp_rules = replicate kHdMaxForwardRules HdForwardRule_init,
     hp_rule_count = 0, hp_enrolled_at = 0\<rparr>"

lemma HdPeersInsert_known:
  "peers_view reg key = Some p \<Longrightarrow>
    \<exists>i. HdPeersInsert reg key fd = (reg, Some i) \<and> reg_peers reg ! i = p"
  by (auto simp: HdPeersInsert_def lookup_view HdPeersLookup_def)

lemma HdPeersInsert_full:
  assumes "hd_reg_inv reg" "peers_view reg key = None" "reg_peer_count reg = int kHdMaxPeers"
  shows "HdPeersInsert reg key fd = (reg, None)"
  using assms slot_free_None_iff [of peer_live "reg_peers reg"]
  by (simp add: HdPeersInsert_def lookup_view HdPeersLookup_def hd_reg_inv_def)

lemma HdPeersInsert_fresh:
  assumes inv: "hd_reg_inv reg" and new: "peers_view reg key = None" and k: "is_Key key"
    and room: "reg_peer_count reg < int kHdMaxPeers"
  shows "\<exists>i. snd (HdPeersInsert reg key fd) = Some i \<and>
      reg_peers (fst (HdPeersInsert reg key fd)) ! i = enrolled reg key fd"
    and "hd_reg_inv (fst (HdPeersInsert reg key fd))"
    and "peers_view (fst (HdPeersInsert reg key fd)) = (peers_view reg)(key \<mapsto> enrolled reg key fd)"
    and "reg_peer_count (fst (HdPeersInsert reg key fd)) = reg_peer_count reg + 1"
proof -
  let ?ps = "reg_peers reg" and ?e = "enrolled reg key fd"
  from inv have u: "slot_uniq peer_live hp_key ?ps" by (simp add: hd_reg_inv_def)
  from new have none: "slot_find peer_live hp_key ?ps (hp_key ?e) = None"
    by (simp add: lookup_view HdPeersLookup_find enrolled_def)
  from room inv obtain i where i: "scan (\<lambda>p. \<not> peer_live p) ?ps = Some i"
    using slot_free_None_iff [of peer_live ?ps] by (cases "scan (\<lambda>p. \<not> peer_live p) ?ps")
      (auto simp: hd_reg_inv_def)
  then have il: "i < length ?ps" "\<not> peer_live (?ps ! i)" by (auto dest: scan_SomeD)
  have live: "peer_live ?e" by (simp add: enrolled_def)
  note m = hp.add_slot [OF u il live none]
  have ok: "hd_peer_ok ?e"
    using inv k by (simp add: hd_peer_ok_def enrolled_def HdForwardRule_init_def slot_count_def
        hd_reg_inv_def)
  define nxt where "nxt = (if reg_next_peer_id reg + 1 = 0 then 1 else reg_next_peer_id reg + 1)"
  have e: "(?ps ! i)\<lparr>hp_key := key, hp_fd := fd, hp_peer_id := reg_next_peer_id reg,
      hp_state := (if reg_enroll_mode reg = Enroll_kAutoApprove
                   then PeerState_kApproved else PeerState_kPending),
      hp_occupied := 1, hp_rule_count := 0, hp_enrolled_at := 0,
      hp_rules := replicate kHdMaxForwardRules HdForwardRule_init\<rparr> = ?e"
    by (cases "?ps ! i") (simp add: enrolled_def)
  have none': "scan (\<lambda>p. peer_live p \<and> hp_key p = key) ?ps = None"
    using none by (simp add: slot_find_def enrolled_def)
  have ins: "HdPeersInsert reg key fd =
      (reg\<lparr>reg_peers := ?ps[i := ?e], reg_next_peer_id := nxt,
           reg_peer_count := reg_peer_count reg + 1\<rparr>, Some i)"
    unfolding HdPeersInsert_def none' option.case i Let_def nxt_def e ..
  show "\<exists>i. snd (HdPeersInsert reg key fd) = Some i \<and>
      reg_peers (fst (HdPeersInsert reg key fd)) ! i = ?e"
    using ins il by simp
  show "hd_reg_inv (fst (HdPeersInsert reg key fd))"
    using ins m(1,3) inv ok by (simp add: hd_reg_inv_def list_all_update nxt_def)
  show "peers_view (fst (HdPeersInsert reg key fd)) = (peers_view reg)(key \<mapsto> ?e)"
    using ins m(2) by (simp add: peers_view_def enrolled_def)
  show "reg_peer_count (fst (HdPeersInsert reg key fd)) = reg_peer_count reg + 1"
    using ins by simp
qed

subsection \<open>Forwarding rules\<close>

abbreviation rule_live :: "HdForwardRule \<Rightarrow> bool" where
  "rule_live r \<equiv> fr_occupied r = 1"

text \<open>The destinations a peer may forward to, with multiplicity.\<close>

definition rule_dsts :: "HdPeer \<Rightarrow> Key multiset" where
  "rule_dsts p = image_mset fr_dst_key (filter_mset rule_live (mset (hp_rules p)))"

lemma mset_update_split:
  "i < length xs \<Longrightarrow> add_mset (xs ! i) (mset (xs[i := y])) = add_mset y (mset xs)"
  by (simp add: mset_update)

lemma dsts_update:
  assumes "j < length rs"
  shows "image_mset f (filter_mset P (mset (rs[j := y]))) + (if P (rs ! j) then {#f (rs ! j)#} else {#})
    = image_mset f (filter_mset P (mset rs)) + (if P y then {#f y#} else {#})"
  using arg_cong [OF mset_update_split [OF assms, of y],
      of "\<lambda>M. image_mset f (filter_mset P M)"]
  by (auto split: if_splits)

lemma rule_count_update:
  assumes "j < length rs"
  shows "int (slot_count P (rs[j := y])) =
    int (slot_count P rs) + (if P y then 1 else 0) - (if P (rs ! j) then 1 else 0)"
  using length_filter_update [OF assms, of P y] by (auto simp: slot_count_def split: if_splits)

lemma peer_ok_rules:
  assumes ok: "hd_peer_ok p" and j: "j < length (hp_rules p)"
    and y: "is_Key (fr_dst_key y)" "fr_occupied y = 0 \<or> fr_occupied y = 1"
    and n: "n = hp_rule_count p + (if rule_live y then 1 else 0)
      - (if rule_live (hp_rules p ! j) then 1 else 0)"
  shows "hd_peer_ok (p\<lparr>hp_rules := (hp_rules p)[j := y], hp_rule_count := n\<rparr>)"
  using assms rule_count_update [OF j, of rule_live y]
  by (auto simp: hd_peer_ok_def dest!: subsetD [OF set_update_subset_insert])

lemma HdPeersAddRule_spec:
  assumes inv: "hd_reg_inv reg" and k: "is_Key dst"
  shows "case peers_view reg key of
      None \<Rightarrow> HdPeersAddRule reg key dst = (reg, False)
    | Some p \<Rightarrow>
        if size (rule_dsts p) = kHdMaxForwardRules then HdPeersAddRule reg key dst = (reg, False)
        else \<exists>reg' p'. HdPeersAddRule reg key dst = (reg', True) \<and> hd_reg_inv reg' \<and>
          peers_view reg' = (peers_view reg)(key \<mapsto> p') \<and> rule_dsts p' = add_mset dst (rule_dsts p)"
proof (cases "HdPeersLookup reg key")
  case None
  then show ?thesis by (simp add: lookup_view HdPeersAddRule_def)
next
  case (Some i)
  let ?p = "reg_peers reg ! i"
  note l = lookup_ok [OF inv Some]
  then have rules: "length (hp_rules ?p) = kHdMaxForwardRules"
    and cnt: "hp_rule_count ?p = int (slot_count rule_live (hp_rules ?p))"
    and occ: "\<forall>r \<in> set (hp_rules ?p). fr_occupied r = 0 \<or> fr_occupied r = 1"
    by (auto simp: hd_peer_ok_def)
  have size: "size (rule_dsts ?p) = slot_count rule_live (hp_rules ?p)"
    by (simp add: rule_dsts_def slot_count_def flip: mset_filter)
  have free: "scan (\<lambda>r. fr_occupied r = 0) (hp_rules ?p) = scan (\<lambda>r. \<not> rule_live r) (hp_rules ?p)"
    using occ by (intro scan_cong) auto
  show ?thesis
  proof (cases "size (rule_dsts ?p) = kHdMaxForwardRules")
    case True
    with size cnt Some show ?thesis by (simp add: lookup_view HdPeersAddRule_def)
  next
    case False
    with rules size slot_count_le [of rule_live "hp_rules ?p"]
    have less: "slot_count rule_live (hp_rules ?p) < kHdMaxForwardRules" by simp
    then obtain j where j: "scan (\<lambda>r. fr_occupied r = 0) (hp_rules ?p) = Some j"
      using slot_free_None_iff [of rule_live "hp_rules ?p"] rules free
      by (cases "scan (\<lambda>r. \<not> rule_live r) (hp_rules ?p)") auto
    then have jl: "j < length (hp_rules ?p)" "fr_occupied (hp_rules ?p ! j) = 0"
      by (auto dest: scan_SomeD)
    let ?r = "(hp_rules ?p ! j)\<lparr>fr_dst_key := dst, fr_occupied := 1\<rparr>"
    let ?e = "?p\<lparr>hp_rules := (hp_rules ?p)[j := ?r], hp_rule_count := hp_rule_count ?p + 1\<rparr>"
    have ok: "hd_peer_ok ?e" using l jl k by (intro peer_ok_rules) auto
    have dsts: "rule_dsts ?e = add_mset dst (rule_dsts ?p)"
      using dsts_update [OF jl(1), of fr_dst_key rule_live ?r] jl by (simp add: rule_dsts_def)
    have call: "HdPeersAddRule reg key dst =
        (reg\<lparr>reg_peers := (reg_peers reg)[i := ?e]\<rparr>, True)"
      using Some j less cnt by (simp add: HdPeersAddRule_def Let_def)
    have live: "peer_live ?e" "hp_key ?e = key" using l by simp_all
    note m = modify_peer [OF inv Some live ok]
    show ?thesis
      using False Some call m dsts by (auto simp: lookup_view [of reg key])
  qed
qed

lemma HdPeersRemoveRule_spec:
  assumes inv: "hd_reg_inv reg"
  shows "case peers_view reg key of
      None \<Rightarrow> HdPeersRemoveRule reg key dst = (reg, False)
    | Some p \<Rightarrow>
        if dst \<notin># rule_dsts p then HdPeersRemoveRule reg key dst = (reg, False)
        else \<exists>reg' p'. HdPeersRemoveRule reg key dst = (reg', True) \<and> hd_reg_inv reg' \<and>
          peers_view reg' = (peers_view reg)(key \<mapsto> p') \<and> rule_dsts p' = rule_dsts p - {#dst#}"
proof (cases "HdPeersLookup reg key")
  case None
  then show ?thesis by (simp add: lookup_view HdPeersRemoveRule_def)
next
  case (Some i)
  let ?p = "reg_peers reg ! i"
  note l = lookup_ok [OF inv Some]
  show ?thesis
  proof (cases "scan (\<lambda>r. fr_occupied r = 1 \<and> fr_dst_key r = dst) (hp_rules ?p)")
    case None
    then have "dst \<notin># rule_dsts ?p" by (auto simp: rule_dsts_def scan_None_iff)
    with None Some show ?thesis by (simp add: lookup_view HdPeersRemoveRule_def Let_def)
  next
    case (Some j)
    then have jl: "j < length (hp_rules ?p)" "rule_live (hp_rules ?p ! j)"
      "fr_dst_key (hp_rules ?p ! j) = dst" by (auto dest: scan_SomeD)
    then have mem: "dst \<in># rule_dsts ?p" by (force simp: rule_dsts_def)
    let ?e = "?p\<lparr>hp_rules := (hp_rules ?p)[j := HdForwardRule_init],
      hp_rule_count := hp_rule_count ?p - 1\<rparr>"
    have ok: "hd_peer_ok ?e" using l jl by (intro peer_ok_rules) (auto simp: HdForwardRule_init_def)
    have "add_mset dst (rule_dsts ?e) = rule_dsts ?p"
      using dsts_update [OF jl(1), of fr_dst_key rule_live HdForwardRule_init] jl
      by (simp add: rule_dsts_def HdForwardRule_init_def)
    then have dsts: "rule_dsts ?e = rule_dsts ?p - {#dst#}" by (metis add_mset_remove_trivial)
    have call: "HdPeersRemoveRule reg key dst =
        (reg\<lparr>reg_peers := (reg_peers reg)[i := ?e]\<rparr>, True)"
      using \<open>HdPeersLookup reg key = Some i\<close> Some by (simp add: HdPeersRemoveRule_def Let_def)
    have live: "peer_live ?e" "hp_key ?e = key" using l by simp_all
    note m = modify_peer [OF inv \<open>HdPeersLookup reg key = Some i\<close> live ok]
    show ?thesis
      using mem \<open>HdPeersLookup reg key = Some i\<close> call m dsts by (auto simp: lookup_view [of reg key])
  qed
qed

subsection \<open>States and policies\<close>

lemma HdPeersApprove_spec:
  assumes inv: "hd_reg_inv reg"
  shows "case peers_view reg key of
      None \<Rightarrow> HdPeersApprove reg key = (reg, False)
    | Some p \<Rightarrow> \<exists>reg'. HdPeersApprove reg key = (reg', True) \<and> hd_reg_inv reg' \<and>
        peers_view reg' = (peers_view reg)(key \<mapsto> p\<lparr>hp_state := PeerState_kApproved\<rparr>)"
proof (cases "HdPeersLookup reg key")
  case None
  then show ?thesis by (simp add: lookup_view HdPeersApprove_def)
next
  case (Some i)
  let ?e = "(reg_peers reg ! i)\<lparr>hp_state := PeerState_kApproved\<rparr>"
  have e: "peer_live ?e" "hp_key ?e = key" "hd_peer_ok ?e"
    using lookup_ok [OF inv Some] by (auto simp: hd_peer_ok_def)
  from modify_peer [OF inv Some e] Some show ?thesis
    by (simp add: HdPeersApprove_def lookup_view [of reg key])
qed

lemma HdPeersDeny_spec:
  assumes inv: "hd_reg_inv reg"
  shows "case peers_view reg key of
      None \<Rightarrow> HdPeersDeny reg key = (reg, False)
    | Some p \<Rightarrow> \<exists>reg'. HdPeersDeny reg key = (reg', True) \<and> hd_reg_inv reg' \<and>
        peers_view reg' = (peers_view reg)(key \<mapsto> p\<lparr>hp_state := PeerState_kDenied\<rparr>)"
proof (cases "HdPeersLookup reg key")
  case None
  then show ?thesis by (simp add: lookup_view HdPeersDeny_def)
next
  case (Some i)
  let ?e = "(reg_peers reg ! i)\<lparr>hp_state := PeerState_kDenied\<rparr>"
  have e: "peer_live ?e" "hp_key ?e = key" "hd_peer_ok ?e"
    using lookup_ok [OF inv Some] by (auto simp: hd_peer_ok_def)
  from modify_peer [OF inv Some e] Some show ?thesis
    by (simp add: HdPeersDeny_def lookup_view [of reg key])
qed

lemma inv_policies: "hd_reg_inv reg \<Longrightarrow> hd_reg_inv (reg\<lparr>reg_policies := (reg_policies reg)[i := pol]\<rparr>)"
  by (simp add: hd_reg_inv_def)

lemma view_policies [simp]: "peers_view (reg\<lparr>reg_policies := ps\<rparr>) = peers_view reg"
  by (simp add: peers_view_def)

lemma HdPeersSetPolicy_spec:
  assumes inv: "hd_reg_inv reg"
  shows "case HdPeersSetPolicy io files reg key pol of (files', reg', ok) \<Rightarrow>
     hd_reg_inv reg' \<and> peers_view reg' = peers_view reg \<and> ok = (peers_view reg key \<noteq> None) \<and>
     (ok \<longrightarrow> HdPeersLookupPolicy reg' key = Some pol) \<and>
     (\<forall>k. k \<noteq> key \<longrightarrow> HdPeersLookupPolicy reg' k = HdPeersLookupPolicy reg k)"
proof (cases "HdPeersLookup reg key")
  case None
  then show ?thesis
    using inv by (simp add: HdPeersSetPolicy_def HdPeersLookup_def lookup_view)
next
  case (Some i)
  then have "i < length (reg_policies reg)"
    using lookup_ok [OF inv Some] inv by (simp add: hd_reg_inv_def)
  moreover have "HdPeersLookup reg k = Some j \<Longrightarrow> k \<noteq> key \<Longrightarrow> i \<noteq> j" for k j
    using lookup_ok [OF inv Some] lookup_ok [OF inv, of k j] by auto
  ultimately show ?thesis
    using Some inv_policies [OF inv]
    by (auto simp: HdPeersSetPolicy_def HdPeersLookup_def lookup_view HdPeersLookupPolicy_def Let_def
        split: option.splits)
qed

lemma HdPeersClearPolicy_eq:
  "HdPeersClearPolicy io files reg key = HdPeersSetPolicy io files reg key HdPeerPolicy_init"
  by (simp add: HdPeersClearPolicy_def HdPeersSetPolicy_def)

lemma HdPeersRevoke_spec:
  assumes inv: "hd_reg_inv reg" and k: "is_Key key"
  shows "case HdPeersRevoke io files reg key of (files', reg') \<Rightarrow>
     hd_reg_inv reg' \<and> peers_view reg' = (peers_view reg)(key := None) \<and>
     (\<forall>k. HdPeersIsDenied reg' k \<longleftrightarrow> k = key \<or> HdPeersIsDenied reg k)"
proof -
  define r1 where "r1 = (if \<not> HdPeersIsDenied reg key
      then reg\<lparr>reg_denylist := reg_denylist reg @ [key]\<rparr> else reg)"
  have i1: "hd_reg_inv r1" using inv k by (simp add: r1_def hd_reg_inv_def)
  have v1: "peers_view r1 = peers_view reg" by (simp add: r1_def peers_view_def)
  have d1: "HdPeersIsDenied r1 k \<longleftrightarrow> k = key \<or> HdPeersIsDenied reg k" for k
    by (auto simp: r1_def HdPeersIsDenied_def list_ex_iff)
  have "snd (HdPeersRevoke io files reg key) = HdPeersRemove r1 key"
    unfolding HdPeersRevoke_def r1_def [symmetric] Let_def by (simp add: HdPeersRemove_def)
  moreover have "HdPeersIsDenied (HdPeersRemove r1 key) k = HdPeersIsDenied r1 k" for k
    by (simp add: HdPeersRemove_def HdPeersIsDenied_def split: option.split)
  ultimately show ?thesis
    using HdPeersRemove_inv [OF i1, of key] HdPeersRemove_view [OF i1, of key] v1 d1
    by (auto simp: prod.case_eq_if)
qed

section \<open>The files\<close>

text \<open>All the C library calls of a save succeed.\<close>

definition io_ok :: "c_io \<Rightarrow> bool" where
  "io_ok io \<longleftrightarrow> (\<forall>p. io_fopen_ok io p) \<and> (\<forall>i. 65536 \<le> io_fwrite io i) \<and> io_rename_ok io"

lemma fwrite_ok:
  "io_ok io \<Longrightarrow> length bs \<le> 65536 \<Longrightarrow>
    fwrite io bs f = (f\<lparr>of_calls := of_calls f + 1, of_data := of_data f @ bs\<rparr>, length bs)"
  by (simp add: fwrite_def io_ok_def Let_def min_absorb1 order.trans [of "length bs" 65536])

lemma denylist_save_ok:
  "io_ok io \<Longrightarrow> list_all is_Key ks \<Longrightarrow>
    \<exists>f'. denylist_save_loop io ks f = Some f' \<and> of_data f' = of_data f @ concat ks"
proof (induction ks arbitrary: f)
  case Nil
  then show ?case by simp
next
  case (Cons k ks)
  then show ?case
    using Cons.IH [of "f\<lparr>of_calls := of_calls f + 1, of_data := of_data f @ k\<rparr>"]
    by (auto simp: fwrite_ok is_Key_def)
qed

lemma denylist_read_concat: "list_all is_Key ks \<Longrightarrow> denylist_read_loop (concat ks) acc = acc @ ks"
proof (induction ks arbitrary: acc)
  case Nil
  then show ?case by (simp add: denylist_read_loop.simps [of "[]"])
next
  case (Cons k ks)
  then show ?case
    by (simp add: denylist_read_loop.simps [of "k @ concat ks"] is_Key_def)
qed

definition le16 :: "u16 \<Rightarrow> bytes" where
  "le16 v = [ucast v, ucast (drop_bit 8 v)]"

definition policy_record :: "HdPeer \<times> HdPeerPolicy \<Rightarrow> bytes" where
  "policy_record = (\<lambda>(p, pol). hp_key p @
     [if pp_has_pin pol then 1 else 0, HdIntent_byte (pp_pinned_intent pol),
      if pp_override_client pol then 1 else 0] @
     le16 (of_nat (length (pp_audit_tag pol))) @ pp_audit_tag pol @
     le16 (of_nat (length (pp_reason pol))) @ pp_reason pol)"

definition policy_storable :: "HdPeerPolicy \<Rightarrow> bool" where
  "policy_storable pol \<longleftrightarrow> HdIntent_of (HdIntent_byte (pp_pinned_intent pol)) = pp_pinned_intent pol \<and>
     length (pp_audit_tag pol) < 65536 \<and> length (pp_reason pol) < 65536"

abbreviation stored :: "HdPeer \<times> HdPeerPolicy \<Rightarrow> bool" where
  "stored s \<equiv> peer_live (fst s) \<and> \<not> policy_unset (snd s)"

lemma policy_save_loop_data:
  assumes "io_ok io"
  shows "list_all (\<lambda>s. hd_peer_ok (fst s) \<and> policy_storable (snd s)) slots \<Longrightarrow>
    of_data (policy_save_loop io slots f) =
      of_data f @ concat (map policy_record (filter stored slots))"
proof (induction slots arbitrary: f)
  case Nil
  then show ?case by simp
next
  case (Cons s slots)
  obtain p pol where s: "s = (p, pol)" by (cases s)
  from Cons.prems s have "length (hp_key p) = 32" "length (pp_audit_tag pol) < 65536"
    "length (pp_reason pol) < 65536"
    by (simp_all add: hd_peer_ok_def is_Key_def policy_storable_def)
  then show ?case
    using Cons assms s
    by (simp add: fwrite_ok WriteU16LE_def policy_record_def le16_def Let_def)
qed

lemma policy_count_loop_eq:
  "policy_count_loop slots c = c + of_nat (length (filter stored slots))"
  by (induction slots arbitrary: c) auto

lemma ReadExact_app: "length a = n \<Longrightarrow> ReadExact n (a @ b) = Some (a, b)"
  by (simp add: ReadExact_def)

lemma ReadU16LE_app: "ReadU16LE (le16 v @ b) = Some (v, b)"
proof -
  have "ucast (ucast v :: u8) OR push_bit 8 (ucast (ucast (drop_bit 8 v) :: u8)) = v"
    by (rule bit_word_eqI) (auto simp: bit_simps)
  then show ?thesis by (simp add: ReadU16LE_def ReadExact_def le16_def)
qed

lemma ReadU32LE_app:
  "ReadU32LE ([ucast v, ucast (drop_bit 8 v), ucast (drop_bit 16 v), ucast (drop_bit 24 v)] @ b)
    = Some (v, b)"
proof -
  have "ucast (ucast v :: u8) OR push_bit 8 (ucast (ucast (drop_bit 8 v) :: u8)) OR
      push_bit 16 (ucast (ucast (drop_bit 16 v) :: u8)) OR
      push_bit 24 (ucast (ucast (drop_bit 24 v) :: u8)) = v"
    using of_be32_be32 [of v] by (simp add: of_be32_def or.commute or.left_commute)
  then show ?thesis by (simp add: ReadU32LE_def ReadExact_def)
qed

lemma unat_of_nat_u16: "n < 65536 \<Longrightarrow> unat (of_nat n :: u16) = n"
  by (simp add: unsigned_of_nat take_bit_nat_eq_self)

lemma of_nat_u16_eq_0: "n < 65536 \<Longrightarrow> (of_nat n :: u16) = 0 \<longleftrightarrow> n = 0"
  using unat_of_nat_u16 [of n] by (cases "n = 0") auto

lemma read_counted:
  "length xs < 65536 \<Longrightarrow>
    (if (of_nat (length xs) :: u16) \<noteq> 0 then ReadExact (unat (of_nat (length xs) :: u16)) (xs @ b)
     else Some ([], xs @ b)) = Some (xs, b)"
  by (simp add: of_nat_u16_eq_0 unat_of_nat_u16 ReadExact_def)

lemma policy_read_record_app:
  assumes "is_Key (hp_key p)" "policy_storable pol"
  shows "policy_read_record (policy_record (p, pol) @ b) = Some (hp_key p, pol, b)"
proof -
  define hdr :: bytes where "hdr = [if pp_has_pin pol then 1 else 0,
      HdIntent_byte (pp_pinned_intent pol), if pp_override_client pol then 1 else 0]"
  define tl rl :: u16
    where "tl = of_nat (length (pp_audit_tag pol))" and "rl = of_nat (length (pp_reason pol))"
  define r3 where "r3 = le16 rl @ pp_reason pol @ b"
  define r2 where "r2 = le16 tl @ pp_audit_tag pol @ r3"
  have "ReadExact 32 (policy_record (p, pol) @ b) = Some (hp_key p, hdr @ r2)"
    using assms ReadExact_app [of "hp_key p" 32 "hdr @ r2"]
    by (simp add: is_Key_def policy_record_def hdr_def r2_def r3_def tl_def rl_def)
  moreover have "ReadExact 3 (hdr @ r2) = Some (hdr, r2)"
    by (rule ReadExact_app) (simp add: hdr_def)
  moreover have "ReadU16LE r2 = Some (tl, pp_audit_tag pol @ r3)" by (simp add: r2_def ReadU16LE_app)
  moreover have "(if tl \<noteq> 0 then ReadExact (unat tl) (pp_audit_tag pol @ r3)
      else Some ([], pp_audit_tag pol @ r3)) = Some (pp_audit_tag pol, r3)"
    unfolding tl_def by (rule read_counted) (use assms in \<open>simp add: policy_storable_def\<close>)
  moreover have "ReadU16LE r3 = Some (rl, pp_reason pol @ b)" by (simp add: r3_def ReadU16LE_app)
  moreover have "(if rl \<noteq> 0 then ReadExact (unat rl) (pp_reason pol @ b)
      else Some ([], pp_reason pol @ b)) = Some (pp_reason pol, b)"
    unfolding rl_def by (rule read_counted) (use assms in \<open>simp add: policy_storable_def\<close>)
  ultimately have "policy_read_record (policy_record (p, pol) @ b) =
      Some (hp_key p, \<lparr>pp_override_client = (hdr ! 2 \<noteq> 0), pp_has_pin = (hdr ! 0 \<noteq> 0),
        pp_pinned_intent = HdIntent_of (hdr ! 1), pp_audit_tag = pp_audit_tag pol,
        pp_reason = pp_reason pol\<rparr>, b)"
    unfolding policy_read_record_def by simp
  then show ?thesis
    using assms by (cases pol) (simp add: hdr_def policy_storable_def)
qed

lemma policy_load_loop_records:
  assumes "list_all (\<lambda>s. is_Key (hp_key (fst s)) \<and> policy_storable (snd s)) ss"
  shows "policy_load_loop (length ss) (concat (map policy_record ss) @ b) reg =
    fold (\<lambda>s. policy_apply (hp_key (fst s)) (snd s)) ss reg"
  using assms
proof (induction ss arbitrary: reg)
  case Nil
  then show ?case by simp
next
  case (Cons s ss)
  then show ?case by (cases s) (simp add: policy_read_record_app)
qed

lemma policy_apply_simps [simp]:
  "reg_peers (policy_apply k pol reg) = reg_peers reg"
  "length (reg_policies (policy_apply k pol reg)) = length (reg_policies reg)"
  "hd_reg_inv (policy_apply k pol reg) = hd_reg_inv reg"
  by (simp_all add: policy_apply_def hd_reg_inv_def split: option.split)

lemma policy_apply_lookup:
  assumes inv: "hd_reg_inv reg"
  shows "HdPeersLookupPolicy (policy_apply key pol reg) k =
    (if k = key \<and> HdPeersLookup reg k \<noteq> None then Some pol else HdPeersLookupPolicy reg k)"
proof (cases "HdPeersLookup reg key")
  case None
  then show ?thesis by (auto simp: policy_apply_def HdPeersLookup_def)
next
  case (Some i)
  then have "i < length (reg_policies reg)"
    using lookup_ok [OF inv Some] inv by (simp add: hd_reg_inv_def)
  moreover have "HdPeersLookup reg k' = Some j \<Longrightarrow> k' \<noteq> key \<Longrightarrow> i \<noteq> j" for k' j
    using lookup_ok [OF inv Some] lookup_ok [OF inv, of k' j] by auto
  ultimately show ?thesis
    using Some by (auto simp: policy_apply_def HdPeersLookup_def HdPeersLookupPolicy_def
        split: option.splits)
qed

lemma policy_apply_fold:
  "hd_reg_inv reg \<Longrightarrow>
   HdPeersLookupPolicy (fold (\<lambda>s. policy_apply (hp_key (fst s)) (snd s)) ss reg) k =
     (if HdPeersLookup reg k = None then None
      else case map_of (rev (map (\<lambda>s. (hp_key (fst s), snd s)) ss)) k of
          Some pol \<Rightarrow> Some pol | None \<Rightarrow> HdPeersLookupPolicy reg k)"
proof (induction ss arbitrary: reg)
  case Nil
  then show ?case by (simp add: HdPeersLookupPolicy_def HdPeersLookup_def)
next
  case (Cons s ss)
  have "HdPeersLookup (policy_apply a b reg) k = HdPeersLookup reg k" for a b
    by (simp add: HdPeersLookup_def)
  with Cons show ?case
    by (auto simp: policy_apply_lookup map_add_def split: option.split)
qed

text \<open>What a stored policy comes back as: a policy that says nothing is not written.\<close>

definition stored_policy :: "HdPeerPolicy \<Rightarrow> HdPeerPolicy" where
  "stored_policy pol = (if policy_unset pol then HdPeerPolicy_init else pol)"

lemma policy_pairs_lookup:
  assumes inv: "hd_reg_inv reg" and i: "HdPeersLookup reg k = Some i"
  shows "map_of (rev (map (\<lambda>s. (hp_key (fst s), snd s))
      (filter stored (zip (reg_peers reg) (reg_policies reg))))) k =
    (if policy_unset (reg_policies reg ! i) then None else Some (reg_policies reg ! i))"
    (is "map_of (rev ?ps) k = _")
proof -
  have len: "length (reg_peers reg) = length (reg_policies reg)"
    using inv by (simp add: hd_reg_inv_def)
  have mem: "(k, pol) \<in> set ?ps \<longleftrightarrow> pol = reg_policies reg ! i \<and> \<not> policy_unset pol" for pol
  proof
    assume "(k, pol) \<in> set ?ps"
    then obtain j where "j < length (reg_peers reg)" "peer_live (reg_peers reg ! j)"
      "hp_key (reg_peers reg ! j) = k" "pol = reg_policies reg ! j" "\<not> policy_unset pol"
      by (auto simp: in_set_zip)
    with hp.find_uniq [of "reg_peers reg" j k] i inv
    show "pol = reg_policies reg ! i \<and> \<not> policy_unset pol"
      by (auto simp: HdPeersLookup_find hd_reg_inv_def)
  next
    assume "pol = reg_policies reg ! i \<and> \<not> policy_unset pol"
    moreover have "(reg_peers reg ! i, reg_policies reg ! i) \<in> set (zip (reg_peers reg) (reg_policies reg))"
      using lookup_ok [OF inv i] len by (auto simp: in_set_zip)
    ultimately have "(reg_peers reg ! i, pol) \<in> set (filter stored (zip (reg_peers reg) (reg_policies reg)))"
      using lookup_ok [OF inv i] by auto
    then show "(k, pol) \<in> set ?ps"
      using lookup_ok [OF inv i] by (auto simp: image_iff)
  qed
  show ?thesis
  proof (cases "map_of (rev ?ps) k")
    case None
    then have "k \<notin> fst ` set ?ps" unfolding map_of_eq_None_iff set_rev .
    then have "(k, reg_policies reg ! i) \<notin> set ?ps" by (auto simp: image_iff)
    with mem [of "reg_policies reg ! i"] None show ?thesis by simp
  next
    case (Some pol)
    then have "(k, pol) \<in> set (rev ?ps)" by (rule map_of_SomeD)
    then have "(k, pol) \<in> set ?ps" unfolding set_rev .
    with mem [of pol] Some show ?thesis by auto
  qed
qed

section \<open>Properties\<close>

text \<open>
  C11: The registry invariant (array sizes, unique live keys, an exact peer counter, exact rule
  counters, non-zero peer ids) holds after initialisation and is kept by every operation on the
  registry, whatever the file operations do.
\<close>

theorem hd_registry_invariant:
  assumes inv: "hd_reg_inv reg" and k: "is_Key key" "is_Key dst"
  shows "hd_reg_inv (HdPeersInit reg key mode) \<and>
    hd_reg_inv (fst (HdPeersInsert reg key fd)) \<and>
    hd_reg_inv (fst (HdPeersApprove reg key)) \<and>
    hd_reg_inv (fst (HdPeersDeny reg key)) \<and>
    hd_reg_inv (HdPeersRemove reg key) \<and>
    hd_reg_inv (snd (HdPeersRevoke io files reg key)) \<and>
    hd_reg_inv (fst (HdPeersAddRule reg key dst)) \<and>
    hd_reg_inv (fst (HdPeersRemoveRule reg key dst)) \<and>
    hd_reg_inv (fst (snd (HdPeersSetPolicy io files reg key pol))) \<and>
    hd_reg_inv (fst (snd (HdPeersClearPolicy io files reg key))) \<and>
    hd_reg_inv (fst (HdPeerPolicyLoad io files reg)) \<and>
    hd_reg_inv (fst (HdDenylistLoad io files reg))"
proof (intro conjI)
  show "hd_reg_inv (HdPeersInit reg key mode)"
    using inv by (intro HdPeersInit_inv) (simp_all add: hd_reg_inv_def)
  show "hd_reg_inv (fst (HdPeersInsert reg key fd))"
  proof (cases "peers_view reg key")
    case None
    have "reg_peer_count reg \<le> int kHdMaxPeers"
      using inv slot_count_le [of peer_live "reg_peers reg"] by (simp add: hd_reg_inv_def)
    with HdPeersInsert_fresh(2) [OF inv None k(1)] HdPeersInsert_full [OF inv None] inv
    show ?thesis by (cases "reg_peer_count reg = int kHdMaxPeers") auto
  next
    case (Some p)
    with HdPeersInsert_known [OF Some, of fd] inv show ?thesis by auto
  qed
  show "hd_reg_inv (fst (HdPeersApprove reg key))" "hd_reg_inv (fst (HdPeersDeny reg key))"
    using HdPeersApprove_spec [OF inv, of key] HdPeersDeny_spec [OF inv, of key] inv
    by (auto split: option.splits)
  show "hd_reg_inv (HdPeersRemove reg key)" by (rule HdPeersRemove_inv [OF inv])
  show "hd_reg_inv (snd (HdPeersRevoke io files reg key))"
    using HdPeersRevoke_spec [OF inv k(1), of io files] by (auto simp: prod.case_eq_if)
  show "hd_reg_inv (fst (HdPeersAddRule reg key dst))" "hd_reg_inv (fst (HdPeersRemoveRule reg key dst))"
    using HdPeersAddRule_spec [OF inv k(2), of key] HdPeersRemoveRule_spec [OF inv, of key dst] inv
    by (auto split: option.splits if_splits)
  show "hd_reg_inv (fst (snd (HdPeersSetPolicy io files reg key pol)))"
    "hd_reg_inv (fst (snd (HdPeersClearPolicy io files reg key)))"
    using HdPeersSetPolicy_spec [OF inv, where key = key and io = io and files = files]
    by (simp_all add: prod.case_eq_if HdPeersClearPolicy_eq)
  have "hd_reg_inv (policy_load_loop n f reg)" for n f
    using inv by (induction n f reg rule: policy_load_loop.induct) (auto split: option.splits)
  then show "hd_reg_inv (fst (HdPeerPolicyLoad io files reg))"
    using inv by (auto simp: HdPeerPolicyLoad_def split: option.splits)
  have "list_all is_Key acc \<Longrightarrow> list_all is_Key (denylist_read_loop f acc)" for f acc
    by (induction f acc rule: denylist_read_loop.induct)
      (subst denylist_read_loop.simps, auto simp: is_Key_def)
  then show "hd_reg_inv (fst (HdDenylistLoad io files reg))"
    using inv by (auto simp: HdDenylistLoad_def hd_reg_inv_def Let_def split: option.splits)
qed

lemma hd_reg_inv_default: "hd_reg_inv HdPeerRegistry_init"
  using hp.blank_table [of kHdMaxPeers]
  by (simp add: hd_reg_inv_def HdPeerRegistry_init_def HdPeer_init_ok list_all_iff)

theorem hd_registry_invariant_witness:
  "hd_reg_inv (fst (HdPeersInsert HdPeerRegistry_init zero_Key 7))"
  using hd_registry_invariant [OF hd_reg_inv_default is_Key_zero is_Key_zero] by blast



text \<open>
  C20: Revoking a key removes its peer, leaves every other peer alone, puts exactly that key on
  the denylist, and, once the denylist file has been written, a registry that loads the file
  denies exactly the same keys.
\<close>

theorem hd_revoke_persists:
  assumes inv: "hd_reg_inv reg" and k: "is_Key key" and io: "io_ok io"
    and path: "reg_denylist_path reg \<noteq> []"
  shows "\<exists>files' reg'. HdPeersRevoke io files reg key = (files', reg') \<and>
     peers_view reg' = (peers_view reg)(key := None) \<and>
     (\<forall>k. HdPeersIsDenied reg' k \<longleftrightarrow> k = key \<or> HdPeersIsDenied reg k) \<and>
     (\<forall>fresh k. reg_denylist_path fresh = reg_denylist_path reg \<longrightarrow>
        HdPeersIsDenied (fst (HdDenylistLoad io files' fresh)) k = HdPeersIsDenied reg' k)"
proof -
  obtain files' reg' where r: "HdPeersRevoke io files reg key = (files', reg')" by fastforce
  with HdPeersRevoke_spec [OF inv k, of io files] have i: "hd_reg_inv reg'"
    and v: "peers_view reg' = (peers_view reg)(key := None)"
    and d: "\<forall>k. HdPeersIsDenied reg' k \<longleftrightarrow> k = key \<or> HdPeersIsDenied reg k" by auto
  have p: "reg_denylist_path reg' = reg_denylist_path reg"
    using r by (auto simp: HdPeersRevoke_def Let_def split: option.splits if_splits)
  have f: "files' = fst (HdDenylistSave io files reg')"
    using r path by (auto simp: HdPeersRevoke_def Let_def split: option.splits if_splits)
  from i have "list_all is_Key (reg_denylist reg')" by (simp add: hd_reg_inv_def)
  from denylist_save_ok [OF io this, of "\<lparr>of_calls = 0, of_data = []\<rparr>"]
  have "files' (reg_denylist_path reg) = Some (concat (reg_denylist reg'))"
    using f path io p by (auto simp: HdDenylistSave_def Let_def io_ok_def commit_file_def)
  then have "reg_denylist_path fresh = reg_denylist_path reg \<Longrightarrow>
      reg_denylist (fst (HdDenylistLoad io files' fresh)) = reg_denylist reg'" for fresh
    using path io denylist_read_concat [of "reg_denylist reg'" "[]"] i
    by (simp add: HdDenylistLoad_def Let_def fopen_rb_def io_ok_def hd_reg_inv_def)
  with r v d show ?thesis by (auto simp: HdPeersIsDenied_def)
qed

definition good_io :: c_io where
  "good_io = \<lparr>io_fopen_ok = (\<lambda>_. True), io_fwrite = (\<lambda>_. 65536), io_rename_ok = True\<rparr>"

lemma good_io_ok: "io_ok good_io"
  by (simp add: io_ok_def good_io_def)

theorem hd_revoke_persists_witness:
  "\<exists>files' reg'. HdPeersRevoke good_io Map.empty (HdPeerRegistry_init\<lparr>reg_denylist_path := ''d''\<rparr>) zero_Key
      = (files', reg') \<and> HdPeersIsDenied reg' zero_Key \<and>
     HdPeersIsDenied (fst (HdDenylistLoad good_io files'
       (HdPeerRegistry_init\<lparr>reg_denylist_path := ''d''\<rparr>))) zero_Key"
proof -
  have i: "hd_reg_inv (HdPeerRegistry_init\<lparr>reg_denylist_path := ''d''\<rparr>)"
    using hd_reg_inv_default by (simp add: hd_reg_inv_def)
  have p: "reg_denylist_path (HdPeerRegistry_init\<lparr>reg_denylist_path := ''d''\<rparr>) \<noteq> []" by simp
  from hd_revoke_persists [OF i is_Key_zero good_io_ok p, of Map.empty] show ?thesis by blast
qed

text \<open>
  C21: Peer policies survive a restart: saving a registry succeeds when the C library calls do,
  and loading the file into a registry with the same peers and default policies gives every key
  the policy it had (tags and reasons shorter than 64 KiB; a policy that pins, overrides and
  annotates nothing is not written and comes back as the default).
\<close>

theorem hd_policy_file_roundtrip:
  assumes inv: "hd_reg_inv reg" and io: "io_ok io" and path: "reg_peer_policy_path reg \<noteq> []"
    and st: "list_all policy_storable (reg_policies reg)"
  shows "\<exists>files'. HdPeerPolicySave io files reg = (files', True) \<and>
    (\<forall>k. HdPeersLookupPolicy (fst (HdPeerPolicyLoad io files'
        (reg\<lparr>reg_policies := replicate kHdMaxPeers HdPeerPolicy_init\<rparr>))) k =
      map_option stored_policy (HdPeersLookupPolicy reg k))"
proof -
  let ?slots = "zip (reg_peers reg) (reg_policies reg)"
  let ?ss = "filter stored ?slots"
  let ?r0 = "reg\<lparr>reg_policies := replicate kHdMaxPeers HdPeerPolicy_init\<rparr>"
  define n :: u32 where "n = of_nat (length ?ss)"
  define data where "data = [ucast n, ucast (drop_bit 8 n), ucast (drop_bit 16 n),
      ucast (drop_bit 24 n)] @ concat (map policy_record ?ss)"
  have ok: "list_all (\<lambda>s. hd_peer_ok (fst s) \<and> policy_storable (snd s)) ?slots"
    using inv st by (auto simp: hd_reg_inv_def list_all_iff dest: set_zip_leftD set_zip_rightD)
  have save: "\<exists>files'. HdPeerPolicySave io files reg = (files', True) \<and>
      files' (reg_peer_policy_path reg) = Some data"
    using path io policy_save_loop_data [OF io ok]
    by (auto simp: HdPeerPolicySave_def Let_def io_ok_def commit_file_def WriteU32LE_def
        fwrite_ok [OF io] policy_count_loop_eq data_def n_def)
  have "length ?ss \<le> 4096"
    using inv length_filter_le [of stored ?slots] by (simp add: hd_reg_inv_def kHdMaxPeers_def)
  then have un: "unat n = length ?ss" by (simp add: n_def unsigned_of_nat take_bit_nat_eq_self)
  have "list_all (\<lambda>s. is_Key (hp_key (fst s)) \<and> policy_storable (snd s)) ?ss"
    using ok by (auto simp: list_all_iff hd_peer_ok_def)
  from policy_load_loop_records [OF this, of "[]" ?r0]
  have load: "files' (reg_peer_policy_path reg) = Some data \<Longrightarrow>
      fst (HdPeerPolicyLoad io files' ?r0) =
        fold (\<lambda>s. policy_apply (hp_key (fst s)) (snd s)) ?ss ?r0" for files'
    using path io ReadU32LE_app [of n "concat (map policy_record ?ss)"] un
    by (simp add: HdPeerPolicyLoad_def fopen_rb_def io_ok_def data_def)
  have inv0: "hd_reg_inv ?r0" using inv by (simp add: hd_reg_inv_def)
  have look0: "HdPeersLookup ?r0 k = HdPeersLookup reg k" for k by (simp add: HdPeersLookup_def)
  have "HdPeersLookupPolicy (fold (\<lambda>s. policy_apply (hp_key (fst s)) (snd s)) ?ss ?r0) k =
      map_option stored_policy (HdPeersLookupPolicy reg k)" for k
  proof (cases "HdPeersLookup reg k")
    case None
    then show ?thesis
      by (simp add: policy_apply_fold [OF inv0] look0)
        (simp add: HdPeersLookupPolicy_def HdPeersLookup_def)
  next
    case (Some i)
    then have "i < kHdMaxPeers" using lookup_ok [OF inv Some] inv by (simp add: hd_reg_inv_def)
    with Some show ?thesis
      by (simp add: policy_apply_fold [OF inv0] look0 policy_pairs_lookup [OF inv Some])
        (simp add: HdPeersLookupPolicy_def HdPeersLookup_def stored_policy_def)
  qed
  with save load show ?thesis by auto
qed

theorem hd_policy_file_roundtrip_witness:
  "\<exists>files'. HdPeerPolicySave good_io Map.empty (HdPeerRegistry_init\<lparr>reg_peer_policy_path := ''p''\<rparr>)
     = (files', True)"
proof -
  have i: "hd_reg_inv (HdPeerRegistry_init\<lparr>reg_peer_policy_path := ''p''\<rparr>)"
    using hd_reg_inv_default by (simp add: hd_reg_inv_def)
  have p: "reg_peer_policy_path (HdPeerRegistry_init\<lparr>reg_peer_policy_path := ''p''\<rparr>) \<noteq> []" by simp
  have s: "list_all policy_storable (reg_policies (HdPeerRegistry_init\<lparr>reg_peer_policy_path := ''p''\<rparr>))"
    by (simp add: HdPeerRegistry_init_def list_all_iff policy_storable_def HdPeerPolicy_init_def
        HdIntent_of_def)
  from hd_policy_file_roundtrip [OF i good_io_ok p s, of Map.empty] show ?thesis by blast
qed

end
