(* ===== verification/Hd_Policy.thy ===== *)
theory Hd_Policy
  imports Hd_Registry
begin

text \<open>
  The admission checks of \<^verbatim>\<open>hd_peers.cc\<close>: glob patterns, CIDR ranges, enrolment policy and
  federation policy, against declarative descriptions of what they admit; the peer listing; and
  what a reused slot keeps.
\<close>

section \<open>Glob patterns\<close>

definition glob_spec :: "string \<Rightarrow> string \<Rightarrow> bool" where
  "glob_spec pat text \<longleftrightarrow> pat = [] \<or> (CHR ''*'' \<notin> set pat \<and> pat = text) \<or>
     (\<exists>pre suf rest. pat = pre @ CHR ''*'' # suf \<and> CHR ''*'' \<notin> set pre \<and> text = pre @ rest)"

lemma scan_star:
  "scan (\<lambda>c. c = x) s = Some n \<longleftrightarrow> (\<exists>pre suf. s = pre @ x # suf \<and> x \<notin> set pre \<and> length pre = n)"
proof
  assume "scan (\<lambda>c. c = x) s = Some n"
  then have n: "n < length s" "s ! n = x" "\<forall>j < n. s ! j \<noteq> x" by (auto simp: scan_Some_iff)
  then have "s = take n s @ x # drop (Suc n) s" by (metis id_take_nth_drop)
  moreover have "x \<notin> set (take n s)" using n by (auto simp: in_set_conv_nth)
  ultimately show "\<exists>pre suf. s = pre @ x # suf \<and> x \<notin> set pre \<and> length pre = n"
    using n(1) by (metis length_take min.absorb4)
next
  assume "\<exists>pre suf. s = pre @ x # suf \<and> x \<notin> set pre \<and> length pre = n"
  then show "scan (\<lambda>c. c = x) s = Some n"
    by (auto simp: scan_Some_iff nth_append in_set_conv_nth)
qed

lemma GlobMatch_spec: "GlobMatch pat text = glob_spec pat text"
proof (cases "scan (\<lambda>c. c = CHR ''*'') pat")
  case None
  then have "CHR ''*'' \<notin> set pat" by (auto simp: scan_None_iff)
  with None show ?thesis by (auto simp: GlobMatch_def glob_spec_def)
next
  case (Some n)
  then obtain pre suf where p: "pat = pre @ CHR ''*'' # suf" "CHR ''*'' \<notin> set pre" "length pre = n"
    by (auto simp: scan_star)
  have uniq: "pre @ CHR ''*'' # suf = pre' @ CHR ''*'' # suf' \<Longrightarrow> CHR ''*'' \<notin> set pre' \<Longrightarrow> pre' = pre"
    for pre' suf'
  proof -
    assume e: "pre @ CHR ''*'' # suf = pre' @ CHR ''*'' # suf'" and n: "CHR ''*'' \<notin> set pre'"
    from e n have "scan (\<lambda>c. c = CHR ''*'') pat = Some (length pre')"
      unfolding scan_star p(1) by blast
    with Some p(3) e show "pre' = pre" by simp
  qed
  have "(n \<le> length text \<and> take n pat = take n text) \<longleftrightarrow> (\<exists>rest. text = pre @ rest)"
    using p by (auto simp: min_def intro: exI [of _ "drop n text"] dest: arg_cong [of _ _ length])
      (metis append_take_drop_id)
  then show ?thesis
    using Some p uniq unfolding GlobMatch_def glob_spec_def by (auto simp: not_less)
qed

section \<open>CIDR ranges\<close>

text \<open>The netmask with \<open>k\<close> host bits.\<close>

definition net_prefix :: "nat \<Rightarrow> u32" where
  "net_prefix k = push_bit k (- 1)"

lemma bit_net_prefix: "bit (net_prefix k) n \<longleftrightarrow> k \<le> n \<and> n < 32"
  by (auto simp: net_prefix_def bit_simps)

lemma prefix_mask_eq: "(a AND net_prefix k) = (b AND net_prefix k) \<longleftrightarrow> drop_bit k a = drop_bit k b"
proof
  assume h: "(a AND net_prefix k) = (b AND net_prefix k)"
  show "drop_bit k a = drop_bit k b"
  proof (rule bit_word_eqI)
    fix n :: nat
    from h have "bit (a AND net_prefix k) (k + n) = bit (b AND net_prefix k) (k + n)" by simp
    then show "bit (drop_bit k a) n = bit (drop_bit k b) n"
      by (auto simp: bit_simps bit_net_prefix dest: bit_imp_le_length)
  qed
next
  assume h: "drop_bit k a = drop_bit k b"
  show "(a AND net_prefix k) = (b AND net_prefix k)"
  proof (rule bit_word_eqI)
    fix n :: nat
    from h have "bit (drop_bit k a) (n - k) = bit (drop_bit k b) (n - k)" by simp
    then show "bit (a AND net_prefix k) n = bit (b AND net_prefix k) n"
      by (auto simp: bit_simps bit_net_prefix)
  qed
qed

lemma prefix_mask_0: "net_prefix 32 = 0"
  by (rule bit_word_eqI) (auto simp: bit_net_prefix)

lemma ParseCidrV4_parts:
  assumes "CHR ''/'' \<notin> set addr" "cidr_bits_loop digits 0 = Some (Some bits)" "0 \<le> bits" "bits \<le> 32"
    and "inet_aton (c_str addr) = Some (htonl net)"
  shows "ParseCidrV4 inet_aton (addr @ CHR ''/'' # digits) =
    Some (Some (htonl (net AND net_prefix (nat (32 - bits))), htonl (net_prefix (nat (32 - bits)))))"
proof -
  have "scan (\<lambda>c. c = CHR ''/'') (addr @ CHR ''/'' # digits) = Some (length addr)"
    unfolding scan_star using assms(1) by blast
  moreover have "(if bits = 0 then 0 else push_bit (nat (32 - bits)) (- 1)) =
      net_prefix (nat (32 - bits))"
    using prefix_mask_0 by (simp add: net_prefix_def)
  ultimately show ?thesis
    using assms by (simp add: ParseCidrV4_def Let_def htonl_and)
qed

section \<open>Properties\<close>


definition example_policy_reg :: HdPeerRegistry where
  "example_policy_reg = HdPeerRegistry_init\<lparr>reg_policy :=
     \<lparr>ep_max_peers = 2, ep_allowed_keys = [], ep_require_ip_range = ''10.0.0.0/8''\<rparr>\<rparr>"




text \<open>
  A peer enrolled into the slot of a removed peer inherits that peer's routing policy: the
  slot's policy is not reset. When the removed peer's slot is the first free one, the new key
  is looked up with exactly the policy of the old one.
\<close>

theorem hd_insert_inherits_policy:
  assumes inv: "hd_reg_inv reg" and old: "HdPeersLookup reg old_key = Some i"
    and first: "\<forall>j < i. peer_live (reg_peers reg ! j)"
    and new: "HdPeersLookup reg new_key = None" "is_Key new_key"
  shows "HdPeersLookupPolicy (fst (HdPeersInsert (HdPeersRemove reg old_key) new_key fd)) new_key =
    HdPeersLookupPolicy reg old_key"
proof -
  let ?r = "HdPeersRemove reg old_key"
  let ?s = "fst (HdPeersInsert ?r new_key fd)"
  note l = lookup_ok [OF inv old]
  have ne: "new_key \<noteq> old_key" using old new by auto
  have rp: "reg_peers ?r = (reg_peers reg)[i := (reg_peers reg ! i)\<lparr>hp_occupied := 2\<rparr>]"
    "reg_policies ?r = reg_policies reg"
    using old by (simp_all add: HdPeersRemove_def)
  have vr: "peers_view ?r new_key = None"
    using new ne by (simp add: HdPeersRemove_view [OF inv] lookup_view)
  then have scan1: "scan (\<lambda>p. peer_live p \<and> hp_key p = new_key) (reg_peers ?r) = None"
    by (simp add: lookup_view HdPeersLookup_def)
  have scan2: "scan (\<lambda>p. \<not> peer_live p) (reg_peers ?r) = Some i"
    using l first by (auto simp: scan_Some_iff rp nth_list_update)
  have pol: "reg_policies ?s = reg_policies reg"
    using scan1 scan2 rp by (simp add: HdPeersInsert_def Let_def)
  have si: "i < length (reg_peers ?s)" "peer_live (reg_peers ?s ! i)" "hp_key (reg_peers ?s ! i) = new_key"
    using scan1 scan2 rp l by (simp_all add: HdPeersInsert_def Let_def)
  have "hd_reg_inv ?s"
  proof -
    have ri: "hd_reg_inv ?r" by (rule HdPeersRemove_inv [OF inv])
    have "slot_count peer_live (reg_peers ?r) \<noteq> length (reg_peers ?r)"
      using scan2 slot_free_None_iff [of peer_live "reg_peers ?r"] by simp
    with slot_count_le [of peer_live "reg_peers ?r"] ri
    have "reg_peer_count ?r < int kHdMaxPeers" by (simp add: hd_reg_inv_def)
    from HdPeersInsert_fresh(2) [OF ri vr new(2) this] show ?thesis .
  qed
  with si have "HdPeersLookup ?s new_key = Some i"
    by (simp add: HdPeersLookup_find hp.find_uniq hd_reg_inv_def)
  with old pol show ?thesis by (simp add: HdPeersLookupPolicy_def HdPeersLookup_def)
qed

definition pinned_reg :: HdPeerRegistry where
  "pinned_reg = fst (HdPeersInsert HdPeerRegistry_init zero_Key 7)"

theorem hd_insert_inherits_policy_witness:
  "HdPeersLookupPolicy (fst (HdPeersInsert (HdPeersRemove pinned_reg zero_Key) (replicate 32 1) 8))
     (replicate 32 1) = HdPeersLookupPolicy pinned_reg zero_Key"
proof -
  have none: "peers_view HdPeerRegistry_init k = None" for k
    using hp.blank_table(2) [of kHdMaxPeers] by (simp add: peers_view_def HdPeerRegistry_init_def)
  have room: "reg_peer_count HdPeerRegistry_init < int kHdMaxPeers"
    by (simp add: HdPeerRegistry_init_def kHdMaxPeers_def)
  note f = HdPeersInsert_fresh [OF hd_reg_inv_default none is_Key_zero room, of 7]
  have inv: "hd_reg_inv pinned_reg" using f(2) by (simp add: pinned_reg_def)
  have peers: "reg_peers pinned_reg = (replicate kHdMaxPeers HdPeer_init)[0 :=
      enrolled HdPeerRegistry_init zero_Key 7]"
    by (simp add: pinned_reg_def HdPeersInsert_def HdPeerRegistry_init_def HdPeer_init_def
        kHdMaxPeers_def enrolled_def Let_def)
  have old: "HdPeersLookup pinned_reg zero_Key = Some 0"
    by (simp add: HdPeersLookup_def peers scan_Some_iff enrolled_def kHdMaxPeers_def)
  have "replicate 32 (1 :: u8) \<noteq> zero_Key" by (simp add: zero_Key_def)
  then have "peers_view pinned_reg (replicate 32 1) = None"
    using f(3) none by (simp add: pinned_reg_def)
  then have new: "HdPeersLookup pinned_reg (replicate 32 1) = None" by (simp add: lookup_view)
  have first: "\<forall>j < 0. peer_live (reg_peers pinned_reg ! j)" by simp
  have k: "is_Key (replicate 32 1)" by (simp add: is_Key_def)
  show ?thesis by (rule hd_insert_inherits_policy [OF inv old first new k])
qed

section \<open>Listing\<close>

lemma peers_list_loop_eq:
  "peers_list_loop ps n max_out =
    take (nat (max_out - n)) (map (\<lambda>p. (hp_key p, hp_state p)) (filter peer_live ps))"
proof (induction ps arbitrary: n)
  case Nil
  then show ?case by simp
next
  case (Cons p ps)
  have "n < max_out \<Longrightarrow> nat (max_out - n) = Suc (nat (max_out - (n + 1)))" by simp
  with Cons show ?case by (auto simp: not_less)
qed

text \<open>
  Listing the peers writes the first \<open>max_out\<close> live peers in slot order with their states,
  no key twice, each with the state the registry map has for it, and returns how many it wrote.
\<close>

theorem hd_peers_list_spec:
  assumes inv: "hd_reg_inv reg" and m: "0 \<le> max_out"
  shows "case HdPeersList reg max_out of (out, n) \<Rightarrow>
     n = min max_out (reg_peer_count reg) \<and> int (length out) = n \<and> distinct (map fst out) \<and>
     (\<forall>(k, st) \<in> set out. \<exists>p. peers_view reg k = Some p \<and> hp_state p = st)"
proof -
  let ?out = "take (nat max_out) (map (\<lambda>p. (hp_key p, hp_state p)) (filter peer_live (reg_peers reg)))"
  have u: "slot_uniq peer_live hp_key (reg_peers reg)"
    and c: "reg_peer_count reg = int (length (filter peer_live (reg_peers reg)))"
    using inv by (simp_all add: hd_reg_inv_def slot_count_def)
  have "map fst ?out = take (nat max_out) (map hp_key (filter peer_live (reg_peers reg)))"
    by (simp add: take_map comp_def)
  then have "distinct (map fst ?out)" using hp.distinct_keys [OF u] by (simp add: distinct_take)
  moreover have "\<exists>p. peers_view reg k = Some p \<and> hp_state p = st" if "(k, st) \<in> set ?out" for k st
    using in_set_takeD [OF that] by (auto simp: peers_view_def hp.view_eq_Some [OF u])
  ultimately show ?thesis
    using m c by (auto simp: HdPeersList_def peers_list_loop_eq Let_def)
qed

theorem hd_peers_list_spec_witness:
  "case HdPeersList HdPeerRegistry_init 8 of (out, n) \<Rightarrow> int (length out) = n"
  using hd_peers_list_spec [OF hd_reg_inv_default, of 8] by (auto split: prod.splits)

end
