(* ===== verification/Hd_Resolver.thy ===== *)
theory Hd_Resolver
  imports Hd_Peers
begin

text \<open>
  The five-layer routing policy resolver: \<^verbatim>\<open>include/hyper_derp/hd_resolver.h\<close> and
  \<^verbatim>\<open>src/hd_resolver.cc\<close>.
\<close>

section \<open>Data\<close>

definition kModeDirect :: u8 where "kModeDirect = 0x01"
definition kModeRelayed :: u8 where "kModeRelayed = 0x02"
definition kModeAny :: u8 where "kModeAny = kModeDirect OR kModeRelayed"

record HdLayerView =
  lv_allowed :: u8
  lv_pinned_intent :: "HdIntent option"

record HdClientView =
  cv_intent :: HdIntent
  cv_allow_upgrade :: bool
  cv_allow_downgrade :: bool

record HdCapability =
  cap_can_direct :: bool

record HdDecision =
  d_mode :: HdConnMode
  d_deny_reason :: HdDenyReason
  d_sub_reason :: u8
  d_resolved_intent :: HdIntent
  d_allow_upgrade :: bool
  d_allow_downgrade :: bool
  d_layer_allowed :: "u8 list" \<comment> \<open>\<^verbatim>\<open>uint8_t layer_allowed[5]\<close>, indexed by \<^verbatim>\<open>HdLayer\<close>\<close>

datatype HdLayer = Layer_kFleet | Layer_kFederation | Layer_kRelay | Layer_kPeer | Layer_kClient

fun HdLayer_index :: "HdLayer \<Rightarrow> nat" where
  "HdLayer_index Layer_kFleet = 0"
| "HdLayer_index Layer_kFederation = 1"
| "HdLayer_index Layer_kRelay = 2"
| "HdLayer_index Layer_kPeer = 3"
| "HdLayer_index Layer_kClient = 4"

definition HdLayerView_init :: HdLayerView where
  "HdLayerView_init = \<lparr>lv_allowed = kModeAny, lv_pinned_intent = None\<rparr>"

definition HdDecision_init :: HdDecision where
  "HdDecision_init = \<lparr>d_mode = Mode_kDenied, d_deny_reason = Deny_kNone, d_sub_reason = 0,
     d_resolved_intent = Intent_kPreferDirect, d_allow_upgrade = True, d_allow_downgrade = True,
     d_layer_allowed = [kModeAny, kModeAny, kModeAny, kModeAny, kModeAny]\<rparr>"

section \<open>Operations\<close>

fun IntentNeed :: "HdIntent \<Rightarrow> u8" where
  "IntentNeed Intent_kPreferDirect = kModeAny"
| "IntentNeed Intent_kRequireDirect = kModeDirect"
| "IntentNeed Intent_kPreferRelay = kModeAny"
| "IntentNeed Intent_kRequireRelay = kModeRelayed"
| "IntentNeed _ = kModeAny"

fun IntentPreferred :: "HdIntent \<Rightarrow> HdConnMode" where
  "IntentPreferred Intent_kPreferDirect = Mode_kDirect"
| "IntentPreferred Intent_kRequireDirect = Mode_kDirect"
| "IntentPreferred Intent_kPreferRelay = Mode_kRelayed"
| "IntentPreferred Intent_kRequireRelay = Mode_kRelayed"
| "IntentPreferred _ = Mode_kRelayed"

definition set_layer :: "HdLayer \<Rightarrow> u8 \<Rightarrow> HdDecision \<Rightarrow> HdDecision" where
  "set_layer l v d = d\<lparr>d_layer_allowed := (d_layer_allowed d)[HdLayer_index l := v]\<rparr>"

text \<open>Step 2: the pinned intent of the highest layer that has one, else the client's.\<close>

definition pick_intent ::
  "HdLayerView \<Rightarrow> HdLayerView \<Rightarrow> HdLayerView \<Rightarrow> HdLayerView \<Rightarrow> HdClientView \<Rightarrow> HdIntent \<times> bool" where
  "pick_intent fleet federation relay peer client =
     (case lv_pinned_intent fleet of
        Some i \<Rightarrow> (i, True)
      | None \<Rightarrow> (case lv_pinned_intent federation of
            Some i \<Rightarrow> (i, True)
          | None \<Rightarrow> (case lv_pinned_intent relay of
                Some i \<Rightarrow> (i, True)
              | None \<Rightarrow> (case lv_pinned_intent peer of
                    Some i \<Rightarrow> (i, True)
                  | None \<Rightarrow> (cv_intent client, False)))))"

definition HdResolve ::
  "HdLayerView \<Rightarrow> HdLayerView \<Rightarrow> HdLayerView \<Rightarrow> HdLayerView \<Rightarrow> HdClientView \<Rightarrow> HdCapability \<Rightarrow>
   u16 \<Rightarrow> HdDecision" where
  "HdResolve fleet federation relay peer client cap target_relay_id =
     (let d = HdDecision_init\<lparr>d_allow_upgrade := cv_allow_upgrade client,
                              d_allow_downgrade := cv_allow_downgrade client\<rparr> in
      if target_relay_id \<noteq> 0
      then d\<lparr>d_mode := Mode_kDenied, d_deny_reason := Deny_kFleetRoutingNotImplemented\<rparr>
      else
        (let allowed = lv_allowed fleet AND lv_allowed federation AND lv_allowed relay AND
               lv_allowed peer;
             d = set_layer Layer_kFleet (lv_allowed fleet) d;
             d = set_layer Layer_kFederation (lv_allowed federation) d;
             d = set_layer Layer_kRelay (lv_allowed relay) d;
             d = set_layer Layer_kPeer (lv_allowed peer) d;
             (effective, pinned) = pick_intent fleet federation relay peer client;
             d = d\<lparr>d_resolved_intent := effective\<rparr>;
             allowed = (if \<not> cap_can_direct cap then allowed AND NOT kModeDirect else allowed) in
         if \<not> cap_can_direct cap \<and> effective = Intent_kRequireDirect
         then d\<lparr>d_mode := Mode_kDenied, d_deny_reason := Deny_kNatIncompatible\<rparr>
         else
           (let want = IntentNeed effective;
                feasible = allowed AND want;
                d = set_layer Layer_kClient want d in
            if feasible = 0
            then (let d = d\<lparr>d_mode := Mode_kDenied, d_deny_reason := Deny_kPolicyForbids\<rparr> in
                  if pinned
                  then d\<lparr>d_sub_reason := ucast (HdDenyReason_word Deny_kPeerOverride AND 0xFF)\<rparr>
                  else d)
            else
              (let preferred = IntentPreferred effective;
                   pref_bit = (if preferred = Mode_kDirect then kModeDirect else kModeRelayed);
                   md = (if feasible AND pref_bit \<noteq> 0 then preferred
                         else if feasible AND kModeDirect \<noteq> 0 then Mode_kDirect
                         else Mode_kRelayed) in
               d\<lparr>d_mode := md, d_deny_reason := Deny_kNone\<rparr>))))"

definition HdBuildRelayView :: "HdRelayPolicy \<Rightarrow> HdLayerView" where
  "HdBuildRelayView policy =
     (let v = HdLayerView_init;
          v = (if rp_forbid_direct policy then v\<lparr>lv_allowed := lv_allowed v AND NOT kModeDirect\<rparr>
               else v);
          v = (if rp_forbid_relayed policy then v\<lparr>lv_allowed := lv_allowed v AND NOT kModeRelayed\<rparr>
               else v) in v)"

definition HdBuildFleetView :: "HdFleetPolicy \<Rightarrow> HdLayerView" where
  "HdBuildFleetView policy =
     (let v = HdLayerView_init;
          v = (if \<not> fp_allow_direct policy then v\<lparr>lv_allowed := lv_allowed v AND NOT kModeDirect\<rparr>
               else v);
          v = (if \<not> fp_allow_relayed policy then v\<lparr>lv_allowed := lv_allowed v AND NOT kModeRelayed\<rparr>
               else v) in v)"

definition HdApplyPeerPolicyIntent :: "HdPeerPolicy \<Rightarrow> HdIntent \<Rightarrow> HdIntent" where
  "HdApplyPeerPolicyIntent policy wire_intent =
     (if pp_has_pin policy \<and> pp_override_client policy then pp_pinned_intent policy
      else wire_intent)"

definition HdBuildPeerView :: "HdPeerPolicy \<Rightarrow> HdIntent \<Rightarrow> HdLayerView" where
  "HdBuildPeerView policy effective_intent =
     (let v = HdLayerView_init;
          v = (if effective_intent = Intent_kRequireDirect \<or> effective_intent = Intent_kRequireRelay
               then v\<lparr>lv_pinned_intent := Some effective_intent\<rparr>
               else if effective_intent = Intent_kPreferRelay then v\<lparr>lv_allowed := kModeRelayed\<rparr>
               else v) in
      if pp_has_pin policy \<and> \<not> pp_override_client policy then
        (case pp_pinned_intent policy of
           Intent_kRequireRelay \<Rightarrow> v\<lparr>lv_allowed := lv_allowed v AND kModeRelayed\<rparr>
         | Intent_kPreferRelay \<Rightarrow> v\<lparr>lv_allowed := lv_allowed v AND kModeRelayed\<rparr>
         | Intent_kRequireDirect \<Rightarrow> v\<lparr>lv_allowed := lv_allowed v AND kModeDirect\<rparr>
         | Intent_kPreferDirect \<Rightarrow> v\<lparr>lv_allowed := lv_allowed v AND kModeDirect\<rparr>
         | Intent_unnamed _ \<Rightarrow> v)
      else v)"

section \<open>What the layers permit\<close>

text \<open>
  The specification: a mode is permitted when every layer's set contains it and the pair is
  capable of it; an intent admits a mode; the resolver picks the preferred permitted mode.
\<close>

fun layer_permits :: "HdConnMode \<Rightarrow> HdLayerView \<Rightarrow> bool" where
  "layer_permits Mode_kDirect v = bit (lv_allowed v) 0"
| "layer_permits Mode_kRelayed v = bit (lv_allowed v) 1"
| "layer_permits _ v = False"

fun intent_admits :: "HdIntent \<Rightarrow> HdConnMode \<Rightarrow> bool" where
  "intent_admits Intent_kRequireDirect m = (m = Mode_kDirect)"
| "intent_admits Intent_kRequireRelay m = (m = Mode_kRelayed)"
| "intent_admits _ m = (m = Mode_kDirect \<or> m = Mode_kRelayed)"

definition permitted :: "HdLayerView list \<Rightarrow> HdCapability \<Rightarrow> HdIntent \<Rightarrow> HdConnMode \<Rightarrow> bool" where
  "permitted layers cap i m \<longleftrightarrow> list_all (layer_permits m) layers \<and> intent_admits i m \<and>
     (m = Mode_kDirect \<longrightarrow> cap_can_direct cap)"

definition other_mode :: "HdConnMode \<Rightarrow> HdConnMode" where
  "other_mode m = (if m = Mode_kDirect then Mode_kRelayed else Mode_kDirect)"

lemma mode_bits:
  "bit (1 :: u8) n \<longleftrightarrow> n = 0" "bit (2 :: u8) n \<longleftrightarrow> n = 1" "bit (3 :: u8) n \<longleftrightarrow> n = 0 \<or> n = 1"
proof -
  show "bit (1 :: u8) n \<longleftrightarrow> n = 0" by (auto simp: bit_simps)
  have two: "(2 :: u8) = push_bit 1 1" and three: "(3 :: u8) = mask 2" by (simp_all add: mask_eq_exp_minus_1)
  show "bit (2 :: u8) n \<longleftrightarrow> n = 1" unfolding two by (auto simp: bit_simps)
  show "bit (3 :: u8) n \<longleftrightarrow> n = 0 \<or> n = 1" unfolding three by (auto simp: bit_simps)
qed

lemma and_zero_iff: "a AND c = 0 \<longleftrightarrow> (\<forall>n. bit a n \<longrightarrow> \<not> bit c n)" for a c :: u8
proof
  assume "a AND c = 0"
  then have "\<not> bit (a AND c) n" for n by simp
  then show "\<forall>n. bit a n \<longrightarrow> \<not> bit c n" by (simp only: bit_and_iff) blast
next
  assume "\<forall>n. bit a n \<longrightarrow> \<not> bit c n"
  then show "a AND c = 0" by (auto intro!: bit_word_eqI simp: bit_and_iff)
qed

lemma and_mode_zero:
  "a AND 1 = 0 \<longleftrightarrow> \<not> bit a 0" "a AND 2 = 0 \<longleftrightarrow> \<not> bit a 1" "a AND 3 = 0 \<longleftrightarrow> \<not> bit a 0 \<and> \<not> bit a 1"
  for a :: u8
  by (simp_all only: and_zero_iff mode_bits) metis+

lemma kModeAny_eq: "kModeAny = 3"
  by (simp add: kModeAny_def kModeDirect_def kModeRelayed_def)

lemmas mode_defs = kModeDirect_def kModeRelayed_def kModeAny_eq and_mode_zero bit_and_iff mode_bits
  bit_not_iff

lemma resolve_mode:
  assumes i: "pick_intent fl fe re pe cl = (i, pinned)"
  shows "d_mode (HdResolve fl fe re pe cl cap 0) =
    (if permitted [fl, fe, re, pe] cap i (IntentPreferred i) then IntentPreferred i
     else if permitted [fl, fe, re, pe] cap i (other_mode (IntentPreferred i))
     then other_mode (IntentPreferred i) else Mode_kDenied)"
  using i
  by (cases i) (auto simp: HdResolve_def Let_def permitted_def other_mode_def mode_defs
      HdDecision_init_def set_layer_def)

lemma resolve_reason:
  assumes i: "pick_intent fl fe re pe cl = (i, pinned)"
  shows "d_deny_reason (HdResolve fl fe re pe cl cap 0) =
    (if d_mode (HdResolve fl fe re pe cl cap 0) \<noteq> Mode_kDenied then Deny_kNone
     else if \<not> cap_can_direct cap \<and> i = Intent_kRequireDirect then Deny_kNatIncompatible
     else Deny_kPolicyForbids)"
  using i
  by (cases i) (auto simp: HdResolve_def Let_def mode_defs HdDecision_init_def set_layer_def)

lemma resolve_fields:
  assumes i: "pick_intent fl fe re pe cl = (i, pinned)"
  shows "d_resolved_intent (HdResolve fl fe re pe cl cap 0) = i"
    and "d_allow_upgrade (HdResolve fl fe re pe cl cap t) = cv_allow_upgrade cl"
    and "d_allow_downgrade (HdResolve fl fe re pe cl cap t) = cv_allow_downgrade cl"
    and "take 4 (d_layer_allowed (HdResolve fl fe re pe cl cap 0)) =
      [lv_allowed fl, lv_allowed fe, lv_allowed re, lv_allowed pe]"
  using i by (auto simp: HdResolve_def Let_def HdDecision_init_def set_layer_def)

lemma permitted_mode: "permitted ls cap i m \<Longrightarrow> m = Mode_kDirect \<or> m = Mode_kRelayed"
  by (cases i) (auto simp: permitted_def)

lemma preferred_mode: "IntentPreferred i = Mode_kDirect \<or> IntentPreferred i = Mode_kRelayed"
  by (cases i) auto

lemma resolve_denied_iff:
  assumes i: "pick_intent fl fe re pe cl = (i, pinned)"
  shows "d_mode (HdResolve fl fe re pe cl cap 0) = Mode_kDenied \<longleftrightarrow>
    (\<forall>m. \<not> permitted [fl, fe, re, pe] cap i m)"
proof -
  let ?ok = "permitted [fl, fe, re, pe] cap i"
  have "(\<forall>m. \<not> ?ok m) \<longleftrightarrow> \<not> ?ok Mode_kDirect \<and> \<not> ?ok Mode_kRelayed" by (metis permitted_mode)
  then show ?thesis
    using preferred_mode [of i] by (auto simp: resolve_mode [OF i] other_mode_def)
qed

section \<open>Properties\<close>


definition open_view :: HdLayerView where "open_view = HdLayerView_init"




text \<open>
  The peer view of a stored policy: without an override the pin narrows the allowed modes to
  its side and the peer's own requirement is pinned; with an override only a required mode
  becomes a pin. An overriding pin of PreferRelay is not exposed as a pin: it forbids direct
  tunnels altogether, and an overriding PreferDirect leaves the view open.
\<close>

theorem hd_peer_view_spec:
  "let pol = \<lparr>pp_override_client = ov, pp_has_pin = True, pp_pinned_intent = pin,
               pp_audit_tag = tag, pp_reason = reason\<rparr>;
       v = HdBuildPeerView pol (HdApplyPeerPolicyIntent pol wire) in
    (ov \<longrightarrow> lv_pinned_intent v =
        (if pin = Intent_kRequireDirect \<or> pin = Intent_kRequireRelay then Some pin else None) \<and>
      (layer_permits Mode_kDirect v \<longleftrightarrow> pin \<noteq> Intent_kPreferRelay) \<and> layer_permits Mode_kRelayed v) \<and>
    (\<not> ov \<longrightarrow>
      lv_pinned_intent v =
        (if wire = Intent_kRequireDirect \<or> wire = Intent_kRequireRelay then Some wire else None) \<and>
      (layer_permits Mode_kDirect v \<longleftrightarrow> wire \<noteq> Intent_kPreferRelay \<and>
         pin \<noteq> Intent_kPreferRelay \<and> pin \<noteq> Intent_kRequireRelay) \<and>
      (layer_permits Mode_kRelayed v \<longleftrightarrow>
         pin \<noteq> Intent_kPreferDirect \<and> pin \<noteq> Intent_kRequireDirect))"
  by (cases pin; cases wire)
    (simp_all add: HdBuildPeerView_def HdApplyPeerPolicyIntent_def HdLayerView_init_def mode_defs Let_def)

theorem hd_peer_view_spec_witness:
  "lv_pinned_intent (HdBuildPeerView \<lparr>pp_override_client = True, pp_has_pin = True,
      pp_pinned_intent = Intent_kPreferRelay, pp_audit_tag = [], pp_reason = []\<rparr>
    Intent_kPreferRelay) = None"
  using hd_peer_view_spec [of True Intent_kPreferRelay "[]" "[]" Intent_kPreferDirect]
  by (simp add: Let_def HdApplyPeerPolicyIntent_def)

end
