(* ===== verification/Relay_Table.thy ===== *)
theory Relay_Table
  imports Hd_Protocol
begin

text \<open>
  The relay routing table: \<^verbatim>\<open>include/hyper_derp/hd_relay_table.h\<close> and
  \<^verbatim>\<open>src/hd_relay_table.cc\<close>. Its mutex makes each operation atomic.
\<close>

section \<open>Data\<close>

definition kMaxRelays :: nat where "kMaxRelays = 4096"

record RelayEntry =
  re_relay_id :: u16
  re_fd :: int
  re_key :: Key
  re_name :: bytes \<comment> \<open>\<^verbatim>\<open>char name[64]\<close>\<close>
  re_hops :: u8
  re_next_hop :: u16
  re_occupied :: u8

record RelayTable =
  rt_entries :: "RelayEntry list"
  rt_self_id :: u16
  rt_relay_count :: int

definition RelayEntry_init :: RelayEntry where
  "RelayEntry_init = \<lparr>re_relay_id = 0, re_fd = -1, re_key = zero_Key, re_name = replicate 64 0,
     re_hops = 0, re_next_hop = 0, re_occupied = 0\<rparr>"

section \<open>Operations\<close>

text \<open>
  \<^verbatim>\<open>std::strncpy(name, src, 63); name[63] = '\0';\<close> on the bytes of a C string: the string
  cut at 63 bytes, the rest of the array zero.
\<close>

definition copy_name :: "bytes \<Rightarrow> bytes" where
  "copy_name src = (let s = take 63 (takeWhile (\<lambda>c. c \<noteq> 0) src) in s @ replicate (64 - length s) 0)"

definition RelayTableInit :: "RelayTable \<Rightarrow> u16 \<Rightarrow> RelayTable" where
  "RelayTableInit rt self_id =
     rt\<lparr>rt_entries := replicate kMaxRelays RelayEntry_init, rt_self_id := self_id,
        rt_relay_count := 0\<rparr>"

definition RelayTableAdd ::
  "RelayTable \<Rightarrow> u16 \<Rightarrow> int \<Rightarrow> Key \<Rightarrow> bytes option \<Rightarrow> RelayTable \<times> nat option" where
  "RelayTableAdd rt relay_id fd key name =
     (if relay_id = 0 then (rt, None)
      else (case scan (\<lambda>e. re_occupied e \<noteq> 0 \<and> re_relay_id e = relay_id) (rt_entries rt) of
          Some i \<Rightarrow>
            (let e = (rt_entries rt ! i)\<lparr>re_fd := fd, re_key := key, re_hops := 1,
                        re_next_hop := relay_id\<rparr>;
                 e = (case name of None \<Rightarrow> e | Some s \<Rightarrow> e\<lparr>re_name := copy_name s\<rparr>) in
             (rt\<lparr>rt_entries := (rt_entries rt)[i := e]\<rparr>, Some i))
        | None \<Rightarrow>
            (case scan (\<lambda>e. \<not> re_occupied e \<noteq> 0) (rt_entries rt) of
               None \<Rightarrow> (rt, None)
             | Some i \<Rightarrow>
                 (let e = (rt_entries rt ! i)\<lparr>re_relay_id := relay_id, re_fd := fd, re_key := key,
                             re_hops := 1, re_next_hop := relay_id, re_occupied := 1\<rparr>;
                      e = (case name of None \<Rightarrow> e\<lparr>re_name := (re_name e)[0 := 0]\<rparr>
                           | Some s \<Rightarrow> e\<lparr>re_name := copy_name s\<rparr>) in
                  (rt\<lparr>rt_entries := (rt_entries rt)[i := e],
                      rt_relay_count := rt_relay_count rt + 1\<rparr>, Some i)))))"

definition RelayTableRemove :: "RelayTable \<Rightarrow> u16 \<Rightarrow> RelayTable" where
  "RelayTableRemove rt relay_id =
     (case scan (\<lambda>e. re_occupied e \<noteq> 0 \<and> re_relay_id e = relay_id) (rt_entries rt) of
        None \<Rightarrow> rt
      | Some i \<Rightarrow> rt\<lparr>rt_entries := (rt_entries rt)[i := RelayEntry_init],
                      rt_relay_count := rt_relay_count rt - 1\<rparr>)"

definition RelayTableLookup :: "RelayTable \<Rightarrow> u16 \<Rightarrow> nat option" where
  "RelayTableLookup rt relay_id =
     scan (\<lambda>e. re_occupied e \<noteq> 0 \<and> re_relay_id e = relay_id) (rt_entries rt)"

definition RelayTableUpdateRoute ::
  "RelayTable \<Rightarrow> u16 \<Rightarrow> u8 \<Rightarrow> u16 \<Rightarrow> int \<Rightarrow> RelayTable" where
  "RelayTableUpdateRoute rt relay_id hops next_hop next_hop_fd =
     (if relay_id = 0 \<or> relay_id = rt_self_id rt then rt
      else (case scan (\<lambda>e. re_occupied e \<noteq> 0 \<and> re_relay_id e = relay_id) (rt_entries rt) of
          Some i \<Rightarrow>
            (if hops < re_hops (rt_entries rt ! i)
             then rt\<lparr>rt_entries := (rt_entries rt)[i := (rt_entries rt ! i)
                       \<lparr>re_hops := hops, re_next_hop := next_hop, re_fd := next_hop_fd\<rparr>]\<rparr>
             else rt)
        | None \<Rightarrow>
            (case scan (\<lambda>e. \<not> re_occupied e \<noteq> 0) (rt_entries rt) of
               None \<Rightarrow> rt
             | Some i \<Rightarrow>
                 (let e = (rt_entries rt ! i)\<lparr>re_relay_id := relay_id, re_fd := next_hop_fd,
                             re_hops := hops, re_next_hop := next_hop, re_occupied := 1\<rparr>;
                      e = e\<lparr>re_name := (re_name e)[0 := 0]\<rparr> in
                  rt\<lparr>rt_entries := (rt_entries rt)[i := e],
                     rt_relay_count := rt_relay_count rt + 1\<rparr>))))"

text \<open>The entries the listing loop writes from output index \<open>count\<close> on.\<close>

fun relay_list_loop :: "RelayEntry list \<Rightarrow> int \<Rightarrow> int \<Rightarrow> (u16 \<times> u8) list" where
  "relay_list_loop [] count max_out = []"
| "relay_list_loop (e # es) count max_out =
     (if count < max_out then
        (if re_occupied e \<noteq> 0
         then (re_relay_id e, re_hops e) # relay_list_loop es (count + 1) max_out
         else relay_list_loop es count max_out)
      else [])"

definition RelayTableList :: "RelayTable \<Rightarrow> int \<Rightarrow> (u16 \<times> u8) list \<times> int" where
  "RelayTableList rt max_out =
     (let out = relay_list_loop (rt_entries rt) 0 max_out in (out, int (length out)))"

section \<open>Invariant and abstraction\<close>

abbreviation relay_live :: "RelayEntry \<Rightarrow> bool" where
  "relay_live e \<equiv> re_occupied e \<noteq> 0"

interpretation rel: slot_table relay_live re_relay_id RelayEntry_init
  by unfold_locales (simp add: RelayEntry_init_def)

definition relay_inv :: "RelayTable \<Rightarrow> bool" where
  "relay_inv rt \<longleftrightarrow> length (rt_entries rt) = kMaxRelays \<and>
     slot_uniq relay_live re_relay_id (rt_entries rt) \<and>
     rt_relay_count rt = int (slot_count relay_live (rt_entries rt)) \<and>
     list_all (\<lambda>e. length (re_name e) = 64) (rt_entries rt) \<and>
     list_all (\<lambda>e. relay_live e \<longrightarrow> re_relay_id e \<noteq> 0) (rt_entries rt)"

definition relay_view :: "RelayTable \<Rightarrow> u16 \<Rightarrow> RelayEntry option" where
  "relay_view rt = slot_view relay_live re_relay_id (rt_entries rt)"

lemma RelayTableLookup_find:
  "RelayTableLookup rt k = slot_find relay_live re_relay_id (rt_entries rt) k"
  by (simp add: RelayTableLookup_def slot_find_def)

lemma relay_view_lookup: "relay_view rt k = map_option (\<lambda>i. rt_entries rt ! i) (RelayTableLookup rt k)"
  by (simp add: relay_view_def slot_view_def RelayTableLookup_find)

lemma length_copy_name: "length (copy_name s) = 64"
  by (simp add: copy_name_def Let_def)

lemma relay_lookup_ok:
  "relay_inv rt \<Longrightarrow> RelayTableLookup rt k = Some i \<Longrightarrow>
    i < length (rt_entries rt) \<and> relay_live (rt_entries rt ! i) \<and> re_relay_id (rt_entries rt ! i) = k \<and>
    length (re_name (rt_entries rt ! i)) = 64"
  by (auto simp: RelayTableLookup_find relay_inv_def list_all_length dest: rel.find_SomeD)

lemma relay_modify:
  assumes inv: "relay_inv rt" and f: "RelayTableLookup rt k = Some i"
    and e: "relay_live e" "re_relay_id e = k" "length (re_name e) = 64" "k \<noteq> 0"
  shows "relay_inv (rt\<lparr>rt_entries := (rt_entries rt)[i := e]\<rparr>)"
    and "relay_view (rt\<lparr>rt_entries := (rt_entries rt)[i := e]\<rparr>) = (relay_view rt)(k \<mapsto> e)"
proof -
  have u: "slot_uniq relay_live re_relay_id (rt_entries rt)" using inv by (simp add: relay_inv_def)
  note m = rel.modify_slot [OF u f [unfolded RelayTableLookup_find] e(1,2)]
  from m(1,3) inv e show "relay_inv (rt\<lparr>rt_entries := (rt_entries rt)[i := e]\<rparr>)"
    by (simp add: relay_inv_def list_all_update)
  from m(2) show "relay_view (rt\<lparr>rt_entries := (rt_entries rt)[i := e]\<rparr>) = (relay_view rt)(k \<mapsto> e)"
    by (simp add: relay_view_def)
qed

lemma relay_add_slot:
  assumes inv: "relay_inv rt" and n: "relay_view rt k = None" and i: "scan (\<lambda>e. \<not> relay_live e) (rt_entries rt) = Some i"
    and e: "relay_live e" "re_relay_id e = k" "length (re_name e) = 64" "k \<noteq> 0"
  defines "rt' \<equiv> rt\<lparr>rt_entries := (rt_entries rt)[i := e], rt_relay_count := rt_relay_count rt + 1\<rparr>"
  shows "relay_inv rt'" and "relay_view rt' = (relay_view rt)(k \<mapsto> e)"
proof -
  have u: "slot_uniq relay_live re_relay_id (rt_entries rt)" using inv by (simp add: relay_inv_def)
  have il: "i < length (rt_entries rt)" "\<not> relay_live (rt_entries rt ! i)" using i by (auto dest: scan_SomeD)
  have none: "slot_find relay_live re_relay_id (rt_entries rt) (re_relay_id e) = None"
    using n e by (simp add: relay_view_lookup RelayTableLookup_find)
  note m = rel.add_slot [OF u il e(1) none]
  from m(1,3) inv e show "relay_inv rt'" by (simp add: relay_inv_def rt'_def list_all_update)
  from m(2) e show "relay_view rt' = (relay_view rt)(k \<mapsto> e)" by (simp add: relay_view_def rt'_def)
qed

lemma relay_free_name:
  "relay_inv rt \<Longrightarrow> scan (\<lambda>e. \<not> relay_live e) (rt_entries rt) = Some i \<Longrightarrow>
    length (re_name (rt_entries rt ! i)) = 64"
  by (auto simp: relay_inv_def list_all_length dest: scan_SomeD)

lemma RelayTableInit_inv:
  "relay_inv (RelayTableInit rt self)" "relay_view (RelayTableInit rt self) = Map.empty"
  using rel.blank_table [of kMaxRelays]
  by (simp_all add: relay_inv_def relay_view_def RelayTableInit_def list_all_iff RelayEntry_init_def)

lemma RelayTableRemove_spec:
  assumes inv: "relay_inv rt"
  shows "relay_inv (RelayTableRemove rt k)" "relay_view (RelayTableRemove rt k) = (relay_view rt)(k := None)"
proof -
  have u: "slot_uniq relay_live re_relay_id (rt_entries rt)" using inv by (simp add: relay_inv_def)
  have "relay_inv (RelayTableRemove rt k) \<and> relay_view (RelayTableRemove rt k) = (relay_view rt)(k := None)"
  proof (cases "RelayTableLookup rt k")
    case None
    with inv show ?thesis
      by (auto simp: RelayTableRemove_def RelayTableLookup_def relay_view_lookup fun_eq_iff)
  next
    case (Some i)
    have dead: "\<not> relay_live RelayEntry_init" by (rule rel.blank_dead)
    note m = rel.kill_slot [OF u Some [unfolded RelayTableLookup_find] dead]
    from m inv Some show ?thesis
      by (auto simp: RelayTableRemove_def RelayTableLookup_def relay_inv_def relay_view_def
          RelayEntry_init_def intro!: list_all_update)
  qed
  then show "relay_inv (RelayTableRemove rt k)" "relay_view (RelayTableRemove rt k) = (relay_view rt)(k := None)"
    by simp_all
qed

interpretation rreg: removable_registry relay_inv relay_view rt_relay_count
  "\<lambda>k rt. RelayTableRemove rt k"
proof unfold_locales
  fix rt :: RelayTable
  assume "relay_inv rt"
  then show "finite (dom (relay_view rt)) \<and> rt_relay_count rt = int (card (dom (relay_view rt)))"
    using rel.count_card [of "rt_entries rt"] by (simp add: relay_inv_def relay_view_def)
qed (simp_all add: RelayTableRemove_spec)

section \<open>Adding neighbours and learning routes\<close>

lemma relay_full_iff:
  "relay_inv rt \<Longrightarrow> scan (\<lambda>e. \<not> relay_live e) (rt_entries rt) = None \<longleftrightarrow>
    card (dom (relay_view rt)) = kMaxRelays"
  using slot_free_None_iff [of relay_live "rt_entries rt"] rreg.count_view [of rt]
  by (auto simp: relay_inv_def)

text \<open>The route an announcement offers, as the entry stored for it shows it.\<close>

definition route_of :: "RelayEntry \<Rightarrow> u8 \<times> u16 \<times> int" where
  "route_of e = (re_hops e, re_next_hop e, re_fd e)"

lemma RelayTableAdd_spec:
  assumes inv: "relay_inv rt" and k: "k \<noteq> 0"
  shows "if relay_view rt k = None \<and> card (dom (relay_view rt)) = kMaxRelays
    then RelayTableAdd rt k fd key name = (rt, None)
    else \<exists>rt' i e. RelayTableAdd rt k fd key name = (rt', Some i) \<and> relay_inv rt' \<and>
      relay_view rt' = (relay_view rt)(k \<mapsto> e) \<and> rt_self_id rt' = rt_self_id rt \<and>
      re_key e = key \<and> route_of e = (1, k, fd)"
proof (cases "RelayTableLookup rt k")
  case (Some i)
  define e0 where "e0 = (rt_entries rt ! i)\<lparr>re_fd := fd, re_key := key, re_hops := 1, re_next_hop := k\<rparr>"
  define e where "e = (case name of None \<Rightarrow> e0 | Some s \<Rightarrow> e0\<lparr>re_name := copy_name s\<rparr>)"
  have e: "relay_live e" "re_relay_id e = k" "length (re_name e) = 64"
    using relay_lookup_ok [OF inv Some] by (auto simp: e_def e0_def length_copy_name split: option.split)
  have call: "RelayTableAdd rt k fd key name = (rt\<lparr>rt_entries := (rt_entries rt)[i := e]\<rparr>, Some i)"
    using k Some unfolding RelayTableAdd_def RelayTableLookup_def Let_def e_def e0_def by simp
  have "re_key e = key" "route_of e = (1, k, fd)"
    by (simp_all add: e_def e0_def route_of_def split: option.split)
  with call relay_modify [OF inv Some e k] Some show ?thesis by (auto simp: relay_view_lookup [of rt k])
next
  case None
  then have nv: "relay_view rt k = None" by (simp add: relay_view_lookup)
  show ?thesis
  proof (cases "scan (\<lambda>e. \<not> relay_live e) (rt_entries rt)")
    case None
    with relay_full_iff [OF inv] nv k \<open>RelayTableLookup rt k = None\<close> show ?thesis
      by (simp add: RelayTableAdd_def RelayTableLookup_def)
  next
    case (Some i)
    define e0 where "e0 = (rt_entries rt ! i)\<lparr>re_relay_id := k, re_fd := fd, re_key := key,
        re_hops := 1, re_next_hop := k, re_occupied := 1\<rparr>"
    define e where "e = (case name of None \<Rightarrow> e0\<lparr>re_name := (re_name e0)[0 := 0]\<rparr>
        | Some s \<Rightarrow> e0\<lparr>re_name := copy_name s\<rparr>)"
    have e: "relay_live e" "re_relay_id e = k" "length (re_name e) = 64"
      using relay_free_name [OF inv Some]
      by (auto simp: e_def e0_def length_copy_name split: option.split)
    have call: "RelayTableAdd rt k fd key name =
        (rt\<lparr>rt_entries := (rt_entries rt)[i := e], rt_relay_count := rt_relay_count rt + 1\<rparr>, Some i)"
      using k Some \<open>RelayTableLookup rt k = None\<close>
      unfolding RelayTableAdd_def RelayTableLookup_def Let_def e_def e0_def by simp
    have "re_key e = key" "route_of e = (1, k, fd)"
      by (simp_all add: e_def e0_def route_of_def split: option.split)
    with call relay_add_slot [OF inv nv Some e k] Some relay_full_iff [OF inv] show ?thesis by auto
  qed
qed

lemma RelayTableUpdateRoute_ignored:
  "k = 0 \<or> k = rt_self_id rt \<Longrightarrow> RelayTableUpdateRoute rt k h nh fd = rt"
  by (auto simp: RelayTableUpdateRoute_def)

lemma RelayTableUpdateRoute_known:
  assumes inv: "relay_inv rt" and k: "k \<noteq> 0" "k \<noteq> rt_self_id rt" and v: "relay_view rt k = Some e"
  shows "relay_inv (RelayTableUpdateRoute rt k h nh fd)"
    and "relay_view (RelayTableUpdateRoute rt k h nh fd) = (relay_view rt)(k \<mapsto>
      (if h < re_hops e then e\<lparr>re_hops := h, re_next_hop := nh, re_fd := fd\<rparr> else e))"
proof -
  from v obtain i where i: "RelayTableLookup rt k = Some i" "rt_entries rt ! i = e"
    by (auto simp: relay_view_lookup)
  let ?e = "e\<lparr>re_hops := h, re_next_hop := nh, re_fd := fd\<rparr>"
  have e: "relay_live ?e" "re_relay_id ?e = k" "length (re_name ?e) = 64"
    using relay_lookup_ok [OF inv i(1)] i by auto
  have call: "RelayTableUpdateRoute rt k h nh fd =
      (if h < re_hops e then rt\<lparr>rt_entries := (rt_entries rt)[i := ?e]\<rparr> else rt)"
    using k i by (simp add: RelayTableUpdateRoute_def RelayTableLookup_def)
  note m = relay_modify [OF inv i(1) e k(1)]
  show "relay_inv (RelayTableUpdateRoute rt k h nh fd)" using call m inv by simp
  show "relay_view (RelayTableUpdateRoute rt k h nh fd) = (relay_view rt)(k \<mapsto>
      (if h < re_hops e then ?e else e))"
    using call m v by (auto simp: fun_eq_iff)
qed

lemma RelayTableUpdateRoute_new:
  assumes inv: "relay_inv rt" and k: "k \<noteq> 0" "k \<noteq> rt_self_id rt" and v: "relay_view rt k = None"
  shows "if card (dom (relay_view rt)) = kMaxRelays then RelayTableUpdateRoute rt k h nh fd = rt
    else \<exists>e. relay_inv (RelayTableUpdateRoute rt k h nh fd) \<and>
      relay_view (RelayTableUpdateRoute rt k h nh fd) = (relay_view rt)(k \<mapsto> e) \<and>
      route_of e = (h, nh, fd)"
proof (cases "scan (\<lambda>e. \<not> relay_live e) (rt_entries rt)")
  case None
  with relay_full_iff [OF inv] v k show ?thesis
    by (simp add: RelayTableUpdateRoute_def relay_view_lookup RelayTableLookup_def)
next
  case (Some i)
  define e0 where "e0 = (rt_entries rt ! i)\<lparr>re_relay_id := k, re_fd := fd, re_hops := h,
      re_next_hop := nh, re_occupied := 1\<rparr>"
  define e where "e = e0\<lparr>re_name := (re_name e0)[0 := 0]\<rparr>"
  have e: "relay_live e" "re_relay_id e = k" "length (re_name e) = 64"
    using relay_free_name [OF inv Some] by (auto simp: e_def e0_def)
  have call: "RelayTableUpdateRoute rt k h nh fd =
      rt\<lparr>rt_entries := (rt_entries rt)[i := e], rt_relay_count := rt_relay_count rt + 1\<rparr>"
    using k Some v unfolding e_def e0_def
    by (simp add: RelayTableUpdateRoute_def relay_view_lookup RelayTableLookup_def Let_def)
  have "route_of e = (h, nh, fd)" by (simp add: e_def e0_def route_of_def)
  with call relay_add_slot [OF inv v Some e k(1)] Some relay_full_iff [OF inv] show ?thesis by auto
qed

lemma RelayTableUpdateRoute_self [simp]:
  "rt_self_id (RelayTableUpdateRoute rt k h nh fd) = rt_self_id rt"
  by (simp add: RelayTableUpdateRoute_def Let_def split: option.split)

lemma RelayTableUpdateRoute_inv: "relay_inv rt \<Longrightarrow> relay_inv (RelayTableUpdateRoute rt k h nh fd)"
  using RelayTableUpdateRoute_ignored [of k rt] RelayTableUpdateRoute_known(1) [of rt k _ h nh fd]
    RelayTableUpdateRoute_new [of rt k h nh fd]
  by (cases "k = 0 \<or> k = rt_self_id rt"; cases "relay_view rt k") (auto split: if_splits)

text \<open>What one update does to the routes: none gets worse, and a changed one is the one offered.\<close>

lemma RelayTableUpdateRoute_cases:
  assumes inv: "relay_inv rt"
  obtains (kept) "relay_view (RelayTableUpdateRoute rt k h nh fd) = relay_view rt"
    "k = 0 \<or> k = rt_self_id rt \<or> card (dom (relay_view rt)) = kMaxRelays \<or>
     (\<exists>e. relay_view rt k = Some e \<and> re_hops e \<le> h)"
  | (taken) e' where "relay_view (RelayTableUpdateRoute rt k h nh fd) = (relay_view rt)(k \<mapsto> e')"
    "route_of e' = (h, nh, fd)" "\<And>e. relay_view rt k = Some e \<Longrightarrow> h < re_hops e"
proof (cases "k = 0 \<or> k = rt_self_id rt")
  case True
  with kept RelayTableUpdateRoute_ignored [of k rt h nh fd] show ?thesis by metis
next
  case False
  show ?thesis
  proof (cases "relay_view rt k")
    case None
    then show ?thesis using RelayTableUpdateRoute_new [OF inv _ _ None, of h nh fd] False kept taken
      by (auto split: if_splits)
  next
    case (Some e)
    then show ?thesis using RelayTableUpdateRoute_known(2) [OF inv _ _ Some, of h nh fd] False kept
        taken [of "e\<lparr>re_hops := h, re_next_hop := nh, re_fd := fd\<rparr>"]
      by (cases "h < re_hops e") (auto simp: route_of_def fun_upd_idem not_less)
  qed
qed

lemma RelayTableUpdateRoute_view:
  assumes inv: "relay_inv rt"
  shows "relay_view rt j = Some e \<Longrightarrow> \<exists>e'. relay_view (RelayTableUpdateRoute rt k h nh fd) j = Some e' \<and> re_hops e' \<le> re_hops e"
    and "relay_view (RelayTableUpdateRoute rt k h nh fd) j = Some e' \<Longrightarrow>
      (\<exists>e. relay_view rt j = Some e \<and> route_of e = route_of e') \<or> j = k \<and> route_of e' = (h, nh, fd)"
    and "k \<noteq> 0 \<Longrightarrow> k \<noteq> rt_self_id rt \<Longrightarrow> card (dom (relay_view (RelayTableUpdateRoute rt k h nh fd))) \<noteq> kMaxRelays \<Longrightarrow>
      \<exists>e'. relay_view (RelayTableUpdateRoute rt k h nh fd) k = Some e' \<and> re_hops e' \<le> h"
  by (cases rule: RelayTableUpdateRoute_cases [OF inv, of k h nh fd];
      auto simp: route_of_def order_less_imp_le split: if_splits)+

text \<open>A run of announcements about one relay.\<close>

definition learn :: "u16 \<Rightarrow> (u8 \<times> u16 \<times> int) list \<Rightarrow> RelayTable \<Rightarrow> RelayTable" where
  "learn k = fold (\<lambda>(h, nh, fd) rt. RelayTableUpdateRoute rt k h nh fd)"

lemma learn_Cons: "learn k ((h, nh, fd) # rs) rt = learn k rs (RelayTableUpdateRoute rt k h nh fd)"
  by (simp add: learn_def)

lemma learn_known:
  assumes "relay_inv rt" "k \<noteq> 0" "k \<noteq> rt_self_id rt" "relay_view rt k = Some e"
  shows "\<exists>e'. relay_view (learn k rs rt) k = Some e' \<and> route_of e' \<in> insert (route_of e) (set rs) \<and>
    re_hops e' = Min (insert (re_hops e) (fst ` set rs)) \<and>
    (\<forall>j. j \<noteq> k \<longrightarrow> relay_view (learn k rs rt) j = relay_view rt j)"
  using assms
proof (induction rs arbitrary: rt e)
  case Nil
  then show ?case by (simp add: learn_def)
next
  case (Cons r rs)
  obtain h nh fd where r: "r = (h, nh, fd)" by (cases r)
  define e1 where "e1 = (if h < re_hops e then e\<lparr>re_hops := h, re_next_hop := nh, re_fd := fd\<rparr> else e)"
  let ?rt = "RelayTableUpdateRoute rt k h nh fd"
  note kn = RelayTableUpdateRoute_known [OF Cons.prems, of h nh fd, folded e1_def]
  have "relay_view ?rt k = Some e1" by (simp add: kn(2))
  from Cons.IH [OF kn(1) Cons.prems(2) _ this] Cons.prems(3)
  obtain e' where e': "relay_view (learn k rs ?rt) k = Some e'"
    "route_of e' \<in> insert (route_of e1) (set rs)"
    "re_hops e' = Min (insert (re_hops e1) (fst ` set rs))"
    "\<forall>j. j \<noteq> k \<longrightarrow> relay_view (learn k rs ?rt) j = relay_view ?rt j" by auto
  have "route_of e1 \<in> {route_of e, r}" "re_hops e1 = min h (re_hops e)"
    by (auto simp: e1_def r route_of_def min_def)
  moreover have "min (min a b) (Min S) = Min (insert a (insert b S))" if "finite S" "S \<noteq> {}" for a b :: u8 and S
    using that by (simp add: min.assoc)
  ultimately have "re_hops e' = Min (insert (re_hops e) (fst ` set (r # rs)))"
    using e'(3) by (cases "rs = []") (auto simp: r min.commute min.left_commute min.assoc)
  with e' kn(2) \<open>route_of e1 \<in> {route_of e, r}\<close> show ?case
    by (auto simp: r learn_Cons)
qed

section \<open>Properties\<close>

text \<open>
  C24: The relay table refines a finite map from relay ids to entries. Adding a neighbour refuses
  id 0 and a full table and otherwise stores a one-hop route over its socket; an announcement
  about id 0 or the relay itself is ignored, a known relay's route is replaced exactly when the
  announced hop count is strictly lower, an unknown relay is added unless the table is full;
  removal deletes the entry of that id and nothing else, so routes learned through a removed
  relay stay; every operation keeps the invariant (unique non-zero ids, exact counter).
\<close>

theorem relay_table_refines_map:
  assumes inv: "relay_inv rt"
  shows "RelayTableAdd rt 0 fd key name = (rt, None) \<and>
    (k \<noteq> 0 \<longrightarrow> (if relay_view rt k = None \<and> card (dom (relay_view rt)) = kMaxRelays
      then RelayTableAdd rt k fd key name = (rt, None)
      else \<exists>rt' i e. RelayTableAdd rt k fd key name = (rt', Some i) \<and> relay_inv rt' \<and>
        relay_view rt' = (relay_view rt)(k \<mapsto> e) \<and> re_key e = key \<and> route_of e = (1, k, fd))) \<and>
    relay_inv (RelayTableUpdateRoute rt k h nh fd) \<and>
    (k = 0 \<or> k = rt_self_id rt \<longrightarrow> RelayTableUpdateRoute rt k h nh fd = rt) \<and>
    (k \<noteq> 0 \<and> k \<noteq> rt_self_id rt \<longrightarrow>
      (case relay_view rt k of
         Some e \<Rightarrow> relay_view (RelayTableUpdateRoute rt k h nh fd) = (relay_view rt)(k \<mapsto>
           (if h < re_hops e then e\<lparr>re_hops := h, re_next_hop := nh, re_fd := fd\<rparr> else e))
       | None \<Rightarrow> if card (dom (relay_view rt)) = kMaxRelays
           then RelayTableUpdateRoute rt k h nh fd = rt
           else \<exists>e. relay_view (RelayTableUpdateRoute rt k h nh fd) = (relay_view rt)(k \<mapsto> e) \<and>
             route_of e = (h, nh, fd))) \<and>
    relay_inv (RelayTableRemove rt k) \<and>
    relay_view (RelayTableRemove rt k) = (relay_view rt)(k := None) \<and>
    rt_relay_count rt = int (card (dom (relay_view rt)))"
proof (intro conjI impI)
  show "RelayTableAdd rt 0 fd key name = (rt, None)" by (simp add: RelayTableAdd_def)
  show "if relay_view rt k = None \<and> card (dom (relay_view rt)) = kMaxRelays
      then RelayTableAdd rt k fd key name = (rt, None)
      else \<exists>rt' i e. RelayTableAdd rt k fd key name = (rt', Some i) \<and> relay_inv rt' \<and>
        relay_view rt' = (relay_view rt)(k \<mapsto> e) \<and> re_key e = key \<and> route_of e = (1, k, fd)"
    if "k \<noteq> 0"
    using RelayTableAdd_spec [OF inv that, of fd key name] by (auto split: if_splits)
  show "relay_inv (RelayTableUpdateRoute rt k h nh fd)" by (rule RelayTableUpdateRoute_inv [OF inv])
  show "RelayTableUpdateRoute rt k h nh fd = rt" if "k = 0 \<or> k = rt_self_id rt"
    by (rule RelayTableUpdateRoute_ignored [OF that])
  show "case relay_view rt k of
         Some e \<Rightarrow> relay_view (RelayTableUpdateRoute rt k h nh fd) = (relay_view rt)(k \<mapsto>
           (if h < re_hops e then e\<lparr>re_hops := h, re_next_hop := nh, re_fd := fd\<rparr> else e))
       | None \<Rightarrow> if card (dom (relay_view rt)) = kMaxRelays
           then RelayTableUpdateRoute rt k h nh fd = rt
           else \<exists>e. relay_view (RelayTableUpdateRoute rt k h nh fd) = (relay_view rt)(k \<mapsto> e) \<and>
             route_of e = (h, nh, fd)" if "k \<noteq> 0 \<and> k \<noteq> rt_self_id rt"
    using that RelayTableUpdateRoute_known(2) [OF inv, of k _ h nh fd]
      RelayTableUpdateRoute_new [OF inv, of k h nh fd]
    by (auto split: option.split if_splits)
  show "relay_inv (RelayTableRemove rt k)" "relay_view (RelayTableRemove rt k) = (relay_view rt)(k := None)"
    by (rule RelayTableRemove_spec [OF inv])+
  show "rt_relay_count rt = int (card (dom (relay_view rt)))" using rreg.count_view [OF inv] by simp
qed

definition example_table :: RelayTable where
  "example_table = RelayTableInit \<lparr>rt_entries = [], rt_self_id = 0, rt_relay_count = 0\<rparr> 1"

theorem relay_table_refines_map_witness:
  "\<exists>e. relay_view (RelayTableUpdateRoute example_table 5 3 2 9) = [5 \<mapsto> e] \<and> route_of e = (3, 2, 9)"
proof -
  have i: "relay_inv example_table" and v: "relay_view example_table = Map.empty"
    by (simp_all add: example_table_def RelayTableInit_inv)
  have "rt_self_id example_table = 1" by (simp add: example_table_def RelayTableInit_def)
  then show ?thesis
    using relay_table_refines_map [OF i, where k = 5 and h = 3 and nh = 2 and fd = 9] v
    by (simp add: kMaxRelays_def)
qed

text \<open>
  C15: Learned routes converge to the best offer: after any sequence of announcements about a
  relay the table knows, the stored hop count is the minimum of the initial one and all
  announced ones, the stored route (hops, next hop, socket) is one that was offered, and no
  other relay's entry changed.
\<close>

theorem relay_routes_converge:
  assumes "relay_inv rt" "k \<noteq> 0" "k \<noteq> rt_self_id rt" "relay_view rt k = Some e"
  shows "\<exists>e'. relay_view (fold (\<lambda>(h, nh, fd) rt. RelayTableUpdateRoute rt k h nh fd) rs rt) k = Some e' \<and>
    route_of e' \<in> insert (route_of e) (set rs) \<and>
    re_hops e' = Min (insert (re_hops e) (fst ` set rs)) \<and>
    (\<forall>j. j \<noteq> k \<longrightarrow>
       relay_view (fold (\<lambda>(h, nh, fd) rt. RelayTableUpdateRoute rt k h nh fd) rs rt) j = relay_view rt j)"
  using learn_known [OF assms, of rs] unfolding learn_def .

theorem relay_routes_converge_witness:
  "\<exists>e'. relay_view (fold (\<lambda>(h, nh, fd) rt. RelayTableUpdateRoute rt 5 h nh fd) [(2, 7, 4), (6, 8, 3)]
      (RelayTableUpdateRoute example_table 5 3 2 9)) 5 = Some e' \<and> re_hops e' = 2"
proof -
  have i: "relay_inv example_table" and v: "relay_view example_table = Map.empty"
    and s: "rt_self_id example_table = 1"
    by (simp_all add: example_table_def RelayTableInit_inv) (simp add: RelayTableInit_def)
  obtain e where e: "relay_view (RelayTableUpdateRoute example_table 5 3 2 9) 5 = Some e" "re_hops e = 3"
    using RelayTableUpdateRoute_new [OF i, of 5 3 2 9] v s by (auto simp: kMaxRelays_def route_of_def)
  have "relay_inv (RelayTableUpdateRoute example_table 5 3 2 9)" by (rule RelayTableUpdateRoute_inv [OF i])
  from relay_routes_converge [OF this _ _ e(1), of "[(2, 7, 4), (6, 8, 3)]"] e(2) s
  show ?thesis by (auto simp: min_def)
qed

end
