(* ===== verification/Probe_Table.thy ===== *)
theory Probe_Table
  imports HD_Prelude
begin

text \<open>
  Open addressing with tombstones, the scheme of the data plane's peer and route tables
  (\<^verbatim>\<open>HtFind\<close> and \<^verbatim>\<open>RouteFind\<close> of \<^verbatim>\<open>src/data_plane.cc\<close>), as a locale: the probe loop, the
  invariant that makes it complete, and what lookups, stores and removals through it do to the
  map the table stands for.
\<close>

text \<open>
  The probe loop over the remaining slots of the probe sequence, with the first tombstone seen
  so far. An empty slot or the end of the sequence yields that tombstone if there is one.
\<close>

fun probe_loop ::
  "('e \<Rightarrow> bool) \<Rightarrow> ('e \<Rightarrow> bool) \<Rightarrow> ('e \<Rightarrow> 'k) \<Rightarrow> 'e list \<Rightarrow> 'k \<Rightarrow> nat list \<Rightarrow> nat option \<Rightarrow> nat option" where
  "probe_loop is_empty is_tomb key_of es key [] tomb = tomb"
| "probe_loop is_empty is_tomb key_of es key (idx # idxs) tomb =
     (if is_empty (es ! idx) then (case tomb of Some t \<Rightarrow> Some t | None \<Rightarrow> Some idx)
      else if is_tomb (es ! idx) then
        probe_loop is_empty is_tomb key_of es key idxs
          (case tomb of Some t \<Rightarrow> Some t | None \<Rightarrow> Some idx)
      else if key_of (es ! idx) = key then Some idx
      else probe_loop is_empty is_tomb key_of es key idxs tomb)"

locale open_addressing =
  fixes is_empty :: "'e \<Rightarrow> bool" and is_tomb :: "'e \<Rightarrow> bool" and key_of :: "'e \<Rightarrow> 'k"
    and blank :: 'e and seq :: "'k \<Rightarrow> nat list" and cap :: nat
  assumes blank_empty: "is_empty blank"
    and seq_covers: "set (seq k) = {0..<cap}"

sublocale open_addressing \<subseteq> st: slot_table "\<lambda>e. \<not> is_empty e \<and> \<not> is_tomb e" key_of blank
  by unfold_locales (simp add: blank_empty)

context open_addressing
begin

abbreviation "live e \<equiv> \<not> is_empty e \<and> \<not> is_tomb e"
abbreviation "probe es k \<equiv> probe_loop is_empty is_tomb key_of es k (seq k) None"
abbreviation "view es \<equiv> slot_view (\<lambda>e. \<not> is_empty e \<and> \<not> is_tomb e) key_of es"

text \<open>
  Every live entry is reached by the probe sequence of its key before any empty slot, and no two
  live entries share a key.
\<close>

definition table_inv :: "'e list \<Rightarrow> bool" where
  "table_inv es \<longleftrightarrow> length es = cap \<and>
     slot_uniq (\<lambda>e. \<not> is_empty e \<and> \<not> is_tomb e) key_of es \<and>
     (\<forall>j < cap. live (es ! j) \<longrightarrow>
        (\<exists>pre post. seq (key_of (es ! j)) = pre @ j # post \<and> (\<forall>i \<in> set pre. \<not> is_empty (es ! i))))"

lemma blank_inv: "table_inv (replicate cap blank)"
  using st.blank_table(1) [of cap] blank_empty by (auto simp: table_inv_def)

lemma probe_hit:
  assumes "\<forall>i \<in> set pre. \<not> is_empty (es ! i) \<and> \<not> (live (es ! i) \<and> key_of (es ! i) = k)"
    and "live (es ! j)" "key_of (es ! j) = k"
  shows "probe_loop is_empty is_tomb key_of es k (pre @ j # post) tomb = Some j"
  using assms by (induction pre arbitrary: tomb) auto

lemma probe_miss:
  assumes "\<forall>i \<in> set idxs. \<not> (live (es ! i) \<and> key_of (es ! i) = k)"
  shows "case probe_loop is_empty is_tomb key_of es k idxs tomb of
      None \<Rightarrow> tomb = None \<and> (\<forall>i \<in> set idxs. live (es ! i))
    | Some t \<Rightarrow> tomb = Some t \<or> tomb = None \<and>
        (\<exists>pre post. idxs = pre @ t # post \<and> \<not> live (es ! t) \<and> (\<forall>i \<in> set pre. \<not> is_empty (es ! i)))"
  using assms
proof (induction idxs arbitrary: tomb)
  case Nil
  then show ?case by (cases tomb) auto
next
  case (Cons idx idxs)
  show ?case
  proof (cases "is_empty (es ! idx)")
    case True
    then show ?thesis by (cases tomb) (auto intro: exI [of _ "[]"])
  next
    case ne: False
    show ?thesis
    proof (cases "is_tomb (es ! idx)")
      case True
      have "tomb = None \<Longrightarrow> \<exists>pre post. idx # idxs = pre @ idx # post \<and> \<not> live (es ! idx) \<and>
          (\<forall>i \<in> set pre. \<not> is_empty (es ! i))"
        using True by (intro exI [of _ "[]"] exI [of _ idxs]) auto
      with ne True Cons.IH [of "case tomb of Some t \<Rightarrow> Some t | None \<Rightarrow> Some idx"] Cons.prems
      show ?thesis by (cases tomb) (auto split: option.splits)
    next
      case False
      have step: "probe_loop is_empty is_tomb key_of es k (idx # idxs) tomb =
          probe_loop is_empty is_tomb key_of es k idxs tomb"
        using False ne Cons.prems by auto
      have "idxs = pre @ t # post \<Longrightarrow> \<forall>i \<in> set pre. \<not> is_empty (es ! i) \<Longrightarrow>
          \<exists>pre' post'. idx # idxs = pre' @ t # post' \<and> (\<forall>i \<in> set pre'. \<not> is_empty (es ! i))" for t pre post
        using ne by (intro exI [of _ "idx # pre"] exI [of _ post]) auto
      with Cons.IH [of tomb] Cons.prems ne False show ?thesis
        unfolding step by (fastforce split: option.splits)
    qed
  qed
qed

lemma probe_present:
  assumes inv: "table_inv es" and v: "view es k = Some e"
  shows "\<exists>j < cap. probe es k = Some j \<and> es ! j = e \<and> live e \<and> key_of e = k \<and>
    slot_find (\<lambda>e. \<not> is_empty e \<and> \<not> is_tomb e) key_of es k = Some j"
proof -
  from v obtain j where j: "slot_find (\<lambda>e. \<not> is_empty e \<and> \<not> is_tomb e) key_of es k = Some j" "es ! j = e"
    by (auto simp: slot_view_def)
  then have l: "j < cap" "live e" "key_of e = k"
    using st.find_SomeD [OF j(1)] inv by (auto simp: table_inv_def)
  with inv j obtain pre post where s: "seq k = pre @ j # post" "\<forall>i \<in> set pre. \<not> is_empty (es ! i)"
    by (auto simp: table_inv_def)
  show ?thesis
  proof (cases "\<exists>i \<in> set pre. live (es ! i) \<and> key_of (es ! i) = k")
    case False
    with s have "probe es k = Some j" using probe_hit [of pre es k j post None] j l by auto
    with j l show ?thesis by blast
  next
    case True
    from split_list_first_prop [OF True]
    obtain p1 i p2 where p: "pre = p1 @ i # p2" "live (es ! i)" "key_of (es ! i) = k"
      "\<forall>i' \<in> set p1. \<not> (live (es ! i') \<and> key_of (es ! i') = k)"
      by blast
    have "i < cap" using seq_covers [of k] s p by auto
    then have "i = j"
      using st.find_uniq [of es i k] inv p j by (auto simp: table_inv_def)
    moreover have "probe es k = Some i"
      using probe_hit [of p1 es k i "p2 @ j # post" None] p s by auto
    ultimately show ?thesis using j l by blast
  qed
qed

lemma probe_absent:
  assumes inv: "table_inv es" and v: "view es k = None"
  shows "case probe es k of
      None \<Rightarrow> slot_count (\<lambda>e. \<not> is_empty e \<and> \<not> is_tomb e) es = cap
    | Some t \<Rightarrow> t < cap \<and> \<not> live (es ! t) \<and>
        (\<exists>pre post. seq k = pre @ t # post \<and> (\<forall>i \<in> set pre. \<not> is_empty (es ! i)))"
proof -
  from v inv have none: "\<forall>i \<in> set (seq k). \<not> (live (es ! i) \<and> key_of (es ! i) = k)"
    by (auto simp: st.view_None_iff seq_covers table_inv_def)
  from probe_miss [OF none, of None] seq_covers [of k] inv show ?thesis
    by (auto simp: table_inv_def slot_count_def all_set_conv_all_nth
        filter_id_conv split: option.splits intro!: arg_cong [of _ _ length] filter_True)
qed

lemma inv_update:
  assumes inv: "table_inv es" and t: "t < cap" and u: "slot_uniq (\<lambda>e. \<not> is_empty e \<and> \<not> is_tomb e) key_of (es[t := e])"
    and e: "\<not> is_empty e"
    and p: "live e \<Longrightarrow> \<exists>pre post. seq (key_of e) = pre @ t # post \<and> (\<forall>i \<in> set pre. \<not> is_empty (es ! i))"
  shows "table_inv (es[t := e])"
  unfolding table_inv_def
proof (intro conjI allI impI u)
  show "length (es[t := e]) = cap" using inv by (simp add: table_inv_def)
  fix j
  assume j: "j < cap" "live (es[t := e] ! j)"
  have mono: "\<not> is_empty (es ! i) \<Longrightarrow> \<not> is_empty (es[t := e] ! i)" for i
    using e t inv by (cases "i = t") (auto simp: table_inv_def)
  have "\<exists>pre post. seq (key_of (es[t := e] ! j)) = pre @ j # post \<and> (\<forall>i \<in> set pre. \<not> is_empty (es ! i))"
    using j t inv p by (cases "j = t") (auto simp: table_inv_def)
  with mono show "\<exists>pre post. seq (key_of (es[t := e] ! j)) = pre @ j # post \<and>
      (\<forall>i \<in> set pre. \<not> is_empty (es[t := e] ! i))" by meson
qed

lemma store:
  assumes inv: "table_inv es" and f: "probe es k = Some t" and e: "live e" "key_of e = k"
  shows "table_inv (es[t := e])" and "view (es[t := e]) = (view es)(k \<mapsto> e)"
proof -
  let ?l = "\<lambda>e. \<not> is_empty e \<and> \<not> is_tomb e"
  have u: "slot_uniq ?l key_of es" and len: "length es = cap" using inv by (simp_all add: table_inv_def)
  have "table_inv (es[t := e]) \<and> view (es[t := e]) = (view es)(k \<mapsto> e)"
  proof (cases "view es k")
    case (Some e0)
    with probe_present [OF inv Some] f have t: "t < cap" "slot_find ?l key_of es k = Some t" "live (es ! t)"
      "key_of (es ! t) = k" by auto
    note m = st.modify_slot [OF u t(2) e]
    have "\<exists>pre post. seq (key_of e) = pre @ t # post \<and> (\<forall>i \<in> set pre. \<not> is_empty (es ! i))"
      using inv t e by (auto simp: table_inv_def)
    with inv_update [OF inv t(1) m(1)] e m(2) show ?thesis by blast
  next
    case None
    with probe_absent [OF inv None] f have t: "t < cap" "\<not> live (es ! t)"
      "\<exists>pre post. seq k = pre @ t # post \<and> (\<forall>i \<in> set pre. \<not> is_empty (es ! i))" by auto
    have free: "slot_find ?l key_of es (key_of e) = None"
      using None e by (simp add: slot_view_def)
    have tl: "t < length es" using t len by simp
    note m = st.add_slot [OF u tl t(2) e(1) free]
    with inv_update [OF inv t(1) m(1)] t(3) e show ?thesis by blast
  qed
  then show "table_inv (es[t := e])" "view (es[t := e]) = (view es)(k \<mapsto> e)" by simp_all
qed

lemma bury:
  assumes inv: "table_inv es" and f: "probe es k = Some t" "live (es ! t)" "key_of (es ! t) = k"
    and e: "\<not> is_empty e" "is_tomb e"
  shows "table_inv (es[t := e])" and "view (es[t := e]) = (view es)(k := None)"
    and "Suc (slot_count (\<lambda>e. \<not> is_empty e \<and> \<not> is_tomb e) (es[t := e])) =
      slot_count (\<lambda>e. \<not> is_empty e \<and> \<not> is_tomb e) es"
proof -
  let ?l = "\<lambda>e. \<not> is_empty e \<and> \<not> is_tomb e"
  have u: "slot_uniq ?l key_of es" and len: "length es = cap" using inv by (simp_all add: table_inv_def)
  have "view es k \<noteq> None"
  proof
    assume "view es k = None"
    from probe_absent [OF inv this] f show False by auto
  qed
  then obtain e0 where "view es k = Some e0" by auto
  from probe_present [OF inv this] f have t: "t < cap" "slot_find ?l key_of es k = Some t" by auto
  have dead: "\<not> ?l e" using e by simp
  note m = st.kill_slot [OF u t(2) dead]
  show "table_inv (es[t := e])" using inv_update [OF inv t(1) m(1) e(1)] e by blast
  show "view (es[t := e]) = (view es)(k := None)" by (rule m(2))
  show "Suc (slot_count ?l (es[t := e])) = slot_count ?l es" by (rule m(3))
qed

end

end
