(* ===== verification/Ring_Buffer.thy ===== *)
theory Ring_Buffer
  imports HD_Prelude
begin

text \<open>
  Circular buffers: the list a pair of indices into an array stands for, and the contract of a
  bounded first-in-first-out queue, under which any run of pushes and pops delivers what was
  accepted, in order. The command ring and the cross-shard transfer ring of the data plane
  interpret the contract.
\<close>

section \<open>The contents of a ring\<close>

definition ring_len :: "nat \<Rightarrow> nat \<Rightarrow> nat \<Rightarrow> nat" where
  "ring_len n head tail = (head + n - tail) mod n"

definition ring_contents :: "nat \<Rightarrow> 'a list \<Rightarrow> nat \<Rightarrow> nat \<Rightarrow> 'a list" where
  "ring_contents n items head tail = map (\<lambda>i. items ! ((tail + i) mod n)) [0..<ring_len n head tail]"

lemma ring_len_less: "0 < n \<Longrightarrow> ring_len n head tail < n"
  by (simp add: ring_len_def)

lemma ring_len_alt:
  assumes "head < n" "tail < n"
  shows "ring_len n head tail = (if tail \<le> head then head - tail else head + n - tail)"
proof (cases "tail \<le> head")
  case True
  then have "head + n - tail = (head - tail) + n" using assms by simp
  then have "(head + n - tail) mod n = (head - tail) mod n" by (simp only: mod_add_self2)
  with True assms show ?thesis by (simp add: ring_len_def)
next
  case False
  with assms show ?thesis by (simp add: ring_len_def)
qed

lemma mod_once: "a < 2 * n \<Longrightarrow> a mod n = (if a < n then a else a - n)" for a n :: nat
  by (simp add: mod_if)

lemma ring_len_0_iff: "head < n \<Longrightarrow> tail < n \<Longrightarrow> ring_len n head tail = 0 \<longleftrightarrow> head = tail"
  by (auto simp: ring_len_alt)

lemma ring_len_head:
  assumes "head < n" "tail < n"
  shows "(tail + ring_len n head tail) mod n = head"
  using assms by (auto simp: ring_len_alt mod_once)

lemma ring_next_less: "head < n \<Longrightarrow> (head + 1) mod n < n" for head n :: nat
  by simp

lemma ring_len_push:
  assumes "head < n" "tail < n" "(head + 1) mod n \<noteq> tail"
  shows "ring_len n ((head + 1) mod n) tail = Suc (ring_len n head tail)"
  unfolding ring_len_alt [OF assms(1,2)] ring_len_alt [OF ring_next_less [OF assms(1)] assms(2)]
  using assms by (auto simp: mod_once split: if_splits)

lemma ring_len_full:
  assumes "head < n" "tail < n"
  shows "(head + 1) mod n = tail \<longleftrightarrow> Suc (ring_len n head tail) = n"
  unfolding ring_len_alt [OF assms] using assms by (auto simp: mod_once split: if_splits)

lemma ring_len_pop:
  assumes "head < n" "tail < n" "head \<noteq> tail"
  shows "ring_len n head tail = Suc (ring_len n head ((tail + 1) mod n))"
  unfolding ring_len_alt [OF assms(1,2)] ring_len_alt [OF assms(1) ring_next_less [OF assms(2)]]
  using assms by (auto simp: mod_once split: if_splits)

lemma length_ring_contents [simp]: "length (ring_contents n items head tail) = ring_len n head tail"
  by (simp add: ring_contents_def)

lemma ring_index_ne_head:
  assumes "head < n" "tail < n" "i < ring_len n head tail"
  shows "head \<noteq> (tail + i) mod n"
  using assms unfolding ring_len_alt [OF assms(1,2)] by (auto simp: mod_once split: if_splits)

lemma ring_push:
  assumes "head < n" "tail < n" "length items = n" "(head + 1) mod n \<noteq> tail"
  shows "ring_contents n (items[head := x]) ((head + 1) mod n) tail = ring_contents n items head tail @ [x]"
  unfolding ring_contents_def ring_len_push [OF assms(1,2,4)]
  using assms ring_len_head [OF assms(1,2)] ring_index_ne_head [OF assms(1,2)] by simp

lemma ring_pop:
  assumes "head < n" "tail < n" "head \<noteq> tail"
  shows "ring_contents n items head tail = items ! tail # ring_contents n items head ((tail + 1) mod n)"
proof -
  have "ring_contents n items head tail =
      items ! tail # map (\<lambda>i. items ! ((tail + Suc i) mod n)) [0..<ring_len n head ((tail + 1) mod n)]"
    unfolding ring_contents_def ring_len_pop [OF assms] using assms
    by (simp add: map_upt_Suc del: upt_Suc)
  also have "map (\<lambda>i. items ! ((tail + Suc i) mod n)) [0..<ring_len n head ((tail + 1) mod n)] =
      ring_contents n items head ((tail + 1) mod n)"
    by (simp add: ring_contents_def mod_add_left_eq add.assoc)
  finally show ?thesis .
qed

lemma ring_contents_other:
  assumes "head < n" "tail < n" 
  shows "ring_contents n (items[head := x]) head tail = ring_contents n items head tail"
  using ring_index_ne_head [OF assms] by (auto simp: ring_contents_def)

section \<open>The queue contract\<close>

datatype 'a ring_op = Push 'a | Pop

text \<open>
  A run of operations: the accepted pushes, the delivered items, the final state. A refused
  push and a pop of an empty queue change nothing.
\<close>

fun ring_run ::
  "('a \<Rightarrow> 's \<Rightarrow> 's option) \<Rightarrow> ('s \<Rightarrow> ('a \<times> 's) option) \<Rightarrow> 'a ring_op list \<Rightarrow> 's \<Rightarrow> 'a list \<times> 'a list \<times> 's" where
  "ring_run push pop [] s = ([], [], s)"
| "ring_run push pop (Push x # ops) s =
     (case push x s of
        None \<Rightarrow> ring_run push pop ops s
      | Some s' \<Rightarrow> (case ring_run push pop ops s' of (acc, del, t) \<Rightarrow> (x # acc, del, t)))"
| "ring_run push pop (Pop # ops) s =
     (case pop s of
        None \<Rightarrow> ring_run push pop ops s
      | Some (x, s') \<Rightarrow> (case ring_run push pop ops s' of (acc, del, t) \<Rightarrow> (acc, x # del, t)))"

locale bounded_fifo =
  fixes inv :: "'s \<Rightarrow> bool" and contents :: "'s \<Rightarrow> 'a list" and cap :: nat
    and push :: "'a \<Rightarrow> 's \<Rightarrow> 's option" and pop :: "'s \<Rightarrow> ('a \<times> 's) option"
  assumes bounded: "inv s \<Longrightarrow> length (contents s) \<le> cap"
    and push_room: "inv s \<Longrightarrow> length (contents s) < cap \<Longrightarrow>
      \<exists>s'. push x s = Some s' \<and> inv s' \<and> contents s' = contents s @ [x]"
    and push_full: "inv s \<Longrightarrow> length (contents s) = cap \<Longrightarrow> push x s = None"
    and pop_empty: "inv s \<Longrightarrow> contents s = [] \<Longrightarrow> pop s = None"
    and pop_some: "inv s \<Longrightarrow> contents s = x # xs \<Longrightarrow>
      \<exists>s'. pop s = Some (x, s') \<and> inv s' \<and> contents s' = xs"
begin

lemma push_cases:
  assumes "inv s"
  obtains (full) "length (contents s) = cap" "push x s = None"
  | (room) s' where "push x s = Some s'" "inv s'" "contents s' = contents s @ [x]"
  using bounded [OF assms] push_room [OF assms, of x] push_full [OF assms, of x] that
  by (cases "length (contents s) = cap") auto

lemma pop_cases:
  assumes "inv s"
  obtains (empty) "contents s = []" "pop s = None"
  | (some) x xs s' where "contents s = x # xs" "pop s = Some (x, s')" "inv s'" "contents s' = xs"
  using pop_empty [OF assms] pop_some [OF assms] that by (cases "contents s") auto

lemma run_fifo:
  "inv s \<Longrightarrow> ring_run push pop ops s = (acc, del, t) \<Longrightarrow> inv t \<and> contents s @ acc = del @ contents t"
proof (induction ops arbitrary: s acc del t)
  case Nil
  then show ?case by simp
next
  case (Cons op ops)
  show ?case
  proof (cases op)
    case (Push x)
    from Cons.prems(1) show ?thesis
    proof (cases rule: push_cases [where x = x])
      case full
      with Cons Push show ?thesis by simp
    next
      case (room s')
      obtain a d t' where r: "ring_run push pop ops s' = (a, d, t')" by (metis prod_cases3)
      from Cons.IH [OF room(2) r] room r Cons.prems(2) Push show ?thesis by auto
    qed
  next
    case Pop
    from Cons.prems(1) show ?thesis
    proof (cases rule: pop_cases)
      case empty
      from Cons.IH [OF Cons.prems(1)] empty Cons.prems(2) Pop show ?thesis by auto
    next
      case (some x xs s')
      obtain a d t' where r: "ring_run push pop ops s' = (a, d, t')" by (metis prod_cases3)
      from Cons.IH [OF some(3) r] some r Cons.prems(2) Pop show ?thesis by auto
    qed
  qed
qed

end

end
