(* ===== verification/Dp_Tables.thy ===== *)
theory Dp_Tables
  imports Probe_Table Ring_Buffer Derp_Protocol
begin

text \<open>
  The data plane's shared structures, from \<^verbatim>\<open>include/hyper_derp/types.h\<close> and
  \<^verbatim>\<open>src/data_plane.cc\<close>: completion tags, key hashing and worker choice, backpressure
  thresholds, the replicated routing table, the command ring and the cross-shard transfer ring.
\<close>

section \<open>Tuning constants and tags\<close>

definition kHtCapacity :: nat where "kHtCapacity = 4096"
definition kMaxFd :: int where [const_simps, simp]: "kMaxFd = 65536"
definition kCmdRingSize :: nat where "kCmdRingSize = 1024"
definition kXferSpscSize :: nat where "kXferSpscSize = 16384"
definition kSendPressureMax :: int where [const_simps, simp]: "kSendPressureMax = 32768"
definition kPressurePerPeer :: int where [const_simps, simp]: "kPressurePerPeer = 512"

definition SendPressureHigh :: "int \<Rightarrow> int" where
  "SendPressureHigh peer_count =
     (let h = peer_count * kPressurePerPeer;
          h = (if h < kPressurePerPeer then kPressurePerPeer else h) in
      if h > kSendPressureMax then kSendPressureMax else h)"

definition PressureResumeDiv :: "int \<Rightarrow> int" where
  "PressureResumeDiv peer_count =
     (if peer_count \<le> 12 then 8 else if peer_count \<le> 24 then 6 else 4)"

text \<open>Both operands are positive, so the division of the source is \<^const>\<open>divide\<close>.\<close>

definition SendPressureLow :: "int \<Rightarrow> int" where
  "SendPressureLow peer_count = SendPressureHigh peer_count div PressureResumeDiv peer_count"

definition MakeUserData :: "u8 \<Rightarrow> int \<Rightarrow> u64" where
  "MakeUserData op fd = push_bit 56 (ucast op) OR ucast (word_of_int fd :: u32)"

definition UdOp :: "u64 \<Rightarrow> u8" where
  "UdOp ud = ucast (drop_bit 56 ud)"

definition UdFd :: "u64 \<Rightarrow> int" where
  "UdFd ud = sint (ucast (ud AND 0xFFFFFFFF) :: u32)"

section \<open>Hashing\<close>

definition Fnv1a :: "bytes \<Rightarrow> u32" where
  "Fnv1a data = fold (\<lambda>b h. (h XOR ucast b) * 16777619) data 2166136261"

text \<open>\<^const>\<open>None\<close>: division by zero.\<close>

definition PeerWorker :: "int \<Rightarrow> Key \<Rightarrow> int ub" where
  "PeerWorker num_workers key =
     (let n = (word_of_int num_workers :: u32) in
      if n = 0 then None else Some (sint (Fnv1a key mod n)))"

text \<open>The slots \<^verbatim>\<open>(h + i) & mask\<close> in the order the probe loops visit them.\<close>

definition probe_seq :: "Key \<Rightarrow> nat list" where
  "probe_seq key =
     map (\<lambda>i. unat ((Fnv1a key + of_nat i) AND (of_nat (kHtCapacity - 1) :: u32))) [0..<kHtCapacity]"

section \<open>The replicated routing table\<close>

record Route =
  r_key :: Key
  r_worker_id :: int
  r_fd :: int
  r_occupied :: int \<comment> \<open>0 empty, 1 live, 2 tombstone\<close>

definition Route_init :: Route where
  "Route_init = \<lparr>r_key = zero_Key, r_worker_id = 0, r_fd = 0, r_occupied = 0\<rparr>"

definition RouteFind :: "Route list \<Rightarrow> Key \<Rightarrow> nat option" where
  "RouteFind routes key =
     probe_loop (\<lambda>r. r_occupied r = 0) (\<lambda>r. r_occupied r = 2) r_key routes key (probe_seq key) None"

definition RouteLookup :: "Route list \<Rightarrow> Key \<Rightarrow> nat option" where
  "RouteLookup routes key =
     (case RouteFind routes key of
        None \<Rightarrow> None
      | Some i \<Rightarrow> if r_occupied (routes ! i) = 1 \<and> r_key (routes ! i) = key then Some i else None)"

definition RouteSet :: "Route list \<Rightarrow> Key \<Rightarrow> int \<Rightarrow> int \<Rightarrow> Route list" where
  "RouteSet routes key worker_id fd =
     (case RouteFind routes key of
        None \<Rightarrow> routes
      | Some i \<Rightarrow> routes[i := (routes ! i)\<lparr>r_key := key, r_worker_id := worker_id, r_fd := fd,
                                r_occupied := 1\<rparr>])"

definition RouteRemove :: "Route list \<Rightarrow> Key \<Rightarrow> Route list" where
  "RouteRemove routes key =
     (case RouteLookup routes key of
        None \<Rightarrow> routes
      | Some i \<Rightarrow> routes[i := (routes ! i)\<lparr>r_occupied := 2\<rparr>])"

text \<open>The tables of all workers.\<close>

definition BroadcastRouteAdd :: "Route list list \<Rightarrow> Key \<Rightarrow> int \<Rightarrow> int \<Rightarrow> Route list list" where
  "BroadcastRouteAdd tables key worker_id fd = map (\<lambda>t. RouteSet t key worker_id fd) tables"

definition BroadcastRouteRemove :: "Route list list \<Rightarrow> Key \<Rightarrow> Route list list" where
  "BroadcastRouteRemove tables key = map (\<lambda>t. RouteRemove t key) tables"

section \<open>The command ring\<close>

datatype CmdType =
  kCmdAddPeer | kCmdRemovePeer | kCmdWrite | kCmdStop | kCmdSetFwdRule | kCmdMovePeerOut

datatype PeerProtocol = Protocol_kDerp | Protocol_kHd

text \<open>Pointers to frame buffers are numbers, 0 for \<^verbatim>\<open>nullptr\<close>.\<close>

record Cmd =
  cmd_type :: CmdType
  cmd_fd :: int
  cmd_key :: Key
  cmd_data :: nat
  cmd_data_len :: int
  cmd_protocol :: PeerProtocol
  cmd_peer_id :: u16
  cmd_dst_key :: Key
  cmd_retries :: int

record CmdRing =
  cr_cmds :: "Cmd list"
  cr_head :: u32
  cr_tail :: u32

definition RingInit :: "CmdRing \<Rightarrow> CmdRing" where
  "RingInit r = r\<lparr>cr_head := 0, cr_tail := 0\<rparr>"

definition RingPush :: "CmdRing \<Rightarrow> Cmd \<Rightarrow> CmdRing \<times> int" where
  "RingPush r cmd =
     (let next = (cr_head r + 1) mod of_nat kCmdRingSize in
      if next = cr_tail r then (r, -1)
      else (r\<lparr>cr_cmds := (cr_cmds r)[unat (cr_head r) := cmd], cr_head := next\<rparr>, 0))"

text \<open>The command is returned when the result is 0.\<close>

definition RingPop :: "CmdRing \<Rightarrow> CmdRing \<times> int \<times> Cmd option" where
  "RingPop r =
     (if cr_tail r = cr_head r then (r, -1, None)
      else (r\<lparr>cr_tail := (cr_tail r + 1) mod of_nat kCmdRingSize\<rparr>, 0,
            Some (cr_cmds r ! unat (cr_tail r))))"

section \<open>The cross-shard transfer ring\<close>

record Xfer =
  x_dst_fd :: int
  x_frame :: nat
  x_frame_len :: int
  x_dst_gen :: u32

record XferSpscRing =
  xr_items :: "Xfer list"
  xr_head :: u32
  xr_tail :: u32

definition XferSpscInit :: "XferSpscRing \<Rightarrow> XferSpscRing" where
  "XferSpscInit r = r\<lparr>xr_head := 0, xr_tail := 0\<rparr>"

definition XferSpscPush :: "XferSpscRing \<Rightarrow> Xfer \<Rightarrow> XferSpscRing \<times> int" where
  "XferSpscPush r x =
     (let cur_head = xr_head r;
          cur_tail = xr_tail r;
          next = (cur_head + 1) AND (of_nat kXferSpscSize - 1) in
      if next = cur_tail then (r, -1)
      else (r\<lparr>xr_items := (xr_items r)[unat cur_head := x], xr_head := next\<rparr>,
            if cur_head = cur_tail then 1 else 0))"

definition XferSpscPop :: "XferSpscRing \<Rightarrow> XferSpscRing \<times> int \<times> Xfer option" where
  "XferSpscPop r =
     (let cur_tail = xr_tail r in
      if cur_tail = xr_head r then (r, -1, None)
      else (r\<lparr>xr_tail := (cur_tail + 1) AND (of_nat kXferSpscSize - 1)\<rparr>, 0,
            Some (xr_items r ! unat cur_tail)))"

section \<open>The probe sequence visits every slot\<close>

lemma and_4095: "unat ((h + of_nat i) AND (4095 :: u32)) = (unat h + i) mod 4096"
proof -
  have m: "(4095 :: u32) = mask 12" by (simp add: mask_eq_exp_minus_1)
  have "unat ((h + of_nat i) AND 4095) = unat (h + of_nat i) mod 4096"
    by (simp add: m take_bit_eq_mask [symmetric] unsigned_take_bit_eq take_bit_nat_def)
  also have "unat (h + of_nat i) = (unat h + i mod 4294967296) mod 4294967296"
    by (simp add: unat_word_ariths unsigned_of_nat take_bit_nat_def)
  also have "(unat h + i mod 4294967296) mod 4294967296 mod 4096 = (unat h + i) mod 4096"
  proof -
    have "(4096 :: nat) dvd 4294967296" by simp
    then show ?thesis by (simp add: mod_mod_cancel mod_add_right_eq)
  qed
  finally show ?thesis .
qed

lemma probe_seq_eq: "probe_seq key = map (\<lambda>i. (unat (Fnv1a key) + i) mod 4096) [0..<4096]"
  by (simp add: probe_seq_def kHtCapacity_def and_4095)

lemma probe_seq_covers: "set (probe_seq key) = {0..<kHtCapacity}"
proof -
  define s where "s = unat (Fnv1a key)"
  have "j \<in> (\<lambda>i. (s + i) mod 4096) ` {0..<4096}" if "j < 4096" for j
  proof
    let ?i = "(j + 4096 - s mod 4096) mod 4096"
    have "(s + ?i) mod 4096 = (s mod 4096 + (j + 4096 - s mod 4096)) mod 4096"
      by (metis mod_add_eq mod_mod_trivial)
    also have "s mod 4096 + (j + 4096 - s mod 4096) = j + 4096"
    proof -
      have "s mod 4096 \<le> j + 4096" using mod_less_divisor [of 4096 s] by linarith
      then show ?thesis by simp
    qed
    finally show "j = (s + ?i) mod 4096" using that by simp
    show "?i \<in> {0..<4096}" by simp
  qed
  then show ?thesis
    by (auto simp: probe_seq_eq kHtCapacity_def s_def [symmetric])
qed

interpretation rt: open_addressing "\<lambda>r. r_occupied r = 0" "\<lambda>r. r_occupied r = 2" r_key Route_init
  probe_seq kHtCapacity
  by unfold_locales (simp_all add: Route_init_def probe_seq_covers)

end
