(* ===== verification/Dp_Shared.thy ===== *)
theory Dp_Shared
  imports Dp_Tables
begin

text \<open>
  Correctness of the data plane's shared structures (theory \<open>Dp_Tables\<close>): the routing
  replicas, the two rings (also under interleaving of producer and consumer), the completion
  tags and the backpressure thresholds.
\<close>

section \<open>Routing replicas\<close>

definition route_inv :: "Route list \<Rightarrow> bool" where
  "route_inv t \<longleftrightarrow> rt.table_inv t \<and> list_all (\<lambda>r. r_occupied r \<in> {0, 1, 2}) t"

definition route_entries :: "Route list \<Rightarrow> Key \<Rightarrow> Route option" where
  "route_entries t = slot_view (\<lambda>r. r_occupied r \<noteq> 0 \<and> r_occupied r \<noteq> 2) r_key t"

definition route_view :: "Route list \<Rightarrow> Key \<Rightarrow> (int \<times> int) option" where
  "route_view t k = map_option (\<lambda>r. (r_worker_id r, r_fd r)) (route_entries t k)"

lemma dom_route_view: "dom (route_view t) = dom (route_entries t)"
  by (auto simp: route_view_def)

lemma route_inv_blank: "route_inv (replicate kHtCapacity Route_init)"
  using rt.blank_inv by (simp add: route_inv_def list_all_iff Route_init_def)

lemma route_view_blank: "route_view (replicate kHtCapacity Route_init) = Map.empty"
  using rt.st.blank_table(2) [of kHtCapacity] by (simp add: route_view_def route_entries_def fun_eq_iff)

lemma route_full_iff:
  assumes "route_inv t"
  shows "slot_count (\<lambda>r. r_occupied r \<noteq> 0 \<and> r_occupied r \<noteq> 2) t = card (dom (route_view t))"
  using assms rt.st.count_card(2) [of t]
  by (simp add: dom_route_view route_entries_def route_inv_def rt.table_inv_def)

lemma RouteFind_present:
  assumes "route_inv t" "route_entries t k = Some r"
  shows "\<exists>i < length t. RouteFind t k = Some i \<and> t ! i = r \<and> r_key r = k \<and> r_occupied r = 1"
  using assms rt.probe_present [of t k r]
  by (auto simp: RouteFind_def route_entries_def route_inv_def rt.table_inv_def list_all_length)

lemma RouteFind_absent:
  assumes "route_inv t" "route_entries t k = None"
  shows "case RouteFind t k of
      None \<Rightarrow> card (dom (route_view t)) = kHtCapacity
    | Some i \<Rightarrow> i < length t \<and> (r_occupied (t ! i) = 0 \<or> r_occupied (t ! i) = 2) \<and>
        card (dom (route_view t)) \<noteq> kHtCapacity"
proof (cases "RouteFind t k")
  case None
  with assms rt.probe_absent [of t k] route_full_iff [OF assms(1)] show ?thesis
    by (auto simp: RouteFind_def route_entries_def route_inv_def)
next
  case (Some i)
  with assms rt.probe_absent [of t k] have i: "i < kHtCapacity" "r_occupied (t ! i) = 0 \<or> r_occupied (t ! i) = 2"
    by (auto simp: RouteFind_def route_entries_def route_inv_def)
  moreover have len: "length t = kHtCapacity" using assms by (simp add: route_inv_def rt.table_inv_def)
  moreover have "slot_count (\<lambda>r. r_occupied r \<noteq> 0 \<and> r_occupied r \<noteq> 2) t \<noteq> length t"
    using slot_free_None_iff [of "\<lambda>r. r_occupied r \<noteq> 0 \<and> r_occupied r \<noteq> 2" t] i len
    by (auto simp: scan_None_iff all_set_conv_all_nth)
  ultimately show ?thesis using Some route_full_iff [OF assms(1)] by auto
qed

lemma RouteLookup_spec:
  assumes "route_inv t"
  shows "map_option (\<lambda>i. t ! i) (RouteLookup t k) = route_entries t k"
proof (cases "route_entries t k")
  case None
  with RouteFind_absent [OF assms None] show ?thesis by (auto simp: RouteLookup_def split: option.splits)
next
  case (Some r)
  with RouteFind_present [OF assms Some] show ?thesis by (auto simp: RouteLookup_def)
qed

lemma RouteSet_spec:
  assumes inv: "route_inv t"
  shows "route_inv (RouteSet t k w f)"
    and "route_view (RouteSet t k w f) =
      (if route_view t k = None \<and> card (dom (route_view t)) = kHtCapacity then route_view t
       else (route_view t)(k \<mapsto> (w, f)))"
proof -
  have ti: "rt.table_inv t" using inv by (simp add: route_inv_def)
  have "route_inv (RouteSet t k w f) \<and> route_view (RouteSet t k w f) =
      (if route_view t k = None \<and> card (dom (route_view t)) = kHtCapacity then route_view t
       else (route_view t)(k \<mapsto> (w, f)))"
  proof (cases "RouteFind t k")
    case None
    have "route_entries t k = None"
      using None RouteFind_present [OF inv, of k] by (cases "route_entries t k") auto
    with RouteFind_absent [OF inv this] None inv show ?thesis by (simp add: RouteSet_def route_view_def)
  next
    case (Some i)
    let ?e = "(t ! i)\<lparr>r_key := k, r_worker_id := w, r_fd := f, r_occupied := 1\<rparr>"
    have e: "r_occupied ?e \<noteq> 0 \<and> r_occupied ?e \<noteq> 2" "r_key ?e = k" by simp_all
    note st = rt.store [OF ti Some [unfolded RouteFind_def] e]
    have nf: "\<not> (route_view t k = None \<and> card (dom (route_view t)) = kHtCapacity)"
      using RouteFind_absent [OF inv, of k] Some by (auto simp: route_view_def)
    have "route_view (t[i := ?e]) = (route_view t)(k \<mapsto> (w, f))"
      using st(2) by (auto simp: route_view_def route_entries_def fun_eq_iff)
    moreover have "route_inv (t[i := ?e])"
      using st(1) inv by (simp add: route_inv_def list_all_update)
    ultimately show ?thesis unfolding RouteSet_def Some option.case using nf by auto
  qed
  then show "route_inv (RouteSet t k w f)"
    and "route_view (RouteSet t k w f) =
      (if route_view t k = None \<and> card (dom (route_view t)) = kHtCapacity then route_view t
       else (route_view t)(k \<mapsto> (w, f)))" by simp_all
qed

lemma RouteRemove_spec:
  assumes inv: "route_inv t"
  shows "route_inv (RouteRemove t k)" and "route_view (RouteRemove t k) = (route_view t)(k := None)"
proof -
  have ti: "rt.table_inv t" using inv by (simp add: route_inv_def)
  have "route_inv (RouteRemove t k) \<and> route_view (RouteRemove t k) = (route_view t)(k := None)"
  proof (cases "route_entries t k")
    case None
    with RouteLookup_spec [OF inv, of k] have "RouteLookup t k = None" by simp
    with None inv show ?thesis by (auto simp: RouteRemove_def route_view_def fun_eq_iff)
  next
    case (Some r)
    from RouteFind_present [OF inv Some]
    obtain i where i: "RouteFind t k = Some i" "t ! i = r" "r_key r = k" "r_occupied r = 1" by blast
    then have l: "RouteLookup t k = Some i" by (simp add: RouteLookup_def)
    have live: "r_occupied (t ! i) \<noteq> 0 \<and> r_occupied (t ! i) \<noteq> 2" "r_key (t ! i) = k" using i by simp_all
    let ?e = "(t ! i)\<lparr>r_occupied := 2\<rparr>"
    have e: "r_occupied ?e \<noteq> 0" "r_occupied ?e = 2" by simp_all
    note b = rt.bury [OF ti i(1) [unfolded RouteFind_def] live e]
    have "route_view (t[i := ?e]) = (route_view t)(k := None)"
      using b(2) by (auto simp: route_view_def route_entries_def fun_eq_iff)
    moreover have "route_inv (t[i := ?e])" using b(1) inv by (simp add: route_inv_def list_all_update)
    ultimately show ?thesis unfolding RouteRemove_def l option.case by simp
  qed
  then show "route_inv (RouteRemove t k)" and "route_view (RouteRemove t k) = (route_view t)(k := None)"
    by simp_all
qed

interpretation rts: removable_registry route_inv route_view "\<lambda>t. int (card (dom (route_view t)))"
  "\<lambda>k t. RouteRemove t k"
proof unfold_locales
  fix t :: "Route list"
  assume "route_inv t"
  then show "finite (dom (route_view t)) \<and>
      int (card (dom (route_view t))) = int (card (dom (route_view t)))"
    using rt.st.count_card(1) [of t]
    by (simp add: dom_route_view route_entries_def route_inv_def rt.table_inv_def)
qed (simp_all add: RouteRemove_spec)

subsection \<open>Broadcasts\<close>

datatype route_op = AddRoute Key int int | DelRoute Key

fun broadcast :: "route_op \<Rightarrow> Route list list \<Rightarrow> Route list list" where
  "broadcast (AddRoute k w f) ts = BroadcastRouteAdd ts k w f"
| "broadcast (DelRoute k) ts = BroadcastRouteRemove ts k"

text \<open>The specification: one map with a capacity.\<close>

fun route_step :: "route_op \<Rightarrow> (Key \<rightharpoonup> int \<times> int) \<Rightarrow> (Key \<rightharpoonup> int \<times> int)" where
  "route_step (AddRoute k w f) m =
     (if m k = None \<and> card (dom m) = kHtCapacity then m else m(k \<mapsto> (w, f)))"
| "route_step (DelRoute k) m = m(k := None)"

lemma broadcast_step:
  assumes "list_all route_inv ts" "\<forall>t \<in> set ts. route_view t = m"
  shows "list_all route_inv (broadcast op ts)" "\<forall>t \<in> set (broadcast op ts). route_view t = route_step op m"
  using assms
  by (cases op; auto simp: BroadcastRouteAdd_def BroadcastRouteRemove_def list_all_iff
      RouteSet_spec RouteRemove_spec)+

lemma broadcast_run:
  assumes "list_all route_inv ts" "\<forall>t \<in> set ts. route_view t = m"
  shows "list_all route_inv (fold broadcast ops ts) \<and>
      (\<forall>t \<in> set (fold broadcast ops ts). route_view t = fold route_step ops m)"
  using assms
proof (induction ops arbitrary: ts m)
  case Nil
  then show ?case by simp
next
  case (Cons op ops)
  show ?case
    unfolding fold_simps by (rule Cons.IH [OF broadcast_step [OF Cons.prems]])
qed

text \<open>
  C8: The routing replicas of all workers stay in agreement: starting from empty tables, after
  any sequence of broadcast additions and removals every worker's hash table stands for the same
  map, the one the sequence describes (a new key is dropped once 4096 keys are live); and
  looking a key up in any replica finds exactly the entry of that map.
\<close>

theorem route_replicas_agree:
  fixes ops :: "route_op list" and n :: nat
  defines "ts \<equiv> fold broadcast ops (replicate n (replicate kHtCapacity Route_init))"
  assumes t: "t \<in> set ts"
  shows "route_view t = fold route_step ops Map.empty \<and>
    (\<forall>k. map_option (\<lambda>i. (r_worker_id (t ! i), r_fd (t ! i))) (RouteLookup t k) =
      fold route_step ops Map.empty k)"
proof -
  from broadcast_run [of "replicate n (replicate kHtCapacity Route_init)" Map.empty ops] t
  have i: "route_inv t" and v: "route_view t = fold route_step ops Map.empty"
    by (auto simp: ts_def list_all_iff route_inv_blank route_view_blank)
  have "map_option (\<lambda>i. (r_worker_id (t ! i), r_fd (t ! i))) (RouteLookup t k) = route_view t k" for k
    using RouteLookup_spec [OF i, of k, symmetric]
    by (cases "RouteLookup t k") (simp_all add: route_view_def)
  with v show ?thesis by simp
qed

theorem route_replicas_agree_witness:
  "route_view (hd (fold broadcast [AddRoute zero_Key 1 7]
     (replicate 2 (replicate kHtCapacity Route_init)))) zero_Key = Some (1, 7)"
proof -
  let ?ts = "fold broadcast [AddRoute zero_Key 1 7] (replicate 2 (replicate kHtCapacity Route_init))"
  have "?ts \<noteq> []" by (simp add: BroadcastRouteAdd_def)
  then have "hd ?ts \<in> set ?ts" by (rule hd_in_set)
  from route_replicas_agree [OF this]
  have v: "route_view (hd ?ts) = fold route_step [AddRoute zero_Key 1 7] Map.empty"
    by (rule conjunct1)
  show ?thesis unfolding v by (simp add: kHtCapacity_def)
qed

section \<open>Rings\<close>

subsection \<open>The command ring\<close>

definition cmd_ring_inv :: "CmdRing \<Rightarrow> bool" where
  "cmd_ring_inv r \<longleftrightarrow> length (cr_cmds r) = kCmdRingSize \<and> unat (cr_head r) < kCmdRingSize \<and>
     unat (cr_tail r) < kCmdRingSize"

definition cmd_ring_contents :: "CmdRing \<Rightarrow> Cmd list" where
  "cmd_ring_contents r = ring_contents kCmdRingSize (cr_cmds r) (unat (cr_head r)) (unat (cr_tail r))"

definition cmd_push :: "Cmd \<Rightarrow> CmdRing \<Rightarrow> CmdRing option" where
  "cmd_push c r = (case RingPush r c of (r', rc) \<Rightarrow> if rc = 0 then Some r' else None)"

definition cmd_pop :: "CmdRing \<Rightarrow> (Cmd \<times> CmdRing) option" where
  "cmd_pop r = (case RingPop r of (r', rc, c) \<Rightarrow> if rc = 0 then map_option (\<lambda>c. (c, r')) c else None)"

lemma unat_succ_small: "unat (h :: u32) < 4294967295 \<Longrightarrow> unat (h + 1) = unat h + 1"
  by (simp add: unat_word_ariths)

lemma unat_next_1024:
  "unat h < 1024 \<Longrightarrow> unat ((h + 1) mod (1024 :: u32)) = (unat h + 1) mod 1024"
  by (simp add: unat_mod unat_succ_small)

lemma unat_next_16384:
  assumes "unat h < 16384"
  shows "unat ((h + 1) AND (16383 :: u32)) = (unat h + 1) mod 16384"
proof -
  have m: "(16383 :: u32) = mask 14" by (simp add: mask_eq_exp_minus_1)
  show ?thesis
    using assms
    by (simp add: m take_bit_eq_mask [symmetric] unsigned_take_bit_eq take_bit_nat_def unat_succ_small)
qed

lemma unat_inj_u32: "unat (a :: u32) = unat b \<longleftrightarrow> a = b"
  by (simp add: word_unat_eq_iff)

lemma kCmdRingSize_word: "(of_nat kCmdRingSize :: u32) = 1024"
  by (simp add: kCmdRingSize_def)

lemma kXferSpscSize_word: "(of_nat kXferSpscSize - 1 :: u32) = 16383"
  by (simp add: kXferSpscSize_def)

interpretation cq: bounded_fifo cmd_ring_inv cmd_ring_contents "kCmdRingSize - 1" cmd_push cmd_pop
proof unfold_locales
  fix r :: CmdRing and c :: Cmd
  assume inv: "cmd_ring_inv r"
  let ?n = kCmdRingSize and ?h = "unat (cr_head r)" and ?t = "unat (cr_tail r)"
  from inv have b: "?h < ?n" "?t < ?n" "length (cr_cmds r) = ?n" by (simp_all add: cmd_ring_inv_def)
  have nx: "unat ((cr_head r + 1) mod 1024) = (?h + 1) mod ?n" "unat ((cr_tail r + 1) mod 1024) = (?t + 1) mod ?n"
    using b by (simp_all add: unat_next_1024 kCmdRingSize_def)
  have full: "(cr_head r + 1) mod 1024 = cr_tail r \<longleftrightarrow> Suc (length (cmd_ring_contents r)) = ?n"
    using ring_len_full [OF b(1,2)] by (simp add: cmd_ring_contents_def unat_inj_u32 [symmetric] nx)
  show "length (cmd_ring_contents r) \<le> ?n - 1"
    using ring_len_less [of ?n ?h ?t] b by (simp add: cmd_ring_contents_def)
  show "\<exists>s'. cmd_push c r = Some s' \<and> cmd_ring_inv s' \<and> cmd_ring_contents s' = cmd_ring_contents r @ [c]"
    if "length (cmd_ring_contents r) < ?n - 1"
  proof -
    have ne: "(?h + 1) mod ?n \<noteq> ?t" using that full nx unat_inj_u32 by fastforce
    then show ?thesis
      using inv b nx ring_push [OF b ne, of c] full that
      by (auto simp: cmd_push_def RingPush_def Let_def cmd_ring_inv_def cmd_ring_contents_def
          kCmdRingSize_word)
  qed
  show "cmd_push c r = None" if "length (cmd_ring_contents r) = ?n - 1"
    using that full b by (simp add: cmd_push_def RingPush_def Let_def kCmdRingSize_word)
  show "cmd_pop r = None" if "cmd_ring_contents r = []"
  proof -
    have "?h = ?t" using that ring_len_0_iff [OF b(1,2)] length_ring_contents
      by (metis cmd_ring_contents_def list.size(3))
    then show ?thesis by (simp add: cmd_pop_def RingPop_def unat_inj_u32)
  qed
  show "\<exists>s'. cmd_pop r = Some (x, s') \<and> cmd_ring_inv s' \<and> cmd_ring_contents s' = xs"
    if "cmd_ring_contents r = x # xs" for x xs
  proof -
    have ne: "?h \<noteq> ?t"
    proof
      assume "?h = ?t"
      then have "length (cmd_ring_contents r) = 0"
        using ring_len_0_iff [OF b(1,2)] by (simp add: cmd_ring_contents_def)
      with that show False by simp
    qed
    then have "cr_tail r \<noteq> cr_head r" by auto
    moreover have "x = cr_cmds r ! ?t" "xs = ring_contents ?n (cr_cmds r) ?h ((?t + 1) mod ?n)"
      using that ring_pop [OF b(1,2) ne, of "cr_cmds r"] by (simp_all add: cmd_ring_contents_def)
    ultimately show ?thesis
      using b nx by (auto simp: cmd_pop_def RingPop_def cmd_ring_inv_def cmd_ring_contents_def kCmdRingSize_word)
  qed
qed

subsection \<open>The transfer ring\<close>

definition xfer_ring_inv :: "XferSpscRing \<Rightarrow> bool" where
  "xfer_ring_inv r \<longleftrightarrow> length (xr_items r) = kXferSpscSize \<and> unat (xr_head r) < kXferSpscSize \<and>
     unat (xr_tail r) < kXferSpscSize"

definition xfer_ring_contents :: "XferSpscRing \<Rightarrow> Xfer list" where
  "xfer_ring_contents r = ring_contents kXferSpscSize (xr_items r) (unat (xr_head r)) (unat (xr_tail r))"

definition xfer_push :: "Xfer \<Rightarrow> XferSpscRing \<Rightarrow> XferSpscRing option" where
  "xfer_push x r = (case XferSpscPush r x of (r', rc) \<Rightarrow> if 0 \<le> rc then Some r' else None)"

definition xfer_pop :: "XferSpscRing \<Rightarrow> (Xfer \<times> XferSpscRing) option" where
  "xfer_pop r = (case XferSpscPop r of (r', rc, x) \<Rightarrow> if rc = 0 then map_option (\<lambda>x. (x, r')) x else None)"

lemma xfer_next:
  assumes "xfer_ring_inv r"
  shows "unat ((xr_head r + 1) AND 16383) = (unat (xr_head r) + 1) mod kXferSpscSize"
    and "unat ((xr_tail r + 1) AND 16383) = (unat (xr_tail r) + 1) mod kXferSpscSize"
  using assms by (simp_all add: xfer_ring_inv_def unat_next_16384 kXferSpscSize_def)

lemma xfer_full_iff:
  assumes "xfer_ring_inv r"
  shows "(xr_head r + 1) AND 16383 = xr_tail r \<longleftrightarrow> Suc (length (xfer_ring_contents r)) = kXferSpscSize"
  using ring_len_full [of "unat (xr_head r)" kXferSpscSize "unat (xr_tail r)"] assms xfer_next [OF assms]
  by (simp add: xfer_ring_contents_def xfer_ring_inv_def unat_inj_u32 [symmetric])

lemma xfer_empty_iff:
  assumes "xfer_ring_inv r"
  shows "xr_tail r = xr_head r \<longleftrightarrow> xfer_ring_contents r = []"
proof -
  have "xfer_ring_contents r = [] \<longleftrightarrow> ring_len kXferSpscSize (unat (xr_head r)) (unat (xr_tail r)) = 0"
    by (simp add: xfer_ring_contents_def flip: length_0_conv)
  with ring_len_0_iff [of "unat (xr_head r)" kXferSpscSize "unat (xr_tail r)"] assms show ?thesis
    by (auto simp: xfer_ring_inv_def unat_inj_u32)
qed

interpretation xq: bounded_fifo xfer_ring_inv xfer_ring_contents "kXferSpscSize - 1" xfer_push xfer_pop
proof unfold_locales
  fix r :: XferSpscRing and c :: Xfer
  assume inv: "xfer_ring_inv r"
  let ?n = kXferSpscSize and ?h = "unat (xr_head r)" and ?t = "unat (xr_tail r)"
  from inv have b: "?h < ?n" "?t < ?n" "length (xr_items r) = ?n" by (simp_all add: xfer_ring_inv_def)
  note nx = xfer_next [OF inv] and full = xfer_full_iff [OF inv] and empty = xfer_empty_iff [OF inv]
  show "length (xfer_ring_contents r) \<le> ?n - 1"
    using ring_len_less [of ?n ?h ?t] b by (simp add: xfer_ring_contents_def)
  show "\<exists>s'. xfer_push c r = Some s' \<and> xfer_ring_inv s' \<and> xfer_ring_contents s' = xfer_ring_contents r @ [c]"
    if "length (xfer_ring_contents r) < ?n - 1"
  proof -
    have ne: "(?h + 1) mod ?n \<noteq> ?t" using that full nx unat_inj_u32 by fastforce
    then show ?thesis
      using inv b nx ring_push [OF b ne, of c] full that
      by (auto simp: xfer_push_def XferSpscPush_def Let_def xfer_ring_inv_def xfer_ring_contents_def
          kXferSpscSize_word)
  qed
  show "xfer_push c r = None" if "length (xfer_ring_contents r) = ?n - 1"
    using that full b by (simp add: xfer_push_def XferSpscPush_def Let_def kXferSpscSize_word)
  show "xfer_pop r = None" if "xfer_ring_contents r = []"
    using that empty by (simp add: xfer_pop_def XferSpscPop_def)
  show "\<exists>s'. xfer_pop r = Some (x, s') \<and> xfer_ring_inv s' \<and> xfer_ring_contents s' = xs"
    if "xfer_ring_contents r = x # xs" for x xs
  proof -
    have ne: "xr_tail r \<noteq> xr_head r" using that empty by simp
    then have ne': "?h \<noteq> ?t" using unat_inj_u32 by metis
    have "x = xr_items r ! ?t" "xs = ring_contents ?n (xr_items r) ?h ((?t + 1) mod ?n)"
      using that ring_pop [OF b(1,2) ne', of "xr_items r"] by (simp_all add: xfer_ring_contents_def)
    with ne show ?thesis
      using b nx by (auto simp: xfer_pop_def XferSpscPop_def Let_def xfer_ring_inv_def xfer_ring_contents_def
          kXferSpscSize_word)
  qed
qed

text \<open>
  The command ring is a first-in-first-out queue of 1023 commands: whatever pushes and pops
  are issued, the accepted commands are delivered exactly once and in order, the rest are still
  in the ring; a push is refused exactly when 1023 commands are waiting.
\<close>

theorem cmd_ring_fifo:
  assumes inv: "cmd_ring_inv r" and run: "ring_run cmd_push cmd_pop ops r = (accepted, delivered, r')"
  shows "cmd_ring_inv r' \<and>
    cmd_ring_contents r @ accepted = delivered @ cmd_ring_contents r' \<and>
    length (cmd_ring_contents r') \<le> 1023 \<and>
    (snd (RingPush r c) = -1 \<longleftrightarrow> length (cmd_ring_contents r) = 1023)"
proof -
  note f = cq.run_fifo [OF inv run]
  have "(snd (RingPush r c) = -1) = (cmd_push c r = None)"
    by (simp add: cmd_push_def RingPush_def Let_def)
  also have "\<dots> = (length (cmd_ring_contents r) = 1023)"
    using cq.push_full [OF inv, of c] cq.push_room [OF inv, of c] cq.bounded [OF inv]
    by (cases "length (cmd_ring_contents r) = 1023") (auto simp: kCmdRingSize_def)
  finally show ?thesis
    using f cq.bounded [of r'] by (simp add: kCmdRingSize_def)
qed

definition example_cmd :: Cmd where
  "example_cmd = \<lparr>cmd_type = kCmdAddPeer, cmd_fd = 4, cmd_key = zero_Key, cmd_data = 0, cmd_data_len = 0,
     cmd_protocol = Protocol_kHd, cmd_peer_id = 1, cmd_dst_key = zero_Key, cmd_retries = 0\<rparr>"

definition empty_cmd_ring :: CmdRing where
  "empty_cmd_ring = RingInit \<lparr>cr_cmds = replicate kCmdRingSize example_cmd, cr_head = 9, cr_tail = 3\<rparr>"

theorem cmd_ring_fifo_witness:
  "\<exists>a d r'. ring_run cmd_push cmd_pop [Push example_cmd, Pop] empty_cmd_ring = (a, d, r') \<and>
     cmd_ring_contents empty_cmd_ring @ a = d @ cmd_ring_contents r'"
proof -
  have i: "cmd_ring_inv empty_cmd_ring"
    by (simp add: cmd_ring_inv_def empty_cmd_ring_def RingInit_def kCmdRingSize_def)
  obtain a d r' where run: "ring_run cmd_push cmd_pop [Push example_cmd, Pop] empty_cmd_ring = (a, d, r')"
    by (metis prod_cases3)
  from cmd_ring_fifo [OF i run, of example_cmd] run show ?thesis by blast
qed

subsection \<open>The transfer ring under interleaving\<close>

text \<open>
  The memory accesses of \<^verbatim>\<open>XferSpscPush\<close> and \<^verbatim>\<open>XferSpscPop\<close> as separate steps of two threads:
  the producer loads the tail, stores the item, then releases the new head; the consumer loads
  the head, reads the item, then releases the new tail. The accepted and delivered items are
  recorded when head and tail are released.
\<close>

datatype producer = PIdle | PLoaded Xfer u32 | PStored Xfer
datatype consumer = CIdle | CReady | CRead Xfer

record spsc =
  sp_ring :: XferSpscRing
  sp_producer :: producer
  sp_consumer :: consumer
  sp_accepted :: "Xfer list"
  sp_delivered :: "Xfer list"

definition spsc_next :: "u32 \<Rightarrow> u32" where
  "spsc_next i = (i + 1) AND (of_nat kXferSpscSize - 1)"

inductive spsc_step :: "spsc \<Rightarrow> spsc \<Rightarrow> bool" where
  push_load: "sp_producer s = PIdle \<Longrightarrow>
    spsc_step s (s\<lparr>sp_producer := PLoaded x (xr_tail (sp_ring s))\<rparr>)"
| push_full: "sp_producer s = PLoaded x cur_tail \<Longrightarrow> spsc_next (xr_head (sp_ring s)) = cur_tail \<Longrightarrow>
    spsc_step s (s\<lparr>sp_producer := PIdle\<rparr>)"
| push_store: "sp_producer s = PLoaded x cur_tail \<Longrightarrow> spsc_next (xr_head (sp_ring s)) \<noteq> cur_tail \<Longrightarrow>
    spsc_step s (s\<lparr>sp_producer := PStored x,
      sp_ring := (sp_ring s)\<lparr>xr_items := (xr_items (sp_ring s))[unat (xr_head (sp_ring s)) := x]\<rparr>\<rparr>)"
| push_release: "sp_producer s = PStored x \<Longrightarrow>
    spsc_step s (s\<lparr>sp_producer := PIdle, sp_accepted := sp_accepted s @ [x],
      sp_ring := (sp_ring s)\<lparr>xr_head := spsc_next (xr_head (sp_ring s))\<rparr>\<rparr>)"
| pop_load: "sp_consumer s = CIdle \<Longrightarrow> xr_tail (sp_ring s) \<noteq> xr_head (sp_ring s) \<Longrightarrow>
    spsc_step s (s\<lparr>sp_consumer := CReady\<rparr>)"
| pop_read: "sp_consumer s = CReady \<Longrightarrow>
    spsc_step s (s\<lparr>sp_consumer := CRead (xr_items (sp_ring s) ! unat (xr_tail (sp_ring s)))\<rparr>)"
| pop_release: "sp_consumer s = CRead x \<Longrightarrow>
    spsc_step s (s\<lparr>sp_consumer := CIdle, sp_delivered := sp_delivered s @ [x],
      sp_ring := (sp_ring s)\<lparr>xr_tail := spsc_next (xr_tail (sp_ring s))\<rparr>\<rparr>)"

definition spsc_init :: "Xfer list \<Rightarrow> spsc" where
  "spsc_init items = \<lparr>sp_ring = \<lparr>xr_items = items, xr_head = 0, xr_tail = 0\<rparr>, sp_producer = PIdle,
     sp_consumer = CIdle, sp_accepted = [], sp_delivered = []\<rparr>"

text \<open>What the threads' local views guarantee: a stale tail only makes the ring look fuller.\<close>

definition spsc_inv :: "spsc \<Rightarrow> bool" where
  "spsc_inv s \<longleftrightarrow> xfer_ring_inv (sp_ring s) \<and>
     sp_accepted s = sp_delivered s @ xfer_ring_contents (sp_ring s) \<and>
     (case sp_producer s of
        PIdle \<Rightarrow> True
      | PLoaded x t \<Rightarrow> unat t < kXferSpscSize \<and>
          ring_len kXferSpscSize (unat (xr_head (sp_ring s))) (unat (xr_tail (sp_ring s))) \<le>
          ring_len kXferSpscSize (unat (xr_head (sp_ring s))) (unat t)
      | PStored x \<Rightarrow> xr_items (sp_ring s) ! unat (xr_head (sp_ring s)) = x \<and>
          spsc_next (xr_head (sp_ring s)) \<noteq> xr_tail (sp_ring s)) \<and>
     (case sp_consumer s of
        CIdle \<Rightarrow> True
      | CReady \<Rightarrow> xr_tail (sp_ring s) \<noteq> xr_head (sp_ring s)
      | CRead x \<Rightarrow> xr_tail (sp_ring s) \<noteq> xr_head (sp_ring s) \<and>
          xr_items (sp_ring s) ! unat (xr_tail (sp_ring s)) = x)"

lemma unat_spsc_next: "unat i < kXferSpscSize \<Longrightarrow> unat (spsc_next i) = (unat i + 1) mod kXferSpscSize"
  by (simp add: spsc_next_def kXferSpscSize_word unat_next_16384 kXferSpscSize_def)

lemma spsc_next_bound: "unat i < kXferSpscSize \<Longrightarrow> unat (spsc_next i) < kXferSpscSize"
  by (simp add: unat_spsc_next kXferSpscSize_def)

lemma spsc_next_eq_iff:
  assumes "unat i < kXferSpscSize" "unat j < kXferSpscSize"
  shows "spsc_next i = spsc_next j \<longleftrightarrow> i = j"
proof -
  have "(unat i + 1) mod kXferSpscSize = (unat j + 1) mod kXferSpscSize \<longleftrightarrow> unat i = unat j"
    using assms by (auto simp: mod_once kXferSpscSize_def split: if_splits)
  then show ?thesis using assms by (simp add: unat_inj_u32 [symmetric] unat_spsc_next del: unat_inj_u32)
qed

lemma spsc_store_room:
  assumes "unat h < kXferSpscSize" "unat t < kXferSpscSize" "unat t' < kXferSpscSize"
    and "ring_len kXferSpscSize (unat h) (unat t) \<le> ring_len kXferSpscSize (unat h) (unat t')"
    and "spsc_next h \<noteq> t'"
  shows "spsc_next h \<noteq> t"
proof
  assume "spsc_next h = t"
  then have "(unat h + 1) mod kXferSpscSize = unat t" using assms unat_spsc_next [of h] by simp
  then have "Suc (ring_len kXferSpscSize (unat h) (unat t)) = kXferSpscSize"
    using ring_len_full [OF assms(1,2)] by simp
  with assms(4) ring_len_less [of kXferSpscSize "unat h" "unat t'"]
  have "Suc (ring_len kXferSpscSize (unat h) (unat t')) = kXferSpscSize" by (simp add: kXferSpscSize_def)
  then have "unat (spsc_next h) = unat t'"
    using ring_len_full [OF assms(1,3)] unat_spsc_next [OF assms(1)] by simp
  with assms(5) show False by (simp add: unat_inj_u32)
qed

lemma spsc_pop_len:
  assumes "unat h < kXferSpscSize" "unat t < kXferSpscSize" "t \<noteq> h"
  shows "ring_len kXferSpscSize (unat h) (unat (spsc_next t)) < ring_len kXferSpscSize (unat h) (unat t)"
  using ring_len_pop [OF assms(1,2)] assms by (simp add: unat_spsc_next unat_inj_u32)

lemma spsc_inv_init: "length items = kXferSpscSize \<Longrightarrow> spsc_inv (spsc_init items)"
  by (simp add: spsc_inv_def spsc_init_def xfer_ring_inv_def xfer_ring_contents_def ring_contents_def
      ring_len_def kXferSpscSize_def)

lemma spsc_push_release:
  assumes "xfer_ring_inv r" "xr_items r ! unat (xr_head r) = x" "spsc_next (xr_head r) \<noteq> xr_tail r"
  shows "xfer_ring_inv (r\<lparr>xr_head := spsc_next (xr_head r)\<rparr>)"
    and "xfer_ring_contents (r\<lparr>xr_head := spsc_next (xr_head r)\<rparr>) = xfer_ring_contents r @ [x]"
proof -
  have b: "unat (xr_head r) < kXferSpscSize" "unat (xr_tail r) < kXferSpscSize"
    "length (xr_items r) = kXferSpscSize" using assms(1) by (simp_all add: xfer_ring_inv_def)
  then show "xfer_ring_inv (r\<lparr>xr_head := spsc_next (xr_head r)\<rparr>)"
    by (simp add: xfer_ring_inv_def spsc_next_bound)
  have ne: "(unat (xr_head r) + 1) mod kXferSpscSize \<noteq> unat (xr_tail r)"
    using assms(3) unat_spsc_next [OF b(1)] unat_inj_u32 by metis
  show "xfer_ring_contents (r\<lparr>xr_head := spsc_next (xr_head r)\<rparr>) = xfer_ring_contents r @ [x]"
    using ring_push [OF b ne, of x] assms(2) list_update_id [of "xr_items r" "unat (xr_head r)"]
    by (simp add: xfer_ring_contents_def unat_spsc_next [OF b(1)])
qed

lemma spsc_pop_release:
  assumes "xfer_ring_inv r" "xr_tail r \<noteq> xr_head r" "xr_items r ! unat (xr_tail r) = x"
  shows "xfer_ring_inv (r\<lparr>xr_tail := spsc_next (xr_tail r)\<rparr>)"
    and "xfer_ring_contents r = x # xfer_ring_contents (r\<lparr>xr_tail := spsc_next (xr_tail r)\<rparr>)"
proof -
  have b: "unat (xr_head r) < kXferSpscSize" "unat (xr_tail r) < kXferSpscSize"
    using assms(1) by (simp_all add: xfer_ring_inv_def)
  then show "xfer_ring_inv (r\<lparr>xr_tail := spsc_next (xr_tail r)\<rparr>)"
    using assms(1) by (simp add: xfer_ring_inv_def spsc_next_bound)
  have ne: "unat (xr_head r) \<noteq> unat (xr_tail r)" using assms(2) unat_inj_u32 by metis
  show "xfer_ring_contents r = x # xfer_ring_contents (r\<lparr>xr_tail := spsc_next (xr_tail r)\<rparr>)"
    using ring_pop [OF b ne, of "xr_items r"] assms(3)
    by (simp add: xfer_ring_contents_def unat_spsc_next [OF b(2)])
qed

lemma spsc_store_item:
  fixes x :: Xfer
  assumes "xfer_ring_inv r"
  defines "r' \<equiv> r\<lparr>xr_items := (xr_items r)[unat (xr_head r) := x]\<rparr>"
  shows "xfer_ring_inv r'" "xfer_ring_contents r' = xfer_ring_contents r"
    "xr_items r' ! unat (xr_head r) = x"
    "xr_tail r \<noteq> xr_head r \<Longrightarrow> xr_items r' ! unat (xr_tail r) = xr_items r ! unat (xr_tail r)"
proof -
  have b: "unat (xr_head r) < kXferSpscSize" "unat (xr_tail r) < kXferSpscSize"
    "length (xr_items r) = kXferSpscSize" using assms(1) by (simp_all add: xfer_ring_inv_def)
  then show "xfer_ring_inv r'" "xr_items r' ! unat (xr_head r) = x"
    by (simp_all add: r'_def xfer_ring_inv_def)
  show "xfer_ring_contents r' = xfer_ring_contents r"
    using ring_contents_other [OF b(1,2)] by (simp add: r'_def xfer_ring_contents_def)
  show "xr_tail r \<noteq> xr_head r \<Longrightarrow> xr_items r' ! unat (xr_tail r) = xr_items r ! unat (xr_tail r)"
    using unat_inj_u32 [of "xr_head r" "xr_tail r"] by (simp add: r'_def)
qed

lemma spsc_step_inv: "spsc_step s s' \<Longrightarrow> spsc_inv s \<Longrightarrow> spsc_inv s'"
proof (induction rule: spsc_step.induct)
  case (push_load s x)
  then show ?case by (auto simp: spsc_inv_def xfer_ring_inv_def split: consumer.splits)
next
  case (push_full s x cur_tail)
  then show ?case by (auto simp: spsc_inv_def split: consumer.splits)
next
  case (push_store s x cur_tail)
  let ?r = "sp_ring s"
  have inv: "xfer_ring_inv ?r" using push_store by (simp add: spsc_inv_def)
  then have b: "unat (xr_head ?r) < kXferSpscSize" "unat (xr_tail ?r) < kXferSpscSize"
    by (simp_all add: xfer_ring_inv_def)
  have "spsc_next (xr_head ?r) \<noteq> xr_tail ?r"
    using push_store spsc_store_room [OF b, of cur_tail] by (simp add: spsc_inv_def)
  with push_store spsc_store_item [OF inv, of x] show ?case
    by (auto simp: spsc_inv_def split: consumer.splits)
next
  case (push_release s x)
  let ?r = "sp_ring s"
  have inv: "xfer_ring_inv ?r" and x: "xr_items ?r ! unat (xr_head ?r) = x"
    and ne: "spsc_next (xr_head ?r) \<noteq> xr_tail ?r" using push_release by (simp_all add: spsc_inv_def)
  from push_release spsc_push_release [OF inv x ne] ne show ?case
    by (auto simp: spsc_inv_def split: consumer.splits)
next
  case (pop_load s)
  then show ?case by (auto simp: spsc_inv_def split: producer.splits)
next
  case (pop_read s)
  then show ?case by (auto simp: spsc_inv_def split: producer.splits)
next
  case (pop_release s x)
  let ?r = "sp_ring s"
  have inv: "xfer_ring_inv ?r" and x: "xr_items ?r ! unat (xr_tail ?r) = x"
    and ne: "xr_tail ?r \<noteq> xr_head ?r" using pop_release by (simp_all add: spsc_inv_def)
  then have b: "unat (xr_head ?r) < kXferSpscSize" "unat (xr_tail ?r) < kXferSpscSize"
    by (simp_all add: xfer_ring_inv_def)
  have pst: "spsc_next (xr_head ?r) \<noteq> spsc_next (xr_tail ?r)"
    using spsc_next_eq_iff [OF b] ne by metis
  have len: "ring_len kXferSpscSize (unat (xr_head ?r)) (unat (spsc_next (xr_tail ?r))) \<le>
      ring_len kXferSpscSize (unat (xr_head ?r)) (unat (xr_tail ?r))"
    using spsc_pop_len [OF b ne] by simp
  from pop_release spsc_pop_release [OF inv ne x] pst len show ?case
    by (auto simp: spsc_inv_def split: producer.splits)
qed

text \<open>
  C7: The lock-free transfer ring is linearisable as a queue: under every interleaving of the
  producer's and the consumer's memory accesses, what was delivered is at every moment a prefix
  of what was accepted, the rest is in the ring, which never holds more than 16383 items, and an
  item the consumer is reading is never overwritten.
\<close>

theorem xfer_ring_interleaving:
  assumes "length items = kXferSpscSize" "spsc_step\<^sup>*\<^sup>* (spsc_init items) s"
  shows "sp_accepted s = sp_delivered s @ xfer_ring_contents (sp_ring s) \<and>
    length (xfer_ring_contents (sp_ring s)) \<le> 16383 \<and>
    (\<forall>x. sp_consumer s = CRead x \<longrightarrow> xfer_ring_contents (sp_ring s) \<noteq> [] \<and>
       hd (xfer_ring_contents (sp_ring s)) = x)"
proof -
  from assms(2) have inv: "spsc_inv s"
    by (induction rule: rtranclp_induct) (auto simp: spsc_inv_init assms(1) intro: spsc_step_inv)
  then have r: "xfer_ring_inv (sp_ring s)" by (simp add: spsc_inv_def)
  show ?thesis
  proof (intro conjI allI impI)
    show "sp_accepted s = sp_delivered s @ xfer_ring_contents (sp_ring s)" using inv by (simp add: spsc_inv_def)
    show "length (xfer_ring_contents (sp_ring s)) \<le> 16383"
      using xq.bounded [OF r] by (simp add: kXferSpscSize_def)
    fix x
    assume c: "sp_consumer s = CRead x"
    with inv have ne: "xr_tail (sp_ring s) \<noteq> xr_head (sp_ring s)"
      and x: "xr_items (sp_ring s) ! unat (xr_tail (sp_ring s)) = x" by (simp_all add: spsc_inv_def)
    from spsc_pop_release(2) [OF r ne x]
    show "xfer_ring_contents (sp_ring s) \<noteq> []" "hd (xfer_ring_contents (sp_ring s)) = x" by simp_all
  qed
qed

definition example_xfer :: Xfer where
  "example_xfer = \<lparr>x_dst_fd = 5, x_frame = 1, x_frame_len = 100, x_dst_gen = 0\<rparr>"

theorem xfer_ring_interleaving_witness:
  "\<exists>s. spsc_step\<^sup>*\<^sup>* (spsc_init (replicate kXferSpscSize example_xfer)) s \<and>
     sp_producer s = PLoaded example_xfer 0 \<and>
     sp_accepted s = sp_delivered s @ xfer_ring_contents (sp_ring s)"
proof -
  let ?i = "spsc_init (replicate kXferSpscSize example_xfer)"
  let ?s = "?i\<lparr>sp_producer := PLoaded example_xfer (xr_tail (sp_ring ?i))\<rparr>"
  have "spsc_step ?i ?s" by (rule spsc_step.push_load) (simp add: spsc_init_def)
  then have st: "spsc_step\<^sup>*\<^sup>* ?i ?s" by simp
  from xfer_ring_interleaving [OF _ st] st show ?thesis
    by (intro exI [of _ ?s]) (simp add: spsc_init_def)
qed

section \<open>Tags, worker choice and thresholds\<close>

lemma user_data_op: "UdOp (MakeUserData op fd) = op"
  unfolding UdOp_def MakeUserData_def
  by (rule bit_word_eqI) (auto simp: bit_simps dest: bit_imp_le_length)

lemma user_data_fd_word: "ucast (MakeUserData op fd AND 0xFFFFFFFF) = (word_of_int fd :: u32)"
proof -
  have m: "(0xFFFFFFFF :: u64) = mask 32" by (simp add: mask_eq_exp_minus_1)
  show ?thesis
    unfolding MakeUserData_def m
    by (rule bit_word_eqI) (auto simp: bit_simps)
qed

lemma sint_word_u32: "- 2147483648 \<le> v \<Longrightarrow> v < 2147483648 \<Longrightarrow> sint (word_of_int v :: u32) = v"
  using signed_take_bit_int_eq_self [of 31 v] by (simp add: sint_sbintrunc')

lemma sint_small_u32: "uint (w :: u32) < 2147483648 \<Longrightarrow> sint w = uint w"
  using signed_take_bit_int_eq_self [of 31 "uint w"] uint_ge_0 [of w] by (simp add: sint_uint)

text \<open>
  Completion tags, worker choice and backpressure thresholds: the operation and any
  descriptor survive the 64-bit completion tag; the worker of a key is a valid worker index for
  every worker count up to the maximum; the resume threshold is positive and strictly below the
  pause threshold, which never exceeds its cap, so the recv pause has hysteresis for every peer
  count.
\<close>

theorem dp_scalars:
  assumes fd: "- 2147483648 \<le> fd" "fd < 2147483648" and n: "0 < n" "n \<le> 32"
  shows "UdOp (MakeUserData op fd) = op \<and> UdFd (MakeUserData op fd) = fd \<and>
    (\<exists>w. PeerWorker n key = Some w \<and> 0 \<le> w \<and> w < n) \<and>
    0 < SendPressureLow c \<and> SendPressureLow c < SendPressureHigh c \<and>
    SendPressureHigh c \<le> kSendPressureMax"
proof (intro conjI)
  show "UdOp (MakeUserData op fd) = op" by (rule user_data_op)
  show "UdFd (MakeUserData op fd) = fd"
    using fd by (simp add: UdFd_def user_data_fd_word sint_word_u32)
  have un: "uint (word_of_int n :: u32) = n" using n by (simp add: uint_word_of_int)
  then have nz: "(word_of_int n :: u32) \<noteq> 0" using n by auto
  let ?w = "Fnv1a key mod word_of_int n"
  have u: "uint ?w = uint (Fnv1a key) mod n" by (simp add: uint_mod un)
  then have b: "0 \<le> uint ?w" "uint ?w < n" using n by simp_all
  then have "sint ?w = uint ?w" using n by (intro sint_small_u32) simp
  with b nz show "\<exists>w. PeerWorker n key = Some w \<and> 0 \<le> w \<and> w < n"
    by (simp add: PeerWorker_def Let_def)
  show "0 < SendPressureLow c" "SendPressureLow c < SendPressureHigh c" "SendPressureHigh c \<le> kSendPressureMax"
    by (auto simp: SendPressureLow_def SendPressureHigh_def PressureResumeDiv_def Let_def)
qed

theorem dp_scalars_witness:
  "UdFd (MakeUserData 2 (- 1)) = - 1 \<and> (\<exists>w. PeerWorker 4 zero_Key = Some w \<and> 0 \<le> w \<and> w < 4)"
  using dp_scalars [of "- 1" 4 2 zero_Key 0] by simp

end
