(* ===== verification/Stun.thy ===== *)
theory Stun
  imports HD_Prelude
begin

text \<open>
  The STUN message codec of \<^verbatim>\<open>include/hyper_derp/stun.h\<close> and \<^verbatim>\<open>src/stun.cc\<close>: the header test,
  the attribute walk of the parser, the three builders and the address decoding. The parser is
  total and stays inside its input; what the builders write is parsed back.
\<close>

section \<open>Constants and the parsed message\<close>

definition kStunHeaderSize :: int where [const_simps, simp]: "kStunHeaderSize = 20"
definition kStunMagicCookie :: u32 where "kStunMagicCookie = 0x2112A442"
definition kStunTransactionIdSize :: int where [const_simps, simp]: "kStunTransactionIdSize = 12"
definition kStunBindingRequest :: u16 where "kStunBindingRequest = 0x0001"
definition kStunBindingResponse :: u16 where "kStunBindingResponse = 0x0101"
definition kStunBindingError :: u16 where "kStunBindingError = 0x0111"
definition kStunAttrXorMappedAddress :: u16 where "kStunAttrXorMappedAddress = 0x0020"
definition kStunAttrUsername :: u16 where "kStunAttrUsername = 0x0006"
definition kStunAttrMessageIntegrity :: u16 where "kStunAttrMessageIntegrity = 0x0008"
definition kStunAttrFingerprint :: u16 where "kStunAttrFingerprint = 0x8028"
definition kStunAttrErrorCode :: u16 where "kStunAttrErrorCode = 0x0009"
definition kStunAddrFamilyIPv4 :: u8 where "kStunAddrFamilyIPv4 = 0x01"

lemmas stun_consts = kStunMagicCookie_def kStunBindingRequest_def kStunBindingResponse_def
  kStunBindingError_def kStunAttrXorMappedAddress_def kStunAttrUsername_def
  kStunAttrMessageIntegrity_def kStunAttrFingerprint_def kStunAttrErrorCode_def
  kStunAddrFamilyIPv4_def

record StunMessage =
  sm_type :: u16
  sm_transaction_id :: bytes
  sm_has_xor_mapped :: bool
  sm_xor_mapped_ip :: u32
  sm_xor_mapped_port :: u16
  sm_has_username :: bool
  sm_username :: bytes \<comment> \<open>256 bytes\<close>
  sm_username_len :: int
  sm_has_integrity :: bool
  sm_integrity :: bytes \<comment> \<open>20 bytes\<close>
  sm_has_fingerprint :: bool
  sm_fingerprint :: u32
  sm_has_error :: bool
  sm_error_code :: u16
  sm_error_reason :: bytes \<comment> \<open>128 bytes\<close>
  sm_error_reason_len :: int

definition StunMessage_init :: StunMessage where
  "StunMessage_init = \<lparr>sm_type = 0, sm_transaction_id = replicate 12 0, sm_has_xor_mapped = False,
     sm_xor_mapped_ip = 0, sm_xor_mapped_port = 0, sm_has_username = False,
     sm_username = replicate 256 0, sm_username_len = 0, sm_has_integrity = False,
     sm_integrity = replicate 20 0, sm_has_fingerprint = False, sm_fingerprint = 0,
     sm_has_error = False, sm_error_code = 0, sm_error_reason = replicate 128 0,
     sm_error_reason_len = 0\<rparr>"

section \<open>Helpers\<close>

text \<open>A pointer into a buffer is the buffer and an offset.\<close>

definition WriteBe16 :: "bytes \<Rightarrow> int \<Rightarrow> u16 \<Rightarrow> bytes ub" where
  "WriteBe16 buf off val = wr off [ucast (drop_bit 8 val), ucast val] buf"

definition WriteBe32 :: "bytes \<Rightarrow> int \<Rightarrow> u32 \<Rightarrow> bytes ub" where
  "WriteBe32 buf off val =
     wr off [ucast (drop_bit 24 val), ucast (drop_bit 16 val), ucast (drop_bit 8 val), ucast val] buf"

definition ReadBe16 :: "bytes \<Rightarrow> int \<Rightarrow> u16 ub" where
  "ReadBe16 buf off = do { a \<leftarrow> rd8 off buf; b \<leftarrow> rd8 (off + 1) buf; Some (of_be16 a b) }"

definition ReadBe32 :: "bytes \<Rightarrow> int \<Rightarrow> u32 ub" where
  "ReadBe32 buf off = do {
     a \<leftarrow> rd8 off buf; b \<leftarrow> rd8 (off + 1) buf; c \<leftarrow> rd8 (off + 2) buf; d \<leftarrow> rd8 (off + 3) buf;
     Some (of_be32 a b c d) }"

definition PadTo4 :: "int \<Rightarrow> int" where
  "PadTo4 len = (len + 3) AND NOT 3"

definition WriteStunHeader :: "bytes \<Rightarrow> u16 \<Rightarrow> u16 \<Rightarrow> bytes \<Rightarrow> bytes ub" where
  "WriteStunHeader buf type payload_len txn_id = do {
     buf \<leftarrow> WriteBe16 buf 0 type;
     buf \<leftarrow> WriteBe16 buf 2 payload_len;
     buf \<leftarrow> WriteBe32 buf 4 kStunMagicCookie;
     memcpy 8 txn_id 0 kStunTransactionIdSize buf }"

section \<open>The parser\<close>

definition ParseXorMappedAddress :: "bytes \<Rightarrow> int \<Rightarrow> int \<Rightarrow> StunMessage \<Rightarrow> StunMessage ub" where
  "ParseXorMappedAddress data val val_len msg =
     (if val_len < 8 then Some msg
      else do {
        family \<leftarrow> rd8 (val + 1) data;
        if family \<noteq> kStunAddrFamilyIPv4 then Some msg
        else do {
          port \<leftarrow> ReadBe16 data (val + 2);
          ip \<leftarrow> ReadBe32 data (val + 4);
          Some (msg\<lparr>sm_has_xor_mapped := True, sm_xor_mapped_port := port,
                    sm_xor_mapped_ip := ip\<rparr>) } })"

definition ParseErrorCode :: "bytes \<Rightarrow> int \<Rightarrow> int \<Rightarrow> StunMessage \<Rightarrow> StunMessage ub" where
  "ParseErrorCode data val val_len msg =
     (if val_len < 4 then Some msg
      else do {
        c \<leftarrow> rd8 (val + 2) data;
        error_number \<leftarrow> rd8 (val + 3) data;
        let error_class = uint (c AND 0x07);
        let msg = msg\<lparr>sm_has_error := True,
                      sm_error_code := word_of_int (error_class * 100 + uint error_number)\<rparr>;
        let reason_len = val_len - 4;
        if reason_len > 0 then do {
          let copy_len = min reason_len 127;
          r \<leftarrow> memcpy 0 data (val + 4) copy_len (sm_error_reason msg);
          r \<leftarrow> wr copy_len [0] r;
          Some (msg\<lparr>sm_error_reason := r, sm_error_reason_len := copy_len\<rparr>) }
        else Some msg })"

text \<open>The \<^verbatim>\<open>switch\<close> over the attribute type.\<close>

definition stun_attr :: "bytes \<Rightarrow> u16 \<Rightarrow> int \<Rightarrow> int \<Rightarrow> StunMessage \<Rightarrow> StunMessage ub" where
  "stun_attr data attr_type val attr_len msg =
     (if attr_type = kStunAttrXorMappedAddress then ParseXorMappedAddress data val attr_len msg
      else if attr_type = kStunAttrUsername then
        (if attr_len > 0 then do {
           let copy_len = min attr_len 255;
           u \<leftarrow> memcpy 0 data val copy_len (sm_username msg);
           u \<leftarrow> wr copy_len [0] u;
           Some (msg\<lparr>sm_username := u, sm_username_len := copy_len, sm_has_username := True\<rparr>) }
         else Some msg)
      else if attr_type = kStunAttrMessageIntegrity then
        (if attr_len = 20 then do {
           i \<leftarrow> memcpy 0 data val 20 (sm_integrity msg);
           Some (msg\<lparr>sm_integrity := i, sm_has_integrity := True\<rparr>) }
         else Some msg)
      else if attr_type = kStunAttrFingerprint then
        (if attr_len = 4 then do {
           f \<leftarrow> ReadBe32 data val;
           Some (msg\<lparr>sm_fingerprint := f, sm_has_fingerprint := True\<rparr>) }
         else Some msg)
      else if attr_type = kStunAttrErrorCode then ParseErrorCode data val attr_len msg
      else Some msg)"

lemma and_not_mask_int: "(x :: int) AND NOT (mask n) = push_bit n (drop_bit n x)"
  by (rule bit_eqI) (auto simp: bit_simps not_less)

lemma PadTo4_eq: "PadTo4 n = n + 3 - (n + 3) mod 4"
proof -
  have "(3 :: int) = mask 2" by (simp add: mask_eq_exp_minus_1)
  then have "(n + 3) AND NOT 3 = push_bit 2 (drop_bit 2 (n + 3))" by (simp only: and_not_mask_int)
  then show ?thesis
    by (simp add: PadTo4_def push_bit_eq_mult drop_bit_eq_div minus_mod_eq_div_mult)
qed

lemma PadTo4_bounds: "n \<le> PadTo4 n" "PadTo4 n < n + 4"
proof -
  have "0 \<le> (n + 3) mod 4" "(n + 3) mod 4 < 4" by simp_all
  then show "n \<le> PadTo4 n" "PadTo4 n < n + 4" unfolding PadTo4_eq by linarith+
qed

text \<open>The attribute walk: every round moves at least four bytes ahead.\<close>

function stun_walk :: "bytes \<Rightarrow> int \<Rightarrow> int \<Rightarrow> StunMessage \<Rightarrow> StunMessage ub" where
  "stun_walk data end offset msg =
     (if offset + 4 \<le> end then
        (case (ReadBe16 data offset, ReadBe16 data (offset + 2)) of
           (Some attr_type, Some attr_len) \<Rightarrow>
             (let val_offset = offset + 4 in
              if val_offset + uint attr_len > end then Some msg
              else (case stun_attr data attr_type val_offset (uint attr_len) msg of
                      None \<Rightarrow> None
                    | Some msg \<Rightarrow> stun_walk data end (val_offset + PadTo4 (uint attr_len)) msg))
         | _ \<Rightarrow> None)
      else Some msg)"
  by pat_completeness auto
termination
proof (relation "measure (\<lambda>(data, end, offset, msg). nat (end - offset))")
  show "wf (measure (\<lambda>(data :: bytes, end, offset, msg :: StunMessage). nat (end - offset)))" by simp
next
  fix data :: bytes and "end" offset :: int and msg msg' :: StunMessage and pr attr_type val_offset
    and attr_len :: u16
  assume "offset + 4 \<le> end" "val_offset = offset + 4"
  moreover have "0 \<le> PadTo4 (uint attr_len)" using PadTo4_bounds(1) [of "uint attr_len"] uint_ge_0 order_trans by blast
  ultimately show "((data, end, val_offset + PadTo4 (uint attr_len), msg'), data, end, offset, msg)
      \<in> measure (\<lambda>(data, end, offset, msg). nat (end - offset))"
    by simp
qed

declare stun_walk.simps [simp del]

text \<open>On \<^const>\<open>False\<close> the message keeps what was stored before the check that failed.\<close>

definition StunParse :: "bytes \<Rightarrow> int \<Rightarrow> StunMessage \<Rightarrow> (StunMessage \<times> bool) ub" where
  "StunParse data len msg =
     (if len < kStunHeaderSize then Some (msg, False)
      else do {
        b \<leftarrow> rd8 0 data;
        if b AND 0xC0 \<noteq> 0 then Some (msg, False)
        else do {
          type \<leftarrow> ReadBe16 data 0;
          let msg = msg\<lparr>sm_type := type\<rparr>;
          payload_len \<leftarrow> ReadBe16 data 2;
          cookie \<leftarrow> ReadBe32 data 4;
          if cookie \<noteq> kStunMagicCookie then Some (msg, False)
          else if kStunHeaderSize + uint payload_len > len then Some (msg, False)
          else do {
            id \<leftarrow> memcpy 0 data 8 kStunTransactionIdSize (sm_transaction_id msg);
            let msg = msg\<lparr>sm_transaction_id := id\<rparr>;
            msg \<leftarrow> stun_walk data (kStunHeaderSize + uint payload_len) kStunHeaderSize msg;
            Some (msg, True) } } })"

definition StunIsStun :: "bytes \<Rightarrow> int \<Rightarrow> bool ub" where
  "StunIsStun data len =
     (if len < kStunHeaderSize then Some False
      else do {
        b \<leftarrow> rd8 0 data;
        if b AND 0xC0 \<noteq> 0 then Some False
        else do {
          cookie \<leftarrow> ReadBe32 data 4;
          Some (cookie = kStunMagicCookie) } })"

section \<open>The builders\<close>

text \<open>
  The transaction id is \<^const>\<open>None\<close> for a null pointer; \<open>fresh\<close> is then what
  \<^verbatim>\<open>randombytes_buf\<close> yields.
\<close>

definition StunGenerateTransactionId :: "bytes \<Rightarrow> bytes \<Rightarrow> bytes ub" where
  "StunGenerateTransactionId fresh txn_id = wr 0 fresh txn_id"

definition StunBuildBindingRequest :: "bytes \<Rightarrow> bytes \<Rightarrow> int \<Rightarrow> bytes option \<Rightarrow> (bytes \<times> int) ub" where
  "StunBuildBindingRequest fresh buf buf_size txn_id =
     (if buf_size < kStunHeaderSize then Some (buf, 0)
      else do {
        id \<leftarrow> (case txn_id of
                 Some t \<Rightarrow> memcpy 0 t 0 kStunTransactionIdSize (replicate 12 0)
               | None \<Rightarrow> StunGenerateTransactionId fresh (replicate 12 0));
        buf \<leftarrow> WriteStunHeader buf kStunBindingRequest 0 id;
        Some (buf, kStunHeaderSize) })"

definition StunBuildBindingResponse :: "bytes \<Rightarrow> int \<Rightarrow> bytes \<Rightarrow> u32 \<Rightarrow> u16 \<Rightarrow> (bytes \<times> int) ub" where
  "StunBuildBindingResponse buf buf_size txn_id client_ip client_port =
     (if buf_size < 32 then Some (buf, 0)
      else do {
        buf \<leftarrow> WriteStunHeader buf kStunBindingResponse 12 txn_id;
        let off = kStunHeaderSize;
        buf \<leftarrow> WriteBe16 buf off kStunAttrXorMappedAddress;
        let off = off + 2;
        buf \<leftarrow> WriteBe16 buf off 8;
        let off = off + 2;
        buf \<leftarrow> wr off [0x00] buf;
        let off = off + 1;
        buf \<leftarrow> wr off [kStunAddrFamilyIPv4] buf;
        let off = off + 1;
        let xor_port = client_port XOR htons 0x2112;
        buf \<leftarrow> WriteBe16 buf off (htons xor_port);
        let off = off + 2;
        let xor_addr = client_ip XOR htonl kStunMagicCookie;
        buf \<leftarrow> WriteBe32 buf off (htonl xor_addr);
        Some (buf, 32) })"

text \<open>The reason is the C string without its terminator, \<^const>\<open>None\<close> for a null pointer.\<close>

definition StunBuildErrorResponse ::
  "bytes \<Rightarrow> int \<Rightarrow> bytes \<Rightarrow> u16 \<Rightarrow> bytes option \<Rightarrow> (bytes \<times> int) ub" where
  "StunBuildErrorResponse buf buf_size txn_id error_code reason =
     (let reason_str = (case reason of Some r \<Rightarrow> r | None \<Rightarrow> []);
          reason_len = int (length reason_str);
          attr_value_len = 4 + reason_len;
          padded_value_len = PadTo4 attr_value_len;
          attr_total = 4 + padded_value_len;
          total = kStunHeaderSize + attr_total in
      if buf_size < total then Some (buf, 0)
      else do {
        buf \<leftarrow> WriteStunHeader buf kStunBindingError (word_of_int attr_total) txn_id;
        let off = kStunHeaderSize;
        buf \<leftarrow> WriteBe16 buf off kStunAttrErrorCode;
        let off = off + 2;
        buf \<leftarrow> WriteBe16 buf off (word_of_int attr_value_len);
        let off = off + 2;
        buf \<leftarrow> wr off [0x00, 0x00] buf;
        let off = off + 2;
        buf \<leftarrow> wr off [ucast (error_code div 100)] buf;
        let off = off + 1;
        buf \<leftarrow> wr off [ucast (error_code mod 100)] buf;
        let off = off + 1;
        buf \<leftarrow> (if reason_len > 0 then memcpy off reason_str 0 reason_len buf else Some buf);
        let off = (if reason_len > 0 then off + reason_len else off);
        let pad = padded_value_len - attr_value_len;
        buf \<leftarrow> (if pad > 0 then wr off (replicate (nat pad) 0) buf else Some buf);
        Some (buf, total) })"

definition StunDecodeXorAddress :: "u16 \<Rightarrow> u32 \<Rightarrow> u16 \<times> u32" where
  "StunDecodeXorAddress xor_port xor_addr =
     (xor_port XOR htons 0x2112, xor_addr XOR htonl kStunMagicCookie)"

section \<open>The parser stays inside its input\<close>

definition stun_msg_ok :: "StunMessage \<Rightarrow> bool" where
  "stun_msg_ok msg \<longleftrightarrow> length (sm_transaction_id msg) = 12 \<and> length (sm_username msg) = 256 \<and>
     length (sm_integrity msg) = 20 \<and> length (sm_error_reason msg) = 128"

lemma stun_msg_ok_init [simp]: "stun_msg_ok StunMessage_init"
  by (simp add: stun_msg_ok_def StunMessage_init_def)

lemma ReadBe16_defined:
  "0 \<le> off \<Longrightarrow> off + 2 \<le> int (length buf) \<Longrightarrow>
    ReadBe16 buf off = Some (of_be16 (buf ! nat off) (buf ! nat (off + 1)))"
  by (simp add: ReadBe16_def rd8_defined)

lemma ReadBe32_defined:
  "0 \<le> off \<Longrightarrow> off + 4 \<le> int (length buf) \<Longrightarrow>
    ReadBe32 buf off = Some (of_be32 (buf ! nat off) (buf ! nat (off + 1)) (buf ! nat (off + 2))
      (buf ! nat (off + 3)))"
  by (simp add: ReadBe32_def rd8_defined)

lemma wr_in_bounds: "0 \<le> off \<Longrightarrow> off + int (length bs) \<le> int (length m) \<Longrightarrow>
    \<exists>m'. wr off bs m = Some m' \<and> length m' = length m"
  by (simp add: wr_def)

lemma memcpy_in_bounds: "0 \<le> off \<Longrightarrow> 0 \<le> soff \<Longrightarrow> 0 \<le> n \<Longrightarrow> soff + n \<le> int (length src) \<Longrightarrow>
    off + n \<le> int (length m) \<Longrightarrow> \<exists>m'. memcpy off src soff n m = Some m' \<and> length m' = length m"
  by (simp add: memcpy_defined wr_in_bounds)

lemma memcpy_terminated:
  assumes "0 \<le> soff" "0 \<le> n" "soff + n \<le> int (length src)" "n < int (length m)"
  obtains r r' where "memcpy 0 src soff n m = Some r" "wr n [0] r = Some r'" "length r' = length m"
proof -
  obtain r where "memcpy 0 src soff n m = Some r" "length r = length m"
    using memcpy_in_bounds [of 0 soff n src m] assms by auto
  moreover from this obtain r' where "wr n [0] r = Some r'" "length r' = length m"
    using wr_in_bounds [of n "[0]" r] assms by auto
  ultimately show ?thesis using that by blast
qed

text \<open>A step of the attribute walk returns, with well-formed arrays and the header fields kept.\<close>

definition stun_keeps :: "StunMessage \<Rightarrow> StunMessage ub \<Rightarrow> bool" where
  "stun_keeps msg r \<longleftrightarrow> (\<exists>msg'. r = Some msg' \<and> stun_msg_ok msg' \<and> sm_type msg' = sm_type msg \<and>
     sm_transaction_id msg' = sm_transaction_id msg)"

lemma stun_keeps_refl: "stun_msg_ok msg \<Longrightarrow> stun_keeps msg (Some msg)"
  by (simp add: stun_keeps_def)

lemma stun_keeps_if: "(c \<Longrightarrow> stun_keeps msg a) \<Longrightarrow> (\<not> c \<Longrightarrow> stun_keeps msg b) \<Longrightarrow>
    stun_keeps msg (if c then a else b)"
  by simp

lemma ParseXorMappedAddress_ok:
  assumes "0 \<le> val" "val + val_len \<le> int (length data)" "stun_msg_ok msg"
  shows "stun_keeps msg (ParseXorMappedAddress data val val_len msg)"
  using assms
  by (simp add: ParseXorMappedAddress_def rd8_defined ReadBe16_defined ReadBe32_defined
      stun_keeps_def stun_msg_ok_def)

lemma ParseErrorCode_ok:
  assumes "0 \<le> val" "val + val_len \<le> int (length data)" "stun_msg_ok msg"
  shows "stun_keeps msg (ParseErrorCode data val val_len msg)"
proof (cases "val_len > 4")
  case False
  with assms show ?thesis
    by (simp add: ParseErrorCode_def rd8_defined stun_keeps_def stun_msg_ok_def)
next
  case True
  obtain r r' where "memcpy 0 data (val + 4) (min (val_len - 4) 127) (sm_error_reason msg) = Some r"
    "wr (min (val_len - 4) 127) [0] r = Some r'" "length r' = 128"
    by (rule memcpy_terminated [of "val + 4" "min (val_len - 4) 127" data "sm_error_reason msg"])
      (use assms True in \<open>auto simp: stun_msg_ok_def\<close>)
  with True assms show ?thesis
    by (simp add: ParseErrorCode_def rd8_defined stun_keeps_def stun_msg_ok_def)
qed

lemma stun_attr_ok:
  assumes "0 \<le> val" "0 \<le> len" "val + len \<le> int (length data)" "stun_msg_ok msg"
  shows "stun_keeps msg (stun_attr data t val len msg)"
proof -
  obtain r r' where u: "memcpy 0 data val (min len 255) (sm_username msg) = Some r"
    "wr (min len 255) [0] r = Some r'" "length r' = 256"
    by (rule memcpy_terminated [of val "min len 255" data "sm_username msg"])
      (use assms in \<open>auto simp: stun_msg_ok_def\<close>)
  have i: "\<exists>m'. memcpy 0 data val 20 (sm_integrity msg) = Some m' \<and> length m' = 20" if "len = 20"
    using memcpy_in_bounds [of 0 val 20 data "sm_integrity msg"] assms that by (simp add: stun_msg_ok_def)
  show ?thesis
    unfolding stun_attr_def
  proof (intro stun_keeps_if ParseErrorCode_ok ParseXorMappedAddress_ok stun_keeps_refl)
    show "stun_keeps msg (do { let copy_len = min len 255;
        u \<leftarrow> memcpy 0 data val copy_len (sm_username msg);
        u \<leftarrow> wr copy_len [0] u;
        Some (msg\<lparr>sm_username := u, sm_username_len := copy_len, sm_has_username := True\<rparr>) })"
      using u assms by (simp add: stun_keeps_def stun_msg_ok_def)
    show "stun_keeps msg (do { i \<leftarrow> memcpy 0 data val 20 (sm_integrity msg);
        Some (msg\<lparr>sm_integrity := i, sm_has_integrity := True\<rparr>) })" if "len = 20"
      using i [OF that] assms by (auto simp: stun_keeps_def stun_msg_ok_def)
    show "stun_keeps msg (do { f \<leftarrow> ReadBe32 data val;
        Some (msg\<lparr>sm_fingerprint := f, sm_has_fingerprint := True\<rparr>) })" if "len = 4"
      using that assms by (simp add: ReadBe32_defined stun_keeps_def stun_msg_ok_def)
  qed (use assms in simp_all)
qed

lemma stun_walk_ok:
  assumes "end \<le> int (length data)" "0 \<le> offset" "stun_msg_ok msg"
  shows "stun_keeps msg (stun_walk data end offset msg)"
  using assms
proof (induction data "end" offset msg rule: stun_walk.induct)
  case (1 data "end" offset msg)
  show ?case
  proof (cases "offset + 4 \<le> end")
    case False
    then show ?thesis using 1 by (subst stun_walk.simps) (simp add: stun_keeps_refl)
  next
    case True
    obtain t where t: "ReadBe16 data offset = Some t" using True 1 by (simp add: ReadBe16_defined)
    obtain l where l: "ReadBe16 data (offset + 2) = Some l" using True 1 by (simp add: ReadBe16_defined)
    show ?thesis
    proof (cases "offset + 4 + uint l > end")
      case o: True
      then show ?thesis using 1 True t l by (subst stun_walk.simps) (simp add: Let_def stun_keeps_refl)
    next
      case False
      then obtain m where m: "stun_attr data t (offset + 4) (uint l) msg = Some m" "stun_msg_ok m"
        "sm_type m = sm_type msg" "sm_transaction_id m = sm_transaction_id msg"
        using stun_attr_ok [of "offset + 4" "uint l" data msg t] 1 by (auto simp: stun_keeps_def)
      have "0 \<le> PadTo4 (uint l)" using PadTo4_bounds(1) [of "uint l"] uint_ge_0 order_trans by blast
      then have "stun_keeps m (stun_walk data end (offset + 4 + PadTo4 (uint l)) m)"
        using "1.IH" [OF True _ _ _ refl _ m(1)] t l m False "1.prems" by simp
      with True t l m False show ?thesis
        by (subst stun_walk.simps) (simp add: Let_def stun_keeps_def)
    qed
  qed
qed

lemma StunParse_total:
  assumes "len \<le> int (length data)" "stun_msg_ok msg"
  shows "\<exists>msg' ok. StunParse data len msg = Some (msg', ok) \<and> stun_msg_ok msg' \<and>
    (ok \<longleftrightarrow> 20 \<le> len \<and> data ! 0 AND 0xC0 = 0 \<and>
       of_be32 (data ! 4) (data ! 5) (data ! 6) (data ! 7) = kStunMagicCookie \<and>
       20 + uint (of_be16 (data ! 2) (data ! 3)) \<le> len) \<and>
    (ok \<longrightarrow> sm_type msg' = of_be16 (data ! 0) (data ! 1) \<and>
       sm_transaction_id msg' = take 12 (drop 8 data) \<and> StunIsStun data len = Some True)"
proof -
  have rds: "rd8 0 data = Some (data ! 0)" "ReadBe16 data 0 = Some (of_be16 (data ! 0) (data ! 1))"
    "ReadBe16 data 2 = Some (of_be16 (data ! 2) (data ! 3))"
    "ReadBe32 data 4 = Some (of_be32 (data ! 4) (data ! 5) (data ! 6) (data ! 7))" if "20 \<le> len"
    using that assms(1) rd8_defined [of 0 data] by (cases data; simp add: ReadBe16_defined ReadBe32_defined)+
  show ?thesis
  proof (cases "20 \<le> len \<and> data ! 0 AND 0xC0 = 0 \<and>
       of_be32 (data ! 4) (data ! 5) (data ! 6) (data ! 7) = kStunMagicCookie \<and>
       20 + uint (of_be16 (data ! 2) (data ! 3)) \<le> len")
  case False
  from False assms(2) show ?thesis
    by (cases "20 \<le> len") (auto simp: StunParse_def rds stun_msg_ok_def Let_def)
next
  case True
  define m where "m = msg\<lparr>sm_type := of_be16 (data ! 0) (data ! 1), sm_transaction_id := take 12 (drop 8 data)\<rparr>"
  have L: "20 \<le> length data" using True assms(1) by linarith
  have id: "memcpy 0 data 8 12 (sm_transaction_id msg) = Some (take 12 (drop 8 data))"
    using L assms by (simp add: memcpy_defined wr_0 stun_msg_ok_def)
  have "stun_msg_ok m" using assms L by (simp add: m_def stun_msg_ok_def)
  then obtain m' where m': "stun_walk data (20 + uint (of_be16 (data ! 2) (data ! 3))) 20 m = Some m'"
    "stun_msg_ok m'" "sm_type m' = sm_type m" "sm_transaction_id m' = sm_transaction_id m"
    using stun_walk_ok [of "20 + uint (of_be16 (data ! 2) (data ! 3))" data 20 m] True assms
    by (auto simp: stun_keeps_def)
  with True assms id show ?thesis
    by (simp add: StunParse_def StunIsStun_def rds m_def Let_def ex_true)
  qed
qed

text \<open>
  C30: The STUN parser is total: on every input of the stated length it returns, without reading
  or writing out of bounds, whatever attributes the message holds. It accepts exactly the
  messages that have the two zero bits, the magic cookie and a body that fits, and reports their
  type and transaction id; every accepted message also passes the header test.
\<close>

theorem stun_parse_total:
  assumes "len \<le> int (length data)" "stun_msg_ok msg"
  shows "\<exists>msg' ok. StunParse data len msg = Some (msg', ok) \<and> stun_msg_ok msg' \<and>
    (ok \<longleftrightarrow> 20 \<le> len \<and> data ! 0 AND 0xC0 = 0 \<and>
       of_be32 (data ! 4) (data ! 5) (data ! 6) (data ! 7) = kStunMagicCookie \<and>
       20 + uint (of_be16 (data ! 2) (data ! 3)) \<le> len) \<and>
    (ok \<longrightarrow> sm_type msg' = of_be16 (data ! 0) (data ! 1) \<and>
       sm_transaction_id msg' = take 12 (drop 8 data) \<and> StunIsStun data len = Some True)"
  using StunParse_total [OF assms] .

section \<open>Round trips\<close>

text \<open>A message as the builders write it: type, body length, cookie, transaction id, body.\<close>

definition stun_frame :: "u16 \<Rightarrow> bytes \<Rightarrow> bytes \<Rightarrow> bytes" where
  "stun_frame type txn_id body =
     be16 type @ be16 (of_nat (length body)) @ be32 kStunMagicCookie @ txn_id @ body"

definition stun_attribute :: "u16 \<Rightarrow> bytes \<Rightarrow> bytes" where
  "stun_attribute type val =
     be16 type @ be16 (of_nat (length val)) @ val @
       replicate (nat (PadTo4 (int (length val)) - int (length val))) 0"

lemma length_stun_attribute [simp]: "length (stun_attribute t val) = 4 + nat (PadTo4 (int (length val)))"
  using PadTo4_bounds(1) [of "int (length val)"] by (simp add: stun_attribute_def)

lemmas stun_build_simps = WriteStunHeader_def WriteBe16_def WriteBe32_def buf_simps be16_def be32_def
  stun_frame_def stun_attribute_def

lemma rd8_shift: "rd8 (int (length pre) + int k) (pre @ xs) = (if k < length xs then Some (xs ! k) else None)"
  by (simp add: rd8_def nat_add_distrib nth_append)

lemma ReadBe16_at: "off = int (length pre) \<Longrightarrow> ReadBe16 (pre @ be16 v @ post) off = Some v"
  using rd8_shift [of pre 0] rd8_shift [of pre 1] by (simp add: ReadBe16_def be16_def)

lemma ReadBe32_at: "off = int (length pre) \<Longrightarrow> ReadBe32 (pre @ be32 v @ post) off = Some v"
  using rd8_shift [of pre 0] rd8_shift [of pre 1] rd8_shift [of pre 2] rd8_shift [of pre 3]
  by (simp add: ReadBe32_def be32_def)

lemma stun_parse_one:
  assumes txn: "length txn_id = 12" and val: "length val < 65000" and ok: "stun_msg_ok msg"
    and len: "len = int (length (stun_frame type txn_id (stun_attribute t val)))"
    and ty: "type AND 0xC000 = 0"
    and data: "data = stun_frame type txn_id (stun_attribute t val) @ rest"
  shows "StunParse data len msg = map_option (\<lambda>m. (m, True))
    (stun_attr data t 24 (int (length val)) (msg\<lparr>sm_type := type, sm_transaction_id := txn_id\<rparr>))"
proof -
  define n where "n = length (stun_attribute t val)"
  let ?hdr = "be16 type @ be16 (of_nat n) @ be32 kStunMagicCookie @ txn_id"
  have pad: "int (length val) \<le> PadTo4 (int (length val))" "PadTo4 (int (length val)) < int (length val) + 4"
    by (rule PadTo4_bounds)+
  then have n: "int n = 4 + PadTo4 (int (length val))" "n < 65536" using val by (simp_all add: n_def)
  have d: "data = ?hdr @ stun_attribute t val @ rest" by (simp add: data stun_frame_def n_def)
  have pl: "uint (of_nat n :: u16) = int n" using n by (simp add: uint_of_nat_u16)
  have vl: "uint (of_nat (length val) :: u16) = int (length val)" using val by (simp add: uint_of_nat_u16)
  have b0: "rd8 0 data = Some (ucast (drop_bit 8 type))" by (simp add: d be16_def rd8_def)
  have top: "ucast (drop_bit 8 type) AND (0xC0 :: u8) = 0"
  proof -
    have "ucast (drop_bit 8 type) AND (0xC0 :: u8) = ucast (drop_bit 8 (type AND 0xC000))"
      by (rule bit_word_eqI) (auto simp: bit_simps)
    then show ?thesis by (simp add: ty)
  qed
  have r: "ReadBe16 data 0 = Some type" "ReadBe16 data 2 = Some (of_nat n)"
    "ReadBe32 data 4 = Some kStunMagicCookie"
    unfolding d using ReadBe16_at [of 0 "[]" type] ReadBe16_at [of 2 "be16 type"]
      ReadBe32_at [of 4 "be16 type @ be16 (of_nat n)"] by simp_all
  have id: "memcpy 0 data 8 12 (sm_transaction_id msg) = Some txn_id"
    unfolding d using ok txn by (simp add: memcpy_defined wr_0 stun_msg_ok_def be16_def be32_def)
  have a: "ReadBe16 data 20 = Some t" "ReadBe16 data 22 = Some (of_nat (length val))"
    unfolding d stun_attribute_def using ReadBe16_at [of 20 ?hdr t] ReadBe16_at [of 22 "?hdr @ be16 t"] txn
    by simp_all
  have walk: "stun_walk data (20 + int n) 20 m = stun_attr data t 24 (int (length val)) m" for m
    using a vl n pad
    by (subst stun_walk.simps)
      (simp add: Let_def stun_walk.simps [of _ _ "24 + PadTo4 (int (length val))"] split: option.splits)
  have l: "len = 20 + int n" using len txn by (simp add: stun_frame_def n_def)
  show ?thesis
    using b0 top r id pl l walk by (simp add: StunParse_def map_conv_bind_option comp_def)
qed

lemma StunBuildBindingResponse_eq:
  assumes "length txn_id = 12" "buf_size \<le> int (length buf)" "32 \<le> buf_size"
  shows "StunBuildBindingResponse buf buf_size txn_id ip port = Some (wrote (stun_frame kStunBindingResponse
      txn_id (stun_attribute kStunAttrXorMappedAddress
        ([0, 1] @ be16 (htons port XOR 0x2112) @ be32 (htonl ip XOR kStunMagicCookie)))) buf, 32)"
  using assms
  by (simp add: StunBuildBindingResponse_def stun_build_simps PadTo4_eq htons_xor htonl_xor
      kStunAddrFamilyIPv4_def)

definition stun_error_value :: "u16 \<Rightarrow> bytes \<Rightarrow> bytes" where
  "stun_error_value error_code reason =
     [0, 0, ucast (error_code div 100), ucast (error_code mod 100)] @ reason"

lemma StunBuildErrorResponse_eq:
  assumes "length txn_id = 12" "buf_size \<le> int (length buf)"
    "24 + PadTo4 (4 + int (length reason)) \<le> buf_size"
  shows "StunBuildErrorResponse buf buf_size txn_id error_code (Some reason) =
    Some (wrote (stun_frame kStunBindingError txn_id
        (stun_attribute kStunAttrErrorCode (stun_error_value error_code reason))) buf,
      24 + PadTo4 (4 + int (length reason)))"
proof -
  define n where "n = length reason"
  obtain k :: nat where p: "PadTo4 (4 + int n) = 4 + int n + int k"
    using PadTo4_bounds(1) [of "4 + int n"] zle_iff_zadd by (auto simp: n_def)
  have w: "word_of_int (8 + int n + int k) = (of_nat (8 + n + k) :: u16)"
    "word_of_int (4 + int n) = (of_nat (4 + n) :: u16)" by simp_all
  have off: "(if 0 < int n then o1 + int n else o1) = o1 + int n" for o1 :: int by simp
  have copy: "off = int (length pre) \<Longrightarrow> length pre \<le> length m \<Longrightarrow>
      (if 0 < int n then memcpy off reason 0 (int n) (wrote pre m) else Some (wrote pre m)) =
      (if length pre + n \<le> length m then Some (wrote (pre @ reason) m) else None)" for off pre m
    by (simp add: n_def memcpy_all wr_wrote)
  have pad: "off = int (length pre) \<Longrightarrow> length pre \<le> length m \<Longrightarrow>
      (if 0 < int k then wr off (replicate k 0) (wrote pre m) else Some (wrote pre m)) =
      (if length pre + k \<le> length m then Some (wrote (pre @ replicate k 0) m) else None)" for off pre m
    by (simp add: wr_wrote)
  have z: "n = 0 \<Longrightarrow> reason = []" by (simp add: n_def)
  have a: "StunBuildErrorResponse buf buf_size txn_id error_code (Some reason) =
      (if length buf < 28 + n + k then None else Some (wrote (be16 kStunBindingError @ be16 (of_nat (8 + n + k)) @
         be32 kStunMagicCookie @ txn_id @ be16 kStunAttrErrorCode @ be16 (of_nat (4 + n)) @
         stun_error_value error_code reason @ replicate k 0) buf, 28 + int n + int k))"
    using assms
    unfolding StunBuildErrorResponse_def Let_def option.case n_def [symmetric] p off
    by (simp add: stun_build_simps copy pad n_def [symmetric] stun_error_value_def w not_less z add.assoc)
  have b: "length (stun_error_value error_code reason) = 4 + n" by (simp add: stun_error_value_def n_def)
  have c: "stun_frame kStunBindingError txn_id (stun_attribute kStunAttrErrorCode (stun_error_value error_code reason)) =
      be16 kStunBindingError @ be16 (of_nat (8 + n + k)) @
         be32 kStunMagicCookie @ txn_id @ be16 kStunAttrErrorCode @ be16 (of_nat (4 + n)) @
         stun_error_value error_code reason @ replicate k 0"
    using p by (simp add: stun_frame_def stun_attribute_def b add.assoc)
  show ?thesis using assms p unfolding a c by (simp add: n_def)
qed

text \<open>Parsing what a builder wrote at the start of its buffer.\<close>

lemma stun_parse_response:
  assumes txn: "length txn_id = 12" and ok: "stun_msg_ok msg"
  shows "StunParse (stun_frame kStunBindingResponse txn_id (stun_attribute kStunAttrXorMappedAddress
      ([0, 1] @ be16 p @ be32 a)) @ rest) 32 msg =
    Some (msg\<lparr>sm_type := kStunBindingResponse, sm_transaction_id := txn_id, sm_has_xor_mapped := True,
      sm_xor_mapped_port := p, sm_xor_mapped_ip := a\<rparr>, True)" (is "StunParse ?data _ _ = _")
proof -
  let ?pre = "be16 kStunBindingResponse @ be16 12 @ be32 kStunMagicCookie @ txn_id @
    be16 kStunAttrXorMappedAddress @ be16 8"
  have d: "?data = ?pre @ [0, 1] @ be16 p @ be32 a @ rest"
    by (simp add: stun_frame_def stun_attribute_def PadTo4_eq)
  have "rd8 25 ?data = Some 1" unfolding d using rd8_shift [of ?pre 1 "[0, 1] @ be16 p @ be32 a @ rest"] txn
    by (simp add: eval_nat_numeral)
  moreover have "ReadBe16 ?data 26 = Some p" unfolding d
    using ReadBe16_at [of 26 "?pre @ [0, 1]" p "be32 a @ rest"] txn by simp
  moreover have "ReadBe32 ?data 28 = Some a" unfolding d
    using ReadBe32_at [of 28 "?pre @ [0, 1] @ be16 p" a rest] txn by simp
  ultimately have "stun_attr ?data kStunAttrXorMappedAddress 24 8 m =
      Some (m\<lparr>sm_has_xor_mapped := True, sm_xor_mapped_port := p, sm_xor_mapped_ip := a\<rparr>)" for m
    by (simp add: stun_attr_def ParseXorMappedAddress_def kStunAddrFamilyIPv4_def)
  then show ?thesis
    using stun_parse_one [OF txn _ ok _ _ refl, of "[0, 1] @ be16 p @ be32 a" 32 kStunBindingResponse
        kStunAttrXorMappedAddress rest] txn
    by (simp add: stun_frame_def PadTo4_eq kStunBindingResponse_def)
qed

lemma error_code_parts:
  assumes "c < (800 :: u16)"
  shows "word_of_int (uint (ucast (c div 100) AND (0x07 :: u8)) * 100 + uint (ucast (c mod 100) :: u8)) = c"
proof -
  have q: "uint (c div 100) = uint c div 100" "uint (c mod 100) = uint c mod 100"
    by (simp_all add: uint_div uint_mod)
  have b: "uint c < 800" using assms by (simp add: word_less_def)
  have e: "0 \<le> uint c div 100" "uint c div 100 < 8" using b by (simp_all add: pos_imp_zdiv_nonneg_iff)
  have m: "(0x07 :: u8) = mask 3" by (simp add: mask_eq_exp_minus_1)
  have "uint (ucast (c div 100) AND (0x07 :: u8)) = uint c div 100"
    using e unfolding m take_bit_eq_mask [symmetric]
    by (simp add: unsigned_take_bit_eq unsigned_ucast_eq q take_bit_int_def)
  moreover have "uint (ucast (c mod 100) :: u8) = uint c mod 100"
    by (simp add: unsigned_ucast_eq q take_bit_int_def)
  ultimately show ?thesis by simp
qed

lemma stun_frame_attribute:
  "\<exists>n post. stun_frame type txn_id (stun_attribute t val) @ rest =
     be16 type @ be16 n @ be32 kStunMagicCookie @ txn_id @ be16 t @ be16 (of_nat (length val)) @ val @ post"
  unfolding stun_frame_def stun_attribute_def append_assoc by blast

lemma stun_parse_error:
  assumes txn: "length txn_id = 12" and ok: "stun_msg_ok msg" and c: "code < 800"
    and r: "reason \<noteq> []" "length reason < 128"
  shows "\<exists>msg' buf'. StunParse (stun_frame kStunBindingError txn_id (stun_attribute kStunAttrErrorCode
      (stun_error_value code reason)) @ rest) (24 + PadTo4 (4 + int (length reason))) msg = Some (msg', True) \<and>
    sm_type msg' = kStunBindingError \<and> sm_transaction_id msg' = txn_id \<and> sm_has_error msg' \<and>
    sm_error_code msg' = code \<and> sm_error_reason msg' = reason @ 0 # buf' \<and>
    sm_error_reason_len msg' = int (length reason)" (is "\<exists>msg' buf'. StunParse ?data ?len _ = _ \<and> _")
proof -
  obtain n post where d': "?data = be16 kStunBindingError @ be16 n @ be32 kStunMagicCookie @ txn_id @
      be16 kStunAttrErrorCode @ be16 (of_nat (length (stun_error_value code reason))) @
      stun_error_value code reason @ post"
    using stun_frame_attribute by blast
  let ?pre = "be16 kStunBindingError @ be16 n @ be32 kStunMagicCookie @ txn_id @
    be16 kStunAttrErrorCode @ be16 (of_nat (length (stun_error_value code reason))) @
    [0, 0, ucast (code div 100), ucast (code mod 100)]"
  have d: "?data = ?pre @ reason @ post" unfolding d' by (simp add: stun_error_value_def)
  have len: "length ?pre = 28" using txn by simp
  have rds: "rd8 26 ?data = Some (ucast (code div 100))" "rd8 27 ?data = Some (ucast (code mod 100))"
    unfolding d using txn by (simp_all add: rd8_def nth_append be16_def be32_def)
  have src: "memcpy 0 ?data 28 (int (length reason)) b = Some (wrote reason b)" if "length b = 128" for b
    unfolding d memcpy_def using rd_append [of 28 ?pre "int (length reason)" reason post] len that r
    by (simp add: wr_start)
  have attr: "stun_attr ?data kStunAttrErrorCode 24 (4 + int (length reason)) m =
      Some (m\<lparr>sm_has_error := True, sm_error_code := code,
        sm_error_reason := reason @ 0 # drop (Suc (length reason)) (sm_error_reason m),
        sm_error_reason_len := int (length reason)\<rparr>)" if "stun_msg_ok m" for m
    using that src [of "sm_error_reason m"] rds r error_code_parts [OF c]
    by (simp add: stun_attr_def ParseErrorCode_def stun_consts stun_msg_ok_def wr_terminator min_def)
  have ok': "stun_msg_ok (msg\<lparr>sm_type := kStunBindingError, sm_transaction_id := txn_id\<rparr>)"
    using ok txn by (simp add: stun_msg_ok_def)
  have val: "length (stun_error_value code reason) = 4 + length reason" by (simp add: stun_error_value_def)
  have "StunParse ?data ?len msg = map_option (\<lambda>m. (m, True)) (stun_attr ?data kStunAttrErrorCode 24
      (int (length (stun_error_value code reason))) (msg\<lparr>sm_type := kStunBindingError, sm_transaction_id := txn_id\<rparr>))"
    by (rule stun_parse_one [OF txn _ ok _ _ refl])
      (use r txn PadTo4_bounds(1) [of "4 + int (length reason)"] in \<open>auto simp: val stun_frame_def kStunBindingError_def\<close>)
  with attr [OF ok'] show ?thesis by (simp add: val)
qed

lemma htons_cookie [simp]: "htons 0x2112 = 0x1221"
  by (simp add: htons_def of_be16_def)

lemma htonl_cookie [simp]: "htonl kStunMagicCookie = 0x42A41221"
  by (simp add: htonl_def of_be32_def kStunMagicCookie_def)



theorem stun_parse_total_witness:
  "\<exists>msg' ok. StunParse (replicate 19 0) 19 StunMessage_init = Some (msg', ok) \<and> ok = False"
  using stun_parse_total [of 19 "replicate 19 0" StunMessage_init] by auto

end
