(* ===== verification/Hd_Audit.thy ===== *)
theory Hd_Audit
  imports Hd_Resolver Key_Format
begin

text \<open>
  The audit log of routing decisions, \<^verbatim>\<open>include/hyper_derp/hd_audit.h\<close> and
  \<^verbatim>\<open>src/hd_audit.cc\<close>: the in-memory ring, its snapshot, the JSON line of a record, and the
  file sink with rotation. The clock, the formatting of a timestamp (\<^verbatim>\<open>FormatTs\<close>, which calls
  \<^verbatim>\<open>gmtime_r\<close> and \<^verbatim>\<open>strftime\<close>) and the outcome of the system calls are parameters. The flusher
  thread is the repetition of \<^verbatim>\<open>FlushOnce\<close>.
\<close>

section \<open>The ring\<close>

definition kHdAuditRingSize :: nat where "kHdAuditRingSize = 4096"

record HdAuditRecord =
  ar_ts_ns :: u64
  ar_client_key :: Key
  ar_target_key :: Key
  ar_client_intent :: HdIntent
  ar_mode :: HdConnMode
  ar_deny_reason :: HdDenyReason
  ar_sub_reason :: u8
  ar_allow_upgrade :: bool
  ar_allow_downgrade :: bool
  ar_layer_allowed :: "u8 list" \<comment> \<open>5 entries\<close>

definition HdAuditRecord_init :: HdAuditRecord where
  "HdAuditRecord_init = \<lparr>ar_ts_ns = 0, ar_client_key = zero_Key, ar_target_key = zero_Key,
     ar_client_intent = Intent_kPreferDirect, ar_mode = Mode_kDenied, ar_deny_reason = Deny_kNone,
     ar_sub_reason = 0, ar_allow_upgrade = True, ar_allow_downgrade = True,
     ar_layer_allowed = replicate 5 0\<rparr>"

record HdAuditRing =
  ring_slots :: "HdAuditRecord list"
  ring_write_idx :: u64
  ring_flush_idx :: u64

definition HdAuditInit :: "HdAuditRing \<Rightarrow> HdAuditRing" where
  "HdAuditInit ring = ring\<lparr>ring_write_idx := 0,
     ring_slots := map (\<lambda>_. HdAuditRecord_init) (ring_slots ring)\<rparr>"

definition audit_record :: "u64 \<Rightarrow> Key \<Rightarrow> Key \<Rightarrow> HdClientView \<Rightarrow> HdDecision \<Rightarrow> HdAuditRecord" where
  "audit_record now client_key target_key client decision =
     \<lparr>ar_ts_ns = now, ar_client_key = client_key, ar_target_key = target_key,
      ar_client_intent = cv_intent client, ar_mode = d_mode decision,
      ar_deny_reason = d_deny_reason decision, ar_sub_reason = d_sub_reason decision,
      ar_allow_upgrade = cv_allow_upgrade client, ar_allow_downgrade = cv_allow_downgrade client,
      ar_layer_allowed = map (\<lambda>i. d_layer_allowed decision ! i) [0..<5]\<rparr>"

text \<open>\<open>now\<close> is what \<^verbatim>\<open>NowNs\<close> reads.\<close>

definition HdAuditRecordDecision ::
  "u64 \<Rightarrow> HdAuditRing \<Rightarrow> Key \<Rightarrow> Key \<Rightarrow> HdClientView \<Rightarrow> HdDecision \<Rightarrow> HdAuditRing" where
  "HdAuditRecordDecision now ring client_key target_key client decision =
     (let seq = ring_write_idx ring in
      ring\<lparr>ring_write_idx := seq + 1,
        ring_slots := (ring_slots ring)[unat (seq mod of_nat kHdAuditRingSize) :=
          audit_record now client_key target_key client decision]\<rparr>)"

definition HdAuditSnapshot :: "HdAuditRing \<Rightarrow> int \<Rightarrow> HdAuditRecord list \<times> int" where
  "HdAuditSnapshot ring max_out =
     (let write_idx = ring_write_idx ring;
          total = (if write_idx < of_nat kHdAuditRingSize then int (unat write_idx)
                   else int kHdAuditRingSize);
          n = (if total < max_out then total else max_out) in
      (map (\<lambda>i. let seq = write_idx - 1 - of_nat i in
                ring_slots ring ! unat (seq mod of_nat kHdAuditRingSize)) [0..<nat n], n))"

section \<open>The JSON line\<close>

fun IntentName :: "HdIntent \<Rightarrow> string" where
  "IntentName Intent_kPreferDirect = ''prefer_direct''"
| "IntentName Intent_kRequireDirect = ''require_direct''"
| "IntentName Intent_kPreferRelay = ''prefer_relay''"
| "IntentName Intent_kRequireRelay = ''require_relay''"
| "IntentName (Intent_unnamed _) = ''unknown''"

fun ModeName :: "HdConnMode \<Rightarrow> string" where
  "ModeName Mode_kDenied = ''denied''"
| "ModeName Mode_kDirect = ''direct''"
| "ModeName Mode_kRelayed = ''relayed''"
| "ModeName (Mode_unnamed _) = ''unknown''"

fun DenyName :: "HdDenyReason \<Rightarrow> string" where
  "DenyName Deny_kNone = ''''"
| "DenyName Deny_kPolicyForbids = ''policy_forbids''"
| "DenyName Deny_kPairForbids = ''pair_forbids''"
| "DenyName Deny_kPeerUnreachable = ''peer_unreachable''"
| "DenyName Deny_kTargetUnresponsive = ''target_unresponsive''"
| "DenyName Deny_kTooManyOpenConns = ''too_many_open_conns''"
| "DenyName Deny_kFleetRoutingNotImplemented = ''fleet_routing_not_implemented''"
| "DenyName Deny_kIntentConflict = ''intent_conflict''"
| "DenyName Deny_kPeerOverride = ''peer_override''"
| "DenyName Deny_kDirectCapExceeded = ''direct_cap_exceeded''"
| "DenyName Deny_kRegionPolicyViolation = ''region_policy_violation''"
| "DenyName Deny_kFederationDenied = ''federation_denied''"
| "DenyName Deny_kNatIncompatible = ''nat_incompatible''"
| "DenyName (Deny_unnamed _) = ''unknown''"

definition AppendAllowed :: "u8 \<Rightarrow> string" where
  "AppendAllowed allowed =
     (let direct = allowed AND kModeDirect \<noteq> 0 in
      ''['' @ (if direct then ''\"direct\"'' else []) @
      (if allowed AND kModeRelayed \<noteq> 0 then (if direct then '','' else []) @ ''\"relayed\"'' else []) @ '']'')"

definition audit_layer_names :: "string list" where
  "audit_layer_names = [''fleet'', ''federation'', ''relay'', ''peer'', ''client'']"

definition HdAuditToJson :: "(u64 \<Rightarrow> string) \<Rightarrow> bin2hex_fn \<Rightarrow> HdAuditRecord \<Rightarrow> string" where
  "HdAuditToJson format_ts bin2hex rec =
     ''{'' @ ''\"ts\":\"'' @ format_ts (ar_ts_ns rec) @ ''\"'' @
     '',\"client\":\"'' @ KeyToCkString bin2hex (ar_client_key rec) @ ''\"'' @
     '',\"target\":\"'' @ KeyToCkString bin2hex (ar_target_key rec) @ ''\"'' @
     '',\"intent\":\"'' @ IntentName (ar_client_intent rec) @ ''\"'' @
     '',\"decision\":\"'' @ ModeName (ar_mode rec) @ ''\"'' @
     (if ar_deny_reason rec \<noteq> Deny_kNone
      then '',\"reason\":\"'' @ DenyName (ar_deny_reason rec) @ ''\"'' else []) @
     '',\"allow_upgrade\":'' @ (if ar_allow_upgrade rec then ''true'' else ''false'') @
     '',\"allow_downgrade\":'' @ (if ar_allow_downgrade rec then ''true'' else ''false'') @
     '',\"chain\":['' @
     concat (map (\<lambda>i. (if i > 0 then '','' else []) @ ''{\"layer\":\"'' @ (audit_layer_names ! i) @
         ''\",\"allowed\":'' @ AppendAllowed (ar_layer_allowed rec ! i) @ ''}'') [0..<5]) @
     '']'' @ ''}''"

section \<open>The file sink\<close>

text \<open>
  Files are their contents. \<^verbatim>\<open>rename\<close> of a missing file fails and changes nothing.
\<close>

type_synonym text_files = "string \<rightharpoonup> string"

definition fs_rename :: "string \<Rightarrow> string \<Rightarrow> text_files \<Rightarrow> text_files" where
  "fs_rename from to fs = (case fs from of None \<Rightarrow> fs | Some c \<Rightarrow> (fs(from := None))(to := Some c))"

fun digits :: "nat \<Rightarrow> string" where
  "digits n = (if n < 10 then [char_of (48 + n)] else digits (n div 10) @ [char_of (48 + n mod 10)])"

declare digits.simps [simp del]

definition rotated :: "string \<Rightarrow> nat \<Rightarrow> string" where
  "rotated path i = path @ ''.'' @ digits i"

text \<open>\<open>i\<close> runs from \<^verbatim>\<open>keep - 1\<close> down to 1.\<close>

fun rotate_loop :: "string \<Rightarrow> nat \<Rightarrow> text_files \<Rightarrow> text_files" where
  "rotate_loop path 0 fs = fs"
| "rotate_loop path (Suc i) fs =
     rotate_loop path i (fs_rename (rotated path (Suc i)) (rotated path (Suc i + 1)) fs)"

record HdAuditFlusher =
  af_path :: string
  af_max_bytes :: u64
  af_keep :: nat \<comment> \<open>positive: \<^verbatim>\<open>HdAuditFlusherStart\<close> replaces other values by 10\<close>
  af_fd_open :: bool
  af_current_bytes :: u64

definition RotateFiles :: "HdAuditFlusher \<Rightarrow> text_files \<Rightarrow> text_files" where
  "RotateFiles f fs =
     (let fs = fs(rotated (af_path f) (af_keep f) := None);
          fs = rotate_loop (af_path f) (af_keep f - 1) fs in
      fs_rename (af_path f) (rotated (af_path f) 1) fs)"

text \<open>
  The outcome of a system call is a function of the file system: whether \<^verbatim>\<open>open\<close> succeeds, and
  what one \<^verbatim>\<open>write\<close> of some bytes does.
\<close>

datatype write_outcome = Wr_eintr | Wr_error | Wr_count nat

record audit_io =
  aio_open :: "text_files \<Rightarrow> bool"
  aio_write :: "text_files \<Rightarrow> string \<Rightarrow> write_outcome"

definition OpenForAppend :: "audit_io \<Rightarrow> string \<Rightarrow> text_files \<Rightarrow> text_files \<times> u64 option" where
  "OpenForAppend io path fs =
     (if aio_open io fs
      then (let c = (case fs path of Some c \<Rightarrow> c | None \<Rightarrow> []) in
            (fs(path := Some c), Some (of_nat (length c))))
      else (fs, None))"

text \<open>The loop retries interrupted writes for ever, so its model may not return.\<close>

partial_function (option) WriteAllBytes ::
  "audit_io \<Rightarrow> string \<Rightarrow> string \<Rightarrow> text_files \<Rightarrow> (text_files \<times> bool) option" where
  "WriteAllBytes io path data fs =
     (if data = [] then Some (fs, True)
      else (case aio_write io fs data of
        Wr_eintr \<Rightarrow> WriteAllBytes io path data fs
      | Wr_error \<Rightarrow> Some (fs, False)
      | Wr_count n \<Rightarrow>
          if n = 0 then Some (fs, False)
          else WriteAllBytes io path (drop n data)
            (fs(path := Some ((case fs path of Some c \<Rightarrow> c | None \<Rightarrow> []) @ take n data)))))"

text \<open>One round of the loop of \<^verbatim>\<open>FlushOnce\<close>; the flag says whether the loop goes on.\<close>

definition flush_record ::
  "audit_io \<Rightarrow> string \<Rightarrow> HdAuditFlusher \<Rightarrow> text_files \<Rightarrow> (HdAuditFlusher \<times> text_files \<times> bool) option" where
  "flush_record io line f fs =
     (let (f, fs) =
        (if af_max_bytes f > 0 \<and> af_fd_open f \<and>
            af_current_bytes f + of_nat (length line) > af_max_bytes f
         then (let fs = RotateFiles f fs in
               case OpenForAppend io (af_path f) fs of
                 (fs, Some n) \<Rightarrow> (f\<lparr>af_current_bytes := n\<rparr>, fs)
               | (fs, None) \<Rightarrow> (f\<lparr>af_fd_open := False\<rparr>, fs))
         else (f, fs)) in
      if \<not> af_fd_open f then Some (f, fs, False)
      else (case WriteAllBytes io (af_path f) line fs of
        None \<Rightarrow> None
      | Some (fs, False) \<Rightarrow> Some (f, fs, False)
      | Some (fs, True) \<Rightarrow>
          Some (f\<lparr>af_current_bytes := af_current_bytes f + of_nat (length line)\<rparr>, fs, True)))"

function flush_loop ::
  "audit_io \<Rightarrow> (HdAuditRecord \<Rightarrow> string) \<Rightarrow> HdAuditRing \<Rightarrow> u64 \<Rightarrow> HdAuditFlusher \<Rightarrow> text_files \<Rightarrow>
   (u64 \<times> HdAuditFlusher \<times> text_files) option" where
  "flush_loop io to_json ring flush_idx f fs =
     (if flush_idx < ring_write_idx ring then
        (let rec = ring_slots ring ! unat (flush_idx mod of_nat kHdAuditRingSize);
             line = to_json rec @ [CHR 0x0A] in
         case flush_record io line f fs of
           None \<Rightarrow> None
         | Some (f, fs, go) \<Rightarrow>
             if go then flush_loop io to_json ring (flush_idx + 1) f fs else Some (flush_idx, f, fs))
      else Some (flush_idx, f, fs))"
  by pat_completeness auto
termination
proof (relation "measure (\<lambda>(io, to_json, ring, flush_idx, f, fs). unat (ring_write_idx ring - flush_idx))",
    goal_cases)
  case 1
  show ?case by simp
next
  case (2 io to_json ring flush_idx f fs)
  then have "ring_write_idx ring - flush_idx \<noteq> 0" by auto
  then have "unat (ring_write_idx ring - flush_idx - 1) < unat (ring_write_idx ring - flush_idx)"
    by (simp add: unat_minus_one unat_gt_0)
  then show ?case by (simp add: diff_diff_eq)
qed

declare flush_loop.simps [simp del]

definition FlushOnce ::
  "audit_io \<Rightarrow> (HdAuditRecord \<Rightarrow> string) \<Rightarrow> HdAuditRing \<Rightarrow> HdAuditFlusher \<Rightarrow> text_files \<Rightarrow>
   (HdAuditRing \<times> HdAuditFlusher \<times> text_files) option" where
  "FlushOnce io to_json ring f fs =
     (let write_idx = ring_write_idx ring;
          flush_idx = ring_flush_idx ring;
          flush_idx = (if write_idx - flush_idx > of_nat kHdAuditRingSize
                       then write_idx - of_nat kHdAuditRingSize else flush_idx) in
      map_option (\<lambda>(flush_idx, f, fs). (ring\<lparr>ring_flush_idx := flush_idx\<rparr>, f, fs))
        (flush_loop io to_json ring flush_idx f fs))"

text \<open>Starting the sink, up to the creation of the thread; the flag says whether it is started.\<close>

definition HdAuditFlusherStart ::
  "audit_io \<Rightarrow> HdAuditRing \<Rightarrow> string \<Rightarrow> u64 \<Rightarrow> int \<Rightarrow> text_files \<Rightarrow>
   HdAuditRing \<times> HdAuditFlusher \<times> text_files \<times> bool" where
  "HdAuditFlusherStart io ring path max_bytes keep fs =
     (let f = \<lparr>af_path = path, af_max_bytes = max_bytes, af_keep = nat (if keep > 0 then keep else 10),
              af_fd_open = False, af_current_bytes = 0\<rparr> in
      if path = [] then (ring, f, fs, False)
      else case OpenForAppend io path fs of
        (fs, None) \<Rightarrow> (ring, f, fs, False)
      | (fs, Some n) \<Rightarrow> (ring\<lparr>ring_flush_idx := ring_write_idx ring\<rparr>,
          f\<lparr>af_fd_open := True, af_current_bytes := n\<rparr>, fs, True))"

section \<open>The ring holds the most recent decisions\<close>

definition audit_holds :: "HdAuditRecord list \<Rightarrow> HdAuditRing \<Rightarrow> bool" where
  "audit_holds log ring \<longleftrightarrow> length (ring_slots ring) = 4096 \<and> ring_write_idx ring = of_nat (length log) \<and>
     length log < 2 ^ 64 \<and>
     (\<forall>i < length log. length log \<le> i + 4096 \<longrightarrow> ring_slots ring ! (i mod 4096) = log ! i)"

lemma audit_slot: "n < 2 ^ 64 \<Longrightarrow> unat ((of_nat n :: u64) mod of_nat kHdAuditRingSize) = n mod 4096"
  by (simp add: kHdAuditRingSize_def unat_mod unsigned_of_nat take_bit_nat_eq_self)

lemma mod_ring_neq:
  fixes i n :: nat
  assumes "i < n" "n < i + 4096"
  shows "i mod 4096 \<noteq> n mod 4096"
proof
  assume "i mod 4096 = n mod 4096"
  then have "4096 dvd n - i" using assms(1) mod_eq_dvd_iff_nat [of i n 4096] by simp
  with assms show False by (auto dest: dvd_imp_le)
qed

lemma HdAuditRecordDecision_holds:
  assumes h: "audit_holds log ring" and len: "Suc (length log) < 2 ^ 64"
  shows "audit_holds (log @ [audit_record now ck tk cv d]) (HdAuditRecordDecision now ring ck tk cv d)"
proof -
  let ?n = "length log"
  have slot: "unat ((of_nat ?n :: u64) mod of_nat kHdAuditRingSize) = ?n mod 4096"
    using len by (simp add: audit_slot)
  have "(ring_slots ring)[?n mod 4096 := r] ! (i mod 4096) = (log @ [r]) ! i"
    if "i < Suc ?n" "Suc ?n \<le> i + 4096" for i r
  proof (cases "i = ?n")
    case True
    then show ?thesis using h by (simp add: audit_holds_def)
  next
    case False
    with that have i: "i < ?n" "?n < i + 4096" by simp_all
    from mod_ring_neq [OF this] i h show ?thesis by (simp add: audit_holds_def nth_append)
  qed
  with h len show ?thesis
    by (simp add: audit_holds_def HdAuditRecordDecision_def Let_def slot add.commute)
qed

type_synonym audit_event = "u64 \<times> Key \<times> Key \<times> HdClientView \<times> HdDecision"

definition audit_all :: "audit_event list \<Rightarrow> HdAuditRing \<Rightarrow> HdAuditRing" where
  "audit_all = fold (\<lambda>(now, ck, tk, cv, d) ring. HdAuditRecordDecision now ring ck tk cv d)"

lemma audit_all_holds:
  assumes "audit_holds log ring" "length log + length evs < 2 ^ 64"
  shows "audit_holds (log @ map (\<lambda>(now, ck, tk, cv, d). audit_record now ck tk cv d) evs) (audit_all evs ring)"
  using assms
proof (induction evs arbitrary: log ring)
  case Nil
  then show ?case by (simp add: audit_all_def)
next
  case (Cons e evs)
  obtain now ck tk cv d where e: "e = (now, ck, tk, cv, d)" by (metis surj_pair)
  have "audit_holds (log @ [audit_record now ck tk cv d]) (HdAuditRecordDecision now ring ck tk cv d)"
    using Cons.prems by (intro HdAuditRecordDecision_holds) simp_all
  from Cons.IH [OF this] Cons.prems e show ?case by (simp add: audit_all_def)
qed

lemma HdAuditInit_holds: "length (ring_slots ring) = 4096 \<Longrightarrow> audit_holds [] (HdAuditInit ring)"
  by (simp add: audit_holds_def HdAuditInit_def)

lemma HdAuditSnapshot_recent:
  assumes h: "audit_holds log ring" and m: "0 \<le> max_out"
  shows "HdAuditSnapshot ring max_out =
    (take (nat (min max_out 4096)) (rev log), min max_out (min 4096 (int (length log))))"
proof -
  let ?L = "length log"
  have w: "ring_write_idx ring = of_nat ?L" "unat (ring_write_idx ring) = ?L" and L: "?L < 2 ^ 64"
    using h by (simp_all add: audit_holds_def unsigned_of_nat take_bit_nat_eq_self)
  have total: "(if ring_write_idx ring < of_nat kHdAuditRingSize then int (unat (ring_write_idx ring))
      else int kHdAuditRingSize) = min 4096 (int ?L)"
    unfolding word_less_nat_alt w(2) by (simp add: kHdAuditRingSize_def min_def)
  have slot: "ring_slots ring ! unat ((ring_write_idx ring - 1 - of_nat i) mod of_nat kHdAuditRingSize) =
      rev log ! i" if "i < ?L" "i < 4096" for i
  proof -
    have "ring_write_idx ring - 1 - of_nat i = of_nat (?L - Suc i)"
      using that by (simp add: w of_nat_diff)
    then have "unat ((ring_write_idx ring - 1 - of_nat i) mod of_nat kHdAuditRingSize) = (?L - Suc i) mod 4096"
      using L audit_slot [of "?L - Suc i"] by simp
    moreover have "ring_slots ring ! ((?L - Suc i) mod 4096) = log ! (?L - Suc i)"
      using h that by (simp add: audit_holds_def)
    ultimately show ?thesis using that by (simp add: rev_nth)
  qed
  have "map (\<lambda>i. ring_slots ring ! unat ((ring_write_idx ring - 1 - of_nat i) mod of_nat kHdAuditRingSize))
      [0..<nat (min max_out (min 4096 (int ?L)))] = take (nat (min max_out 4096)) (rev log)"
    using m slot by (intro nth_equalityI) auto
  moreover have "(if min 4096 (int ?L) < max_out then min 4096 (int ?L) else max_out) =
      min max_out (min 4096 (int ?L))" by (simp add: min_def)
  ultimately show ?thesis
    unfolding HdAuditSnapshot_def Let_def total by simp
qed

text \<open>
  The audit ring answers with the most recent decisions: whatever sequence of decisions has
  been recorded since the start, a snapshot of up to \<open>max_out\<close> records returns the newest ones,
  newest first, each with the keys, intent, mode, reason and layer chain it was recorded with;
  only decisions older than the last 4096 are lost.
\<close>

theorem audit_snapshot_recent:
  assumes "length (ring_slots ring) = 4096" "length evs < 2 ^ 64" "0 \<le> max_out"
  shows "HdAuditSnapshot (fold (\<lambda>(now, ck, tk, cv, d) ring. HdAuditRecordDecision now ring ck tk cv d) evs
      (HdAuditInit ring)) max_out =
    (take (nat (min max_out 4096)) (rev (map (\<lambda>(now, ck, tk, cv, d). audit_record now ck tk cv d) evs)),
     min max_out (min 4096 (int (length evs))))"
  using HdAuditSnapshot_recent [OF audit_all_holds [OF HdAuditInit_holds [OF assms(1)], of evs] assms(3)] assms(2)
  by (simp add: audit_all_def)

definition example_ring :: HdAuditRing where
  "example_ring = \<lparr>ring_slots = replicate 4096 HdAuditRecord_init, ring_write_idx = 0, ring_flush_idx = 0\<rparr>"

theorem audit_snapshot_recent_witness:
  "snd (HdAuditSnapshot (fold (\<lambda>(now, ck, tk, cv, d) ring. HdAuditRecordDecision now ring ck tk cv d)
     [(1, zero_Key, zero_Key, \<lparr>cv_intent = Intent_kPreferRelay, cv_allow_upgrade = True,
        cv_allow_downgrade = True\<rparr>, HdDecision_init)] (HdAuditInit example_ring)) 10) = 1"
  by (subst audit_snapshot_recent) (simp_all add: example_ring_def)

section \<open>Rotation\<close>

definition digits_value :: "string \<Rightarrow> nat" where
  "digits_value s = fold (\<lambda>c n. 10 * n + (of_char c - 48)) s 0"

lemma digits_value_digits: "digits_value (digits n) = n"
proof (induction n rule: digits.induct)
  case (1 n)
  show ?case
  proof (cases "n < 10")
    case True
    then show ?thesis by (simp add: digits.simps [of n] digits_value_def)
  next
    case False
    with 1 have "digits_value (digits (n div 10)) = n div 10" by simp
    then show ?thesis using False by (simp add: digits.simps [of n] digits_value_def)
  qed
qed

lemma digits_inj: "digits i = digits j \<Longrightarrow> i = j"
  by (metis digits_value_digits)

lemma rotated_eq [simp]: "rotated path i = rotated path j \<longleftrightarrow> i = j" "rotated path i \<noteq> path" "path \<noteq> rotated path i"
  by (auto simp: rotated_def dest: digits_inj)

lemma fs_rename_free: "fs to = None \<Longrightarrow> from \<noteq> to \<Longrightarrow> fs_rename from to fs = fs(to := fs from, from := None)"
  by (auto simp: fs_rename_def fun_eq_iff split: option.splits)

lemma rotate_loop_step:
  "fs (rotated path (Suc (Suc n))) = None \<Longrightarrow> rotate_loop path (Suc n) fs =
     rotate_loop path n (fs(rotated path (Suc (Suc n)) := fs (rotated path (Suc n)), rotated path (Suc n) := None))"
  by (simp add: fs_rename_free)

lemma rotate_loop_numbered:
  assumes "fs (rotated path (Suc n)) = None"
  shows "rotate_loop path n fs (rotated path i) =
      (if i = 1 \<and> 0 < n then None else if 2 \<le> i \<and> i \<le> Suc n then fs (rotated path (i - 1)) else fs (rotated path i))"
  using assms
proof (induction n arbitrary: fs)
  case 0
  then show ?case by auto
next
  case (Suc n)
  let ?fs = "fs(rotated path (Suc (Suc n)) := fs (rotated path (Suc n)), rotated path (Suc n) := None)"
  have e: "?fs (rotated path (Suc n)) = None" by simp
  consider "i = Suc (Suc n)" | "i = Suc n" | "i < Suc n" | "Suc (Suc n) < i" by linarith
  then show ?case
    unfolding rotate_loop_step [of fs, OF Suc.prems] Suc.IH [of ?fs, OF e] by cases auto
qed

lemma rotate_loop_other:
  assumes "fs (rotated path (Suc n)) = None" "\<forall>i. p \<noteq> rotated path i"
  shows "rotate_loop path n fs p = fs p"
  using assms
proof (induction n arbitrary: fs)
  case 0
  then show ?case by simp
next
  case (Suc n)
  let ?fs = "fs(rotated path (Suc (Suc n)) := fs (rotated path (Suc n)), rotated path (Suc n) := None)"
  have e: "?fs (rotated path (Suc n)) = None" by simp
  show ?case
    unfolding rotate_loop_step [of fs, OF Suc.prems(1)] Suc.IH [of ?fs, OF e Suc.prems(2)]
    using Suc.prems(2) by simp
qed

lemma audit_rotation_shifts_aux:
  assumes "0 < af_keep f"
  shows "RotateFiles f fs (af_path f) = None"
    and "RotateFiles f fs (rotated (af_path f) 1) = fs (af_path f)"
    and "\<forall>i. 1 \<le> i \<and> i < af_keep f \<longrightarrow> RotateFiles f fs (rotated (af_path f) (i + 1)) = fs (rotated (af_path f) i)"
    and "\<forall>p. p \<noteq> af_path f \<and> (\<forall>i \<in> {1..af_keep f}. p \<noteq> rotated (af_path f) i) \<longrightarrow> RotateFiles f fs p = fs p"
proof -
  let ?p = "af_path f" and ?k = "af_keep f"
  let ?fs = "fs(rotated ?p ?k := None)"
  have e: "?fs (rotated ?p (Suc (?k - 1))) = None" using assms by simp
  note r = rotate_loop_numbered [of ?fs, OF e] rotate_loop_other [of ?fs, OF e]
  have a: "rotate_loop ?p (?k - 1) ?fs ?p = fs ?p" by (subst r(2)) simp_all
  have one: "rotate_loop ?p (?k - 1) ?fs (rotated ?p 1) = None" using assms by (subst r(1)) auto
  have eq: "RotateFiles f fs = (rotate_loop ?p (?k - 1) ?fs)(rotated ?p 1 := fs ?p, ?p := None)"
    using a one by (auto simp: RotateFiles_def Let_def fs_rename_def fun_eq_iff split: option.splits)
  have "RotateFiles f fs q = fs q" if q: "q \<noteq> ?p" "\<forall>i \<in> {1..?k}. q \<noteq> rotated ?p i" for q
  proof (cases "\<exists>i. q = rotated ?p i")
    case True
    then obtain i where i: "q = rotated ?p i" by blast
    with q assms have "i = 0 \<or> ?k < i" by (metis atLeastAtMost_iff less_one not_less)
    with i assms show ?thesis unfolding eq using q r(1) [of i] by auto
  next
    case False
    then show ?thesis unfolding eq using q r(2) [of q] by auto
  qed
  then show "\<forall>p. p \<noteq> ?p \<and> (\<forall>i \<in> {1..?k}. p \<noteq> rotated ?p i) \<longrightarrow> RotateFiles f fs p = fs p" by blast
  show "RotateFiles f fs ?p = None" "RotateFiles f fs (rotated ?p 1) = fs ?p"
    "\<forall>i. 1 \<le> i \<and> i < ?k \<longrightarrow> RotateFiles f fs (rotated ?p (i + 1)) = fs (rotated ?p i)"
    unfolding eq using r(1) assms by auto
qed

text \<open>
  Rotation keeps the order of the log: the active file becomes number 1, every kept file
  moves up by one, only the oldest is deleted, the active name is free again, and no other file
  is touched.
\<close>

theorem audit_rotation_shifts:
  assumes "0 < af_keep f"
  shows "RotateFiles f fs (af_path f) = None \<and>
    RotateFiles f fs (rotated (af_path f) 1) = fs (af_path f) \<and>
    (\<forall>i. 1 \<le> i \<and> i < af_keep f \<longrightarrow> RotateFiles f fs (rotated (af_path f) (i + 1)) = fs (rotated (af_path f) i)) \<and>
    (\<forall>p. p \<noteq> af_path f \<and> (\<forall>i \<in> {1..af_keep f}. p \<noteq> rotated (af_path f) i) \<longrightarrow> RotateFiles f fs p = fs p)"
  using audit_rotation_shifts_aux [OF assms, of fs] by blast

theorem audit_rotation_shifts_witness:
  "RotateFiles \<lparr>af_path = ''a'', af_max_bytes = 9, af_keep = 2, af_fd_open = True, af_current_bytes = 0\<rparr>
     [''a'' \<mapsto> ''x''] (rotated ''a'' 1) = Some ''x''"
  using audit_rotation_shifts [of "\<lparr>af_path = ''a'', af_max_bytes = 9, af_keep = 2, af_fd_open = True,
      af_current_bytes = 0\<rparr>" "[''a'' \<mapsto> ''x'']"] by simp

section \<open>The sink writes every record once, in order\<close>

text \<open>What the sink relies on: files can be opened, and a write takes at least one byte.\<close>

definition io_progress :: "audit_io \<Rightarrow> bool" where
  "io_progress io \<longleftrightarrow> (\<forall>fs. aio_open io fs) \<and>
     (\<forall>fs d. d \<noteq> [] \<longrightarrow> (\<exists>n. aio_write io fs d = Wr_count n \<and> 0 < n \<and> n \<le> length d))"

lemma WriteAllBytes_progress:
  assumes io: "io_progress io" and "fs path = Some c"
  shows "WriteAllBytes io path data fs = Some (fs(path \<mapsto> c @ data), True)"
  using assms(2)
proof (induction "length data" arbitrary: data fs c rule: less_induct)
  case less
  show ?case
  proof (cases "data = []")
    case True
    then show ?thesis using less.prems by (subst WriteAllBytes.simps) (simp add: fun_upd_idem)
  next
    case False
    with io obtain n where n: "aio_write io fs data = Wr_count n" "0 < n" "n \<le> length data"
      unfolding io_progress_def by blast
    have "WriteAllBytes io path (drop n data) (fs(path \<mapsto> c @ take n data)) =
        Some ((fs(path \<mapsto> c @ take n data))(path \<mapsto> (c @ take n data) @ drop n data), True)"
      using less.hyps [of "drop n data" "fs(path \<mapsto> c @ take n data)"] n False by simp
    then show ?thesis using n False less.prems by (subst WriteAllBytes.simps) simp
  qed
qed

definition contents :: "text_files \<Rightarrow> string \<Rightarrow> string" where
  "contents fs p = (case fs p of Some c \<Rightarrow> c | None \<Rightarrow> [])"

text \<open>The whole log on disk, oldest file first.\<close>

definition archive :: "HdAuditFlusher \<Rightarrow> text_files \<Rightarrow> string" where
  "archive f fs = concat (map (\<lambda>i. contents fs (rotated (af_path f) i)) (rev [1..<Suc (af_keep f)])) @
     contents fs (af_path f)"

lemma archive_append:
  assumes "fs (af_path f) = Some c"
  shows "archive f (fs(af_path f \<mapsto> c @ line)) = archive f fs @ line"
  using assms by (simp add: archive_def contents_def)

lemma archive_rotate:
  assumes k: "0 < af_keep f"
  shows "archive f fs = contents fs (rotated (af_path f) (af_keep f)) @ archive f (RotateFiles f fs)"
proof -
  let ?p = "af_path f" and ?k = "af_keep f" and ?fs = "RotateFiles f fs"
  note r = audit_rotation_shifts_aux [OF k, of fs]
  have c: "contents ?fs (rotated ?p (Suc i)) = contents fs (rotated ?p i)" if "i \<in> {1..<?k}" for i
    using r(3) that by (simp add: contents_def)
  have up: "[1..<Suc ?k] = 1 # map Suc [1..<?k]" using k by (simp add: upt_conv_Cons map_Suc_upt)
  have "map (\<lambda>i. contents ?fs (rotated ?p i)) [1..<Suc ?k] =
      contents fs ?p # map (\<lambda>i. contents fs (rotated ?p i)) [1..<?k]"
    unfolding up using c r(2) by (simp add: contents_def)
  then have "archive f ?fs = concat (rev (contents fs ?p # map (\<lambda>i. contents fs (rotated ?p i)) [1..<?k]))"
    using r(1) by (simp add: archive_def contents_def rev_map [symmetric])
  moreover have "[1..<Suc ?k] = [1..<?k] @ [?k]" using k by simp
  ultimately show ?thesis by (simp add: archive_def rev_map [symmetric])
qed

lemma flush_record_progress:
  assumes io: "io_progress io" and fd: "af_fd_open f" "0 < af_keep f" and c: "fs (af_path f) = Some c"
  shows "\<exists>f' fs' c' dropped. flush_record io line f fs = Some (f', fs', True) \<and> af_fd_open f' \<and>
    af_path f' = af_path f \<and> af_keep f' = af_keep f \<and> af_max_bytes f' = af_max_bytes f \<and>
    fs' (af_path f) = Some c' \<and> archive f fs @ line = dropped @ archive f fs' \<and>
    (af_max_bytes f = 0 \<longrightarrow> dropped = [] \<and> c' = c @ line)"
proof (cases "af_max_bytes f > 0 \<and> af_current_bytes f + of_nat (length line) > af_max_bytes f")
  case False
  then show ?thesis
    using fd archive_append [where f = f and fs = fs and line = line, OF c]
    by (auto simp: flush_record_def WriteAllBytes_progress [where path = "af_path f" and fs = fs, OF io c])
next
  case True
  let ?p = "af_path f"
  let ?fs = "(RotateFiles f fs)(?p \<mapsto> [])"
  have n: "RotateFiles f fs ?p = None" by (rule audit_rotation_shifts_aux) (rule fd)
  then have o: "OpenForAppend io ?p (RotateFiles f fs) = (?fs, Some 0)"
    using io by (simp add: OpenForAppend_def io_progress_def)
  have p: "?fs ?p = Some []" by simp
  have "archive f ?fs = archive f (RotateFiles f fs)" using n by (simp add: archive_def contents_def)
  then have "archive f fs @ line = contents fs (rotated ?p (af_keep f)) @ archive f (?fs(?p \<mapsto> line))"
    using archive_rotate [OF fd(2), of fs] archive_append [where f = f and fs = ?fs and line = line, OF p] by simp
  moreover have "flush_record io line f fs =
      Some (f\<lparr>af_current_bytes := 0, af_current_bytes := 0 + of_nat (length line)\<rparr>, ?fs(?p \<mapsto> line), True)"
    using True fd unfolding flush_record_def o
    by (simp add: Let_def o WriteAllBytes_progress [where path = ?p and fs = ?fs, OF io p])
  ultimately show ?thesis using fd True by auto
qed

definition audit_lines :: "(HdAuditRecord \<Rightarrow> string) \<Rightarrow> HdAuditRecord list \<Rightarrow> string" where
  "audit_lines to_json recs = concat (map (\<lambda>r. to_json r @ [CHR 0x0A]) recs)"

lemma flush_loop_progress:
  assumes io: "io_progress io" and h: "audit_holds log ring" and k: "k \<le> length log" "length log \<le> k + 4096"
    and f: "af_fd_open f" "0 < af_keep f" "fs (af_path f) = Some c"
  shows "\<exists>f' fs' c' dropped. flush_loop io to_json ring (of_nat k) f fs = Some (ring_write_idx ring, f', fs') \<and>
    af_path f' = af_path f \<and> fs' (af_path f) = Some c' \<and>
    archive f fs @ audit_lines to_json (drop k log) = dropped @ archive f fs' \<and>
    (af_max_bytes f = 0 \<longrightarrow> dropped = [] \<and> c' = c @ audit_lines to_json (drop k log))"
  using k f
proof (induction "length log - k" arbitrary: k f fs c)
  case 0
  then show ?case
    using h by (subst flush_loop.simps) (simp add: audit_holds_def audit_lines_def)
next
  case (Suc n)
  let ?line = "to_json (log ! k) @ [CHR 0x0A]"
  have L: "k < length log" "length log < 2 ^ 64" using Suc.hyps(2) h by (simp_all add: audit_holds_def)
  have lt: "(of_nat k :: u64) < ring_write_idx ring"
    using h L by (simp add: audit_holds_def word_less_nat_alt unsigned_of_nat take_bit_nat_eq_self)
  have slot: "ring_slots ring ! unat ((of_nat k :: u64) mod of_nat kHdAuditRingSize) = log ! k"
    using h L Suc.prems audit_slot [of k] by (simp add: audit_holds_def)
  obtain f1 fs1 c1 d1 where r: "flush_record io ?line f fs = Some (f1, fs1, True)" "af_fd_open f1"
    "af_path f1 = af_path f" "af_keep f1 = af_keep f" "af_max_bytes f1 = af_max_bytes f"
    "fs1 (af_path f) = Some c1" "archive f fs @ ?line = d1 @ archive f fs1"
    "af_max_bytes f = 0 \<longrightarrow> d1 = [] \<and> c1 = c @ ?line"
    using flush_record_progress [where line = ?line and fs = fs, OF io Suc.prems(3,4,5)] by blast
  have ar: "archive f1 = archive f" using r by (simp add: archive_def fun_eq_iff)
  obtain f' fs' c' d where i: "flush_loop io to_json ring (of_nat (Suc k)) f1 fs1 = Some (ring_write_idx ring, f', fs')"
    "af_path f' = af_path f1" "fs' (af_path f1) = Some c'"
    "archive f1 fs1 @ audit_lines to_json (drop (Suc k) log) = d @ archive f1 fs'"
    "af_max_bytes f1 = 0 \<longrightarrow> d = [] \<and> c' = c1 @ audit_lines to_json (drop (Suc k) log)"
  proof -
    have "n = length log - Suc k" "Suc k \<le> length log" "length log \<le> Suc k + 4096" "0 < af_keep f1"
      "fs1 (af_path f1) = Some c1"
      using Suc.hyps(2) Suc.prems r L by auto
    from Suc.hyps(1) [where fs = fs1, OF this(1,2,3) r(2) this(4,5)] that show ?thesis by blast
  qed
  have al: "audit_lines to_json (drop k log) = ?line @ audit_lines to_json (drop (Suc k) log)"
    using L by (simp add: audit_lines_def Cons_nth_drop_Suc [symmetric])
  have fl: "flush_loop io to_json ring (of_nat k) f fs = Some (ring_write_idx ring, f', fs')"
    using lt slot r(1) i(1) by (subst flush_loop.simps) (simp add: Let_def add.commute)
  have "archive f fs @ audit_lines to_json (drop k log) = (d1 @ d) @ archive f fs'"
    using r(7) i(4) unfolding al ar by (metis append_assoc)
  with fl r i al show ?case by (intro exI [of _ f'] exI [of _ fs'] exI [of _ c'] exI [of _ "d1 @ d"]) simp
qed


definition example_io :: audit_io where
  "example_io = \<lparr>aio_open = \<lambda>_. True, aio_write = \<lambda>_ d. Wr_count 1\<rparr>"


end
