(* ===== verification/Ice.thy ===== *)
theory Ice
  imports Derp_Protocol "HOL-Library.Multiset"
begin

text \<open>
  The ICE agent of \<^verbatim>\<open>include/hyper_derp/ice.h\<close> and \<^verbatim>\<open>src/ice.cc\<close>: candidates and their
  priorities, candidate pairs, connectivity checks and nomination, the session table, and the
  candidate lists carried by PeerInfo frames. A session is a state machine; its invariant holds
  in every reachable state, the checks visit every pair once in order of priority, and the
  priorities are those of RFC 8445.
\<close>

section \<open>Data\<close>

datatype IceCandidateType = Cand_kHost | Cand_kServerReflexive | Cand_kRelay | Cand_unnamed u8

fun IceCandidateType_byte :: "IceCandidateType \<Rightarrow> u8" where
  "IceCandidateType_byte Cand_kHost = 0"
| "IceCandidateType_byte Cand_kServerReflexive = 1"
| "IceCandidateType_byte Cand_kRelay = 2"
| "IceCandidateType_byte (Cand_unnamed b) = b"

definition IceCandidateType_of :: "u8 \<Rightarrow> IceCandidateType" where
  "IceCandidateType_of b =
     (if b = 0 then Cand_kHost else if b = 1 then Cand_kServerReflexive else if b = 2 then Cand_kRelay
      else Cand_unnamed b)"

record IceCandidate =
  ic_type :: IceCandidateType
  ic_ip :: u32
  ic_port :: u16
  ic_priority :: u32
  ic_occupied :: u8

definition kIceMaxCandidates :: nat where [const_simps, simp]: "kIceMaxCandidates = 16"

datatype IceState = Ice_kNew | Ice_kGathering | Ice_kChecking | Ice_kConnected | Ice_kFailed | Ice_kClosed

record IceCandidatePair =
  ip_local :: IceCandidate
  ip_remote :: IceCandidate
  ip_priority :: u64
  ip_nominated :: bool
  ip_succeeded :: bool
  ip_in_progress :: bool
  ip_failed :: bool
  ip_transaction_id :: bytes

definition kIceMaxPairs :: nat where [const_simps, simp]: "kIceMaxPairs = 64"

record IceSession =
  is_peer_key :: Key
  is_state :: IceState
  is_local_candidates :: "IceCandidate list"
  is_local_count :: nat
  is_remote_candidates :: "IceCandidate list"
  is_remote_count :: nat
  is_pairs :: "IceCandidatePair list"
  is_pair_count :: nat
  is_nominated_pair :: int
  is_last_check_ns :: u64
  is_check_interval_ms :: int
  is_occupied :: bool

definition kIceMaxSessions :: nat where "kIceMaxSessions = 256"

record IceAgent =
  ia_sessions :: "IceSession list"
  ia_session_count :: int
  ia_relay_ip :: u32
  ia_stun_port :: u16

text \<open>Memory cleared by \<^verbatim>\<open>memset\<close>.\<close>

definition IceCandidate_zero :: IceCandidate where
  "IceCandidate_zero = \<lparr>ic_type = Cand_kHost, ic_ip = 0, ic_port = 0, ic_priority = 0, ic_occupied = 0\<rparr>"

definition IceCandidatePair_zero :: IceCandidatePair where
  "IceCandidatePair_zero = \<lparr>ip_local = IceCandidate_zero, ip_remote = IceCandidate_zero, ip_priority = 0,
     ip_nominated = False, ip_succeeded = False, ip_in_progress = False, ip_failed = False,
     ip_transaction_id = replicate 12 0\<rparr>"

definition IceSession_zero :: IceSession where
  "IceSession_zero = \<lparr>is_peer_key = zero_Key, is_state = Ice_kNew,
     is_local_candidates = replicate kIceMaxCandidates IceCandidate_zero, is_local_count = 0,
     is_remote_candidates = replicate kIceMaxCandidates IceCandidate_zero, is_remote_count = 0,
     is_pairs = replicate kIceMaxPairs IceCandidatePair_zero, is_pair_count = 0,
     is_nominated_pair = 0, is_last_check_ns = 0, is_check_interval_ms = 0, is_occupied = False\<rparr>"

section \<open>Priorities\<close>

fun TypePref :: "IceCandidateType \<Rightarrow> u32" where
  "TypePref Cand_kHost = 126"
| "TypePref Cand_kServerReflexive = 100"
| "TypePref Cand_kRelay = 0"
| "TypePref (Cand_unnamed _) = 0"

definition IceCalcPriority :: "IceCandidateType \<Rightarrow> u16 \<Rightarrow> int \<Rightarrow> u32" where
  "IceCalcPriority type local_pref component =
     push_bit 24 (TypePref type) OR push_bit 8 (ucast local_pref) OR word_of_int (256 - component)"

definition IceCalcPairPriority :: "u32 \<Rightarrow> u32 \<Rightarrow> u64" where
  "IceCalcPairPriority local_prio remote_prio =
     (let g = ucast local_prio :: u64; d = ucast remote_prio; mn = min g d; mx = max g d in
      push_bit 32 mn OR push_bit 1 mx OR (if g > d then 1 else 0))"

section \<open>Sessions\<close>

definition IceInit :: "IceAgent \<Rightarrow> u32 \<Rightarrow> u16 \<Rightarrow> IceAgent" where
  "IceInit agent relay_ip stun_port =
     agent\<lparr>ia_sessions := replicate kIceMaxSessions IceSession_zero, ia_session_count := 0,
       ia_relay_ip := relay_ip, ia_stun_port := stun_port\<rparr>"

definition ice_fresh_session :: "Key \<Rightarrow> IceSession" where
  "ice_fresh_session peer_key =
     IceSession_zero\<lparr>is_peer_key := peer_key, is_state := Ice_kGathering, is_nominated_pair := -1,
       is_check_interval_ms := 50, is_occupied := True\<rparr>"

definition IceStartSession :: "IceAgent \<Rightarrow> Key \<Rightarrow> IceAgent \<times> nat option" where
  "IceStartSession agent peer_key =
     (if ia_session_count agent \<ge> int kIceMaxSessions then (agent, None)
      else case scan (\<lambda>s. \<not> is_occupied s) (ia_sessions agent) of
        Some i \<Rightarrow> (agent\<lparr>ia_sessions := (ia_sessions agent)[i := ice_fresh_session peer_key],
                         ia_session_count := ia_session_count agent + 1\<rparr>, Some i)
      | None \<Rightarrow> (agent, None))"

definition IceCandidate_make :: "IceCandidateType \<Rightarrow> u32 \<Rightarrow> u16 \<Rightarrow> IceCandidate" where
  "IceCandidate_make type ip port =
     \<lparr>ic_type = type, ic_ip = ip, ic_port = port, ic_priority = IceCalcPriority type 65535 1,
      ic_occupied = 1\<rparr>"

definition IceAddLocalCandidate ::
  "IceSession \<Rightarrow> IceCandidateType \<Rightarrow> u32 \<Rightarrow> u16 \<Rightarrow> IceSession \<times> bool" where
  "IceAddLocalCandidate session type ip port =
     (if is_local_count session \<ge> kIceMaxCandidates then (session, False)
      else (session\<lparr>is_local_candidates :=
                (is_local_candidates session)[is_local_count session := IceCandidate_make type ip port],
              is_local_count := is_local_count session + 1\<rparr>, True))"

definition IceAddRemoteCandidate ::
  "IceSession \<Rightarrow> IceCandidateType \<Rightarrow> u32 \<Rightarrow> u16 \<Rightarrow> IceSession \<times> bool" where
  "IceAddRemoteCandidate session type ip port =
     (if is_remote_count session \<ge> kIceMaxCandidates then (session, False)
      else (session\<lparr>is_remote_candidates :=
                (is_remote_candidates session)[is_remote_count session := IceCandidate_make type ip port],
              is_remote_count := is_remote_count session + 1\<rparr>, True))"

text \<open>The two loops of \<^verbatim>\<open>IceFormPairs\<close>, over the array of pairs and the number filled.\<close>

definition ice_pair :: "IceCandidate \<Rightarrow> IceCandidate \<Rightarrow> IceCandidatePair" where
  "ice_pair l r = IceCandidatePair_zero\<lparr>ip_local := l, ip_remote := r,
     ip_priority := IceCalcPairPriority (ic_priority l) (ic_priority r)\<rparr>"

fun form_pairs_inner ::
  "IceCandidate \<Rightarrow> IceCandidate list \<Rightarrow> IceCandidatePair list \<Rightarrow> nat \<Rightarrow> IceCandidatePair list \<times> nat" where
  "form_pairs_inner l [] pairs n = (pairs, n)"
| "form_pairs_inner l (r # rs) pairs n =
     (if n \<ge> kIceMaxPairs then (pairs, n)
      else form_pairs_inner l rs (pairs[n := ice_pair l r]) (n + 1))"

fun form_pairs_outer ::
  "IceCandidate list \<Rightarrow> IceCandidate list \<Rightarrow> IceCandidatePair list \<Rightarrow> nat \<Rightarrow> IceCandidatePair list \<times> nat" where
  "form_pairs_outer [] rs pairs n = (pairs, n)"
| "form_pairs_outer (l # ls) rs pairs n =
     (case form_pairs_inner l rs pairs n of (pairs, n) \<Rightarrow>
        if n \<ge> kIceMaxPairs then (pairs, n) else form_pairs_outer ls rs pairs n)"

text \<open>
  \<^verbatim>\<open>std::sort\<close> does not fix the order of pairs with equal priority: the sort is an argument,
  and \<open>std_sort\<close> is what the standard promises of it for the comparison the code passes.
\<close>

type_synonym pair_sort = "IceCandidatePair list \<Rightarrow> IceCandidatePair list"

definition std_sort :: "pair_sort \<Rightarrow> bool" where
  "std_sort srt \<longleftrightarrow> (\<forall>ps. mset (srt ps) = mset ps \<and>
     sorted_wrt (\<lambda>a b. \<not> ip_priority b > ip_priority a) (srt ps))"

definition IceFormPairs :: "pair_sort \<Rightarrow> IceSession \<Rightarrow> IceSession" where
  "IceFormPairs srt session =
     (case form_pairs_outer (take (is_local_count session) (is_local_candidates session))
         (take (is_remote_count session) (is_remote_candidates session)) (is_pairs session) 0 of
        (pairs, n) \<Rightarrow>
          session\<lparr>is_pairs := srt (take n pairs) @ drop n pairs, is_pair_count := n,
            is_state := Ice_kChecking\<rparr>)"

text \<open>\<open>fresh\<close> is what \<^verbatim>\<open>randombytes_buf\<close> yields for the transaction id.\<close>

definition IceNextCheck :: "bytes \<Rightarrow> IceSession \<Rightarrow> IceSession \<times> nat option" where
  "IceNextCheck fresh session =
     (case scan (\<lambda>p. \<not> (ip_in_progress p \<or> ip_succeeded p \<or> ip_failed p))
         (take (is_pair_count session) (is_pairs session)) of
        None \<Rightarrow> (session, None)
      | Some i \<Rightarrow>
          (session\<lparr>is_pairs := (is_pairs session)[i := (is_pairs session ! i)
             \<lparr>ip_in_progress := True, ip_transaction_id := fresh\<rparr>]\<rparr>, Some i))"

definition ice_find_txn :: "IceSession \<Rightarrow> bytes \<Rightarrow> nat option" where
  "ice_find_txn session transaction_id =
     scan (\<lambda>p. ip_transaction_id p = transaction_id \<and> ip_in_progress p)
       (take (is_pair_count session) (is_pairs session))"

definition IceProcessResponse :: "IceSession \<Rightarrow> bytes \<Rightarrow> u32 \<Rightarrow> u16 \<Rightarrow> IceSession \<times> bool" where
  "IceProcessResponse session transaction_id mapped_ip mapped_port =
     (case ice_find_txn session transaction_id of
        None \<Rightarrow> (session, False)
      | Some i \<Rightarrow>
          (let p = (is_pairs session ! i)\<lparr>ip_succeeded := True, ip_in_progress := False\<rparr> in
           if is_nominated_pair session < 0
           then (session\<lparr>is_pairs := (is_pairs session)[i := p\<lparr>ip_nominated := True\<rparr>],
                   is_nominated_pair := int i, is_state := Ice_kConnected\<rparr>, True)
           else (session\<lparr>is_pairs := (is_pairs session)[i := p]\<rparr>, False)))"

definition IceCheckFailed :: "IceSession \<Rightarrow> bytes \<Rightarrow> IceSession" where
  "IceCheckFailed session transaction_id =
     (let session = (case ice_find_txn session transaction_id of
            None \<Rightarrow> session
          | Some i \<Rightarrow> session\<lparr>is_pairs := (is_pairs session)[i := (is_pairs session ! i)
              \<lparr>ip_failed := True, ip_in_progress := False\<rparr>]\<rparr>);
          any_pending = (scan (\<lambda>p. \<not> ip_succeeded p \<and> \<not> ip_failed p)
            (take (is_pair_count session) (is_pairs session)) \<noteq> None) in
      if \<not> any_pending \<and> is_nominated_pair session < 0
      then session\<lparr>is_state := Ice_kFailed\<rparr> else session)"

definition IceGetNominated :: "IceSession \<Rightarrow> IceCandidatePair option" where
  "IceGetNominated session =
     (if is_nominated_pair session < 0 then None
      else Some (is_pairs session ! nat (is_nominated_pair session)))"

definition IceFindSession :: "IceAgent \<Rightarrow> Key \<Rightarrow> nat option" where
  "IceFindSession agent peer_key =
     scan (\<lambda>s. is_occupied s \<and> is_peer_key s = peer_key) (ia_sessions agent)"

definition IceCloseSession :: "IceAgent \<Rightarrow> Key \<Rightarrow> IceAgent" where
  "IceCloseSession agent peer_key =
     (case scan (\<lambda>s. is_occupied s \<and> is_peer_key s = peer_key) (ia_sessions agent) of
        None \<Rightarrow> agent
      | Some i \<Rightarrow> agent\<lparr>ia_sessions := (ia_sessions agent)[i := (ia_sessions agent ! i)
            \<lparr>is_state := Ice_kClosed, is_occupied := False\<rparr>],
          ia_session_count := ia_session_count agent - 1\<rparr>)"

section \<open>Candidate lists on the wire\<close>

text \<open>Addresses and ports are copied as they lie in memory (little-endian host).\<close>

definition mem32 :: "u32 \<Rightarrow> bytes" where "mem32 v = rev (be32 v)"
definition mem16 :: "u16 \<Rightarrow> bytes" where "mem16 v = rev (be16 v)"
definition of_mem32 :: "bytes \<Rightarrow> u32" where "of_mem32 bs = of_be32 (bs ! 3) (bs ! 2) (bs ! 1) (bs ! 0)"
definition of_mem16 :: "bytes \<Rightarrow> u16" where "of_mem16 bs = of_be16 (bs ! 1) (bs ! 0)"

fun serialize_loop :: "IceCandidate list \<Rightarrow> bytes \<Rightarrow> int \<Rightarrow> (bytes \<times> int) ub" where
  "serialize_loop [] buf off = Some (buf, off)"
| "serialize_loop (c # cs) buf off = do {
     buf \<leftarrow> wr off [IceCandidateType_byte (ic_type c)] buf;
     buf \<leftarrow> wr (off + 1) (mem32 (ic_ip c)) buf;
     buf \<leftarrow> wr (off + 5) (mem16 (ic_port c)) buf;
     serialize_loop cs buf (off + 7) }"

definition IceSerializeCandidates :: "IceSession \<Rightarrow> bytes \<Rightarrow> int \<Rightarrow> (bytes \<times> int) ub" where
  "IceSerializeCandidates session buf buf_size =
     (let needed = 1 + int (is_local_count session) * 7 in
      if buf_size < needed then Some (buf, 0)
      else do {
        buf \<leftarrow> wr 0 [of_nat (is_local_count session)] buf;
        serialize_loop (take (is_local_count session) (is_local_candidates session)) buf 1 })"

fun parse_candidates_loop :: "bytes \<Rightarrow> nat \<Rightarrow> int \<Rightarrow> IceSession \<Rightarrow> int \<Rightarrow> (IceSession \<times> int) ub" where
  "parse_candidates_loop data 0 off session parsed = Some (session, parsed)"
| "parse_candidates_loop data (Suc n) off session parsed = do {
     t \<leftarrow> rd8 off data;
     ip \<leftarrow> rd (off + 1) 4 data;
     port \<leftarrow> rd (off + 5) 2 data;
     let (session, ok) = IceAddRemoteCandidate session (IceCandidateType_of t) (of_mem32 ip) (of_mem16 port);
     parse_candidates_loop data n (off + 7) session (if ok then parsed + 1 else parsed) }"

definition IceParseCandidates :: "IceSession \<Rightarrow> bytes \<Rightarrow> int \<Rightarrow> (IceSession \<times> int) ub" where
  "IceParseCandidates session data len =
     (if len < 1 then Some (session, -1)
      else do {
        count \<leftarrow> rd8 0 data;
        let needed = 1 + uint count * 7;
        if len < needed then Some (session, -1)
        else parse_candidates_loop data (unat count) 1 session 0 })"

section \<open>Forming pairs\<close>

lemma form_pairs_inner_spec:
  assumes "length pairs = 64" "n \<le> 64"
  shows "\<exists>pairs' n'. form_pairs_inner l rs pairs n = (pairs', n') \<and> length pairs' = 64 \<and>
    n' = min 64 (n + length rs) \<and> take n' pairs' = take 64 (take n pairs @ map (ice_pair l) rs)"
  using assms
proof (induction rs arbitrary: pairs n)
  case Nil
  then show ?case by simp
next
  case (Cons r rs)
  show ?case
  proof (cases "n \<ge> 64")
    case True
    then show ?thesis using Cons.prems by simp
  next
    case False
    have "take (n + 1) (pairs[n := ice_pair l r]) = take n pairs @ [ice_pair l r]"
      using False Cons.prems by (simp add: take_Suc_conv_app_nth)
    moreover have "64 - n = Suc (63 - n)" using False by simp
    ultimately show ?thesis using Cons.IH [of "pairs[n := ice_pair l r]" "n + 1"] Cons.prems False by simp
  qed
qed

lemma form_pairs_outer_spec:
  assumes "length pairs = 64" "n \<le> 64"
  shows "\<exists>pairs' n'. form_pairs_outer ls rs pairs n = (pairs', n') \<and> length pairs' = 64 \<and>
    n' = min 64 (n + length ls * length rs) \<and>
    take n' pairs' = take 64 (take n pairs @ concat (map (\<lambda>l. map (ice_pair l) rs) ls))"
  using assms
proof (induction ls arbitrary: pairs n)
  case Nil
  then show ?case by simp
next
  case (Cons l ls)
  from form_pairs_inner_spec [OF Cons.prems, of l rs]
  obtain ps m where i: "form_pairs_inner l rs pairs n = (ps, m)" "length ps = 64"
    "m = min 64 (n + length rs)" "take m ps = take 64 (take n pairs @ map (ice_pair l) rs)" by blast
  show ?case
  proof (cases "m \<ge> 64")
    case True
    then show ?thesis using i Cons.prems by (simp add: min_def split: if_splits)
  next
    case False
    then have "m \<le> 64" "m = n + length rs" using i by auto
    with False i Cons.IH [of ps m] Cons.prems show ?thesis by (simp add: add.assoc)
  qed
qed

definition all_pairs :: "IceSession \<Rightarrow> IceCandidatePair list" where
  "all_pairs s = concat (map (\<lambda>l. map (ice_pair l) (take (is_remote_count s) (is_remote_candidates s)))
     (take (is_local_count s) (is_local_candidates s)))"

abbreviation ice_pairs :: "IceSession \<Rightarrow> IceCandidatePair list" where
  "ice_pairs s \<equiv> take (is_pair_count s) (is_pairs s)"

lemma IceFormPairs_spec:
  assumes srt: "std_sort srt" and len: "length (is_pairs s) = 64"
  shows "mset (ice_pairs (IceFormPairs srt s)) = mset (take 64 (all_pairs s))"
    and "sorted_wrt (\<lambda>p q. ip_priority q \<le> ip_priority p) (ice_pairs (IceFormPairs srt s))"
    and "length (is_pairs (IceFormPairs srt s)) = 64" and "is_pair_count (IceFormPairs srt s) \<le> 64"
    and "is_state (IceFormPairs srt s) = Ice_kChecking"
    and "is_nominated_pair (IceFormPairs srt s) = is_nominated_pair s"
    and "is_local_candidates (IceFormPairs srt s) = is_local_candidates s"
    and "is_remote_candidates (IceFormPairs srt s) = is_remote_candidates s"
    and "is_local_count (IceFormPairs srt s) = is_local_count s"
    and "is_remote_count (IceFormPairs srt s) = is_remote_count s"
proof -
  obtain ps n where f: "form_pairs_outer (take (is_local_count s) (is_local_candidates s))
      (take (is_remote_count s) (is_remote_candidates s)) (is_pairs s) 0 = (ps, n)" "length ps = 64"
      "n \<le> 64" "take n ps = take 64 (all_pairs s)"
    using form_pairs_outer_spec [OF len, of 0 "take (is_local_count s) (is_local_candidates s)"
        "take (is_remote_count s) (is_remote_candidates s)"]
    by (auto simp: all_pairs_def)
  have m: "mset (srt ps) = mset ps" "sorted_wrt (\<lambda>p q. ip_priority q \<le> ip_priority p) (srt ps)" for ps
    using srt by (simp_all add: std_sort_def not_less)
  have l: "length (srt (take n ps)) = n" using mset_eq_length [OF m(1) [of "take n ps"]] f(2,3) by simp
  show "mset (ice_pairs (IceFormPairs srt s)) = mset (take 64 (all_pairs s))"
    "sorted_wrt (\<lambda>p q. ip_priority q \<le> ip_priority p) (ice_pairs (IceFormPairs srt s))"
    "length (is_pairs (IceFormPairs srt s)) = 64" "is_pair_count (IceFormPairs srt s) \<le> 64"
    "is_state (IceFormPairs srt s) = Ice_kChecking"
    "is_nominated_pair (IceFormPairs srt s) = is_nominated_pair s"
    "is_local_candidates (IceFormPairs srt s) = is_local_candidates s"
    "is_remote_candidates (IceFormPairs srt s) = is_remote_candidates s"
    "is_local_count (IceFormPairs srt s) = is_local_count s"
    "is_remote_count (IceFormPairs srt s) = is_remote_count s"
    using f l m [of "take 64 (all_pairs s)"] by (simp_all add: IceFormPairs_def)
qed

lemma ice_pair_flags [simp]:
  "\<not> ip_nominated (ice_pair l r)" "\<not> ip_succeeded (ice_pair l r)" "\<not> ip_in_progress (ice_pair l r)"
  "\<not> ip_failed (ice_pair l r)" "ip_local (ice_pair l r) = l" "ip_remote (ice_pair l r) = r"
  "ip_priority (ice_pair l r) = IceCalcPairPriority (ic_priority l) (ic_priority r)"
  by (simp_all add: ice_pair_def IceCandidatePair_zero_def)

lemma formed_pair:
  assumes srt: "std_sort srt" and len: "length (is_pairs s) = 64"
    and p: "p \<in> set (ice_pairs (IceFormPairs srt s))"
  obtains l r where "p = ice_pair l r" "l \<in> set (take (is_local_count s) (is_local_candidates s))"
    "r \<in> set (take (is_remote_count s) (is_remote_candidates s))"
proof -
  from p have "p \<in> set (all_pairs s)"
    using mset_eq_setD [OF IceFormPairs_spec(1) [OF srt len]] by (auto dest: in_set_takeD)
  then show ?thesis using that by (auto simp: all_pairs_def)
qed

section \<open>The session state machine\<close>

text \<open>
  What happens to a session: candidates are added, pairs are formed once both sides are known
  (the guard of \<^verbatim>\<open>CpHandleHdPeerInfo\<close>), checks are sent, answered or failed, in any order.
\<close>

inductive ice_step :: "pair_sort \<Rightarrow> IceSession \<Rightarrow> IceSession \<Rightarrow> bool" for srt where
  add_local: "ice_step srt s (fst (IceAddLocalCandidate s type ip port))"
| add_remote: "ice_step srt s (fst (IceAddRemoteCandidate s type ip port))"
| form: "is_state s = Ice_kGathering \<Longrightarrow> 0 < is_local_count s \<Longrightarrow> 0 < is_remote_count s \<Longrightarrow>
    ice_step srt s (IceFormPairs srt s)"
| check: "ice_step srt s (fst (IceNextCheck fresh s))"
| response: "ice_step srt s (fst (IceProcessResponse s transaction_id ip port))"
| check_failed: "ice_step srt s (IceCheckFailed s transaction_id)"

definition pair_ok :: "IceCandidatePair \<Rightarrow> bool" where
  "pair_ok p \<longleftrightarrow> \<not> (ip_in_progress p \<and> (ip_succeeded p \<or> ip_failed p)) \<and> \<not> (ip_succeeded p \<and> ip_failed p) \<and>
     (ip_nominated p \<longrightarrow> ip_succeeded p) \<and>
     ip_priority p = IceCalcPairPriority (ic_priority (ip_local p)) (ic_priority (ip_remote p))"

definition ice_inv :: "IceSession \<Rightarrow> bool" where
  "ice_inv s \<longleftrightarrow> length (is_local_candidates s) = 16 \<and> is_local_count s \<le> 16 \<and>
     length (is_remote_candidates s) = 16 \<and> is_remote_count s \<le> 16 \<and>
     length (is_pairs s) = 64 \<and> is_pair_count s \<le> 64 \<and>
     sorted_wrt (\<ge>) (map ip_priority (ice_pairs s)) \<and>
     (\<forall>i < is_pair_count s. pair_ok (is_pairs s ! i)) \<and>
     (is_state s = Ice_kConnected \<longleftrightarrow> is_nominated_pair s \<noteq> -1) \<and>
     (is_nominated_pair s = -1 \<longrightarrow> (\<forall>i < is_pair_count s. \<not> ip_succeeded (is_pairs s ! i))) \<and>
     (is_nominated_pair s \<noteq> -1 \<longrightarrow> 0 \<le> is_nominated_pair s \<and>
        is_nominated_pair s < int (is_pair_count s) \<and>
        (\<forall>i < is_pair_count s. ip_nominated (is_pairs s ! i) \<longleftrightarrow> int i = is_nominated_pair s)) \<and>
     (is_state s = Ice_kFailed \<longrightarrow> (\<forall>i < is_pair_count s. ip_failed (is_pairs s ! i)))"

lemma ice_inv_fresh: "ice_inv (ice_fresh_session k)"
  by (simp add: ice_inv_def ice_fresh_session_def IceSession_zero_def)

lemma map_take_update:
  "i < length xs \<Longrightarrow> f y = f (xs ! i) \<Longrightarrow> map f (take n (xs[i := y])) = map f (take n xs)"
  by (metis list_update_id map_update take_map)

lemma ice_inv_form:
  assumes inv: "ice_inv s" and srt: "std_sort srt" and g: "is_state s = Ice_kGathering"
  shows "ice_inv (IceFormPairs srt s)"
proof -
  have len: "length (is_pairs s) = 64" and nom: "is_nominated_pair s = -1"
    using inv g by (auto simp: ice_inv_def)
  note f = IceFormPairs_spec [OF srt len]
  have p: "pair_ok (is_pairs (IceFormPairs srt s) ! i) \<and> \<not> ip_succeeded (is_pairs (IceFormPairs srt s) ! i)"
    if "i < is_pair_count (IceFormPairs srt s)" for i
  proof -
    have "is_pairs (IceFormPairs srt s) ! i \<in> set (ice_pairs (IceFormPairs srt s))"
      using that f(3,4) by (metis in_set_conv_nth length_take min.absorb2 nth_take)
    from formed_pair [OF srt len this] show ?thesis by (metis ice_pair_flags pair_ok_def)
  qed
  show ?thesis
    using inv f p nom by (simp add: ice_inv_def sorted_wrt_map)
qed

lemma ice_inv_add:
  assumes "ice_inv s"
  shows "ice_inv (fst (IceAddLocalCandidate s type ip port))" "ice_inv (fst (IceAddRemoteCandidate s type ip port))"
  using assms by (simp_all add: ice_inv_def IceAddLocalCandidate_def IceAddRemoteCandidate_def)

text \<open>Replacing one checked pair, the shape of the three remaining operations.\<close>

lemma ice_inv_update:
  assumes inv: "ice_inv s" and i: "i < is_pair_count s" and q: "pair_ok q"
    "ip_priority q = ip_priority (is_pairs s ! i)" "ip_nominated q = ip_nominated (is_pairs s ! i)"
    "ip_succeeded q \<Longrightarrow> is_nominated_pair s \<noteq> -1" "ip_failed (is_pairs s ! i) \<Longrightarrow> ip_failed q"
  shows "ice_inv (s\<lparr>is_pairs := (is_pairs s)[i := q]\<rparr>)"
proof -
  have "i < length (is_pairs s)" using inv i by (simp add: ice_inv_def)
  moreover from this have "map ip_priority (take (is_pair_count s) ((is_pairs s)[i := q])) =
      map ip_priority (ice_pairs s)" by (rule map_take_update) (rule q)
  ultimately show ?thesis
    using inv q i by (auto simp: ice_inv_def nth_list_update)
qed

lemma ice_scan:
  assumes "ice_inv s" "scan P (ice_pairs s) = Some i"
  shows "i < is_pair_count s" "P (is_pairs s ! i)" "pair_ok (is_pairs s ! i)" "i < length (is_pairs s)"
  using scan_SomeD [OF assms(2)] assms(1) by (auto simp: ice_inv_def)

lemma ice_inv_check:
  assumes "ice_inv s"
  shows "ice_inv (fst (IceNextCheck fresh s))"
proof (cases "snd (IceNextCheck fresh s)")
  case None
  then have "fst (IceNextCheck fresh s) = s" by (simp add: IceNextCheck_def split: option.splits)
  with assms show ?thesis by simp
next
  case (Some i)
  then have f: "scan (\<lambda>p. \<not> (ip_in_progress p \<or> ip_succeeded p \<or> ip_failed p)) (ice_pairs s) = Some i"
    by (simp add: IceNextCheck_def split: option.splits)
  note i = ice_scan [OF assms f]
  have "ice_inv (s\<lparr>is_pairs := (is_pairs s)[i := (is_pairs s ! i)\<lparr>ip_in_progress := True, ip_transaction_id := fresh\<rparr>]\<rparr>)"
    using i by (intro ice_inv_update [OF assms i(1)]) (simp_all add: pair_ok_def)
  then show ?thesis unfolding IceNextCheck_def f by simp
qed

lemma ice_inv_response:
  assumes inv: "ice_inv s"
  shows "ice_inv (fst (IceProcessResponse s txn ip port))"
proof (cases "ice_find_txn s txn")
  case None
  then show ?thesis using inv by (simp add: IceProcessResponse_def)
next
  case (Some i)
  note i = ice_scan [OF inv Some [unfolded ice_find_txn_def]]
  let ?p = "(is_pairs s ! i)\<lparr>ip_succeeded := True, ip_in_progress := False\<rparr>"
  show ?thesis
  proof (cases "is_nominated_pair s = -1")
    case False
    then have "0 \<le> is_nominated_pair s" using inv by (auto simp: ice_inv_def)
    moreover have "ice_inv (s\<lparr>is_pairs := (is_pairs s)[i := ?p]\<rparr>)"
      using i False by (intro ice_inv_update [OF inv i(1)]) (simp_all add: pair_ok_def)
    ultimately show ?thesis by (simp add: IceProcessResponse_def Some Let_def)
  next
    case True
    have m: "map ip_priority (take (is_pair_count s) ((is_pairs s)[i := ?p\<lparr>ip_nominated := True\<rparr>])) =
        map ip_priority (ice_pairs s)" by (rule map_take_update [OF i(4)]) simp
    have n: "\<not> ip_nominated (is_pairs s ! j)" if "j < is_pair_count s" for j
      using inv True that by (auto simp: ice_inv_def pair_ok_def)
    show ?thesis
      using inv True i n m by (auto simp: IceProcessResponse_def Some Let_def ice_inv_def nth_list_update pair_ok_def)
  qed
qed

lemma ice_inv_failed:
  assumes inv: "ice_inv s"
  shows "ice_inv (IceCheckFailed s txn)"
proof -
  define t where "t = (case ice_find_txn s txn of None \<Rightarrow> s
     | Some i \<Rightarrow> s\<lparr>is_pairs := (is_pairs s)[i := (is_pairs s ! i)\<lparr>ip_failed := True, ip_in_progress := False\<rparr>]\<rparr>)"
  have t: "ice_inv t"
  proof (cases "ice_find_txn s txn")
    case None
    then show ?thesis using inv by (simp add: t_def)
  next
    case (Some i)
    note i = ice_scan [OF inv Some [unfolded ice_find_txn_def]]
    show ?thesis unfolding t_def Some option.case
      using i by (intro ice_inv_update [OF inv i(1)]) (auto simp: pair_ok_def)
  qed
  have "ice_inv (t\<lparr>is_state := Ice_kFailed\<rparr>)"
    if "scan (\<lambda>p. \<not> ip_succeeded p \<and> \<not> ip_failed p) (ice_pairs t) = None" "is_nominated_pair t < 0"
  proof -
    have "is_nominated_pair t = -1" using t that(2) by (auto simp: ice_inv_def)
    moreover have "ip_failed (is_pairs t ! i)" if "i < is_pair_count t" for i
    proof -
      have "is_pairs t ! i \<in> set (ice_pairs t)" using that t by (force simp: ice_inv_def in_set_conv_nth)
      then show ?thesis
        using \<open>scan _ _ = None\<close> t that \<open>is_nominated_pair t = -1\<close> by (auto simp: scan_None_iff ice_inv_def)
    qed
    ultimately show ?thesis using t by (simp add: ice_inv_def)
  qed
  with t show ?thesis unfolding IceCheckFailed_def t_def [symmetric] by (simp add: Let_def)
qed

lemma ice_step_inv:
  assumes srt: "std_sort srt" and "ice_step srt s t" and "ice_inv s"
  shows "ice_inv t"
  using assms(2,3)
  by (induction rule: ice_step.induct)
    (auto intro: ice_inv_add ice_inv_form [OF _ srt] ice_inv_check ice_inv_response ice_inv_failed)

lemma ice_reachable_inv:
  assumes srt: "std_sort srt" and run: "(ice_step srt)\<^sup>*\<^sup>* (ice_fresh_session k) s"
  shows "ice_inv s"
  using run by (induction rule: rtranclp_induct) (auto intro: ice_inv_fresh ice_step_inv [OF srt])

definition ice_sort :: pair_sort where
  "ice_sort ps = rev (sort_key ip_priority ps)"

lemma std_sort_ice_sort: "std_sort ice_sort"
  unfolding std_sort_def ice_sort_def
  using sorted_sort_key [of ip_priority] by (auto simp: sorted_wrt_rev not_less sorted_wrt_map)

lemma filter_upt_single:
  assumes "n < m" "\<forall>i < m. P i \<longleftrightarrow> i = n"
  shows "filter P [0..<m] = [n]"
proof -
  have "filter P [0..<m] = filter (\<lambda>i. i = n) [0..<m]" using assms by (intro filter_cong) auto
  also have "\<dots> = [n]" using assms(1) by (induction m) (auto simp: less_Suc_eq filter_empty_conv)
  finally show ?thesis .
qed



section \<open>Every pair is checked once, best first\<close>

fun run_checks :: "bytes list \<Rightarrow> IceSession \<Rightarrow> nat option list" where
  "run_checks [] s = []"
| "run_checks (fresh # ids) s = (case IceNextCheck fresh s of (s', r) \<Rightarrow> r # run_checks ids s')"

definition started :: "IceCandidatePair \<Rightarrow> bool" where
  "started p \<longleftrightarrow> ip_in_progress p \<or> ip_succeeded p \<or> ip_failed p"

lemma IceNextCheck_prefix:
  assumes n: "is_pair_count s \<le> length (is_pairs s)" and k: "k \<le> is_pair_count s"
    and pre: "\<forall>i < k. started (is_pairs s ! i)"
    and post: "\<forall>i. k \<le> i \<longrightarrow> i < is_pair_count s \<longrightarrow> \<not> started (is_pairs s ! i)"
  shows "IceNextCheck fresh s = (if k = is_pair_count s then (s, None)
    else (s\<lparr>is_pairs := (is_pairs s)[k := (is_pairs s ! k)\<lparr>ip_in_progress := True, ip_transaction_id := fresh\<rparr>]\<rparr>, Some k))"
proof (cases "k = is_pair_count s")
  case True
  then have "scan (\<lambda>p. \<not> started p) (ice_pairs s) = None"
    using pre n by (auto simp: scan_None_iff in_set_conv_nth)
  with True show ?thesis by (simp add: IceNextCheck_def started_def)
next
  case False
  then have "scan (\<lambda>p. \<not> started p) (ice_pairs s) = Some k"
    using pre post n k by (auto simp: scan_Some_iff)
  with False show ?thesis by (simp add: IceNextCheck_def started_def)
qed

lemma run_checks_from:
  assumes "is_pair_count s \<le> length (is_pairs s)" "k \<le> is_pair_count s"
    and "\<forall>i < k. started (is_pairs s ! i)"
    and "\<forall>i. k \<le> i \<longrightarrow> i < is_pair_count s \<longrightarrow> \<not> started (is_pairs s ! i)"
  shows "run_checks ids s = take (length ids) (map Some [k..<is_pair_count s] @ replicate (length ids) None)"
  using assms
proof (induction ids arbitrary: s k)
  case Nil
  then show ?case by simp
next
  case (Cons fresh ids)
  show ?case
  proof (cases "k = is_pair_count s")
    case True
    have "run_checks ids s = replicate (length ids) None" using Cons.IH [OF Cons.prems] True by simp
    with True IceNextCheck_prefix [OF Cons.prems, of fresh] show ?thesis by simp
  next
    case False
    let ?s = "s\<lparr>is_pairs := (is_pairs s)[k := (is_pairs s ! k)\<lparr>ip_in_progress := True, ip_transaction_id := fresh\<rparr>]\<rparr>"
    have "run_checks ids ?s = take (length ids) (map Some [Suc k..<is_pair_count ?s] @ replicate (length ids) None)"
      using Cons.prems False
      by (intro Cons.IH) (auto simp: nth_list_update less_Suc_eq started_def)
    moreover have "[k..<is_pair_count s] = k # [Suc k..<is_pair_count s]"
      using Cons.prems False by (simp add: upt_conv_Cons)
    ultimately show ?thesis using False IceNextCheck_prefix [OF Cons.prems, of fresh]
      by (simp add: min_def del: replicate_Suc)
  qed
qed

lemma all_pairs_product:
  "map (\<lambda>p. (ip_local p, ip_remote p)) (concat (map (\<lambda>l. map (ice_pair l) rs) ls)) = List.product ls rs"
  by (induction ls) (simp_all add: comp_def)


definition example_session :: IceSession where
  "example_session = fst (IceAddRemoteCandidate
     (fst (IceAddLocalCandidate (ice_fresh_session zero_Key) Cand_kHost 1 2)) Cand_kRelay 3 4)"


section \<open>Priorities of RFC 8445\<close>

lemma uint_push_bit: "2 ^ k * uint v < 2 ^ LENGTH('a) \<Longrightarrow> uint (push_bit k v) = 2 ^ k * uint v"
  for v :: "'a :: len word"
  unfolding unsigned_push_bit_eq by (simp add: push_bit_eq_mult take_bit_int_eq_self mult.commute)

lemma uint_add_small: "uint v + uint w < 2 ^ LENGTH('a) \<Longrightarrow> uint (v + w) = uint v + uint w"
  for v :: "'a :: len word"
  by (simp add: uint_word_ariths)

lemma IceCalcPriority_rfc:
  assumes "1 \<le> component" "component \<le> 256"
  shows "uint (IceCalcPriority t lp component) = 2 ^ 24 * uint (TypePref t) + 2 ^ 8 * uint lp + (256 - component)"
proof -
  define w :: u32 where "w = word_of_int (256 - component)"
  have small: "0 \<le> v \<Longrightarrow> v < 256 \<Longrightarrow> uint (word_of_int v :: u32) = v" for v by (simp add: uint_word_of_int)
  have c: "uint w = 256 - component" using assms unfolding w_def by (intro small) simp_all
  have t: "uint (TypePref t) < 128" by (cases t) simp_all
  have cb: "\<not> bit w n" if "8 \<le> n" for n
  proof -
    have "take_bit 8 w = w" using c assms by (intro take_bit_eq_self_u32) simp
    then show ?thesis using that bit_take_bit_iff [of 8 w n] by auto
  qed
  have lb: "\<not> bit lp n" if "16 \<le> n" for n using that bit_imp_le_length [of lp n] by auto
  have "push_bit 8 (ucast lp) AND w = 0"
    by (rule bit_word_eqI) (auto simp: bit_simps cb)
  then have o1: "push_bit 8 (ucast lp) OR w = push_bit 8 (ucast lp) + w" by (simp add: disjunctive_add_eq_or)
  have "push_bit 24 (TypePref t) AND (push_bit 8 (ucast lp) OR w) = 0"
    by (rule bit_word_eqI) (auto simp: bit_simps cb lb)
  then have o2: "IceCalcPriority t lp component = push_bit 24 (TypePref t) + (push_bit 8 (ucast lp) + w)"
    unfolding IceCalcPriority_def w_def [symmetric] by (simp only: o1 disjunctive_add_eq_or)
  have lp: "uint lp < 65536" using uint_bounded [of lp] by simp
  have a: "uint (push_bit 24 (TypePref t)) = 2 ^ 24 * uint (TypePref t)" by (cases t) simp_all
  have b: "uint (push_bit 8 (ucast lp) :: u32) = 2 ^ 8 * uint lp"
    using lp uint_push_bit [of 8 "ucast lp :: u32"] by (simp add: unsigned_ucast_eq take_bit_int_eq_self)
  have d: "uint (push_bit 8 (ucast lp) + w) = 2 ^ 8 * uint lp + (256 - component)"
    using lp assms by (subst uint_add_small) (simp_all add: b c)
  show ?thesis
    unfolding o2 using lp assms t d a by (subst uint_add_small) (simp_all only: a d, simp_all)
qed

lemma IceCalcPairPriority_rfc:
  assumes "uint g < 2 ^ 31" "uint d < 2 ^ 31"
  shows "uint (IceCalcPairPriority g d) =
    2 ^ 32 * min (uint g) (uint d) + 2 * max (uint g) (uint d) + (if uint g > uint d then 1 else 0)"
proof -
  let ?g = "ucast g :: u64" and ?d = "ucast d :: u64"
  have u: "uint ?g = uint g" "uint ?d = uint d"
    using assms by (simp_all add: unsigned_ucast_eq take_bit_int_eq_self)
  then have lt: "?d < ?g \<longleftrightarrow> uint d < uint g" by (simp add: word_less_def)
  have mm: "uint (min ?g ?d) = min (uint g) (uint d)" "uint (max ?g ?d) = max (uint g) (uint d)"
    by (auto simp: min_def max_def word_le_def u)
  let ?b = "(if ?g > ?d then 1 else 0) :: u64"
  have x: "\<not> bit (max ?g ?d) n" if "31 \<le> n" for n
  proof -
    have "uint (max ?g ?d) < 2 ^ 31" using assms by (simp add: mm)
    then have "take_bit 31 (max ?g ?d) = max ?g ?d"
      by (intro word_uint_eqI) (simp add: unsigned_take_bit_eq take_bit_int_eq_self)
    then show ?thesis using that bit_take_bit_iff [of 31 "max ?g ?d" n] by auto
  qed
  have "push_bit 1 v AND (1 :: u64) = 0" for v by (simp add: and_one_eq push_bit_eq_mult mod_2_eq_odd)
  then have "push_bit 1 (max ?g ?d) AND ?b = 0" by simp
  then have o1: "push_bit 1 (max ?g ?d) OR ?b = push_bit 1 (max ?g ?d) + ?b"
    by (simp only: disjunctive_add_eq_or)
  have low: "push_bit 32 v AND (push_bit k m OR b) = 0"
    if "k \<le> 1" "\<And>n. 31 \<le> n \<Longrightarrow> \<not> bit m n" "\<And>n. 1 \<le> n \<Longrightarrow> \<not> bit b n" for v m b :: u64 and k
    using that by (intro bit_word_eqI) (auto simp: bit_simps)
  have "push_bit 32 (min ?g ?d) AND (push_bit 1 (max ?g ?d) OR ?b) = 0"
    by (rule low) (auto simp: bit_1_iff dest: x)
  then have o2: "IceCalcPairPriority g d = push_bit 32 (min ?g ?d) + (push_bit 1 (max ?g ?d) + ?b)"
    unfolding IceCalcPairPriority_def Let_def by (simp only: o1 disjunctive_add_eq_or)
  have a: "uint (push_bit 32 (min ?g ?d)) = 2 ^ 32 * min (uint g) (uint d)"
    unfolding mm(1) [symmetric] using assms mm by (intro uint_push_bit) simp
  have b: "uint (push_bit 1 (max ?g ?d)) = 2 * max (uint g) (uint d)"
    unfolding mm(2) [symmetric] using assms mm uint_push_bit [of 1 "max ?g ?d"] by simp
  have c: "uint (push_bit 1 (max ?g ?d) + ?b) = 2 * max (uint g) (uint d) + (if uint g > uint d then 1 else 0)"
  proof -
    have e: "uint ?b = (if uint g > uint d then 1 else 0)" by (simp add: lt)
    show ?thesis using assms by (subst uint_add_small) (simp_all only: b e, auto)
  qed
  show ?thesis unfolding o2 using assms by (subst uint_add_small) (simp_all only: a c, auto)
qed

text \<open>
  Priorities are those of RFC 8445: for every candidate type, local preference and component
  the candidate priority is \<open>2^24 * type + 2^8 * local + (256 - component)\<close>, and for two
  candidates with such priorities the bitwise pair priority is
  \<open>2^32 * min + 2 * max + (G > D)\<close>; so host pairs come before server-reflexive pairs, and these
  before relayed ones.
\<close>

theorem ice_priorities_rfc:
  assumes "1 \<le> component" "component \<le> 256"
  shows "uint (IceCalcPriority t lp component) =
      2 ^ 24 * uint (TypePref t) + 2 ^ 8 * uint lp + (256 - component) \<and>
    (let g = IceCalcPriority t lp component; d = IceCalcPriority t' lp' component in
       uint (IceCalcPairPriority g d) = 2 ^ 32 * min (uint g) (uint d) + 2 * max (uint g) (uint d) +
         (if uint g > uint d then 1 else 0)) \<and>
    IceCalcPriority Cand_kRelay lp component < IceCalcPriority Cand_kServerReflexive lp' component \<and>
    IceCalcPriority Cand_kServerReflexive lp component < IceCalcPriority Cand_kHost lp' component"
proof -
  note p = IceCalcPriority_rfc [OF assms]
  have b: "uint (x :: u16) < 65536" for x using uint_bounded [of x] by simp
  have t: "uint (TypePref c) \<le> 126" for c by (cases c) simp_all
  have "uint (IceCalcPriority c x component) < 2 ^ 31" for c x
  proof -
    have "16777216 * uint (TypePref c) + 256 * uint x + (256 - component) < 2147483648"
      using t [of c] b [of x] assms by linarith
    then show ?thesis by (simp add: p)
  qed
  moreover have "256 * uint lp < 436207616 + 256 * uint lp'" "256 * uint lp < 1677721600 + 256 * uint lp'"
    using b [of lp] uint_ge_0 [of lp'] by linarith+
  ultimately show ?thesis
    using p IceCalcPairPriority_rfc by (simp add: word_less_def Let_def)
qed

theorem ice_priorities_rfc_witness:
  "uint (IceCalcPriority Cand_kHost 65535 1) = 2130706431"
  using ice_priorities_rfc [of 1 Cand_kHost 65535 Cand_kHost 65535] by simp

section \<open>Candidate lists\<close>

definition cand_bytes :: "IceCandidate \<Rightarrow> bytes" where
  "cand_bytes c = IceCandidateType_byte (ic_type c) # mem32 (ic_ip c) @ mem16 (ic_port c)"

lemma length_cand_bytes [simp]: "length (cand_bytes c) = 7"
  by (simp add: cand_bytes_def mem32_def mem16_def)

lemma length_concat_cand_bytes [simp]: "length (concat (map cand_bytes cs)) = 7 * length cs"
  by (induction cs) simp_all

lemma length_mem [simp]: "length (mem32 v) = 4" "length (mem16 w) = 2"
  by (simp_all add: mem32_def mem16_def)

lemma of_mem_mem [simp]: "of_mem32 (mem32 v) = v" "of_mem16 (mem16 w) = w"
  by (simp_all add: of_mem32_def mem32_def of_mem16_def mem16_def be32_def be16_def)

lemma serialize_loop_spec:
  assumes "length pre + 7 * length cs \<le> length m"
  shows "serialize_loop cs (wrote pre m) (int (length pre)) =
    Some (wrote (pre @ concat (map cand_bytes cs)) m, int (length pre) + 7 * int (length cs))"
  using assms
proof (induction cs arbitrary: pre)
  case Nil
  then show ?case by simp
next
  case (Cons c cs)
  have l: "length (pre @ cand_bytes c) + 7 * length cs \<le> length m" using Cons.prems by simp
  have "wr (int (length pre)) [IceCandidateType_byte (ic_type c)] (wrote pre m) =
      Some (wrote (pre @ [IceCandidateType_byte (ic_type c)]) m)"
    using Cons.prems by (simp add: wr_wrote)
  moreover have "wr (int (length pre) + 1) (mem32 (ic_ip c)) (wrote (pre @ [IceCandidateType_byte (ic_type c)]) m) =
      Some (wrote (pre @ IceCandidateType_byte (ic_type c) # mem32 (ic_ip c)) m)"
    using Cons.prems by (simp add: wr_wrote)
  moreover have "wr (int (length pre) + 5) (mem16 (ic_port c))
      (wrote (pre @ IceCandidateType_byte (ic_type c) # mem32 (ic_ip c)) m) = Some (wrote (pre @ cand_bytes c) m)"
    using Cons.prems by (simp add: wr_wrote cand_bytes_def)
  ultimately show ?case using Cons.IH [OF l] by simp
qed

lemma parse_candidates_loop_spec:
  assumes "length (is_remote_candidates t) = 16" "is_remote_count t + length cs \<le> 16"
    and "\<forall>c \<in> set cs. IceCandidateType_of (IceCandidateType_byte (ic_type c)) = ic_type c"
  shows "\<exists>t'. parse_candidates_loop (pre @ concat (map cand_bytes cs) @ rest) (length cs) (int (length pre)) t k =
      Some (t', k + int (length cs)) \<and> is_remote_count t' = is_remote_count t + length cs \<and>
    take (is_remote_count t') (is_remote_candidates t') =
      take (is_remote_count t) (is_remote_candidates t) @
        map (\<lambda>c. IceCandidate_make (ic_type c) (ic_ip c) (ic_port c)) cs"
  using assms
proof (induction cs arbitrary: pre t k)
  case Nil
  then show ?case by simp
next
  case (Cons c cs)
  let ?d = "pre @ concat (map cand_bytes (c # cs)) @ rest"
  let ?t = "t\<lparr>is_remote_candidates := (is_remote_candidates t)[is_remote_count t :=
      IceCandidate_make (ic_type c) (ic_ip c) (ic_port c)], is_remote_count := is_remote_count t + 1\<rparr>"
  have add: "IceAddRemoteCandidate t (ic_type c) (ic_ip c) (ic_port c) = (?t, True)"
    using Cons.prems by (simp add: IceAddRemoteCandidate_def)
  have ty: "rd8 (int (length pre)) ?d = Some (IceCandidateType_byte (ic_type c))"
    by (simp add: rd8_def cand_bytes_def)
  have ip: "rd (int (length pre) + 1) 4 ?d = Some (mem32 (ic_ip c))"
    using rd_append [of "int (length pre) + 1" "pre @ [IceCandidateType_byte (ic_type c)]" 4 "mem32 (ic_ip c)"
        "mem16 (ic_port c) @ concat (map cand_bytes cs) @ rest"] by (simp add: cand_bytes_def)
  have port: "rd (int (length pre) + 5) 2 ?d = Some (mem16 (ic_port c))"
    using rd_append [of "int (length pre) + 5" "pre @ IceCandidateType_byte (ic_type c) # mem32 (ic_ip c)" 2
        "mem16 (ic_port c)" "concat (map cand_bytes cs) @ rest"] by (simp add: cand_bytes_def)
  have tk: "take (is_remote_count ?t) (is_remote_candidates ?t) =
      take (is_remote_count t) (is_remote_candidates t) @ [IceCandidate_make (ic_type c) (ic_ip c) (ic_port c)]"
    using Cons.prems by (simp add: take_Suc_conv_app_nth)
  have d: "?d = (pre @ cand_bytes c) @ concat (map cand_bytes cs) @ rest" by simp
  have "\<exists>t'. parse_candidates_loop ?d (length cs) (int (length (pre @ cand_bytes c))) ?t (k + 1) =
      Some (t', k + 1 + int (length cs)) \<and> is_remote_count t' = is_remote_count ?t + length cs \<and>
      take (is_remote_count t') (is_remote_candidates t') = take (is_remote_count ?t) (is_remote_candidates ?t) @
        map (\<lambda>c. IceCandidate_make (ic_type c) (ic_ip c) (ic_port c)) cs"
    unfolding d using Cons.prems by (intro Cons.IH) simp_all
  with add ty ip port tk Cons.prems(3) show ?case by (simp del: concat.simps add: algebra_simps)
qed

lemma parse_candidates_total:
  assumes "0 \<le> off" "off + 7 * int n \<le> int (length data)" "ice_inv t"
  shows "\<exists>t' p. parse_candidates_loop data n off t k = Some (t', p) \<and> ice_inv t' \<and> k \<le> p \<and> p \<le> k + int n"
  using assms
proof (induction n arbitrary: off t k)
  case 0
  then show ?case by simp
next
  case (Suc n)
  obtain ty ip port where r: "rd8 off data = Some ty" "rd (off + 1) 4 data = Some ip" "rd (off + 5) 2 data = Some port"
    using Suc.prems by (simp add: rd8_def rd_defined)
  obtain t' ok where a: "IceAddRemoteCandidate t (IceCandidateType_of ty) (of_mem32 ip) (of_mem16 port) = (t', ok)"
    by fastforce
  then have "ice_inv t'" using ice_inv_add(2) [OF Suc.prems(3)] by (metis fst_conv)
  with Suc.IH [of "off + 7" t' "if ok then k + 1 else k"] Suc.prems r a show ?case by (fastforce split: if_splits)
qed

lemma IceParseCandidates_total:
  assumes t: "ice_inv t" and len: "len \<le> int (length data)"
  shows "\<exists>t' p. IceParseCandidates t data len = Some (t', p) \<and> ice_inv t' \<and>
      (p = -1 \<or> 1 \<le> len \<and> 0 \<le> p \<and> p \<le> uint (data ! 0))"
proof (cases "len < 1")
  case True
  then show ?thesis using t by (simp add: IceParseCandidates_def)
next
  case False
  then have "rd8 0 data = Some (data ! 0)" using len by (cases data) (simp_all add: rd8_def)
  then have e: "IceParseCandidates t data len = (if len < 1 + uint (data ! 0) * 7 then Some (t, -1)
      else parse_candidates_loop data (unat (data ! 0)) 1 t 0)"
    using False by (simp add: IceParseCandidates_def Let_def)
  have n: "int (unat (data ! 0)) = uint (data ! 0)" by (rule uint_nat [symmetric])
  show ?thesis
  proof (cases "len < 1 + uint (data ! 0) * 7")
    case True
    then show ?thesis using e t by simp
  next
    case fits: False
    have "1 + 7 * int (unat (data ! 0)) \<le> int (length data)" unfolding n using fits len by linarith
    then obtain t' p where "parse_candidates_loop data (unat (data ! 0)) 1 t 0 = Some (t', p)" "ice_inv t'"
      "0 \<le> p" "p \<le> 0 + int (unat (data ! 0))"
      using parse_candidates_total [of 1 "unat (data ! 0)" data t 0] t by auto
    then show ?thesis unfolding e n using fits False by simp
  qed
qed

text \<open>
  C34: Candidate lists survive the wire: what one side serialises from its local candidates the
  other side parses into its remote candidates, in order and with the same priorities. Parsing
  arbitrary bytes never reads out of bounds, keeps the session's invariant and stores at most
  the announced number of candidates.
\<close>

theorem ice_candidates_roundtrip:
  assumes s: "ice_inv s" and t: "ice_inv t" "is_remote_count t = 0"
    and buf: "buf_size \<le> int (length buf)" "1 + 7 * int (is_local_count s) \<le> buf_size"
    and ty: "\<forall>c \<in> set (take (is_local_count s) (is_local_candidates s)).
      IceCandidateType_of (IceCandidateType_byte (ic_type c)) = ic_type c"
    and len: "len \<le> int (length data)"
  shows "(\<exists>buf' n t'. IceSerializeCandidates s buf buf_size = Some (buf', n) \<and>
      IceParseCandidates t buf' n = Some (t', int (is_local_count s)) \<and>
      take (is_remote_count t') (is_remote_candidates t') =
        map (\<lambda>c. IceCandidate_make (ic_type c) (ic_ip c) (ic_port c))
          (take (is_local_count s) (is_local_candidates s))) \<and>
    (\<exists>t' p. IceParseCandidates t data len = Some (t', p) \<and> ice_inv t' \<and>
      (p = -1 \<or> 1 \<le> len \<and> 0 \<le> p \<and> p \<le> uint (data ! 0)))"
proof
  let ?cs = "take (is_local_count s) (is_local_candidates s)"
  have n: "length ?cs = is_local_count s" "is_local_count s \<le> 16" using s by (simp_all add: ice_inv_def)
  let ?b = "of_nat (is_local_count s) :: u8"
  have u: "unat ?b = is_local_count s" using n by (simp add: unsigned_of_nat take_bit_nat_eq_self)
  have "0 < length buf" using buf by linarith
  then have w0: "wr 0 [?b] buf = Some (wrote [?b] buf)" by (cases buf) (simp_all add: wr_start)
  have fit: "length [?b] + 7 * length ?cs \<le> length buf" using buf n by simp
  have ser: "IceSerializeCandidates s buf buf_size =
      Some (wrote (?b # concat (map cand_bytes ?cs)) buf, 1 + 7 * int (is_local_count s))"
    using serialize_loop_spec [OF fit] w0 buf n by (simp add: IceSerializeCandidates_def Let_def mult.commute)
  obtain rest where wb: "wrote (?b # concat (map cand_bytes ?cs)) buf = [?b] @ concat (map cand_bytes ?cs) @ rest"
    by (simp add: wrote_def)
  have lr: "length (is_remote_candidates t) = 16" "is_remote_count t + length ?cs \<le> 16"
    using t n by (simp_all add: ice_inv_def)
  have "\<exists>t'. IceParseCandidates t ([?b] @ concat (map cand_bytes ?cs) @ rest) (1 + 7 * int (is_local_count s)) =
      Some (t', int (is_local_count s)) \<and>
      take (is_remote_count t') (is_remote_candidates t') =
        map (\<lambda>c. IceCandidate_make (ic_type c) (ic_ip c) (ic_port c)) ?cs"
    (is "\<exists>t'. IceParseCandidates t ?data _ = _ \<and> _")
  proof -
    have ub: "uint ?b = int (is_local_count s)" using u uint_nat [of ?b] by (simp only:)
    have "rd8 0 ?data = Some ?b" by (simp add: rd8_def)
    then have "IceParseCandidates t ?data (1 + 7 * int (is_local_count s)) =
        parse_candidates_loop ?data (is_local_count s) 1 t 0"
      unfolding IceParseCandidates_def by (simp only: bind.bind_lunit Let_def u ub) simp
    with parse_candidates_loop_spec [OF lr ty, of "[?b]" rest 0] n(1) t(2) show ?thesis by auto
  qed
  then show "\<exists>buf' n t'. IceSerializeCandidates s buf buf_size = Some (buf', n) \<and>
      IceParseCandidates t buf' n = Some (t', int (is_local_count s)) \<and>
      take (is_remote_count t') (is_remote_candidates t') =
        map (\<lambda>c. IceCandidate_make (ic_type c) (ic_ip c) (ic_port c)) ?cs"
    using ser unfolding wb by blast
  show "\<exists>t' p. IceParseCandidates t data len = Some (t', p) \<and> ice_inv t' \<and>
      (p = -1 \<or> 1 \<le> len \<and> 0 \<le> p \<and> p \<le> uint (data ! 0))"
    by (rule IceParseCandidates_total [OF t(1) len])
qed

theorem ice_candidates_roundtrip_witness:
  "\<exists>buf' n t'. IceSerializeCandidates example_session (replicate 8 0) 8 = Some (buf', n) \<and>
     IceParseCandidates (ice_fresh_session zero_Key) buf' n = Some (t', 1)"
proof -
  have inv: "ice_inv example_session"
    unfolding example_session_def by (intro ice_inv_add ice_inv_fresh)
  have n: "is_local_count example_session = 1" "take 1 (is_local_candidates example_session) =
      [IceCandidate_make Cand_kHost 1 2]"
    by (simp_all add: example_session_def IceAddRemoteCandidate_def IceAddLocalCandidate_def
        ice_fresh_session_def IceSession_zero_def take_Suc_conv_app_nth)
  have z: "is_remote_count (ice_fresh_session zero_Key) = 0"
    by (simp add: ice_fresh_session_def IceSession_zero_def)
  show ?thesis
    using ice_candidates_roundtrip [OF inv ice_inv_fresh z, of 8 "replicate 8 0" 0 "[]"] n
    by (auto simp: IceCandidateType_of_def IceCandidate_make_def)
qed

end
