(* ===== verification/Cp_State.thy ===== *)
theory Cp_State
  imports Hd_Audit Hd_Codec Hd_Policy Relay_Table Ice Dp_Tables
begin

text \<open>
  The control plane's state and its DERP part, from \<^verbatim>\<open>include/hyper_derp/control_plane.h\<close> and
  \<^verbatim>\<open>src/control_plane.cc\<close>: the peer registry (an open-addressing table with an index by socket),
  the watchers and their notifications, and the handlers of the DERP control frames. What the
  control plane asks of the rest of the process is the list \<open>cp_calls\<close>, in order: frames given
  to the data plane (\<^verbatim>\<open>DpWrite\<close>), removals requested of it (\<^verbatim>\<open>DpRemovePeer\<close>), bytes written to a
  socket, and STUN datagrams. Each handler runs under \<^verbatim>\<open>cp->mutex\<close>, as one step. Allocation of
  a frame copy does not fail.
\<close>

section \<open>Data\<close>

definition kCpMaxPeers :: nat where "kCpMaxPeers = 4096"
definition kCpMaxWatchers :: nat where [const_simps, simp]: "kCpMaxWatchers = 64"
definition kCpMaxOpenConns :: nat where "kCpMaxOpenConns = 256"
definition kCpMaxOpenConnsPerPeer :: int where [const_simps, simp]: "kCpMaxOpenConnsPerPeer = 16"
definition kCpOpenConnTimeoutNs :: u64 where "kCpOpenConnTimeoutNs = 5000000000"

record CpPeer =
  cpp_key :: Key
  cpp_fd :: int
  cpp_occupied :: u8 \<comment> \<open>0 empty, 1 live, 2 tombstone\<close>
  cpp_preferred :: u8

definition CpPeer_init :: CpPeer where
  "CpPeer_init = \<lparr>cpp_key = zero_Key, cpp_fd = -1, cpp_occupied = 0, cpp_preferred = 0\<rparr>"

record OpenConnEntry =
  oce_in_use :: bool
  oce_correlation_id :: u64
  oce_initiator_fd :: int
  oce_target_fd :: int
  oce_initiator_key :: Key
  oce_target_key :: Key
  oce_initiator_view :: HdClientView
  oce_target_relay_id :: u16
  oce_is_gateway_inbound :: bool
  oce_origin_relay_id :: u16
  oce_deadline_ns :: u64

definition HdClientView_init :: HdClientView where
  "HdClientView_init = \<lparr>cv_intent = Intent_kPreferDirect, cv_allow_upgrade = True, cv_allow_downgrade = True\<rparr>"

definition OpenConnEntry_init :: OpenConnEntry where
  "OpenConnEntry_init = \<lparr>oce_in_use = False, oce_correlation_id = 0, oce_initiator_fd = -1,
     oce_target_fd = -1, oce_initiator_key = zero_Key, oce_target_key = zero_Key,
     oce_initiator_view = HdClientView_init, oce_target_relay_id = 0, oce_is_gateway_inbound = False,
     oce_origin_relay_id = 0, oce_deadline_ns = 0\<rparr>"

datatype cp_call =
    Call_DpWrite Key bytes
  | Call_DpRemovePeer Key
  | Call_write int bytes
  | Call_sendto u32 u16 bytes

text \<open>
  \<^verbatim>\<open>fd_map\<close> and \<^verbatim>\<open>open_conn_per_peer\<close> are arrays over \<^verbatim>\<open>0 .. kMaxFd - 1\<close>; every access of the
  source is guarded, and a pointer into \<^verbatim>\<open>peers\<close> is an index.
\<close>

record ControlPlane =
  cp_peers :: "CpPeer list"
  cp_fd_map :: "int \<Rightarrow> nat option"
  cp_peer_count :: int
  cp_watcher_fds :: "int list"
  cp_watcher_count :: nat
  cp_ice_agent :: "IceAgent option"
  cp_level2_enabled :: bool
  cp_relay_table :: "RelayTable option"
  cp_hd_peers :: "HdPeerRegistry option"
  cp_audit_ring :: HdAuditRing
  cp_open_conns :: "OpenConnEntry list"
  cp_open_conn_per_peer :: "int \<Rightarrow> int"
  cp_calls :: "cp_call list"

definition cp_emit :: "cp_call \<Rightarrow> ControlPlane \<Rightarrow> ControlPlane" where
  "cp_emit c cp = cp\<lparr>cp_calls := cp_calls cp @ [c]\<rparr>"

definition valid_fd :: "int \<Rightarrow> bool" where
  "valid_fd fd \<longleftrightarrow> fd \<ge> 0 \<and> fd < kMaxFd"

section \<open>The peer registry\<close>

definition CpFnv1a :: "bytes \<Rightarrow> u32" where
  "CpFnv1a data = fold (\<lambda>b h. (h XOR ucast b) * 16777619) data 2166136261"

definition cp_probe_seq :: "Key \<Rightarrow> nat list" where
  "cp_probe_seq key =
     (let idx = CpFnv1a key AND (of_nat (kCpMaxPeers - 1)) in
      map (\<lambda>i. unat ((idx + of_nat i) AND (of_nat (kCpMaxPeers - 1)))) [0..<kCpMaxPeers])"

text \<open>The probe loop of \<^verbatim>\<open>CpRegistryLookup\<close> and of \<^verbatim>\<open>CpRegistryRemove\<close>, which is the same.\<close>

fun cp_lookup_loop :: "CpPeer list \<Rightarrow> Key \<Rightarrow> nat list \<Rightarrow> nat option" where
  "cp_lookup_loop peers key [] = None"
| "cp_lookup_loop peers key (slot # slots) =
     (if cpp_occupied (peers ! slot) = 1 \<and> cpp_key (peers ! slot) = key then Some slot
      else if cpp_occupied (peers ! slot) = 0 then None
      else cp_lookup_loop peers key slots)"

definition CpRegistryLookup :: "ControlPlane \<Rightarrow> Key \<Rightarrow> nat option" where
  "CpRegistryLookup cp key = cp_lookup_loop (cp_peers cp) key (cp_probe_seq key)"

text \<open>The probe loop of \<^verbatim>\<open>CpRegistryInsert\<close>: it stops at the key or at the first slot that is not live.\<close>

fun cp_insert_loop :: "CpPeer list \<Rightarrow> Key \<Rightarrow> nat list \<Rightarrow> nat option" where
  "cp_insert_loop peers key [] = None"
| "cp_insert_loop peers key (slot # slots) =
     (if cpp_occupied (peers ! slot) = 1 \<and> cpp_key (peers ! slot) = key then Some slot
      else if cpp_occupied (peers ! slot) \<noteq> 1 then Some slot
      else cp_insert_loop peers key slots)"

definition CpRegistryInsert :: "ControlPlane \<Rightarrow> Key \<Rightarrow> int \<Rightarrow> ControlPlane \<times> nat option" where
  "CpRegistryInsert cp key fd =
     (case cp_insert_loop (cp_peers cp) key (cp_probe_seq key) of
        None \<Rightarrow> (cp, None)
      | Some slot \<Rightarrow>
          (let p = cp_peers cp ! slot in
           if cpp_occupied p = 1 \<and> cpp_key p = key then
             (let m = cp_fd_map cp;
                  m = (if valid_fd (cpp_fd p) then m(cpp_fd p := None) else m);
                  m = (if valid_fd fd then m(fd := Some slot) else m) in
              (cp\<lparr>cp_peers := (cp_peers cp)[slot := p\<lparr>cpp_fd := fd\<rparr>], cp_fd_map := m\<rparr>, Some slot))
           else
             (let m = cp_fd_map cp;
                  m = (if valid_fd fd then m(fd := Some slot) else m) in
              (cp\<lparr>cp_peers := (cp_peers cp)[slot :=
                    p\<lparr>cpp_key := key, cpp_fd := fd, cpp_occupied := 1, cpp_preferred := 0\<rparr>],
                  cp_fd_map := m, cp_peer_count := cp_peer_count cp + 1\<rparr>, Some slot))))"

definition CpRegistryRemove :: "ControlPlane \<Rightarrow> Key \<Rightarrow> ControlPlane" where
  "CpRegistryRemove cp key =
     (case cp_lookup_loop (cp_peers cp) key (cp_probe_seq key) of
        None \<Rightarrow> cp
      | Some slot \<Rightarrow>
          (let p = cp_peers cp ! slot;
               m = (if valid_fd (cpp_fd p) then (cp_fd_map cp)(cpp_fd p := None) else cp_fd_map cp) in
           cp\<lparr>cp_fd_map := m,
              cp_peers := (cp_peers cp)[slot := p\<lparr>cpp_occupied := 2, cpp_fd := -1\<rparr>],
              cp_peer_count := cp_peer_count cp - 1\<rparr>))"

section \<open>Watchers\<close>

definition CpAddWatcher :: "ControlPlane \<Rightarrow> int \<Rightarrow> ControlPlane" where
  "CpAddWatcher cp fd =
     (if scan (\<lambda>w. w = fd) (take (cp_watcher_count cp) (cp_watcher_fds cp)) \<noteq> None then cp
      else if cp_watcher_count cp \<ge> kCpMaxWatchers then cp
      else cp\<lparr>cp_watcher_fds := (cp_watcher_fds cp)[cp_watcher_count cp := fd],
              cp_watcher_count := cp_watcher_count cp + 1\<rparr>)"

definition CpRemoveWatcher :: "ControlPlane \<Rightarrow> int \<Rightarrow> ControlPlane" where
  "CpRemoveWatcher cp fd =
     (case scan (\<lambda>w. w = fd) (take (cp_watcher_count cp) (cp_watcher_fds cp)) of
        None \<Rightarrow> cp
      | Some i \<Rightarrow>
          (let n = cp_watcher_count cp - 1 in
           cp\<lparr>cp_watcher_count := n, cp_watcher_fds := (cp_watcher_fds cp)[i := cp_watcher_fds cp ! n]\<rparr>))"

definition CpSendFrame :: "ControlPlane \<Rightarrow> Key \<Rightarrow> bytes \<Rightarrow> int \<Rightarrow> ControlPlane ub" where
  "CpSendFrame cp key frame frame_len = do {
     buf \<leftarrow> rd 0 frame_len frame;
     Some (cp_emit (Call_DpWrite key buf) cp) }"

fun notify_loop :: "int list \<Rightarrow> bytes \<Rightarrow> int \<Rightarrow> ControlPlane \<Rightarrow> ControlPlane ub" where
  "notify_loop [] frame frame_len cp = Some cp"
| "notify_loop (wfd # wfds) frame frame_len cp =
     (if wfd < 0 \<or> wfd \<ge> kMaxFd then notify_loop wfds frame frame_len cp
      else (case cp_fd_map cp wfd of
        None \<Rightarrow> notify_loop wfds frame frame_len cp
      | Some i \<Rightarrow>
          if cpp_occupied (cp_peers cp ! i) \<noteq> 1 then notify_loop wfds frame frame_len cp
          else (case CpSendFrame cp (cpp_key (cp_peers cp ! i)) frame frame_len of
            None \<Rightarrow> None
          | Some cp \<Rightarrow> notify_loop wfds frame frame_len cp)))"

definition CpNotifyWatchers :: "ControlPlane \<Rightarrow> bytes \<Rightarrow> int \<Rightarrow> ControlPlane ub" where
  "CpNotifyWatchers cp frame frame_len =
     notify_loop (take (cp_watcher_count cp) (cp_watcher_fds cp)) frame frame_len cp"

definition DoConnect :: "ControlPlane \<Rightarrow> Key \<Rightarrow> int \<Rightarrow> ControlPlane ub" where
  "DoConnect cp key fd = do {
     let cp = fst (CpRegistryInsert cp key fd);
     (frame, n) \<leftarrow> BuildPeerPresent (replicate (nat (kFrameHeaderSize + kKeySize)) 0) key;
     CpNotifyWatchers cp frame n }"

definition DoDisconnect :: "ControlPlane \<Rightarrow> Key \<Rightarrow> int \<Rightarrow> PeerGoneReason \<Rightarrow> ControlPlane ub" where
  "DoDisconnect cp key fd reason = do {
     let cp = CpRemoveWatcher cp fd;
     let cp = CpRegistryRemove cp key;
     (frame, n) \<leftarrow> BuildPeerGone (replicate (nat (kFrameHeaderSize + kKeySize + 1)) 0) key reason;
     CpNotifyWatchers cp frame n }"

section \<open>Handlers of the DERP control frames\<close>

fun watch_sync_loop :: "CpPeer list \<Rightarrow> int \<Rightarrow> ControlPlane \<Rightarrow> ControlPlane ub" where
  "watch_sync_loop [] fd cp = Some cp"
| "watch_sync_loop (p # ps) fd cp =
     (if cpp_occupied p \<noteq> 1 then watch_sync_loop ps fd cp
      else if cpp_fd p = fd then watch_sync_loop ps fd cp
      else (case BuildPeerPresent (replicate (nat (kFrameHeaderSize + kKeySize)) 0) (cpp_key p) of
        None \<Rightarrow> None
      | Some (frame, n) \<Rightarrow>
          (case (if valid_fd fd then cp_fd_map cp fd else None) of
             None \<Rightarrow> watch_sync_loop ps fd cp
           | Some i \<Rightarrow>
               (case CpSendFrame cp (cpp_key (cp_peers cp ! i)) frame n of
                  None \<Rightarrow> None
                | Some cp \<Rightarrow> watch_sync_loop ps fd cp))))"

definition HandleWatchConns :: "ControlPlane \<Rightarrow> int \<Rightarrow> ControlPlane ub" where
  "HandleWatchConns cp fd =
     (let cp = CpAddWatcher cp fd in watch_sync_loop (cp_peers cp) fd cp)"

definition HandlePing :: "ControlPlane \<Rightarrow> int \<Rightarrow> bytes \<Rightarrow> int \<Rightarrow> ControlPlane ub" where
  "HandlePing cp fd payload payload_len =
     (if payload_len < kPingDataSize then Some cp
      else do {
        (frame, n) \<leftarrow> BuildPong (replicate (nat (kFrameHeaderSize + kPingDataSize)) 0) payload;
        case (if valid_fd fd then cp_fd_map cp fd else None) of
          None \<Rightarrow> Some cp
        | Some i \<Rightarrow> CpSendFrame cp (cpp_key (cp_peers cp ! i)) frame n })"

definition HandleNotePreferred :: "ControlPlane \<Rightarrow> int \<Rightarrow> bytes \<Rightarrow> int \<Rightarrow> ControlPlane ub" where
  "HandleNotePreferred cp fd payload payload_len =
     (if payload_len < 1 then Some cp
      else (case (if valid_fd fd then cp_fd_map cp fd else None) of
        None \<Rightarrow> Some cp
      | Some i \<Rightarrow> do {
          b \<leftarrow> rd8 0 payload;
          Some (cp\<lparr>cp_peers := (cp_peers cp)[i := (cp_peers cp ! i)\<lparr>cpp_preferred := b\<rparr>]\<rparr>) }))"

definition HandleClosePeer :: "ControlPlane \<Rightarrow> int \<Rightarrow> bytes \<Rightarrow> int \<Rightarrow> ControlPlane ub" where
  "HandleClosePeer cp fd payload payload_len =
     (if payload_len < kKeySize then Some cp
      else do {
        target_key \<leftarrow> ToKey payload;
        case CpRegistryLookup cp target_key of
          None \<Rightarrow> Some cp
        | Some i \<Rightarrow>
            (let cp = cp_emit (Call_DpRemovePeer target_key) cp in
             DoDisconnect cp target_key (cpp_fd (cp_peers cp ! i)) Gone_kDisconnected) })"

text \<open>The branch of \<^verbatim>\<open>CpProcessFrame\<close> for a PeerGone message of the data plane.\<close>

definition HandlePeerGone :: "ControlPlane \<Rightarrow> int \<Rightarrow> bytes \<Rightarrow> int \<Rightarrow> ControlPlane ub" where
  "HandlePeerGone cp fd payload payload_len =
     (if payload_len \<ge> kKeySize then do {
        gone_key \<leftarrow> ToKey payload;
        let cp = CpRegistryRemove cp gone_key;
        cp \<leftarrow> DoDisconnect cp gone_key fd Gone_kDisconnected;
        Some (cp_emit (Call_DpRemovePeer gone_key) cp) }
      else Some cp)"

definition CpInit :: "ControlPlane \<Rightarrow> ControlPlane" where
  "CpInit cp = cp\<lparr>cp_peer_count := 0, cp_watcher_count := 0\<rparr>"

definition CpOnPeerConnect :: "ControlPlane \<Rightarrow> Key \<Rightarrow> int \<Rightarrow> ControlPlane ub" where
  "CpOnPeerConnect cp key fd = DoConnect cp key fd"

definition CpOnPeerGone :: "ControlPlane \<Rightarrow> Key \<Rightarrow> int \<Rightarrow> PeerGoneReason \<Rightarrow> ControlPlane ub" where
  "CpOnPeerGone cp key fd reason = DoDisconnect cp key fd reason"

end
