(* ===== verification/Cp_Registry.thy ===== *)
theory Cp_Registry
  imports Cp_State
begin

text \<open>
  The control plane's peer registry and watchers: the invariant every handler of a DERP control
  frame keeps, the map from keys to sockets the registry stands for, what a reconnect after a
  removal does to it, and who is notified of what.
\<close>

section \<open>Probing\<close>

abbreviation cp_live :: "CpPeer \<Rightarrow> bool" where
  "cp_live p \<equiv> cpp_occupied p = 1"

lemma cp_probe_seq_eq: "cp_probe_seq key = map (\<lambda>i. (unat (CpFnv1a key) + i) mod 4096) [0..<4096]"
proof -
  have "unat (((CpFnv1a key AND 4095) + of_nat i) AND 4095) = (unat (CpFnv1a key) + i) mod 4096" for i
    using and_4095 [of "CpFnv1a key" 0] and_4095 [of "CpFnv1a key AND 4095" i] by (simp add: mod_add_left_eq)
  then show ?thesis by (simp add: cp_probe_seq_def kCpMaxPeers_def Let_def)
qed

lemma cp_probe_seq_probe_seq: "cp_probe_seq key = probe_seq key"
  by (simp add: cp_probe_seq_eq probe_seq_eq CpFnv1a_def Fnv1a_def)

lemma set_cp_probe_seq [simp]: "set (cp_probe_seq key) = {0..<4096}"
  using probe_seq_covers [of key] by (simp add: cp_probe_seq_probe_seq kHtCapacity_def)

definition cp_reach :: "CpPeer list \<Rightarrow> bool" where
  "cp_reach ps \<longleftrightarrow> length ps = 4096 \<and> (\<forall>j < 4096. cp_live (ps ! j) \<longrightarrow>
     (\<exists>pre post. cp_probe_seq (cpp_key (ps ! j)) = pre @ j # post \<and> (\<forall>i \<in> set pre. cpp_occupied (ps ! i) \<noteq> 0)))"

lemma cp_lookup_loop_Some:
  "cp_lookup_loop ps k slots = Some j \<Longrightarrow> j \<in> set slots \<and> cp_live (ps ! j) \<and> cpp_key (ps ! j) = k"
  by (induction slots) (auto split: if_splits)

lemma cp_lookup_loop_hit:
  assumes "\<forall>i \<in> set pre. cpp_occupied (ps ! i) \<noteq> 0" "cp_live (ps ! j)" "cpp_key (ps ! j) = k"
  shows "cp_lookup_loop ps k (pre @ j # post) \<noteq> None"
  using assms by (induction pre) auto

lemma cp_lookup_None:
  assumes "cp_reach ps"
  shows "cp_lookup_loop ps k (cp_probe_seq k) = None \<longleftrightarrow> (\<forall>j < 4096. \<not> (cp_live (ps ! j) \<and> cpp_key (ps ! j) = k))"
proof
  assume n: "cp_lookup_loop ps k (cp_probe_seq k) = None"
  show "\<forall>j < 4096. \<not> (cp_live (ps ! j) \<and> cpp_key (ps ! j) = k)"
  proof (intro allI impI notI)
    fix j :: nat
    assume j: "j < 4096" "cp_live (ps ! j) \<and> cpp_key (ps ! j) = k"
    with assms obtain pre post where "cp_probe_seq k = pre @ j # post" "\<forall>i \<in> set pre. cpp_occupied (ps ! i) \<noteq> 0"
      by (auto simp: cp_reach_def)
    with n j cp_lookup_loop_hit [of pre ps j k post] show False by auto
  qed
next
  assume a: "\<forall>j < 4096. \<not> (cp_live (ps ! j) \<and> cpp_key (ps ! j) = k)"
  show "cp_lookup_loop ps k (cp_probe_seq k) = None"
  proof (cases "cp_lookup_loop ps k (cp_probe_seq k)")
    case (Some j)
    from cp_lookup_loop_Some [OF this] a show ?thesis by auto
  qed simp
qed

lemma cp_insert_loop_Some:
  "cp_insert_loop ps k slots = Some t \<Longrightarrow> \<exists>pre post. slots = pre @ t # post \<and> (\<forall>i \<in> set pre. cp_live (ps ! i) \<and> cpp_key (ps ! i) \<noteq> k) \<and>
     (cp_live (ps ! t) \<longrightarrow> cpp_key (ps ! t) = k)"
proof (induction slots)
  case Nil
  then show ?case by simp
next
  case (Cons s slots)
  show ?case
  proof (cases "cp_live (ps ! s) \<and> cpp_key (ps ! s) \<noteq> k")
    case True
    with Cons obtain pre post where "slots = pre @ t # post" "\<forall>i \<in> set pre. cp_live (ps ! i) \<and> cpp_key (ps ! i) \<noteq> k"
      "cp_live (ps ! t) \<longrightarrow> cpp_key (ps ! t) = k" by auto
    with True show ?thesis by (intro exI [of _ "s # pre"] exI [of _ post]) auto
  next
    case False
    with Cons.prems show ?thesis by (intro exI [of _ "[]"] exI [of _ slots]) (auto split: if_splits)
  qed
qed

lemma cp_insert_loop_None: "cp_insert_loop ps k slots = None \<Longrightarrow> \<forall>i \<in> set slots. cp_live (ps ! i) \<and> cpp_key (ps ! i) \<noteq> k"
  by (induction slots) (auto split: if_splits)

lemma cp_reach_update:
  assumes r: "cp_reach ps" and t: "t < 4096" and e: "cpp_occupied e \<noteq> 0"
    and p: "cp_live e \<Longrightarrow> \<exists>pre post. cp_probe_seq (cpp_key e) = pre @ t # post \<and> (\<forall>i \<in> set pre. cpp_occupied (ps ! i) \<noteq> 0)"
  shows "cp_reach (ps[t := e])"
  unfolding cp_reach_def
proof (intro conjI allI impI)
  show "length (ps[t := e]) = 4096" using r by (simp add: cp_reach_def)
  fix j :: nat
  assume j: "j < 4096" "cp_live (ps[t := e] ! j)"
  have mono: "cpp_occupied (ps ! i) \<noteq> 0 \<Longrightarrow> cpp_occupied (ps[t := e] ! i) \<noteq> 0" for i
    using e t r by (cases "i = t") (auto simp: cp_reach_def)
  have "\<exists>pre post. cp_probe_seq (cpp_key (ps[t := e] ! j)) = pre @ j # post \<and> (\<forall>i \<in> set pre. cpp_occupied (ps ! i) \<noteq> 0)"
    using j t r p by (cases "j = t") (auto simp: cp_reach_def)
  with mono show "\<exists>pre post. cp_probe_seq (cpp_key (ps[t := e] ! j)) = pre @ j # post \<and>
      (\<forall>i \<in> set pre. cpp_occupied (ps[t := e] ! i) \<noteq> 0)" by meson
qed

section \<open>The invariant\<close>

definition cp_live_count :: "CpPeer list \<Rightarrow> nat" where
  "cp_live_count ps = length (filter cp_live ps)"

definition cp_inv :: "ControlPlane \<Rightarrow> bool" where
  "cp_inv cp \<longleftrightarrow> cp_reach (cp_peers cp) \<and> (\<forall>p \<in> set (cp_peers cp). cpp_occupied p \<le> 2 \<and> is_Key (cpp_key p)) \<and>
     cp_peer_count cp = int (cp_live_count (cp_peers cp)) \<and>
     (\<forall>fd i. cp_fd_map cp fd = Some i \<longrightarrow> valid_fd fd \<and> i < 4096 \<and> cp_live (cp_peers cp ! i) \<and>
        cpp_fd (cp_peers cp ! i) = fd) \<and>
     length (cp_watcher_fds cp) = 64 \<and> cp_watcher_count cp \<le> 64 \<and>
     distinct (take (cp_watcher_count cp) (cp_watcher_fds cp))"

lemma cp_inv_emit [simp]: "cp_inv (cp_emit c cp) = cp_inv cp" "cp_inv (cp\<lparr>cp_calls := cs\<rparr>) = cp_inv cp"
  by (simp_all add: cp_inv_def cp_emit_def)

lemma CpRegistryInsert_cases:
  assumes inv: "cp_inv cp"
  obtains (full) "CpRegistryInsert cp k fd = (cp, None)" "\<forall>i < 4096. cp_live (cp_peers cp ! i)"
      "CpRegistryLookup cp k = None"
    | (slot) t pre post where "t < 4096" "cp_probe_seq k = pre @ t # post"
      "\<forall>i \<in> set pre. cp_live (cp_peers cp ! i) \<and> cpp_key (cp_peers cp ! i) \<noteq> k"
      "cp_live (cp_peers cp ! t) \<longrightarrow> cpp_key (cp_peers cp ! t) = k"
      "cp_insert_loop (cp_peers cp) k (cp_probe_seq k) = Some t"
proof (cases "cp_insert_loop (cp_peers cp) k (cp_probe_seq k)")
  case None
  from cp_insert_loop_None [OF this]
  have all: "\<forall>i < 4096. cp_live (cp_peers cp ! i) \<and> cpp_key (cp_peers cp ! i) \<noteq> k" by auto
  then have "CpRegistryLookup cp k = None"
    using inv by (simp add: CpRegistryLookup_def cp_lookup_None cp_inv_def)
  with all None show ?thesis by (intro full) (auto simp: CpRegistryInsert_def)
next
  case (Some t)
  from cp_insert_loop_Some [OF this] obtain pre post where p: "cp_probe_seq k = pre @ t # post"
    "\<forall>i \<in> set pre. cp_live (cp_peers cp ! i) \<and> cpp_key (cp_peers cp ! i) \<noteq> k"
    "cp_live (cp_peers cp ! t) \<longrightarrow> cpp_key (cp_peers cp ! t) = k" by blast
  have "t \<in> set (cp_probe_seq k)" using p(1) by simp
  then have "t < 4096" by simp
  with p Some show ?thesis by (intro slot)
qed

lemma live_count_update:
  "t < length ps \<Longrightarrow> int (cp_live_count (ps[t := e])) =
     int (cp_live_count ps) - (if cp_live (ps ! t) then 1 else 0) + (if cp_live e then 1 else 0)"
  using length_filter_update [of t ps cp_live e] by (auto simp: cp_live_count_def split: if_splits)

lemma CpRegistryInsert_inv:
  assumes inv: "cp_inv cp" and k: "is_Key k"
  shows "cp_inv (fst (CpRegistryInsert cp k fd))"
  using inv
proof (cases rule: CpRegistryInsert_cases [where k = k and fd = fd])
  case full
  then show ?thesis using inv by simp
next
  case (slot t pre post)
  let ?ps = "cp_peers cp"
  have len: "length ?ps = 4096" and r: "cp_reach ?ps" using inv by (simp_all add: cp_inv_def cp_reach_def)
  have pre: "\<exists>pre post. cp_probe_seq k = pre @ t # post \<and> (\<forall>i \<in> set pre. cpp_occupied (?ps ! i) \<noteq> 0)"
    using slot(2,3) by (intro exI [of _ pre] exI [of _ post]) auto
  show ?thesis
  proof (cases "cp_live (?ps ! t)")
    case True
    have "cp_reach (?ps[t := (?ps ! t)\<lparr>cpp_fd := fd\<rparr>])"
      using True slot(4) pre by (intro cp_reach_update [OF r slot(1)]) simp_all
    moreover have "is_Key (cpp_key (?ps ! t))" using inv slot(1) len by (simp add: cp_inv_def)
    ultimately show ?thesis
      using inv slot True len
      by (auto simp: CpRegistryInsert_def Let_def cp_inv_def live_count_update nth_list_update
          dest: subsetD [OF set_update_subset_insert])
  next
    case False
    have "cp_reach (?ps[t := (?ps ! t)\<lparr>cpp_key := k, cpp_fd := fd, cpp_occupied := 1, cpp_preferred := 0\<rparr>])"
      using pre by (intro cp_reach_update [OF r slot(1)]) simp_all
    then show ?thesis
      using inv slot False len k
      by (auto simp: CpRegistryInsert_def Let_def cp_inv_def live_count_update nth_list_update
          dest: subsetD [OF set_update_subset_insert])
  qed
qed

lemma CpRegistryRemove_inv:
  assumes inv: "cp_inv cp"
  shows "cp_inv (CpRegistryRemove cp k)"
proof (cases "cp_lookup_loop (cp_peers cp) k (cp_probe_seq k)")
  case None
  then show ?thesis using inv by (simp add: CpRegistryRemove_def)
next
  case (Some t)
  let ?ps = "cp_peers cp"
  have t: "t < 4096" "cp_live (?ps ! t)" using cp_lookup_loop_Some [OF Some] by auto
  have len: "length ?ps = 4096" and r: "cp_reach ?ps" using inv by (simp_all add: cp_inv_def cp_reach_def)
  have "cp_reach (?ps[t := (?ps ! t)\<lparr>cpp_occupied := 2, cpp_fd := -1\<rparr>])"
    by (intro cp_reach_update [OF r t(1)]) simp_all
  moreover have "is_Key (cpp_key (?ps ! t))" using inv t(1) len by (simp add: cp_inv_def)
  ultimately show ?thesis
    using inv t len Some
    by (auto simp: CpRegistryRemove_def Let_def cp_inv_def live_count_update nth_list_update
        dest: subsetD [OF set_update_subset_insert])
qed

lemma CpAddWatcher_inv:
  assumes inv: "cp_inv cp"
  shows "cp_inv (CpAddWatcher cp fd)"
proof (cases "scan (\<lambda>w. w = fd) (take (cp_watcher_count cp) (cp_watcher_fds cp)) = None \<and> cp_watcher_count cp < 64")
  case False
  then show ?thesis using inv by (auto simp: CpAddWatcher_def)
next
  case True
  then have "take (Suc (cp_watcher_count cp)) ((cp_watcher_fds cp)[cp_watcher_count cp := fd]) =
      take (cp_watcher_count cp) (cp_watcher_fds cp) @ [fd]"
    using inv by (simp add: cp_inv_def take_Suc_conv_app_nth)
  moreover have "fd \<notin> set (take (cp_watcher_count cp) (cp_watcher_fds cp))"
    using True by (auto simp: scan_None_iff)
  ultimately show ?thesis
    using inv True by (auto simp: CpAddWatcher_def cp_inv_def)
qed

text \<open>Overwriting an element by the last one and shrinking drops exactly that element.\<close>

lemma swap_remove:
  assumes d: "distinct (take n xs)" and n: "n \<le> length xs" "i < n"
  shows "distinct (take (n - 1) (xs[i := xs ! (n - 1)]))"
    and "set (take (n - 1) (xs[i := xs ! (n - 1)])) = set (take n xs) - {xs ! i}"
proof -
  define ys where "ys = take n xs"
  have ys: "length ys = n" "distinct ys" "i < length ys" using d n by (simp_all add: ys_def)
  obtain zs z where z: "ys = zs @ [z]" using ys by (cases ys rule: rev_cases) auto
  have lz: "length zs = n - 1" using ys z by simp
  have "xs ! (n - 1) = ys ! (n - 1)" "xs ! i = ys ! i" using n by (simp_all add: ys_def)
  then have zn: "xs ! (n - 1) = z" "xs ! i = ys ! i" "length zs = n - 1" using lz z by (simp_all add: nth_append)
  have t: "take (n - 1) (xs[i := z]) = take (n - 1) (ys[i := z])"
    using n by (simp add: ys_def take_update_swap min_def)
  have "distinct (take (n - 1) (ys[i := z])) \<and> set (take (n - 1) (ys[i := z])) = set ys - {ys ! i}"
  proof (cases "i = n - 1")
    case True
    then show ?thesis using ys z zn by auto
  next
    case False
    then have i: "i < length zs" using ys zn by simp
    have e: "take (n - 1) (ys[i := z]) = zs[i := z]" using i zn z by (simp add: list_update_append)
    have dz: "distinct zs" "z \<notin> set zs" using ys z by simp_all
    have "distinct (zs[i := z])" using dz by (simp add: distinct_list_update)
    moreover have "set (zs[i := z]) = insert z (set zs - {zs ! i})" using dz i by (simp add: set_update_distinct)
    moreover have "ys ! i = zs ! i" "zs ! i \<noteq> z" using i z dz by (auto simp: nth_append)
    ultimately show ?thesis unfolding e using z dz by auto
  qed
  then show "distinct (take (n - 1) (xs[i := xs ! (n - 1)]))"
    "set (take (n - 1) (xs[i := xs ! (n - 1)])) = set (take n xs) - {xs ! i}"
    unfolding zn(1) t zn(2) by (simp_all add: ys_def)
qed

lemma CpRemoveWatcher_spec:
  assumes inv: "cp_inv cp"
  shows "cp_inv (CpRemoveWatcher cp fd)"
    and "set (take (cp_watcher_count (CpRemoveWatcher cp fd)) (cp_watcher_fds (CpRemoveWatcher cp fd))) =
      set (take (cp_watcher_count cp) (cp_watcher_fds cp)) - {fd}"
proof -
  let ?ws = "take (cp_watcher_count cp) (cp_watcher_fds cp)"
  have "cp_inv (CpRemoveWatcher cp fd) \<and>
      set (take (cp_watcher_count (CpRemoveWatcher cp fd)) (cp_watcher_fds (CpRemoveWatcher cp fd))) = set ?ws - {fd}"
  proof (cases "scan (\<lambda>w. w = fd) ?ws")
    case None
    then have "CpRemoveWatcher cp fd = cp" by (simp add: CpRemoveWatcher_def)
    moreover have "fd \<notin> set ?ws" using None by (auto simp: scan_None_iff)
    ultimately show ?thesis using inv by simp
  next
    case (Some i)
    from scan_SomeD [OF Some] inv have i: "i < cp_watcher_count cp" "cp_watcher_fds cp ! i = fd"
      by (auto simp: cp_inv_def)
    have d: "distinct ?ws" "cp_watcher_count cp \<le> length (cp_watcher_fds cp)" using inv by (simp_all add: cp_inv_def)
    from swap_remove [OF d i(1)] Some inv i show ?thesis
      by (auto simp: CpRemoveWatcher_def Let_def cp_inv_def)
  qed
  then show "cp_inv (CpRemoveWatcher cp fd)"
    "set (take (cp_watcher_count (CpRemoveWatcher cp fd)) (cp_watcher_fds (CpRemoveWatcher cp fd))) = set ?ws - {fd}"
    by simp_all
qed

section \<open>Notifications\<close>

text \<open>The key a watcher's notification goes to, if its socket belongs to a live peer.\<close>

definition fd_key :: "ControlPlane \<Rightarrow> int \<Rightarrow> Key option" where
  "fd_key cp fd = (if valid_fd fd then map_option (\<lambda>i. cpp_key (cp_peers cp ! i)) (cp_fd_map cp fd) else None)"

definition emit_all :: "cp_call list \<Rightarrow> ControlPlane \<Rightarrow> ControlPlane" where
  "emit_all cs cp = cp\<lparr>cp_calls := cp_calls cp @ cs\<rparr>"

lemma emit_all_simps [simp]:
  "cp_peers (emit_all cs cp) = cp_peers cp" "cp_fd_map (emit_all cs cp) = cp_fd_map cp"
  "emit_all [] cp = cp" "emit_all ds (emit_all cs cp) = emit_all (cs @ ds) cp" "cp_emit c cp = emit_all [c] cp"
  "cp_inv (emit_all cs cp) = cp_inv cp" "cp_calls (emit_all cs cp) = cp_calls cp @ cs"
  "fd_key (emit_all cs cp) = fd_key cp" "cp_watcher_fds (emit_all cs cp) = cp_watcher_fds cp"
  "cp_watcher_count (emit_all cs cp) = cp_watcher_count cp"
  by (simp_all add: emit_all_def cp_emit_def fd_key_def fun_eq_iff)

lemma CpSendFrame_eq: "n = int (length f) \<Longrightarrow> CpSendFrame cp k f n = Some (emit_all [Call_DpWrite k f] cp)"
  by (simp add: CpSendFrame_def rd_0_all)

lemma notify_loop_eq:
  assumes "cp_inv cp" "n = int (length f)"
  shows "notify_loop ws f n cp = Some (emit_all (map (\<lambda>k. Call_DpWrite k f) (List.map_filter (fd_key cp) ws)) cp)"
  using assms(1)
proof (induction ws arbitrary: cp)
  case Nil
  then show ?case by (simp add: map_filter_simps)
next
  case (Cons w ws)
  show ?case
  proof (cases "valid_fd w \<and> cp_fd_map cp w \<noteq> None")
    case False
    then have "fd_key cp w = None" by (auto simp: fd_key_def)
    with False Cons show ?thesis by (auto simp: valid_fd_def map_filter_simps)
  next
    case True
    then obtain i where i: "cp_fd_map cp w = Some i" by auto
    with Cons.prems have "cp_live (cp_peers cp ! i)" by (auto simp: cp_inv_def)
    moreover have "fd_key cp w = Some (cpp_key (cp_peers cp ! i))" using True i by (simp add: fd_key_def)
    ultimately show ?thesis
      using True i Cons.IH [of "emit_all [Call_DpWrite (cpp_key (cp_peers cp ! i)) f] cp"] Cons.prems assms(2)
      by (auto simp: valid_fd_def CpSendFrame_eq map_filter_simps)
  qed
qed

lemma BuildPeerPresent_frame:
  "is_Key k \<Longrightarrow> BuildPeerPresent (replicate 37 0) k =
     Some (derp_frame Frame_kPeerPresent k, 37)"
  using BuildPeerPresent_builds [of k "replicate 37 0"]
  by (simp add: builds_def derp_frame_def is_Key_def wrote_def be32_def)

lemma BuildPeerGone_frame:
  "is_Key k \<Longrightarrow> BuildPeerGone (replicate 38 0) k r =
     Some (derp_frame Frame_kPeerGone (k @ [PeerGoneReason_byte r]), 38)"
  using BuildPeerGone_builds [of k "replicate 38 0" r]
  by (simp add: builds_def derp_frame_def is_Key_def wrote_def be32_def)

definition cp_watchers :: "ControlPlane \<Rightarrow> int list" where
  "cp_watchers cp = take (cp_watcher_count cp) (cp_watcher_fds cp)"

definition notices :: "ControlPlane \<Rightarrow> bytes \<Rightarrow> cp_call list" where
  "notices cp f = map (\<lambda>k. Call_DpWrite k f) (List.map_filter (fd_key cp) (cp_watchers cp))"

lemma CpNotifyWatchers_eq:
  "cp_inv cp \<Longrightarrow> n = int (length f) \<Longrightarrow> CpNotifyWatchers cp f n = Some (emit_all (notices cp f) cp)"
  by (simp add: CpNotifyWatchers_def notify_loop_eq notices_def cp_watchers_def)

lemma DoConnect_eq:
  assumes "cp_inv cp" "is_Key k"
  shows "DoConnect cp k fd = (let cp' = fst (CpRegistryInsert cp k fd) in
    Some (emit_all (notices cp' (derp_frame Frame_kPeerPresent k)) cp'))"
  using CpRegistryInsert_inv [OF assms, of fd] BuildPeerPresent_frame [OF assms(2)] assms(2)
  by (simp add: DoConnect_def Let_def CpNotifyWatchers_eq derp_frame_def is_Key_def)

lemma DoDisconnect_eq:
  assumes "cp_inv cp" "is_Key k"
  shows "DoDisconnect cp k fd r = (let cp' = CpRegistryRemove (CpRemoveWatcher cp fd) k in
    Some (emit_all (notices cp' (derp_frame Frame_kPeerGone (k @ [PeerGoneReason_byte r]))) cp'))"
  using CpRegistryRemove_inv [OF CpRemoveWatcher_spec(1) [OF assms(1)], of fd k]
    BuildPeerGone_frame [OF assms(2)] assms(2)
  by (simp add: DoDisconnect_def Let_def CpNotifyWatchers_eq derp_frame_def is_Key_def)

section \<open>Handlers\<close>

definition sync_calls :: "CpPeer list \<Rightarrow> int \<Rightarrow> Key option \<Rightarrow> cp_call list" where
  "sync_calls ps fd dst = (case dst of None \<Rightarrow> [] | Some k \<Rightarrow>
     map (\<lambda>p. Call_DpWrite k (derp_frame Frame_kPeerPresent (cpp_key p))) (filter (\<lambda>p. cp_live p \<and> cpp_fd p \<noteq> fd) ps))"

lemma watch_sync_loop_eq:
  assumes "\<forall>p \<in> set ps. is_Key (cpp_key p)"
  shows "watch_sync_loop ps fd cp = Some (emit_all (sync_calls ps fd (fd_key cp fd)) cp)"
  using assms
proof (induction ps arbitrary: cp)
  case Nil
  then show ?case by (simp add: sync_calls_def split: option.split)
next
  case (Cons p ps)
  have len: "length (derp_frame Frame_kPeerPresent (cpp_key p)) = 37"
    using Cons.prems by (simp add: derp_frame_def is_Key_def)
  show ?case
  proof (cases "cp_live p \<and> cpp_fd p \<noteq> fd")
    case False
    then show ?thesis using Cons by (auto simp: sync_calls_def split: option.split)
  next
    case True
    show ?thesis
    proof (cases "if valid_fd fd then cp_fd_map cp fd else None")
      case None
      then have "fd_key cp fd = None" by (auto simp: fd_key_def)
      with None True Cons show ?thesis by (simp add: BuildPeerPresent_frame sync_calls_def)
    next
      case (Some i)
      then have "fd_key cp fd = Some (cpp_key (cp_peers cp ! i))" by (auto simp: fd_key_def split: if_splits)
      with Some True Cons len show ?thesis
        by (simp add: BuildPeerPresent_frame CpSendFrame_eq sync_calls_def)
    qed
  qed
qed

lemma HandleWatchConns_eq:
  assumes "cp_inv cp"
  shows "HandleWatchConns cp fd = Some (emit_all (sync_calls (cp_peers cp) fd (fd_key cp fd)) (CpAddWatcher cp fd))"
proof -
  have "cp_peers (CpAddWatcher cp fd) = cp_peers cp" "fd_key (CpAddWatcher cp fd) = fd_key cp"
    by (auto simp: CpAddWatcher_def fd_key_def fun_eq_iff)
  moreover have "\<forall>p \<in> set (cp_peers cp). is_Key (cpp_key p)" using assms by (simp add: cp_inv_def)
  ultimately show ?thesis by (simp add: HandleWatchConns_def watch_sync_loop_eq)
qed

lemma ToKey_payload: "kKeySize \<le> n \<Longrightarrow> n \<le> int (length payload) \<Longrightarrow> ToKey payload = Some (take 32 payload) \<and> is_Key (take 32 payload)"
  by (simp add: ToKey_def rd_defined is_Key_def)

lemma HandlePing_ok:
  assumes "cp_inv cp" "n \<le> int (length payload)"
  shows "\<exists>cp'. HandlePing cp fd payload n = Some cp' \<and> cp_inv cp'"
proof (cases "n < 8")
  case True
  then show ?thesis using assms by (simp add: HandlePing_def)
next
  case False
  have "BuildPong b payload = BuildPong b (take 8 payload)" for b
    using False assms(2) by (simp add: BuildPong_def memcpy_defined)
  then have "BuildPong (replicate 13 0) payload = Some (derp_frame Frame_kPong (take 8 payload), 13)"
    using BuildPong_builds [of "take 8 payload" "replicate 13 0"] False assms(2)
    by (simp add: builds_def derp_frame_def wrote_def be32_def)
  moreover have "length (derp_frame Frame_kPong (take 8 payload)) = 13"
    using False assms(2) by (simp add: derp_frame_def)
  ultimately show ?thesis
    using False assms by (auto simp: HandlePing_def CpSendFrame_eq split: option.split)
qed

lemma HandleNotePreferred_ok:
  assumes inv: "cp_inv cp" and n: "n \<le> int (length payload)"
  shows "\<exists>cp'. HandleNotePreferred cp fd payload n = Some cp' \<and> cp_inv cp'"
proof (cases "n < 1 \<or> (if valid_fd fd then cp_fd_map cp fd else None) = None")
  case True
  then show ?thesis using inv by (auto simp: HandleNotePreferred_def)
next
  case False
  then obtain i where i: "valid_fd fd" "cp_fd_map cp fd = Some i" by (auto split: if_splits)
  let ?p = "(cp_peers cp ! i)\<lparr>cpp_preferred := payload ! 0\<rparr>"
  have il: "i < 4096" "cp_live (cp_peers cp ! i)" "length (cp_peers cp) = 4096" "is_Key (cpp_key (cp_peers cp ! i))"
    using inv i by (auto simp: cp_inv_def cp_reach_def)
  have "cp_reach ((cp_peers cp)[i := ?p])"
    using inv il by (intro cp_reach_update) (auto simp: cp_inv_def cp_reach_def)
  then have "cp_inv (cp\<lparr>cp_peers := (cp_peers cp)[i := ?p]\<rparr>)"
    using inv il by (auto simp: cp_inv_def live_count_update nth_list_update dest: subsetD [OF set_update_subset_insert])
  moreover have "rd8 0 payload = Some (payload ! 0)" using False n by (cases payload) (auto simp: rd8_def)
  ultimately show ?thesis using False i by (simp add: HandleNotePreferred_def)
qed

lemma Disconnect_ok:
  assumes "cp_inv cp" "is_Key k"
  shows "\<exists>cp'. DoDisconnect cp k fd r = Some cp' \<and> cp_inv cp'"
  using DoDisconnect_eq [OF assms, of fd r] CpRegistryRemove_inv [OF CpRemoveWatcher_spec(1) [OF assms(1)], of fd k]
  by (simp add: Let_def)

text \<open>
  The control plane's invariant: every live peer is reached by the probe sequence of its key,
  the peer counter is exact, the index by socket names only live peers, each with that very
  socket, and no socket watches twice. Every entry point and every handler of a DERP control
  frame returns without an out-of-bounds access and keeps it, whatever a peer sends.
\<close>

theorem cp_handlers_keep_invariant:
  assumes inv: "cp_inv cp" and k: "is_Key key" and n: "n \<le> int (length payload)"
  shows "(\<exists>cp'. CpOnPeerConnect cp key fd = Some cp' \<and> cp_inv cp') \<and>
    (\<exists>cp'. CpOnPeerGone cp key fd reason = Some cp' \<and> cp_inv cp') \<and>
    (\<exists>cp'. HandleWatchConns cp fd = Some cp' \<and> cp_inv cp') \<and>
    (\<exists>cp'. HandlePing cp fd payload n = Some cp' \<and> cp_inv cp') \<and>
    (\<exists>cp'. HandleNotePreferred cp fd payload n = Some cp' \<and> cp_inv cp') \<and>
    (\<exists>cp'. HandleClosePeer cp fd payload n = Some cp' \<and> cp_inv cp') \<and>
    (\<exists>cp'. HandlePeerGone cp fd payload n = Some cp' \<and> cp_inv cp')"
proof (intro conjI)
  show "\<exists>cp'. CpOnPeerConnect cp key fd = Some cp' \<and> cp_inv cp'"
    using DoConnect_eq [OF inv k, of fd] CpRegistryInsert_inv [OF inv k, of fd] by (simp add: CpOnPeerConnect_def Let_def)
  show "\<exists>cp'. CpOnPeerGone cp key fd reason = Some cp' \<and> cp_inv cp'"
    unfolding CpOnPeerGone_def by (rule Disconnect_ok [OF inv k])
  show "\<exists>cp'. HandleWatchConns cp fd = Some cp' \<and> cp_inv cp'"
    using HandleWatchConns_eq [OF inv, of fd] CpAddWatcher_inv [OF inv, of fd] by simp
  show "\<exists>cp'. HandlePing cp fd payload n = Some cp' \<and> cp_inv cp'" by (rule HandlePing_ok [OF inv n])
  show "\<exists>cp'. HandleNotePreferred cp fd payload n = Some cp' \<and> cp_inv cp'" by (rule HandleNotePreferred_ok [OF inv n])
  have key: "ToKey payload = Some (take 32 payload) \<and> is_Key (take 32 payload)" if "\<not> n < 32"
    using ToKey_payload [of n payload] that n by simp
  show "\<exists>cp'. HandleClosePeer cp fd payload n = Some cp' \<and> cp_inv cp'"
    using Disconnect_ok [of "cp_emit (Call_DpRemovePeer (take 32 payload)) cp" "take 32 payload"] key inv
    by (auto simp: HandleClosePeer_def Let_def split: option.split)
  show "\<exists>cp'. HandlePeerGone cp fd payload n = Some cp' \<and> cp_inv cp'"
    using Disconnect_ok [OF CpRegistryRemove_inv [OF inv, of "take 32 payload"], of "take 32 payload" fd Gone_kDisconnected]
      key inv by (auto simp: HandlePeerGone_def Let_def not_le)
qed

section \<open>The registry as a map\<close>

definition cp_map :: "ControlPlane \<Rightarrow> Key \<Rightarrow> int option" where
  "cp_map cp k = map_option (\<lambda>i. cpp_fd (cp_peers cp ! i)) (CpRegistryLookup cp k)"

definition cp_uniq :: "ControlPlane \<Rightarrow> bool" where
  "cp_uniq cp \<longleftrightarrow> (\<forall>i < 4096. \<forall>j < 4096. cp_live (cp_peers cp ! i) \<and> cp_live (cp_peers cp ! j) \<and>
     cpp_key (cp_peers cp ! i) = cpp_key (cp_peers cp ! j) \<longrightarrow> i = j)"

lemma CpRegistryLookup_SomeD:
  "CpRegistryLookup cp k = Some j \<Longrightarrow> j < 4096 \<and> cp_live (cp_peers cp ! j) \<and> cpp_key (cp_peers cp ! j) = k"
  using cp_lookup_loop_Some [of "cp_peers cp" k "cp_probe_seq k" j] by (auto simp: CpRegistryLookup_def)

lemma CpRegistryLookup_None_iff:
  "cp_inv cp \<Longrightarrow> CpRegistryLookup cp k = None \<longleftrightarrow> (\<forall>j < 4096. \<not> (cp_live (cp_peers cp ! j) \<and> cpp_key (cp_peers cp ! j) = k))"
  by (simp add: CpRegistryLookup_def cp_lookup_None cp_inv_def)

lemma CpRegistryLookup_Some_iff:
  assumes "cp_inv cp" "cp_uniq cp"
  shows "CpRegistryLookup cp k = Some j \<longleftrightarrow> j < 4096 \<and> cp_live (cp_peers cp ! j) \<and> cpp_key (cp_peers cp ! j) = k"
  using CpRegistryLookup_SomeD [of cp k] CpRegistryLookup_None_iff [OF assms(1), of k] assms(2)
  unfolding cp_uniq_def by (cases "CpRegistryLookup cp k") fastforce+

lemma cp_map_eqI:
  assumes "cp_inv cp" "cp_uniq cp"
    and "\<And>k fd. m k = Some fd \<longleftrightarrow> (\<exists>j < 4096. cp_live (cp_peers cp ! j) \<and> cpp_key (cp_peers cp ! j) = k \<and> cpp_fd (cp_peers cp ! j) = fd)"
  shows "cp_map cp = m"
proof
  fix k
  have "cp_map cp k = Some fd \<longleftrightarrow> m k = Some fd" for fd
    using CpRegistryLookup_Some_iff [OF assms(1,2), of k] assms(3) [of k fd] by (auto simp: cp_map_def)
  then show "cp_map cp k = m k" by (metis option.exhaust)
qed

lemma cp_map_Some_iff:
  assumes "cp_inv cp" "cp_uniq cp"
  shows "cp_map cp k = Some fd \<longleftrightarrow> (\<exists>j < 4096. cp_live (cp_peers cp ! j) \<and> cpp_key (cp_peers cp ! j) = k \<and> cpp_fd (cp_peers cp ! j) = fd)"
  using CpRegistryLookup_Some_iff [OF assms, of k] by (auto simp: cp_map_def)

lemma cp_map_None_iff: "cp_map cp k = None \<longleftrightarrow> CpRegistryLookup cp k = None"
  by (simp add: cp_map_def)

text \<open>Storing an entry for a key that no other slot holds.\<close>

lemma cp_map_store:
  assumes inv: "cp_inv cp" "cp_uniq cp" "cp_inv cp'" and ps: "cp_peers cp' = (cp_peers cp)[t := e]" and t: "t < 4096"
    and e: "cp_live e" "cpp_key e = k"
    and other: "\<forall>j < 4096. j \<noteq> t \<longrightarrow> \<not> (cp_live (cp_peers cp ! j) \<and> cpp_key (cp_peers cp ! j) = k)"
    and same: "cp_live (cp_peers cp ! t) \<longrightarrow> cpp_key (cp_peers cp ! t) = k"
  shows "cp_uniq cp'" "cp_map cp' = (cp_map cp)(k \<mapsto> cpp_fd e)"
proof -
  have len: "length (cp_peers cp) = 4096" using inv by (simp add: cp_inv_def cp_reach_def)
  show u: "cp_uniq cp'"
    using inv(2) other e len t unfolding cp_uniq_def ps by (auto simp: nth_list_update)
  show "cp_map cp' = (cp_map cp)(k \<mapsto> cpp_fd e)"
  proof (rule cp_map_eqI [OF inv(3) u])
    fix k' fd
    show "((cp_map cp)(k \<mapsto> cpp_fd e)) k' = Some fd \<longleftrightarrow> (\<exists>j < 4096. cp_live (cp_peers cp' ! j) \<and>
        cpp_key (cp_peers cp' ! j) = k' \<and> cpp_fd (cp_peers cp' ! j) = fd)"
    proof (cases "k' = k")
      case True
      then show ?thesis using other e len t unfolding ps by (auto simp: nth_list_update)
    next
      case False
      then show ?thesis
        using cp_map_Some_iff [OF inv(1,2), of k' fd] same e len t unfolding ps by (auto simp: nth_list_update)
    qed
  qed
qed

lemma CpRegistryRemove_map:
  assumes inv: "cp_inv cp" "cp_uniq cp"
  shows "cp_uniq (CpRegistryRemove cp k)" "cp_map (CpRegistryRemove cp k) = (cp_map cp)(k := None)"
proof -
  have len: "length (cp_peers cp) = 4096" using inv by (simp add: cp_inv_def cp_reach_def)
  have "cp_uniq (CpRegistryRemove cp k) \<and> cp_map (CpRegistryRemove cp k) = (cp_map cp)(k := None)"
  proof (cases "CpRegistryLookup cp k")
    case None
    then have "CpRegistryRemove cp k = cp" by (simp add: CpRegistryRemove_def CpRegistryLookup_def)
    then show ?thesis using inv None by (auto simp: cp_map_def fun_eq_iff)
  next
    case (Some t)
    let ?e = "(cp_peers cp ! t)\<lparr>cpp_occupied := 2, cpp_fd := -1\<rparr>"
    have ps: "cp_peers (CpRegistryRemove cp k) = (cp_peers cp)[t := ?e]"
      using Some by (simp add: CpRegistryRemove_def CpRegistryLookup_def Let_def)
    have t: "t < 4096" "cp_live (cp_peers cp ! t)" "cpp_key (cp_peers cp ! t) = k"
      using CpRegistryLookup_SomeD [OF Some] by auto
    have u: "cp_uniq (CpRegistryRemove cp k)"
      using inv(2) len t unfolding cp_uniq_def ps by (auto simp: nth_list_update)
    have "cp_map (CpRegistryRemove cp k) = (cp_map cp)(k := None)"
    proof (rule cp_map_eqI [OF CpRegistryRemove_inv [OF inv(1)] u])
      fix k' fd
      show "((cp_map cp)(k := None)) k' = Some fd \<longleftrightarrow> (\<exists>j < 4096. cp_live (cp_peers (CpRegistryRemove cp k) ! j) \<and>
          cpp_key (cp_peers (CpRegistryRemove cp k) ! j) = k' \<and> cpp_fd (cp_peers (CpRegistryRemove cp k) ! j) = fd)"
        using cp_map_Some_iff [OF inv, of k' fd] t len inv(2) unfolding ps cp_uniq_def
        by (auto simp: nth_list_update)
    qed
    with u show ?thesis by simp
  qed
  then show "cp_uniq (CpRegistryRemove cp k)" "cp_map (CpRegistryRemove cp k) = (cp_map cp)(k := None)" by simp_all
qed

lemma cp_full_iff:
  assumes "cp_inv cp"
  shows "(\<forall>i < 4096. cp_live (cp_peers cp ! i)) \<longleftrightarrow> cp_peer_count cp = 4096"
proof -
  have "length (cp_peers cp) = 4096" using assms by (simp add: cp_inv_def cp_reach_def)
  then have "cp_live_count (cp_peers cp) = 4096 \<longleftrightarrow> filter cp_live (cp_peers cp) = cp_peers cp"
    unfolding cp_live_count_def by (metis filter_id_conv length_filter_less less_irrefl)
  with assms \<open>length _ = _\<close> show ?thesis by (auto simp: cp_inv_def filter_id_conv all_set_conv_all_nth)
qed

lemma occupied_0:
  assumes "(x::u8) \<le> 2" "x \<noteq> 2" "x \<noteq> 1"
  shows "x = 0"
proof -
  have "unat x \<le> 2" using assms(1) by (simp add: word_le_nat_alt)
  moreover have "unat x \<noteq> unat (2::u8)" "unat x \<noteq> unat (1::u8)" using assms by (simp_all add: word_unat_eq_iff)
  ultimately have "unat x = 0" by simp
  then show ?thesis by (simp add: unat_eq_0)
qed

lemma CpRegistryInsert_map:
  assumes inv: "cp_inv cp" "cp_uniq cp" and k: "is_Key k"
    and tomb: "cp_map cp k = None \<or> (\<forall>p \<in> set (cp_peers cp). cpp_occupied p \<noteq> 2)"
  shows "cp_uniq (fst (CpRegistryInsert cp k fd)) \<and>
    cp_map (fst (CpRegistryInsert cp k fd)) =
      (if cp_map cp k = None \<and> cp_peer_count cp = 4096 then cp_map cp else (cp_map cp)(k \<mapsto> fd))"
  using inv(1)
proof (cases rule: CpRegistryInsert_cases [where k = k and fd = fd])
  case full
  then show ?thesis using inv cp_full_iff [OF inv(1)] by (simp add: cp_map_None_iff)
next
  case (slot t pre post)
  have len: "length (cp_peers cp) = 4096" using inv by (simp add: cp_inv_def cp_reach_def)
  let ?p = "cp_peers cp ! t"
  have i': "cp_inv (fst (CpRegistryInsert cp k fd))" by (rule CpRegistryInsert_inv [OF inv(1) k])
  show ?thesis
  proof (cases "cp_live ?p")
    case True
    have ps: "cp_peers (fst (CpRegistryInsert cp k fd)) = (cp_peers cp)[t := ?p\<lparr>cpp_fd := fd\<rparr>]"
      using True slot by (simp add: CpRegistryInsert_def Let_def)
    have other: "\<forall>j < 4096. j \<noteq> t \<longrightarrow> \<not> (cp_live (cp_peers cp ! j) \<and> cpp_key (cp_peers cp ! j) = k)"
      using inv(2) True slot unfolding cp_uniq_def by blast
    have "cp_map cp k \<noteq> None"
      using True slot CpRegistryLookup_None_iff [OF inv(1), of k] by (auto simp: cp_map_None_iff)
    with cp_map_store [OF inv i' ps slot(1) _ _ other] True slot show ?thesis by auto
  next
    case False
    let ?e = "?p\<lparr>cpp_key := k, cpp_fd := fd, cpp_occupied := 1, cpp_preferred := 0\<rparr>"
    have ps: "cp_peers (fst (CpRegistryInsert cp k fd)) = (cp_peers cp)[t := ?e]"
      using False slot by (simp add: CpRegistryInsert_def Let_def)
    have none: "CpRegistryLookup cp k = None"
    proof (cases "cp_map cp k = None")
      case True
      then show ?thesis by (simp add: cp_map_None_iff)
    next
      case known: False
      have "?p \<in> set (cp_peers cp)" using len slot by simp
      then have "cpp_occupied ?p \<le> 2" "cpp_occupied ?p \<noteq> 2" using known tomb inv(1) by (auto simp: cp_inv_def)
      then have "cpp_occupied ?p = 0" using False by (intro occupied_0)
      moreover have "cp_lookup_loop (cp_peers cp) k (pre @ t # post) = None" if "cpp_occupied ?p = 0"
        using slot(3) that by (induction pre) auto
      ultimately show ?thesis using slot(2) by (simp add: CpRegistryLookup_def)
    qed
    then have other: "\<forall>j < 4096. j \<noteq> t \<longrightarrow> \<not> (cp_live (cp_peers cp ! j) \<and> cpp_key (cp_peers cp ! j) = k)"
      using CpRegistryLookup_None_iff [OF inv(1), of k] by blast
    have "cp_peer_count cp \<noteq> 4096" using cp_full_iff [OF inv(1)] slot(1) False by blast
    with cp_map_store [OF inv i' ps slot(1) _ _ other] False none show ?thesis by (simp add: cp_map_None_iff)
  qed
qed


definition example_cp :: ControlPlane where
  "example_cp = \<lparr>cp_peers = replicate 4096 CpPeer_init, cp_fd_map = \<lambda>_. None, cp_peer_count = 0,
     cp_watcher_fds = replicate 64 0, cp_watcher_count = 0, cp_ice_agent = None, cp_level2_enabled = False,
     cp_relay_table = None, cp_hd_peers = None, cp_audit_ring = example_ring,
     cp_open_conns = replicate 256 OpenConnEntry_init, cp_open_conn_per_peer = \<lambda>_. 0, cp_calls = []\<rparr>"

lemma example_cp_ok: "cp_inv example_cp" "cp_uniq example_cp" "CpRegistryLookup example_cp k = None"
proof -
  show inv: "cp_inv example_cp"
    by (simp add: cp_inv_def example_cp_def cp_reach_def CpPeer_init_def cp_live_count_def is_Key_zero)
  show "cp_uniq example_cp" by (simp add: cp_uniq_def example_cp_def CpPeer_init_def)
  show "CpRegistryLookup example_cp k = None"
    unfolding CpRegistryLookup_None_iff [OF inv] by (simp add: example_cp_def CpPeer_init_def)
qed

theorem cp_handlers_keep_invariant_witness: "\<exists>cp'. CpOnPeerConnect example_cp zero_Key 5 = Some cp' \<and> cp_inv cp'"
  using cp_handlers_keep_invariant [OF example_cp_ok(1) is_Key_zero, of 0 "[]" 5] by simp


section \<open>A reconnect after a removal\<close>

text \<open>
  C38: A reconnect can register a key twice. When a tombstone lies before the live entry of a key
  in its probe sequence, connecting that key again takes the tombstone's slot without looking
  further: the counter grows although no peer was added, the key has two live entries, and after
  the peer is removed once the registry still answers with the old entry and its old socket.
\<close>

theorem cp_reconnect_duplicates:
  assumes inv: "cp_inv cp" and k: "is_Key k"
    and known: "CpRegistryLookup cp k = Some j"
    and tomb: "cp_insert_loop (cp_peers cp) k (cp_probe_seq k) = Some t" "cpp_occupied (cp_peers cp ! t) = 2"
  shows "let cp1 = fst (CpRegistryInsert cp k fd); cp2 = CpRegistryRemove cp1 k in
    cp_peer_count cp1 = cp_peer_count cp + 1 \<and> \<not> cp_uniq cp1 \<and> CpRegistryLookup cp1 k = Some t \<and>
    cp_map cp2 k = Some (cpp_fd (cp_peers cp ! j))"
proof -
  let ?ps = "cp_peers cp" and ?cp1 = "fst (CpRegistryInsert cp k fd)"
  let ?e = "(?ps ! t)\<lparr>cpp_key := k, cpp_fd := fd, cpp_occupied := 1, cpp_preferred := 0\<rparr>"
  have len: "length ?ps = 4096" using inv by (simp add: cp_inv_def cp_reach_def)
  have j: "j < 4096" "cp_live (?ps ! j)" "cpp_key (?ps ! j) = k" using CpRegistryLookup_SomeD [OF known] by auto
  obtain pre post where p: "cp_probe_seq k = pre @ t # post" "\<forall>i \<in> set pre. cp_live (?ps ! i) \<and> cpp_key (?ps ! i) \<noteq> k"
    using cp_insert_loop_Some [OF tomb(1)] by blast
  have "t \<in> set (cp_probe_seq k)" using p(1) by simp
  then have t: "t < 4096" "t \<noteq> j" using tomb(2) j by auto
  have one: "cp_peers ?cp1 = ?ps[t := ?e]" "cp_peer_count ?cp1 = cp_peer_count cp + 1"
    using tomb by (simp_all add: CpRegistryInsert_def Let_def)
  have first: "cp_lookup_loop (ps[t := e]) k (pre @ t # post) = Some t"
    if "cp_live e" "cpp_key e = k" "length ps = 4096" "\<forall>i \<in> set pre. cp_live (ps ! i) \<and> cpp_key (ps ! i) \<noteq> k"
      "t \<notin> set pre" for ps e pre
    using that t(1) by (induction pre) auto
  have "t \<notin> set pre" using p tomb(2) by auto
  then have l1: "CpRegistryLookup ?cp1 k = Some t"
    unfolding CpRegistryLookup_def one p(1) using p(2) len by (intro first) simp_all
  have nu: "\<not> cp_uniq ?cp1" unfolding cp_uniq_def one using t j len by (auto simp: nth_list_update)
  let ?d = "?e\<lparr>cpp_occupied := 2, cpp_fd := -1\<rparr>"
  have two: "cp_peers (CpRegistryRemove ?cp1 k) = ?ps[t := ?d]"
    using l1 t len one by (simp add: CpRegistryRemove_def CpRegistryLookup_def Let_def)
  have skip: "cp_lookup_loop (ps[t := d]) k slots = cp_lookup_loop ps k slots"
    if "cpp_occupied (ps ! t) = 2" "cpp_occupied d = 2" "length ps = 4096" for ps d slots
    using that t(1) by (induction slots) (auto simp: nth_list_update)
  have "CpRegistryLookup (CpRegistryRemove ?cp1 k) k = Some j"
    using known skip [of ?ps ?d] tomb(2) len by (simp add: CpRegistryLookup_def two)
  then have "cp_map (CpRegistryRemove ?cp1 k) k = Some (cpp_fd (?ps ! j))"
    using t by (simp add: cp_map_def two nth_list_update)
  with one nu l1 show ?thesis by (simp add: Let_def)
qed

text \<open>Two keys with the same first slot.\<close>

definition key_a :: Key where
  "key_a = [6, 78, 0, 0, 0, 0, 0, 0, 0, 0, 0, 0, 0, 0, 0, 0, 0, 0, 0, 0, 0, 0, 0, 0, 0, 0, 0, 0, 0, 0, 0, 0]"

definition key_b :: Key where
  "key_b = [8, 0, 0, 0, 0, 0, 0, 0, 0, 0, 0, 0, 0, 0, 0, 0, 0, 0, 0, 0, 0, 0, 0, 0, 0, 0, 0, 0, 0, 0, 0, 0]"

lemma colliding: "unat (CpFnv1a key_a) mod 4096 = 2125" "unat (CpFnv1a key_b) mod 4096 = 2125"
  by (simp_all add: CpFnv1a_def key_a_def key_b_def)

lemma probe_2125:
  assumes "unat (CpFnv1a k) mod 4096 = 2125"
  shows "\<exists>rest. cp_probe_seq k = 2125 # 2126 # rest"
proof -
  have "Suc (unat (CpFnv1a k)) mod 4096 = 2126" using assms mod_Suc [of "unat (CpFnv1a k)" 4096] by simp
  moreover have "[0..<4096] = 0 # Suc 0 # [2..<4096]"
    unfolding upt_conv_Cons [of 0 4096, OF zero_less_numeral]
    by (subst upt_conv_Cons [of "Suc 0" 4096]) (simp_all add: numeral_2_eq_2 del: upt_rec_numeral)
  ultimately show ?thesis using assms by (simp add: cp_probe_seq_eq del: upt_rec_numeral)
qed

text \<open>Both peers connect, then the first one leaves.\<close>

definition example_dup :: ControlPlane where
  "example_dup = CpRegistryRemove (fst (CpRegistryInsert (fst (CpRegistryInsert example_cp key_a 5)) key_b 6)) key_a"

lemma example_dup_state:
  "cp_inv example_dup" "CpRegistryLookup example_dup key_b = Some 2126"
  "cp_insert_loop (cp_peers example_dup) key_b (cp_probe_seq key_b) = Some 2125"
  "cpp_occupied (cp_peers example_dup ! 2125) = 2" "cpp_fd (cp_peers example_dup ! 2126) = 6"
proof -
  have k: "is_Key key_a" "is_Key key_b" "key_a \<noteq> key_b" by (simp_all add: key_a_def key_b_def is_Key_def)
  show "cp_inv example_dup"
    unfolding example_dup_def by (intro CpRegistryRemove_inv CpRegistryInsert_inv example_cp_ok(1) k)
  obtain ra rb where p: "cp_probe_seq key_a = 2125 # 2126 # ra" "cp_probe_seq key_b = 2125 # 2126 # rb"
    using probe_2125 [OF colliding(1)] probe_2125 [OF colliding(2)] by blast
  let ?ea = "\<lparr>cpp_key = key_a, cpp_fd = 5, cpp_occupied = 1, cpp_preferred = 0\<rparr>"
  let ?eb = "\<lparr>cpp_key = key_b, cpp_fd = 6, cpp_occupied = 1, cpp_preferred = 0\<rparr>"
  let ?ps = "replicate 4096 CpPeer_init"
  have 1: "cp_peers (fst (CpRegistryInsert example_cp key_a 5)) = ?ps[2125 := ?ea]"
    using p by (simp add: CpRegistryInsert_def example_cp_def CpPeer_init_def Let_def)
  have 2: "cp_peers (fst (CpRegistryInsert (fst (CpRegistryInsert example_cp key_a 5)) key_b 6)) =
      ?ps[2125 := ?ea, 2126 := ?eb]"
    using p k 1 by (simp add: CpRegistryInsert_def [of _ key_b] CpPeer_init_def Let_def)
  have 3: "cp_peers example_dup = ?ps[2126 := ?eb, 2125 := ?ea\<lparr>cpp_occupied := 2, cpp_fd := -1\<rparr>]"
    using p k 2 by (simp add: example_dup_def CpRegistryRemove_def Let_def list_update_swap)
  show "CpRegistryLookup example_dup key_b = Some 2126"
    "cp_insert_loop (cp_peers example_dup) key_b (cp_probe_seq key_b) = Some 2125"
    "cpp_occupied (cp_peers example_dup ! 2125) = 2" "cpp_fd (cp_peers example_dup ! 2126) = 6"
    using p 3 by (simp_all add: CpRegistryLookup_def)
qed

theorem cp_reconnect_duplicates_witness:
  "cp_map (CpRegistryRemove (fst (CpRegistryInsert example_dup key_b 9)) key_b) key_b = Some 6"
proof -
  have "is_Key key_b" by (simp add: key_b_def is_Key_def)
  from cp_reconnect_duplicates [OF example_dup_state(1) this example_dup_state(2-4), of 9] example_dup_state(5)
  show ?thesis by (simp add: Let_def)
qed

section \<open>Who is told\<close>

text \<open>
  Notifications. A connect appends exactly one PeerPresent frame for each watcher whose socket
  belongs to a live peer, a disconnect exactly one PeerGone frame with the reason, after the
  departed socket has stopped watching, and a subscription exactly one PeerPresent frame per live
  peer other than the subscriber; a subscriber is a watcher from then on unless 64 others are.
\<close>

theorem cp_notifications:
  assumes inv: "cp_inv cp" and k: "is_Key key"
  shows "(\<exists>cp'. CpOnPeerConnect cp key fd = Some cp' \<and> cp_watchers cp' = cp_watchers cp \<and>
      cp_calls cp' = cp_calls cp @ notices cp' (derp_frame Frame_kPeerPresent key)) \<and>
    (\<exists>cp'. CpOnPeerGone cp key fd reason = Some cp' \<and> set (cp_watchers cp') = set (cp_watchers cp) - {fd} \<and>
      cp_calls cp' = cp_calls cp @ notices cp' (derp_frame Frame_kPeerGone (key @ [PeerGoneReason_byte reason]))) \<and>
    (\<exists>cp'. HandleWatchConns cp fd = Some cp' \<and>
      cp_calls cp' = cp_calls cp @ sync_calls (cp_peers cp) fd (fd_key cp fd) \<and>
      (set (cp_watchers cp') = insert fd (set (cp_watchers cp)) \<or>
       cp_watchers cp' = cp_watchers cp \<and> length (cp_watchers cp) = 64))"
proof (intro conjI)
  have w: "cp_watchers (emit_all cs c) = cp_watchers c" "notices (emit_all cs c) f = notices c f" for cs c f
    by (simp_all add: cp_watchers_def notices_def)
  have "cp_watchers (fst (CpRegistryInsert cp key fd)) = cp_watchers cp"
    "cp_calls (fst (CpRegistryInsert cp key fd)) = cp_calls cp"
    by (auto simp: CpRegistryInsert_def Let_def cp_watchers_def split: option.splits)
  then show "\<exists>cp'. CpOnPeerConnect cp key fd = Some cp' \<and> cp_watchers cp' = cp_watchers cp \<and>
      cp_calls cp' = cp_calls cp @ notices cp' (derp_frame Frame_kPeerPresent key)"
    using DoConnect_eq [OF inv k, of fd] by (simp add: CpOnPeerConnect_def Let_def w)
  let ?cp = "CpRegistryRemove (CpRemoveWatcher cp fd) key"
  have "cp_watchers ?cp = cp_watchers (CpRemoveWatcher cp fd)" "cp_calls ?cp = cp_calls (CpRemoveWatcher cp fd)"
    by (auto simp: CpRegistryRemove_def Let_def cp_watchers_def split: option.splits)
  moreover have "cp_calls (CpRemoveWatcher cp fd) = cp_calls cp"
    by (auto simp: CpRemoveWatcher_def Let_def split: option.splits)
  ultimately show "\<exists>cp'. CpOnPeerGone cp key fd reason = Some cp' \<and> set (cp_watchers cp') = set (cp_watchers cp) - {fd} \<and>
      cp_calls cp' = cp_calls cp @ notices cp' (derp_frame Frame_kPeerGone (key @ [PeerGoneReason_byte reason]))"
    using DoDisconnect_eq [OF inv k, of fd reason] CpRemoveWatcher_spec(2) [OF inv, of fd]
    by (simp add: CpOnPeerGone_def Let_def w cp_watchers_def)
  have l: "length (cp_watchers cp) = cp_watcher_count cp" "cp_watcher_count cp \<le> 64" "length (cp_watcher_fds cp) = 64"
    using inv by (simp_all add: cp_inv_def cp_watchers_def)
  have "set (cp_watchers (CpAddWatcher cp fd)) = insert fd (set (cp_watchers cp)) \<or>
      cp_watchers (CpAddWatcher cp fd) = cp_watchers cp \<and> length (cp_watchers cp) = 64"
    using l by (auto simp: CpAddWatcher_def cp_watchers_def scan_None_iff take_Suc_conv_app_nth)
  moreover have "cp_calls (CpAddWatcher cp fd) = cp_calls cp" by (simp add: CpAddWatcher_def)
  ultimately show "\<exists>cp'. HandleWatchConns cp fd = Some cp' \<and>
      cp_calls cp' = cp_calls cp @ sync_calls (cp_peers cp) fd (fd_key cp fd) \<and>
      (set (cp_watchers cp') = insert fd (set (cp_watchers cp)) \<or>
       cp_watchers cp' = cp_watchers cp \<and> length (cp_watchers cp) = 64)"
    using HandleWatchConns_eq [OF inv, of fd] by (simp add: w)
qed

theorem cp_notifications_witness:
  "\<exists>cp'. HandleWatchConns example_cp 5 = Some cp' \<and> set (cp_watchers cp') = {5}"
  using cp_notifications [OF example_cp_ok(1) is_Key_zero, of 5]
  by (auto simp: example_cp_def cp_watchers_def)

end
