(* ===== verification/Cp_Open.thy ===== *)
theory Cp_Open
  imports Cp_State
begin

text \<open>
  Opening connections under the routing policy: the second half of \<^verbatim>\<open>src/control_plane.cc\<close>.
  An initiator asks for a connection, the target is asked in turn, its answer is resolved
  against the policies, and both sides are told; requests for a peer of another relay go
  through the relay mesh. Up to 256 requests are pending in \<^verbatim>\<open>open_conns\<close>.

  A handler's \<^const>\<open>None\<close> is undefined behaviour or a handler that never returns: the socket
  write of this part retries for as long as the socket says \<^verbatim>\<open>EAGAIN\<close>.
\<close>

section \<open>The environment of a handler\<close>

text \<open>What one \<^verbatim>\<open>write\<close> does: \<open>Sk_again\<close> stands for both \<^verbatim>\<open>EINTR\<close> and \<^verbatim>\<open>EAGAIN\<close>.\<close>

datatype sock_outcome = Sk_again | Sk_error | Sk_count nat

text \<open>
  \<open>env_write c fd a\<close> is the outcome of the \<open>a\<close>-th \<^verbatim>\<open>write\<close> to \<open>fd\<close> of the frame that is
  written after \<open>c\<close> earlier calls of the control plane; \<open>env_now\<close> and \<open>env_wall\<close> are what the
  monotonic and the audit clock read.
\<close>

record cp_env =
  env_now :: u64
  env_wall :: u64
  env_write :: "nat \<Rightarrow> int \<Rightarrow> nat \<Rightarrow> sock_outcome"
  env_bin2hex :: bin2hex_fn

partial_function (option) write_full ::
  "(nat \<Rightarrow> sock_outcome) \<Rightarrow> nat \<Rightarrow> bytes \<Rightarrow> bytes \<Rightarrow> (bytes \<times> int) option" where
  "write_full out a sent data =
     (if data = [] then Some (sent, 0)
      else (case out a of
        Sk_again \<Rightarrow> write_full out (Suc a) sent data
      | Sk_error \<Rightarrow> Some (sent, -1)
      | Sk_count w \<Rightarrow>
          if w = 0 then Some (sent, -1)
          else write_full out (Suc a) (sent @ take w data) (drop w data)))"

definition WriteFullFrame ::
  "cp_env \<Rightarrow> ControlPlane \<Rightarrow> int \<Rightarrow> bytes \<Rightarrow> int \<Rightarrow> (ControlPlane \<times> int) ub" where
  "WriteFullFrame env cp fd buf n = do {
     data \<leftarrow> rd 0 n buf;
     (sent, rc) \<leftarrow> write_full (env_write env (length (cp_calls cp)) fd) 0 [] data;
     Some (cp_emit (Call_write fd sent) cp, rc) }"

section \<open>Pending requests\<close>

definition OpenConnSlotFind :: "ControlPlane \<Rightarrow> u64 \<Rightarrow> int \<Rightarrow> nat option" where
  "OpenConnSlotFind cp correlation_id initiator_fd =
     scan (\<lambda>s. oce_in_use s \<and> oce_correlation_id s = correlation_id \<and> oce_initiator_fd s = initiator_fd)
       (cp_open_conns cp)"

definition OpenConnSlotAlloc :: "ControlPlane \<Rightarrow> nat option" where
  "OpenConnSlotAlloc cp = scan (\<lambda>s. \<not> oce_in_use s) (cp_open_conns cp)"

definition OpenConnSlotFree :: "ControlPlane \<Rightarrow> nat \<Rightarrow> ControlPlane" where
  "OpenConnSlotFree cp idx =
     (let s = cp_open_conns cp ! idx;
          counts = cp_open_conn_per_peer cp;
          counts = (if oce_in_use s \<and> oce_initiator_fd s \<ge> 0 \<and> oce_initiator_fd s < kMaxFd
                    then counts(oce_initiator_fd s := counts (oce_initiator_fd s) - 1) else counts) in
      cp\<lparr>cp_open_conn_per_peer := counts,
         cp_open_conns := (cp_open_conns cp)[idx := OpenConnEntry_init]\<rparr>)"

definition SendOpenResultAndCleanup ::
  "cp_env \<Rightarrow> ControlPlane \<Rightarrow> nat \<Rightarrow> HdConnMode \<Rightarrow> HdDenyReason \<Rightarrow> u8 \<Rightarrow> ControlPlane ub" where
  "SendOpenResultAndCleanup env cp slot_idx mode reason sub_reason =
     (let s = cp_open_conns cp ! slot_idx;
          path = (if oce_target_relay_id s \<noteq> 0 \<and> \<not> oce_is_gateway_inbound s
                  then [oce_target_relay_id s] else []);
          path_len = int (length path) in do {
        (buf, n) \<leftarrow> (if oce_is_gateway_inbound s
          then HdBuildFleetOpenConnectionResult (replicate 256 0) 256 (oce_correlation_id s) mode reason
                 sub_reason [] 0 [] 0
          else HdBuildOpenConnectionResult (replicate 256 0) 256 (oce_correlation_id s) mode reason
                 sub_reason path path_len [] 0);
        cp \<leftarrow> (if n > 0 \<and> oce_initiator_fd s \<ge> 0
               then map_option fst (WriteFullFrame env cp (oce_initiator_fd s) buf n) else Some cp);
        cp \<leftarrow> (if mode \<noteq> Mode_kDenied \<and> oce_target_fd s \<ge> 0 \<and> oce_target_relay_id s = 0 \<and>
                  \<not> oce_is_gateway_inbound s
               then do {
                 (tbuf, tn) \<leftarrow> HdBuildIncomingConnResult
                   (replicate (nat (kHdFrameHeaderSize + kHdIncomingResultSize)) 0)
                   (oce_correlation_id s) mode reason sub_reason;
                 map_option fst (WriteFullFrame env cp (oce_target_fd s) tbuf tn) }
               else Some cp);
        Some (OpenConnSlotFree cp slot_idx) })"

definition CpEnableRoutingPolicy :: "ControlPlane \<Rightarrow> HdPeerRegistry \<Rightarrow> ControlPlane" where
  "CpEnableRoutingPolicy cp hd_peers =
     cp\<lparr>cp_hd_peers := Some hd_peers, cp_audit_ring := HdAuditInit (cp_audit_ring cp)\<rparr>"

fun scan_timeouts_loop :: "cp_env \<Rightarrow> nat list \<Rightarrow> ControlPlane \<Rightarrow> ControlPlane ub" where
  "scan_timeouts_loop env [] cp = Some cp"
| "scan_timeouts_loop env (i # is) cp =
     (let s = cp_open_conns cp ! i in
      if \<not> oce_in_use s then scan_timeouts_loop env is cp
      else if env_now env < oce_deadline_ns s then scan_timeouts_loop env is cp
      else do {
        cp \<leftarrow> SendOpenResultAndCleanup env cp i Mode_kDenied Deny_kTargetUnresponsive 0;
        scan_timeouts_loop env is cp })"

definition ScanOpenConnTimeouts :: "cp_env \<Rightarrow> ControlPlane \<Rightarrow> ControlPlane ub" where
  "ScanOpenConnTimeouts env cp = scan_timeouts_loop env [0..<kCpMaxOpenConns] cp"

section \<open>Requests of the relay's own clients\<close>

text \<open>
  Local variables the source leaves uninitialised until a parser has filled them: the value does
  not matter, the array sizes do.
\<close>

definition open_conn_blank :: HdOpenConnection where
  "open_conn_blank = \<lparr>oc_target_peer_id = 0, oc_target_relay_id = 0, oc_intent = Intent_kPreferDirect,
     oc_flags = 0, oc_correlation_id = 0\<rparr>"

definition incoming_resp_blank :: HdIncomingConnResponse where
  "incoming_resp_blank = \<lparr>icr_correlation_id = 0, icr_intent = Intent_kPreferDirect, icr_flags = 0,
     icr_accept = 0\<rparr>"

definition open_result_blank :: HdOpenConnectionResult where
  "open_result_blank = \<lparr>ocr_correlation_id = 0, ocr_mode = Mode_kDenied, ocr_deny_reason = Deny_kNone,
     ocr_sub_reason = 0, ocr_relay_path = replicate (nat kHdMaxRelayPath) 0, ocr_relay_path_len = 0,
     ocr_endpoint_hint = replicate (nat (kHdMaxEndpointHint + 1)) 0, ocr_endpoint_hint_len = 0\<rparr>"

definition fleet_open_blank :: HdFleetOpenConnection where
  "fleet_open_blank = \<lparr>foc_origin_relay_id = 0,
     foc_origin_fleet_id = replicate (nat (kHdMaxFleetIdLen + 1)) 0, foc_origin_fleet_id_len = 0,
     foc_target_key = zero_Key, foc_inner_conn = replicate (nat kHdOpenConnSize) 0\<rparr>"

text \<open>The client view of a request: its intent and the two flags.\<close>

definition wire_view :: "HdIntent \<Rightarrow> u8 \<Rightarrow> HdClientView" where
  "wire_view intent flags = \<lparr>cv_intent = intent,
     cv_allow_upgrade = (flags AND kHdFlagAllowUpgrade \<noteq> 0),
     cv_allow_downgrade = (flags AND kHdFlagAllowDowngrade \<noteq> 0)\<rparr>"

text \<open>A denial written straight to the asking socket, as each early return of the handlers does.\<close>

definition reply_denied :: "cp_env \<Rightarrow> ControlPlane \<Rightarrow> int \<Rightarrow> u64 \<Rightarrow> HdDenyReason \<Rightarrow> ControlPlane ub" where
  "reply_denied env cp fd correlation_id reason = do {
     (rbuf, rn) \<leftarrow> HdBuildOpenConnectionResult (replicate 64 0) 64 correlation_id Mode_kDenied reason 0
       [] 0 [] 0;
     if rn > 0 then map_option fst (WriteFullFrame env cp fd rbuf rn) else Some cp }"

definition count_open :: "int \<Rightarrow> ControlPlane \<Rightarrow> ControlPlane" where
  "count_open fd cp =
     (if fd \<ge> 0 \<and> fd < kMaxFd
      then cp\<lparr>cp_open_conn_per_peer :=
             (cp_open_conn_per_peer cp)(fd := cp_open_conn_per_peer cp fd + 1)\<rparr>
      else cp)"

definition bytes_of_string :: "string \<Rightarrow> bytes" where
  "bytes_of_string s = map (\<lambda>c. of_nat (of_char c)) s"

definition string_of_bytes :: "bytes \<Rightarrow> string" where
  "string_of_bytes bs = map (\<lambda>b. char_of (unat b)) (takeWhile (\<lambda>b. b \<noteq> 0) bs)"

text \<open>The cross-relay branch of \<^verbatim>\<open>CpHandleOpenConnection\<close>.\<close>

definition open_cross_relay ::
  "cp_env \<Rightarrow> ControlPlane \<Rightarrow> HdPeerRegistry \<Rightarrow> int \<Rightarrow> HdOpenConnection \<Rightarrow> Key \<Rightarrow> HdClientView \<Rightarrow>
   ControlPlane ub" where
  "open_cross_relay env cp reg fd req initiator_key cv =
     (case cp_relay_table cp of
        None \<Rightarrow> reply_denied env cp fd (oc_correlation_id req) Deny_kFleetRoutingNotImplemented
      | Some rt \<Rightarrow>
          (let gateway_fd = (case RelayTableLookup rt (oc_target_relay_id req) of
                 None \<Rightarrow> -1 | Some i \<Rightarrow> re_fd (rt_entries rt ! i)) in
           if gateway_fd < 0 then reply_denied env cp fd (oc_correlation_id req) Deny_kPeerUnreachable
           else (case OpenConnSlotAlloc cp of
             None \<Rightarrow> reply_denied env cp fd (oc_correlation_id req) Deny_kTooManyOpenConns
           | Some slot \<Rightarrow>
               (let s = (cp_open_conns cp ! slot)\<lparr>oce_in_use := True,
                      oce_correlation_id := oc_correlation_id req, oce_initiator_fd := fd,
                      oce_target_fd := gateway_fd, oce_initiator_key := initiator_key,
                      oce_initiator_view := cv, oce_target_relay_id := oc_target_relay_id req,
                      oce_is_gateway_inbound := False,
                      oce_deadline_ns := env_now env + kCpOpenConnTimeoutNs\<rparr>;
                    cp = count_open fd (cp\<lparr>cp_open_conns := (cp_open_conns cp)[slot := s]\<rparr>);
                    inner_flags = (if cv_allow_upgrade cv then kHdFlagAllowUpgrade else 0) OR
                      (if cv_allow_downgrade cv then kHdFlagAllowDowngrade else 0);
                    fid = bytes_of_string (fed_local_fleet_id (reg_federation_policy reg)) in do {
                  (inner_frame, _) \<leftarrow> HdBuildOpenConnection
                    (replicate (nat (kHdFrameHeaderSize + kHdOpenConnSize)) 0)
                    (oc_target_peer_id req) 0 (cv_intent cv) inner_flags (oc_correlation_id req);
                  (out_buf, on) \<leftarrow> HdBuildFleetOpenConnection (replicate 256 0) 256 (rt_self_id rt) fid
                    (int (length fid)) zero_Key (drop (nat kHdFrameHeaderSize) inner_frame)
                    kHdOpenConnSize;
                  if on \<le> 0 then SendOpenResultAndCleanup env cp slot Mode_kDenied Deny_kPeerUnreachable 0
                  else do {
                    (cp, rc) \<leftarrow> WriteFullFrame env cp gateway_fd out_buf on;
                    if rc < 0 then SendOpenResultAndCleanup env cp slot Mode_kDenied Deny_kPeerUnreachable 0
                    else Some cp } }))))"

text \<open>The branch for a target that is not connected: a denial, and its audit record.\<close>

definition open_unreachable ::
  "cp_env \<Rightarrow> ControlPlane \<Rightarrow> int \<Rightarrow> HdOpenConnection \<Rightarrow> Key \<Rightarrow> HdClientView \<Rightarrow> ControlPlane ub" where
  "open_unreachable env cp fd req initiator_key cv =
     (let dec = HdDecision_init\<lparr>d_mode := Mode_kDenied, d_deny_reason := Deny_kPeerUnreachable\<rparr> in do {
        cp \<leftarrow> reply_denied env cp fd (oc_correlation_id req) (d_deny_reason dec);
        Some (cp\<lparr>cp_audit_ring := HdAuditRecordDecision (env_wall env) (cp_audit_ring cp) initiator_key
          zero_Key cv dec\<rparr>) })"

text \<open>The local branch: ask the target.\<close>

definition open_local ::
  "cp_env \<Rightarrow> ControlPlane \<Rightarrow> HdPeerRegistry \<Rightarrow> int \<Rightarrow> HdOpenConnection \<Rightarrow> nat option \<Rightarrow> Key \<Rightarrow> HdClientView \<Rightarrow>
   ControlPlane ub" where
  "open_local env cp reg fd req initiator initiator_key cv =
     (let target = HdPeersLookupById reg (oc_target_peer_id req);
          target_fd = (case target of None \<Rightarrow> -1 | Some t \<Rightarrow> hp_fd (reg_peers reg ! t)) in
      case target of
        None \<Rightarrow> open_unreachable env cp fd req initiator_key cv
      | Some t \<Rightarrow>
          if target_fd < 0 then open_unreachable env cp fd req initiator_key cv
          else (case OpenConnSlotAlloc cp of
            None \<Rightarrow> reply_denied env cp fd (oc_correlation_id req) Deny_kTooManyOpenConns
          | Some slot \<Rightarrow>
              (let s = (cp_open_conns cp ! slot)\<lparr>oce_in_use := True,
                     oce_correlation_id := oc_correlation_id req, oce_initiator_fd := fd,
                     oce_target_fd := target_fd, oce_initiator_key := initiator_key,
                     oce_target_key := hp_key (reg_peers reg ! t), oce_initiator_view := cv,
                     oce_target_relay_id := oc_target_relay_id req,
                     oce_deadline_ns := env_now env + kCpOpenConnTimeoutNs\<rparr>;
                   cp = count_open fd (cp\<lparr>cp_open_conns := (cp_open_conns cp)[slot := s]\<rparr>) in do {
                 (buf, n) \<leftarrow> HdBuildIncomingConnection
                   (replicate (nat (kHdFrameHeaderSize + kHdIncomingConnSize)) 0) initiator_key
                   (if initiator \<noteq> None then hp_peer_id (reg_peers reg ! t) else 0) (cv_intent cv)
                   (oc_flags req) (oc_correlation_id req);
                 (cp, rc) \<leftarrow> WriteFullFrame env cp target_fd buf n;
                 if rc < 0 then SendOpenResultAndCleanup env cp slot Mode_kDenied Deny_kPeerUnreachable 0
                 else Some cp })))"

definition CpHandleOpenConnection ::
  "cp_env \<Rightarrow> ControlPlane \<Rightarrow> int \<Rightarrow> bytes \<Rightarrow> int \<Rightarrow> ControlPlane ub" where
  "CpHandleOpenConnection env cp fd payload payload_len = do {
     (ok, req) \<leftarrow> HdParseOpenConnection payload payload_len open_conn_blank;
     if \<not> ok then Some cp
     else (case cp_hd_peers cp of
       None \<Rightarrow> Some cp
     | Some reg \<Rightarrow>
         if fd \<ge> 0 \<and> fd < kMaxFd \<and> cp_open_conn_per_peer cp fd \<ge> kCpMaxOpenConnsPerPeer
         then reply_denied env cp fd (oc_correlation_id req) Deny_kTooManyOpenConns
         else
           (let initiator = (if valid_fd fd then cp_fd_map cp fd else None);
                initiator_key = (case initiator of None \<Rightarrow> zero_Key | Some i \<Rightarrow> cpp_key (cp_peers cp ! i));
                cv = wire_view (oc_intent req) (oc_flags req);
                cv = (case HdPeersLookupPolicy reg initiator_key of
                        None \<Rightarrow> cv
                      | Some ipol \<Rightarrow> if pp_override_client ipol \<and> pp_has_pin ipol
                                     then cv\<lparr>cv_intent := pp_pinned_intent ipol\<rparr> else cv) in
            if oc_target_relay_id req \<noteq> 0 then open_cross_relay env cp reg fd req initiator_key cv
            else open_local env cp reg fd req initiator initiator_key cv)) }"

definition CpHandleIncomingConnResponse ::
  "cp_env \<Rightarrow> ControlPlane \<Rightarrow> int \<Rightarrow> bytes \<Rightarrow> int \<Rightarrow> ControlPlane ub" where
  "CpHandleIncomingConnResponse env cp fd payload payload_len = do {
     (ok, resp) \<leftarrow> HdParseIncomingConnResponse payload payload_len incoming_resp_blank;
     if \<not> ok then Some cp
     else (case scan (\<lambda>s. oce_in_use s \<and> oce_correlation_id s = icr_correlation_id resp \<and>
                         oce_target_fd s = fd) (cp_open_conns cp) of
       None \<Rightarrow> Some cp
     | Some slot \<Rightarrow>
         (let entry = cp_open_conns cp ! slot in
          if icr_accept resp AND kHdFlagAccept = 0
          then SendOpenResultAndCleanup env cp slot Mode_kDenied Deny_kPolicyForbids 0
          else do {
            reg \<leftarrow> cp_hd_peers cp;
            let b_policy = (case HdPeersLookupPolicy reg (oce_target_key entry) of
                              None \<Rightarrow> HdPeerPolicy_init | Some bpol \<Rightarrow> bpol);
            let effective_b = HdApplyPeerPolicyIntent b_policy (icr_intent resp);
            let peer_view = HdBuildPeerView b_policy effective_b;
            let fleet_view = HdBuildFleetView (reg_fleet_policy reg);
            let relay_view = HdBuildRelayView (reg_relay_policy reg);
            let max_direct = rp_max_direct_peers (reg_relay_policy reg);
            let dec = HdResolve fleet_view HdLayerView_init relay_view peer_view
              (oce_initiator_view entry) \<lparr>cap_can_direct = False\<rparr> (oce_target_relay_id entry);
            let (dec, reg) =
              (if d_mode dec = Mode_kDirect \<and> max_direct > 0
               then (if reg_direct_in_use reg \<ge> max_direct
                     then (dec\<lparr>d_mode := Mode_kDenied, d_deny_reason := Deny_kDirectCapExceeded\<rparr>, reg)
                     else (dec, reg\<lparr>reg_direct_in_use := reg_direct_in_use reg + 1\<rparr>))
               else (dec, reg));
            let cp = cp\<lparr>cp_hd_peers := Some reg, cp_audit_ring := HdAuditRecordDecision (env_wall env)
              (cp_audit_ring cp) (oce_initiator_key entry) (oce_target_key entry)
              (oce_initiator_view entry) dec\<rparr>;
            SendOpenResultAndCleanup env cp slot (d_mode dec) (d_deny_reason dec) (d_sub_reason dec) })) }"

section \<open>Requests that cross the relay mesh\<close>

text \<open>The lambda \<^verbatim>\<open>deny_back\<close>.\<close>

definition deny_back :: "cp_env \<Rightarrow> ControlPlane \<Rightarrow> int \<Rightarrow> u64 \<Rightarrow> HdDenyReason \<Rightarrow> ControlPlane ub" where
  "deny_back env cp fd correlation_id reason = do {
     (rbuf, rn) \<leftarrow> HdBuildFleetOpenConnectionResult (replicate 64 0) 64 correlation_id Mode_kDenied reason 0
       [] 0 [] 0;
     if rn > 0 then map_option fst (WriteFullFrame env cp fd rbuf rn) else Some cp }"

text \<open>The end of the gateway's handler: claim the slot and ask the local target.\<close>

definition open_gateway ::
  "cp_env \<Rightarrow> ControlPlane \<Rightarrow> int \<Rightarrow> HdOpenConnection \<Rightarrow> u16 \<Rightarrow> HdClientView \<Rightarrow> int \<Rightarrow> Key \<Rightarrow> u16 \<Rightarrow> nat \<Rightarrow>
   ControlPlane ub" where
  "open_gateway env cp fd inner origin_relay_id cv target_fd target_key target_peer_id slot =
     (let s = (cp_open_conns cp ! slot)\<lparr>oce_in_use := True,
            oce_correlation_id := oc_correlation_id inner, oce_initiator_fd := fd,
            oce_target_fd := target_fd, oce_target_key := target_key,
            oce_initiator_view := cv, oce_target_relay_id := 0,
            oce_is_gateway_inbound := True, oce_origin_relay_id := origin_relay_id,
            oce_deadline_ns := env_now env + kCpOpenConnTimeoutNs\<rparr>;
          cp = cp\<lparr>cp_open_conns := (cp_open_conns cp)[slot := s]\<rparr> in do {
        (buf, n) \<leftarrow> HdBuildIncomingConnection
          (replicate (nat (kHdFrameHeaderSize + kHdIncomingConnSize)) 0) zero_Key
          target_peer_id (cv_intent cv) (oc_flags inner) (oc_correlation_id inner);
        (cp, rc) \<leftarrow> WriteFullFrame env cp target_fd buf n;
        if rc < 0
        then SendOpenResultAndCleanup env cp slot Mode_kDenied Deny_kPeerUnreachable 0
        else Some cp })"

definition CpHandleFleetOpenConnection ::
  "cp_env \<Rightarrow> ControlPlane \<Rightarrow> int \<Rightarrow> bytes \<Rightarrow> int \<Rightarrow> ControlPlane ub" where
  "CpHandleFleetOpenConnection env cp fd payload payload_len = do {
     (ok, foc) \<leftarrow> HdParseFleetOpenConnection payload payload_len fleet_open_blank;
     if \<not> ok then Some cp
     else (case cp_hd_peers cp of
       None \<Rightarrow> Some cp
     | Some reg \<Rightarrow> do {
         (ok, inner) \<leftarrow> HdParseOpenConnection (foc_inner_conn foc) kHdOpenConnSize open_conn_blank;
         if \<not> ok then Some cp
         else
           (let cv = wire_view (oc_intent inner) (oc_flags inner);
                target = HdPeersLookupById reg (oc_target_peer_id inner);
                target_fd = (case target of None \<Rightarrow> -1 | Some t \<Rightarrow> hp_fd (reg_peers reg ! t));
                target_key = (case target of None \<Rightarrow> zero_Key | Some t \<Rightarrow> hp_key (reg_peers reg ! t)) in
            if target = None \<or> target_fd < 0
            then deny_back env cp fd (oc_correlation_id inner) Deny_kPeerUnreachable
            else if \<not> fst (HdFederationAllows (env_bin2hex env) (reg_federation_policy reg)
                        (string_of_bytes (foc_origin_fleet_id foc)) target_key)
            then deny_back env cp fd (oc_correlation_id inner) Deny_kFederationDenied
            else (case OpenConnSlotAlloc cp of
              None \<Rightarrow> deny_back env cp fd (oc_correlation_id inner) Deny_kTooManyOpenConns
            | Some slot \<Rightarrow>
                open_gateway env cp fd inner (foc_origin_relay_id foc) cv target_fd target_key
                  (case target of None \<Rightarrow> 0 | Some t \<Rightarrow> hp_peer_id (reg_peers reg ! t)) slot)) }) }"

definition CpHandleFleetOpenConnectionResult ::
  "cp_env \<Rightarrow> ControlPlane \<Rightarrow> int \<Rightarrow> bytes \<Rightarrow> int \<Rightarrow> ControlPlane ub" where
  "CpHandleFleetOpenConnectionResult env cp fd payload payload_len = do {
     (ok, result) \<leftarrow> HdParseOpenConnectionResult payload payload_len open_result_blank;
     if \<not> ok then Some cp
     else (case scan (\<lambda>s. oce_in_use s \<and> oce_correlation_id s = ocr_correlation_id result \<and>
                         oce_target_fd s = fd \<and> \<not> oce_is_gateway_inbound s \<and> oce_target_relay_id s \<noteq> 0)
                   (cp_open_conns cp) of
       None \<Rightarrow> Some cp
     | Some slot \<Rightarrow>
         SendOpenResultAndCleanup env cp slot (ocr_mode result) (ocr_deny_reason result)
           (ocr_sub_reason result)) }"

end
