(* ===== verification/Cp_Loop.thy ===== *)
theory Cp_Loop
  imports Cp_Open Stun
begin

text \<open>
  The control plane's event loop, from \<^verbatim>\<open>src/control_plane.cc\<close>: ICE checks and answers, route
  announcements in both directions, the dispatch of a frame to its handler, and the reassembly of
  the messages that the data plane's workers write to their pipes.
\<close>

section \<open>ICE\<close>

text \<open>The session loop of \<^verbatim>\<open>HandleStunResponse\<close>: the first nomination ends it.\<close>

fun stun_sessions_loop :: "IceSession list \<Rightarrow> StunMessage \<Rightarrow> IceSession list" where
  "stun_sessions_loop [] msg = []"
| "stun_sessions_loop (s # ss) msg =
     (if \<not> is_occupied s then s # stun_sessions_loop ss msg
      else if is_state s \<noteq> Ice_kChecking then s # stun_sessions_loop ss msg
      else (case IceProcessResponse s (sm_transaction_id msg) (sm_xor_mapped_ip msg) (sm_xor_mapped_port msg) of
        (s, nominated) \<Rightarrow> if nominated then s # ss else s # stun_sessions_loop ss msg))"

text \<open>\<open>datagram\<close> is what \<^verbatim>\<open>recvfrom\<close> yields, \<^const>\<open>None\<close> when it returns nothing.\<close>

definition HandleStunResponse :: "ControlPlane \<Rightarrow> bytes option \<Rightarrow> ControlPlane ub" where
  "HandleStunResponse cp datagram =
     (case datagram of
        None \<Rightarrow> Some cp
      | Some buf \<Rightarrow> do {
          (msg, ok) \<leftarrow> StunParse buf (int (length buf)) StunMessage_init;
          if \<not> ok then Some cp
          else if sm_type msg \<noteq> kStunBindingResponse then Some cp
          else if \<not> sm_has_xor_mapped msg then Some cp
          else do {
            agent \<leftarrow> cp_ice_agent cp;
            Some (cp\<lparr>cp_ice_agent := Some (agent\<lparr>ia_sessions :=
              stun_sessions_loop (ia_sessions agent) msg\<rparr>)\<rparr>) } })"

text \<open>
  The round of checks: \<open>fresh\<close> are the transaction ids drawn. The result are the sessions and the
  requests sent, each to the address and port of its pair's remote candidate.
\<close>

fun ice_timer_loop :: "(nat \<Rightarrow> bytes) \<Rightarrow> nat \<Rightarrow> IceSession list \<Rightarrow> (IceSession list \<times> cp_call list) ub" where
  "ice_timer_loop fresh i [] = Some ([], [])"
| "ice_timer_loop fresh i (s # ss) = do {
     (s, cs) \<leftarrow>
       (if \<not> is_occupied s then Some (s, [])
        else if is_state s \<noteq> Ice_kChecking then Some (s, [])
        else (case IceNextCheck (fresh i) s of
          (s, None) \<Rightarrow> Some (s, [])
        | (s, Some j) \<Rightarrow>
            (let pair = is_pairs s ! j in do {
               (stun_buf, stun_len) \<leftarrow> StunBuildBindingRequest [] (replicate 256 0) 256
                 (Some (ip_transaction_id pair));
               if stun_len \<le> 0 then Some (s, [])
               else do {
                 pkt \<leftarrow> rd 0 stun_len stun_buf;
                 Some (s, [Call_sendto (ic_ip (ip_remote pair)) (ic_port (ip_remote pair)) pkt]) } })));
     (ss, ds) \<leftarrow> ice_timer_loop fresh (Suc i) ss;
     Some (s # ss, cs @ ds) }"

definition HandleIceTimer :: "(nat \<Rightarrow> bytes) \<Rightarrow> ControlPlane \<Rightarrow> ControlPlane ub" where
  "HandleIceTimer fresh cp =
     (case cp_ice_agent cp of
        None \<Rightarrow> Some cp
      | Some agent \<Rightarrow> do {
          (ss, cs) \<leftarrow> ice_timer_loop fresh 0 (ia_sessions agent);
          Some (cp\<lparr>cp_ice_agent := Some (agent\<lparr>ia_sessions := ss\<rparr>), cp_calls := cp_calls cp @ cs\<rparr>) })"

definition CpHandleHdPeerInfo :: "pair_sort \<Rightarrow> ControlPlane \<Rightarrow> int \<Rightarrow> bytes \<Rightarrow> int \<Rightarrow> ControlPlane ub" where
  "CpHandleHdPeerInfo srt cp fd payload payload_len =
     (if \<not> cp_level2_enabled cp then Some cp
      else (case cp_ice_agent cp of
        None \<Rightarrow> Some cp
      | Some agent \<Rightarrow>
          if payload_len < kKeySize then Some cp
          else do {
            peer_key \<leftarrow> rd 0 kKeySize payload;
            let cand_data = drop (nat kKeySize) payload;
            let cand_len = payload_len - kKeySize;
            case IceFindSession agent peer_key of
              None \<Rightarrow> Some cp
            | Some i \<Rightarrow> do {
                (session, parsed) \<leftarrow> IceParseCandidates (ia_sessions agent ! i) cand_data cand_len;
                let session =
                  (if parsed < 0 then session
                   else if is_local_count session > 0 \<and> is_remote_count session > 0 \<and>
                           is_state session = Ice_kGathering
                   then IceFormPairs srt session else session);
                Some (cp\<lparr>cp_ice_agent := Some (agent\<lparr>ia_sessions := (ia_sessions agent)[i := session]\<rparr>)\<rparr>) } }))"

section \<open>Route announcements\<close>

fun announce_loop :: "RelayEntry list \<Rightarrow> bytes \<Rightarrow> int \<Rightarrow> ControlPlane \<Rightarrow> ControlPlane ub" where
  "announce_loop [] buf frame_len cp = Some cp"
| "announce_loop (e # es) buf frame_len cp =
     (if re_occupied e \<noteq> 1 \<or> re_hops e \<noteq> 1 then announce_loop es buf frame_len cp
      else do {
        cp \<leftarrow> CpSendFrame cp (re_key e) buf frame_len;
        announce_loop es buf frame_len cp })"

definition HandleRouteAnnounce :: "ControlPlane \<Rightarrow> ControlPlane ub" where
  "HandleRouteAnnounce cp =
     (case cp_relay_table cp of
        None \<Rightarrow> Some cp
      | Some rt \<Rightarrow>
          (let (routes, count) = RelayTableList rt (int kMaxRelays);
               has_self = list_ex (\<lambda>(rid, h). rid = rt_self_id rt) routes;
               routes = (if \<not> has_self \<and> count < int kMaxRelays then routes @ [(rt_self_id rt, 0)] else routes);
               size = kHdFrameHeaderSize + int kMaxRelays * kHdRouteEntrySize in do {
             (buf, frame_len) \<leftarrow> HdBuildRouteAnnounce (replicate (nat size) 0) size
               (map fst routes) (map snd routes) (int (length routes));
             if frame_len \<le> 0 then Some cp
             else announce_loop (rt_entries rt) buf frame_len cp }))"

fun learn_routes_loop :: "(u16 \<times> u8) list \<Rightarrow> u16 \<Rightarrow> int \<Rightarrow> RelayTable \<Rightarrow> RelayTable" where
  "learn_routes_loop [] src_relay fd rt = rt"
| "learn_routes_loop ((rid, hops) # es) src_relay fd rt =
     (if rid = rt_self_id rt then learn_routes_loop es src_relay fd rt
      else (let new_hops = hops + 1 in
        if new_hops \<ge> 255 then learn_routes_loop es src_relay fd rt
        else learn_routes_loop es src_relay fd (RelayTableUpdateRoute rt rid new_hops src_relay fd)))"

definition CpHandleRouteAnnounce :: "ControlPlane \<Rightarrow> int \<Rightarrow> bytes \<Rightarrow> int \<Rightarrow> ControlPlane ub" where
  "CpHandleRouteAnnounce cp fd payload payload_len =
     (case cp_relay_table cp of
        None \<Rightarrow> Some cp
      | Some rt \<Rightarrow> do {
          (ids, hops, count) \<leftarrow> HdParseRouteAnnounce payload payload_len (replicate 256 0) (replicate 256 0) 256;
          let src_relay = (case scan (\<lambda>e. re_occupied e = 1 \<and> re_fd e = fd) (rt_entries rt) of
                             None \<Rightarrow> 0 | Some i \<Rightarrow> re_relay_id (rt_entries rt ! i));
          if src_relay = 0 then Some cp
          else Some (cp\<lparr>cp_relay_table := Some (learn_routes_loop (take (nat count) (zip ids hops)) src_relay fd rt)\<rparr>) })"

section \<open>Dispatch\<close>

definition CpProcessFrame ::
  "cp_env \<Rightarrow> pair_sort \<Rightarrow> ControlPlane \<Rightarrow> int \<Rightarrow> FrameType \<Rightarrow> bytes \<Rightarrow> int \<Rightarrow> ControlPlane ub" where
  "CpProcessFrame env srt cp fd type payload payload_len =
     (if FrameType_byte type = HdFrameType_byte HdFrame_kPeerInfo
      then CpHandleHdPeerInfo srt cp fd payload payload_len
      else if FrameType_byte type = HdFrameType_byte HdFrame_kRouteAnnounce
      then CpHandleRouteAnnounce cp fd payload payload_len
      else if FrameType_byte type = HdFrameType_byte HdFrame_kOpenConnection
      then CpHandleOpenConnection env cp fd payload payload_len
      else if FrameType_byte type = HdFrameType_byte HdFrame_kIncomingConnResponse
      then CpHandleIncomingConnResponse env cp fd payload payload_len
      else if FrameType_byte type = HdFrameType_byte HdFrame_kFleetOpenConnection
      then CpHandleFleetOpenConnection env cp fd payload payload_len
      else if FrameType_byte type = HdFrameType_byte HdFrame_kFleetOpenConnectionResult
      then CpHandleFleetOpenConnectionResult env cp fd payload payload_len
      else (case type of
          Frame_kWatchConns \<Rightarrow> HandleWatchConns cp fd
        | Frame_kPing \<Rightarrow> HandlePing cp fd payload payload_len
        | Frame_kNotePreferred \<Rightarrow> HandleNotePreferred cp fd payload payload_len
        | Frame_kClosePeer \<Rightarrow> HandleClosePeer cp fd payload payload_len
        | Frame_kPeerGone \<Rightarrow> HandlePeerGone cp fd payload payload_len
        | _ \<Rightarrow> Some cp))"

section \<open>The pipe reader\<close>

definition kPipeBufSize :: int where [const_simps, simp]: "kPipeBufSize = 65600"
definition kPipeMsgHeader :: int where [const_simps, simp]: "kPipeMsgHeader = 9"

record PipeReader =
  pr_buf :: bytes
  pr_len :: int

text \<open>A signed \<^verbatim>\<open>int\<close> of four bytes, most significant first.\<close>

definition read_int :: "bytes \<Rightarrow> int \<Rightarrow> int ub" where
  "read_int buf off = do {
     a \<leftarrow> rd8 off buf; b \<leftarrow> rd8 (off + 1) buf; c \<leftarrow> rd8 (off + 2) buf; d \<leftarrow> rd8 (off + 3) buf;
     Some (sint (of_be32 a b c d)) }"

text \<open>
  The message loop of \<^verbatim>\<open>CpRunLoop\<close>. A length field of \<open>-9\<close> would make it run for ever, and a
  smaller one move from before the buffer: both are \<^const>\<open>None\<close>.
\<close>

partial_function (option) pipe_messages ::
  "cp_env \<Rightarrow> pair_sort \<Rightarrow> PipeReader \<Rightarrow> ControlPlane \<Rightarrow> (PipeReader \<times> ControlPlane) option" where
  "pipe_messages env srt rdr cp =
     (if pr_len rdr < kPipeMsgHeader then Some (rdr, cp)
      else do {
        src_fd \<leftarrow> read_int (pr_buf rdr) 0;
        ftype \<leftarrow> rd8 4 (pr_buf rdr);
        plen \<leftarrow> read_int (pr_buf rdr) 5;
        let msg_len = kPipeMsgHeader + plen;
        if msg_len > 2147483647 then None
        else if pr_len rdr < msg_len then Some (rdr, cp)
        else do {
          cp \<leftarrow> CpProcessFrame env srt cp src_fd (FrameType_of ftype) (drop (nat kPipeMsgHeader) (pr_buf rdr)) plen;
          let remaining = pr_len rdr - msg_len;
          buf \<leftarrow> (if remaining > 0 then memcpy 0 (pr_buf rdr) msg_len remaining (pr_buf rdr) else Some (pr_buf rdr));
          pipe_messages env srt \<lparr>pr_buf = buf, pr_len = remaining\<rparr> cp } })"

text \<open>
  One readable event of a worker's pipe: \<open>chunk\<close> is what \<^verbatim>\<open>read\<close> returns, empty for end of file
  or an error; the kernel returns no more than was asked for.
\<close>

definition pipe_readable ::
  "cp_env \<Rightarrow> pair_sort \<Rightarrow> PipeReader \<Rightarrow> ControlPlane \<Rightarrow> bytes \<Rightarrow> (PipeReader \<times> ControlPlane) ub" where
  "pipe_readable env srt rdr cp chunk =
     (let avail = kPipeBufSize - pr_len rdr in
      if avail \<le> 0 then Some (rdr\<lparr>pr_len := 0\<rparr>, cp)
      else if chunk = [] then Some (rdr, cp)
      else do {
        buf \<leftarrow> wr (pr_len rdr) chunk (pr_buf rdr);
        pipe_messages env srt \<lparr>pr_buf = buf, pr_len = pr_len rdr + int (length chunk)\<rparr> cp })"

end
