(* ===== verification/Cp_Open_Conn.thy ===== *)
theory Cp_Open_Conn
  imports Cp_Open Cp_Registry Hd_Codec
begin

text \<open>
  Correctness of the connection handshake of theory \<open>Cp_Open\<close>: frame writes, the accounting of
  pending requests as a step relation, the deadline scan, and what both ends are told.
\<close>

section \<open>Writing a frame\<close>

lemma write_full_skip:
  "(\<And>i. a \<le> i \<Longrightarrow> i < b \<Longrightarrow> out i = Sk_again) \<Longrightarrow> a \<le> b \<Longrightarrow> write_full out a sent data = write_full out b sent data"
proof (induction "b - a" arbitrary: a)
  case 0
  then show ?case by simp
next
  case (Suc n)
  have "write_full out (Suc a) sent data = write_full out b sent data"
    using Suc by (intro Suc.hyps(1)) auto
  moreover have "out a = Sk_again" using Suc.hyps(2) Suc.prems(1) [of a] by simp
  moreover have "data = [] \<Longrightarrow> write_full out b sent data = Some (sent, 0)" by (subst write_full.simps) simp
  ultimately show ?case by (subst write_full.simps) auto
qed

lemma write_full_ends:
  assumes live: "\<And>a. \<exists>b \<ge> a. out b \<noteq> Sk_again"
  shows "\<exists>k rc. write_full out a sent data = Some (sent @ take k data, rc) \<and> (rc = 0 \<or> rc = -1) \<and>
    (rc = 0 \<longrightarrow> length data \<le> k)"
proof (induction "length data" arbitrary: a sent data rule: less_induct)
  case less
  show ?case
  proof (cases "data = []")
    case True
    then show ?thesis by (subst write_full.simps) simp
  next
    case False
    obtain b0 where "b0 \<ge> a" "out b0 \<noteq> Sk_again" using live by blast
    define b where "b = (LEAST b. a \<le> b \<and> out b \<noteq> Sk_again)"
    have b: "a \<le> b" "out b \<noteq> Sk_again" "\<And>i. a \<le> i \<Longrightarrow> i < b \<Longrightarrow> out i = Sk_again"
      using LeastI [of "\<lambda>b. a \<le> b \<and> out b \<noteq> Sk_again" b0] \<open>b0 \<ge> a\<close> \<open>out b0 \<noteq> Sk_again\<close>
        not_less_Least [of _ "\<lambda>b. a \<le> b \<and> out b \<noteq> Sk_again"] unfolding b_def by blast+
    have start: "write_full out a sent data = write_full out b sent data"
      by (rule write_full_skip) (use b in auto)
    show ?thesis
    proof (cases "\<exists>w. out b = Sk_count w \<and> w \<noteq> 0")
      case False
      then have "write_full out b sent data = Some (sent @ take 0 data, -1)"
        using b(2) \<open>data \<noteq> []\<close> by (subst write_full.simps) (auto split: sock_outcome.split)
      then show ?thesis unfolding start by (intro exI [of _ 0] exI [of _ "-1"]) simp
    next
      case True
      then obtain w where w: "out b = Sk_count w" "w \<noteq> 0" by blast
      then have "write_full out b sent data = write_full out (Suc b) (sent @ take w data) (drop w data)"
        using \<open>data \<noteq> []\<close> by (subst write_full.simps) simp
      moreover obtain k rc where "write_full out (Suc b) (sent @ take w data) (drop w data) =
          Some ((sent @ take w data) @ take k (drop w data), rc)" "rc = 0 \<or> rc = -1"
          "rc = 0 \<longrightarrow> length (drop w data) \<le> k"
        using less [of "drop w data" "Suc b" "sent @ take w data"] w \<open>data \<noteq> []\<close> by auto
      ultimately show ?thesis
        unfolding start by (intro exI [of _ "w + k"] exI [of _ rc]) (auto simp: take_add)
    qed
  qed
qed

lemma write_full_ok:
  "(\<And>a. \<exists>w > 0. out a = Sk_count w) \<Longrightarrow> write_full out a sent data = Some (sent @ data, 0)"
proof (induction "length data" arbitrary: a sent data rule: less_induct)
  case less
  obtain w where w: "w > 0" "out a = Sk_count w" using less.prems by blast
  show ?case
  proof (cases "data = []")
    case False
    then have "write_full out (Suc a) (sent @ take w data) (drop w data) = Some ((sent @ take w data) @ drop w data, 0)"
      using w less.prems by (intro less.hyps) auto
    with w False show ?thesis by (subst write_full.simps) simp
  qed (subst write_full.simps, simp)
qed

lemma write_full_stuck:
  assumes "\<And>i. a \<le> i \<Longrightarrow> out i = Sk_again" "data \<noteq> []"
  shows "write_full out a sent data = None"
proof (rule ccontr)
  assume "write_full out a sent data \<noteq> None"
  then obtain r where "write_full out a sent data = Some r" by blast
  then have "(\<forall>i \<ge> a. out i = Sk_again) \<longrightarrow> data = []"
  proof (rule write_full.raw_induct [where P = "\<lambda>out a sent data r. (\<forall>i \<ge> a. out i = Sk_again) \<longrightarrow> data = []", rotated])
    fix wf out a sent data and r :: "bytes \<times> int"
    assume IH: "\<And>out a sent data r. wf out a sent data = Some r \<Longrightarrow> (\<forall>i \<ge> a. out i = Sk_again) \<longrightarrow> data = []"
      and res: "(if data = [] then Some (sent, 0) else case out a of Sk_again \<Rightarrow> wf out (Suc a) sent data
        | Sk_error \<Rightarrow> Some (sent, -1) | Sk_count w \<Rightarrow> if w = 0 then Some (sent, -1)
          else wf out (Suc a) (sent @ take w data) (drop w data)) = Some r"
    show "(\<forall>i \<ge> a. out i = Sk_again) \<longrightarrow> data = []"
      using res IH [of out "Suc a" sent data r] by (cases "data = []"; cases "out a") (auto dest: Suc_leD)
  qed
  with assms show False by blast
qed

text \<open>
  What the handlers rely on: no socket refuses writes for ever (\<open>sock_progress\<close>); a healthy socket
  takes some bytes at every write.
\<close>

definition sock_progress :: "cp_env \<Rightarrow> bool" where
  "sock_progress env \<longleftrightarrow> (\<forall>c fd a. \<exists>b \<ge> a. env_write env c fd b \<noteq> Sk_again)"

definition healthy :: "cp_env \<Rightarrow> int \<Rightarrow> bool" where
  "healthy env fd \<longleftrightarrow> (\<forall>c a. \<exists>w > 0. env_write env c fd a = Sk_count w)"

lemma emit_all_more [simp]:
  "cp_open_conns (emit_all cs cp) = cp_open_conns cp" "cp_hd_peers (emit_all cs cp) = cp_hd_peers cp"
  "cp_open_conn_per_peer (emit_all cs cp) = cp_open_conn_per_peer cp"
  "cp_audit_ring (emit_all cs cp) = cp_audit_ring cp" "cp_relay_table (emit_all cs cp) = cp_relay_table cp"
  "cp_ice_agent (emit_all cs cp) = cp_ice_agent cp"
  by (simp_all add: emit_all_def)

lemma WriteFullFrame_ends:
  assumes "sock_progress env" "0 \<le> n" "n \<le> int (length buf)"
  shows "\<exists>sent rc. WriteFullFrame env cp fd buf n = Some (emit_all [Call_write fd sent] cp, rc) \<and>
    (rc = 0 \<or> rc = -1) \<and> (rc = 0 \<longrightarrow> sent = take (nat n) buf)"
proof -
  obtain k rc where "write_full (env_write env (length (cp_calls cp)) fd) 0 [] (take (nat n) buf) =
      Some ([] @ take k (take (nat n) buf), rc)" "rc = 0 \<or> rc = -1" "rc = 0 \<longrightarrow> length (take (nat n) buf) \<le> k"
    using write_full_ends [of "env_write env (length (cp_calls cp)) fd"] assms(1) unfolding sock_progress_def by meson
  then show ?thesis using assms by (auto simp: WriteFullFrame_def rd_defined)
qed

lemma WriteFullFrame_frame:
  assumes "sock_progress env"
  shows "\<exists>sent rc. WriteFullFrame env cp fd (wrote frame buf) (int (length frame)) =
    Some (emit_all [Call_write fd sent] cp, rc) \<and> (rc = 0 \<or> rc = -1) \<and> (rc = 0 \<longrightarrow> sent = frame)"
  using WriteFullFrame_ends [OF assms, of "int (length frame)" "wrote frame buf" cp fd] by (simp add: wrote_def)

lemma write_if_ends:
  assumes "sock_progress env"
  shows "\<exists>cs. (if c then map_option fst (WriteFullFrame env cp fd (wrote frame buf) (int (length frame))) else Some cp) =
    Some (emit_all cs cp)"
proof (cases c)
  case True
  then show ?thesis using WriteFullFrame_frame [OF assms, of cp fd frame buf] by auto
next
  case False
  then show ?thesis by (intro exI [of _ "[]"]) simp
qed

lemma WriteFullFrame_ok:
  assumes "healthy env fd" "n = int (length frame)"
  shows "WriteFullFrame env cp fd (wrote frame buf) n = Some (emit_all [Call_write fd frame] cp, 0)"
proof -
  have "write_full (env_write env (length (cp_calls cp)) fd) 0 [] frame = Some ([] @ frame, 0)"
    using assms(1) by (intro write_full_ok) (auto simp: healthy_def)
  then show ?thesis using assms(2) by (simp add: WriteFullFrame_def rd_def wrote_def)
qed

section \<open>Answering and releasing a request\<close>

definition result_frame :: "OpenConnEntry \<Rightarrow> HdConnMode \<Rightarrow> HdDenyReason \<Rightarrow> u8 \<Rightarrow> bytes" where
  "result_frame s mode reason sub =
     (if oce_is_gateway_inbound s
      then hd_frame HdFrame_kFleetOpenConnectionResult
             (open_result_payload (oce_correlation_id s) mode reason sub [] [])
      else hd_frame HdFrame_kOpenConnectionResult
             (open_result_payload (oce_correlation_id s) mode reason sub
               (if oce_target_relay_id s \<noteq> 0 then [oce_target_relay_id s] else []) []))"

definition mirrored :: "OpenConnEntry \<Rightarrow> HdConnMode \<Rightarrow> bool" where
  "mirrored s mode \<longleftrightarrow> mode \<noteq> Mode_kDenied \<and> oce_target_fd s \<ge> 0 \<and> oce_target_relay_id s = 0 \<and>
     \<not> oce_is_gateway_inbound s"

definition mirror_frame :: "OpenConnEntry \<Rightarrow> HdConnMode \<Rightarrow> HdDenyReason \<Rightarrow> u8 \<Rightarrow> bytes" where
  "mirror_frame s mode reason sub = hd_frame HdFrame_kIncomingConnResult (incoming_result_payload
     \<lparr>ics_correlation_id = oce_correlation_id s, ics_mode = mode, ics_deny_reason = reason, ics_sub_reason = sub\<rparr>)"

definition answer :: "OpenConnEntry \<Rightarrow> HdConnMode \<Rightarrow> HdDenyReason \<Rightarrow> u8 \<Rightarrow> cp_call list" where
  "answer s mode reason sub =
     (if oce_initiator_fd s \<ge> 0 then [Call_write (oce_initiator_fd s) (result_frame s mode reason sub)] else []) @
     (if mirrored s mode then [Call_write (oce_target_fd s) (mirror_frame s mode reason sub)] else [])"

lemma length_result_frame: "length (result_frame s mode reason sub) \<in> {20, 22}"
  by (simp add: result_frame_def)

lemma build_result:
  "(if oce_is_gateway_inbound s
    then HdBuildFleetOpenConnectionResult (replicate 256 0) 256 (oce_correlation_id s) mode reason sub [] 0 [] 0
    else HdBuildOpenConnectionResult (replicate 256 0) 256 (oce_correlation_id s) mode reason sub
      (if oce_target_relay_id s \<noteq> 0 \<and> \<not> oce_is_gateway_inbound s then [oce_target_relay_id s] else [])
      (int (length (if oce_target_relay_id s \<noteq> 0 \<and> \<not> oce_is_gateway_inbound s then [oce_target_relay_id s] else [])))
      [] 0) =
   Some (wrote (result_frame s mode reason sub) (replicate 256 0), int (length (result_frame s mode reason sub)))"
  using HdBuildFleetOpenConnectionResult_builds [of 256 "replicate 256 0" "[]" "[]" "oce_correlation_id s" mode reason sub]
    HdBuildOpenConnectionResult_builds [of 256 "replicate 256 0"
      "if oce_target_relay_id s \<noteq> 0 then [oce_target_relay_id s] else []" "[]" "oce_correlation_id s" mode reason sub]
  by (auto simp: builds_checked_def result_frame_def)

lemma build_mirror:
  "HdBuildIncomingConnResult (replicate 16 0) (oce_correlation_id s) mode reason sub =
     Some (wrote (mirror_frame s mode reason sub) (replicate 16 0), int (length (mirror_frame s mode reason sub)))"
  using HdBuildIncomingConnResult_builds [of "replicate 16 0"
      "\<lparr>ics_correlation_id = oce_correlation_id s, ics_mode = mode, ics_deny_reason = reason, ics_sub_reason = sub\<rparr>"]
  by (simp add: builds_def mirror_frame_def incoming_result_payload_def)

lemma length_mirror_frame: "length (mirror_frame s mode reason sub) = 16"
  by (simp add: mirror_frame_def incoming_result_payload_def)

lemma SendOpenResult_ends:
  assumes "sock_progress env"
  shows "\<exists>cs. SendOpenResultAndCleanup env cp i mode reason sub = Some (OpenConnSlotFree (emit_all cs cp) i)"
proof -
  let ?s = "cp_open_conns cp ! i"
  obtain cs1 where 1: "(if 0 \<le> oce_initiator_fd ?s
      then map_option fst (WriteFullFrame env cp (oce_initiator_fd ?s) (wrote (result_frame ?s mode reason sub) (replicate 256 0))
        (int (length (result_frame ?s mode reason sub)))) else Some cp) = Some (emit_all cs1 cp)"
    using write_if_ends [OF assms] by blast
  obtain cs2 where 2: "(if mirrored ?s mode then map_option fst (WriteFullFrame env (emit_all cs1 cp) (oce_target_fd ?s)
      (wrote (mirror_frame ?s mode reason sub) (replicate 16 0)) (int (length (mirror_frame ?s mode reason sub))))
      else Some (emit_all cs1 cp)) = Some (emit_all cs2 (emit_all cs1 cp))"
    using write_if_ends [OF assms] by blast
  have pos: "int (length (result_frame ?s mode reason sub)) > 0" using length_result_frame [of ?s mode reason sub] by auto
  show ?thesis
    using 1 2 pos unfolding SendOpenResultAndCleanup_def Let_def build_result
    by (auto simp: build_mirror mirrored_def intro!: exI [of _ "cs1 @ cs2"] split: if_splits)
qed

lemma SendOpenResult_ok:
  assumes "oce_initiator_fd (cp_open_conns cp ! i) \<ge> 0 \<Longrightarrow> healthy env (oce_initiator_fd (cp_open_conns cp ! i))"
    and "mirrored (cp_open_conns cp ! i) mode \<Longrightarrow> healthy env (oce_target_fd (cp_open_conns cp ! i))"
  shows "SendOpenResultAndCleanup env cp i mode reason sub =
    Some (OpenConnSlotFree (emit_all (answer (cp_open_conns cp ! i) mode reason sub) cp) i)"
proof -
  let ?s = "cp_open_conns cp ! i"
  have pos: "int (length (result_frame ?s mode reason sub)) > 0" using length_result_frame [of ?s mode reason sub] by auto
  show ?thesis
    using assms pos unfolding SendOpenResultAndCleanup_def Let_def build_result
    by (auto simp: build_mirror mirrored_def answer_def WriteFullFrame_ok)
qed

section \<open>The accounting of pending requests\<close>

text \<open>
  What the handlers do to the pending requests, as a step relation: record something, open a slot
  for a request of a client (counted), open one for a request that came through the mesh
  (not counted; \<open>G\<close> are the sockets such a request may come from), or close a slot.
\<close>

inductive oc_step :: "int set \<Rightarrow> ControlPlane \<Rightarrow> ControlPlane \<Rightarrow> bool" for G where
  oc_emit: "oc_step G cp (emit_all cs cp)"
| oc_note: "oc_step G cp (cp\<lparr>cp_audit_ring := a\<rparr>)"
| oc_direct: "cp_hd_peers cp = Some reg \<Longrightarrow> oc_step G cp (cp\<lparr>cp_hd_peers := Some (reg\<lparr>reg_direct_in_use := d\<rparr>)\<rparr>)"
| oc_open: "OpenConnSlotAlloc cp = Some i \<Longrightarrow> cp_hd_peers cp \<noteq> None \<Longrightarrow> oce_in_use e \<Longrightarrow>
    \<not> oce_is_gateway_inbound e \<Longrightarrow>
    (valid_fd (oce_initiator_fd e) \<Longrightarrow> cp_open_conn_per_peer cp (oce_initiator_fd e) < 16) \<Longrightarrow>
    oc_step G cp (count_open (oce_initiator_fd e) (cp\<lparr>cp_open_conns := (cp_open_conns cp)[i := e]\<rparr>))"
| oc_gateway: "OpenConnSlotAlloc cp = Some i \<Longrightarrow> cp_hd_peers cp \<noteq> None \<Longrightarrow> oce_in_use e \<Longrightarrow>
    oce_is_gateway_inbound e \<Longrightarrow> oce_initiator_fd e \<in> G \<Longrightarrow>
    oc_step G cp (cp\<lparr>cp_open_conns := (cp_open_conns cp)[i := e]\<rparr>)"
| oc_close: "i < length (cp_open_conns cp) \<Longrightarrow> oc_step G cp (OpenConnSlotFree cp i)"

definition own_request :: "int \<Rightarrow> OpenConnEntry \<Rightarrow> bool" where
  "own_request fd s \<longleftrightarrow> oce_in_use s \<and> \<not> oce_is_gateway_inbound s \<and> oce_initiator_fd s = fd"

definition pending :: "ControlPlane \<Rightarrow> int \<Rightarrow> nat" where
  "pending cp fd = length (filter (own_request fd) (cp_open_conns cp))"

definition oc_inv :: "ControlPlane \<Rightarrow> bool" where
  "oc_inv cp \<longleftrightarrow> length (cp_open_conns cp) = 256 \<and>
     (\<forall>s \<in> set (cp_open_conns cp). oce_in_use s \<and> cp_hd_peers cp \<noteq> None \<or> s = OpenConnEntry_init) \<and>
     (\<forall>fd. valid_fd fd \<longrightarrow> cp_open_conn_per_peer cp fd \<le> int (pending cp fd))"

text \<open>The counter of a socket is exact and within the cap, and no mesh request is open on it.\<close>

definition oc_exact :: "ControlPlane \<Rightarrow> int \<Rightarrow> bool" where
  "oc_exact cp fd \<longleftrightarrow> cp_open_conn_per_peer cp fd = int (pending cp fd) \<and> pending cp fd \<le> 16 \<and>
     (\<forall>s \<in> set (cp_open_conns cp). oce_in_use s \<and> oce_is_gateway_inbound s \<longrightarrow> oce_initiator_fd s \<noteq> fd)"

lemma init_not_in_use [simp]: "\<not> oce_in_use OpenConnEntry_init" "\<not> own_request fd OpenConnEntry_init"
  by (simp_all add: OpenConnEntry_init_def own_request_def)

lemma pending_update:
  assumes "i < length (cp_open_conns cp)"
  shows "int (pending (cp\<lparr>cp_open_conns := (cp_open_conns cp)[i := e]\<rparr>) fd) =
    int (pending cp fd) - (if own_request fd (cp_open_conns cp ! i) then 1 else 0) + (if own_request fd e then 1 else 0)"
  using length_filter_update [OF assms, of "own_request fd" e] by (auto simp: pending_def split: if_splits)

lemma pending_other [simp]:
  "pending (emit_all cs cp) = pending cp" "pending (cp\<lparr>cp_audit_ring := a\<rparr>) = pending cp"
  "pending (cp\<lparr>cp_hd_peers := r\<rparr>) = pending cp" "pending (count_open x cp) = pending cp"
  "pending (cp\<lparr>cp_open_conn_per_peer := c\<rparr>) = pending cp"
  "pending (cp\<lparr>cp_open_conn_per_peer := c, cp_open_conns := os\<rparr>) = pending (cp\<lparr>cp_open_conns := os\<rparr>)"
  by (simp_all add: pending_def fun_eq_iff count_open_def)

lemma count_open_simps [simp]:
  "cp_open_conns (count_open x cp) = cp_open_conns cp" "cp_hd_peers (count_open x cp) = cp_hd_peers cp"
  "cp_open_conn_per_peer (count_open x cp) fd =
     (if fd = x \<and> valid_fd x then cp_open_conn_per_peer cp fd + 1 else cp_open_conn_per_peer cp fd)"
  by (simp_all add: count_open_def valid_fd_def)

lemma free_simps [simp]:
  "cp_open_conns (OpenConnSlotFree cp i) = (cp_open_conns cp)[i := OpenConnEntry_init]"
  "cp_hd_peers (OpenConnSlotFree cp i) = cp_hd_peers cp" "cp_calls (OpenConnSlotFree cp i) = cp_calls cp"
  "cp_open_conn_per_peer (OpenConnSlotFree cp i) fd = (let s = cp_open_conns cp ! i in
     if oce_in_use s \<and> oce_initiator_fd s = fd \<and> valid_fd fd then cp_open_conn_per_peer cp fd - 1
     else cp_open_conn_per_peer cp fd)"
  by (auto simp: OpenConnSlotFree_def Let_def valid_fd_def)

lemma pending_free:
  "i < length (cp_open_conns cp) \<Longrightarrow> int (pending (OpenConnSlotFree cp i) fd) =
     int (pending cp fd) - (if own_request fd (cp_open_conns cp ! i) then 1 else 0)"
  using pending_update [of i cp OpenConnEntry_init fd] by (simp add: OpenConnSlotFree_def Let_def)

lemma alloc_SomeD:
  "OpenConnSlotAlloc cp = Some i \<Longrightarrow> i < length (cp_open_conns cp) \<and> \<not> oce_in_use (cp_open_conns cp ! i)"
  unfolding OpenConnSlotAlloc_def by (drule scan_SomeD) simp

lemma oc_step_inv: "oc_step G cp cp' \<Longrightarrow> oc_inv cp \<Longrightarrow> oc_inv cp'"
proof (induction rule: oc_step.induct)
  case (oc_open cp i e)
  have i: "i < length (cp_open_conns cp)" "\<not> own_request fd (cp_open_conns cp ! i)" for fd
    using alloc_SomeD [OF oc_open(1)] by (auto simp: own_request_def)
  have "int (pending (cp\<lparr>cp_open_conns := (cp_open_conns cp)[i := e]\<rparr>) fd) =
      int (pending cp fd) + (if own_request fd e then 1 else 0)" for fd
    using pending_update [OF i(1), of e fd] i(2) by simp
  moreover have "own_request fd e \<longleftrightarrow> oce_initiator_fd e = fd" for fd
    using oc_open by (simp add: own_request_def)
  ultimately show ?case
    using oc_open by (fastforce simp: oc_inv_def dest: subsetD [OF set_update_subset_insert])
next
  case (oc_gateway cp i e)
  have i: "i < length (cp_open_conns cp)" "\<not> own_request fd (cp_open_conns cp ! i)" "\<not> own_request fd e" for fd
    using alloc_SomeD [OF oc_gateway(1)] oc_gateway by (auto simp: own_request_def)
  have "pending (cp\<lparr>cp_open_conns := (cp_open_conns cp)[i := e]\<rparr>) fd = pending cp fd" for fd
    using pending_update [OF i(1), of e fd] i(2,3) by simp
  then show ?case
    using oc_gateway by (fastforce simp: oc_inv_def dest: subsetD [OF set_update_subset_insert])
next
  case (oc_close i cp)
  then show ?case
    by (fastforce simp: oc_inv_def pending_free own_request_def Let_def dest: subsetD [OF set_update_subset_insert])
qed (auto simp: oc_inv_def)

lemma oc_step_exact:
  "oc_step G cp cp' \<Longrightarrow> oc_exact cp fd \<Longrightarrow> valid_fd fd \<Longrightarrow> fd \<notin> G \<Longrightarrow> oc_exact cp' fd"
proof (induction rule: oc_step.induct)
  case (oc_open cp i e)
  have i: "i < length (cp_open_conns cp)" "\<not> own_request fd (cp_open_conns cp ! i)"
    using alloc_SomeD [OF oc_open(1)] by (auto simp: own_request_def)
  have "int (pending (cp\<lparr>cp_open_conns := (cp_open_conns cp)[i := e]\<rparr>) fd) =
      int (pending cp fd) + (if own_request fd e then 1 else 0)"
    using pending_update [OF i(1), of e fd] i(2) by simp
  moreover have "own_request fd e \<longleftrightarrow> oce_initiator_fd e = fd"
    using oc_open by (simp add: own_request_def)
  ultimately show ?case
    using oc_open by (fastforce simp: oc_exact_def dest: subsetD [OF set_update_subset_insert])
next
  case (oc_gateway cp i e)
  have i: "i < length (cp_open_conns cp)" "\<not> own_request fd (cp_open_conns cp ! i)" "\<not> own_request fd e"
    using alloc_SomeD [OF oc_gateway(1)] oc_gateway by (auto simp: own_request_def)
  have "pending (cp\<lparr>cp_open_conns := (cp_open_conns cp)[i := e]\<rparr>) fd = pending cp fd"
    using pending_update [OF i(1), of e fd] i(2,3) by simp
  then show ?case
    using oc_gateway by (fastforce simp: oc_exact_def dest: subsetD [OF set_update_subset_insert])
next
  case (oc_close i cp)
  have "oce_in_use (cp_open_conns cp ! i) \<and> oce_initiator_fd (cp_open_conns cp ! i) = fd \<longrightarrow>
      own_request fd (cp_open_conns cp ! i)"
    using oc_close by (auto simp: oc_exact_def own_request_def)
  with oc_close show ?case
    using pending_free [OF oc_close(1), of fd]
    by (auto simp: oc_exact_def own_request_def Let_def dest!: subsetD [OF set_update_subset_insert])
qed (auto simp: oc_exact_def)

lemma oc_step_cp_inv: "oc_step G cp cp' \<Longrightarrow> cp_inv cp' = cp_inv cp"
  by (induction rule: oc_step.induct) (auto simp: cp_inv_def count_open_def OpenConnSlotFree_def Let_def emit_all_def)

lemma oc_steps_keep:
  assumes "(oc_step G)\<^sup>*\<^sup>* cp cp'"
  shows "cp_inv cp' = cp_inv cp" "oc_inv cp \<Longrightarrow> oc_inv cp'"
    "oc_exact cp fd \<Longrightarrow> valid_fd fd \<Longrightarrow> fd \<notin> G \<Longrightarrow> oc_exact cp' fd"
proof -
  have "cp_inv cp' = cp_inv cp \<and> (oc_inv cp \<longrightarrow> oc_inv cp') \<and> (oc_exact cp fd \<and> valid_fd fd \<and> fd \<notin> G \<longrightarrow> oc_exact cp' fd)"
    using assms by (induction rule: rtranclp_induct) (auto simp: oc_step_cp_inv intro: oc_step_inv oc_step_exact)
  then show "cp_inv cp' = cp_inv cp" "oc_inv cp \<Longrightarrow> oc_inv cp'"
    "oc_exact cp fd \<Longrightarrow> valid_fd fd \<Longrightarrow> fd \<notin> G \<Longrightarrow> oc_exact cp' fd" by auto
qed

section \<open>Every handler returns and only takes such steps\<close>

definition oc_ends :: "int set \<Rightarrow> ControlPlane \<Rightarrow> ControlPlane ub \<Rightarrow> bool" where
  "oc_ends G cp r \<longleftrightarrow> (\<exists>cp'. r = Some cp' \<and> (oc_step G)\<^sup>*\<^sup>* cp cp')"

lemma oc_ends_same: "oc_ends G cp (Some cp)"
  by (simp add: oc_ends_def)

lemma oc_ends_emit: "\<exists>cs. r = Some (emit_all cs cp) \<Longrightarrow> oc_ends G cp r"
  by (auto simp: oc_ends_def intro: oc_step.oc_emit)

lemma oc_ends_step: "oc_step G cp cp1 \<Longrightarrow> oc_ends G cp1 r \<Longrightarrow> oc_ends G cp r"
  by (auto simp: oc_ends_def intro: converse_rtranclp_into_rtranclp)

lemma oc_ends_note: "oc_ends G cp r \<Longrightarrow> oc_ends G cp (map_option (\<lambda>cp. cp\<lparr>cp_audit_ring := f cp\<rparr>) r)"
  by (auto simp: oc_ends_def intro: rtranclp.rtrancl_into_rtrancl oc_step.oc_note)

lemma oc_ends_send:
  assumes "sock_progress env" "i < length (cp_open_conns cp)"
  shows "oc_ends G cp (SendOpenResultAndCleanup env cp i mode reason sub)"
proof -
  obtain cs where "SendOpenResultAndCleanup env cp i mode reason sub = Some (OpenConnSlotFree (emit_all cs cp) i)"
    using SendOpenResult_ends [OF assms(1)] by blast
  then show ?thesis
    using assms(2) by (auto intro!: oc_ends_step [OF oc_step.oc_emit [of G cp cs]]
        oc_ends_step [OF oc_step.oc_close [of i]] oc_ends_same)
qed

text \<open>Writing a frame to a peer, with the release of the slot when the write fails.\<close>

lemma oc_ends_forward:
  assumes env: "sock_progress env" and i: "i < length (cp_open_conns cp)"
  shows "oc_ends G cp (do {
    (cp, rc) \<leftarrow> WriteFullFrame env cp fd (wrote frame buf) (int (length frame));
    if rc < 0 then SendOpenResultAndCleanup env cp i mode reason sub else Some cp })"
proof -
  obtain sent rc where w: "WriteFullFrame env cp fd (wrote frame buf) (int (length frame)) =
      Some (emit_all [Call_write fd sent] cp, rc)"
    using WriteFullFrame_frame [OF env] by blast
  have "oc_ends G (emit_all [Call_write fd sent] cp)
      (SendOpenResultAndCleanup env (emit_all [Call_write fd sent] cp) i mode reason sub)"
    by (rule oc_ends_send [OF env]) (simp add: i)
  then show ?thesis
    using w oc_ends_step [OF oc_step.oc_emit [of G cp "[Call_write fd sent]"]] oc_ends_same by auto
qed

lemma denial_build:
  "HdBuildOpenConnectionResult (replicate 64 0) 64 c Mode_kDenied reason 0 [] 0 [] 0 =
     Some (wrote (hd_frame HdFrame_kOpenConnectionResult (open_result_payload c Mode_kDenied reason 0 [] []))
       (replicate 64 0), 20)"
  "HdBuildFleetOpenConnectionResult (replicate 64 0) 64 c Mode_kDenied reason 0 [] 0 [] 0 =
     Some (wrote (hd_frame HdFrame_kFleetOpenConnectionResult (open_result_payload c Mode_kDenied reason 0 [] []))
       (replicate 64 0), 20)"
  using HdBuildOpenConnectionResult_builds [of 64 "replicate 64 0" "[]" "[]" c Mode_kDenied reason 0]
    HdBuildFleetOpenConnectionResult_builds [of 64 "replicate 64 0" "[]" "[]" c Mode_kDenied reason 0]
  by (simp_all add: builds_checked_def)

lemma reply_denied_ends:
  assumes env: "sock_progress env"
  shows "oc_ends G cp (reply_denied env cp fd c reason)" "oc_ends G cp (deny_back env cp fd c reason)"
  using write_if_ends [OF env, of True cp fd "hd_frame HdFrame_kOpenConnectionResult (open_result_payload c Mode_kDenied reason 0 [] [])" "replicate 64 0"]
    write_if_ends [OF env, of True cp fd "hd_frame HdFrame_kFleetOpenConnectionResult (open_result_payload c Mode_kDenied reason 0 [] [])" "replicate 64 0"]
  by (auto simp: reply_denied_def deny_back_def denial_build intro!: oc_ends_emit)

lemma open_unreachable_ends:
  "sock_progress env \<Longrightarrow> oc_ends G cp (open_unreachable env cp fd req k cv)"
  using oc_ends_note [OF reply_denied_ends(1) [of env G cp fd "oc_correlation_id req" Deny_kPeerUnreachable], where
      f = "\<lambda>cp. HdAuditRecordDecision (env_wall env) (cp_audit_ring cp) k zero_Key cv
        (HdDecision_init\<lparr>d_mode := Mode_kDenied, d_deny_reason := Deny_kPeerUnreachable\<rparr>)"]
  by (simp add: open_unreachable_def Let_def map_conv_bind_option comp_def)

lemma incoming_build:
  assumes "is_Key k"
  shows "HdBuildIncomingConnection (replicate 48 0) k p intent flags c =
    Some (wrote (hd_frame HdFrame_kIncomingConnection (incoming_conn_payload \<lparr>ic_initiator_key = k, ic_initiator_peer_id = p,
      ic_intent = intent, ic_flags = flags, ic_correlation_id = c\<rparr>)) (replicate 48 0), 48)"
  using HdBuildIncomingConnection_builds [of "\<lparr>ic_initiator_key = k, ic_initiator_peer_id = p,
      ic_intent = intent, ic_flags = flags, ic_correlation_id = c\<rparr>" "replicate 48 0"] assms
  by (simp add: builds_def incoming_conn_payload_def is_Key_def)

lemma oc_ends_incoming:
  assumes env: "sock_progress env" and k: "is_Key k" and i: "i < length (cp_open_conns cp)"
  shows "oc_ends G cp (do {
    (buf, n) \<leftarrow> HdBuildIncomingConnection (replicate 48 0) k p intent flags c;
    (cp, rc) \<leftarrow> WriteFullFrame env cp fd buf n;
    if rc < 0 then SendOpenResultAndCleanup env cp i mode reason sub else Some cp })"
proof -
  let ?f = "hd_frame HdFrame_kIncomingConnection (incoming_conn_payload \<lparr>ic_initiator_key = k, ic_initiator_peer_id = p,
      ic_intent = intent, ic_flags = flags, ic_correlation_id = c\<rparr>)"
  have len: "int (length ?f) = 48" using k by (simp add: incoming_conn_payload_def is_Key_def)
  show ?thesis
    using oc_ends_forward [OF env i, of G fd ?f "replicate 48 0" mode reason sub]
    unfolding incoming_build [OF k] len by simp
qed

lemma open_local_ends:
  assumes env: "sock_progress env" and k: "is_Key k" and cap: "valid_fd fd \<Longrightarrow> cp_open_conn_per_peer cp fd < 16"
    and reg: "cp_hd_peers cp \<noteq> None" and inv: "oc_inv cp" and req: "oc_target_relay_id req = 0"
  shows "oc_ends G cp (open_local env cp reg fd req initiator k cv)"
proof -
  have unreach: "oc_ends G cp (open_unreachable env cp fd req k cv)"
    "oc_ends G cp (reply_denied env cp fd (oc_correlation_id req) Deny_kTooManyOpenConns)"
    by (rule open_unreachable_ends [OF env], rule reply_denied_ends [OF env])
  show ?thesis
  proof (cases "\<exists>t slot. HdPeersLookupById reg (oc_target_peer_id req) = Some t \<and> \<not> hp_fd (reg_peers reg ! t) < 0 \<and>
      OpenConnSlotAlloc cp = Some slot")
    case False
    then show ?thesis using unreach by (auto simp: open_local_def Let_def split: option.splits)
  next
    case True
    then obtain t slot where t: "HdPeersLookupById reg (oc_target_peer_id req) = Some t" "\<not> hp_fd (reg_peers reg ! t) < 0"
      and slot: "OpenConnSlotAlloc cp = Some slot" by blast
    let ?e = "(cp_open_conns cp ! slot)\<lparr>oce_in_use := True, oce_correlation_id := oc_correlation_id req,
      oce_initiator_fd := fd, oce_target_fd := hp_fd (reg_peers reg ! t), oce_initiator_key := k,
      oce_target_key := hp_key (reg_peers reg ! t), oce_initiator_view := cv, oce_target_relay_id := oc_target_relay_id req,
      oce_deadline_ns := env_now env + kCpOpenConnTimeoutNs\<rparr>"
    let ?cp = "count_open fd (cp\<lparr>cp_open_conns := (cp_open_conns cp)[slot := ?e]\<rparr>)"
    have i: "slot < length (cp_open_conns cp)" "cp_open_conns cp ! slot = OpenConnEntry_init"
      using alloc_SomeD [OF slot] inv nth_mem unfolding oc_inv_def by blast+
    have step: "oc_step G cp ?cp"
      using oc_step.oc_open [OF slot reg, of ?e G] cap i by (simp add: OpenConnEntry_init_def)
    have eq: "open_local env cp reg fd req initiator k cv = do {
        (buf, n) \<leftarrow> HdBuildIncomingConnection (replicate 48 0) k
          (if initiator \<noteq> None then hp_peer_id (reg_peers reg ! t) else 0) (cv_intent cv) (oc_flags req) (oc_correlation_id req);
        (cp, rc) \<leftarrow> WriteFullFrame env ?cp (hp_fd (reg_peers reg ! t)) buf n;
        if rc < 0 then SendOpenResultAndCleanup env cp slot Mode_kDenied Deny_kPeerUnreachable 0 else Some cp }"
      using t slot unfolding open_local_def Let_def by simp
    show ?thesis
      unfolding eq by (rule oc_ends_step [OF step], rule oc_ends_incoming [OF env k]) (simp add: i(1))
  qed
qed

text \<open>The request as it is rebuilt for the gateway.\<close>

definition view_flags :: "HdClientView \<Rightarrow> u8" where
  "view_flags cv = (if cv_allow_upgrade cv then kHdFlagAllowUpgrade else 0) OR
     (if cv_allow_downgrade cv then kHdFlagAllowDowngrade else 0)"

definition gateway_request :: "HdOpenConnection \<Rightarrow> HdClientView \<Rightarrow> HdOpenConnection" where
  "gateway_request req cv = \<lparr>oc_target_peer_id = oc_target_peer_id req, oc_target_relay_id = 0,
     oc_intent = cv_intent cv, oc_flags = view_flags cv, oc_correlation_id = oc_correlation_id req\<rparr>"

lemma hd_frame_not_Nil [simp]: "hd_frame ty p \<noteq> []"
  by (simp add: hd_frame_def)

lemma length_open_conn_payload [simp]: "length (open_conn_payload r) = 14"
  by (simp add: open_conn_payload_def)

lemma gateway_build:
  "HdBuildOpenConnection (replicate 18 0) (oc_target_peer_id req) 0 (cv_intent cv) (view_flags cv) (oc_correlation_id req) =
     Some (hd_frame HdFrame_kOpenConnection (open_conn_payload (gateway_request req cv)), 18)"
  using HdBuildOpenConnection_builds [of "replicate 18 0" "gateway_request req cv"]
  by (simp add: builds_def gateway_request_def wrote_def)

lemma fleet_build:
  "HdBuildFleetOpenConnection (replicate 256 0) 256 rid fid (int (length fid)) zero_Key
     (drop 4 (hd_frame HdFrame_kOpenConnection (open_conn_payload r))) 14 =
   (if length fid \<le> 64
    then (let f = hd_frame HdFrame_kFleetOpenConnection (fleet_open_payload rid fid zero_Key (open_conn_payload r)) in
      Some (wrote f (replicate 256 0), int (length f)))
    else Some (replicate 256 0, -1))"
proof -
  have "length (fleet_open_payload rid fid zero_Key (open_conn_payload r)) = 50 + length fid"
    using is_Key_zero by (simp add: fleet_open_payload_def is_Key_def)
  moreover have "drop 4 (hd_frame HdFrame_kOpenConnection (open_conn_payload r)) = open_conn_payload r"
    by (simp add: hd_frame_def be24_def)
  ultimately show ?thesis
    using HdBuildFleetOpenConnection_builds [of 256 "replicate 256 0" zero_Key "open_conn_payload r" fid rid] is_Key_zero
    by (auto simp: builds_checked_def Let_def)
qed

definition gateway_of :: "RelayTable \<Rightarrow> u16 \<Rightarrow> int" where
  "gateway_of rt relay = (case RelayTableLookup rt relay of None \<Rightarrow> -1 | Some i \<Rightarrow> re_fd (rt_entries rt ! i))"

definition cross_entry :: "cp_env \<Rightarrow> int \<Rightarrow> int \<Rightarrow> HdOpenConnection \<Rightarrow> Key \<Rightarrow> HdClientView \<Rightarrow> OpenConnEntry" where
  "cross_entry env fd gw req k cv = OpenConnEntry_init\<lparr>oce_in_use := True, oce_correlation_id := oc_correlation_id req,
     oce_initiator_fd := fd, oce_target_fd := gw, oce_initiator_key := k, oce_initiator_view := cv,
     oce_target_relay_id := oc_target_relay_id req, oce_is_gateway_inbound := False,
     oce_deadline_ns := env_now env + kCpOpenConnTimeoutNs\<rparr>"

lemma open_cross_relay_slot:
  assumes rt: "cp_relay_table cp = Some rt" and gw: "\<not> gateway_of rt (oc_target_relay_id req) < 0"
    and slot: "OpenConnSlotAlloc cp = Some slot" and inv: "oc_inv cp"
  shows "open_cross_relay env cp reg fd req k cv =
    (let gw = gateway_of rt (oc_target_relay_id req);
         fid = bytes_of_string (fed_local_fleet_id (reg_federation_policy reg));
         cp = count_open fd (cp\<lparr>cp_open_conns := (cp_open_conns cp)[slot := cross_entry env fd gw req k cv]\<rparr>) in
     if length fid \<le> 64 then
       (let f = hd_frame HdFrame_kFleetOpenConnection
          (fleet_open_payload (rt_self_id rt) fid zero_Key (open_conn_payload (gateway_request req cv))) in do {
       (cp, rc) \<leftarrow> WriteFullFrame env cp gw (wrote f (replicate 256 0)) (int (length f));
       if rc < 0 then SendOpenResultAndCleanup env cp slot Mode_kDenied Deny_kPeerUnreachable 0 else Some cp })
     else SendOpenResultAndCleanup env cp slot Mode_kDenied Deny_kPeerUnreachable 0)"
proof -
  have "cp_open_conns cp ! slot = OpenConnEntry_init"
    using alloc_SomeD [OF slot] inv nth_mem unfolding oc_inv_def by blast
  with rt gw slot show ?thesis
    by (simp add: open_cross_relay_def Let_def gateway_of_def [symmetric] view_flags_def [symmetric] gateway_build fleet_build
        cross_entry_def del: length_hd_frame)
qed

lemma open_cross_relay_ends:
  assumes env: "sock_progress env" and cap: "valid_fd fd \<Longrightarrow> cp_open_conn_per_peer cp fd < 16"
    and reg: "cp_hd_peers cp \<noteq> None" and inv: "oc_inv cp"
  shows "oc_ends G cp (open_cross_relay env cp r fd req k cv)"
proof (cases "\<exists>rt slot. cp_relay_table cp = Some rt \<and> \<not> gateway_of rt (oc_target_relay_id req) < 0 \<and>
    OpenConnSlotAlloc cp = Some slot")
  case False
  then show ?thesis
    using reply_denied_ends(1) [OF env, of G cp fd "oc_correlation_id req"]
    by (auto simp: open_cross_relay_def Let_def gateway_of_def [symmetric] split: option.splits)
next
  case True
  then obtain rt slot where rt: "cp_relay_table cp = Some rt" "\<not> gateway_of rt (oc_target_relay_id req) < 0"
    and slot: "OpenConnSlotAlloc cp = Some slot" by blast
  let ?e = "cross_entry env fd (gateway_of rt (oc_target_relay_id req)) req k cv"
  have step: "oc_step G cp (count_open fd (cp\<lparr>cp_open_conns := (cp_open_conns cp)[slot := ?e]\<rparr>))"
    using oc_step.oc_open [OF slot reg, of ?e G] cap by (simp add: cross_entry_def)
  have i: "slot < length (cp_open_conns (count_open fd (cp\<lparr>cp_open_conns := (cp_open_conns cp)[slot := ?e]\<rparr>)))"
    using alloc_SomeD [OF slot] by simp
  show ?thesis
    unfolding open_cross_relay_slot [OF rt slot inv] Let_def
    by (rule oc_ends_step [OF step]) (simp only: oc_ends_forward [OF env i] oc_ends_send [OF env i] if_split simp_thms)
qed

lemma parse_open_defined:
  "n \<le> int (length p) \<Longrightarrow> \<exists>ok r. HdParseOpenConnection p n out = Some (ok, r)"
  using ReadU16_defined [of 0 p] ReadU16_defined [of 2 p] ReadU64_defined [of 6 p]
  by (auto simp: HdParseOpenConnection_def rd8_def ex_true)

lemma parse_resp_defined:
  "n \<le> int (length p) \<Longrightarrow> \<exists>ok r. HdParseIncomingConnResponse p n out = Some (ok, r)"
  using ReadU64_defined [of 0 p] by (auto simp: HdParseIncomingConnResponse_def rd8_def ex_true)

lemma fd_key_is_Key:
  assumes "cp_inv cp"
  shows "is_Key (case if valid_fd fd then cp_fd_map cp fd else None of None \<Rightarrow> zero_Key | Some i \<Rightarrow> cpp_key (cp_peers cp ! i))"
  using assms is_Key_zero by (fastforce simp: cp_inv_def cp_reach_def split: option.splits if_splits)

lemma CpHandleOpenConnection_ends:
  assumes env: "sock_progress env" and inv: "cp_inv cp" "oc_inv cp" and n: "n \<le> int (length payload)"
  shows "oc_ends G cp (CpHandleOpenConnection env cp fd payload n)"
proof -
  obtain ok req where p: "HdParseOpenConnection payload n open_conn_blank = Some (ok, req)"
    using parse_open_defined [OF n] by blast
  show ?thesis
  proof (cases "ok \<and> (\<exists>reg. cp_hd_peers cp = Some reg) \<and> \<not> (fd \<ge> 0 \<and> fd < kMaxFd \<and>
      cp_open_conn_per_peer cp fd \<ge> kCpMaxOpenConnsPerPeer)")
    case False
    then show ?thesis
      using p reply_denied_ends(1) [OF env, of G cp fd] oc_ends_same [of G cp]
      by (auto simp: CpHandleOpenConnection_def split: option.splits)
  next
    case True
    then obtain reg where reg: "cp_hd_peers cp = Some reg" by blast
    have cap: "valid_fd fd \<Longrightarrow> cp_open_conn_per_peer cp fd < 16" using True by (auto simp: valid_fd_def)
    show ?thesis
      using True p reg open_cross_relay_ends [OF env cap _ inv(2)]
        open_local_ends [OF env fd_key_is_Key [OF inv(1), of fd] cap _ inv(2)]
      by (auto simp: CpHandleOpenConnection_def Let_def)
  qed
qed

lemma scan_slot: "scan P (cp_open_conns cp) = Some i \<Longrightarrow> i < length (cp_open_conns cp) \<and> P (cp_open_conns cp ! i)"
  by (rule scan_SomeD)

lemma CpHandleIncomingConnResponse_ends:
  assumes env: "sock_progress env" and inv: "oc_inv cp" and n: "n \<le> int (length payload)"
  shows "oc_ends G cp (CpHandleIncomingConnResponse env cp fd payload n)"
proof -
  obtain ok resp where p: "HdParseIncomingConnResponse payload n incoming_resp_blank = Some (ok, resp)"
    using parse_resp_defined [OF n] by blast
  let ?P = "\<lambda>s. oce_in_use s \<and> oce_correlation_id s = icr_correlation_id resp \<and> oce_target_fd s = fd"
  show ?thesis
  proof (cases "if ok then scan ?P (cp_open_conns cp) else None")
    case None
    then show ?thesis
      using p oc_ends_same [of G cp] by (auto simp: CpHandleIncomingConnResponse_def split: if_splits)
  next
    case (Some slot)
    then have ok: ok and slot: "scan ?P (cp_open_conns cp) = Some slot" by (auto split: if_splits)
    have i: "slot < length (cp_open_conns cp)" "oce_in_use (cp_open_conns cp ! slot)" using scan_slot [OF slot] by auto
    then have "cp_open_conns cp ! slot \<in> set (cp_open_conns cp)" by simp
    with inv i obtain reg where reg: "cp_hd_peers cp = Some reg" unfolding oc_inv_def by fastforce
    have same: "cp\<lparr>cp_hd_peers := Some reg\<rparr> = cp" using reg by simp
    have rec: "oc_ends G cp (SendOpenResultAndCleanup env (cp\<lparr>cp_hd_peers := Some (reg\<lparr>reg_direct_in_use := d\<rparr>), cp_audit_ring := a\<rparr>)
        slot mode reason sub)" for d a mode reason sub
      by (rule oc_ends_step [OF oc_step.oc_direct [OF reg, of G d]], rule oc_ends_step [OF oc_step.oc_note [of G _ a]],
          rule oc_ends_send [OF env]) (simp add: i)
    have rec': "oc_ends G cp (SendOpenResultAndCleanup env (cp\<lparr>cp_hd_peers := Some reg, cp_audit_ring := a\<rparr>)
        slot mode reason sub)" for a mode reason sub
      unfolding same by (rule oc_ends_step [OF oc_step.oc_note [of G _ a]], rule oc_ends_send [OF env]) (simp add: i)
    show ?thesis
      using p ok slot reg rec rec' oc_ends_send [OF env i(1), of G]
      by (simp add: CpHandleIncomingConnResponse_def Let_def)
  qed
qed

lemma CpHandleFleetOpenConnectionResult_ends:
  assumes env: "sock_progress env" and n: "n \<le> int (length payload)"
  shows "oc_ends G cp (CpHandleFleetOpenConnectionResult env cp fd payload n)"
proof -
  obtain ok r where p: "HdParseOpenConnectionResult payload n open_result_blank = Some (ok, r)"
    using HdParseOpenConnectionResult_defined [OF n, of open_result_blank] by (auto simp: open_result_blank_def)
  show ?thesis
    using p oc_ends_same [of G cp]
    by (auto simp: CpHandleFleetOpenConnectionResult_def dest!: scan_slot intro!: oc_ends_send [OF env] split: option.split)
qed

lemma CpHandleFleetOpenConnection_ends:
  assumes env: "sock_progress env" and n: "n \<le> int (length payload)" and fd: "fd \<in> G"
  shows "oc_ends G cp (CpHandleFleetOpenConnection env cp fd payload n)"
proof -
  obtain ok foc where p: "HdParseFleetOpenConnection payload n fleet_open_blank = Some (ok, foc)"
    using HdParseFleetOpenConnection_defined [OF n, of fleet_open_blank] is_Key_zero by (auto simp: fleet_open_blank_def)
  have fl: "ok \<Longrightarrow> length (foc_inner_conn foc) = 14"
    using p by (auto simp: HdParseFleetOpenConnection_def fleet_open_blank_def Let_def memcpy_def wr_Some_length
        split: if_splits bind_splits)
  show ?thesis
  proof (cases "ok \<and> cp_hd_peers cp \<noteq> None")
    case False
    then show ?thesis using p oc_ends_same [of G cp] by (auto simp: CpHandleFleetOpenConnection_def split: option.split)
  next
    case True
    then obtain reg where reg: "cp_hd_peers cp = Some reg" and ok: ok by auto
    obtain ok2 inner where q: "HdParseOpenConnection (foc_inner_conn foc) 14 open_conn_blank = Some (ok2, inner)"
      using parse_open_defined [of 14 "foc_inner_conn foc" open_conn_blank] fl ok by auto
    have fwd: "oc_ends G cp (open_gateway env cp fd inner rid cv tfd tk p slot)"
      if slot: "OpenConnSlotAlloc cp = Some slot" for slot rid cv tfd tk p
    proof -
      let ?e = "(cp_open_conns cp ! slot)\<lparr>oce_in_use := True,
            oce_correlation_id := oc_correlation_id inner, oce_initiator_fd := fd,
            oce_target_fd := tfd, oce_target_key := tk, oce_initiator_view := cv, oce_target_relay_id := 0,
            oce_is_gateway_inbound := True, oce_origin_relay_id := rid,
            oce_deadline_ns := env_now env + kCpOpenConnTimeoutNs\<rparr>"
      have step: "oc_step G cp (cp\<lparr>cp_open_conns := (cp_open_conns cp)[slot := ?e]\<rparr>)"
        by (rule oc_step.oc_gateway [OF slot]) (use fd reg in simp_all)
      have "slot < length (cp_open_conns (cp\<lparr>cp_open_conns := (cp_open_conns cp)[slot := ?e]\<rparr>))"
        using alloc_SomeD [OF slot] by simp
      from oc_ends_step [OF step oc_ends_incoming [OF env is_Key_zero this]] show ?thesis
        by (simp add: open_gateway_def Let_def)
    qed
    have deny: "oc_ends G cp (deny_back env cp fd c reason)" for c reason by (rule reply_denied_ends [OF env])
    show ?thesis
    proof (cases "HdPeersLookupById reg (oc_target_peer_id inner)"; cases "OpenConnSlotAlloc cp")
      fix t slot
      assume "HdPeersLookupById reg (oc_target_peer_id inner) = Some t" and slot: "OpenConnSlotAlloc cp = Some slot"
      with p q reg ok show ?thesis
        by (simp add: CpHandleFleetOpenConnection_def Let_def deny oc_ends_same fwd [OF slot])
    qed (use p q reg ok in \<open>simp_all add: CpHandleFleetOpenConnection_def Let_def deny oc_ends_same\<close>)
  qed
qed

lemma scan_timeouts_ends:
  assumes env: "sock_progress env"
  shows "length (cp_open_conns cp) = 256 \<Longrightarrow> \<forall>i \<in> set is. i < 256 \<Longrightarrow> oc_ends G cp (scan_timeouts_loop env is cp)"
proof (induction "is" arbitrary: cp)
  case Nil
  then show ?case by (simp add: oc_ends_same)
next
  case (Cons i "is")
  show ?case
  proof (cases "oce_in_use (cp_open_conns cp ! i) \<and> \<not> env_now env < oce_deadline_ns (cp_open_conns cp ! i)")
    case False
    then show ?thesis using Cons by (auto simp: Let_def)
  next
    case True
    obtain cs where s: "SendOpenResultAndCleanup env cp i Mode_kDenied Deny_kTargetUnresponsive 0 =
        Some (OpenConnSlotFree (emit_all cs cp) i)"
      using SendOpenResult_ends [OF env] by blast
    have "oc_ends G (OpenConnSlotFree (emit_all cs cp) i) (scan_timeouts_loop env is (OpenConnSlotFree (emit_all cs cp) i))"
      using Cons.prems by (intro Cons.IH) simp_all
    then have "oc_ends G cp (scan_timeouts_loop env is (OpenConnSlotFree (emit_all cs cp) i))"
      using Cons.prems
      by (intro oc_ends_step [OF oc_step.oc_emit [of G cp cs] oc_ends_step [OF oc_step.oc_close [of i "emit_all cs cp"]]]) simp_all
    then show ?thesis using True s by (simp add: Let_def)
  qed
qed

section \<open>The deadline scan\<close>

definition expired :: "cp_env \<Rightarrow> OpenConnEntry \<Rightarrow> bool" where
  "expired env s \<longleftrightarrow> oce_in_use s \<and> \<not> env_now env < oce_deadline_ns s"

definition timeout_answer :: "cp_env \<Rightarrow> OpenConnEntry \<Rightarrow> cp_call list" where
  "timeout_answer env s = (if expired env s then answer s Mode_kDenied Deny_kTargetUnresponsive 0 else [])"

lemma scan_timeouts_ok:
  assumes "\<forall>j \<in> set is. oce_initiator_fd (cp_open_conns cp ! j) \<ge> 0 \<longrightarrow> healthy env (oce_initiator_fd (cp_open_conns cp ! j))"
    and "distinct is" "\<forall>j \<in> set is. j < length (cp_open_conns cp)"
  shows "\<exists>cp'. scan_timeouts_loop env is cp = Some cp' \<and> length (cp_open_conns cp') = length (cp_open_conns cp) \<and>
    (\<forall>j < length (cp_open_conns cp). cp_open_conns cp' ! j =
      (if j \<in> set is \<and> expired env (cp_open_conns cp ! j) then OpenConnEntry_init else cp_open_conns cp ! j)) \<and>
    cp_calls cp' = cp_calls cp @ concat (map (\<lambda>j. timeout_answer env (cp_open_conns cp ! j)) is)"
  using assms
proof (induction "is" arbitrary: cp)
  case Nil
  then show ?case by simp
next
  case (Cons i "is")
  show ?case
  proof (cases "expired env (cp_open_conns cp ! i)")
    case False
    have "\<exists>cp'. scan_timeouts_loop env is cp = Some cp' \<and> length (cp_open_conns cp') = length (cp_open_conns cp) \<and>
      (\<forall>j < length (cp_open_conns cp). cp_open_conns cp' ! j =
        (if j \<in> set is \<and> expired env (cp_open_conns cp ! j) then OpenConnEntry_init else cp_open_conns cp ! j)) \<and>
      cp_calls cp' = cp_calls cp @ concat (map (\<lambda>j. timeout_answer env (cp_open_conns cp ! j)) is)"
      using Cons.prems by (intro Cons.IH) auto
    moreover have "scan_timeouts_loop env (i # is) cp = scan_timeouts_loop env is cp"
      using False by (auto simp: Let_def expired_def)
    ultimately show ?thesis using False by (auto simp: timeout_answer_def)
  next
    case True
    let ?s = "cp_open_conns cp ! i"
    let ?cp = "OpenConnSlotFree (emit_all (answer ?s Mode_kDenied Deny_kTargetUnresponsive 0) cp) i"
    have "SendOpenResultAndCleanup env cp i Mode_kDenied Deny_kTargetUnresponsive 0 = Some ?cp"
      by (rule SendOpenResult_ok) (use Cons.prems(1) in \<open>auto simp: mirrored_def\<close>)
    then have eq: "scan_timeouts_loop env (i # is) cp = scan_timeouts_loop env is ?cp"
      using True by (simp add: Let_def expired_def)
    have other: "cp_open_conns ?cp ! j = cp_open_conns cp ! j" if "j \<in> set is" for j
      using Cons.prems(2) that by (cases "j = i") auto
    obtain cp' where cp': "scan_timeouts_loop env is ?cp = Some cp'" "length (cp_open_conns cp') = length (cp_open_conns ?cp)"
      "\<forall>j < length (cp_open_conns ?cp). cp_open_conns cp' ! j =
        (if j \<in> set is \<and> expired env (cp_open_conns ?cp ! j) then OpenConnEntry_init else cp_open_conns ?cp ! j)"
      "cp_calls cp' = cp_calls ?cp @ concat (map (\<lambda>j. timeout_answer env (cp_open_conns ?cp ! j)) is)"
      using Cons.IH [of ?cp] Cons.prems other by auto
    have calls: "map (\<lambda>j. timeout_answer env (cp_open_conns ?cp ! j)) is = map (\<lambda>j. timeout_answer env (cp_open_conns cp ! j)) is"
      using other by (intro map_cong) simp_all
    show ?thesis
      unfolding eq using cp'(1,2,3) cp'(4)[unfolded calls] True Cons.prems(2,3) 
      by (intro exI [of _ cp']) (auto simp: timeout_answer_def nth_list_update)
  qed
qed

text \<open>
  C13: Deadlines. A scan answers every request whose deadline has passed, once, with the reason
  TargetUnresponsive and in slot order, releases its slot, and leaves every other pending request
  alone; afterwards no request is past its deadline.
\<close>

theorem open_conn_timeouts:
  assumes inv: "oc_inv cp"
    and sock: "\<forall>s \<in> set (cp_open_conns cp). oce_initiator_fd s \<ge> 0 \<longrightarrow> healthy env (oce_initiator_fd s)"
  shows "\<exists>cp'. ScanOpenConnTimeouts env cp = Some cp' \<and>
    cp_open_conns cp' = map (\<lambda>s. if expired env s then OpenConnEntry_init else s) (cp_open_conns cp) \<and>
    cp_calls cp' = cp_calls cp @ concat (map (timeout_answer env) (cp_open_conns cp)) \<and>
    (\<forall>s \<in> set (cp_open_conns cp'). \<not> expired env s)"
proof -
  have len: "length (cp_open_conns cp) = 256" using inv by (simp add: oc_inv_def)
  obtain cp' where cp': "scan_timeouts_loop env [0..<256] cp = Some cp'" "length (cp_open_conns cp') = 256"
    "\<forall>j < 256. cp_open_conns cp' ! j = (if expired env (cp_open_conns cp ! j) then OpenConnEntry_init else cp_open_conns cp ! j)"
    "cp_calls cp' = cp_calls cp @ concat (map (\<lambda>j. timeout_answer env (cp_open_conns cp ! j)) [0..<256])"
    using scan_timeouts_ok [of "[0..<256]" cp env] sock len by (auto simp del: upt_rec_numeral)
  have m: "map (\<lambda>j. timeout_answer env (cp_open_conns cp ! j)) [0..<256] = map (timeout_answer env) (cp_open_conns cp)"
    using len by (intro nth_equalityI) (simp_all del: upt_rec_numeral)
  have conns: "cp_open_conns cp' = map (\<lambda>s. if expired env s then OpenConnEntry_init else s) (cp_open_conns cp)"
    using cp'(2,3) len by (intro nth_equalityI) simp_all
  have "\<forall>s \<in> set (cp_open_conns cp'). \<not> expired env s"
    unfolding conns by (auto simp: expired_def)
  with conns cp'(1) cp'(4) [unfolded m] show ?thesis
    unfolding ScanOpenConnTimeouts_def kCpMaxOpenConns_def by blast
qed

section \<open>Who counts\<close>


section \<open>The handshake from end to end\<close>

text \<open>The client view the relay works with: the request's, unless the initiator's policy overrides it.\<close>

definition effective_view :: "HdPeerRegistry \<Rightarrow> Key \<Rightarrow> HdOpenConnection \<Rightarrow> HdClientView" where
  "effective_view reg k req = (let cv = wire_view (oc_intent req) (oc_flags req) in
     case HdPeersLookupPolicy reg k of
       None \<Rightarrow> cv
     | Some p \<Rightarrow> if pp_override_client p \<and> pp_has_pin p then cv\<lparr>cv_intent := pp_pinned_intent p\<rparr> else cv)"

text \<open>The decision on a local target's answer.\<close>

definition negotiated :: "HdPeerRegistry \<Rightarrow> Key \<Rightarrow> HdClientView \<Rightarrow> HdIntent \<Rightarrow> HdDecision" where
  "negotiated reg tk cv intent =
     (let p = (case HdPeersLookupPolicy reg tk of None \<Rightarrow> HdPeerPolicy_init | Some p \<Rightarrow> p) in
      HdResolve (HdBuildFleetView (reg_fleet_policy reg)) HdLayerView_init (HdBuildRelayView (reg_relay_policy reg))
        (HdBuildPeerView p (HdApplyPeerPolicyIntent p intent)) cv \<lparr>cap_can_direct = False\<rparr> 0)"

lemma negotiated_not_direct: "d_mode (negotiated reg tk cv intent) \<noteq> Mode_kDirect"
proof -
  have "d_mode (HdResolve fl fe re pe cl \<lparr>cap_can_direct = False\<rparr> 0) \<noteq> Mode_kDirect" for fl fe re pe cl
  proof -
    obtain i pinned where i: "pick_intent fl fe re pe cl = (i, pinned)" by fastforce
    show ?thesis unfolding resolve_mode [OF i] by (auto simp: permitted_def)
  qed
  then show ?thesis by (simp add: negotiated_def Let_def)
qed

definition local_entry ::
  "cp_env \<Rightarrow> int \<Rightarrow> int \<Rightarrow> HdOpenConnection \<Rightarrow> Key \<Rightarrow> Key \<Rightarrow> HdClientView \<Rightarrow> OpenConnEntry" where
  "local_entry env fd tfd req k tk cv = OpenConnEntry_init\<lparr>oce_in_use := True, oce_correlation_id := oc_correlation_id req,
     oce_initiator_fd := fd, oce_target_fd := tfd, oce_initiator_key := k, oce_target_key := tk, oce_initiator_view := cv,
     oce_target_relay_id := oc_target_relay_id req, oce_deadline_ns := env_now env + kCpOpenConnTimeoutNs\<rparr>"

definition ask_frame :: "Key \<Rightarrow> u16 \<Rightarrow> HdClientView \<Rightarrow> HdOpenConnection \<Rightarrow> bytes" where
  "ask_frame k pid cv req = hd_frame HdFrame_kIncomingConnection (incoming_conn_payload \<lparr>ic_initiator_key = k,
     ic_initiator_peer_id = pid, ic_intent = cv_intent cv, ic_flags = oc_flags req,
     ic_correlation_id = oc_correlation_id req\<rparr>)"

lemma open_local_ok:
  assumes k: "is_Key k" and inv: "oc_inv cp" and slot: "OpenConnSlotAlloc cp = Some slot"
    and t: "HdPeersLookupById reg (oc_target_peer_id req) = Some t" "hp_fd (reg_peers reg ! t) = tfd" "tfd \<ge> 0"
    and sock: "healthy env tfd"
  shows "open_local env cp reg fd req (Some i) k cv =
    Some (emit_all [Call_write tfd (ask_frame k (hp_peer_id (reg_peers reg ! t)) cv req)]
      (count_open fd (cp\<lparr>cp_open_conns := (cp_open_conns cp)[slot :=
         local_entry env fd tfd req k (hp_key (reg_peers reg ! t)) cv]\<rparr>)))"
proof -
  have "cp_open_conns cp ! slot = OpenConnEntry_init"
    using alloc_SomeD [OF slot] inv nth_mem unfolding oc_inv_def by blast
  moreover have "WriteFullFrame env cp' tfd (wrote (ask_frame k pid cv req) (replicate 48 0)) 48 =
      Some (emit_all [Call_write tfd (ask_frame k pid cv req)] cp', 0)" for cp' pid
    using k by (intro WriteFullFrame_ok [OF sock]) (simp add: ask_frame_def incoming_conn_payload_def is_Key_def)
  ultimately show ?thesis
    using t slot by (simp add: open_local_def Let_def incoming_build [OF k] ask_frame_def [symmetric] local_entry_def)
qed

lemma CpHandleOpenConnection_local:
  assumes inv: "cp_inv cp" and reg: "cp_hd_peers cp = Some reg"
    and a: "valid_fd fd" "cp_fd_map cp fd = Some i" "cp_open_conn_per_peer cp fd < 16"
    and req: "oc_target_relay_id req = 0" "canonical_intent (oc_intent req)"
  shows "CpHandleOpenConnection env cp fd (open_conn_payload req) 14 =
    open_local env cp reg fd req (Some i) (cpp_key (cp_peers cp ! i)) (effective_view reg (cpp_key (cp_peers cp ! i)) req)"
proof -
  have "HdParseOpenConnection (open_conn_payload req) 14 open_conn_blank = Some (True, req)"
    using HdParseOpenConnection_iff [of "open_conn_payload req" open_conn_blank req] req by simp
  with reg a req show ?thesis
    by (simp add: CpHandleOpenConnection_def effective_view_def Let_def)
qed

lemma CpHandleIncomingConnResponse_accepts:
  assumes reg: "cp_hd_peers cp = Some reg" and slot: "slot < length (cp_open_conns cp)"
    and e: "cp_open_conns cp ! slot = e" "oce_in_use e" "oce_target_fd e = tfd" "oce_target_relay_id e = 0"
      "oce_correlation_id e = icr_correlation_id resp"
    and first: "\<forall>j < slot. \<not> (oce_in_use (cp_open_conns cp ! j) \<and>
      oce_correlation_id (cp_open_conns cp ! j) = icr_correlation_id resp \<and> oce_target_fd (cp_open_conns cp ! j) = tfd)"
    and resp: "canonical_intent (icr_intent resp)" "icr_accept resp AND kHdFlagAccept \<noteq> 0"
  shows "CpHandleIncomingConnResponse env cp tfd (incoming_resp_payload resp) 11 =
    (let dec = negotiated reg (oce_target_key e) (oce_initiator_view e) (icr_intent resp) in
     SendOpenResultAndCleanup env (cp\<lparr>cp_audit_ring := HdAuditRecordDecision (env_wall env) (cp_audit_ring cp)
       (oce_initiator_key e) (oce_target_key e) (oce_initiator_view e) dec\<rparr>) slot (d_mode dec) (d_deny_reason dec) (d_sub_reason dec))"
proof -
  have l: "length (incoming_resp_payload resp) = 11" by (simp add: incoming_resp_payload_def)
  have p: "HdParseIncomingConnResponse (incoming_resp_payload resp) 11 incoming_resp_blank = Some (True, resp)"
    using HdParseIncomingConnResponse_iff [of "incoming_resp_payload resp" incoming_resp_blank resp] resp l by simp
  have s: "scan (\<lambda>s. oce_in_use s \<and> oce_correlation_id s = icr_correlation_id resp \<and> oce_target_fd s = tfd) (cp_open_conns cp) = Some slot"
    using slot e first by (simp add: scan_Some_iff)
  have same: "cp\<lparr>cp_hd_peers := Some reg\<rparr> = cp" using reg by simp
  let ?pol = "case HdPeersLookupPolicy reg (oce_target_key e) of None \<Rightarrow> HdPeerPolicy_init | Some bpol \<Rightarrow> bpol"
  have dec: "HdResolve (HdBuildFleetView (reg_fleet_policy reg)) HdLayerView_init (HdBuildRelayView (reg_relay_policy reg))
      (HdBuildPeerView ?pol (HdApplyPeerPolicyIntent ?pol (icr_intent resp))) (oce_initiator_view e) \<lparr>cap_can_direct = False\<rparr> 0 =
      negotiated reg (oce_target_key e) (oce_initiator_view e) (icr_intent resp)"
    by (simp add: negotiated_def Let_def)
  show ?thesis
    using p s reg e resp(2) negotiated_not_direct [of reg "oce_target_key e" "oce_initiator_view e" "icr_intent resp"]
    by (simp add: CpHandleIncomingConnResponse_def Let_def same dec)
qed

text \<open>
  C12: The handshake. When a connected client asks for a local peer, the peer is asked with the
  client's key and its effective intent; when the peer accepts, both are told the decision the
  resolver makes from the fleet, relay and peer policies (the peer only if it is not a denial),
  the decision is in the audit log, and the request leaves nothing behind: the pending requests
  and all counters are what they were.
\<close>

theorem open_connection_completes:
  assumes inv: "cp_inv cp" "oc_inv cp" and reg: "cp_hd_peers cp = Some reg"
    and a: "valid_fd fd" "cp_fd_map cp fd = Some i" "cpp_key (cp_peers cp ! i) = k" "cp_open_conn_per_peer cp fd < 16"
    and t: "HdPeersLookupById reg (oc_target_peer_id req) = Some t" "hp_fd (reg_peers reg ! t) = tfd" "tfd \<ge> 0"
    and free: "\<exists>s \<in> set (cp_open_conns cp). \<not> oce_in_use s"
    and fresh: "\<forall>s \<in> set (cp_open_conns cp). oce_in_use s \<longrightarrow> oce_correlation_id s \<noteq> oc_correlation_id req"
    and req: "oc_target_relay_id req = 0" "canonical_intent (oc_intent req)"
    and resp: "icr_correlation_id resp = oc_correlation_id req" "canonical_intent (icr_intent resp)"
      "icr_accept resp AND kHdFlagAccept \<noteq> 0"
    and sock: "healthy env tfd" "healthy env' fd" "healthy env' tfd"
  shows "let tk = hp_key (reg_peers reg ! t); cv = effective_view reg k req;
      dec = negotiated reg tk cv (icr_intent resp);
      ask = Call_write tfd (ask_frame k (hp_peer_id (reg_peers reg ! t)) cv req);
      e = local_entry env fd tfd req k tk cv in
    \<exists>cp1. CpHandleOpenConnection env cp fd (open_conn_payload req) 14 = Some cp1 \<and>
      cp_calls cp1 = cp_calls cp @ [ask] \<and> pending cp1 fd = pending cp fd + 1 \<and>
      CpHandleIncomingConnResponse env' cp1 tfd (incoming_resp_payload resp) 11 =
        Some (emit_all (ask # answer e (d_mode dec) (d_deny_reason dec) (d_sub_reason dec))
          (cp\<lparr>cp_audit_ring := HdAuditRecordDecision (env_wall env') (cp_audit_ring cp) k tk cv dec\<rparr>))"
proof -
  obtain slot where slot: "OpenConnSlotAlloc cp = Some slot"
    using free by (cases "OpenConnSlotAlloc cp") (auto simp: OpenConnSlotAlloc_def scan_None_iff)
  have s: "slot < length (cp_open_conns cp)" "cp_open_conns cp ! slot = OpenConnEntry_init"
    using alloc_SomeD [OF slot] inv nth_mem unfolding oc_inv_def by blast+
  have k: "is_Key k" using fd_key_is_Key [OF inv(1), of fd] a by simp
  define tk where "tk = hp_key (reg_peers reg ! t)"
  define cv where "cv = effective_view reg k req"
  define dec where "dec = negotiated reg tk cv (icr_intent resp)"
  define e where "e = local_entry env fd tfd req k tk cv"
  define ask where "ask = Call_write tfd (ask_frame k (hp_peer_id (reg_peers reg ! t)) cv req)"
  define cp1 where "cp1 = emit_all [ask] (count_open fd (cp\<lparr>cp_open_conns := (cp_open_conns cp)[slot := e]\<rparr>))"
  have h1: "CpHandleOpenConnection env cp fd (open_conn_payload req) 14 = Some cp1"
    unfolding CpHandleOpenConnection_local [OF inv(1) reg a(1,2,4) req]
    using open_local_ok [OF k inv(2) slot t sock(1)] a(3)
    by (simp add: cp1_def ask_def e_def cv_def tk_def)
  have e: "oce_in_use e" "oce_target_fd e = tfd" "oce_target_relay_id e = 0" "oce_initiator_fd e = fd"
    "oce_correlation_id e = icr_correlation_id resp" "oce_target_key e = tk" "oce_initiator_view e = cv"
    "oce_initiator_key e = k" "\<not> oce_is_gateway_inbound e"
    using req resp by (simp_all add: e_def local_entry_def OpenConnEntry_init_def)
  have conns: "cp_open_conns cp1 = (cp_open_conns cp)[slot := e]" "cp_hd_peers cp1 = Some reg"
    "cp_audit_ring cp1 = cp_audit_ring cp" using reg by (simp_all add: cp1_def count_open_def)
  have first: "\<forall>j < slot. \<not> (oce_in_use (cp_open_conns cp1 ! j) \<and>
      oce_correlation_id (cp_open_conns cp1 ! j) = icr_correlation_id resp \<and> oce_target_fd (cp_open_conns cp1 ! j) = tfd)"
    using fresh s(1) resp(1) by (auto simp: conns(1))
  have same: "(cp_open_conns cp)[slot := OpenConnEntry_init] = cp_open_conns cp" using s by (metis list_update_id)
  let ?cp2 = "cp1\<lparr>cp_audit_ring := HdAuditRecordDecision (env_wall env') (cp_audit_ring cp) k tk cv dec\<rparr>"
  have "CpHandleIncomingConnResponse env' cp1 tfd (incoming_resp_payload resp) 11 =
      SendOpenResultAndCleanup env' ?cp2 slot (d_mode dec) (d_deny_reason dec) (d_sub_reason dec)"
    using CpHandleIncomingConnResponse_accepts [OF conns(2) _ _ e(1,2,3,5) first resp(2,3), of env'] conns s e
    by (simp add: dec_def Let_def)
  also have "\<dots> = Some (OpenConnSlotFree (emit_all (answer e (d_mode dec) (d_deny_reason dec) (d_sub_reason dec)) ?cp2) slot)"
    using SendOpenResult_ok [of ?cp2 slot env'] sock conns s e by simp
  also have "OpenConnSlotFree (emit_all (answer e (d_mode dec) (d_deny_reason dec) (d_sub_reason dec)) ?cp2) slot =
      emit_all (ask # answer e (d_mode dec) (d_deny_reason dec) (d_sub_reason dec))
        (cp\<lparr>cp_audit_ring := HdAuditRecordDecision (env_wall env') (cp_audit_ring cp) k tk cv dec\<rparr>)"
    using s(1) same e a(1) by (simp add: OpenConnSlotFree_def Let_def cp1_def count_open_def emit_all_def valid_fd_def)
  finally have h2: "CpHandleIncomingConnResponse env' cp1 tfd (incoming_resp_payload resp) 11 =
      Some (emit_all (ask # answer e (d_mode dec) (d_deny_reason dec) (d_sub_reason dec))
        (cp\<lparr>cp_audit_ring := HdAuditRecordDecision (env_wall env') (cp_audit_ring cp) k tk cv dec\<rparr>))" .
  have "pending cp1 fd = pending cp fd + 1"
    using pending_update [OF s(1), of e fd] s e by (simp add: cp1_def own_request_def)
  with h1 h2 show ?thesis
    unfolding Let_def tk_def [symmetric] cv_def [symmetric] dec_def [symmetric] e_def [symmetric] ask_def [symmetric]
    by (intro exI [of _ cp1]) (simp add: cp1_def count_open_def)
qed

section \<open>A concrete run\<close>

definition example_env :: cp_env where
  "example_env = \<lparr>env_now = 7000000000, env_wall = 1, env_write = \<lambda>_ _ _. Sk_count 65536, env_bin2hex = hex_encode\<rparr>"

definition example_hd_reg :: HdPeerRegistry where
  "example_hd_reg = HdPeerRegistry_init\<lparr>reg_peers := HdPeer_init\<lparr>hp_key := key_b, hp_fd := 6, hp_peer_id := 1,
     hp_state := PeerState_kApproved, hp_occupied := 1\<rparr> # replicate 4095 HdPeer_init\<rparr>"

definition example_open_cp :: ControlPlane where
  "example_open_cp = (fst (CpRegistryInsert example_cp key_a 5))\<lparr>cp_hd_peers := Some example_hd_reg\<rparr>"

lemma example_env_ok: "sock_progress example_env" "healthy example_env fd"
  by (auto simp: sock_progress_def healthy_def example_env_def)

lemma example_open_cp_ok:
  "cp_inv example_open_cp" "oc_inv example_open_cp" "cp_fd_map example_open_cp 5 = Some 2125"
  "cpp_key (cp_peers example_open_cp ! 2125) = key_a" "cp_open_conn_per_peer example_open_cp 5 = 0"
  "cp_open_conns example_open_cp = replicate 256 OpenConnEntry_init"
  "cp_hd_peers example_open_cp = Some example_hd_reg" "cp_calls example_open_cp = []"
proof -
  have k: "is_Key key_a" by (simp add: key_a_def is_Key_def)
  have "cp_inv (fst (CpRegistryInsert example_cp key_a 5))" by (rule CpRegistryInsert_inv [OF example_cp_ok(1) k])
  then show "cp_inv example_open_cp" by (simp add: example_open_cp_def cp_inv_def)
  obtain ra where p: "cp_probe_seq key_a = 2125 # 2126 # ra" using probe_2125 [OF colliding(1)] by blast
  then show "cp_fd_map example_open_cp 5 = Some 2125" "cpp_key (cp_peers example_open_cp ! 2125) = key_a"
    "cp_open_conn_per_peer example_open_cp 5 = 0" "cp_hd_peers example_open_cp = Some example_hd_reg"
    and conns: "cp_open_conns example_open_cp = replicate 256 OpenConnEntry_init" "cp_calls example_open_cp = []"
    by (simp_all add: example_open_cp_def CpRegistryInsert_def example_cp_def CpPeer_init_def Let_def valid_fd_def)
  have "cp_open_conn_per_peer example_open_cp fd = 0" for fd
    using p by (simp add: example_open_cp_def CpRegistryInsert_def example_cp_def CpPeer_init_def Let_def)
  then show "oc_inv example_open_cp" by (simp add: oc_inv_def conns pending_def)
qed

theorem open_connection_completes_witness:
  "\<exists>cp1 cp2. CpHandleOpenConnection example_env example_open_cp 5 (open_conn_payload \<lparr>oc_target_peer_id = 1,
      oc_target_relay_id = 0, oc_intent = Intent_kPreferDirect, oc_flags = 0, oc_correlation_id = 77\<rparr>) 14 = Some cp1 \<and>
    pending cp1 5 = 1 \<and>
    CpHandleIncomingConnResponse example_env cp1 6 (incoming_resp_payload \<lparr>icr_correlation_id = 77,
      icr_intent = Intent_kPreferDirect, icr_flags = 0, icr_accept = 1\<rparr>) 11 = Some cp2 \<and>
    cp_open_conns cp2 = cp_open_conns example_open_cp"
proof -
  let ?req = "\<lparr>oc_target_peer_id = 1, oc_target_relay_id = 0, oc_intent = Intent_kPreferDirect, oc_flags = 0,
    oc_correlation_id = 77\<rparr>"
  let ?resp = "\<lparr>icr_correlation_id = 77, icr_intent = Intent_kPreferDirect, icr_flags = 0, icr_accept = 1\<rparr>"
  have t: "HdPeersLookupById example_hd_reg 1 = Some 0" "hp_fd (reg_peers example_hd_reg ! 0) = 6"
    by (simp_all add: HdPeersLookupById_def example_hd_reg_def)
  show ?thesis
    using open_connection_completes [OF example_open_cp_ok(1,2,7) _ example_open_cp_ok(3,4), of ?req 0 6 ?resp
        example_env example_env] t example_open_cp_ok(5,6) example_env_ok(2)
    by (auto simp: Let_def valid_fd_def pending_def)
qed

text \<open>A client with one request of its own and one that came through the mesh.\<close>

definition example_mesh_cp :: ControlPlane where
  "example_mesh_cp = example_open_cp\<lparr>cp_open_conns :=
     OpenConnEntry_init\<lparr>oce_in_use := True, oce_initiator_fd := 5, oce_deadline_ns := 9\<rparr> #
     OpenConnEntry_init\<lparr>oce_in_use := True, oce_initiator_fd := 5, oce_is_gateway_inbound := True\<rparr> #
     replicate 254 OpenConnEntry_init, cp_open_conn_per_peer := (\<lambda>_. 0)(5 := 1)\<rparr>"


theorem open_conn_timeouts_witness:
  "\<exists>cp'. ScanOpenConnTimeouts example_env example_mesh_cp = Some cp' \<and>
    cp_open_conns cp' = replicate 256 OpenConnEntry_init"
proof -
  have c: "cp_open_conns example_mesh_cp =
     OpenConnEntry_init\<lparr>oce_in_use := True, oce_initiator_fd := 5, oce_deadline_ns := 9\<rparr> #
     OpenConnEntry_init\<lparr>oce_in_use := True, oce_initiator_fd := 5, oce_is_gateway_inbound := True\<rparr> #
     replicate 254 OpenConnEntry_init" by (simp add: example_mesh_cp_def)
  have "oc_inv example_mesh_cp"
    using example_open_cp_ok(7)
    by (auto simp: oc_inv_def c pending_def own_request_def) (auto simp: example_mesh_cp_def OpenConnEntry_init_def)
  moreover have "replicate 256 x = x # x # replicate 254 x" for x :: OpenConnEntry by (simp add: numeral_eq_Suc)
  ultimately show ?thesis
    using open_conn_timeouts [of example_mesh_cp example_env] example_env_ok(2)
    by (auto simp: c expired_def example_env_def OpenConnEntry_init_def)
qed

end
