(* ===== verification/Cp_Safety.thy ===== *)
theory Cp_Safety
  imports Cp_Loop Cp_Open_Conn
begin

text \<open>
  The control plane as a whole: every event its loop handles returns, without undefined
  behaviour, and keeps the invariants of all the tables it owns; the messages of a worker's pipe
  are processed once each and in order however the reads cut them; and what an announcement
  teaches a neighbouring relay.
\<close>

section \<open>Events\<close>

text \<open>
  What the loop and the two entry points of the accept and data threads react to, each with
  what its environment supplies.
\<close>

datatype cp_event =
    Ev_connect Key int
  | Ev_gone Key int PeerGoneReason
  | Ev_frame cp_env int FrameType bytes int
  | Ev_ice_timer "nat \<Rightarrow> bytes"
  | Ev_stun "bytes option"
  | Ev_route_timer
  | Ev_open_timer cp_env

fun cp_handle :: "pair_sort \<Rightarrow> cp_event \<Rightarrow> ControlPlane \<Rightarrow> ControlPlane ub" where
  "cp_handle srt (Ev_connect key fd) cp = CpOnPeerConnect cp key fd"
| "cp_handle srt (Ev_gone key fd reason) cp = CpOnPeerGone cp key fd reason"
| "cp_handle srt (Ev_frame env fd type payload n) cp = CpProcessFrame env srt cp fd type payload n"
| "cp_handle srt (Ev_ice_timer fresh) cp = HandleIceTimer fresh cp"
| "cp_handle srt (Ev_stun datagram) cp = HandleStunResponse cp datagram"
| "cp_handle srt Ev_route_timer cp = HandleRouteAnnounce cp"
| "cp_handle srt (Ev_open_timer env) cp = ScanOpenConnTimeouts env cp"

fun cp_run :: "pair_sort \<Rightarrow> cp_event list \<Rightarrow> ControlPlane \<Rightarrow> ControlPlane ub" where
  "cp_run srt [] cp = Some cp"
| "cp_run srt (ev # evs) cp = do { cp \<leftarrow> cp_handle srt ev cp; cp_run srt evs cp }"

definition agent_ok :: "IceAgent \<Rightarrow> bool" where
  "agent_ok a \<longleftrightarrow> (\<forall>s \<in> set (ia_sessions a). is_occupied s \<longrightarrow> ice_inv s)"

definition cp_ok :: "ControlPlane \<Rightarrow> bool" where
  "cp_ok cp \<longleftrightarrow> cp_inv cp \<and> oc_inv cp \<and> pred_option relay_inv (cp_relay_table cp) \<and>
     pred_option agent_ok (cp_ice_agent cp)"

text \<open>What the environment of an event promises.\<close>

fun ev_ok :: "ControlPlane \<Rightarrow> cp_event \<Rightarrow> bool" where
  "ev_ok cp (Ev_connect key fd) = is_Key key"
| "ev_ok cp (Ev_gone key fd reason) = is_Key key"
| "ev_ok cp (Ev_frame env fd type payload n) = (sock_progress env \<and> n \<le> int (length payload))"
| "ev_ok cp (Ev_ice_timer fresh) = (\<forall>i. length (fresh i) = 12)"
| "ev_ok cp (Ev_stun datagram) = (cp_ice_agent cp \<noteq> None)"
| "ev_ok cp Ev_route_timer = True"
| "ev_ok cp (Ev_open_timer env) = sock_progress env"

text \<open>The socket a request from the mesh came from, if the event is one.\<close>

fun mesh_fd :: "cp_event \<Rightarrow> int set" where
  "mesh_fd (Ev_frame env fd type payload n) =
     (if FrameType_byte type = HdFrameType_byte HdFrame_kFleetOpenConnection then {fd} else {})"
| "mesh_fd _ = {}"

section \<open>Handlers of DERP frames leave the rest alone\<close>

definition cp_rest where
  "cp_rest cp = (cp_open_conns cp, cp_open_conn_per_peer cp, cp_hd_peers cp, cp_relay_table cp, cp_ice_agent cp)"

lemma cp_rest_simps [simp]:
  "cp_rest (emit_all cs cp) = cp_rest cp" "cp_rest (fst (CpRegistryInsert cp k fd)) = cp_rest cp"
  "cp_rest (CpRegistryRemove cp k) = cp_rest cp" "cp_rest (CpRemoveWatcher cp fd) = cp_rest cp"
  "cp_rest (CpAddWatcher cp fd) = cp_rest cp" "cp_rest (cp\<lparr>cp_peers := ps\<rparr>) = cp_rest cp"
  by (auto simp: cp_rest_def emit_all_def CpRegistryInsert_def CpRegistryRemove_def CpRemoveWatcher_def
      CpAddWatcher_def Let_def split: option.split)

lemma cp_rest_ok:
  assumes "cp_rest cp' = cp_rest cp" "cp_inv cp'" "cp_ok cp"
  shows "cp_ok cp'" "oc_exact cp fd \<Longrightarrow> oc_exact cp' fd" "cp_ice_agent cp' = None \<longleftrightarrow> cp_ice_agent cp = None"
  using assms by (auto simp: cp_rest_def cp_ok_def oc_inv_def oc_exact_def pending_def)

definition derp_ends :: "ControlPlane \<Rightarrow> ControlPlane ub \<Rightarrow> bool" where
  "derp_ends cp r \<longleftrightarrow> (\<exists>cp'. r = Some cp' \<and> cp_inv cp' \<and> cp_rest cp' = cp_rest cp)"

lemma derp_connect_ends:
  assumes inv: "cp_inv cp" and k: "is_Key k"
  shows "derp_ends cp (DoConnect cp k fd)" "derp_ends cp (DoDisconnect cp k fd reason)"
  using DoConnect_eq [OF assms, of fd] CpRegistryInsert_inv [OF assms, of fd] DoDisconnect_eq [OF assms, of fd reason]
    CpRegistryRemove_inv [OF CpRemoveWatcher_spec(1) [OF inv], of fd k]
  by (simp_all add: derp_ends_def Let_def)

lemma send_ends: "cp_inv cp \<Longrightarrow> 0 \<le> n \<Longrightarrow> n \<le> int (length f) \<Longrightarrow> derp_ends cp (CpSendFrame cp k f n)"
  by (simp add: CpSendFrame_def derp_ends_def rd_defined)

lemma derp_frame_ends:
  assumes inv: "cp_inv cp" and n: "n \<le> int (length payload)"
  shows "derp_ends cp (HandleWatchConns cp fd)" "derp_ends cp (HandlePing cp fd payload n)"
    "derp_ends cp (HandleNotePreferred cp fd payload n)" "derp_ends cp (HandleClosePeer cp fd payload n)"
    "derp_ends cp (HandlePeerGone cp fd payload n)"
proof -
  have ok: "cp_inv cp' \<Longrightarrow> cp_rest cp' = cp_rest cp \<Longrightarrow> derp_ends cp (Some cp')" for cp' by (simp add: derp_ends_def)
  have key: "ToKey payload = Some (take 32 payload) \<and> is_Key (take 32 payload)" if "\<not> n < 32"
    using ToKey_payload [of n payload] that n by simp
  note keep = cp_handlers_keep_invariant [OF inv is_Key_zero n, of fd Gone_kDisconnected]
  show "derp_ends cp (HandleWatchConns cp fd)"
    using HandleWatchConns_eq [OF inv, of fd] CpAddWatcher_inv [OF inv, of fd] by (simp add: derp_ends_def)
  show "derp_ends cp (HandlePing cp fd payload n)"
    using keep by (auto simp: derp_ends_def HandlePing_def CpSendFrame_def split: if_splits option.splits bind_splits)
  show "derp_ends cp (HandleNotePreferred cp fd payload n)"
    using keep by (auto simp: derp_ends_def HandleNotePreferred_def split: if_splits option.splits bind_splits)
  show "derp_ends cp (HandleClosePeer cp fd payload n)"
    using derp_connect_ends(2) [of "emit_all [Call_DpRemovePeer (take 32 payload)] cp" "take 32 payload"] key inv
    by (auto simp: HandleClosePeer_def Let_def derp_ends_def split: option.split)
  show "derp_ends cp (HandlePeerGone cp fd payload n)"
    using derp_connect_ends(2) [OF CpRegistryRemove_inv [OF inv, of "take 32 payload"], of "take 32 payload" fd Gone_kDisconnected] key inv
    by (auto simp: HandlePeerGone_def Let_def derp_ends_def not_le)
qed

section \<open>Each event\<close>

definition ev_ends :: "int set \<Rightarrow> ControlPlane \<Rightarrow> ControlPlane ub \<Rightarrow> bool" where
  "ev_ends G cp r \<longleftrightarrow> (\<exists>cp'. r = Some cp' \<and> cp_ok cp' \<and> (cp_ice_agent cp' = None \<longleftrightarrow> cp_ice_agent cp = None) \<and>
     (\<forall>fd. valid_fd fd \<and> fd \<notin> G \<and> oc_exact cp fd \<longrightarrow> oc_exact cp' fd))"

lemma ev_ends_same: "cp_ok cp \<Longrightarrow> ev_ends G cp (Some cp)"
  by (simp add: ev_ends_def)

lemma ev_ends_derp: "cp_ok cp \<Longrightarrow> derp_ends cp r \<Longrightarrow> ev_ends G cp r"
  using cp_rest_ok by (fastforce simp: derp_ends_def ev_ends_def)

lemma oc_steps_other:
  assumes "(oc_step G)\<^sup>*\<^sup>* cp cp'"
  shows "cp_relay_table cp' = cp_relay_table cp \<and> cp_ice_agent cp' = cp_ice_agent cp"
  using assms
proof (induction rule: rtranclp_induct)
  case (step y z)
  from step.hyps(2) have "cp_relay_table z = cp_relay_table y \<and> cp_ice_agent z = cp_ice_agent y"
    by (induction rule: oc_step.induct) (auto simp: count_open_def OpenConnSlotFree_def Let_def)
  with step.IH show ?case by simp
qed simp

lemma ev_ends_oc: "cp_ok cp \<Longrightarrow> oc_ends G cp r \<Longrightarrow> ev_ends G cp r"
  using oc_steps_keep oc_steps_other by (fastforce simp: oc_ends_def ev_ends_def cp_ok_def)

text \<open>Replacing the ICE agent or the relay table by one that is well formed.\<close>

lemma ev_ends_agent:
  "cp_ok cp \<Longrightarrow> cp_ice_agent cp \<noteq> None \<Longrightarrow> agent_ok a \<Longrightarrow>
    ev_ends G cp (Some (cp\<lparr>cp_ice_agent := Some a, cp_calls := cs\<rparr>))"
  by (auto simp: ev_ends_def cp_ok_def cp_inv_def oc_inv_def oc_exact_def pending_def)

lemma ev_ends_agent':
  "cp_ok cp \<Longrightarrow> cp_ice_agent cp \<noteq> None \<Longrightarrow> agent_ok a \<Longrightarrow> ev_ends G cp (Some (cp\<lparr>cp_ice_agent := Some a\<rparr>))"
  using ev_ends_agent [of cp a G "cp_calls cp"] by simp

lemma ev_ends_routes:
  "cp_ok cp \<Longrightarrow> relay_inv rt \<Longrightarrow> ev_ends G cp (Some (cp\<lparr>cp_relay_table := Some rt\<rparr>))"
  by (auto simp: ev_ends_def cp_ok_def cp_inv_def oc_inv_def oc_exact_def pending_def)

lemma peer_info_ends:
  assumes ok: "cp_ok cp" and srt: "std_sort srt" and n: "n \<le> int (length payload)"
  shows "ev_ends G cp (CpHandleHdPeerInfo srt cp fd payload n)"
proof (cases "cp_level2_enabled cp \<and> cp_ice_agent cp \<noteq> None \<and> \<not> n < 32")
  case False
  then show ?thesis using ev_ends_same [OF ok, of G] by (auto simp: CpHandleHdPeerInfo_def split: option.split)
next
  case True
  then obtain a where a: "cp_ice_agent cp = Some a" by auto
  have key: "rd 0 32 payload = Some (take 32 payload)" using True n by (simp add: rd_defined)
  show ?thesis
  proof (cases "IceFindSession a (take 32 payload)")
    case None
    then show ?thesis using True a key ev_ends_same [OF ok, of G] by (simp add: CpHandleHdPeerInfo_def Let_def)
  next
    case (Some i)
    have i: "i < length (ia_sessions a)" "is_occupied (ia_sessions a ! i)"
      using scan_SomeD [OF Some [unfolded IceFindSession_def]] by auto
    then have inv: "ice_inv (ia_sessions a ! i)" using ok a by (simp add: cp_ok_def agent_ok_def)
    obtain t p where t: "IceParseCandidates (ia_sessions a ! i) (drop 32 payload) (n - 32) = Some (t, p)" "ice_inv t"
      using IceParseCandidates_total [OF inv, of "n - 32" "drop 32 payload"] n True by auto
    define t' where "t' = (if p < 0 then t else if is_local_count t > 0 \<and> is_remote_count t > 0 \<and>
      is_state t = Ice_kGathering then IceFormPairs srt t else t)"
    have "ice_inv t'" using t(2) ice_inv_form [OF t(2) srt] by (auto simp: t'_def)
    then have "agent_ok (a\<lparr>ia_sessions := (ia_sessions a)[i := t']\<rparr>)"
      using ok a by (auto simp: agent_ok_def cp_ok_def dest: subsetD [OF set_update_subset_insert])
    from ev_ends_agent' [OF ok _ this] show ?thesis
      using True a key Some t(1) unfolding t'_def by (simp add: CpHandleHdPeerInfo_def Let_def)
  qed
qed

lemma stun_sessions_ok:
  "\<forall>s \<in> set ss. is_occupied s \<longrightarrow> ice_inv s \<Longrightarrow> \<forall>s \<in> set (stun_sessions_loop ss msg). is_occupied s \<longrightarrow> ice_inv s"
proof (induction ss)
  case (Cons s ss)
  obtain s' nom where r: "IceProcessResponse s (sm_transaction_id msg) (sm_xor_mapped_ip msg) (sm_xor_mapped_port msg) = (s', nom)"
    by fastforce
  then have "ice_inv s \<Longrightarrow> ice_inv s'" using ice_inv_response by (metis fst_conv)
  with Cons r show ?case by auto
qed simp

lemma stun_ends:
  assumes ok: "cp_ok cp" and a: "cp_ice_agent cp \<noteq> None"
  shows "ev_ends G cp (HandleStunResponse cp datagram)"
proof (cases datagram)
  case None
  then show ?thesis using ev_ends_same [OF ok] by (simp add: HandleStunResponse_def)
next
  case (Some buf)
  obtain msg b where p: "StunParse buf (int (length buf)) StunMessage_init = Some (msg, b)"
    using StunParse_total [of "int (length buf)" buf StunMessage_init] by auto
  obtain ag where ag: "cp_ice_agent cp = Some ag" using a by auto
  have "agent_ok (ag\<lparr>ia_sessions := stun_sessions_loop (ia_sessions ag) msg\<rparr>)"
    using ok ag stun_sessions_ok [of "ia_sessions ag" msg] by (simp add: agent_ok_def cp_ok_def)
  from ev_ends_agent' [OF ok a this] show ?thesis
    using Some p ag ev_ends_same [OF ok] by (simp add: HandleStunResponse_def)
qed

lemma binding_request_built:
  "length t = 12 \<Longrightarrow> \<exists>buf. StunBuildBindingRequest [] (replicate 256 0) 256 (Some t) = Some (buf, 20) \<and> length buf = 256"
  by (simp add: StunBuildBindingRequest_def memcpy_def rd_defined stun_build_simps)

lemma ice_timer_ok:
  assumes fresh: "\<forall>i. length (fresh i) = 12" and "\<forall>s \<in> set ss. is_occupied s \<longrightarrow> ice_inv s"
  shows "\<exists>ss' cs. ice_timer_loop fresh i ss = Some (ss', cs) \<and> (\<forall>s \<in> set ss'. is_occupied s \<longrightarrow> ice_inv s)"
  using assms(2)
proof (induction ss arbitrary: i)
  case (Cons s ss)
  obtain ss' cs where rest: "ice_timer_loop fresh (Suc i) ss = Some (ss', cs)" "\<forall>s \<in> set ss'. is_occupied s \<longrightarrow> ice_inv s"
    using Cons by fastforce
  show ?case
  proof (cases "is_occupied s \<and> is_state s = Ice_kChecking")
    case False
    then show ?thesis using rest Cons.prems by auto
  next
    case True
    obtain s' oj where c: "IceNextCheck (fresh i) s = (s', oj)" by fastforce
    have s': "ice_inv s'" using ice_inv_check [of s "fresh i"] c Cons.prems True by simp
    show ?thesis
    proof (cases oj)
      case None
      then show ?thesis using True c s' rest by auto
    next
      case (Some j)
      have inv: "ice_inv s" using Cons.prems True by simp
      have f: "scan (\<lambda>p. \<not> (ip_in_progress p \<or> ip_succeeded p \<or> ip_failed p)) (ice_pairs s) = Some j"
        using c Some by (auto simp: IceNextCheck_def split: option.splits)
      have "ip_transaction_id (is_pairs s' ! j) = fresh i"
        using c Some f ice_scan(4) [OF inv f] by (auto simp: IceNextCheck_def)
      then obtain buf where "StunBuildBindingRequest [] (replicate 256 0) 256 (Some (ip_transaction_id (is_pairs s' ! j))) = Some (buf, 20)"
        "length buf = 256" using binding_request_built [of "fresh i"] fresh by auto
      then show ?thesis using True c Some s' rest by (simp add: Let_def rd_defined)
    qed
  qed
qed simp

lemma ice_timer_ends:
  assumes ok: "cp_ok cp" and fresh: "\<forall>i. length (fresh i) = 12"
  shows "ev_ends G cp (HandleIceTimer fresh cp)"
proof (cases "cp_ice_agent cp")
  case None
  then show ?thesis using ev_ends_same [OF ok] by (simp add: HandleIceTimer_def)
next
  case (Some a)
  obtain ss cs where l: "ice_timer_loop fresh 0 (ia_sessions a) = Some (ss, cs)" "\<forall>s \<in> set ss. is_occupied s \<longrightarrow> ice_inv s"
    using ice_timer_ok [OF fresh, of "ia_sessions a" 0] ok Some by (auto simp: cp_ok_def agent_ok_def)
  have "agent_ok (a\<lparr>ia_sessions := ss\<rparr>)" using l(2) by (simp add: agent_ok_def)
  from ev_ends_agent [OF ok _ this] show ?thesis using Some l(1) by (simp add: HandleIceTimer_def)
qed

section \<open>Routes between relays\<close>

text \<open>What a relay announces: its table, and itself unless its table is full.\<close>

definition announced :: "RelayTable \<Rightarrow> (u16 \<times> u8) list" where
  "announced rt = (let rs = map (\<lambda>e. (re_relay_id e, re_hops e)) (filter relay_live (rt_entries rt)) in
     if rt_self_id rt \<notin> fst ` set rs \<and> length rs < kMaxRelays then rs @ [(rt_self_id rt, 0)] else rs)"

lemma relay_list_loop_all:
  "c + int (length es) \<le> m \<Longrightarrow> relay_list_loop es c m = map (\<lambda>e. (re_relay_id e, re_hops e)) (filter relay_live es)"
  by (induction es arbitrary: c) auto

lemma announced_length: "relay_inv rt \<Longrightarrow> length (announced rt) \<le> 4096"
  using length_filter_le [of relay_live "rt_entries rt"] by (simp add: announced_def Let_def relay_inv_def kMaxRelays_def)

definition route_frame :: "RelayTable \<Rightarrow> bytes" where
  "route_frame rt = hd_frame HdFrame_kRouteAnnounce (route_payload (announced rt))"

lemma announce_loop_eq:
  "n = int (length f) \<Longrightarrow> announce_loop es (f @ rest) n cp =
    Some (emit_all (map (\<lambda>e. Call_DpWrite (re_key e) f) (filter (\<lambda>e. re_occupied e = 1 \<and> re_hops e = 1) es)) cp)"
  by (induction es arbitrary: cp) (auto simp: CpSendFrame_def rd_def)

lemma HandleRouteAnnounce_eq:
  assumes rt: "cp_relay_table cp = Some rt" and inv: "relay_inv rt"
  shows "HandleRouteAnnounce cp = Some (emit_all (map (\<lambda>e. Call_DpWrite (re_key e) (route_frame rt))
    (filter (\<lambda>e. re_occupied e = 1 \<and> re_hops e = 1) (rt_entries rt))) cp)"
proof -
  have len: "length (rt_entries rt) = 4096" using inv by (simp add: relay_inv_def kMaxRelays_def)
  then have l: "relay_list_loop (rt_entries rt) 0 4096 = map (\<lambda>e. (re_relay_id e, re_hops e)) (filter relay_live (rt_entries rt))"
    by (intro relay_list_loop_all) simp
  have a: "announced rt = (if \<not> list_ex (\<lambda>(rid, h). rid = rt_self_id rt) (relay_list_loop (rt_entries rt) 0 4096) \<and>
      int (length (relay_list_loop (rt_entries rt) 0 4096)) < 4096
      then relay_list_loop (rt_entries rt) 0 4096 @ [(rt_self_id rt, 0)] else relay_list_loop (rt_entries rt) 0 4096)"
    by (auto simp: announced_def Let_def l kMaxRelays_def list_ex_iff image_iff)
  let ?n = "length (announced rt)"
  have z: "take ?n (zip (map fst (announced rt)) (map snd (announced rt))) = announced rt"
    by (simp add: zip_map_fst_snd)
  have b: "HdBuildRouteAnnounce (replicate 12292 0) 12292 (map fst (announced rt)) (map snd (announced rt)) (int ?n) =
      Some (wrote (route_frame rt) (replicate 12292 0), int (length (route_frame rt)))"
    using HdBuildRouteAnnounce_builds [of 12292 "replicate 12292 0" ?n "map fst (announced rt)" "map snd (announced rt)"]
      announced_length [OF inv]
    unfolding z by (simp add: builds_checked_def route_frame_def)
  have "HandleRouteAnnounce cp = (let (buf, n) = (wrote (route_frame rt) (replicate 12292 0), int (length (route_frame rt))) in
      if n \<le> 0 then Some cp else announce_loop (rt_entries rt) buf n cp)"
    using rt b [unfolded length_map] a
    by (simp add: HandleRouteAnnounce_def RelayTableList_def Let_def kMaxRelays_def split del: if_split cong: if_cong)
  then show ?thesis by (simp add: wrote_def announce_loop_eq route_frame_def del: length_hd_frame)
qed

lemma route_timer_ends: "cp_ok cp \<Longrightarrow> ev_ends G cp (HandleRouteAnnounce cp)"
proof (cases "cp_relay_table cp")
  case None
  moreover assume "cp_ok cp"
  ultimately show ?thesis using ev_ends_same by (simp add: HandleRouteAnnounce_def)
next
  case (Some rt)
  moreover assume ok: "cp_ok cp"
  ultimately have "derp_ends cp (HandleRouteAnnounce cp)"
    using HandleRouteAnnounce_eq [OF Some] by (simp add: cp_ok_def derp_ends_def)
  with ok show ?thesis by (rule ev_ends_derp)
qed

lemma learn_routes_inv: "relay_inv rt \<Longrightarrow> relay_inv (learn_routes_loop es src fd rt) \<and>
    rt_self_id (learn_routes_loop es src fd rt) = rt_self_id rt"
  by (induction es src fd rt rule: learn_routes_loop.induct) (auto simp: Let_def RelayTableUpdateRoute_inv)

lemma route_announce_ends:
  assumes ok: "cp_ok cp" and n: "n \<le> int (length payload)"
  shows "ev_ends G cp (CpHandleRouteAnnounce cp fd payload n)"
proof (cases "cp_relay_table cp")
  case None
  then show ?thesis using ev_ends_same [OF ok] by (simp add: CpHandleRouteAnnounce_def)
next
  case (Some rt)
  obtain ids hops c where p: "HdParseRouteAnnounce payload n (replicate 256 0) (replicate 256 0) 256 = Some (ids, hops, c)"
    using HdParseRouteAnnounce_defined [OF n, of 256 "replicate 256 0" "replicate 256 0"] by auto
  have "relay_inv (learn_routes_loop es src fd rt)" for es src
    using learn_routes_inv ok Some by (simp add: cp_ok_def)
  then show ?thesis
    using Some p ev_ends_same [OF ok] ev_ends_routes [OF ok] by (simp add: CpHandleRouteAnnounce_def Let_def)
qed

section \<open>Any sequence of events\<close>

lemma process_frame_ends:
  assumes ok: "cp_ok cp" and srt: "std_sort srt" and env: "sock_progress env" and n: "n \<le> int (length payload)"
  shows "ev_ends (mesh_fd (Ev_frame env fd type payload n)) cp (CpProcessFrame env srt cp fd type payload n)"
proof -
  have inv: "cp_inv cp" "oc_inv cp" using ok by (simp_all add: cp_ok_def)
  note derp = ev_ends_derp [OF ok derp_frame_ends(1) [OF inv(1) n]] ev_ends_derp [OF ok derp_frame_ends(2) [OF inv(1) n]]
    ev_ends_derp [OF ok derp_frame_ends(3) [OF inv(1) n]] ev_ends_derp [OF ok derp_frame_ends(4) [OF inv(1) n]]
    ev_ends_derp [OF ok derp_frame_ends(5) [OF inv(1) n]] ev_ends_same [OF ok]
  have fleet: "ev_ends {fd} cp (CpHandleFleetOpenConnection env cp fd payload n)"
    by (rule ev_ends_oc [OF ok CpHandleFleetOpenConnection_ends [OF env n]]) simp
  note oc = ev_ends_oc [OF ok CpHandleOpenConnection_ends [OF env inv n]]
    ev_ends_oc [OF ok CpHandleIncomingConnResponse_ends [OF env inv(2) n]]
    ev_ends_oc [OF ok CpHandleFleetOpenConnectionResult_ends [OF env n]]
    peer_info_ends [OF ok srt n] route_announce_ends [OF ok n]
  show ?thesis
  proof (cases "FrameType_byte type = HdFrameType_byte HdFrame_kFleetOpenConnection")
    case True
    then show ?thesis using fleet by (simp add: CpProcessFrame_def)
  next
    case False
    then show ?thesis using oc derp by (simp add: CpProcessFrame_def split: FrameType.split)
  qed
qed

lemma cp_handle_ends:
  assumes ok: "cp_ok cp" and srt: "std_sort srt" and ev: "ev_ok cp ev"
  shows "ev_ends (mesh_fd ev) cp (cp_handle srt ev cp)"
proof (cases ev)
  case (Ev_frame env fd type payload n)
  then show ?thesis using process_frame_ends [OF ok srt, of env n payload fd type] ev by simp
next
  case (Ev_open_timer env)
  then have "oc_ends {} cp (ScanOpenConnTimeouts env cp)"
    using scan_timeouts_ends [of env cp "[0..<256]" "{}"] ok ev
    by (simp add: ScanOpenConnTimeouts_def kCpMaxOpenConns_def cp_ok_def oc_inv_def del: upt_rec_numeral)
  then show ?thesis using Ev_open_timer ev_ends_oc [OF ok] by simp
next
  case (Ev_connect k fd)
  then show ?thesis
    using ev ok ev_ends_derp [OF ok derp_connect_ends(1)] by (simp add: CpOnPeerConnect_def cp_ok_def)
next
  case (Ev_gone k fd r)
  then show ?thesis
    using ev ok ev_ends_derp [OF ok derp_connect_ends(2)] by (simp add: CpOnPeerGone_def cp_ok_def)
qed (use ok ev ice_timer_ends stun_ends route_timer_ends in simp_all)

lemma ev_ok_agent: "(cp_ice_agent cp' = None \<longleftrightarrow> cp_ice_agent cp = None) \<Longrightarrow> ev_ok cp' ev = ev_ok cp ev"
  by (cases ev) auto

lemma cp_run_ends:
  assumes "cp_ok cp" "std_sort srt" "\<forall>ev \<in> set evs. ev_ok cp ev"
  shows "ev_ends (\<Union>ev \<in> set evs. mesh_fd ev) cp (cp_run srt evs cp)"
  using assms
proof (induction evs arbitrary: cp)
  case (Cons ev evs)
  obtain cp1 where 1: "cp_handle srt ev cp = Some cp1" "cp_ok cp1" "cp_ice_agent cp1 = None \<longleftrightarrow> cp_ice_agent cp = None"
    "\<And>fd. valid_fd fd \<Longrightarrow> fd \<notin> mesh_fd ev \<Longrightarrow> oc_exact cp fd \<Longrightarrow> oc_exact cp1 fd"
    using cp_handle_ends [of cp srt ev] Cons.prems by (auto simp: ev_ends_def)
  have "\<forall>ev \<in> set evs. ev_ok cp1 ev" using Cons.prems(3) ev_ok_agent [OF 1(3)] by simp
  from Cons.IH [OF 1(2) Cons.prems(2) this] show ?case using 1 by (auto simp: ev_ends_def)
qed (simp add: ev_ends_same)


section \<open>What an announcement teaches\<close>

lemma finite_relay_view [simp]: "finite (dom (relay_view rt))"
  by (rule finite_subset [of _ "re_relay_id ` set (rt_entries rt)"])
    (auto simp: relay_view_lookup RelayTableLookup_def dest!: scan_SomeD)

lemma learn_routes_Cons:
  "learn_routes_loop (r # es) src fd rt = learn_routes_loop es src fd
     (if fst r = rt_self_id rt \<or> snd r + 1 \<ge> 255 then rt else RelayTableUpdateRoute rt (fst r) (snd r + 1) src fd)"
  by (cases r) (simp add: Let_def)

lemma learn_routes_keep:
  "relay_inv rt \<Longrightarrow> relay_view rt j = Some e \<Longrightarrow>
    \<exists>e'. relay_view (learn_routes_loop es src fd rt) j = Some e' \<and> re_hops e' \<le> re_hops e"
proof (induction es arbitrary: rt e)
  case (Cons r es)
  obtain e1 where "relay_view (RelayTableUpdateRoute rt (fst r) (snd r + 1) src fd) j = Some e1" "re_hops e1 \<le> re_hops e"
    using RelayTableUpdateRoute_view(1) [OF Cons.prems] by blast
  then show ?case
    using Cons.IH [OF Cons.prems] Cons.IH [OF RelayTableUpdateRoute_inv [OF Cons.prems(1)]]
    by (cases "fst r = rt_self_id rt \<or> snd r + 1 \<ge> 255") (force simp: learn_routes_Cons, simp add: learn_routes_Cons, meson order_trans)
qed simp

lemma learn_routes_sound:
  "relay_inv rt \<Longrightarrow> relay_view (learn_routes_loop es src fd rt) j = Some e' \<Longrightarrow>
    (\<exists>e. relay_view rt j = Some e \<and> route_of e = route_of e') \<or> (\<exists>h. (j, h) \<in> set es \<and> route_of e' = (h + 1, src, fd))"
proof (induction es arbitrary: rt)
  case (Cons r es)
  show ?case
  proof (cases "fst r = rt_self_id rt \<or> snd r + 1 \<ge> 255")
    case True
    then show ?thesis using Cons by (auto simp: learn_routes_Cons)
  next
    case False
    let ?rt = "RelayTableUpdateRoute rt (fst r) (snd r + 1) src fd"
    have "(\<exists>e. relay_view ?rt j = Some e \<and> route_of e = route_of e') \<or> (\<exists>h. (j, h) \<in> set es \<and> route_of e' = (h + 1, src, fd))"
      using Cons.IH [OF RelayTableUpdateRoute_inv [OF Cons.prems(1)]] Cons.prems(2) False by (simp add: learn_routes_Cons)
    then show ?thesis
      using RelayTableUpdateRoute_view(2) [OF Cons.prems(1), of "fst r" "snd r + 1" src fd j] by (cases r) fastforce
  qed
qed simp

lemma learn_routes_complete:
  "relay_inv rt \<Longrightarrow> (k, h) \<in> set es \<Longrightarrow> k \<noteq> 0 \<Longrightarrow> k \<noteq> rt_self_id rt \<Longrightarrow> h + 1 < 255 \<Longrightarrow>
    card (dom (relay_view (learn_routes_loop es src fd rt))) < kMaxRelays \<Longrightarrow>
    \<exists>e'. relay_view (learn_routes_loop es src fd rt) k = Some e' \<and> re_hops e' \<le> h + 1"
proof (induction es arbitrary: rt)
  case (Cons r es)
  let ?rt = "RelayTableUpdateRoute rt (fst r) (snd r + 1) src fd"
  note inv = RelayTableUpdateRoute_inv [OF Cons.prems(1)]
  show ?case
  proof (cases "r = (k, h)")
    case True
    have l: "learn_routes_loop (r # es) src fd rt = learn_routes_loop es src fd ?rt"
      using True Cons.prems(4,5) by (simp add: learn_routes_Cons not_le)
    have "dom (relay_view ?rt) \<subseteq> dom (relay_view (learn_routes_loop es src fd ?rt))"
      using learn_routes_keep [OF inv] by fastforce
    then have "card (dom (relay_view ?rt)) \<noteq> kMaxRelays"
      using Cons.prems(6) card_mono [OF finite_relay_view] unfolding l by (metis leD)
    then obtain e1 where "relay_view ?rt k = Some e1" "re_hops e1 \<le> h + 1"
      using RelayTableUpdateRoute_view(3) [OF Cons.prems(1), of "fst r" "snd r + 1" src fd] Cons.prems(3,4) True by auto
    then show ?thesis using learn_routes_keep [OF inv] unfolding l by (meson order_trans)
  next
    case False
    then show ?thesis using Cons inv by (auto simp: learn_routes_Cons split: if_splits)
  qed
qed simp

lemma HdParseRouteAnnounce_256:
  obtains ids hops c where "HdParseRouteAnnounce (route_payload es) (int (3 * length es)) (replicate 256 0) (replicate 256 0) 256 =
      Some (ids, hops, c)" "take (nat c) (zip ids hops) = take 256 es"
proof (cases "length es \<le> 256")
  case True
  have "HdParseRouteAnnounce (route_payload es) (int (3 * length es)) (replicate 256 0) (replicate 256 0) 256 =
      Some (map fst es @ drop (length es) (replicate 256 0), map snd es @ drop (length es) (replicate 256 0), int (length es))"
    by (rule HdParseRouteAnnounce_read [unfolded length_route_payload]) (use True in simp_all)
  moreover have "zip (map fst es @ x) (map snd es @ y) = es @ zip x y" for x :: "u16 list" and y :: "u8 list"
    by (simp add: zip_map_fst_snd)
  ultimately show ?thesis using that True by simp
next
  case False
  then have "HdParseRouteAnnounce (route_payload es) (int (3 * length es)) (replicate 256 0) (replicate 256 0) 256 =
      Some (map fst (take 256 es), map snd (take 256 es), 256)"
    using HdParseRouteAnnounce_read_prefix [of 256 es 256 "replicate 256 0" "replicate 256 0"] by simp
  then show ?thesis using that False by (simp add: zip_map_fst_snd)
qed


text \<open>
  The increment of an announced hop count is in eight bits: a route announced as unreachable
  (255) passes the poison check as 0 hops and is installed as the best route there is.
\<close>

theorem route_poison_wraps:
  assumes b: "cp_relay_table cp = Some rtb" "relay_inv rtb" "card (dom (relay_view rtb)) < kMaxRelays"
    and nb: "scan (\<lambda>e. re_occupied e = 1 \<and> re_fd e = fd) (rt_entries rtb) = Some i"
    and k: "k \<noteq> 0" "k \<noteq> rt_self_id rtb" "relay_view rtb k = None"
  shows "\<exists>rt' e. CpHandleRouteAnnounce cp fd (route_payload [(k, 255)]) 3 = Some (cp\<lparr>cp_relay_table := Some rt'\<rparr>) \<and>
    relay_view rt' k = Some e \<and> re_hops e = 0"
proof -
  let ?src = "re_relay_id (rt_entries rtb ! i)"
  have "rt_entries rtb ! i \<in> set (rt_entries rtb)" "relay_live (rt_entries rtb ! i)"
    using scan_SomeD [OF nb] by auto
  then have src: "?src \<noteq> 0" using b(2) by (auto simp: relay_inv_def list_all_iff)
  obtain ids hops c where p: "HdParseRouteAnnounce (route_payload [(k, 255)]) (int (3 * length [(k, 255 :: u8)]))
      (replicate 256 0) (replicate 256 0) 256 = Some (ids, hops, c)" "take (nat c) (zip ids hops) = take 256 [(k, 255)]"
    by (rule HdParseRouteAnnounce_256)
  moreover have w: "(256 :: u8) = 0" by simp
  ultimately have "CpHandleRouteAnnounce cp fd (route_payload [(k, 255)]) 3 =
      Some (cp\<lparr>cp_relay_table := Some (RelayTableUpdateRoute rtb k 0 ?src fd)\<rparr>)"
    using b(1) nb k(2) src by (simp add: CpHandleRouteAnnounce_def Let_def w)
  then show ?thesis
    using RelayTableUpdateRoute_new [OF b(2) k, of 0 ?src fd] b(3) by (auto simp: route_of_def)
qed

section \<open>Who may remove a peer\<close>

text \<open>
  C40: A \<^verbatim>\<open>PeerGone\<close> frame is obeyed whoever sent it: workers pass every frame that is not a packet to
  the control plane, so a client that names another client's key removes it from the registry,
  and the data plane is told to close it. Nothing compares the key with the sender's.
\<close>

theorem cp_any_peer_evicts:
  assumes inv: "cp_inv cp" "cp_uniq cp" and k: "is_Key k"
  shows "\<exists>cp'. CpProcessFrame env srt cp fd Frame_kPeerGone k 32 = Some cp' \<and>
    cp_map cp' = (cp_map cp)(k := None) \<and> last (cp_calls cp') = Call_DpRemovePeer k"
proof -
  let ?cp = "CpRemoveWatcher (CpRegistryRemove cp k) fd"
  have same: "cp_map cp2 = cp_map cp1 \<and> cp_uniq cp2 = cp_uniq cp1" if "cp_peers cp2 = cp_peers cp1" for cp1 cp2
    using that by (simp add: cp_map_def cp_uniq_def CpRegistryLookup_def fun_eq_iff)
  note r1 = CpRegistryRemove_inv [OF inv(1), of k] CpRegistryRemove_map [OF inv, of k]
  have w: "cp_peers ?cp = cp_peers (CpRegistryRemove cp k)"
    by (simp add: CpRemoveWatcher_def Let_def split: option.split)
  have "cp_uniq ?cp" "cp_map ?cp = (cp_map cp)(k := None)" using same [OF w] r1 by simp_all
  then have "cp_map (CpRegistryRemove ?cp k) = (cp_map cp)(k := None)"
    using CpRegistryRemove_map(2) [of ?cp k] CpRemoveWatcher_spec(1) [OF r1(1), of fd] by simp
  moreover have "cp_map (emit_all cs (CpRegistryRemove ?cp k)) = cp_map (CpRegistryRemove ?cp k)" for cs
    using same [of "emit_all cs (CpRegistryRemove ?cp k)" "CpRegistryRemove ?cp k"] by (simp add: emit_all_def)
  moreover have "ToKey k = Some k" using k ToKey_payload [of 32 k] by (simp add: is_Key_def)
  ultimately show ?thesis
    using DoDisconnect_eq [OF r1(1) k, of fd Gone_kDisconnected]
    by (simp add: CpProcessFrame_def HandlePeerGone_def Let_def)
qed

section \<open>A concrete run\<close>

text \<open>Relay 1 has relay 2 as its neighbour on socket 9; relay 2 has a link to relay 5.\<close>

definition example_linked :: RelayTable where
  "example_linked = fst (RelayTableAdd example_table 2 9 key_b None)"

definition example_far :: RelayTable where
  "example_far = fst (RelayTableAdd (example_table\<lparr>rt_self_id := 2\<rparr>) 5 7 key_a None)"

definition example_relay_cp :: ControlPlane where
  "example_relay_cp = example_open_cp\<lparr>cp_relay_table := Some example_linked\<rparr>"

lemma example_entries: "rt_entries example_table = RelayEntry_init # replicate 4095 RelayEntry_init"
  by (simp add: example_table_def RelayTableInit_def kMaxRelays_def flip: replicate_Suc)

lemma example_tables:
  "rt_entries example_linked = RelayEntry_init\<lparr>re_relay_id := 2, re_fd := 9, re_key := key_b, re_hops := 1,
     re_next_hop := 2, re_occupied := 1\<rparr> # replicate 4095 RelayEntry_init"
  "rt_entries example_far = RelayEntry_init\<lparr>re_relay_id := 5, re_fd := 7, re_key := key_a, re_hops := 1,
     re_next_hop := 5, re_occupied := 1\<rparr> # replicate 4095 RelayEntry_init"
  "rt_self_id example_linked = 1" "rt_self_id example_far = 2"
proof -
  have n: "(replicate 64 0)[0 := 0] = (replicate 64 0 :: bytes)" by (simp add: list_update_same_conv)
  have self: "rt_self_id example_table = 1" by (simp add: example_table_def RelayTableInit_def)
  show "rt_entries example_linked = RelayEntry_init\<lparr>re_relay_id := 2, re_fd := 9, re_key := key_b, re_hops := 1,
       re_next_hop := 2, re_occupied := 1\<rparr> # replicate 4095 RelayEntry_init" "rt_self_id example_linked = 1"
    using n self by (simp_all add: example_linked_def RelayTableAdd_def example_entries RelayEntry_init_def Let_def)
  show "rt_entries example_far = RelayEntry_init\<lparr>re_relay_id := 5, re_fd := 7, re_key := key_a, re_hops := 1,
       re_next_hop := 5, re_occupied := 1\<rparr> # replicate 4095 RelayEntry_init" "rt_self_id example_far = 2"
    using n by (simp_all add: example_far_def RelayTableAdd_def example_entries RelayEntry_init_def Let_def)
qed

lemma example_tables_inv: "relay_inv example_linked" "relay_inv example_far"
proof -
  have i: "relay_inv example_table" and v: "relay_view example_table = Map.empty"
    by (simp_all add: example_table_def RelayTableInit_inv)
  have j: "relay_inv (example_table\<lparr>rt_self_id := 2\<rparr>)" "relay_view (example_table\<lparr>rt_self_id := 2\<rparr>) = Map.empty"
    using i v by (simp_all add: relay_inv_def relay_view_def)
  show "relay_inv example_linked"
    using RelayTableAdd_spec [OF i, of 2 9 key_b None] v by (auto simp: example_linked_def kMaxRelays_def)
  show "relay_inv example_far"
    using RelayTableAdd_spec [OF j(1), of 5 7 key_a None] j(2) by (auto simp: example_far_def kMaxRelays_def)
qed

lemma example_announced: "announced example_far = [(5, 1), (2, 0)]"
  by (simp add: announced_def example_tables kMaxRelays_def RelayEntry_init_def)


lemma example_relay_cp_ok: "cp_ok example_relay_cp"
proof -
  have "cp_ice_agent (fst (CpRegistryInsert cp k fd)) = cp_ice_agent cp" for cp k fd
    using cp_rest_simps(2) [of cp k fd] by (simp add: cp_rest_def)
  then have "cp_ice_agent example_open_cp = None" by (simp add: example_open_cp_def example_cp_def)
  then show ?thesis
    using example_open_cp_ok(1,2) example_tables_inv(1)
    by (simp add: cp_ok_def example_relay_cp_def cp_inv_def oc_inv_def pending_def)
qed


theorem cp_any_peer_evicts_witness:
  "\<exists>cp'. CpProcessFrame example_env ice_sort example_cp 5 Frame_kPeerGone key_b 32 = Some cp' \<and>
    last (cp_calls cp') = Call_DpRemovePeer key_b"
proof -
  have "is_Key key_b" by (simp add: key_b_def is_Key_def)
  from cp_any_peer_evicts [OF example_cp_ok(1,2) this, of example_env ice_sort 5] show ?thesis by blast
qed

end
