(* ===== verification/Cp_Pipe.thy ===== *)
theory Cp_Pipe
  imports Cp_Safety "HOL-Library.Sublist"
begin

text \<open>
  The pipe between a worker and the control plane carries a stream of messages; reads cut it
  anywhere. The reader of \<^verbatim>\<open>CpRunLoop\<close> puts them together again: each message reaches its handler
  once, in order, and with its whole payload.
\<close>

section \<open>Messages\<close>

text \<open>The socket, the frame type and the payload, as \<^verbatim>\<open>ForwardMsg\<close> writes them.\<close>

type_synonym pipe_message = "int \<times> u8 \<times> bytes"

fun pipe_msg :: "pipe_message \<Rightarrow> bytes" where
  "pipe_msg (fd, ty, p) = be32 (word_of_int fd) @ ty # be32 (word_of_int (int (length p))) @ p"

fun pipe_msg_ok :: "pipe_message \<Rightarrow> bool" where
  "pipe_msg_ok (fd, ty, p) \<longleftrightarrow> - (2 ^ 31) \<le> fd \<and> fd < 2 ^ 31 \<and> length p \<le> 65591"

lemma length_pipe_msg [simp]: "length (pipe_msg (fd, ty, p)) = 9 + length p"
  by simp

declare pipe_msg.simps [simp del]

lemma pipe_msg_size: "9 \<le> length (pipe_msg m)" "pipe_msg_ok m \<Longrightarrow> length (pipe_msg m) \<le> 65600"
  by (cases m; simp)+

lemma sint_of_int32: "- (2 ^ 31) \<le> x \<Longrightarrow> x < 2 ^ 31 \<Longrightarrow> sint (word_of_int x :: u32) = x"
  by (simp add: signed_take_bit_int_eq_self sint_sbintrunc')

lemma read_int_be32:
  assumes "off = int (length pre)" "- (2 ^ 31) \<le> x" "x < 2 ^ 31"
  shows "read_int (pre @ be32 (word_of_int x) @ rest) off = Some x"
  using assms sint_of_int32 [of x]
  by (simp add: read_int_def rd8_def be32_def nth_append nat_add_distrib)

text \<open>The fields of a message at the start of the buffer.\<close>

lemma read_header:
  assumes "pipe_msg_ok (fd, ty, p)" and "take 9 buf = take 9 (pipe_msg (fd, ty, p))"
  shows "read_int buf 0 = Some fd" "rd8 4 buf = Some ty" "read_int buf 5 = Some (int (length p))"
proof -
  have "take 9 (pipe_msg (fd, ty, p)) = be32 (word_of_int fd) @ [ty] @ be32 (word_of_int (int (length p)))" by (simp add: pipe_msg.simps)
  then have b: "buf = be32 (word_of_int fd) @ [ty] @ be32 (word_of_int (int (length p))) @ drop 9 buf"
    using assms(2) append_take_drop_id [of 9 buf] by simp
  show "read_int buf 0 = Some fd"
    using read_int_be32 [of 0 "[]" fd "[ty] @ be32 (word_of_int (int (length p))) @ drop 9 buf"] assms(1) b by simp
  show "rd8 4 buf = Some ty" by (subst b) (simp add: rd8_def nth_append)
  show "read_int buf 5 = Some (int (length p))"
    using read_int_be32 [of 5 "be32 (word_of_int fd) @ [ty]" "int (length p)" "drop 9 buf"] assms(1) b by simp
qed

section \<open>The message loop\<close>

lemma pipe_messages_next:
  assumes ok: "pipe_msg_ok (fd, ty, p)" and buf: "pr_buf rdr = pipe_msg (fd, ty, p) @ v @ w"
    and len: "pr_len rdr = int (length (pipe_msg (fd, ty, p) @ v))"
  shows "pipe_messages env srt rdr cp = do {
    cp \<leftarrow> CpProcessFrame env srt cp fd (FrameType_of ty) (p @ v @ w) (int (length p));
    pipe_messages env srt \<lparr>pr_buf = v @ drop (length v) (pr_buf rdr), pr_len = int (length v)\<rparr> cp }"
proof -
  have h: "take 9 (pr_buf rdr) = take 9 (pipe_msg (fd, ty, p))" using buf by simp
  note f = read_header [OF ok h]
  have d: "drop 9 (pr_buf rdr) = p @ v @ w" by (simp add: buf pipe_msg.simps)
  have m: "(if 0 < int (length v) then memcpy 0 (pr_buf rdr) (9 + int (length p)) (int (length v)) (pr_buf rdr)
      else Some (pr_buf rdr)) = Some (v @ drop (length v) (pr_buf rdr))"
    by (auto simp: buf memcpy_defined wr_0 nat_add_distrib)
  show ?thesis
    using f d m len ok by (subst pipe_messages.simps) (simp add: Let_def split del: if_split)
qed

lemma pipe_messages_stop:
  assumes ok: "pipe_msg_ok m" and buf: "pr_buf rdr = v @ w" "pr_len rdr = int (length v)"
    and part: "strict_prefix v (pipe_msg m)"
  shows "pipe_messages env srt rdr cp = Some (rdr, cp)"
proof (cases "length v < 9")
  case True
  then show ?thesis using buf by (subst pipe_messages.simps) simp
next
  case False
  obtain fd ty p where m: "m = (fd, ty, p)" by (cases m)
  obtain t where t: "pipe_msg m = v @ t" "t \<noteq> []" using part by (auto simp: strict_prefix_def prefix_def)
  have "take 9 (pr_buf rdr) = take 9 (pipe_msg m)" using t(1) buf(1) False by simp
  note f = read_header [OF ok [unfolded m] this [unfolded m]]
  have "length (pipe_msg m) = length v + length t" "0 < length t" using t by auto
  then have "length v < 9 + length p" by (simp add: m)
  then show ?thesis using f buf(2) False ok m by (subst pipe_messages.simps) (simp add: Let_def)
qed

text \<open>An event that hands a message to its handler: its payload comes first in the buffer.\<close>

fun delivers :: "pipe_message \<Rightarrow> cp_event \<Rightarrow> bool" where
  "delivers (fd, ty, p) (Ev_frame env fd' ty' p' n) \<longleftrightarrow>
     fd' = fd \<and> ty' = FrameType_of ty \<and> n = int (length p) \<and> take (length p) p' = p"
| "delivers m _ \<longleftrightarrow> False"

definition incomplete :: "pipe_message list \<Rightarrow> bytes \<Rightarrow> bool" where
  "incomplete ms v \<longleftrightarrow> (case ms of [] \<Rightarrow> v = [] | m # _ \<Rightarrow> strict_prefix v (pipe_msg m))"

definition holds :: "PipeReader \<Rightarrow> bytes \<Rightarrow> bool" where
  "holds rdr v \<longleftrightarrow> length (pr_buf rdr) = 65600 \<and> pr_len rdr = int (length v) \<and> take (length v) (pr_buf rdr) = v"

lemma pipe_messages_run:
  assumes "cp_ok cp" "std_sort srt" "sock_progress env" "list_all pipe_msg_ok (ms @ rest)"
    and "holds rdr (concat (map pipe_msg ms) @ v)" "incomplete rest v"
  shows "\<exists>rdr' cp' evs. pipe_messages env srt rdr cp = Some (rdr', cp') \<and> holds rdr' v \<and> cp_ok cp' \<and>
    cp_run srt evs cp = Some cp' \<and> list_all2 delivers ms evs"
  using assms
proof (induction ms arbitrary: cp rdr)
  case Nil
  have h: "pr_buf rdr = v @ drop (length v) (pr_buf rdr)" "pr_len rdr = int (length v)"
    using Nil.prems(5) append_take_drop_id [of "length v" "pr_buf rdr"] by (simp_all add: holds_def)
  have "pipe_messages env srt rdr cp = Some (rdr, cp)"
  proof (cases rest)
    case Nil
    then show ?thesis using \<open>incomplete rest v\<close> h(2) by (subst pipe_messages.simps) (simp add: incomplete_def)
  next
    case (Cons m r)
    then show ?thesis using pipe_messages_stop [OF _ h, of m] Nil.prems(4,6) by (simp add: incomplete_def)
  qed
  then show ?case using Nil.prems by (auto intro!: exI [of _ "[]"])
next
  case (Cons m ms)
  obtain fd ty p where m: "m = (fd, ty, p)" by (cases m)
  let ?v = "concat (map pipe_msg ms) @ v" and ?w = "drop (length (pipe_msg m @ concat (map pipe_msg ms) @ v)) (pr_buf rdr)"
  have h: "pr_buf rdr = pipe_msg (fd, ty, p) @ ?v @ ?w" "pr_len rdr = int (length (pipe_msg (fd, ty, p) @ ?v))"
    using Cons.prems(5) append_take_drop_id [of "length (pipe_msg m @ ?v)" "pr_buf rdr"] by (simp_all add: holds_def m)
  let ?ev = "Ev_frame env fd (FrameType_of ty) (p @ ?v @ ?w) (int (length p))"
  have "ev_ok cp ?ev" using Cons.prems(3) by simp
  then obtain cp1 where 1: "cp_handle srt ?ev cp = Some cp1" "cp_ok cp1"
    using cp_handle_ends [OF Cons.prems(1,2), of ?ev] by (auto simp: ev_ends_def)
  let ?rdr = "\<lparr>pr_buf = ?v @ drop (length ?v) (pr_buf rdr), pr_len = int (length ?v)\<rparr>"
  have "length ?v \<le> length (pr_buf rdr)" using arg_cong [OF h(1), of length] by simp
  then have "holds ?rdr ?v" using Cons.prems(5) by (simp add: holds_def)
  from Cons.IH [OF 1(2) Cons.prems(2,3) _ this Cons.prems(6)] Cons.prems(4)
  obtain rdr' cp' evs where r: "pipe_messages env srt ?rdr cp1 = Some (rdr', cp')" "holds rdr' v" "cp_ok cp'"
    "cp_run srt evs cp1 = Some cp'" "list_all2 delivers ms evs" by auto
  have "pipe_messages env srt rdr cp = Some (rdr', cp')"
    using pipe_messages_next [OF _ h] Cons.prems(4) 1(1) r(1) by (simp add: m)
  moreover have "cp_run srt (?ev # evs) cp = Some cp'" "list_all2 delivers (m # ms) (?ev # evs)"
    using 1(1) r(4,5) by (simp_all add: m)
  ultimately show ?case using r(2,3) by blast
qed

section \<open>Reads\<close>

text \<open>A prefix of the stream is a number of whole messages and a part of the next one.\<close>

lemma stream_split:
  assumes "prefix u (concat (map pipe_msg ms))"
  obtains j v where "u = concat (map pipe_msg (take j ms)) @ v" "incomplete (drop j ms) v" "j \<le> length ms"
  using assms
proof (induction ms arbitrary: u thesis)
  case Nil
  then show ?case by (auto simp: incomplete_def)
next
  case (Cons m ms)
  show ?case
  proof (cases "prefix (pipe_msg m) u")
    case True
    then obtain u' where u: "u = pipe_msg m @ u'" by (auto simp: prefix_def)
    with Cons.prems(2) have "prefix u' (concat (map pipe_msg ms))" by simp
    then obtain j v where "u' = concat (map pipe_msg (take j ms)) @ v" "incomplete (drop j ms) v" "j \<le> length ms"
      using Cons.IH by blast
    then show ?thesis using Cons.prems(1) [of "Suc j" v] u by simp
  next
    case False
    then have "strict_prefix u (pipe_msg m)" using Cons.prems(2) prefix_same_cases [of u "pipe_msg m @ concat (map pipe_msg ms)" "pipe_msg m"]
      by (auto simp: strict_prefix_def)
    then show ?thesis using Cons.prems(1) [of 0 u] by (simp add: incomplete_def)
  qed
qed

text \<open>
  The reads of one pipe: \<open>stream\<close> is what is still in it, and a read with room for \<open>avail\<close> bytes
  returns up to \<open>n\<close> of them, at its own time and with its own sockets.
\<close>

fun pipe_reads :: "pair_sort \<Rightarrow> (cp_env \<times> nat) list \<Rightarrow> bytes \<Rightarrow> PipeReader \<Rightarrow> ControlPlane \<Rightarrow>
    (bytes \<times> PipeReader \<times> ControlPlane) ub" where
  "pipe_reads srt [] stream rdr cp = Some (stream, rdr, cp)"
| "pipe_reads srt ((env, n) # rs) stream rdr cp =
     (let got = min n (nat (kPipeBufSize - pr_len rdr)) in do {
        (rdr, cp) \<leftarrow> pipe_readable env srt rdr cp (take got stream);
        pipe_reads srt rs (drop got stream) rdr cp })"

lemma incomplete_room: "list_all pipe_msg_ok ms \<Longrightarrow> incomplete ms v \<Longrightarrow> length v < 65600"
  using pipe_msg_size(2) [of "hd ms"]
  by (auto simp: incomplete_def neq_Nil_conv dest!: prefix_length_less split: list.splits)

lemma pipe_readable_run:
  assumes ok: "cp_ok cp" "std_sort srt" "sock_progress env" "list_all pipe_msg_ok ms"
    and held: "holds rdr u" "incomplete ms u"
    and chunk: "prefix (u @ chunk) (concat (map pipe_msg ms))" "length u + length chunk \<le> 65600"
  shows "\<exists>rdr' cp' evs j v. pipe_readable env srt rdr cp chunk = Some (rdr', cp') \<and> holds rdr' v \<and> cp_ok cp' \<and>
    cp_run srt evs cp = Some cp' \<and> list_all2 delivers (take j ms) evs \<and>
    u @ chunk = concat (map pipe_msg (take j ms)) @ v \<and> incomplete (drop j ms) v \<and> j \<le> length ms"
proof -
  have u: "pr_len rdr = int (length u)" "length u < 65600"
    using held incomplete_room [OF ok(4)] by (simp_all add: holds_def)
  show ?thesis
  proof (cases "chunk = []")
    case True
    then have "pipe_readable env srt rdr cp chunk = Some (rdr, cp)" using u by (simp add: pipe_readable_def)
    then show ?thesis using True held ok(1) by (intro exI [of _ rdr] exI [of _ cp] exI [of _ "[]"] exI [of _ 0] exI [of _ u]) simp
  next
    case False
    obtain j v where j: "u @ chunk = concat (map pipe_msg (take j ms)) @ v" "incomplete (drop j ms) v" "j \<le> length ms"
      using stream_split [OF chunk(1)] .
    let ?buf = "u @ chunk @ drop (length u + length chunk) (pr_buf rdr)"
    have w: "wr (pr_len rdr) chunk (pr_buf rdr) = Some ?buf"
      using held(1) chunk(2) by (simp add: holds_def wr_def)
    have h: "holds \<lparr>pr_buf = ?buf, pr_len = int (length (u @ chunk))\<rparr> (u @ chunk)"
      using held(1) chunk(2) by (simp add: holds_def)
    have "list_all pipe_msg_ok (take j ms @ drop j ms)" using ok(4) by simp
    from pipe_messages_run [OF ok(1-3) this h [unfolded j(1)] j(2)] obtain rdr' cp' evs where
      r: "pipe_messages env srt \<lparr>pr_buf = ?buf, pr_len = int (length (u @ chunk))\<rparr> cp = Some (rdr', cp')" "holds rdr' v"
        "cp_ok cp'" "cp_run srt evs cp = Some cp'" "list_all2 delivers (take j ms) evs"
      unfolding j(1) by blast
    have "pipe_readable env srt rdr cp chunk = Some (rdr', cp')"
      using False u w r(1) by (simp add: pipe_readable_def)
    then show ?thesis using r(2-5) j by blast
  qed
qed

lemma cp_run_append: "cp_run srt (es @ fs) cp = do { cp \<leftarrow> cp_run srt es cp; cp_run srt fs cp }"
  by (induction es arbitrary: cp) (auto split: bind_splits)

lemma pipe_reads_run:
  assumes "cp_ok cp" "std_sort srt" "\<forall>(env, n) \<in> set rs. sock_progress env \<and> 0 < n" "list_all pipe_msg_ok ms"
    and "holds rdr u" "incomplete ms u" "u @ stream = concat (map pipe_msg ms)"
  shows "\<exists>left rdr' cp' evs j v. pipe_reads srt rs stream rdr cp = Some (left, rdr', cp') \<and> holds rdr' v \<and> cp_ok cp' \<and>
    cp_run srt evs cp = Some cp' \<and> list_all2 delivers (take j ms) evs \<and> j \<le> length ms \<and>
    v @ left = concat (map pipe_msg (drop j ms)) \<and> incomplete (drop j ms) v \<and> length left \<le> length stream - length rs"
  using assms
proof (induction rs arbitrary: cp rdr u ms stream)
  case Nil
  then show ?case
    by (intro exI [of _ stream] exI [of _ rdr] exI [of _ cp] exI [of _ "[]"] exI [of _ 0] exI [of _ u]) simp
next
  case (Cons r rs)
  obtain env n where r: "r = (env, n)" by (cases r)
  let ?got = "min n (nat (65600 - pr_len rdr))"
  have u: "pr_len rdr = int (length u)" "length u < 65600"
    using Cons.prems incomplete_room by (simp_all add: holds_def)
  have pre: "prefix (u @ take ?got stream) (concat (map pipe_msg ms))"
    unfolding Cons.prems(7) [symmetric] by (simp add: take_is_prefix)
  have env: "sock_progress env" "0 < n" using Cons.prems(3) r by auto
  obtain rdr1 cp1 evs1 j v where 1: "pipe_readable env srt rdr cp (take ?got stream) = Some (rdr1, cp1)" "holds rdr1 v"
    "cp_ok cp1" "cp_run srt evs1 cp = Some cp1" "list_all2 delivers (take j ms) evs1"
    "u @ take ?got stream = concat (map pipe_msg (take j ms)) @ v" "incomplete (drop j ms) v" "j \<le> length ms"
    using pipe_readable_run [OF Cons.prems(1,2) env(1) Cons.prems(4-6) pre] u by fastforce
  have "concat (map pipe_msg (take j ms)) @ v @ drop ?got stream = concat (map pipe_msg (take j ms)) @ concat (map pipe_msg (drop j ms))"
    using Cons.prems(7) 1(6) by (metis append.assoc append_take_drop_id concat_append map_append)
  then have s: "v @ drop ?got stream = concat (map pipe_msg (drop j ms))" by simp
  have ms: "list_all pipe_msg_ok (drop j ms)" using Cons.prems(4) by (metis append_take_drop_id list_all_append)
  have rs: "\<forall>(env, n) \<in> set rs. sock_progress env \<and> 0 < n" using Cons.prems(3) by simp
  from Cons.IH [OF 1(3) Cons.prems(2) rs ms 1(2,7) s]
  obtain left rdr' cp' evs i v' where 2: "pipe_reads srt rs (drop ?got stream) rdr1 cp1 = Some (left, rdr', cp')"
    "holds rdr' v'" "cp_ok cp'" "cp_run srt evs cp1 = Some cp'" "list_all2 delivers (take i (drop j ms)) evs"
    "i \<le> length (drop j ms)" "v' @ left = concat (map pipe_msg (drop i (drop j ms)))" "incomplete (drop i (drop j ms)) v'"
    "length left \<le> length (drop ?got stream) - length rs" by blast
  have "pipe_reads srt (r # rs) stream rdr cp = Some (left, rdr', cp')" using 1(1) 2(1) r by (simp add: Let_def)
  moreover have "cp_run srt (evs1 @ evs) cp = Some cp'" using 1(4) 2(4) by (simp add: cp_run_append)
  moreover have "list_all2 delivers (take (j + i) ms) (evs1 @ evs)"
    using 1(5) 2(5) by (simp add: take_add list_all2_appendI)
  moreover have "j + i \<le> length ms" "v' @ left = concat (map pipe_msg (drop (j + i) ms))" "incomplete (drop (j + i) ms) v'"
    using 2(6-8) 1(8) by (simp_all add: add.commute)
  moreover have "length left \<le> length stream - length (r # rs)" using 2(9) env(2) u by auto
  ultimately show ?case using 2(2,3) by blast
qed

text \<open>
  C6: Whatever the sizes of the reads, the control plane processes the messages of a worker's
  pipe once each and in order: what it has done after some reads is handling the first
  \<open>j\<close> messages, what is left of the next one waits in the buffer, and the rest is still in the
  pipe. No message up to the size of the buffer is lost or cut, the buffer never overflows, every
  read takes at least a byte, and when the pipe is empty all messages have been handled.
\<close>

theorem pipe_reassembly:
  assumes "cp_ok cp" "std_sort srt" "\<forall>(env, n) \<in> set reads. sock_progress env \<and> 0 < n" "list_all pipe_msg_ok ms"
    and "length (pr_buf rdr) = 65600" "pr_len rdr = 0"
  shows "\<exists>left rdr' cp' evs j. pipe_reads srt reads (concat (map pipe_msg ms)) rdr cp = Some (left, rdr', cp') \<and>
    cp_ok cp' \<and> cp_run srt evs cp = Some cp' \<and> list_all2 delivers (take j ms) evs \<and> j \<le> length ms \<and>
    take (nat (pr_len rdr')) (pr_buf rdr') @ left = concat (map pipe_msg (drop j ms)) \<and>
    (j < length ms \<longrightarrow> pr_len rdr' < int (length (pipe_msg (ms ! j)))) \<and>
    (length (concat (map pipe_msg ms)) \<le> length reads \<longrightarrow> left = [] \<and> j = length ms \<and> pr_len rdr' = 0)"
proof -
  have "holds rdr []" using assms by (simp add: holds_def)
  moreover have "incomplete ms []"
    using pipe_msg_size(1) [of "hd ms"] by (cases ms) (auto simp: incomplete_def strict_prefix_def)
  ultimately obtain left rdr' cp' evs j v where r: "pipe_reads srt reads (concat (map pipe_msg ms)) rdr cp = Some (left, rdr', cp')"
    "holds rdr' v" "cp_ok cp'" "cp_run srt evs cp = Some cp'" "list_all2 delivers (take j ms) evs" "j \<le> length ms"
    "v @ left = concat (map pipe_msg (drop j ms))" "incomplete (drop j ms) v"
    "length left \<le> length (concat (map pipe_msg ms)) - length reads"
    using pipe_reads_run [OF assms(1-4), of rdr "[]" "concat (map pipe_msg ms)"] by auto
  have v: "pr_len rdr' = int (length v)" "take (nat (pr_len rdr')) (pr_buf rdr') = v" using r(2) by (simp_all add: holds_def)
  have part: "length v < length (pipe_msg (ms ! j))" if "j < length ms"
    using r(8) that by (simp add: incomplete_def Cons_nth_drop_Suc [symmetric] prefix_length_less)
  have "j = length ms \<and> v = []" if "left = []"
  proof (cases "j < length ms")
    case True
    then have "length (pipe_msg (ms ! j)) \<le> length v" using r(7) that by (simp add: Cons_nth_drop_Suc [symmetric])
    with part [OF True] show ?thesis by simp
  qed (use r(6,8) in \<open>simp add: incomplete_def\<close>)
  then show ?thesis using r v part by (intro exI [of _ left] exI [of _ rdr'] exI [of _ cp'] exI [of _ evs] exI [of _ j]) auto
qed

text \<open>Two messages read byte by byte.\<close>

theorem pipe_reassembly_witness:
  "\<exists>rdr' cp' evs. pipe_reads ice_sort (replicate 21 (example_env, 1))
      (pipe_msg (5, 0x10, []) @ pipe_msg (6, 0x20, [1, 2, 3])) \<lparr>pr_buf = replicate 65600 0, pr_len = 0\<rparr> example_relay_cp =
        Some ([], rdr', cp') \<and> pr_len rdr' = 0 \<and> cp_run ice_sort evs example_relay_cp = Some cp' \<and>
    list_all2 delivers [(5, 0x10, []), (6, 0x20, [1, 2, 3])] evs"
proof -
  have "\<forall>(env, n) \<in> set (replicate 21 (example_env, 1 :: nat)). sock_progress env \<and> 0 < n" using example_env_ok(1) by auto
  from pipe_reassembly [OF example_relay_cp_ok std_sort_ice_sort this, of "[(5, 0x10, []), (6, 0x20, [1, 2, 3])]"
      "\<lparr>pr_buf = replicate 65600 0, pr_len = 0\<rparr>"]
  show ?thesis by auto
qed

end
