(* ===== verification/Hd_Bridge.thy ===== *)
theory Hd_Bridge
  imports Hd_Codec
begin

text \<open>
  The bridge between the two wire formats, \<^verbatim>\<open>src/hd_bridge.cc\<close>: a DERP \<^verbatim>\<open>SendPacket\<close> for an HD
  peer becomes an HD \<^verbatim>\<open>Data\<close> frame, and HD data for a DERP peer a \<^verbatim>\<open>RecvPacket\<close> frame.
\<close>

definition BridgeDerpToHd :: "bytes \<Rightarrow> int \<Rightarrow> bytes \<Rightarrow> int \<Rightarrow> (bytes \<times> int) ub" where
  "BridgeDerpToHd send_payload send_len out out_size =
     (let data_len = send_len - kKeySize in
      if data_len < 0 then Some (out, -1)
      else (let frame_len = kHdFrameHeaderSize + data_len in
        if frame_len > out_size then Some (out, -1)
        else do {
          m \<leftarrow> HdWriteFrameHeader out HdFrame_kData (word_of_int data_len);
          m \<leftarrow> (if data_len > 0 then memcpy kHdFrameHeaderSize send_payload kKeySize data_len m else Some m);
          Some (m, frame_len) }))"

definition BridgeHdToDerp :: "bytes \<Rightarrow> int \<Rightarrow> Key \<Rightarrow> bytes \<Rightarrow> int \<Rightarrow> (bytes \<times> int) ub" where
  "BridgeHdToDerp hd_payload hd_len src_key out out_size =
     (let payload_len = kKeySize + hd_len;
          frame_len = kFrameHeaderSize + payload_len in
      if frame_len > out_size then Some (out, -1)
      else do {
        m \<leftarrow> WriteFrameHeader out Frame_kRecvPacket (word_of_int payload_len);
        m \<leftarrow> memcpy kFrameHeaderSize src_key 0 kKeySize m;
        m \<leftarrow> (if hd_len > 0 then memcpy (kFrameHeaderSize + kKeySize) hd_payload 0 hd_len m else Some m);
        Some (m, frame_len) })"

text \<open>What both write, for a payload of the claimed length.\<close>

lemma BridgeDerpToHd_frame:
  assumes "kKeySize \<le> n" "n \<le> int (length p)" "out_size \<le> int (length out)" "n - 28 \<le> out_size"
  shows "BridgeDerpToHd p n out out_size =
    Some (wrote (hd_frame HdFrame_kData (take (nat n - 32) (drop 32 p))) out, n - 28)"
proof -
  have "length (take (nat n - 32) (drop 32 p)) = nat n - 32" "int (nat n - 32) = n - 32" using assms by auto
  then show ?thesis
    using assms by (auto simp: BridgeDerpToHd_def Let_def HdWriteFrameHeader_def hd_frame_def wr_start
        memcpy_defined wr_wrote be24_def nat_diff_distrib)
qed

lemma BridgeHdToDerp_frame:
  assumes "0 \<le> n" "n \<le> int (length p)" "is_Key k" "out_size \<le> int (length out)" "n + 37 \<le> out_size"
  shows "BridgeHdToDerp p n k out out_size =
    Some (wrote (derp_frame Frame_kRecvPacket (k @ take (nat n) p)) out, n + 37)"
proof -
  have "length (take (nat n) p) = nat n" using assms by auto
  then show ?thesis
    using assms by (auto simp: BridgeHdToDerp_def Let_def WriteFrameHeader_def derp_frame_def wr_start
        memcpy_defined wr_wrote is_Key_def be32_def nat_diff_distrib)
qed

end
