(* ===== verification/Dp_State.thy ===== *)
theory Dp_State
  imports Dp_Shared Hd_Bridge
begin

text \<open>
  The state of the data plane's workers and its basic operations, from
  \<^verbatim>\<open>include/hyper_derp/types.h\<close> and \<^verbatim>\<open>src/data_plane.cc\<close>: the frame pool and its return
  inboxes, the slab of send items, the peer hash table, submissions to the ring, deferred
  receives and the send queues.

  Frame buffers live in one memory that all workers share: an address is allocated when it has
  contents; using or freeing one that is not is \<^const>\<open>None\<close>, undefined behaviour. The linked
  lists of the source are lists of their elements. A peer is its index in its worker's table.
\<close>

section \<open>Constants\<close>

definition kMaxWorkers :: nat where "kMaxWorkers = 32"
definition kReadBufSize :: int where [const_simps, simp]: "kReadBufSize = kFrameHeaderSize + kMaxFramePayload"
definition kSlabSize :: nat where "kSlabSize = 65536"
definition kMaxSendsInflight :: int where [const_simps, simp]: "kMaxSendsInflight = 16"
definition kPollWriteBatch :: int where [const_simps, simp]: "kPollWriteBatch = 16"
definition kMaxCqeBatch :: nat where "kMaxCqeBatch = 256"
definition kMaxSendQueueDepth :: int where [const_simps, simp]: "kMaxSendQueueDepth = 2048"
definition kRecvPauseMinBatches :: int where [const_simps, simp]: "kRecvPauseMinBatches = 8"
definition kRecvBudget :: int where [const_simps, simp]: "kRecvBudget = 512"
definition kRecvDeferSize :: nat where "kRecvDeferSize = 4096"
definition kFramePoolBufSize :: int where [const_simps, simp]: "kFramePoolBufSize = 2048"
definition kFramePoolCount :: nat where "kFramePoolCount = 16384"
definition kMaxPeerRules :: nat where "kMaxPeerRules = 16"
definition kZcThreshold :: int where [const_simps, simp]: "kZcThreshold = 4096"

definition dp_fd :: "int \<Rightarrow> bool" where
  "dp_fd fd \<longleftrightarrow> \<not> (fd < 0 \<or> fd \<ge> kMaxFd)"

section \<open>Structures\<close>

text \<open>\<open>si_slab\<close>: the item comes from the worker's slab and not from \<^verbatim>\<open>malloc\<close>.\<close>

record SendItem =
  si_data :: nat
  si_len :: int
  si_slab :: bool

record FwdRule =
  fr_peer :: "nat option"
  fr_key :: Key
  fr_dst_fd :: int
  fr_dst_worker :: int

text \<open>
  The list from \<^verbatim>\<open>send_head\<close> to \<^verbatim>\<open>send_tail\<close> is \<open>p_queue\<close>, and \<^verbatim>\<open>send_next\<close> the position in it
  of the first item that has not been submitted. A freed \<^verbatim>\<open>rbuf\<close> is \<^const>\<open>None\<close>.
\<close>

record Peer =
  p_fd :: int
  p_rbuf_len :: int
  p_occupied :: u8
  p_protocol :: PeerProtocol
  p_peer_id :: u16
  p_fwd_count :: int
  p_fwd1_dst_fd :: int
  p_fwd1_dst_worker :: int
  p_fwd1_peer :: "nat option"
  p_send_inflight :: int
  p_send_queued :: int
  p_send_pending :: bool
  p_queue :: "SendItem list"
  p_send_next :: "nat option"
  p_no_zc :: bool
  p_zc_draining :: bool
  p_poll_write_pending :: bool
  p_fwd :: "FwdRule list"
  p_key :: Key
  p_recv_bytes_window :: u64
  p_window_start_ns :: u64
  p_rbuf :: "bytes option"

definition FwdRule_init :: FwdRule where
  "FwdRule_init = \<lparr>fr_peer = None, fr_key = zero_Key, fr_dst_fd = -1, fr_dst_worker = -1\<rparr>"

definition Peer_init :: Peer where
  "Peer_init = \<lparr>p_fd = 0, p_rbuf_len = 0, p_occupied = 0, p_protocol = Protocol_kDerp, p_peer_id = 0,
     p_fwd_count = 0, p_fwd1_dst_fd = 0, p_fwd1_dst_worker = 0, p_fwd1_peer = None, p_send_inflight = 0,
     p_send_queued = 0, p_send_pending = False, p_queue = [], p_send_next = None, p_no_zc = False,
     p_zc_draining = False, p_poll_write_pending = False,
     p_fwd = replicate kMaxPeerRules \<lparr>fr_peer = None, fr_key = zero_Key, fr_dst_fd = 0, fr_dst_worker = 0\<rparr>,
     p_key = zero_Key, p_recv_bytes_window = 0, p_window_start_ns = 0, p_rbuf = None\<rparr>"

record WorkerStats =
  st_send_drops :: u64
  st_xfer_drops :: u64
  st_slab_exhausts :: u64
  st_recv_bytes :: u64
  st_send_bytes :: u64
  st_send_epipe :: u64
  st_send_econnreset :: u64
  st_send_eagain :: u64
  st_send_other_err :: u64
  st_recv_enobufs :: u64
  st_send_queue_drops :: u64
  st_sq_overflow :: u64
  st_recv_pauses :: u64
  st_frame_pool_hits :: u64
  st_frame_pool_misses :: u64
  st_hd_mesh_forwards :: u64
  st_hd_fleet_forwards :: u64
  st_rate_limit_drops :: u64
  st_hd_fwd_no_rule :: u64
  st_hd_fwd_no_route :: u64
  st_hd_fwd_same_worker :: u64

record Worker =
  w_running :: bool
  w_use_provided_bufs :: bool
  w_use_multishot_recv :: bool
  w_ht :: "Peer list"
  w_fd_map :: "int \<Rightarrow> nat option"
  w_peer_id_map :: "(u16 \<Rightarrow> nat option) option"
  w_fd_gen :: "int \<Rightarrow> u32"
  w_notif_map :: "int \<Rightarrow> SendItem list"
  w_routes :: "Route list"
  w_cmd_ring :: CmdRing
  w_xfer_inbox :: "XferSpscRing list"
  w_recv_inflight :: int
  w_recv_defer_buf :: "int list"
  w_recv_defer_head :: nat
  w_recv_defer_tail :: nat
  w_send_pressure :: int
  w_recv_paused :: bool
  w_recv_pause_countdown :: int
  w_peer_count :: int
  w_pending_fds :: "int list" \<comment> \<open>the first \<^verbatim>\<open>pending_count\<close> entries\<close>
  w_xfer_signal_pending :: u32
  w_pending_sources :: u32
  w_slab_free :: nat \<comment> \<open>length of the free list\<close>
  w_frame_pool :: nat
  w_frame_pool_end :: nat
  w_frame_pool_free :: "nat list"
  w_frame_return_inbox :: "nat list list"
  w_stats :: WorkerStats

text \<open>What the workers ask of the kernel, in order: the worker first.\<close>

datatype dp_call =
    Sq_recv nat int
  | Sq_send nat int bytes bool bool \<comment> \<open>socket, bytes, \<^verbatim>\<open>MSG_MORE\<close>, zero copy\<close>
  | Sq_poll_write nat int
  | Sq_send_direct nat int bytes nat \<comment> \<open>the frame is freed on completion\<close>
  | Sq_poll_multishot nat u8
  | Pipe_write nat bytes
  | Sys_signal nat
  | Sys_close int

record Ctx =
  cx_workers :: "Worker list"
  cx_relay_id :: u16
  cx_relay_peer_map :: "u16 \<Rightarrow> u16"
  cx_peer_rate_limit :: u64
  cx_mem :: "nat \<Rightarrow> bytes option"
  cx_mallocs :: nat
  cx_sqes :: nat
  cx_calls :: "dp_call list"

text \<open>
  The environment: the address the \<open>n\<close>-th \<^verbatim>\<open>malloc\<close> returns given the memory in use, 0 for a failure, whether the
  \<open>n\<close>-th request for a submission entry succeeds, the clock, and which sockets are Unix sockets.
\<close>

record dp_env =
  de_malloc :: "nat \<Rightarrow> (nat \<Rightarrow> bytes option) \<Rightarrow> nat"
  de_sqe :: "nat \<Rightarrow> bool"
  de_now :: u64
  de_unix :: "int \<Rightarrow> bool"

definition wk :: "Ctx \<Rightarrow> nat \<Rightarrow> Worker" where
  "wk c i = cx_workers c ! i"

definition set_wk :: "nat \<Rightarrow> Worker \<Rightarrow> Ctx \<Rightarrow> Ctx" where
  "set_wk i w c = c\<lparr>cx_workers := (cx_workers c)[i := w]\<rparr>"

definition pr :: "Ctx \<Rightarrow> nat \<Rightarrow> nat \<Rightarrow> Peer" where
  "pr c i p = w_ht (wk c i) ! p"

definition set_pr :: "nat \<Rightarrow> nat \<Rightarrow> Peer \<Rightarrow> Ctx \<Rightarrow> Ctx" where
  "set_pr i p x c = set_wk i ((wk c i)\<lparr>w_ht := (w_ht (wk c i))[p := x]\<rparr>) c"

definition dp_emit :: "dp_call \<Rightarrow> Ctx \<Rightarrow> Ctx" where
  "dp_emit e c = c\<lparr>cx_calls := cx_calls c @ [e]\<rparr>"

definition stat :: "nat \<Rightarrow> (WorkerStats \<Rightarrow> WorkerStats) \<Rightarrow> Ctx \<Rightarrow> Ctx" where
  "stat i f c = set_wk i ((wk c i)\<lparr>w_stats := f (w_stats (wk c i))\<rparr>) c"

section \<open>Memory\<close>

text \<open>\<^verbatim>\<open>malloc\<close>: the address, 0 when it fails. Fresh memory is read as zeros.\<close>

definition dp_malloc :: "dp_env \<Rightarrow> Ctx \<Rightarrow> int \<Rightarrow> Ctx \<times> nat" where
  "dp_malloc env c sz =
     (let a = de_malloc env (cx_mallocs c) (cx_mem c); c = c\<lparr>cx_mallocs := cx_mallocs c + 1\<rparr> in
      if a = 0 then (c, 0)
      else (c\<lparr>cx_mem := (cx_mem c)(a \<mapsto> replicate (nat sz) 0)\<rparr>, a))"

text \<open>Copying bytes to the start of a buffer, and reading them.\<close>

definition put_frame :: "nat \<Rightarrow> bytes \<Rightarrow> Ctx \<Rightarrow> Ctx ub" where
  "put_frame a bs c = do {
     m \<leftarrow> cx_mem c a;
     m \<leftarrow> wr 0 bs m;
     Some (c\<lparr>cx_mem := (cx_mem c)(a \<mapsto> m)\<rparr>) }"

definition get_frame :: "nat \<Rightarrow> int \<Rightarrow> Ctx \<Rightarrow> bytes ub" where
  "get_frame a n c = do { m \<leftarrow> cx_mem c a; rd 0 n m }"

section \<open>Slab of send items\<close>

text \<open>Whether the item comes from the slab; \<^const>\<open>None\<close> when there is none to be had.\<close>

definition SlabAllocItem :: "dp_env \<Rightarrow> Ctx \<Rightarrow> nat \<Rightarrow> Ctx \<times> bool option" where
  "SlabAllocItem env c i =
     (let w = wk c i in
      if w_slab_free w > 0 then (set_wk i (w\<lparr>w_slab_free := w_slab_free w - 1\<rparr>) c, Some True)
      else (let a = de_malloc env (cx_mallocs c) (cx_mem c); c = c\<lparr>cx_mallocs := cx_mallocs c + 1\<rparr> in
        if a = 0 then (c, None) else (c, Some False)))"

definition SlabFreeItem :: "nat \<Rightarrow> SendItem \<Rightarrow> Ctx \<Rightarrow> Ctx" where
  "SlabFreeItem i item c =
     (if si_slab item then set_wk i ((wk c i)\<lparr>w_slab_free := w_slab_free (wk c i) + 1\<rparr>) c else c)"

section \<open>Frame pool\<close>

definition FrameReturnPush :: "nat \<Rightarrow> nat \<Rightarrow> nat \<Rightarrow> Ctx \<Rightarrow> Ctx" where
  "FrameReturnPush owner src_id buf c =
     (let ow = wk c owner; inbox = w_frame_return_inbox ow in
      set_wk owner (ow\<lparr>w_frame_return_inbox := inbox[src_id := buf # inbox ! src_id]\<rparr>) c)"

text \<open>Each list of an inbox is taken from its head and pushed to the free list.\<close>

fun return_list :: "nat list \<Rightarrow> nat list \<Rightarrow> nat list" where
  "return_list [] free = free"
| "return_list (a # as) free = return_list as (a # free)"

fun return_inboxes :: "nat list list \<Rightarrow> nat list \<Rightarrow> nat list" where
  "return_inboxes [] free = free"
| "return_inboxes (l # ls) free = return_inboxes ls (return_list l free)"

definition FrameReturnDrain :: "nat \<Rightarrow> Ctx \<Rightarrow> Ctx" where
  "FrameReturnDrain i c =
     (let n = length (cx_workers c); w = wk c i; inbox = w_frame_return_inbox w in
      set_wk i (w\<lparr>w_frame_pool_free := return_inboxes (take n inbox) (w_frame_pool_free w),
        w_frame_return_inbox := map (\<lambda>l. []) (take n inbox) @ drop n inbox\<rparr>) c)"

definition FramePoolOwns :: "Worker \<Rightarrow> nat \<Rightarrow> bool" where
  "FramePoolOwns w buf \<longleftrightarrow> w_frame_pool w \<le> buf \<and> buf < w_frame_pool_end w"

text \<open>Taking the head of the free list, if there is one.\<close>

definition pool_take :: "nat \<Rightarrow> Ctx \<Rightarrow> (Ctx \<times> nat) option" where
  "pool_take i c =
     (case w_frame_pool_free (wk c i) of
        [] \<Rightarrow> None
      | a # free \<Rightarrow>
          (let c = set_wk i ((wk c i)\<lparr>w_frame_pool_free := free\<rparr>) c;
               c = stat i (\<lambda>s. s\<lparr>st_frame_pool_hits := st_frame_pool_hits s + 1\<rparr>) c in
           Some (c\<lparr>cx_mem := (cx_mem c)(a \<mapsto> replicate (nat kFramePoolBufSize) 0)\<rparr>, a)))"

definition FrameAlloc :: "dp_env \<Rightarrow> Ctx \<Rightarrow> nat \<Rightarrow> int \<Rightarrow> Ctx \<times> nat" where
  "FrameAlloc env c i sz =
     (let miss = (\<lambda>c. dp_malloc env (stat i (\<lambda>s. s\<lparr>st_frame_pool_misses := st_frame_pool_misses s + 1\<rparr>) c) sz) in
      if sz \<le> kFramePoolBufSize then
        (case pool_take i c of
           Some r \<Rightarrow> r
         | None \<Rightarrow>
             (let c = FrameReturnDrain i c in
              case pool_take i c of Some r \<Rightarrow> r | None \<Rightarrow> miss c))
      else miss c)"

definition FramePoolOwnerId :: "Ctx \<Rightarrow> nat \<Rightarrow> nat \<Rightarrow> nat option" where
  "FramePoolOwnerId c i buf =
     (if FramePoolOwns (wk c i) buf then Some i
      else find (\<lambda>j. j \<noteq> i \<and> FramePoolOwns (wk c j) buf) [0..<length (cx_workers c)])"

text \<open>Freeing a buffer that is not allocated is undefined.\<close>

definition FrameFree :: "nat \<Rightarrow> nat \<Rightarrow> Ctx \<Rightarrow> Ctx ub" where
  "FrameFree i buf c =
     (if buf = 0 then Some c
      else if cx_mem c buf = None then None
      else (let c = c\<lparr>cx_mem := (cx_mem c)(buf := None)\<rparr> in
        if FramePoolOwns (wk c i) buf
        then Some (set_wk i ((wk c i)\<lparr>w_frame_pool_free := buf # w_frame_pool_free (wk c i)\<rparr>) c)
        else (case FramePoolOwnerId c i buf of
            Some owner \<Rightarrow> Some (FrameReturnPush owner i buf c)
          | None \<Rightarrow> Some c)))"

text \<open>A send item that is done with: its frame and the item itself.\<close>

definition free_item :: "nat \<Rightarrow> SendItem \<Rightarrow> Ctx \<Rightarrow> Ctx ub" where
  "free_item i item c = do { c \<leftarrow> FrameFree i (si_data item) c; Some (SlabFreeItem i item c) }"

fun free_items :: "nat \<Rightarrow> SendItem list \<Rightarrow> Ctx \<Rightarrow> Ctx ub" where
  "free_items i [] c = Some c"
| "free_items i (x # xs) c = do { c \<leftarrow> free_item i x c; free_items i xs c }"

section \<open>Submissions\<close>

definition GetSqe :: "dp_env \<Rightarrow> nat \<Rightarrow> Ctx \<Rightarrow> Ctx \<times> bool" where
  "GetSqe env i c =
     (let ok = de_sqe env (cx_sqes c); c = c\<lparr>cx_sqes := cx_sqes c + 1\<rparr> in
      if ok then (c, True) else (stat i (\<lambda>s. s\<lparr>st_sq_overflow := st_sq_overflow s + 1\<rparr>) c, False))"

definition DeferRecv :: "nat \<Rightarrow> int \<Rightarrow> Ctx \<Rightarrow> Ctx" where
  "DeferRecv i fd c =
     (let w = wk c i; next = (w_recv_defer_head w + 1) mod kRecvDeferSize in
      if next = w_recv_defer_tail w then c
      else set_wk i (w\<lparr>w_recv_defer_buf := (w_recv_defer_buf w)[w_recv_defer_head w := fd],
        w_recv_defer_head := next\<rparr>) c)"

text \<open>
  Without provided buffers and with a full read buffer the entry that was taken is left
  unprepared; nothing is logged for it.
\<close>

definition SubmitRecvNow :: "dp_env \<Rightarrow> nat \<Rightarrow> int \<Rightarrow> Ctx \<Rightarrow> Ctx" where
  "SubmitRecvNow env i fd c =
     (if \<not> dp_fd fd then c
      else (case w_fd_map (wk c i) fd of
        None \<Rightarrow> c
      | Some p \<Rightarrow>
          (case GetSqe env i c of
             (c, False) \<Rightarrow> DeferRecv i fd c
           | (c, True) \<Rightarrow>
               if \<not> w_use_provided_bufs (wk c i) \<and> kReadBufSize - p_rbuf_len (pr c i p) \<le> 0 then c
               else (let w = wk c i in
                 dp_emit (Sq_recv i fd) (set_wk i (w\<lparr>w_recv_inflight := w_recv_inflight w + 1\<rparr>) c)))))"

definition SubmitRecv :: "dp_env \<Rightarrow> nat \<Rightarrow> int \<Rightarrow> Ctx \<Rightarrow> Ctx" where
  "SubmitRecv env i fd c =
     (if \<not> dp_fd fd \<or> w_fd_map (wk c i) fd = None then c
      else if w_recv_inflight (wk c i) \<ge> kRecvBudget \<or> w_recv_paused (wk c i) then DeferRecv i fd c
      else SubmitRecvNow env i fd c)"

text \<open>As long as no submission entry can be had this goes round the ring for ever.\<close>

partial_function (option) DrainDeferredRecvs :: "dp_env \<Rightarrow> nat \<Rightarrow> Ctx \<Rightarrow> Ctx option" where
  "DrainDeferredRecvs env i c =
     (let w = wk c i in
      if w_recv_defer_tail w \<noteq> w_recv_defer_head w \<and> w_recv_inflight w < kRecvBudget \<and> \<not> w_recv_paused w
      then (let fd = w_recv_defer_buf w ! w_recv_defer_tail w;
                c = set_wk i (w\<lparr>w_recv_defer_tail := (w_recv_defer_tail w + 1) mod kRecvDeferSize\<rparr>) c;
                c = (if dp_fd fd \<and> w_fd_map w fd \<noteq> None then SubmitRecvNow env i fd c else c) in
            DrainDeferredRecvs env i c)
      else Some c)"

text \<open>\<^verbatim>\<open>SubmitSend\<close> and \<^verbatim>\<open>SubmitSendZc\<close>: whether the send was submitted.\<close>

definition submit_send :: "dp_env \<Rightarrow> nat \<Rightarrow> int \<Rightarrow> nat \<Rightarrow> int \<Rightarrow> bool \<Rightarrow> bool \<Rightarrow> Ctx \<Rightarrow> (Ctx \<times> bool) ub" where
  "submit_send env i fd data len msg_more zc c =
     (case GetSqe env i c of
        (c, False) \<Rightarrow> Some (c, False)
      | (c, True) \<Rightarrow> do {
          bs \<leftarrow> get_frame data len c;
          Some (dp_emit (Sq_send i fd bs msg_more zc) c, True) })"

definition SubmitPeerSend :: "dp_env \<Rightarrow> nat \<Rightarrow> Peer \<Rightarrow> nat \<Rightarrow> int \<Rightarrow> bool \<Rightarrow> Ctx \<Rightarrow> (Ctx \<times> bool) ub" where
  "SubmitPeerSend env i peer data len msg_more c =
     (if p_no_zc peer \<or> len \<le> kZcThreshold then submit_send env i (p_fd peer) data len msg_more False c
      else submit_send env i (p_fd peer) data len msg_more True c)"

text \<open>
  The statement sequence by which every caller submits the next item of a peer: whether there
  was room. The pointer moves on to the item's successor.
\<close>

definition submit_next :: "dp_env \<Rightarrow> nat \<Rightarrow> nat \<Rightarrow> Ctx \<Rightarrow> (Ctx \<times> bool) ub" where
  "submit_next env i p c =
     (case p_send_next (pr c i p) of
        None \<Rightarrow> None
      | Some k \<Rightarrow>
          (let peer = pr c i p; msg_more = Suc k < length (p_queue peer) in
           if length (p_queue peer) \<le> k then None
           else do {
             (c, ok) \<leftarrow> SubmitPeerSend env i peer (si_data (p_queue peer ! k)) (si_len (p_queue peer ! k)) msg_more c;
             if ok then Some (set_pr i p ((pr c i p)\<lparr>p_send_next := (if msg_more then Some (Suc k) else None),
                 p_send_inflight := p_send_inflight (pr c i p) + 1\<rparr>) c, True)
             else Some (c, False) }))"

section \<open>Send queues\<close>

text \<open>Appending an item to a peer's queue.\<close>

definition append_item :: "nat \<Rightarrow> nat \<Rightarrow> SendItem \<Rightarrow> Ctx \<Rightarrow> Ctx" where
  "append_item i p item c =
     (let w = wk c i; c = set_wk i (w\<lparr>w_send_pressure := w_send_pressure w + 1\<rparr>) c; peer = pr c i p in
      set_pr i p (peer\<lparr>p_queue := p_queue peer @ [item], p_send_queued := p_send_queued peer + 1,
        p_send_next := (case p_send_next peer of None \<Rightarrow> Some (length (p_queue peer)) | Some k \<Rightarrow> Some k)\<rparr>) c)"

text \<open>
  An idle peer is noted for the end of the batch, one with sends in flight gets the next at once.
  When the list of noted peers is full the peer is marked all the same.
\<close>

definition kick_send :: "dp_env \<Rightarrow> nat \<Rightarrow> nat \<Rightarrow> Ctx \<Rightarrow> Ctx ub" where
  "kick_send env i p c =
     (let peer = pr c i p in
      if p_send_inflight peer = 0 \<and> \<not> p_send_pending peer \<and> \<not> p_zc_draining peer
      then (let c = set_pr i p (peer\<lparr>p_send_pending := True\<rparr>) c; w = wk c i in
        Some (if length (w_pending_fds w) < kMaxCqeBatch
              then set_wk i (w\<lparr>w_pending_fds := w_pending_fds w @ [p_fd peer]\<rparr>) c else c))
      else if p_send_inflight peer > 0 \<and> p_send_inflight peer < kMaxSendsInflight \<and>
              p_send_next peer \<noteq> None \<and> \<not> p_zc_draining peer
      then map_option fst (submit_next env i p c)
      else Some c)"

definition pause_recv :: "nat \<Rightarrow> Ctx \<Rightarrow> Ctx" where
  "pause_recv i c =
     (let w = wk c i in
      if \<not> w_recv_paused w \<and> w_send_pressure w \<ge> SendPressureHigh (w_peer_count w)
      then stat i (\<lambda>s. s\<lparr>st_recv_pauses := st_recv_pauses s + 1\<rparr>)
        (set_wk i (w\<lparr>w_recv_paused := True, w_recv_pause_countdown := kRecvPauseMinBatches\<rparr>) c)
      else c)"

definition EnqueueSend :: "dp_env \<Rightarrow> nat \<Rightarrow> nat \<Rightarrow> nat \<Rightarrow> int \<Rightarrow> Ctx \<Rightarrow> Ctx ub" where
  "EnqueueSend env i p data len c =
     (if p_send_queued (pr c i p) \<ge> kMaxSendQueueDepth
      then FrameFree i data (stat i (\<lambda>s. s\<lparr>st_send_queue_drops := st_send_queue_drops s + 1\<rparr>) c)
      else (case SlabAllocItem env c i of
        (c, None) \<Rightarrow> FrameFree i data (stat i (\<lambda>s. s\<lparr>st_slab_exhausts := st_slab_exhausts s + 1\<rparr>) c)
      | (c, Some slab) \<Rightarrow>
          map_option (pause_recv i) (kick_send env i p
            (append_item i p \<lparr>si_data = data, si_len = len, si_slab = slab\<rparr> c))))"

text \<open>
  Taking the head of a queue. The pointer to the next item to submit must not be the head unless
  the queue becomes empty, in which case it is reset: the callers go on to use it.
\<close>

definition pop_head :: "Peer \<Rightarrow> (SendItem \<times> Peer) ub" where
  "pop_head peer =
     (case p_queue peer of
        [] \<Rightarrow> None
      | done # rest \<Rightarrow>
          if rest = [] then Some (done, peer\<lparr>p_queue := [], p_send_next := None\<rparr>)
          else (case p_send_next peer of
              None \<Rightarrow> Some (done, peer\<lparr>p_queue := rest\<rparr>)
            | Some 0 \<Rightarrow> None
            | Some (Suc k) \<Rightarrow> Some (done, peer\<lparr>p_queue := rest, p_send_next := Some k\<rparr>)))"

text \<open>A finished item is freed, or kept until the kernel reports that it no longer reads it.\<close>

definition retire :: "nat \<Rightarrow> int \<Rightarrow> SendItem \<Rightarrow> bool \<Rightarrow> Ctx \<Rightarrow> Ctx ub" where
  "retire i fd done defer_notif c =
     (if defer_notif
      then if \<not> dp_fd fd then None
           else (let w = wk c i in Some (set_wk i (w\<lparr>w_notif_map := (w_notif_map w)(fd := done # w_notif_map w fd)\<rparr>) c))
      else free_item i done c)"

text \<open>Receiving resumes when the pressure is low and the minimal pause is over.\<close>

definition resume_recv :: "dp_env \<Rightarrow> nat \<Rightarrow> Ctx \<Rightarrow> Ctx ub" where
  "resume_recv env i c =
     (let w = wk c i in
      if w_recv_paused w then
        (if w_recv_pause_countdown w > 0
         then Some (set_wk i (w\<lparr>w_recv_pause_countdown := w_recv_pause_countdown w - 1\<rparr>) c)
         else if w_send_pressure w \<le> SendPressureLow (w_peer_count w)
         then DrainDeferredRecvs env i (set_wk i (w\<lparr>w_recv_paused := False\<rparr>) c)
         else Some c)
      else Some c)"

text \<open>The counters of a peer and of its worker after an item has left the queue.\<close>

definition uncount :: "nat \<Rightarrow> nat \<Rightarrow> Ctx \<Rightarrow> Ctx" where
  "uncount i p c =
     (let peer = pr c i p;
          c = set_pr i p (peer\<lparr>p_send_queued := (if p_send_queued peer > 0 then p_send_queued peer - 1 else p_send_queued peer)\<rparr>) c;
          w = wk c i in
      set_wk i (w\<lparr>w_send_pressure := (if w_send_pressure w > 0 then w_send_pressure w - 1 else w_send_pressure w)\<rparr>) c)"

text \<open>One send fewer is in flight, and the next item goes out if there is room.\<close>

definition send_completed :: "dp_env \<Rightarrow> nat \<Rightarrow> nat \<Rightarrow> Ctx \<Rightarrow> Ctx ub" where
  "send_completed env i p c =
     (let peer = pr c i p;
          c = (if p_send_inflight peer > 0 then set_pr i p (peer\<lparr>p_send_inflight := p_send_inflight peer - 1\<rparr>) c else c) in
      if p_send_next (pr c i p) \<noteq> None \<and> p_send_inflight (pr c i p) < kMaxSendsInflight
      then map_option fst (submit_next env i p c) else Some c)"

definition DrainSendQueue :: "dp_env \<Rightarrow> nat \<Rightarrow> nat \<Rightarrow> bool \<Rightarrow> Ctx \<Rightarrow> Ctx ub" where
  "DrainSendQueue env i p defer_notif c = do {
     c \<leftarrow>
       (if p_queue (pr c i p) = [] then Some c
        else do {
          (done, peer) \<leftarrow> pop_head (pr c i p);
          c \<leftarrow> retire i (p_fd peer) done defer_notif (set_pr i p peer c);
          resume_recv env i (uncount i p c) });
     send_completed env i p c }"

text \<open>Submitting a batch: up to \<open>n\<close> items, as long as the peer has room.\<close>

fun submit_batch :: "dp_env \<Rightarrow> nat \<Rightarrow> nat \<Rightarrow> nat \<Rightarrow> Ctx \<Rightarrow> Ctx ub" where
  "submit_batch env i p 0 c = Some c"
| "submit_batch env i p (Suc n) c =
     (if p_send_next (pr c i p) \<noteq> None \<and> p_send_inflight (pr c i p) < kMaxSendsInflight
      then do {
        (c, ok) \<leftarrow> submit_next env i p c;
        if ok then submit_batch env i p n c else Some c }
      else Some c)"

fun flush_sends_loop :: "dp_env \<Rightarrow> nat \<Rightarrow> int list \<Rightarrow> Ctx \<Rightarrow> Ctx ub" where
  "flush_sends_loop env i [] c = Some c"
| "flush_sends_loop env i (fd # fds) c =
     (case (if dp_fd fd then w_fd_map (wk c i) fd else None) of
        None \<Rightarrow> flush_sends_loop env i fds c
      | Some p \<Rightarrow>
          (let c = set_pr i p ((pr c i p)\<lparr>p_send_pending := False\<rparr>) c in
           if p_send_next (pr c i p) = None \<or> p_zc_draining (pr c i p) then flush_sends_loop env i fds c
           else do {
             c \<leftarrow> submit_batch env i p (nat kPollWriteBatch) c;
             flush_sends_loop env i fds c }))"

definition FlushPendingSends :: "dp_env \<Rightarrow> nat \<Rightarrow> Ctx \<Rightarrow> Ctx ub" where
  "FlushPendingSends env i c = do {
     c \<leftarrow> flush_sends_loop env i (w_pending_fds (wk c i)) c;
     Some (set_wk i ((wk c i)\<lparr>w_pending_fds := []\<rparr>) c) }"

section \<open>The peer table\<close>

definition HtFind :: "Worker \<Rightarrow> Key \<Rightarrow> nat option" where
  "HtFind w key =
     probe_loop (\<lambda>p. p_occupied p = 0) (\<lambda>p. p_occupied p = 2) p_key (w_ht w) key (probe_seq key) None"

definition HtLookup :: "Worker \<Rightarrow> Key \<Rightarrow> nat option" where
  "HtLookup w key =
     (case HtFind w key of
        None \<Rightarrow> None
      | Some p \<Rightarrow> if p_occupied (w_ht w ! p) = 1 \<and> p_key (w_ht w ! p) = key then Some p else None)"

text \<open>The return value tells a full table or a failed allocation.\<close>

definition HtInsert :: "dp_env \<Rightarrow> nat \<Rightarrow> int \<Rightarrow> Key \<Rightarrow> Ctx \<Rightarrow> Ctx \<times> int" where
  "HtInsert env i fd key c =
     (case HtFind (wk c i) key of
        None \<Rightarrow> (c, -1)
      | Some p \<Rightarrow>
          (let peer = pr c i p;
               (c, rbuf) = (case p_rbuf peer of
                   Some b \<Rightarrow> (c, Some b)
                 | None \<Rightarrow> (let a = de_malloc env (cx_mallocs c) (cx_mem c); c = c\<lparr>cx_mallocs := cx_mallocs c + 1\<rparr> in
                     (c, if a = 0 then None else Some (replicate (nat kReadBufSize) 0)))) in
           if rbuf = None then (c, -1)
           else (set_pr i p (peer\<lparr>p_rbuf := rbuf, p_fd := fd, p_key := key, p_rbuf_len := 0, p_occupied := 1,
               p_queue := [], p_send_next := None, p_send_inflight := 0, p_send_queued := 0, p_no_zc := False,
               p_zc_draining := False, p_poll_write_pending := False, p_send_pending := False, p_peer_id := 0,
               p_fwd_count := 0, p_fwd1_dst_fd := -1, p_fwd1_dst_worker := -1, p_fwd1_peer := None,
               p_fwd := map (\<lambda>f. f\<lparr>fr_peer := None, fr_dst_worker := -1, fr_dst_fd := -1\<rparr>) (p_fwd peer),
               p_recv_bytes_window := 0, p_window_start_ns := 0\<rparr>) c, 0)))"

text \<open>The items in flight wait for their notification, the others are freed.\<close>

definition HtRemove :: "dp_env \<Rightarrow> nat \<Rightarrow> Key \<Rightarrow> Ctx \<Rightarrow> Ctx ub" where
  "HtRemove env i key c =
     (case HtLookup (wk c i) key of
        None \<Rightarrow> Some c
      | Some p \<Rightarrow>
          (let peer = pr c i p; n = nat (p_send_inflight peer); w = wk c i in
           if take n (p_queue peer) \<noteq> [] \<and> \<not> dp_fd (p_fd peer) then None
           else (let c = set_wk i (w\<lparr>w_notif_map := (w_notif_map w)(p_fd peer :=
                       rev (take n (p_queue peer)) @ w_notif_map w (p_fd peer))\<rparr>) c in do {
             c \<leftarrow> free_items i (drop n (p_queue peer)) c;
             let w = wk c i;
             let pressure = w_send_pressure w - p_send_queued peer;
             let w = w\<lparr>w_send_pressure := (if pressure < 0 then 0 else pressure)\<rparr>;
             let c = set_wk i w c;
             let c = set_pr i p ((pr c i p)\<lparr>p_queue := [], p_send_next := None, p_send_inflight := 0, p_send_queued := 0,
                   p_send_pending := False, p_rbuf := None, p_rbuf_len := 0, p_occupied := 2\<rparr>) c;
             let w = wk c i;
             let w = w\<lparr>w_peer_count := (if w_peer_count w > 0 then w_peer_count w - 1 else w_peer_count w)\<rparr>;
             let c = set_wk i w c;
             if w_recv_paused w \<and> w_recv_pause_countdown w \<le> 0 \<and> w_send_pressure w \<le> SendPressureLow (w_peer_count w)
             then DrainDeferredRecvs env i (set_wk i (w\<lparr>w_recv_paused := False\<rparr>) c)
             else Some c })))"

end
