(* ===== verification/Dp_Forward.thy ===== *)
theory Dp_Forward
  imports Dp_State
begin

text \<open>
  The forwarding path of a worker, from \<^verbatim>\<open>src/data_plane.cc\<close>: the push to another worker, HD and
  DERP forwarding, the dispatch of a complete frame, and the two receive handlers that cut the
  byte stream of a socket into frames.
\<close>

section \<open>Cross-shard push\<close>

definition worker_bit :: "nat \<Rightarrow> u32" where
  "worker_bit i = push_bit i 1"

text \<open>
  The push proper: the transfer carries the generation of the destination socket as it is now.
  A full ring drops the frame and counts as pressure.
\<close>

definition xfer_send :: "nat \<Rightarrow> nat \<Rightarrow> int \<Rightarrow> nat \<Rightarrow> int \<Rightarrow> Ctx \<Rightarrow> Ctx ub" where
  "xfer_send i d dst_fd buf len c =
     (if \<not> dp_fd dst_fd then None
      else (let dw = wk c d;
          x = \<lparr>x_dst_fd = dst_fd, x_frame = buf, x_frame_len = len, x_dst_gen = w_fd_gen dw dst_fd\<rparr>;
          (ring, rc) = XferSpscPush (w_xfer_inbox dw ! i) x in
        if rc \<ge> 0 then
          (let c = set_wk d (dw\<lparr>w_xfer_inbox := (w_xfer_inbox dw)[i := ring],
                     w_pending_sources := w_pending_sources dw OR worker_bit i\<rparr>) c;
               w = wk c i in
           Some (if rc = 1 then set_wk i (w\<lparr>w_xfer_signal_pending := w_xfer_signal_pending w OR worker_bit d\<rparr>) c else c))
        else do {
          c \<leftarrow> FrameFree i buf c;
          let c = stat i (\<lambda>s. s\<lparr>st_xfer_drops := st_xfer_drops s + 1\<rparr>) c;
          let w = wk c i;
          Some (set_wk i (w\<lparr>w_send_pressure := w_send_pressure w + 1\<rparr>) c) }))"

definition XferPush :: "nat \<Rightarrow> int \<Rightarrow> int \<Rightarrow> nat \<Rightarrow> int \<Rightarrow> Ctx \<Rightarrow> Ctx ub" where
  "XferPush i dst_id dst_fd buf len c =
     (if dst_id = int i \<or> dst_id \<ge> int (length (cx_workers c)) then FrameFree i buf c
      else if dst_id < 0 then None
      else xfer_send i (nat dst_id) dst_fd buf len c)"

section \<open>HD forwarding\<close>

text \<open>A copy of \<open>bs\<close> in a frame of its own for the peer \<open>p\<close>, if there is memory for it.\<close>

definition send_copy :: "dp_env \<Rightarrow> nat \<Rightarrow> nat \<Rightarrow> bytes \<Rightarrow> Ctx \<Rightarrow> Ctx ub" where
  "send_copy env i p bs c =
     (case FrameAlloc env c i (int (length bs)) of
        (c, a) \<Rightarrow>
          if a = 0 then Some c
          else do {
            c \<leftarrow> put_frame a bs c;
            EnqueueSend env i p a (int (length bs)) c })"

definition set_rule :: "nat \<Rightarrow> (FwdRule \<Rightarrow> FwdRule) \<Rightarrow> Peer \<Rightarrow> Peer" where
  "set_rule r f peer = peer\<lparr>p_fwd := (p_fwd peer)[r := f (p_fwd peer ! r)]\<rparr>"

text \<open>The 1:1 path: cached peer, cached socket of another worker, or a first resolution.\<close>

definition ForwardHdData1 :: "dp_env \<Rightarrow> nat \<Rightarrow> nat \<Rightarrow> bytes \<Rightarrow> Ctx \<Rightarrow> Ctx ub" where
  "ForwardHdData1 env i p frame c =
     (case FrameAlloc env c i (int (length frame)) of
        (c, buf) \<Rightarrow>
          if buf = 0 then Some c
          else do {
            c \<leftarrow> put_frame buf frame c;
            let peer = pr c i p;
            let len = int (length frame);
            case (case p_fwd1_peer peer of None \<Rightarrow> None | Some d \<Rightarrow> if p_occupied (pr c i d) = 1 then Some d else None) of
              Some d \<Rightarrow> EnqueueSend env i d buf len c
            | None \<Rightarrow>
                if p_fwd1_dst_fd peer \<ge> 0 then XferPush i (p_fwd1_dst_worker peer) (p_fwd1_dst_fd peer) buf len c
                else (case HtLookup (wk c i) (fr_key (p_fwd peer ! 0)) of
                  Some d \<Rightarrow>
                    EnqueueSend env i d buf len
                      (set_pr i p (set_rule 0 (\<lambda>f. f\<lparr>fr_peer := Some d\<rparr>) (peer\<lparr>p_fwd1_peer := Some d\<rparr>)) c)
                | None \<Rightarrow>
                    (case RouteLookup (w_routes (wk c i)) (fr_key (p_fwd peer ! 0)) of
                       None \<Rightarrow> FrameFree i buf (stat i (\<lambda>s. s\<lparr>st_hd_fwd_no_route := st_hd_fwd_no_route s + 1\<rparr>) c)
                     | Some r \<Rightarrow>
                         (let rt = w_routes (wk c i) ! r;
                              peer = set_rule 0 (\<lambda>f. f\<lparr>fr_dst_fd := r_fd rt, fr_dst_worker := r_worker_id rt\<rparr>)
                                (peer\<lparr>p_fwd1_dst_fd := r_fd rt, p_fwd1_dst_worker := r_worker_id rt\<rparr>) in
                          XferPush i (r_worker_id rt) (r_fd rt) buf len (set_pr i p peer c)))) })"

text \<open>A copy to every live HD peer of the worker but the source.\<close>

fun broadcast_hd :: "dp_env \<Rightarrow> nat \<Rightarrow> nat \<Rightarrow> bytes \<Rightarrow> nat list \<Rightarrow> Ctx \<Rightarrow> Ctx ub" where
  "broadcast_hd env i src frame [] c = Some c"
| "broadcast_hd env i src frame (q # qs) c =
     (if p_occupied (pr c i q) \<noteq> 1 \<or> q = src then broadcast_hd env i src frame qs c
      else if p_protocol (pr c i q) \<noteq> Protocol_kHd then broadcast_hd env i src frame qs c
      else do { c \<leftarrow> send_copy env i q frame c; broadcast_hd env i src frame qs c })"

text \<open>One rule of the source; without memory the remaining rules are skipped.\<close>

fun rules_loop :: "dp_env \<Rightarrow> nat \<Rightarrow> nat \<Rightarrow> bytes \<Rightarrow> nat list \<Rightarrow> Ctx \<Rightarrow> (Ctx \<times> bool) ub" where
  "rules_loop env i src frame [] c = Some (c, True)"
| "rules_loop env i src frame (r # rs) c =
     (case FrameAlloc env c i (int (length frame)) of
        (c, buf) \<Rightarrow>
          if buf = 0 then Some (c, False)
          else do {
            c \<leftarrow> put_frame buf frame c;
            let rule = p_fwd (pr c i src) ! r;
            let len = int (length frame);
            case (case fr_peer rule of None \<Rightarrow> None | Some d \<Rightarrow> if p_occupied (pr c i d) = 1 then Some d else None) of
              Some d \<Rightarrow> do { c \<leftarrow> EnqueueSend env i d buf len c; rules_loop env i src frame rs c }
            | None \<Rightarrow>
                if fr_dst_fd rule \<ge> 0 then do {
                  c \<leftarrow> XferPush i (fr_dst_worker rule) (fr_dst_fd rule) buf len c; rules_loop env i src frame rs c }
                else (case HtLookup (wk c i) (fr_key rule) of
                  Some d \<Rightarrow> do {
                    c \<leftarrow> EnqueueSend env i d buf len (set_pr i src (set_rule r (\<lambda>f. f\<lparr>fr_peer := Some d\<rparr>) (pr c i src)) c);
                    rules_loop env i src frame rs c }
                | None \<Rightarrow>
                    (case RouteLookup (w_routes (wk c i)) (fr_key rule) of
                       None \<Rightarrow> do { c \<leftarrow> FrameFree i buf c; rules_loop env i src frame rs c }
                     | Some k \<Rightarrow>
                         (let rt = w_routes (wk c i) ! k;
                              c = set_pr i src (set_rule r (\<lambda>f. f\<lparr>fr_dst_fd := r_fd rt, fr_dst_worker := r_worker_id rt\<rparr>)
                                (pr c i src)) c in
                          if r_fd rt < 0 then do { c \<leftarrow> FrameFree i buf c; rules_loop env i src frame rs c }
                          else do { c \<leftarrow> XferPush i (r_worker_id rt) (r_fd rt) buf len c; rules_loop env i src frame rs c }))) })"

text \<open>The payload as a DERP packet to every live DERP peer of the worker.\<close>

fun bridge_loop :: "dp_env \<Rightarrow> nat \<Rightarrow> nat \<Rightarrow> bytes \<Rightarrow> nat list \<Rightarrow> Ctx \<Rightarrow> Ctx ub" where
  "bridge_loop env i src hd_payload [] c = Some c"
| "bridge_loop env i src hd_payload (q # qs) c =
     (if p_occupied (pr c i q) \<noteq> 1 \<or> q = src then bridge_loop env i src hd_payload qs c
      else if p_protocol (pr c i q) \<noteq> Protocol_kDerp then bridge_loop env i src hd_payload qs c
      else (let n = kFrameHeaderSize + kKeySize + kMaxFramePayload in do {
        (derp_frame, derp_len) \<leftarrow> BridgeHdToDerp hd_payload (int (length hd_payload)) (p_key (pr c i src))
          (replicate (nat n) 0) n;
        c \<leftarrow> (if derp_len > 0 then do { bs \<leftarrow> rd 0 derp_len derp_frame; send_copy env i q bs c } else Some c);
        bridge_loop env i src hd_payload qs c }))"

definition ForwardHdData :: "dp_env \<Rightarrow> nat \<Rightarrow> nat \<Rightarrow> bytes \<Rightarrow> Ctx \<Rightarrow> Ctx ub" where
  "ForwardHdData env i src frame c =
     (if p_fwd_count (pr c i src) \<le> 0 then broadcast_hd env i src frame [0..<kHtCapacity] c
      else do {
        (c, ok) \<leftarrow> rules_loop env i src frame [0..<nat (p_fwd_count (pr c i src))] c;
        if \<not> ok then Some c
        else bridge_loop env i src (drop (nat kHdFrameHeaderSize) frame) [0..<kHtCapacity] c })"

section \<open>Messages to the control plane\<close>

definition pipe_message :: "int \<Rightarrow> u8 \<Rightarrow> bytes \<Rightarrow> bytes" where
  "pipe_message fd tag payload = be32 (word_of_int fd) @ tag # be32 (word_of_int (int (length payload))) @ payload"

definition NotifyPeerClose :: "nat \<Rightarrow> nat \<Rightarrow> Ctx \<Rightarrow> Ctx ub" where
  "NotifyPeerClose i p c = do {
     (buf, n) \<leftarrow> BuildPeerGone (replicate (nat (kFrameHeaderSize + kKeySize + 1)) 0) (p_key (pr c i p)) Gone_kDisconnected;
     bs \<leftarrow> rd 0 n buf;
     Some (dp_emit (Pipe_write i (be32 (word_of_int (p_fd (pr c i p))) @ bs)) c) }"

section \<open>Dispatch of HD frames\<close>

text \<open>A frame for one peer whose bytes are built in place.\<close>

definition mesh_bytes :: "u16 \<Rightarrow> bytes \<Rightarrow> bytes" where
  "mesh_bytes src_id body =
     HdFrameType_byte HdFrame_kMeshData # be24 (word_of_int (int (length body) + kHdMeshDstSize)) @ be16 src_id @ body"

text \<open>The peer another worker knows under a peer id: the worker and the socket.\<close>

definition find_mesh_worker :: "Ctx \<Rightarrow> nat \<Rightarrow> u16 \<Rightarrow> (nat \<times> int) option" where
  "find_mesh_worker c i dst_id =
     (case find (\<lambda>wi. wi \<noteq> i \<and> (case w_peer_id_map (wk c wi) of None \<Rightarrow> False | Some m \<Rightarrow> m dst_id \<noteq> None))
        [0..<length (cx_workers c)] of
        None \<Rightarrow> None
      | Some wi \<Rightarrow> Some (wi, p_fd (pr c wi (the (the (w_peer_id_map (wk c wi)) dst_id)))))"

definition local_peer :: "Ctx \<Rightarrow> nat \<Rightarrow> u16 \<Rightarrow> nat option" where
  "local_peer c i pid =
     (case w_peer_id_map (wk c i) of
        None \<Rightarrow> None
      | Some m \<Rightarrow> (case m pid of None \<Rightarrow> None | Some d \<Rightarrow> if p_occupied (pr c i d) = 1 then Some d else None))"

definition DispatchMesh :: "dp_env \<Rightarrow> nat \<Rightarrow> nat \<Rightarrow> bytes \<Rightarrow> Ctx \<Rightarrow> Ctx ub" where
  "DispatchMesh env i p payload c =
     (if int (length payload) < kHdMeshDstSize then Some c
      else do {
        dst_id \<leftarrow> HdReadMeshDst payload;
        let bs = mesh_bytes (p_peer_id (pr c i p)) (drop (nat kHdMeshDstSize) payload);
        case FrameAlloc env c i (int (length bs)) of
          (c, buf) \<Rightarrow>
            if buf = 0 then Some c
            else do {
              c \<leftarrow> put_frame buf bs c;
              c \<leftarrow> (case (if dst_id > 0 then local_peer c i dst_id else None) of
                  Some d \<Rightarrow> EnqueueSend env i d buf (int (length bs)) c
                | None \<Rightarrow>
                    (case find_mesh_worker c i dst_id of
                       Some (wi, dst_fd) \<Rightarrow> XferPush i (int wi) dst_fd buf (int (length bs)) c
                     | None \<Rightarrow> FrameFree i buf c));
              Some (stat i (\<lambda>s. s\<lparr>st_hd_mesh_forwards := st_hd_mesh_forwards s + 1\<rparr>) c) } })"

definition DispatchFleet :: "dp_env \<Rightarrow> nat \<Rightarrow> nat \<Rightarrow> bytes \<Rightarrow> bytes \<Rightarrow> Ctx \<Rightarrow> Ctx ub" where
  "DispatchFleet env i p frame payload c =
     (let counted = (\<lambda>d bs c. case FrameAlloc env c i (int (length bs)) of (c, buf) \<Rightarrow>
            if buf = 0 then Some c
            else do {
              c \<leftarrow> put_frame buf bs c;
              c \<leftarrow> EnqueueSend env i d buf (int (length bs)) c;
              Some (stat i (\<lambda>s. s\<lparr>st_hd_fleet_forwards := st_hd_fleet_forwards s + 1\<rparr>) c) }) in
      if int (length payload) < kHdFleetDstSize then Some c
      else do {
        dst_relay \<leftarrow> HdReadFleetRelay payload;
        dst_peer \<leftarrow> HdReadFleetPeer payload;
        if dst_relay = cx_relay_id c \<or> dst_relay = 0 then
          (case (if dst_peer > 0 then local_peer c i dst_peer else None) of
             None \<Rightarrow> Some c
           | Some d \<Rightarrow> counted d (mesh_bytes (p_peer_id (pr c i p)) (drop (nat kHdFleetDstSize) payload)) c)
        else (let next_peer = cx_relay_peer_map c dst_relay in
          if next_peer = 0 then Some c
          else (case local_peer c i next_peer of
             None \<Rightarrow> Some c
           | Some d \<Rightarrow> counted d frame c)) })"

definition DispatchHdFrame :: "dp_env \<Rightarrow> nat \<Rightarrow> nat \<Rightarrow> bytes \<Rightarrow> int \<Rightarrow> Ctx \<Rightarrow> Ctx ub" where
  "DispatchHdFrame env i p hdr payload_len c = do {
     hd_type \<leftarrow> HdReadFrameType hdr;
     frame \<leftarrow> rd 0 (kHdFrameHeaderSize + payload_len) hdr;
     let payload = drop (nat kHdFrameHeaderSize) frame;
     if hd_type = HdFrame_kData then
       (if p_fwd_count (pr c i p) = 1 then ForwardHdData1 env i p frame c else ForwardHdData env i p frame c)
     else if hd_type = HdFrame_kPing \<and> payload_len = kHdPingDataSize then do {
       (pong, n) \<leftarrow> HdBuildPong (replicate (nat (kHdFrameHeaderSize + kHdPingDataSize)) 0) payload;
       send_copy env i p pong c }
     else if hd_type = HdFrame_kMeshData then DispatchMesh env i p payload c
     else if hd_type = HdFrame_kFleetData then DispatchFleet env i p frame payload c
     else if hd_type = HdFrame_kPeerInfo then
       (if p_peer_id (pr c i p) > 0 \<and> cx_relay_id c > 0 then broadcast_hd env i p frame [0..<kHtCapacity] c else Some c)
     else if hd_type \<in> {HdFrame_kRouteAnnounce, HdFrame_kOpenConnection, HdFrame_kIncomingConnResponse,
         HdFrame_kFleetOpenConnection, HdFrame_kFleetOpenConnectionResult} then
       Some (dp_emit (Pipe_write i (pipe_message (p_fd (pr c i p)) (HdFrameType_byte hd_type) payload)) c)
     else Some c }"

section \<open>DERP forwarding\<close>

definition ForwardMsg :: "dp_env \<Rightarrow> nat \<Rightarrow> FrameType \<Rightarrow> bytes \<Rightarrow> nat \<Rightarrow> Ctx \<Rightarrow> Ctx ub" where
  "ForwardMsg env i type payload src c =
     (if \<not> w_running (wk c i) then Some c
      else if type \<noteq> Frame_kSendPacket
      then Some (dp_emit (Pipe_write i (pipe_message (p_fd (pr c i src)) (FrameType_byte type) payload)) c)
      else if int (length payload) < kKeySize then Some c
      else (let dst_key = take (nat kKeySize) payload;
          pkt_data = drop (nat kKeySize) payload;
          pkt_len = int (length payload) - kKeySize;
          frame_len = kFrameHeaderSize + kKeySize + pkt_len in
        case FrameAlloc env c i frame_len of
          (c, frame) \<Rightarrow>
            if frame = 0 then Some c
            else do {
              m \<leftarrow> cx_mem c frame;
              (m, n) \<leftarrow> BuildRecvPacket m (p_key (pr c i src)) pkt_data pkt_len;
              let c = c\<lparr>cx_mem := (cx_mem c)(frame \<mapsto> m)\<rparr>;
              case HtLookup (wk c i) dst_key of
                Some dst \<Rightarrow>
                  if p_protocol (pr c i dst) = Protocol_kHd then do {
                    c \<leftarrow> FrameFree i frame c;
                    let sz = kHdFrameHeaderSize + kMaxFramePayload;
                    (hd_frame, hd_len) \<leftarrow> BridgeDerpToHd payload (int (length payload)) (replicate (nat sz) 0) sz;
                    if hd_len > 0 then do { bs \<leftarrow> rd 0 hd_len hd_frame; send_copy env i dst bs c } else Some c }
                  else EnqueueSend env i dst frame frame_len c
              | None \<Rightarrow>
                  (case RouteLookup (w_routes (wk c i)) dst_key of
                     None \<Rightarrow> FrameFree i frame c
                   | Some r \<Rightarrow>
                       (let rt = w_routes (wk c i) ! r in
                        if r_worker_id rt < 0 \<or> r_worker_id rt \<ge> int (length (cx_workers c)) then None
                        else xfer_send i (nat (r_worker_id rt)) (r_fd rt) frame frame_len c)) }))"

definition DispatchFrame :: "dp_env \<Rightarrow> nat \<Rightarrow> nat \<Rightarrow> bytes \<Rightarrow> int \<Rightarrow> Ctx \<Rightarrow> Ctx ub" where
  "DispatchFrame env i p hdr payload_len c =
     (if p_protocol (pr c i p) = Protocol_kHd then DispatchHdFrame env i p hdr payload_len c
      else do {
        ty \<leftarrow> ReadFrameType hdr;
        payload \<leftarrow> rd kFrameHeaderSize payload_len hdr;
        ForwardMsg env i ty payload p c })"

end
