(* ===== verification/Dp_Events.thy ===== *)
theory Dp_Events
  imports Dp_Forward
begin

text \<open>
  What a worker reacts to, from \<^verbatim>\<open>src/data_plane.cc\<close>: completions of receives and sends, writable
  sockets, commands, transfers from other workers, and the loop over a batch of completions; and
  the entry points by which other threads enqueue commands.
\<close>

record Cqe =
  cqe_user_data :: u64
  cqe_res :: int
  cqe_more :: bool \<comment> \<open>\<^verbatim>\<open>IORING_CQE_F_MORE\<close>\<close>
  cqe_notif :: bool \<comment> \<open>\<^verbatim>\<open>IORING_CQE_F_NOTIF\<close>\<close>
  cqe_buffer :: bool \<comment> \<open>\<^verbatim>\<open>IORING_CQE_F_BUFFER\<close>\<close>
  cqe_data :: bytes \<comment> \<open>the bytes received, in the provided buffer or in \<^verbatim>\<open>rbuf\<close>\<close>

definition peer_at :: "Ctx \<Rightarrow> nat \<Rightarrow> int \<Rightarrow> nat option" where
  "peer_at c i fd = (if dp_fd fd then w_fd_map (wk c i) fd else None)"

definition forget_fd :: "nat \<Rightarrow> int \<Rightarrow> Ctx \<Rightarrow> Ctx" where
  "forget_fd i fd c = set_wk i ((wk c i)\<lparr>w_fd_map := (w_fd_map (wk c i))(fd := None)\<rparr>) c"

section \<open>Receiving\<close>

definition FrameHdrSize :: "Peer \<Rightarrow> int" where
  "FrameHdrSize p = (if p_protocol p = Protocol_kHd then kHdFrameHeaderSize else kFrameHeaderSize)"

definition ReadPeerPayloadLen :: "Peer \<Rightarrow> bytes \<Rightarrow> u32 ub" where
  "ReadPeerPayloadLen p hdr = (if p_protocol p = Protocol_kHd then HdReadPayloadLen hdr else ReadPayloadLen hdr)"

definition IsValidPeerPayloadLen :: "Peer \<Rightarrow> u32 \<Rightarrow> bool" where
  "IsValidPeerPayloadLen p len = (if p_protocol p = Protocol_kHd then HdIsValidPayloadLen len else IsValidPayloadLen len)"

text \<open>Completing a header byte by byte: the buffer, its length and the bytes left.\<close>

fun fill_header :: "int \<Rightarrow> bytes \<Rightarrow> int \<Rightarrow> bytes \<Rightarrow> (bytes \<times> int \<times> bytes) ub" where
  "fill_header hdr_size rbuf len [] = Some (rbuf, len, [])"
| "fill_header hdr_size rbuf len (b # bs) =
     (if len < hdr_size then do { rbuf \<leftarrow> wr len [b] rbuf; fill_header hdr_size rbuf (len + 1) bs }
      else Some (rbuf, len, b # bs))"

text \<open>
  The frames that lie complete in the provided buffer. The result is what is left, and whether
  an invalid length ended the loop.
\<close>

partial_function (option) provided_frames ::
  "dp_env \<Rightarrow> nat \<Rightarrow> nat \<Rightarrow> int \<Rightarrow> bool \<Rightarrow> bytes \<Rightarrow> Ctx \<Rightarrow> (bytes \<times> bool \<times> Ctx) option" where
  "provided_frames env i p hdr_size running buf c =
     (if running \<and> hdr_size \<le> int (length buf) then do {
        payload_len \<leftarrow> ReadPeerPayloadLen (pr c i p) buf;
        if \<not> IsValidPeerPayloadLen (pr c i p) payload_len
        then do { c \<leftarrow> NotifyPeerClose i p c; Some (buf, True, c) }
        else (let frame_len = hdr_size + sint payload_len in
          if frame_len > int (length buf) then Some (buf, False, c)
          else do {
            c \<leftarrow> DispatchFrame env i p buf (sint payload_len) c;
            provided_frames env i p hdr_size running (drop (nat frame_len) buf) c }) }
      else Some (buf, False, c))"

definition set_rbuf :: "nat \<Rightarrow> nat \<Rightarrow> bytes \<Rightarrow> int \<Rightarrow> Ctx \<Rightarrow> Ctx" where
  "set_rbuf i p b n c = set_pr i p ((pr c i p)\<lparr>p_rbuf := Some b, p_rbuf_len := n\<rparr>) c"

text \<open>
  A frame begun in \<^verbatim>\<open>rbuf\<close> is completed first. \<^const>\<open>None\<close> in the second component: the handler
  goes to \<^verbatim>\<open>return_buf\<close>.
\<close>

definition complete_partial :: "dp_env \<Rightarrow> nat \<Rightarrow> nat \<Rightarrow> bytes \<Rightarrow> Ctx \<Rightarrow> (Ctx \<times> bytes option) ub" where
  "complete_partial env i p buf c =
     (let peer = pr c i p; hdr_size = FrameHdrSize peer in
      if p_rbuf_len peer \<le> 0 then Some (c, Some buf)
      else do {
        rbuf \<leftarrow> p_rbuf peer;
        (rbuf, len, rest) \<leftarrow> fill_header hdr_size rbuf (p_rbuf_len peer) buf;
        let c = set_rbuf i p rbuf len c;
        if len < hdr_size then Some (c, None)
        else do {
          payload_len \<leftarrow> ReadPeerPayloadLen peer rbuf;
          if \<not> IsValidPeerPayloadLen peer payload_len
          then do { c \<leftarrow> NotifyPeerClose i p c; Some (set_rbuf i p rbuf 0 c, None) }
          else (let need = hdr_size + sint payload_len - len in
            if need > int (length rest)
            then do { rbuf \<leftarrow> wr len rest rbuf; Some (set_rbuf i p rbuf (len + int (length rest)) c, None) }
            else do {
              bs \<leftarrow> rd 0 need rest;
              rbuf \<leftarrow> wr len bs rbuf;
              c \<leftarrow> DispatchFrame env i p rbuf (sint payload_len) (set_rbuf i p rbuf len c);
              Some (set_rbuf i p rbuf 0 c, Some (drop (nat need) rest)) }) } })"

text \<open>Whether the peer is over its rate, and its window.\<close>

definition rate_limit :: "dp_env \<Rightarrow> nat \<Rightarrow> nat \<Rightarrow> int \<Rightarrow> Ctx \<Rightarrow> Ctx \<times> bool" where
  "rate_limit env i p n c =
     (if cx_peer_rate_limit c > 0 then
        (let peer = pr c i p; now = de_now env;
             peer = (if now - p_window_start_ns peer > 1000000000
                     then peer\<lparr>p_recv_bytes_window := 0, p_window_start_ns := now\<rparr> else peer);
             peer = peer\<lparr>p_recv_bytes_window := p_recv_bytes_window peer + word_of_int n\<rparr>;
             c = set_pr i p peer c in
         if p_recv_bytes_window peer > cx_peer_rate_limit c
         then (stat i (\<lambda>s. s\<lparr>st_rate_limit_drops := st_rate_limit_drops s + 1\<rparr>) c, True)
         else (c, False))
      else (c, False))"

definition recv_provided :: "dp_env \<Rightarrow> nat \<Rightarrow> int \<Rightarrow> nat \<Rightarrow> Cqe \<Rightarrow> Ctx \<Rightarrow> Ctx ub" where
  "recv_provided env i fd p cqe c =
     (if cqe_res cqe \<le> 0 then
        (if cqe_res cqe = 0 \<or> cqe_res cqe = - 104
         then do { c \<leftarrow> NotifyPeerClose i p c; Some (forget_fd i fd c) }
         else Some c)
      else (case rate_limit env i p (cqe_res cqe)
              (stat i (\<lambda>s. s\<lparr>st_recv_bytes := st_recv_bytes s + word_of_int (cqe_res cqe)\<rparr>) c) of
          (c, True) \<Rightarrow> Some c
        | (c, False) \<Rightarrow> do {
            (c, rest) \<leftarrow> complete_partial env i p (cqe_data cqe) c;
            case rest of
              None \<Rightarrow> Some c
            | Some buf \<Rightarrow> do {
                (tail, closed, c) \<leftarrow> provided_frames env i p (FrameHdrSize (pr c i p)) (w_running (wk c i)) buf c;
                if closed \<or> tail = [] then Some c
                else do {
                  rbuf \<leftarrow> p_rbuf (pr c i p);
                  rbuf \<leftarrow> wr 0 tail rbuf;
                  Some (set_rbuf i p rbuf (int (length tail)) c) } } }))"

text \<open>The buffer goes back to the kernel, and the receive is submitted again.\<close>

definition HandleRecvProvided :: "dp_env \<Rightarrow> nat \<Rightarrow> Cqe \<Rightarrow> bool \<Rightarrow> Ctx \<Rightarrow> Ctx ub" where
  "HandleRecvProvided env i cqe multishot_active c =
     (let fd = UdFd (cqe_user_data cqe) in do {
        c \<leftarrow> (case peer_at c i fd of None \<Rightarrow> Some c | Some p \<Rightarrow> recv_provided env i fd p cqe c);
        Some (if \<not> multishot_active \<and> peer_at c i fd \<noteq> None then SubmitRecv env i fd c else c) })"

partial_function (option) single_frames ::
  "dp_env \<Rightarrow> nat \<Rightarrow> nat \<Rightarrow> int \<Rightarrow> bool \<Rightarrow> Ctx \<Rightarrow> (bool \<times> Ctx) option" where
  "single_frames env i p hdr_size running c =
     (if running \<and> hdr_size \<le> p_rbuf_len (pr c i p) then do {
        rbuf \<leftarrow> p_rbuf (pr c i p);
        payload_len \<leftarrow> ReadPeerPayloadLen (pr c i p) rbuf;
        if \<not> IsValidPeerPayloadLen (pr c i p) payload_len
        then do { c \<leftarrow> NotifyPeerClose i p c; Some (True, c) }
        else (let frame_len = hdr_size + sint payload_len in
          if p_rbuf_len (pr c i p) < frame_len then Some (False, c)
          else do {
            c \<leftarrow> DispatchFrame env i p rbuf (sint payload_len) c;
            let remaining = p_rbuf_len (pr c i p) - frame_len;
            rbuf \<leftarrow> p_rbuf (pr c i p);
            rbuf \<leftarrow> (if remaining > 0 then memcpy 0 rbuf frame_len remaining rbuf else Some rbuf);
            single_frames env i p hdr_size running (set_rbuf i p rbuf remaining c) }) }
      else Some (False, c))"

definition HandleRecvSingle :: "dp_env \<Rightarrow> nat \<Rightarrow> Cqe \<Rightarrow> Ctx \<Rightarrow> Ctx ub" where
  "HandleRecvSingle env i cqe c =
     (let fd = UdFd (cqe_user_data cqe) in
      case peer_at c i fd of
        None \<Rightarrow> Some c
      | Some p \<Rightarrow>
          if cqe_res cqe \<le> 0 then
            (if cqe_res cqe = 0 \<or> cqe_res cqe = - 104
             then do { c \<leftarrow> NotifyPeerClose i p c; Some (forget_fd i fd c) }
             else Some c)
          else do {
            let c = stat i (\<lambda>s. s\<lparr>st_recv_bytes := st_recv_bytes s + word_of_int (cqe_res cqe)\<rparr>) c;
            rbuf \<leftarrow> p_rbuf (pr c i p);
            rbuf \<leftarrow> wr (p_rbuf_len (pr c i p)) (cqe_data cqe) rbuf;
            let c = set_rbuf i p rbuf (p_rbuf_len (pr c i p) + cqe_res cqe) c;
            (closed, c) \<leftarrow> single_frames env i p (FrameHdrSize (pr c i p)) (w_running (wk c i)) c;
            Some (if \<not> closed \<and> p_occupied (pr c i p) = 1 then SubmitRecv env i fd c else c) })"

definition HandleRecvCqe :: "dp_env \<Rightarrow> nat \<Rightarrow> Cqe \<Rightarrow> Ctx \<Rightarrow> Ctx ub" where
  "HandleRecvCqe env i cqe c =
     (let w = wk c i; n = w_recv_inflight w - 1;
          c = (if cqe_more cqe then c else set_wk i (w\<lparr>w_recv_inflight := (if n < 0 then 0 else n)\<rparr>) c);
          fd = UdFd (cqe_user_data cqe) in
      if cqe_buffer cqe then HandleRecvProvided env i cqe (cqe_more cqe) c
      else if w_use_provided_bufs (wk c i) then
        (if cqe_res cqe = 0 \<or> cqe_res cqe = - 104 then
           (case peer_at c i fd of
              None \<Rightarrow> Some c
            | Some p \<Rightarrow> do { c \<leftarrow> NotifyPeerClose i p c; Some (forget_fd i fd c) })
         else if cqe_res cqe = - 105 \<or> cqe_res cqe = - 22 then
           (let c = (if cqe_res cqe = - 105 then stat i (\<lambda>s. s\<lparr>st_recv_enobufs := st_recv_enobufs s + 1\<rparr>) c else c);
                c = (if cqe_res cqe = - 22 then set_wk i ((wk c i)\<lparr>w_use_multishot_recv := False\<rparr>) c else c) in
            Some (if peer_at c i fd \<noteq> None then SubmitRecv env i fd c else c))
         else Some c)
      else HandleRecvSingle env i cqe c)"

section \<open>Send completions\<close>

text \<open>Freeing the first item, or all items, that wait for a notification.\<close>

definition free_notif :: "nat \<Rightarrow> int \<Rightarrow> Ctx \<Rightarrow> Ctx ub" where
  "free_notif i fd c =
     (case w_notif_map (wk c i) fd of
        [] \<Rightarrow> Some c
      | item # rest \<Rightarrow>
          free_item i item (set_wk i ((wk c i)\<lparr>w_notif_map := (w_notif_map (wk c i))(fd := rest)\<rparr>) c))"

fun free_notifs :: "nat \<Rightarrow> nat \<Rightarrow> int \<Rightarrow> Ctx \<Rightarrow> Ctx ub" where
  "free_notifs 0 i fd c = Some c"
| "free_notifs (Suc n) i fd c = do { c \<leftarrow> free_notif i fd c; free_notifs n i fd c }"

definition arm_poll_write :: "dp_env \<Rightarrow> nat \<Rightarrow> nat \<Rightarrow> int \<Rightarrow> Ctx \<Rightarrow> Ctx" where
  "arm_poll_write env i p fd c =
     (case GetSqe env i c of
        (c, False) \<Rightarrow> c
      | (c, True) \<Rightarrow> dp_emit (Sq_poll_write i fd) (set_pr i p ((pr c i p)\<lparr>p_poll_write_pending := True\<rparr>) c))"

text \<open>Backing off: the send does not count, and the next to submit is the first not in flight.\<close>

definition back_off :: "dp_env \<Rightarrow> nat \<Rightarrow> nat \<Rightarrow> int \<Rightarrow> Ctx \<Rightarrow> Ctx" where
  "back_off env i p fd c =
     (let peer = pr c i p; n = p_send_inflight peer - 1;
          c = set_pr i p (peer\<lparr>p_send_inflight := n,
                p_send_next := (if nat n < length (p_queue peer) then Some (nat n) else None)\<rparr>) c in
      if \<not> p_poll_write_pending (pr c i p) then arm_poll_write env i p fd c else c)"

text \<open>A short write: the rest of the frame is copied, put at the head and submitted again.\<close>

definition short_write :: "dp_env \<Rightarrow> nat \<Rightarrow> nat \<Rightarrow> int \<Rightarrow> int \<Rightarrow> bool \<Rightarrow> Ctx \<Rightarrow> Ctx ub" where
  "short_write env i p fd sent defer_notif c =
     (let item = hd (p_queue (pr c i p)); remaining = si_len item - sent in
      case FrameAlloc env c i remaining of
        (c, newbuf) \<Rightarrow>
          if newbuf = 0 then DrainSendQueue env i p defer_notif c
          else do {
            m \<leftarrow> cx_mem c (si_data item);
            bs \<leftarrow> rd sent remaining m;
            c \<leftarrow> put_frame newbuf bs c;
            let peer = pr c i p;
            next \<leftarrow> (case p_send_next peer of
                None \<Rightarrow> Some None
              | Some 0 \<Rightarrow> None
              | Some (Suc k) \<Rightarrow> Some (Some k));
            c \<leftarrow> retire i fd item defer_notif
              (set_pr i p (peer\<lparr>p_queue := tl (p_queue peer), p_send_next := next\<rparr>) c);
            case SlabAllocItem env c i of
              (c, None) \<Rightarrow> do {
                let c = stat i (\<lambda>s. s\<lparr>st_slab_exhausts := st_slab_exhausts s + 1\<rparr>) c;
                c \<leftarrow> FrameFree i newbuf c;
                let c = set_pr i p ((pr c i p)\<lparr>p_send_inflight := p_send_inflight (pr c i p) - 1\<rparr>) c;
                if p_send_next (pr c i p) \<noteq> None \<and> p_send_inflight (pr c i p) < kMaxSendsInflight
                then map_option fst (submit_next env i p c) else Some c }
            | (c, Some slab) \<Rightarrow> do {
                let peer = pr c i p;
                let c = set_pr i p (peer\<lparr>p_queue := \<lparr>si_data = newbuf, si_len = remaining, si_slab = slab\<rparr> # p_queue peer,
                      p_send_next := map_option Suc (p_send_next peer)\<rparr>) c;
                (c, ok) \<leftarrow> submit_send env i fd newbuf remaining False False c;
                if ok then Some c
                else Some (set_pr i p ((pr c i p)\<lparr>p_send_inflight := p_send_inflight (pr c i p) - 1\<rparr>) c) } })"

definition HandleSendCqe :: "dp_env \<Rightarrow> nat \<Rightarrow> Cqe \<Rightarrow> Ctx \<Rightarrow> Ctx ub" where
  "HandleSendCqe env i cqe c =
     (let fd = UdFd (cqe_user_data cqe); res = cqe_res cqe; defer_notif = cqe_more cqe in
      if cqe_notif cqe then (if dp_fd fd then free_notif i fd c else Some c)
      else (case peer_at c i fd of
        None \<Rightarrow>
          if \<not> cqe_more cqe \<and> dp_fd fd then free_notifs (length (w_notif_map (wk c i) fd)) i fd c else Some c
      | Some p \<Rightarrow>
          if res < 0 then
            (if res = - 95 then
               (let peer = pr c i p; n = p_send_inflight peer - 1;
                    c = set_pr i p (peer\<lparr>p_no_zc := True, p_zc_draining := True, p_send_inflight := n\<rparr>) c in
                if n = 0 then
                  (let peer = pr c i p;
                       c = set_pr i p (peer\<lparr>p_zc_draining := False,
                             p_send_next := (if p_queue peer = [] then None else Some 0)\<rparr>) c in
                   submit_batch env i p (nat kMaxSendsInflight) c)
                else Some c)
             else if res = - 11 then
               Some (back_off env i p fd (stat i (\<lambda>s. s\<lparr>st_send_eagain := st_send_eagain s + 1\<rparr>) c))
             else if res = - 12 then Some (back_off env i p fd c)
             else do {
               c \<leftarrow>
                 (if res = - 32 then NotifyPeerClose i p (stat i (\<lambda>s. s\<lparr>st_send_epipe := st_send_epipe s + 1\<rparr>) c)
                  else if res = - 104 \<or> res = - 107
                  then NotifyPeerClose i p (stat i (\<lambda>s. s\<lparr>st_send_econnreset := st_send_econnreset s + 1\<rparr>) c)
                  else Some (stat i (\<lambda>s. s\<lparr>st_send_other_err := st_send_other_err s + 1\<rparr>) c));
               DrainSendQueue env i p defer_notif (stat i (\<lambda>s. s\<lparr>st_send_drops := st_send_drops s + 1\<rparr>) c) })
          else
            (let c = stat i (\<lambda>s. s\<lparr>st_send_bytes := st_send_bytes s + word_of_int res\<rparr>) c in
             if p_queue (pr c i p) \<noteq> [] \<and> res < si_len (hd (p_queue (pr c i p)))
             then short_write env i p fd res defer_notif c
             else DrainSendQueue env i p defer_notif c)))"

definition HandlePollWrite :: "dp_env \<Rightarrow> nat \<Rightarrow> Cqe \<Rightarrow> Ctx \<Rightarrow> Ctx ub" where
  "HandlePollWrite env i cqe c =
     (let fd = UdFd (cqe_user_data cqe) in
      case peer_at c i fd of
        None \<Rightarrow> Some c
      | Some p \<Rightarrow> do {
          c \<leftarrow> submit_batch env i p (nat kPollWriteBatch) (set_pr i p ((pr c i p)\<lparr>p_poll_write_pending := False\<rparr>) c);
          Some (if p_send_next (pr c i p) \<noteq> None \<and> p_send_inflight (pr c i p) < kMaxSendsInflight \<and>
                   \<not> p_poll_write_pending (pr c i p)
                then arm_poll_write env i p fd c else c) })"

section \<open>Commands\<close>

definition set_routes :: "Route list list \<Rightarrow> Ctx \<Rightarrow> Ctx" where
  "set_routes ts c = c\<lparr>cx_workers := map (\<lambda>(w, t). w\<lparr>w_routes := t\<rparr>) (zip (cx_workers c) ts)\<rparr>"

definition ProcessCmdAdd :: "dp_env \<Rightarrow> nat \<Rightarrow> Cmd \<Rightarrow> Ctx \<Rightarrow> Ctx ub" where
  "ProcessCmdAdd env i cmd c =
     (if \<not> dp_fd (cmd_fd cmd) then Some c
      else (let c = fst (HtInsert env i (cmd_fd cmd) (cmd_key cmd) c) in
        case HtLookup (wk c i) (cmd_key cmd) of
          None \<Rightarrow> Some c
        | Some p \<Rightarrow>
            (let c = set_pr i p ((pr c i p)\<lparr>p_protocol := cmd_protocol cmd, p_peer_id := cmd_peer_id cmd\<rparr>) c;
                 w = wk c i;
                 c = set_wk i (w\<lparr>w_fd_map := (w_fd_map w)(cmd_fd cmd := Some p),
                       w_fd_gen := (w_fd_gen w)(cmd_fd cmd := w_fd_gen w (cmd_fd cmd) + 1),
                       w_peer_count := w_peer_count w + 1\<rparr>) c;
                 c = (if cmd_protocol cmd = Protocol_kHd \<and> cmd_peer_id cmd > 0 then
                       (let w = wk c i;
                            (c, m) = (case w_peer_id_map w of
                                Some m \<Rightarrow> (c, Some m)
                              | None \<Rightarrow> (c\<lparr>cx_mallocs := cx_mallocs c + 1\<rparr>,
                                  if de_malloc env (cx_mallocs c) (cx_mem c) = 0 then None else Some (\<lambda>_. None))) in
                        set_wk i (w\<lparr>w_peer_id_map := map_option (\<lambda>m. m(cmd_peer_id cmd := Some p)) m\<rparr>) c)
                      else c);
                 c = set_routes (BroadcastRouteAdd (map w_routes (cx_workers c)) (cmd_key cmd) (int i) (cmd_fd cmd)) c;
                 c = (if de_unix env (cmd_fd cmd) then set_pr i p ((pr c i p)\<lparr>p_no_zc := True\<rparr>) c else c) in
             Some (SubmitRecv env i (cmd_fd cmd) c))))"

text \<open>Before a peer is removed its id and its socket are forgotten.\<close>

definition forget_peer :: "nat \<Rightarrow> nat \<Rightarrow> Ctx \<Rightarrow> Ctx" where
  "forget_peer i p c =
     (let peer = pr c i p; w = wk c i;
          w = (if p_peer_id peer > 0
               then w\<lparr>w_peer_id_map := map_option (\<lambda>m. m(p_peer_id peer := None)) (w_peer_id_map w)\<rparr> else w);
          w = (if dp_fd (p_fd peer) then w\<lparr>w_fd_map := (w_fd_map w)(p_fd peer := None)\<rparr> else w) in
      set_wk i w c)"

definition ProcessCmdRemove :: "dp_env \<Rightarrow> nat \<Rightarrow> Cmd \<Rightarrow> Ctx \<Rightarrow> Ctx ub" where
  "ProcessCmdRemove env i cmd c =
     (case HtLookup (wk c i) (cmd_key cmd) of
        None \<Rightarrow> Some c
      | Some p \<Rightarrow> do {
          let fd = p_fd (pr c i p);
          let c = forget_peer i p c;
          let c = (if dp_fd fd then dp_emit (Sys_close fd) c else c);
          c \<leftarrow> HtRemove env i (cmd_key cmd) c;
          Some (set_routes (BroadcastRouteRemove (map w_routes (cx_workers c)) (cmd_key cmd)) c) })"

text \<open>The data of the command is freed at the end.\<close>

definition ProcessCmdWrite :: "dp_env \<Rightarrow> nat \<Rightarrow> Cmd \<Rightarrow> Ctx \<Rightarrow> Ctx ub" where
  "ProcessCmdWrite env i cmd c = do {
     c \<leftarrow>
       (case HtLookup (wk c i) (cmd_key cmd) of
          None \<Rightarrow> Some c
        | Some p \<Rightarrow>
            (case FrameAlloc env c i (kFrameHeaderSize + cmd_data_len cmd) of
               (c, frame) \<Rightarrow>
                 if frame = 0 then Some c
                 else do {
                   bs \<leftarrow> get_frame (cmd_data cmd) (cmd_data_len cmd) c;
                   c \<leftarrow> put_frame frame bs c;
                   EnqueueSend env i p frame (cmd_data_len cmd) c }));
     if cmd_data cmd = 0 then Some c
     else if cx_mem c (cmd_data cmd) = None then None
     else Some (c\<lparr>cx_mem := (cx_mem c)(cmd_data cmd := None)\<rparr>) }"

definition ProcessCmdSetFwdRule :: "nat \<Rightarrow> Cmd \<Rightarrow> Ctx \<Rightarrow> Ctx" where
  "ProcessCmdSetFwdRule i cmd c =
     (case HtLookup (wk c i) (cmd_key cmd) of
        None \<Rightarrow> c
      | Some p \<Rightarrow>
          if p_fwd_count (pr c i p) \<ge> int kMaxPeerRules then c
          else (let peer = pr c i p; idx = nat (p_fwd_count peer);
              dst = HtLookup (wk c i) (cmd_dst_key cmd);
              peer = set_rule idx (\<lambda>f. f\<lparr>fr_key := cmd_dst_key cmd, fr_peer := dst\<rparr>) peer;
              peer = (if dst = None then
                  (case RouteLookup (w_routes (wk c i)) (cmd_dst_key cmd) of
                     None \<Rightarrow> peer
                   | Some r \<Rightarrow> set_rule idx (\<lambda>f. f\<lparr>fr_dst_worker := r_worker_id (w_routes (wk c i) ! r),
                       fr_dst_fd := r_fd (w_routes (wk c i) ! r)\<rparr>) peer)
                else peer);
              peer = (if idx = 0 then
                  (let peer = peer\<lparr>p_fwd1_peer := dst\<rparr> in
                   if dst = None then peer\<lparr>p_fwd1_dst_fd := fr_dst_fd (p_fwd peer ! 0),
                     p_fwd1_dst_worker := fr_dst_worker (p_fwd peer ! 0)\<rparr> else peer)
                else peer) in
            set_pr i p (peer\<lparr>p_fwd_count := p_fwd_count peer + 1\<rparr>) c))"

definition ProcessCmdMovePeerOut :: "dp_env \<Rightarrow> nat \<Rightarrow> Cmd \<Rightarrow> Ctx \<Rightarrow> Ctx ub" where
  "ProcessCmdMovePeerOut env i cmd c =
     (case HtLookup (wk c i) (cmd_key cmd) of
        None \<Rightarrow> Some c
      | Some p \<Rightarrow> do {
          c \<leftarrow> HtRemove env i (cmd_key cmd) (forget_peer i p c);
          let w = wk c i;
          Some (set_wk i (w\<lparr>w_peer_count := (if w_peer_count w > 0 then w_peer_count w - 1 else w_peer_count w)\<rparr>) c) })"

definition ProcessCmd :: "dp_env \<Rightarrow> nat \<Rightarrow> Cmd \<Rightarrow> Ctx \<Rightarrow> Ctx ub" where
  "ProcessCmd env i cmd c =
     (case cmd_type cmd of
        kCmdAddPeer \<Rightarrow> ProcessCmdAdd env i cmd c
      | kCmdRemovePeer \<Rightarrow> ProcessCmdRemove env i cmd c
      | kCmdWrite \<Rightarrow> ProcessCmdWrite env i cmd c
      | kCmdSetFwdRule \<Rightarrow> Some (ProcessCmdSetFwdRule i cmd c)
      | kCmdMovePeerOut \<Rightarrow> ProcessCmdMovePeerOut env i cmd c
      | kCmdStop \<Rightarrow> Some (set_wk i ((wk c i)\<lparr>w_running := False\<rparr>) c))"

text \<open>The ring holds fewer commands than its size, which bounds the loop.\<close>

fun commands_loop :: "nat \<Rightarrow> dp_env \<Rightarrow> nat \<Rightarrow> Ctx \<Rightarrow> Ctx ub" where
  "commands_loop 0 env i c = Some c"
| "commands_loop (Suc n) env i c =
     (case RingPop (w_cmd_ring (wk c i)) of
        (ring, rc, Some cmd) \<Rightarrow> do {
          c \<leftarrow> ProcessCmd env i cmd (set_wk i ((wk c i)\<lparr>w_cmd_ring := ring\<rparr>) c);
          commands_loop n env i c }
      | (ring, rc, None) \<Rightarrow> Some c)"

definition ProcessCommands :: "dp_env \<Rightarrow> nat \<Rightarrow> Ctx \<Rightarrow> Ctx ub" where
  "ProcessCommands env i c = commands_loop kCmdRingSize env i c"

section \<open>Transfers\<close>

definition accept_xfer :: "dp_env \<Rightarrow> nat \<Rightarrow> Xfer \<Rightarrow> Ctx \<Rightarrow> Ctx ub" where
  "accept_xfer env i x c =
     (case peer_at c i (x_dst_fd x) of
        None \<Rightarrow> FrameFree i (x_frame x) c
      | Some p \<Rightarrow>
          if x_dst_gen x \<noteq> w_fd_gen (wk c i) (x_dst_fd x) then FrameFree i (x_frame x) c
          else EnqueueSend env i p (x_frame x) (x_frame_len x) c)"

fun xfer_loop :: "nat \<Rightarrow> dp_env \<Rightarrow> nat \<Rightarrow> nat \<Rightarrow> Ctx \<Rightarrow> Ctx ub" where
  "xfer_loop 0 env i src c = Some c"
| "xfer_loop (Suc n) env i src c =
     (case XferSpscPop (w_xfer_inbox (wk c i) ! src) of
        (ring, rc, Some x) \<Rightarrow> do {
          c \<leftarrow> accept_xfer env i x (set_wk i ((wk c i)\<lparr>w_xfer_inbox := (w_xfer_inbox (wk c i))[src := ring]\<rparr>) c);
          xfer_loop n env i src c }
      | (ring, rc, None) \<Rightarrow> Some c)"

fun xfer_sources :: "nat list \<Rightarrow> dp_env \<Rightarrow> nat \<Rightarrow> Ctx \<Rightarrow> Ctx ub" where
  "xfer_sources [] env i c = Some c"
| "xfer_sources (src # srcs) env i c = do { c \<leftarrow> xfer_loop kXferSpscSize env i src c; xfer_sources srcs env i c }"

definition set_bits :: "u32 \<Rightarrow> nat list" where
  "set_bits sources = filter (\<lambda>j. bit sources j) [0..<kMaxWorkers]"

definition ProcessXfer :: "dp_env \<Rightarrow> nat \<Rightarrow> Ctx \<Rightarrow> Ctx ub" where
  "ProcessXfer env i c =
     (let sources = w_pending_sources (wk c i) in
      xfer_sources (set_bits sources) env i (set_wk i ((wk c i)\<lparr>w_pending_sources := 0\<rparr>) c))"

definition FlushXferSignals :: "nat \<Rightarrow> Ctx \<Rightarrow> Ctx" where
  "FlushXferSignals i c =
     (let sources = w_xfer_signal_pending (wk c i) in
      fold (\<lambda>d. dp_emit (Sys_signal d)) (set_bits sources) (set_wk i ((wk c i)\<lparr>w_xfer_signal_pending := 0\<rparr>) c))"

section \<open>The loop\<close>

definition kOpRecv :: u8 where "kOpRecv = 1"
definition kOpSend :: u8 where "kOpSend = 2"
definition kOpPollCmd :: u8 where "kOpPollCmd = 3"
definition kOpPollXfer :: u8 where "kOpPollXfer = 4"
definition kOpPollWrite :: u8 where "kOpPollWrite = 5"

definition SubmitPollMultishot :: "dp_env \<Rightarrow> nat \<Rightarrow> u8 \<Rightarrow> Ctx \<Rightarrow> Ctx" where
  "SubmitPollMultishot env i op c =
     (case GetSqe env i c of
        (c, False) \<Rightarrow> c
      | (c, True) \<Rightarrow> dp_emit (Sq_poll_multishot i op) c)"

text \<open>
  A send to a socket of another worker, without a queue: its completion carries the frame's
  address with bit 63 set.
\<close>

definition EnqueueSendDirect :: "dp_env \<Rightarrow> nat \<Rightarrow> int \<Rightarrow> nat \<Rightarrow> int \<Rightarrow> Ctx \<Rightarrow> Ctx ub" where
  "EnqueueSendDirect env i fd buf len c =
     (case GetSqe env i c of
        (c, False) \<Rightarrow> FrameFree i buf c
      | (c, True) \<Rightarrow> do {
          bs \<leftarrow> get_frame buf len c;
          Some (stat i (\<lambda>s. s\<lparr>st_send_bytes := st_send_bytes s + word_of_int len\<rparr>)
            (dp_emit (Sq_send_direct i fd bs buf) c)) })"

definition rearm :: "dp_env \<Rightarrow> nat \<Rightarrow> Cqe \<Rightarrow> u8 \<Rightarrow> Ctx \<Rightarrow> Ctx" where
  "rearm env i cqe op c = (if cqe_more cqe then c else SubmitPollMultishot env i op c)"

text \<open>Reading the event counters is left out: their values are never used.\<close>

definition process_cqe :: "dp_env \<Rightarrow> nat \<Rightarrow> Cqe \<Rightarrow> Ctx \<Rightarrow> Ctx ub" where
  "process_cqe env i cqe c =
     (if bit (cqe_user_data cqe) 63 then FrameFree i (unat (cqe_user_data cqe AND NOT (push_bit 63 1))) c
      else (let op = UdOp (cqe_user_data cqe) in
        if op = kOpRecv then HandleRecvCqe env i cqe c
        else if op = kOpSend then HandleSendCqe env i cqe c
        else if op = kOpPollCmd then do { c \<leftarrow> ProcessCommands env i c; Some (rearm env i cqe op c) }
        else if op = kOpPollXfer then do { c \<leftarrow> ProcessXfer env i c; Some (rearm env i cqe op c) }
        else if op = kOpPollWrite then HandlePollWrite env i cqe c
        else Some c))"

fun cqe_loop :: "dp_env \<Rightarrow> nat \<Rightarrow> Cqe list \<Rightarrow> Ctx \<Rightarrow> Ctx ub" where
  "cqe_loop env i [] c = Some c"
| "cqe_loop env i (cqe # cqes) c = do { c \<leftarrow> process_cqe env i cqe c; cqe_loop env i cqes c }"

text \<open>One round of \<^verbatim>\<open>WorkerRun\<close> on the completions that are ready.\<close>

definition worker_round :: "dp_env \<Rightarrow> nat \<Rightarrow> Cqe list \<Rightarrow> Ctx \<Rightarrow> Ctx ub" where
  "worker_round env i cqes c = do {
     c \<leftarrow> cqe_loop env i (take kMaxCqeBatch cqes) c;
     c \<leftarrow> FlushPendingSends env i (FlushXferSignals i c);
     c \<leftarrow> ProcessXfer env i c;
     c \<leftarrow> FlushPendingSends env i c;
     c \<leftarrow> DrainDeferredRecvs env i c;
     Some (FrameReturnDrain i c) }"

text \<open>After the loop only sends are completed, to let the kernel give back what it holds.\<close>

definition drain_cqe :: "dp_env \<Rightarrow> nat \<Rightarrow> Cqe \<Rightarrow> Ctx \<Rightarrow> Ctx ub" where
  "drain_cqe env i cqe c =
     (if bit (cqe_user_data cqe) 63 then FrameFree i (unat (cqe_user_data cqe AND NOT (push_bit 63 1))) c
      else (let op = UdOp (cqe_user_data cqe) in
        if op = kOpSend then HandleSendCqe env i cqe c
        else if op = kOpPollWrite then HandlePollWrite env i cqe c
        else Some c))"

section \<open>Entry points\<close>

definition kCmdPushRetries :: nat where "kCmdPushRetries = 10000"

text \<open>The retries of a push to a ring that stays full.\<close>

fun enqueue_loop :: "nat \<Rightarrow> nat \<Rightarrow> Cmd \<Rightarrow> Ctx \<Rightarrow> Ctx \<times> int" where
  "enqueue_loop 0 i cmd c = (dp_emit (Sys_signal i) c, -1)"
| "enqueue_loop (Suc n) i cmd c =
     (case RingPush (w_cmd_ring (wk c i)) cmd of
        (ring, rc) \<Rightarrow>
          if rc = 0 then (dp_emit (Sys_signal i) (set_wk i ((wk c i)\<lparr>w_cmd_ring := ring\<rparr>) c), 0)
          else enqueue_loop n i cmd c)"

definition EnqueueCmd :: "nat \<Rightarrow> Cmd \<Rightarrow> Ctx \<Rightarrow> Ctx \<times> int" where
  "EnqueueCmd i cmd c = enqueue_loop kCmdPushRetries i cmd c"

definition Cmd_init :: "CmdType \<Rightarrow> Cmd" where
  "Cmd_init ty = \<lparr>cmd_type = ty, cmd_fd = 0, cmd_key = zero_Key, cmd_data = 0, cmd_data_len = 0,
     cmd_protocol = Protocol_kDerp, cmd_peer_id = 0, cmd_dst_key = zero_Key, cmd_retries = 0\<rparr>"

definition key_worker :: "Ctx \<Rightarrow> Key \<Rightarrow> nat ub" where
  "key_worker c key = map_option nat (PeerWorker (int (length (cx_workers c))) key)"

definition DpAddPeerToWorker :: "int \<Rightarrow> Key \<Rightarrow> PeerProtocol \<Rightarrow> int \<Rightarrow> u16 \<Rightarrow> Ctx \<Rightarrow> Ctx ub" where
  "DpAddPeerToWorker fd key protocol wid peer_id c = do {
     wid \<leftarrow> (if wid < 0 \<or> wid \<ge> int (length (cx_workers c)) then key_worker c key else Some (nat wid));
     Some (fst (EnqueueCmd wid ((Cmd_init kCmdAddPeer)\<lparr>cmd_fd := fd, cmd_key := key, cmd_protocol := protocol,
       cmd_peer_id := peer_id\<rparr>) c)) }"

definition DpAddPeer :: "int \<Rightarrow> Key \<Rightarrow> PeerProtocol \<Rightarrow> u16 \<Rightarrow> Ctx \<Rightarrow> Ctx ub" where
  "DpAddPeer fd key protocol peer_id c = do {
     wid \<leftarrow> key_worker c key;
     DpAddPeerToWorker fd key protocol (int wid) peer_id c }"

definition DpRemovePeer :: "Key \<Rightarrow> Ctx \<Rightarrow> Ctx ub" where
  "DpRemovePeer key c = do {
     wid \<leftarrow> key_worker c key;
     Some (fst (EnqueueCmd wid ((Cmd_init kCmdRemovePeer)\<lparr>cmd_key := key\<rparr>) c)) }"

definition DpAddFwdRule :: "Key \<Rightarrow> Key \<Rightarrow> Ctx \<Rightarrow> Ctx ub" where
  "DpAddFwdRule peer_key dst_key c = do {
     wid \<leftarrow> key_worker c peer_key;
     Some (fst (EnqueueCmd wid ((Cmd_init kCmdSetFwdRule)\<lparr>cmd_key := peer_key, cmd_dst_key := dst_key\<rparr>) c)) }"

definition DpWrite :: "Key \<Rightarrow> nat \<Rightarrow> int \<Rightarrow> Ctx \<Rightarrow> Ctx ub" where
  "DpWrite key data data_len c = do {
     wid \<leftarrow> key_worker c key;
     Some (fst (EnqueueCmd wid ((Cmd_init kCmdWrite)\<lparr>cmd_key := key, cmd_data := data, cmd_data_len := data_len\<rparr>) c)) }"

definition DpStop :: "Ctx \<Rightarrow> Ctx" where
  "DpStop c =
     (let c = c\<lparr>cx_workers := map (\<lambda>w. w\<lparr>w_running := False\<rparr>) (cx_workers c)\<rparr> in
      fold (\<lambda>i c. fst (EnqueueCmd i (Cmd_init kCmdStop) c)) [0..<length (cx_workers c)] c)"

end
