(* ===== verification/Dp_Core.thy ===== *)
theory Dp_Core
  imports Dp_Events
begin

text \<open>
  What forwarding and send completions leave alone. The core of the data plane's state is
  everything that commands and receives decide: who is connected on which socket, with which
  protocol, key and partial input, the routes, and the tables that find a peer. No operation on
  frames, queues or rings changes it.
\<close>

section \<open>Access\<close>

lemma length_set_wk [simp]: "length (cx_workers (set_wk i w c)) = length (cx_workers c)"
  by (simp add: set_wk_def)

lemma wk_set_wk: "wk (set_wk i w c) j = (if j = i \<and> i < length (cx_workers c) then w else wk c j)"
  by (cases "i < length (cx_workers c)") (auto simp: wk_def set_wk_def nth_list_update list_update_beyond)

lemma set_wk_twice [simp]: "set_wk i w (set_wk i w' c) = set_wk i w c"
  by (simp add: set_wk_def)

lemma set_wk_fields [simp]:
  "cx_relay_id (set_wk i w c) = cx_relay_id c" "cx_relay_peer_map (set_wk i w c) = cx_relay_peer_map c"
  "cx_peer_rate_limit (set_wk i w c) = cx_peer_rate_limit c" "cx_mem (set_wk i w c) = cx_mem c"
  "cx_mallocs (set_wk i w c) = cx_mallocs c" "cx_sqes (set_wk i w c) = cx_sqes c" "cx_calls (set_wk i w c) = cx_calls c"
  by (simp_all add: set_wk_def)

lemma wk_fields [simp]:
  "wk (c\<lparr>cx_mem := m\<rparr>) i = wk c i" "wk (c\<lparr>cx_mallocs := n\<rparr>) i = wk c i" "wk (c\<lparr>cx_sqes := n\<rparr>) i = wk c i"
  "wk (c\<lparr>cx_calls := l\<rparr>) i = wk c i" "wk (dp_emit e c) i = wk c i"
  by (simp_all add: wk_def dp_emit_def)

lemma pr_fields [simp]:
  "pr (c\<lparr>cx_mem := m\<rparr>) i p = pr c i p" "pr (c\<lparr>cx_mallocs := n\<rparr>) i p = pr c i p" "pr (c\<lparr>cx_sqes := n\<rparr>) i p = pr c i p"
  "pr (c\<lparr>cx_calls := l\<rparr>) i p = pr c i p" "pr (dp_emit e c) i p = pr c i p"
  by (simp_all add: pr_def)

lemma dp_emit_fields [simp]:
  "cx_workers (dp_emit e c) = cx_workers c" "cx_mem (dp_emit e c) = cx_mem c" "cx_mallocs (dp_emit e c) = cx_mallocs c"
  "cx_sqes (dp_emit e c) = cx_sqes c" "cx_relay_id (dp_emit e c) = cx_relay_id c"
  "cx_relay_peer_map (dp_emit e c) = cx_relay_peer_map c" "cx_peer_rate_limit (dp_emit e c) = cx_peer_rate_limit c"
  by (simp_all add: dp_emit_def)

section \<open>The core\<close>

definition peer_core where
  "peer_core P = (p_fd P, p_rbuf_len P, p_occupied P, p_protocol P, p_peer_id P, p_fwd_count P, p_key P,
     p_recv_bytes_window P, p_window_start_ns P, p_rbuf P)"

definition worker_core where
  "worker_core w = (w_running w, w_use_provided_bufs w, map peer_core (w_ht w), w_fd_map w, w_peer_id_map w,
     w_fd_gen w, w_routes w, w_cmd_ring w, w_peer_count w, w_frame_pool w, w_frame_pool_end w)"

definition core where
  "core c = (map worker_core (cx_workers c), cx_relay_id c, cx_relay_peer_map c, cx_peer_rate_limit c)"

lemma core_set_wk [simp]: "worker_core w = worker_core (wk c i) \<Longrightarrow> core (set_wk i w c) = core c"
  by (simp add: core_def set_wk_def wk_def map_update list_update_same_conv) (metis length_map list_update_beyond list_update_id map_update not_le nth_map)

lemma core_fields [simp]:
  "core (c\<lparr>cx_mem := m\<rparr>) = core c" "core (c\<lparr>cx_mallocs := n\<rparr>) = core c" "core (c\<lparr>cx_sqes := n\<rparr>) = core c"
  "core (c\<lparr>cx_calls := l\<rparr>) = core c" "core (dp_emit e c) = core c"
  by (simp_all add: core_def)

lemma worker_core_fields [simp]:
  "worker_core (w\<lparr>w_notif_map := a1\<rparr>) = worker_core w" "worker_core (w\<lparr>w_xfer_inbox := a2\<rparr>) = worker_core w"
  "worker_core (w\<lparr>w_recv_inflight := a3\<rparr>) = worker_core w" "worker_core (w\<lparr>w_recv_defer_buf := a4\<rparr>) = worker_core w"
  "worker_core (w\<lparr>w_recv_defer_head := a5\<rparr>) = worker_core w" "worker_core (w\<lparr>w_recv_defer_tail := a6\<rparr>) = worker_core w"
  "worker_core (w\<lparr>w_send_pressure := a7\<rparr>) = worker_core w" "worker_core (w\<lparr>w_recv_paused := a8\<rparr>) = worker_core w"
  "worker_core (w\<lparr>w_recv_pause_countdown := a9\<rparr>) = worker_core w" "worker_core (w\<lparr>w_pending_fds := b1\<rparr>) = worker_core w"
  "worker_core (w\<lparr>w_xfer_signal_pending := b2\<rparr>) = worker_core w" "worker_core (w\<lparr>w_pending_sources := b3\<rparr>) = worker_core w"
  "worker_core (w\<lparr>w_slab_free := b4\<rparr>) = worker_core w" "worker_core (w\<lparr>w_frame_pool_free := b5\<rparr>) = worker_core w"
  "worker_core (w\<lparr>w_frame_return_inbox := b6\<rparr>) = worker_core w" "worker_core (w\<lparr>w_stats := b7\<rparr>) = worker_core w"
  "worker_core (w\<lparr>w_use_multishot_recv := b8\<rparr>) = worker_core w"
  by (simp_all add: worker_core_def)

lemma peer_core_fields [simp]:
  "peer_core (P\<lparr>p_fwd1_dst_fd := a1\<rparr>) = peer_core P" "peer_core (P\<lparr>p_fwd1_dst_worker := a2\<rparr>) = peer_core P"
  "peer_core (P\<lparr>p_fwd1_peer := a3\<rparr>) = peer_core P" "peer_core (P\<lparr>p_send_inflight := a4\<rparr>) = peer_core P"
  "peer_core (P\<lparr>p_send_queued := a5\<rparr>) = peer_core P" "peer_core (P\<lparr>p_send_pending := a6\<rparr>) = peer_core P"
  "peer_core (P\<lparr>p_queue := a7\<rparr>) = peer_core P" "peer_core (P\<lparr>p_send_next := a8\<rparr>) = peer_core P"
  "peer_core (P\<lparr>p_no_zc := a9\<rparr>) = peer_core P" "peer_core (P\<lparr>p_zc_draining := b1\<rparr>) = peer_core P"
  "peer_core (P\<lparr>p_poll_write_pending := b2\<rparr>) = peer_core P" "peer_core (P\<lparr>p_fwd := b3\<rparr>) = peer_core P"
  "peer_core (set_rule r f P) = peer_core P"
  by (simp_all add: peer_core_def set_rule_def)

lemma core_set_pr [simp]: "peer_core P = peer_core (pr c i p) \<Longrightarrow> core (set_pr i p P c) = core c"
proof -
  assume P: "peer_core P = peer_core (pr c i p)"
  have "map peer_core ((w_ht (wk c i))[p := P]) = map peer_core (w_ht (wk c i))"
    using P by (cases "p < length (w_ht (wk c i))") (simp_all add: map_update pr_def list_update_same_conv list_update_beyond)
  then show ?thesis by (simp add: set_pr_def worker_core_def)
qed

lemma core_stat [simp]: "core (stat i f c) = core c"
  by (simp add: stat_def)

text \<open>What the core determines.\<close>

lemma coreD:
  assumes "core c' = core c"
  shows "length (cx_workers c') = length (cx_workers c)" "cx_relay_id c' = cx_relay_id c"
    "cx_relay_peer_map c' = cx_relay_peer_map c" "cx_peer_rate_limit c' = cx_peer_rate_limit c"
    "i < length (cx_workers c) \<Longrightarrow> worker_core (wk c' i) = worker_core (wk c i)"
proof -
  have m: "map worker_core (cx_workers c') = map worker_core (cx_workers c)" using assms by (simp add: core_def)
  then show len: "length (cx_workers c') = length (cx_workers c)" by (rule map_eq_imp_length_eq)
  show "i < length (cx_workers c) \<Longrightarrow> worker_core (wk c' i) = worker_core (wk c i)"
    using m len by (metis nth_map wk_def)
qed (use assms in \<open>simp_all add: core_def\<close>)

lemma worker_coreD:
  assumes "worker_core w' = worker_core w"
  shows "w_running w' = w_running w" "w_fd_map w' = w_fd_map w" "w_peer_id_map w' = w_peer_id_map w"
    "w_fd_gen w' = w_fd_gen w" "w_routes w' = w_routes w" "w_peer_count w' = w_peer_count w" "length (w_ht w') = length (w_ht w)"
    "w_use_provided_bufs w' = w_use_provided_bufs w" "w_frame_pool w' = w_frame_pool w" "w_frame_pool_end w' = w_frame_pool_end w"
    "p < length (w_ht w) \<Longrightarrow> peer_core (w_ht w' ! p) = peer_core (w_ht w ! p)"
proof -
  have m: "map peer_core (w_ht w') = map peer_core (w_ht w)" using assms by (simp add: worker_core_def)
  then show len: "length (w_ht w') = length (w_ht w)" by (rule map_eq_imp_length_eq)
  show "p < length (w_ht w) \<Longrightarrow> peer_core (w_ht w' ! p) = peer_core (w_ht w ! p)" using m len by (metis nth_map)
qed (use assms in \<open>simp_all add: worker_core_def\<close>)

section \<open>Operations that keep it\<close>

named_theorems core_keeps \<open>operations that leave the core alone\<close>

lemma core_GetSqe [core_keeps]: "GetSqe env i c = (c', ok) \<Longrightarrow> core c' = core c"
  by (auto simp: GetSqe_def Let_def split: if_splits)

lemma core_malloc [core_keeps]: "dp_malloc env c n = (c', a) \<Longrightarrow> core c' = core c"
  by (auto simp: dp_malloc_def Let_def split: if_splits)

lemma core_SlabAllocItem [core_keeps]: "SlabAllocItem env c i = (c', r) \<Longrightarrow> core c' = core c"
  by (auto simp: SlabAllocItem_def Let_def split: if_splits)

lemma core_pool_take [core_keeps]: "pool_take i c = Some (c', a) \<Longrightarrow> core c' = core c"
  by (auto simp: pool_take_def Let_def split: list.splits)

lemma core_FrameReturnDrain [simp]: "core (FrameReturnDrain i c) = core c"
  by (simp add: FrameReturnDrain_def Let_def)

lemma core_FrameAlloc [core_keeps]: "FrameAlloc env c i n = (c', a) \<Longrightarrow> core c' = core c"
  by (auto simp: FrameAlloc_def Let_def split: if_splits option.splits dest!: core_pool_take core_malloc)

lemma core_FrameFree [core_keeps]: "FrameFree i a c = Some c' \<Longrightarrow> core c' = core c"
  by (auto simp: FrameFree_def FrameReturnPush_def Let_def split: if_splits option.splits)

lemma core_SlabFreeItem [simp]: "core (SlabFreeItem i x c) = core c"
  by (simp add: SlabFreeItem_def)

lemma core_free_item [core_keeps]: "free_item i x c = Some c' \<Longrightarrow> core c' = core c"
  by (auto simp: free_item_def split: bind_splits dest!: core_FrameFree)

lemma core_free_items [core_keeps]: "free_items i xs c = Some c' \<Longrightarrow> core c' = core c"
  by (induction xs arbitrary: c) (auto split: bind_splits dest!: core_free_item)

lemma core_put_frame [core_keeps]: "put_frame a bs c = Some c' \<Longrightarrow> core c' = core c"
  by (auto simp: put_frame_def split: bind_splits)

lemma core_DeferRecv [simp]: "core (DeferRecv i fd c) = core c"
  by (simp add: DeferRecv_def Let_def)

lemma core_SubmitRecvNow [simp]: "core (SubmitRecvNow env i fd c) = core c"
proof (cases "GetSqe env i c")
  case (Pair c' ok)
  then have "core c' = core c" by (rule core_GetSqe)
  with Pair show ?thesis by (auto simp: SubmitRecvNow_def Let_def split: option.split bool.split)
qed

lemma core_SubmitRecv [simp]: "core (SubmitRecv env i fd c) = core c"
  by (simp add: SubmitRecv_def)

lemma core_DrainDeferredRecvs [core_keeps]: "DrainDeferredRecvs env i c = Some c' \<Longrightarrow> core c' = core c"
proof (induct rule: DrainDeferredRecvs.raw_induct [rotated, consumes 1, case_names step])
  case (step drain env i c c')
  have "core c' = core x" if "drain env i x = Some c'" for x using step(1) that .
  with step(2) show ?case by (auto simp: Let_def split: if_splits)
qed

lemma core_submit_send [core_keeps]: "submit_send env i fd a n m z c = Some (c', ok) \<Longrightarrow> core c' = core c"
  by (auto simp: submit_send_def split: prod.splits bool.splits bind_splits dest!: core_GetSqe)

lemma core_submit_next [core_keeps]: "submit_next env i p c = Some (c', ok) \<Longrightarrow> core c' = core c"
  by (auto simp: submit_next_def SubmitPeerSend_def Let_def split: option.splits if_splits bind_splits dest!: core_submit_send)

lemma core_append_item [simp]: "core (append_item i p x c) = core c"
  by (simp add: append_item_def Let_def)

lemma core_kick_send [core_keeps]: "kick_send env i p c = Some c' \<Longrightarrow> core c' = core c"
  by (auto simp: kick_send_def Let_def split: if_splits dest!: core_submit_next)

lemma core_pause_recv [simp]: "core (pause_recv i c) = core c"
  by (simp add: pause_recv_def Let_def)

lemma core_EnqueueSend [core_keeps]: "EnqueueSend env i p a n c = Some c' \<Longrightarrow> core c' = core c"
  by (auto simp: EnqueueSend_def split: if_splits prod.splits option.splits
      dest!: core_FrameFree core_SlabAllocItem core_kick_send)

lemma pop_head_core: "pop_head P = Some (x, Q) \<Longrightarrow> peer_core Q = peer_core P"
  by (auto simp: pop_head_def split: list.splits if_splits option.splits nat.splits)

lemma core_retire [core_keeps]: "retire i fd x d c = Some c' \<Longrightarrow> core c' = core c"
  by (auto simp: retire_def Let_def split: if_splits dest!: core_free_item)

lemma core_uncount [simp]: "core (uncount i p c) = core c"
  by (simp add: uncount_def Let_def)

lemma core_resume_recv [core_keeps]: "resume_recv env i c = Some c' \<Longrightarrow> core c' = core c"
  by (auto simp: resume_recv_def Let_def split: if_splits dest!: core_DrainDeferredRecvs)

lemma core_send_completed [core_keeps]: "send_completed env i p c = Some c' \<Longrightarrow> core c' = core c"
  by (auto simp: send_completed_def Let_def split: if_splits dest!: core_submit_next)

lemma core_DrainSendQueue [core_keeps]: "DrainSendQueue env i p d c = Some c' \<Longrightarrow> core c' = core c"
  by (auto simp: DrainSendQueue_def split: if_splits bind_splits
      dest!: core_retire pop_head_core core_resume_recv core_send_completed)

lemma core_submit_batch [core_keeps]: "submit_batch env i p n c = Some c' \<Longrightarrow> core c' = core c"
  by (induction n arbitrary: c) (auto split: if_splits bind_splits dest!: core_submit_next)

lemma core_flush_sends_loop [core_keeps]: "flush_sends_loop env i fds c = Some c' \<Longrightarrow> core c' = core c"
  by (induction fds arbitrary: c) (fastforce simp: Let_def split: if_splits option.splits bind_splits dest!: core_submit_batch)+

lemma core_FlushPendingSends [core_keeps]: "FlushPendingSends env i c = Some c' \<Longrightarrow> core c' = core c"
  by (auto simp: FlushPendingSends_def split: bind_splits dest!: core_flush_sends_loop)

lemma core_xfer_send [core_keeps]: "xfer_send i d fd a n c = Some c' \<Longrightarrow> core c' = core c"
  by (auto simp: xfer_send_def Let_def wk_set_wk split: if_splits prod.splits bind_splits dest!: core_FrameFree)

lemma core_XferPush [core_keeps]: "XferPush i d fd a n c = Some c' \<Longrightarrow> core c' = core c"
  by (auto simp: XferPush_def split: if_splits dest!: core_FrameFree core_xfer_send)

lemma core_send_copy [core_keeps]: "send_copy env i p bs c = Some c' \<Longrightarrow> core c' = core c"
  by (auto simp: send_copy_def split: prod.splits if_splits bind_splits dest!: core_FrameAlloc core_put_frame core_EnqueueSend)

lemmas core_forward = core_FrameAlloc core_put_frame core_EnqueueSend core_XferPush core_FrameFree core_send_copy core_xfer_send

lemma core_ForwardHdData1 [core_keeps]: "ForwardHdData1 env i p f c = Some c' \<Longrightarrow> core c' = core c"
  by (auto simp: ForwardHdData1_def Let_def split: prod.splits if_splits bind_splits option.splits dest!: core_forward)

lemma core_broadcast_hd [core_keeps]: "broadcast_hd env i src f qs c = Some c' \<Longrightarrow> core c' = core c"
  by (induction qs arbitrary: c) (auto split: if_splits bind_splits dest!: core_send_copy)

lemma core_rules_loop [core_keeps]: "rules_loop env i src f rs c = Some (c', ok) \<Longrightarrow> core c' = core c"
proof (induction rs arbitrary: c)
  case (Cons r rs)
  then show ?case
    by (auto simp: Let_def split: prod.splits if_splits bind_splits option.splits dest!: core_forward Cons.IH)
qed simp

lemma core_bridge_loop [core_keeps]: "bridge_loop env i src p qs c = Some c' \<Longrightarrow> core c' = core c"
  by (induction qs arbitrary: c) (fastforce simp: Let_def split: if_splits bind_splits dest!: core_send_copy)+

lemma core_ForwardHdData [core_keeps]: "ForwardHdData env i src f c = Some c' \<Longrightarrow> core c' = core c"
  by (auto simp: ForwardHdData_def split: if_splits bind_splits dest!: core_broadcast_hd core_rules_loop core_bridge_loop)

lemma core_NotifyPeerClose [core_keeps]: "NotifyPeerClose i p c = Some c' \<Longrightarrow> core c' = core c"
  by (auto simp: NotifyPeerClose_def split: bind_splits)

lemma core_DispatchMesh [core_keeps]: "DispatchMesh env i p f c = Some c' \<Longrightarrow> core c' = core c"
  by (auto simp: DispatchMesh_def Let_def split: prod.splits if_splits bind_splits option.splits dest!: core_forward)

lemma core_DispatchFleet [core_keeps]: "DispatchFleet env i p f b c = Some c' \<Longrightarrow> core c' = core c"
  by (auto simp: DispatchFleet_def Let_def split: prod.splits if_splits bind_splits option.splits dest!: core_forward)

lemma core_DispatchHdFrame [core_keeps]: "DispatchHdFrame env i p h n c = Some c' \<Longrightarrow> core c' = core c"
  by (auto simp: DispatchHdFrame_def Let_def split: if_splits bind_splits
      dest!: core_ForwardHdData1 core_ForwardHdData core_send_copy core_DispatchMesh core_DispatchFleet core_broadcast_hd)

lemma core_ForwardMsg [core_keeps]: "ForwardMsg env i ty f src c = Some c' \<Longrightarrow> core c' = core c"
  by (auto simp: ForwardMsg_def Let_def split: prod.splits if_splits bind_splits option.splits dest!: core_forward)

lemma core_DispatchFrame [core_keeps]: "DispatchFrame env i p h n c = Some c' \<Longrightarrow> core c' = core c"
  by (auto simp: DispatchFrame_def split: if_splits bind_splits dest!: core_DispatchHdFrame core_ForwardMsg)

end
