(* ===== verification/Dp_Frames.thy ===== *)
theory Dp_Frames
  imports Dp_Core "HOL-Library.Multiset"
begin

text \<open>
  Who holds which frame buffer. A frame is in a queue, waits for a notification, is on its way
  to another worker, is free, or is in the hand of the code that runs; the invariant says that
  it is in exactly one of these places and allocated exactly when it is not free. From this
  follows that no operation frees or uses a buffer that is not allocated.
\<close>

section \<open>Places\<close>

type_synonym held = "(nat \<times> int) multiset"

definition item_frame :: "SendItem \<Rightarrow> nat \<times> int" where
  "item_frame x = (si_data x, si_len x)"

definition xfer_frame :: "Xfer \<Rightarrow> nat \<times> int" where
  "xfer_frame x = (x_frame x, x_frame_len x)"

definition queued :: "Peer list \<Rightarrow> held" where
  "queued ps = (\<Sum>P\<leftarrow>ps. mset (map item_frame (p_queue P)))"

definition noticed :: "(int \<Rightarrow> SendItem list) \<Rightarrow> held" where
  "noticed m = (\<Sum>fd \<in> {0..<kMaxFd}. mset (map item_frame (m fd)))"

definition travelling :: "XferSpscRing list \<Rightarrow> held" where
  "travelling rs = (\<Sum>r\<leftarrow>rs. mset (map xfer_frame (xfer_ring_contents r)))"

definition w_used :: "Worker \<Rightarrow> held" where
  "w_used w = queued (w_ht w) + noticed (w_notif_map w) + travelling (w_xfer_inbox w)"

definition w_free :: "Worker \<Rightarrow> nat multiset" where
  "w_free w = mset (w_frame_pool_free w) + (\<Sum>l\<leftarrow>w_frame_return_inbox w. mset l)"

definition used :: "Ctx \<Rightarrow> held" where
  "used c = (\<Sum>w\<leftarrow>cx_workers c. w_used w)"

definition free :: "Ctx \<Rightarrow> nat multiset" where
  "free c = (\<Sum>w\<leftarrow>cx_workers c. w_free w)"

definition fits :: "(nat \<Rightarrow> bytes option) \<Rightarrow> nat \<times> int \<Rightarrow> bool" where
  "fits m x \<longleftrightarrow> (case x of (a, n) \<Rightarrow> a \<noteq> 0 \<and> 0 \<le> n \<and> (\<exists>b. m a = Some b \<and> n \<le> int (length b)))"

definition frames_ok :: "held \<Rightarrow> Ctx \<Rightarrow> bool" where
  "frames_ok H c \<longleftrightarrow> (\<forall>a. count (image_mset fst (used c + H) + free c) a \<le> 1) \<and>
     (\<forall>x \<in># used c + H. fits (cx_mem c) x) \<and> (\<forall>a \<in># free c. a \<noteq> 0 \<and> cx_mem c a = None) \<and>
     (\<forall>w \<in> set (cx_workers c). \<forall>a \<in># w_free w. FramePoolOwns w a)"

section \<open>Replacing one element of a sum\<close>

lemma sum_list_update:
  fixes f :: "'a \<Rightarrow> 'b :: comm_monoid_add"
  assumes "i < length xs"
  shows "(\<Sum>x\<leftarrow>xs[i := y]. f x) + f (xs ! i) = (\<Sum>x\<leftarrow>xs. f x) + f y"
  using assms
proof (induction xs arbitrary: i)
  case (Cons x xs)
  then show ?case by (cases i) (simp_all add: ac_simps)
qed simp

lemma sum_fun_upd:
  fixes g :: "'c \<Rightarrow> 'b :: comm_monoid_add"
  assumes "a \<in> A" "finite A"
  shows "(\<Sum>x \<in> A. g ((f(a := v)) x)) + g (f a) = (\<Sum>x \<in> A. g (f x)) + g v"
proof -
  have "(\<Sum>x \<in> A - {a}. g ((f(a := v)) x)) = (\<Sum>x \<in> A - {a}. g (f x))" by (rule sum.cong) auto
  then show ?thesis using assms by (simp add: sum.remove [OF assms(2,1)] ac_simps)
qed

lemma moved:
  fixes s :: "'a multiset"
  assumes "s + x = t + y" "y + B = x + C"
  shows "s + B = t + C"
proof (rule multiset_eqI)
  fix a
  have "count s a + count x a = count t a + count y a" "count y a + count B a = count x a + count C a"
    using assms by (metis count_union)+
  then show "count (s + B) a = count (t + C) a" by simp
qed

lemma used_set_wk:
  assumes "i < length (cx_workers c)" "w_used w + B = w_used (wk c i) + C"
  shows "used (set_wk i w c) + B = used c + C"
  using moved [OF sum_list_update [OF assms(1), of w_used w] assms(2) [unfolded wk_def]]
  by (simp add: used_def set_wk_def)

lemma free_set_wk:
  assumes "i < length (cx_workers c)" "w_free w + B = w_free (wk c i) + C"
  shows "free (set_wk i w c) + B = free c + C"
  using moved [OF sum_list_update [OF assms(1), of w_free w] assms(2) [unfolded wk_def]]
  by (simp add: free_def set_wk_def)

lemma queued_update: "p < length ps \<Longrightarrow>
    queued (ps[p := P]) + mset (map item_frame (p_queue (ps ! p))) = queued ps + mset (map item_frame (p_queue P))"
  unfolding queued_def by (rule sum_list_update)

lemma travelling_update: "k < length rs \<Longrightarrow>
    travelling (rs[k := r]) + mset (map xfer_frame (xfer_ring_contents (rs ! k))) =
    travelling rs + mset (map xfer_frame (xfer_ring_contents r))"
  unfolding travelling_def by (rule sum_list_update)

lemma noticed_update: "dp_fd fd \<Longrightarrow>
    noticed (m(fd := xs)) + mset (map item_frame (m fd)) = noticed m + mset (map item_frame xs)"
  unfolding noticed_def by (rule sum_fun_upd [where g = "\<lambda>xs. mset (map item_frame xs)"]) (auto simp: dp_fd_def)

section \<open>Changes that do not move frames\<close>

definition w_frames where
  "w_frames w = (w_used w, w_free w, w_frame_pool w, w_frame_pool_end w)"

lemma w_frames_fields [simp]:
  "w_frames (w\<lparr>w_recv_inflight := a3\<rparr>) = w_frames w" "w_frames (w\<lparr>w_recv_defer_buf := a4\<rparr>) = w_frames w"
  "w_frames (w\<lparr>w_recv_defer_head := a5\<rparr>) = w_frames w" "w_frames (w\<lparr>w_recv_defer_tail := a6\<rparr>) = w_frames w"
  "w_frames (w\<lparr>w_send_pressure := a7\<rparr>) = w_frames w" "w_frames (w\<lparr>w_recv_paused := a8\<rparr>) = w_frames w"
  "w_frames (w\<lparr>w_recv_pause_countdown := a9\<rparr>) = w_frames w" "w_frames (w\<lparr>w_pending_fds := b1\<rparr>) = w_frames w"
  "w_frames (w\<lparr>w_xfer_signal_pending := b2\<rparr>) = w_frames w" "w_frames (w\<lparr>w_pending_sources := b3\<rparr>) = w_frames w"
  "w_frames (w\<lparr>w_slab_free := b4\<rparr>) = w_frames w" "w_frames (w\<lparr>w_stats := b7\<rparr>) = w_frames w"
  "w_frames (w\<lparr>w_use_multishot_recv := b8\<rparr>) = w_frames w" "w_frames (w\<lparr>w_fd_map := c1\<rparr>) = w_frames w"
  "w_frames (w\<lparr>w_peer_count := c2\<rparr>) = w_frames w" "w_frames (w\<lparr>w_peer_id_map := c3\<rparr>) = w_frames w"
  "w_frames (w\<lparr>w_fd_gen := c4\<rparr>) = w_frames w" "w_frames (w\<lparr>w_cmd_ring := c5\<rparr>) = w_frames w"
  "w_frames (w\<lparr>w_running := c6\<rparr>) = w_frames w" "w_frames (w\<lparr>w_routes := c7\<rparr>) = w_frames w"
  by (simp_all add: w_frames_def w_used_def w_free_def)

lemma w_framesD:
  assumes "w_frames w' = w_frames w"
  shows "w_used w' = w_used w" "w_free w' = w_free w" "FramePoolOwns w' a = FramePoolOwns w a"
  using assms by (simp_all add: w_frames_def FramePoolOwns_def)

lemma frames_ok_same:
  assumes "map w_frames (cx_workers c') = map w_frames (cx_workers c)" "cx_mem c' = cx_mem c"
  shows "frames_ok H c' = frames_ok H c"
proof -
  have len: "length (cx_workers c') = length (cx_workers c)" using assms(1) by (rule map_eq_imp_length_eq)
  have eq: "w_frames (cx_workers c' ! j) = w_frames (cx_workers c ! j)" if "j < length (cx_workers c)" for j
    using assms(1) len that by (metis nth_map)
  have u: "map w_used (cx_workers c') = map w_used (cx_workers c)" "map w_free (cx_workers c') = map w_free (cx_workers c)"
    by (rule nth_equalityI; use len w_framesD(1,2) [OF eq] in simp)+
  have "(\<forall>w \<in> set (cx_workers c'). \<forall>a \<in># w_free w. FramePoolOwns w a) \<longleftrightarrow>
      (\<forall>w \<in> set (cx_workers c). \<forall>a \<in># w_free w. FramePoolOwns w a)"
    unfolding all_set_conv_all_nth len using w_framesD(2,3) [OF eq] by simp
  then show ?thesis using u assms(2) by (simp add: frames_ok_def used_def free_def)
qed

lemma frames_ok_set_wk [simp]:
  "w_frames w = w_frames (wk c i) \<Longrightarrow> frames_ok H (set_wk i w c) = frames_ok H c"
proof (rule frames_ok_same)
  assume w: "w_frames w = w_frames (wk c i)"
  show "map w_frames (cx_workers (set_wk i w c)) = map w_frames (cx_workers c)"
    using w by (cases "i < length (cx_workers c)")
      (simp_all add: set_wk_def wk_def map_update list_update_same_conv list_update_beyond)
qed simp

lemma frames_ok_fields [simp]:
  "frames_ok H (c\<lparr>cx_mallocs := n\<rparr>) = frames_ok H c" "frames_ok H (c\<lparr>cx_sqes := n\<rparr>) = frames_ok H c"
  "frames_ok H (dp_emit e c) = frames_ok H c" "frames_ok H (stat i f c) = frames_ok H c"
  by (rule frames_ok_same; simp)+ (simp add: stat_def)

lemma wk_set_wk_same [simp]: "i < length (cx_workers c) \<Longrightarrow> wk (set_wk i w c) i = w"
  by (simp add: wk_set_wk)

text \<open>Replacing a peer: its queue is all that matters.\<close>

lemma w_frames_ht: "p < length (w_ht w) \<Longrightarrow> p_queue P = p_queue (w_ht w ! p) \<Longrightarrow> w_frames (w\<lparr>w_ht := (w_ht w)[p := P]\<rparr>) = w_frames w"
  using queued_update [of p "w_ht w" P] by (simp add: w_frames_def w_used_def w_free_def)

lemma frames_ok_set_pr [simp]:
  "p_queue P = p_queue (pr c i p) \<Longrightarrow> frames_ok H (set_pr i p P c) = frames_ok H c"
  by (cases "p < length (w_ht (wk c i))")
    (simp_all add: set_pr_def pr_def w_frames_ht list_update_beyond)

section \<open>Moving a frame\<close>

text \<open>
  From one holder to another: the frames in hand make up for what the state holds more or less.
\<close>

lemma frames_ok_move:
  assumes ok: "frames_ok H c" and i: "i < length (cx_workers c)"
    and u: "w_used w + H' = w_used (wk c i) + H" and f: "w_free w = w_free (wk c i)"
    and own: "\<And>a. FramePoolOwns w a = FramePoolOwns (wk c i) a"
  shows "frames_ok H' (set_wk i w c)"
proof -
  have "used (set_wk i w c) + H' = used c + H" by (rule used_set_wk [OF i u])
  moreover have "free (set_wk i w c) = free c" using free_set_wk [OF i, of w "{#}" "{#}"] f by simp
  moreover have "\<forall>v \<in> set (cx_workers (set_wk i w c)). \<forall>a \<in># w_free v. FramePoolOwns v a"
    using ok own f i by (auto simp: frames_ok_def set_wk_def wk_def dest!: subsetD [OF set_update_subset_insert])
  ultimately show ?thesis using ok by (simp add: frames_ok_def)
qed

lemma frames_ok_move_pr:
  assumes ok: "frames_ok H c" and i: "i < length (cx_workers c)" and p: "p < length (w_ht (wk c i))"
    and q: "mset (map item_frame (p_queue P)) + H' = mset (map item_frame (p_queue (pr c i p))) + H"
  shows "frames_ok H' (set_pr i p P c)"
  unfolding set_pr_def
proof (rule frames_ok_move [OF ok i])
  have "queued ((w_ht (wk c i))[p := P]) + H' = queued (w_ht (wk c i)) + H"
    by (rule moved [OF queued_update [OF p] q [unfolded pr_def]])
  then show "w_used ((wk c i)\<lparr>w_ht := (w_ht (wk c i))[p := P]\<rparr>) + H' = w_used (wk c i) + H"
    by (simp add: w_used_def ac_simps)
qed (simp_all add: w_free_def FramePoolOwns_def)

end
