(* ===== verification/Dp_Inv.thy ===== *)
theory Dp_Inv
  imports Dp_Frames
begin

text \<open>
  The invariant of the data plane, and that allocation, freeing, submission and the send queues
  keep it without undefined behaviour.
\<close>

section \<open>Invariant\<close>

text \<open>
  The next item to submit is one of the queue. The first items are in flight, and the next to
  submit is none of them; this holds between events but not while one is handled.
\<close>

definition queue_ok :: "Peer \<Rightarrow> bool" where
  "queue_ok P \<longleftrightarrow> (\<forall>k. p_send_next P = Some k \<longrightarrow> k < length (p_queue P))"

definition inflight_ok :: "Peer \<Rightarrow> bool" where
  "inflight_ok P \<longleftrightarrow> 0 \<le> p_send_inflight P \<and> p_send_inflight P \<le> int (length (p_queue P)) \<and>
     (\<forall>k. p_send_next P = Some k \<longrightarrow> p_send_inflight P \<le> int k)"

definition sends_ok :: "Ctx \<Rightarrow> bool" where
  "sends_ok c \<longleftrightarrow> (\<forall>w \<in> set (cx_workers c). \<forall>P \<in> set (w_ht w). inflight_ok P)"

definition remote_ok :: "int \<Rightarrow> int \<Rightarrow> bool" where
  "remote_ok fd worker \<longleftrightarrow> (fd \<ge> 0 \<longrightarrow> dp_fd fd \<and> 0 \<le> worker)"

definition slot_ok :: "nat option \<Rightarrow> bool" where
  "slot_ok d \<longleftrightarrow> (\<forall>k. d = Some k \<longrightarrow> k < kHtCapacity)"

definition fwd_ok :: "Peer \<Rightarrow> bool" where
  "fwd_ok P \<longleftrightarrow> length (p_fwd P) = kMaxPeerRules \<and> slot_ok (p_fwd1_peer P) \<and>
     remote_ok (p_fwd1_dst_fd P) (p_fwd1_dst_worker P) \<and>
     (\<forall>f \<in> set (p_fwd P). slot_ok (fr_peer f) \<and> remote_ok (fr_dst_fd f) (fr_dst_worker f))"

definition worker_aux :: "Worker \<Rightarrow> bool" where
  "worker_aux w \<longleftrightarrow> (\<forall>P \<in> set (w_ht w). queue_ok P \<and> fwd_ok P) \<and>
     length (w_xfer_inbox w) = kMaxWorkers \<and> (\<forall>r \<in> set (w_xfer_inbox w). xfer_ring_inv r) \<and>
     length (w_frame_return_inbox w) = kMaxWorkers \<and> length (w_recv_defer_buf w) = kRecvDeferSize \<and>
     w_recv_defer_head w < kRecvDeferSize \<and> w_recv_defer_tail w < kRecvDeferSize"

text \<open>
  What the core says, and what is promised of the environment: \<^verbatim>\<open>malloc\<close> returns no address in
  use, and submission entries become available again and again.
\<close>

definition route_ok :: "nat \<Rightarrow> Route \<Rightarrow> bool" where
  "route_ok n r \<longleftrightarrow> (r_occupied r = 1 \<longrightarrow> 0 \<le> r_worker_id r \<and> r_worker_id r < int n \<and> dp_fd (r_fd r))"

definition worker_fixed :: "nat \<Rightarrow> Worker \<Rightarrow> bool" where
  "worker_fixed n w \<longleftrightarrow> length (w_ht w) = kHtCapacity \<and>
     (\<forall>P \<in> set (w_ht w). dp_fd (p_fd P) \<and> is_Key (p_key P) \<and> p_fwd_count P \<le> int kMaxPeerRules) \<and>
     (\<forall>fd. slot_ok (w_fd_map w fd)) \<and> (\<forall>m k. w_peer_id_map w = Some m \<longrightarrow> slot_ok (m k)) \<and>
     length (w_routes w) = kHtCapacity \<and> (\<forall>r \<in> set (w_routes w). route_ok n r)"

definition malloc_ok :: "dp_env \<Rightarrow> Ctx \<Rightarrow> bool" where
  "malloc_ok env c \<longleftrightarrow> (\<forall>n m. de_malloc env n m \<noteq> 0 \<longrightarrow>
     m (de_malloc env n m) = None \<and> (\<forall>w \<in> set (cx_workers c). \<not> FramePoolOwns w (de_malloc env n m)))"

definition sqe_fair :: "dp_env \<Rightarrow> bool" where
  "sqe_fair env \<longleftrightarrow> (\<forall>n. \<exists>m \<ge> n. de_sqe env m)"

definition fixed :: "dp_env \<Rightarrow> Ctx \<Rightarrow> bool" where
  "fixed env c \<longleftrightarrow> length (cx_workers c) \<le> kMaxWorkers \<and> malloc_ok env c \<and> sqe_fair env \<and>
     (\<forall>w \<in> set (cx_workers c). worker_fixed (length (cx_workers c)) w)"

definition aux :: "Ctx \<Rightarrow> bool" where
  "aux c \<longleftrightarrow> (\<forall>w \<in> set (cx_workers c). worker_aux w)"

definition dp_inv :: "dp_env \<Rightarrow> held \<Rightarrow> Ctx \<Rightarrow> bool" where
  "dp_inv env H c \<longleftrightarrow> fixed env c \<and> aux c \<and> frames_ok H c"

text \<open>A step that leaves the core alone and keeps the sends in order.\<close>

definition dp_step :: "Ctx \<Rightarrow> Ctx \<Rightarrow> bool" where
  "dp_step c c' \<longleftrightarrow> core c' = core c \<and> (sends_ok c \<longrightarrow> sends_ok c')"

definition dp_ends :: "dp_env \<Rightarrow> held \<Rightarrow> Ctx \<Rightarrow> Ctx ub \<Rightarrow> bool" where
  "dp_ends env H c r \<longleftrightarrow> (\<exists>c'. r = Some c' \<and> dp_inv env H c' \<and> dp_step c c')"

section \<open>The core decides the fixed part\<close>

lemma map_eq_all:
  assumes "map f xs = map f ys" "\<And>x y. f x = f y \<Longrightarrow> Q x = Q y"
  shows "(\<forall>x \<in> set xs. Q x) = (\<forall>y \<in> set ys. Q y)"
  using assms(1)
proof (induction xs arbitrary: ys)
  case (Cons x xs)
  then obtain y zs where y: "ys = y # zs" "f x = f y" "map f xs = map f zs" by (cases ys) auto
  show ?case using Cons.IH [OF y(3)] assms(2) [OF y(2)] y(1) by simp
qed simp

lemma worker_core_fixed:
  assumes "worker_core w' = worker_core w"
  shows "worker_fixed n w' = worker_fixed n w" "FramePoolOwns w' a = FramePoolOwns w a"
proof -
  have m: "map peer_core (w_ht w') = map peer_core (w_ht w)" using assms by (simp add: worker_core_def)
  have "(\<forall>P \<in> set (w_ht w'). dp_fd (p_fd P) \<and> is_Key (p_key P) \<and> p_fwd_count P \<le> int kMaxPeerRules) =
      (\<forall>P \<in> set (w_ht w). dp_fd (p_fd P) \<and> is_Key (p_key P) \<and> p_fwd_count P \<le> int kMaxPeerRules)"
    by (rule map_eq_all [OF m]) (simp add: peer_core_def)
  then show "worker_fixed n w' = worker_fixed n w" using worker_coreD [OF assms] by (simp add: worker_fixed_def)
  show "FramePoolOwns w' a = FramePoolOwns w a" using worker_coreD [OF assms] by (simp add: FramePoolOwns_def)
qed

lemma fixed_core:
  assumes "core c' = core c"
  shows "fixed env c' = fixed env c"
proof -
  have m: "map worker_core (cx_workers c') = map worker_core (cx_workers c)" using assms by (simp add: core_def)
  have "(\<forall>w \<in> set (cx_workers c'). worker_fixed n w) = (\<forall>w \<in> set (cx_workers c). worker_fixed n w)" for n
    by (rule map_eq_all [OF m worker_core_fixed(1)])
  moreover have "(\<forall>w \<in> set (cx_workers c'). \<not> FramePoolOwns w a) = (\<forall>w \<in> set (cx_workers c). \<not> FramePoolOwns w a)" for a
    by (rule map_eq_all [OF m]) (use worker_core_fixed(2) in blast)
  ultimately show ?thesis by (simp add: fixed_def malloc_ok_def coreD(1) [OF assms])
qed

lemma aux_set_wk: "aux c \<Longrightarrow> (i < length (cx_workers c) \<Longrightarrow> worker_aux w) \<Longrightarrow> aux (set_wk i w c)"
  by (cases "i < length (cx_workers c)")
    (auto simp: aux_def set_wk_def list_update_beyond dest!: subsetD [OF set_update_subset_insert])

lemma aux_wk: "aux c \<Longrightarrow> i < length (cx_workers c) \<Longrightarrow> worker_aux (wk c i)"
  by (simp add: aux_def wk_def)

lemma aux_fields [simp]:
  "aux (c\<lparr>cx_mem := m\<rparr>) = aux c" "aux (c\<lparr>cx_mallocs := n\<rparr>) = aux c" "aux (c\<lparr>cx_sqes := n\<rparr>) = aux c" "aux (dp_emit e c) = aux c"
  by (simp_all add: aux_def)

lemma worker_aux_fields [simp]:
  "worker_aux (w\<lparr>w_notif_map := a1\<rparr>) = worker_aux w" "worker_aux (w\<lparr>w_recv_inflight := a3\<rparr>) = worker_aux w"
  "worker_aux (w\<lparr>w_send_pressure := a7\<rparr>) = worker_aux w"
  "worker_aux (w\<lparr>w_recv_paused := a8\<rparr>) = worker_aux w" "worker_aux (w\<lparr>w_recv_pause_countdown := a9\<rparr>) = worker_aux w"
  "worker_aux (w\<lparr>w_pending_fds := b1\<rparr>) = worker_aux w" "worker_aux (w\<lparr>w_xfer_signal_pending := b2\<rparr>) = worker_aux w"
  "worker_aux (w\<lparr>w_pending_sources := b3\<rparr>) = worker_aux w" "worker_aux (w\<lparr>w_slab_free := b4\<rparr>) = worker_aux w"
  "worker_aux (w\<lparr>w_frame_pool_free := b5\<rparr>) = worker_aux w" "worker_aux (w\<lparr>w_stats := b7\<rparr>) = worker_aux w"
  "worker_aux (w\<lparr>w_use_multishot_recv := b8\<rparr>) = worker_aux w" "worker_aux (w\<lparr>w_fd_map := c1\<rparr>) = worker_aux w"
  "worker_aux (w\<lparr>w_peer_count := c2\<rparr>) = worker_aux w" "worker_aux (w\<lparr>w_peer_id_map := c3\<rparr>) = worker_aux w"
  "worker_aux (w\<lparr>w_fd_gen := c4\<rparr>) = worker_aux w" "worker_aux (w\<lparr>w_cmd_ring := c5\<rparr>) = worker_aux w"
  "worker_aux (w\<lparr>w_running := c6\<rparr>) = worker_aux w" "worker_aux (w\<lparr>w_routes := c7\<rparr>) = worker_aux w"
  by (simp_all add: worker_aux_def)

lemma worker_aux_ht: "worker_aux w \<Longrightarrow> queue_ok P \<Longrightarrow> fwd_ok P \<Longrightarrow> worker_aux (w\<lparr>w_ht := (w_ht w)[p := P]\<rparr>)"
  by (auto simp: worker_aux_def dest!: subsetD [OF set_update_subset_insert])

lemma aux_set_pr: "aux c \<Longrightarrow> queue_ok P \<Longrightarrow> fwd_ok P \<Longrightarrow> aux (set_pr i p P c)"
  unfolding set_pr_def by (intro aux_set_wk worker_aux_ht aux_wk)

lemma aux_stat [simp]: "aux c \<Longrightarrow> aux (stat i f c)"
  unfolding stat_def by (intro aux_set_wk) (simp_all add: aux_wk)

section \<open>What the invariant gives\<close>

lemma dp_invD:
  assumes "dp_inv env H c"
  shows "fixed env c" "aux c" "frames_ok H c" "length (cx_workers c) \<le> kMaxWorkers" "malloc_ok env c"
    "i < length (cx_workers c) \<Longrightarrow> length (w_ht (wk c i)) = kHtCapacity"
    "i < length (cx_workers c) \<Longrightarrow> worker_fixed (length (cx_workers c)) (wk c i)"
    "i < length (cx_workers c) \<Longrightarrow> worker_aux (wk c i)"
    "i < length (cx_workers c) \<Longrightarrow> p < kHtCapacity \<Longrightarrow> queue_ok (pr c i p) \<and> fwd_ok (pr c i p)"
    "i < length (cx_workers c) \<Longrightarrow> p < kHtCapacity \<Longrightarrow> dp_fd (p_fd (pr c i p)) \<and> is_Key (p_key (pr c i p)) \<and>
      p_fwd_count (pr c i p) \<le> int kMaxPeerRules"
proof -
  show f: "fixed env c" "aux c" "frames_ok H c" using assms by (simp_all add: dp_inv_def)
  show "length (cx_workers c) \<le> kMaxWorkers" "malloc_ok env c" using f(1) by (simp_all add: fixed_def)
  assume i: "i < length (cx_workers c)"
  show w: "worker_fixed (length (cx_workers c)) (wk c i)" using f(1) i by (simp add: fixed_def wk_def)
  then show len: "length (w_ht (wk c i)) = kHtCapacity" by (simp add: worker_fixed_def)
  show a: "worker_aux (wk c i)" using f(2) i by (rule aux_wk)
  assume p: "p < kHtCapacity"
  then have "w_ht (wk c i) ! p \<in> set (w_ht (wk c i))" using len by simp
  then show "queue_ok (pr c i p) \<and> fwd_ok (pr c i p)" "dp_fd (p_fd (pr c i p)) \<and> is_Key (p_key (pr c i p)) \<and>
      p_fwd_count (pr c i p) \<le> int kMaxPeerRules"
    using a w by (auto simp: worker_aux_def worker_fixed_def pr_def)
qed

lemma dp_inv_step:
  assumes "dp_inv env H c" "core c' = core c" "aux c'" "frames_ok H' c'"
  shows "dp_inv env H' c'"
  using assms fixed_core [OF assms(2)] by (simp add: dp_inv_def)

lemma dp_ends_same: "dp_inv env H c' \<Longrightarrow> dp_step c c' \<Longrightarrow> dp_ends env H c (Some c')"
  by (simp add: dp_ends_def)

lemma dp_step_refl [simp]: "dp_step c c"
  by (simp add: dp_step_def)

lemma dp_step_trans [trans]: "dp_step c c' \<Longrightarrow> dp_step c' d \<Longrightarrow> dp_step c d"
  by (simp add: dp_step_def)

lemma dp_stepD:
  assumes "dp_step c c'"
  shows "core c' = core c" "length (cx_workers c') = length (cx_workers c)" "sends_ok c \<Longrightarrow> sends_ok c'"
  using assms coreD(1) [of c' c] by (simp_all add: dp_step_def)

lemma dp_ends_bind:
  assumes "dp_ends env H' c r" "\<And>c'. dp_inv env H' c' \<Longrightarrow> dp_step c c' \<Longrightarrow> dp_ends env H c' (f c')"
  shows "dp_ends env H c (r \<bind> f)"
proof -
  obtain c' where c': "r = Some c'" "dp_inv env H' c'" "dp_step c c'" using assms(1) by (auto simp: dp_ends_def)
  with assms(2) show ?thesis by (auto simp: dp_ends_def intro: dp_step_trans)
qed

lemma dp_ends_from: "dp_ends env H c' r \<Longrightarrow> dp_step c c' \<Longrightarrow> dp_ends env H c r"
  by (auto simp: dp_ends_def intro: dp_step_trans)

text \<open>The tables of peers decide which sends are in order.\<close>

definition hts :: "Ctx \<Rightarrow> Peer list list" where
  "hts c = map w_ht (cx_workers c)"

lemma sends_ok_hts: "sends_ok c \<longleftrightarrow> (\<forall>ht \<in> set (hts c). \<forall>P \<in> set ht. inflight_ok P)"
  by (simp add: sends_ok_def hts_def)

lemma dp_step_hts: "core c' = core c \<Longrightarrow> hts c' = hts c \<Longrightarrow> dp_step c c'"
  by (simp add: dp_step_def sends_ok_hts)

lemma hts_set_wk [simp]: "w_ht w = w_ht (wk c i) \<Longrightarrow> hts (set_wk i w c) = hts c"
  by (cases "i < length (cx_workers c)")
    (simp_all add: hts_def set_wk_def wk_def map_update list_update_same_conv list_update_beyond)

lemma hts_fields [simp]: "hts (c\<lparr>cx_mem := m\<rparr>) = hts c" "hts (c\<lparr>cx_mallocs := n\<rparr>) = hts c" "hts (c\<lparr>cx_sqes := n\<rparr>) = hts c"
  "hts (dp_emit e c) = hts c"
  by (simp_all add: hts_def)

lemma hts_stat [simp]: "hts (stat i f c) = hts c"
  by (simp add: stat_def)

lemma pr_hts: "hts c' = hts c \<Longrightarrow> i < length (cx_workers c) \<Longrightarrow> pr c' i p = pr c i p"
  by (metis hts_def length_map nth_map pr_def wk_def)

lemma dp_step_set_pr:
  assumes "peer_core P = peer_core (pr c i p)" "inflight_ok (pr c i p) \<Longrightarrow> inflight_ok P"
  shows "dp_step c (set_pr i p P c)"
proof (cases "i < length (cx_workers c) \<and> p < length (w_ht (wk c i))")
  case True
  then have "sends_ok c \<Longrightarrow> inflight_ok (pr c i p)" unfolding sends_ok_def pr_def wk_def by (meson nth_mem)
  moreover have "wk c i \<in> set (cx_workers c)" using True by (simp add: wk_def)
  ultimately have "sends_ok c \<Longrightarrow> sends_ok (set_pr i p P c)" using assms(2)
    by (auto simp: sends_ok_def set_pr_def set_wk_def dest!: subsetD [OF set_update_subset_insert])
  then show ?thesis using assms(1) by (simp add: dp_step_def)
next
  case False
  then have "hts (set_pr i p P c) = hts c"
    by (auto simp: set_pr_def list_update_beyond) (simp add: hts_def set_wk_def list_update_beyond)
  then show ?thesis using assms(1) by (intro dp_step_hts) simp_all
qed

lemma dp_inv_set_wk:
  assumes "dp_inv env H c" "worker_core w = worker_core (wk c i)" "i < length (cx_workers c) \<Longrightarrow> worker_aux w"
    "w_frames w = w_frames (wk c i)"
  shows "dp_inv env H (set_wk i w c)"
  using assms by (intro dp_inv_step [OF assms(1)] aux_set_wk) (simp_all add: dp_invD)

lemma dp_inv_set_pr:
  assumes "dp_inv env H c" "peer_core P = peer_core (pr c i p)" "queue_ok P" "fwd_ok P" "p_queue P = p_queue (pr c i p)"
  shows "dp_inv env H (set_pr i p P c)"
  using assms by (intro dp_inv_step [OF assms(1)] aux_set_pr) (simp_all add: dp_invD)

lemma dp_inv_stat [simp]: "dp_inv env H c \<Longrightarrow> dp_inv env H (stat i f c)"
  by (rule dp_inv_step) (simp_all add: dp_invD)

lemma dp_inv_emit [simp]: "dp_inv env H c \<Longrightarrow> dp_inv env H (dp_emit e c)"
  by (rule dp_inv_step) (simp_all add: dp_invD)

section \<open>Allocation\<close>

lemma dp_inv_sqes [simp]: "dp_inv env H c \<Longrightarrow> dp_inv env H (c\<lparr>cx_sqes := n\<rparr>)"
  "dp_inv env H c \<Longrightarrow> dp_inv env H (c\<lparr>cx_mallocs := n\<rparr>)"
  by (rule dp_inv_step; simp add: dp_invD)+

lemma GetSqe_inv:
  assumes "GetSqe env i c = (c', ok)" "dp_inv env H c"
  shows "dp_inv env H c'" "cx_mem c' = cx_mem c" "pr c' j p = pr c j p"
proof -
  show "dp_inv env H c'" using assms by (auto simp: GetSqe_def Let_def split: if_splits)
  show "cx_mem c' = cx_mem c" "pr c' j p = pr c j p"
    using assms(1) by (auto simp: GetSqe_def Let_def stat_def pr_def wk_set_wk split: if_splits)
qed

lemma frames_ok_held:
  assumes "frames_ok H c" "x \<in># H"
  shows "fits (cx_mem c) x"
  using assms by (simp add: frames_ok_def)

lemma frames_ok_other:
  assumes ok: "frames_ok (add_mset (a, n) H) c"
  shows "\<And>b m. (b, m) \<in># used c + H \<Longrightarrow> b \<noteq> a" "a \<notin># free c" "a \<noteq> 0" "cx_mem c a \<noteq> None"
proof -
  have one: "count (image_mset fst (used c + add_mset (a, n) H) + free c) a \<le> 1"
    using ok unfolding frames_ok_def by blast
  then have z: "count (image_mset fst (used c + H)) a = 0" "count (free c) a = 0" by simp_all
  then have "a \<notin># image_mset fst (used c + H)" by (metis count_eq_zero_iff)
  then show "(b, m) \<in># used c + H \<Longrightarrow> b \<noteq> a" for b m by force
  show "a \<notin># free c" using z(2) by (metis count_eq_zero_iff)
  show "a \<noteq> 0" "cx_mem c a \<noteq> None" using frames_ok_held [OF ok, of "(a, n)"] by (auto simp: fits_def)
qed

lemma fits_other: "fits m (b, n) \<Longrightarrow> b \<noteq> a \<Longrightarrow> fits (m(a := v)) (b, n)"
  by (simp add: fits_def)

lemma frames_okI:
  assumes "\<And>a. count (image_mset fst (U + H) + F) a \<le> 1" "\<And>x. x \<in># U + H \<Longrightarrow> fits m x"
    "\<And>a. a \<in># F \<Longrightarrow> a \<noteq> 0 \<and> m a = None" "\<forall>w \<in> set (cx_workers c). \<forall>a \<in># w_free w. FramePoolOwns w a"
    "used c = U" "free c = F" "cx_mem c = m"
  shows "frames_ok H c"
  using assms unfolding frames_ok_def by blast

text \<open>A frame leaves the free frames, or comes from \<^verbatim>\<open>malloc\<close>.\<close>

lemma frames_ok_take:
  assumes ok: "frames_ok H c" and i: "i < length (cx_workers c)" and f: "w_free w + {#a#} = w_free (wk c i)"
    and u: "w_used w = w_used (wk c i)" and own: "\<And>b. FramePoolOwns w b = FramePoolOwns (wk c i) b"
    and n: "0 \<le> n" "n \<le> int (length m)"
  shows "frames_ok (add_mset (a, n) H) ((set_wk i w c)\<lparr>cx_mem := (cx_mem c)(a \<mapsto> m)\<rparr>)"
proof -
  have fr: "free (set_wk i w c) + {#a#} = free c" using free_set_wk [OF i, of w "{#a#}" "{#}"] f by simp
  have us: "used (set_wk i w c) = used c" using used_set_wk [OF i, of w "{#}" "{#}"] u by simp
  have a: "a \<in># free c" unfolding fr [symmetric] by simp
  have one: "count (image_mset fst (used c + H) + free c) b \<le> 1" for b using ok by (simp add: frames_ok_def)
  have "0 < count (free c) a" using a by simp
  then have "count (image_mset fst (used c + H)) a = 0" "count (free c) a = 1"
    using one [of a] unfolding count_union by linarith+
  moreover have "count (free (set_wk i w c)) a + 1 = count (free c) a"
    using arg_cong [OF fr, of "\<lambda>x. count x a"] by simp
  ultimately have na: "a \<notin># image_mset fst (used c + H)" "a \<notin># free (set_wk i w c)"
    unfolding not_in_iff by simp_all
  have old: "fits (cx_mem c) x" if "x \<in># used c + H" for x using ok that by (simp add: frames_ok_def)
  have "fits ((cx_mem c)(a \<mapsto> m)) x" if "x \<in># used c + add_mset (a, n) H" for x
  proof (cases "x = (a, n)")
    case True
    moreover have "a \<noteq> 0" using ok a by (simp add: frames_ok_def)
    ultimately show ?thesis using n by (simp add: fits_def)
  next
    case False
    with that have x: "x \<in># used c + H" by simp
    then have "fst x \<noteq> a" using na(1) by force
    with old [OF x] show ?thesis by (cases x) (simp add: fits_other)
  qed
  moreover have "count (image_mset fst (used c + add_mset (a, n) H) + free (set_wk i w c)) b \<le> 1" for b
  proof -
    have "image_mset fst (used c + add_mset (a, n) H) + free (set_wk i w c) = image_mset fst (used c + H) + free c"
      unfolding fr [symmetric] by simp
    then show ?thesis using one by metis
  qed
  moreover have "b \<noteq> 0 \<and> ((cx_mem c)(a \<mapsto> m)) b = None" if b: "b \<in># free (set_wk i w c)" for b
  proof -
    have "b \<in># free c" unfolding fr [symmetric] using b by simp
    moreover have "b \<noteq> a" using na(2) b by blast
    ultimately show ?thesis using ok by (simp add: frames_ok_def)
  qed
  moreover have "\<forall>v \<in> set (cx_workers (set_wk i w c)). \<forall>b \<in># w_free v. FramePoolOwns v b"
  proof -
    have "FramePoolOwns w b" if "b \<in># w_free w" for b
    proof -
      have "b \<in># w_free (wk c i)" unfolding f [symmetric] using that by simp
      then show ?thesis using ok i own by (simp add: frames_ok_def wk_def)
    qed
    then show ?thesis using ok by (auto simp: frames_ok_def set_wk_def dest!: subsetD [OF set_update_subset_insert])
  qed
  moreover have "used ((set_wk i w c)\<lparr>cx_mem := m'\<rparr>) = used c" "free ((set_wk i w c)\<lparr>cx_mem := m'\<rparr>) = free (set_wk i w c)" for m'
    using us by (simp_all add: used_def free_def)
  ultimately show ?thesis by (intro frames_okI) simp_all
qed

lemma used_mem [simp]: "used (c\<lparr>cx_mem := m\<rparr>) = used c" "free (c\<lparr>cx_mem := m\<rparr>) = free c"
  by (simp_all add: used_def free_def)

lemma frames_okD:
  assumes "frames_ok H c"
  shows "count (image_mset fst (used c + H) + free c) b \<le> 1" "x \<in># used c + H \<Longrightarrow> fits (cx_mem c) x"
    "b \<in># free c \<Longrightarrow> b \<noteq> 0 \<and> cx_mem c b = None" "\<forall>w \<in> set (cx_workers c). \<forall>a \<in># w_free w. FramePoolOwns w a"
  using assms by (simp_all add: frames_ok_def)

lemma frames_ok_new:
  assumes ok: "frames_ok H c" and a: "a \<noteq> 0" "cx_mem c a = None" "a \<notin># free c" and n: "0 \<le> n" "n \<le> int (length m)"
  shows "frames_ok (add_mset (a, n) H) (c\<lparr>cx_mem := (cx_mem c)(a \<mapsto> m)\<rparr>)"
proof (rule frames_okI)
  have na: "fst x \<noteq> a" if "x \<in># used c + H" for x
    using frames_okD(2) [OF ok that] a(2) by (auto simp: fits_def split: prod.splits)
  then have z: "count (image_mset fst (used c + H)) a = 0" by (auto simp: count_eq_zero_iff)
  show "count (image_mset fst (used c + add_mset (a, n) H) + free c) b \<le> 1" for b
    using frames_okD(1) [OF ok, of b] z a(3) by (cases "b = a") (simp_all add: not_in_iff)
  show "fits ((cx_mem c)(a \<mapsto> m)) x" if "x \<in># used c + add_mset (a, n) H" for x
  proof (cases "x = (a, n)")
    case True
    then show ?thesis using a(1) n by (simp add: fits_def)
  next
    case False
    with that have x: "x \<in># used c + H" by simp
    then show ?thesis using frames_okD(2) [OF ok x] na [OF x] by (cases x) (simp add: fits_other)
  qed
  show "b \<noteq> 0 \<and> ((cx_mem c)(a \<mapsto> m)) b = None" if "b \<in># free c" for b
    using frames_okD(3) [OF ok that] a(3) that by auto
  show "\<forall>w \<in> set (cx_workers (c\<lparr>cx_mem := (cx_mem c)(a \<mapsto> m)\<rparr>)). \<forall>a \<in># w_free w. FramePoolOwns w a"
    using frames_okD(4) [OF ok] by simp
qed simp_all

lemma frames_ok_drop:
  assumes ok: "frames_ok (add_mset (a, n) H) c"
  shows "frames_ok H (c\<lparr>cx_mem := (cx_mem c)(a := None)\<rparr>)"
proof (rule frames_okI)
  show "count (image_mset fst (used c + H) + free c) b \<le> 1" for b
    using frames_okD(1) [OF ok, of b] by (simp split: if_splits)
  show "fits ((cx_mem c)(a := None)) x" if "x \<in># used c + H" for x
    using frames_okD(2) [OF ok, of x] frames_ok_other(1) [OF ok, of "fst x" "snd x"] that by (cases x) (simp add: fits_other)
  show "b \<noteq> 0 \<and> ((cx_mem c)(a := None)) b = None" if "b \<in># free c" for b using frames_okD(3) [OF ok that] by simp
  show "\<forall>w \<in> set (cx_workers (c\<lparr>cx_mem := (cx_mem c)(a := None)\<rparr>)). \<forall>a \<in># w_free w. FramePoolOwns w a"
    using frames_okD(4) [OF ok] by simp
qed simp_all

lemma frames_ok_give:
  assumes ok: "frames_ok H c" and i: "i < length (cx_workers c)" and f: "w_free w = w_free (wk c i) + {#a#}"
    and u: "w_used w = w_used (wk c i)" and own: "\<And>b. FramePoolOwns w b = FramePoolOwns (wk c i) b"
    and a: "a \<noteq> 0" "cx_mem c a = None" "a \<notin># free c" "FramePoolOwns (wk c i) a"
  shows "frames_ok H (set_wk i w c)"
proof (rule frames_okI)
  have fr: "free (set_wk i w c) = free c + {#a#}" using free_set_wk [OF i, of w "{#}" "{#a#}"] f by simp
  show us: "used (set_wk i w c) = used c" using used_set_wk [OF i, of w "{#}" "{#}"] u by simp
  have na: "fst x \<noteq> a" if "x \<in># used c + H" for x
    using frames_okD(2) [OF ok that] a(2) by (auto simp: fits_def split: prod.splits)
  then have z: "count (image_mset fst (used c + H)) a = 0" by (auto simp: count_eq_zero_iff)
  show "count (image_mset fst (used c + H) + (free c + {#a#})) b \<le> 1" for b
    using frames_okD(1) [OF ok, of b] z a(3) by (cases "b = a") (simp_all add: not_in_iff)
  show "b \<noteq> 0 \<and> cx_mem c b = None" if "b \<in># free c + {#a#}" for b
    using frames_okD(3) [OF ok, of b] a that by auto
  show "\<forall>v \<in> set (cx_workers (set_wk i w c)). \<forall>b \<in># w_free v. FramePoolOwns v b"
  proof -
    have "\<forall>b \<in># w_free w. FramePoolOwns w b" using frames_okD(4) [OF ok] i own f a(4) by (simp add: wk_def)
    then show ?thesis using frames_okD(4) [OF ok] by (auto simp: set_wk_def dest!: subsetD [OF set_update_subset_insert])
  qed
  show "free (set_wk i w c) = free c + {#a#}" by (rule fr)
qed (use frames_okD(2) [OF ok] in simp_all)

lemma frames_ok_write:
  assumes ok: "frames_ok (add_mset (a, n) H) c" and m: "cx_mem c a = Some b" "length b' = length b"
  shows "frames_ok (add_mset (a, n) H) (c\<lparr>cx_mem := (cx_mem c)(a \<mapsto> b')\<rparr>)"
proof (rule frames_okI)
  show "fits ((cx_mem c)(a \<mapsto> b')) x" if "x \<in># used c + add_mset (a, n) H" for x
    using frames_okD(2) [OF ok that] m by (auto simp: fits_def split: prod.splits)
  show "x \<noteq> 0 \<and> ((cx_mem c)(a \<mapsto> b')) x = None" if "x \<in># free c" for x
    using frames_okD(3) [OF ok that] m by auto
  show "\<forall>w \<in> set (cx_workers (c\<lparr>cx_mem := (cx_mem c)(a \<mapsto> b')\<rparr>)). \<forall>a \<in># w_free w. FramePoolOwns w a"
    using frames_okD(4) [OF ok] by simp
qed (use frames_okD(1) [OF ok] in simp_all)

section \<open>Allocating and freeing\<close>

lemma put_frame_ends:
  assumes inv: "dp_inv env (add_mset (a, n) H) c" and bs: "int (length bs) \<le> n"
  shows "dp_ends env (add_mset (a, n) H) c (put_frame a bs c)"
proof -
  obtain b where b: "cx_mem c a = Some b" "n \<le> int (length b)"
    using frames_ok_held [OF dp_invD(3) [OF inv], of "(a, n)"] by (auto simp: fits_def)
  have "length bs \<le> length b" using b(2) bs by linarith
  then have p: "put_frame a bs c = Some (c\<lparr>cx_mem := (cx_mem c)(a \<mapsto> bs @ drop (length bs) b)\<rparr>)"
    using b(1) by (simp add: put_frame_def wr_0)
  moreover have "frames_ok (add_mset (a, n) H) (c\<lparr>cx_mem := (cx_mem c)(a \<mapsto> bs @ drop (length bs) b)\<rparr>)"
    using frames_ok_write [OF dp_invD(3) [OF inv] b(1)] \<open>length bs \<le> length b\<close> by simp
  ultimately show ?thesis using inv by (auto simp: dp_ends_def dp_invD intro!: dp_inv_step [OF inv] dp_step_hts)
qed

lemma w_free_pool: "w_free (w\<lparr>w_frame_pool_free := a # l\<rparr>) = w_free (w\<lparr>w_frame_pool_free := l\<rparr>) + {#a#}"
  by (simp add: w_free_def)

lemma w_used_pool [simp]: "w_used (w\<lparr>w_frame_pool_free := l\<rparr>) = w_used w" "w_used (w\<lparr>w_frame_return_inbox := k\<rparr>) = w_used w"
  by (simp_all add: w_used_def)

lemma FramePoolOwns_fields [simp]:
  "FramePoolOwns (w\<lparr>w_frame_pool_free := l\<rparr>) a = FramePoolOwns w a" "FramePoolOwns (w\<lparr>w_frame_return_inbox := k\<rparr>) a = FramePoolOwns w a"
  "FramePoolOwns (w\<lparr>w_notif_map := n\<rparr>) a = FramePoolOwns w a" "FramePoolOwns (w\<lparr>w_ht := h\<rparr>) a = FramePoolOwns w a"
  "FramePoolOwns (w\<lparr>w_xfer_inbox := x\<rparr>) a = FramePoolOwns w a"
  by (simp_all add: FramePoolOwns_def)

lemma hts_FrameFree: "FrameFree i a c = Some c' \<Longrightarrow> hts c' = hts c"
  by (auto simp: FrameFree_def FrameReturnPush_def Let_def split: if_splits option.splits)

lemma FrameFree_ends:
  assumes inv: "dp_inv env (add_mset (a, n) H) c" and i: "i < length (cx_workers c)"
  shows "dp_ends env H c (FrameFree i a c)"
proof -
  let ?c = "c\<lparr>cx_mem := (cx_mem c)(a := None)\<rparr>"
  note ok = dp_invD(3) [OF inv]
  note a = frames_ok_other(2-4) [OF ok]
  have ok': "frames_ok H ?c" by (rule frames_ok_drop [OF ok])
  have "FrameFree i a c \<noteq> None" using a by (simp add: FrameFree_def Let_def split: option.split)
  then obtain r where r: "FrameFree i a c = Some r" by blast
  have "frames_ok H r \<and> aux r"
  proof (cases "FramePoolOwns (wk c i) a")
    case True
    let ?w = "(wk c i)\<lparr>w_frame_pool_free := a # w_frame_pool_free (wk c i)\<rparr>"
    have "r = set_wk i ?w ?c" using r True a by (simp add: FrameFree_def Let_def)
    moreover have "frames_ok H (set_wk i ?w ?c)"
      by (rule frames_ok_give [OF ok']) (use i a True in \<open>simp_all add: w_free_def\<close>)
    ultimately show ?thesis using inv by (auto intro!: aux_set_wk simp: dp_invD)
  next
    case False
    show ?thesis
    proof (cases "FramePoolOwnerId ?c i a")
      case None
      then have "r = ?c" using r False a by (simp add: FrameFree_def Let_def)
      then show ?thesis using ok' inv by (simp add: dp_invD)
    next
      case (Some j)
      then have j: "j < length (cx_workers c)" "FramePoolOwns (wk c j) a"
        using False by (auto simp: FramePoolOwnerId_def find_Some_iff split: if_splits)
      let ?in = "w_frame_return_inbox (wk c j)"
      let ?w = "(wk c j)\<lparr>w_frame_return_inbox := ?in[i := a # ?in ! i]\<rparr>"
      have "i < length ?in" using dp_invD(8) [OF inv j(1)] dp_invD(4) [OF inv] i by (simp add: worker_aux_def)
      from sum_list_update [OF this, of mset "a # ?in ! i"]
      have "(\<Sum>l\<leftarrow>?in[i := a # ?in ! i]. mset l) = (\<Sum>l\<leftarrow>?in. mset l) + {#a#}" by simp
      then have f: "w_free ?w = w_free (wk c j) + {#a#}" by (simp add: w_free_def)
      have "r = set_wk j ?w ?c" using r Some False a by (simp add: FrameFree_def FrameReturnPush_def Let_def)
      moreover have "frames_ok H (set_wk j ?w ?c)"
        by (rule frames_ok_give [OF ok']) (use j a f in simp_all)
      moreover have "worker_aux ?w" using dp_invD(8) [OF inv j(1)] by (simp add: worker_aux_def)
      ultimately show ?thesis using inv by (auto intro!: aux_set_wk simp: dp_invD)
    qed
  qed
  moreover have "core r = core c" "hts r = hts c" by (rule core_FrameFree [OF r], rule hts_FrameFree [OF r])
  ultimately show ?thesis using r by (auto simp: dp_ends_def intro!: dp_inv_step [OF inv] dp_step_hts)
qed

lemma mset_return_list: "mset (return_list as fs) = mset as + mset fs"
  by (induction as fs rule: return_list.induct) simp_all

lemma mset_return_inboxes: "mset (return_inboxes ls fs) = (\<Sum>l\<leftarrow>ls. mset l) + mset fs"
  by (induction ls fs rule: return_inboxes.induct) (simp_all add: mset_return_list)

lemma FrameReturnDrain_inv:
  assumes inv: "dp_inv env H c" and i: "i < length (cx_workers c)"
  shows "dp_inv env H (FrameReturnDrain i c)"
proof -
  let ?w = "wk c i" and ?n = "length (cx_workers c)"
  let ?l = "w_frame_return_inbox ?w"
  have "(\<Sum>l\<leftarrow>?l. mset l) = (\<Sum>l\<leftarrow>take ?n ?l. mset l) + (\<Sum>l\<leftarrow>drop ?n ?l. mset l)"
    by (metis append_take_drop_id map_append sum_list_append)
  moreover have "(\<Sum>l\<leftarrow>map (\<lambda>l. []) xs. mset l) = {#}" for xs :: "nat list list" by (induction xs) simp_all
  ultimately have "w_frames (?w\<lparr>w_frame_pool_free := return_inboxes (take ?n ?l) (w_frame_pool_free ?w),
      w_frame_return_inbox := map (\<lambda>l. []) (take ?n ?l) @ drop ?n ?l\<rparr>) = w_frames ?w"
    by (simp add: w_frames_def w_free_def mset_return_inboxes w_used_def)
  moreover have "worker_aux (?w\<lparr>w_frame_pool_free := return_inboxes (take ?n ?l) (w_frame_pool_free ?w),
      w_frame_return_inbox := map (\<lambda>l. []) (take ?n ?l) @ drop ?n ?l\<rparr>)"
    using dp_invD(8) [OF inv i] by (simp add: worker_aux_def)
  ultimately show ?thesis unfolding FrameReturnDrain_def Let_def by (intro dp_inv_set_wk [OF inv]) simp_all
qed

lemma pool_take_inv:
  assumes inv: "dp_inv env H c" and i: "i < length (cx_workers c)" and r: "pool_take i c = Some (c', a)"
    and n: "0 \<le> n" "n \<le> kFramePoolBufSize"
  shows "dp_inv env (add_mset (a, n) H) c'"
proof -
  obtain l where l: "w_frame_pool_free (wk c i) = a # l"
    using r by (auto simp: pool_take_def Let_def split: list.splits)
  define f :: "WorkerStats \<Rightarrow> WorkerStats" where "f = (\<lambda>s. s\<lparr>st_frame_pool_hits := st_frame_pool_hits s + 1\<rparr>)"
  let ?w = "(wk c i)\<lparr>w_frame_pool_free := l, w_stats := f (w_stats (wk c i))\<rparr>"
  have c': "c' = (set_wk i ?w c)\<lparr>cx_mem := (cx_mem c)(a \<mapsto> replicate (nat kFramePoolBufSize) 0)\<rparr>"
    using r l i unfolding f_def by (simp add: pool_take_def Let_def stat_def)
  have "frames_ok (add_mset (a, n) H) c'" unfolding c'
    by (rule frames_ok_take [OF dp_invD(3) [OF inv] i])
      (use n l in \<open>simp_all add: w_free_def w_used_def FramePoolOwns_def\<close>)
  moreover have "aux c'" unfolding c' using inv by (auto intro!: aux_set_wk simp: dp_invD)
  ultimately show ?thesis using core_pool_take [OF r] by (intro dp_inv_step [OF inv])
qed

lemma malloc_inv:
  assumes inv: "dp_inv env H c" and r: "dp_malloc env c n = (c', a)" and n: "0 \<le> n"
  shows "dp_inv env (if a = 0 then H else add_mset (a, n) H) c'"
proof (cases "a = 0")
  case True
  then show ?thesis using r inv by (auto simp: dp_malloc_def Let_def split: if_splits)
next
  case False
  then have a: "a = de_malloc env (cx_mallocs c) (cx_mem c)"
    and c': "c' = c\<lparr>cx_mallocs := cx_mallocs c + 1, cx_mem := (cx_mem c)(a \<mapsto> replicate (nat n) 0)\<rparr>"
    using r by (auto simp: dp_malloc_def Let_def split: if_splits)
  have m: "cx_mem c a = None" "\<forall>w \<in> set (cx_workers c). \<not> FramePoolOwns w a"
    using dp_invD(5) [OF inv] False unfolding malloc_ok_def a by blast+
  have "a \<notin># w_free w" if "w \<in> set (cx_workers c)" for w
    using m(2) frames_okD(4) [OF dp_invD(3) [OF inv]] that by blast
  then have "a \<notin># free c" by (induction "cx_workers c") (auto simp: free_def)
  then have "frames_ok (add_mset (a, n) H) (c\<lparr>cx_mallocs := cx_mallocs c + 1, cx_mem := (cx_mem c)(a \<mapsto> replicate (nat n) 0)\<rparr>)"
    using frames_ok_new [of H "c\<lparr>cx_mallocs := cx_mallocs c + 1\<rparr>" a n "replicate (nat n) 0"] dp_invD(3) [OF inv] False m(1) n
    by (simp add: free_def)
  then show ?thesis using False inv unfolding c' by (auto intro!: dp_inv_step [OF inv] simp: dp_invD)
qed

lemma FrameAlloc_inv:
  assumes inv: "dp_inv env H c" and i: "i < length (cx_workers c)" and r: "FrameAlloc env c i n = (c', a)" and n: "0 \<le> n"
  shows "dp_inv env (if a = 0 then H else add_mset (a, n) H) c'"
proof -
  have take: ?thesis if "pool_take i d = Some (c', a)" "dp_inv env H d" "n \<le> kFramePoolBufSize" "length (cx_workers d) = length (cx_workers c)" for d
  proof -
    have "dp_inv env (add_mset (a, n) H) c'" using pool_take_inv [OF that(2) _ that(1) n that(3)] i that(4) by simp
    moreover from this have "a \<noteq> 0" by (metis dp_invD(3) frames_ok_other(3))
    ultimately show ?thesis by simp
  qed
  have d: "dp_inv env H (FrameReturnDrain i c)" "length (cx_workers (FrameReturnDrain i c)) = length (cx_workers c)"
    using FrameReturnDrain_inv [OF inv i] coreD(1) [OF core_FrameReturnDrain] by auto
  have that_miss: ?thesis if "dp_malloc env (stat i f d) n = (c', a)" "dp_inv env H d" for f d
    by (rule malloc_inv [OF dp_inv_stat [OF that(2)] that(1) n])
  consider (pool) "pool_take i c = Some (c', a)" "n \<le> kFramePoolBufSize"
    | (drained) "pool_take i (FrameReturnDrain i c) = Some (c', a)" "n \<le> kFramePoolBufSize"
    | (miss) f d where "dp_malloc env (stat i f d) n = (c', a)" "d = c \<or> d = FrameReturnDrain i c"
    using r by (fastforce simp: FrameAlloc_def Let_def split: if_splits option.splits)
  then show ?thesis
  proof cases
    case miss
    then show ?thesis using that_miss inv d(1) by blast
  qed (use take inv d in blast)+
qed

lemma hts_FrameReturnDrain [simp]: "hts (FrameReturnDrain i c) = hts c"
  by (simp add: FrameReturnDrain_def Let_def)

lemma hts_FrameAlloc: "FrameAlloc env c i n = (c', a) \<Longrightarrow> hts c' = hts c"
  by (auto simp: FrameAlloc_def pool_take_def dp_malloc_def Let_def split: if_splits option.splits list.splits)

lemma FrameAlloc_step: "FrameAlloc env c i n = (c', a) \<Longrightarrow> dp_step c c'"
  by (intro dp_step_hts core_FrameAlloc hts_FrameAlloc)

end
