(* ===== verification/Dp_Send.thy ===== *)
theory Dp_Send
  imports Dp_Inv
begin

text \<open>
  Submissions, deferred receives and the send queues of the peers keep the invariant of the
  data plane. A frame that is queued leaves the hand of its sender, and a completed one is freed
  or waits for its notification.
\<close>

section \<open>Peers\<close>

lemma queue_ok_fields [simp]:
  "queue_ok (P\<lparr>p_send_inflight := a1\<rparr>) = queue_ok P" "queue_ok (P\<lparr>p_send_queued := a2\<rparr>) = queue_ok P"
  "queue_ok (P\<lparr>p_send_pending := a3\<rparr>) = queue_ok P" "queue_ok (P\<lparr>p_no_zc := a4\<rparr>) = queue_ok P"
  "queue_ok (P\<lparr>p_zc_draining := a5\<rparr>) = queue_ok P" "queue_ok (P\<lparr>p_poll_write_pending := a6\<rparr>) = queue_ok P"
  "queue_ok (P\<lparr>p_fwd := a7\<rparr>) = queue_ok P" "queue_ok (P\<lparr>p_fwd1_peer := a8\<rparr>) = queue_ok P"
  "queue_ok (P\<lparr>p_fwd1_dst_fd := a9\<rparr>) = queue_ok P" "queue_ok (P\<lparr>p_fwd1_dst_worker := b1\<rparr>) = queue_ok P"
  "queue_ok (P\<lparr>p_rbuf := b2\<rparr>) = queue_ok P" "queue_ok (P\<lparr>p_rbuf_len := b3\<rparr>) = queue_ok P"
  "queue_ok (P\<lparr>p_fwd_count := b4\<rparr>) = queue_ok P" "queue_ok (P\<lparr>p_protocol := b5\<rparr>) = queue_ok P"
  "queue_ok (P\<lparr>p_peer_id := b6\<rparr>) = queue_ok P" "queue_ok (P\<lparr>p_recv_bytes_window := b7\<rparr>) = queue_ok P"
  "queue_ok (P\<lparr>p_window_start_ns := b8\<rparr>) = queue_ok P"
  by (simp_all add: queue_ok_def)

lemma inflight_ok_fields [simp]:
  "inflight_ok (P\<lparr>p_send_queued := a2\<rparr>) = inflight_ok P"
  "inflight_ok (P\<lparr>p_send_pending := a3\<rparr>) = inflight_ok P" "inflight_ok (P\<lparr>p_no_zc := a4\<rparr>) = inflight_ok P"
  "inflight_ok (P\<lparr>p_zc_draining := a5\<rparr>) = inflight_ok P" "inflight_ok (P\<lparr>p_poll_write_pending := a6\<rparr>) = inflight_ok P"
  "inflight_ok (P\<lparr>p_fwd := a7\<rparr>) = inflight_ok P" "inflight_ok (P\<lparr>p_fwd1_peer := a8\<rparr>) = inflight_ok P"
  "inflight_ok (P\<lparr>p_fwd1_dst_fd := a9\<rparr>) = inflight_ok P" "inflight_ok (P\<lparr>p_fwd1_dst_worker := b1\<rparr>) = inflight_ok P"
  "inflight_ok (P\<lparr>p_rbuf := b2\<rparr>) = inflight_ok P" "inflight_ok (P\<lparr>p_rbuf_len := b3\<rparr>) = inflight_ok P"
  "inflight_ok (P\<lparr>p_fwd_count := b4\<rparr>) = inflight_ok P" "inflight_ok (P\<lparr>p_protocol := b5\<rparr>) = inflight_ok P"
  "inflight_ok (P\<lparr>p_peer_id := b6\<rparr>) = inflight_ok P" "inflight_ok (P\<lparr>p_recv_bytes_window := b7\<rparr>) = inflight_ok P"
  "inflight_ok (P\<lparr>p_window_start_ns := b8\<rparr>) = inflight_ok P"
  by (simp_all add: inflight_ok_def)

lemma fwd_ok_fields [simp]:
  "fwd_ok (P\<lparr>p_send_inflight := a1\<rparr>) = fwd_ok P" "fwd_ok (P\<lparr>p_send_queued := a2\<rparr>) = fwd_ok P"
  "fwd_ok (P\<lparr>p_send_pending := a3\<rparr>) = fwd_ok P" "fwd_ok (P\<lparr>p_no_zc := a4\<rparr>) = fwd_ok P"
  "fwd_ok (P\<lparr>p_zc_draining := a5\<rparr>) = fwd_ok P" "fwd_ok (P\<lparr>p_poll_write_pending := a6\<rparr>) = fwd_ok P"
  "fwd_ok (P\<lparr>p_queue := a7\<rparr>) = fwd_ok P" "fwd_ok (P\<lparr>p_send_next := a8\<rparr>) = fwd_ok P"
  "fwd_ok (P\<lparr>p_rbuf := b2\<rparr>) = fwd_ok P" "fwd_ok (P\<lparr>p_rbuf_len := b3\<rparr>) = fwd_ok P"
  "fwd_ok (P\<lparr>p_fwd_count := b4\<rparr>) = fwd_ok P" "fwd_ok (P\<lparr>p_protocol := b5\<rparr>) = fwd_ok P"
  "fwd_ok (P\<lparr>p_peer_id := b6\<rparr>) = fwd_ok P" "fwd_ok (P\<lparr>p_recv_bytes_window := b7\<rparr>) = fwd_ok P"
  "fwd_ok (P\<lparr>p_window_start_ns := b8\<rparr>) = fwd_ok P"
  by (simp_all add: fwd_ok_def)

text \<open>Where a peer is, and replacing it.\<close>

definition peer_in :: "Ctx \<Rightarrow> nat \<Rightarrow> nat \<Rightarrow> bool" where
  "peer_in c i p \<longleftrightarrow> i < length (cx_workers c) \<and> p < kHtCapacity"

lemma peer_in_step: "dp_step c c' \<Longrightarrow> peer_in c' i p = peer_in c i p"
  using dp_stepD(2) by (simp add: peer_in_def)

lemma pr_set_pr:
  assumes "dp_inv env H c" "peer_in c i p"
  shows "pr (set_pr i p P c) i p = P" "w_ht (wk (set_pr i p P c) i) = (w_ht (wk c i))[p := P]"
  using assms dp_invD(6) by (simp_all add: peer_in_def pr_def set_pr_def wk_set_wk)

lemma peer_inD:
  assumes "dp_inv env H c" "peer_in c i p"
  shows "i < length (cx_workers c)" "p < length (w_ht (wk c i))" "queue_ok (pr c i p)" "fwd_ok (pr c i p)" "dp_fd (p_fd (pr c i p))"
    "is_Key (p_key (pr c i p))" "p_fwd_count (pr c i p) \<le> int kMaxPeerRules"
  using assms dp_invD(6,9,10) [OF assms(1)] by (simp_all add: peer_in_def)

lemma sends_okD: "sends_ok c \<Longrightarrow> dp_inv env H c \<Longrightarrow> peer_in c i p \<Longrightarrow> inflight_ok (pr c i p)"
  using peer_inD(1,2) unfolding sends_ok_def pr_def wk_def by (meson nth_mem)

lemma pr_set_wk [simp]: "w_ht w = w_ht (wk c i) \<Longrightarrow> pr (set_wk i w c) j q = pr c j q"
  by (auto simp: pr_def wk_set_wk)

lemma pr_stat [simp]: "pr (stat i f c) j q = pr c j q"
  by (simp add: stat_def)

lemma length_stat [simp]: "length (cx_workers (stat i f c)) = length (cx_workers c)"
  by (simp add: stat_def)

text \<open>Frames of a queue are in use.\<close>

lemma elem_sum_list: "x \<in> set xs \<Longrightarrow> f x \<subseteq># (\<Sum>y\<leftarrow>xs. f y)"
  by (induction xs) (auto intro: subset_mset.order_trans subset_mset.add_increasing subset_mset.add_increasing2)

lemma queued_used:
  assumes "dp_inv env H c" "peer_in c i p" "x \<in> set (p_queue (pr c i p))"
  shows "item_frame x \<in># used c" "fits (cx_mem c) (item_frame x)"
proof -
  note b = peer_inD(1,2) [OF assms(1,2)]
  have "item_frame x \<in># mset (map item_frame (p_queue (pr c i p)))" using assms(3) by simp
  moreover have "mset (map item_frame (p_queue (pr c i p))) \<subseteq># queued (w_ht (wk c i))"
    unfolding queued_def pr_def using b(2) by (intro elem_sum_list) simp
  moreover have "w_used (wk c i) \<subseteq># used c" unfolding used_def wk_def using b(1) by (intro elem_sum_list) simp
  ultimately show "item_frame x \<in># used c"
    by (metis (no_types, lifting) add.assoc mset_subset_eqD mset_subset_eq_add_left w_used_def)
  then show "fits (cx_mem c) (item_frame x)" using frames_okD(2) [OF dp_invD(3) [OF assms(1)]] by simp
qed

lemma get_frame_fits: "fits (cx_mem c) (a, n) \<Longrightarrow> \<exists>bs. get_frame a n c = Some bs"
  by (auto simp: fits_def get_frame_def rd_defined)

section \<open>Freeing items\<close>

lemma SlabFreeItem_inv: "dp_inv env H c \<Longrightarrow> dp_inv env H (SlabFreeItem i x c)"
  by (auto simp: SlabFreeItem_def dp_invD intro!: dp_inv_set_wk)

lemma hts_SlabFreeItem [simp]: "hts (SlabFreeItem i x c) = hts c"
  by (simp add: SlabFreeItem_def)

lemma free_item_ends:
  assumes "dp_inv env (add_mset (item_frame x) H) c" "i < length (cx_workers c)"
  shows "dp_ends env H c (free_item i x c)"
  unfolding free_item_def
  using assms(1) by (intro dp_ends_bind [OF FrameFree_ends [OF _ assms(2)]])
    (auto simp: item_frame_def intro!: dp_ends_same SlabFreeItem_inv dp_step_hts)

lemma free_items_ends:
  assumes "dp_inv env (mset (map item_frame xs) + H) c" "i < length (cx_workers c)"
  shows "dp_ends env H c (free_items i xs c)"
  using assms
proof (induction xs arbitrary: c)
  case (Cons x xs)
  show ?case unfolding free_items.simps
    by (rule dp_ends_bind [OF free_item_ends Cons.IH]) (use Cons.prems dp_stepD(2) in simp_all)
qed (simp add: dp_ends_same)

lemma hts_free_item: "free_item i x c = Some c' \<Longrightarrow> hts c' = hts c"
  by (auto simp: free_item_def split: bind_splits dest: hts_FrameFree)

section \<open>Deferred receives\<close>

lemma DeferRecv_inv: "dp_inv env H c \<Longrightarrow> dp_inv env H (DeferRecv i fd c)"
  unfolding DeferRecv_def Let_def
  by (auto intro!: dp_inv_set_wk) (drule (1) dp_invD(8), simp add: worker_aux_def kRecvDeferSize_def)

lemma GetSqe_hts: "GetSqe env i c = (c', ok) \<Longrightarrow> hts c' = hts c"
  by (auto simp: GetSqe_def Let_def split: if_splits)

lemma SubmitRecvNow_inv:
  assumes "dp_inv env H c"
  shows "dp_inv env H (SubmitRecvNow env i fd c)"
proof (cases "GetSqe env i c")
  case (Pair c' ok)
  note inv = GetSqe_inv(1) [OF Pair assms]
  show ?thesis using Pair assms DeferRecv_inv [OF inv] inv
    by (auto simp: SubmitRecvNow_def Let_def split: option.split bool.split intro!: dp_inv_emit dp_inv_set_wk dest: dp_invD(8))
qed

lemma hts_DeferRecv [simp]: "hts (DeferRecv i fd c) = hts c"
  by (simp add: DeferRecv_def Let_def)

lemma hts_SubmitRecvNow [simp]: "hts (SubmitRecvNow env i fd c) = hts c"
proof (cases "GetSqe env i c")
  case (Pair c' ok)
  then show ?thesis using GetSqe_hts [OF Pair]
    by (auto simp: SubmitRecvNow_def Let_def split: option.split bool.split)
qed

lemma SubmitRecv_inv: "dp_inv env H c \<Longrightarrow> dp_inv env H (SubmitRecv env i fd c)"
  by (simp add: SubmitRecv_def DeferRecv_inv SubmitRecvNow_inv)

lemma hts_SubmitRecv [simp]: "hts (SubmitRecv env i fd c) = hts c"
  by (simp add: SubmitRecv_def)

text \<open>How many receives are deferred, and how long until a submission entry is to be had.\<close>

definition deferred :: "Worker \<Rightarrow> nat" where
  "deferred w = (w_recv_defer_head w + kRecvDeferSize - w_recv_defer_tail w) mod kRecvDeferSize"

definition sqe_wait :: "dp_env \<Rightarrow> nat \<Rightarrow> nat" where
  "sqe_wait env n = (LEAST k. de_sqe env (n + k))"

lemma sqe_wait_Suc:
  assumes "sqe_fair env" "\<not> de_sqe env n"
  shows "sqe_wait env n = Suc (sqe_wait env (Suc n))"
proof -
  obtain m where "m \<ge> n" "de_sqe env m" using assms(1) by (auto simp: sqe_fair_def)
  then have ex: "de_sqe env (n + (m - n))" by simp
  have "(LEAST k. de_sqe env (n + k)) = Suc (LEAST k. de_sqe env (n + Suc k))"
    by (rule Least_Suc [where P = "\<lambda>k. de_sqe env (n + k)", OF ex]) (use assms(2) in simp)
  then show ?thesis by (simp add: sqe_wait_def)
qed

lemma deferred_pop:
  assumes "worker_aux w" "w_recv_defer_tail w \<noteq> w_recv_defer_head w"
  shows "deferred w = Suc (deferred (w\<lparr>w_recv_defer_tail := (w_recv_defer_tail w + 1) mod kRecvDeferSize\<rparr>))"
  using assms unfolding worker_aux_def deferred_def kRecvDeferSize_def
  by (simp add: mod_if split: if_splits) linarith

lemma deferred_push:
  assumes "worker_aux (wk c i)" "i < length (cx_workers c)"
  shows "deferred (wk (DeferRecv i fd c) i) \<le> Suc (deferred (wk c i))"
  using assms unfolding worker_aux_def deferred_def kRecvDeferSize_def
  by (auto simp: DeferRecv_def Let_def wk_set_wk kRecvDeferSize_def mod_if)

lemma GetSqe_deferred:
  assumes "GetSqe env i c = (c', ok)"
  shows "deferred (wk c' i) = deferred (wk c i)" "cx_sqes c' = Suc (cx_sqes c)" "ok = de_sqe env (cx_sqes c)"
  using assms by (auto simp: GetSqe_def Let_def deferred_def stat_def wk_set_wk split: if_splits)

text \<open>One turn makes progress: there is one deferred receive fewer, or an attempt fewer is to fail.\<close>

lemma SubmitRecvNow_deferred:
  assumes "dp_inv env H c" "i < length (cx_workers c)"
  shows "deferred (wk (SubmitRecvNow env i fd c) i) \<le> deferred (wk c i) \<or>
    \<not> de_sqe env (cx_sqes c) \<and> cx_sqes (SubmitRecvNow env i fd c) = Suc (cx_sqes c) \<and>
    deferred (wk (SubmitRecvNow env i fd c) i) \<le> Suc (deferred (wk c i))"
proof (cases "GetSqe env i c")
  case (Pair c' ok)
  note g = GetSqe_deferred [OF Pair] and inv = GetSqe_inv(1) [OF Pair assms(1)]
  have i: "i < length (cx_workers c')" using assms(2) coreD(1) [OF core_GetSqe [OF Pair]] by simp
  have s: "cx_sqes (DeferRecv i fd c') = cx_sqes c'" by (simp add: DeferRecv_def Let_def)
  show ?thesis
    using Pair g deferred_push [OF dp_invD(8) [OF inv i] i, of fd] s i
    by (auto simp: SubmitRecvNow_def Let_def deferred_def wk_set_wk split: option.split bool.split)
qed

lemma DrainDeferredRecvs_total:
  assumes "dp_inv env H c" "i < length (cx_workers c)"
  shows "\<exists>c'. DrainDeferredRecvs env i c = Some c' \<and> dp_inv env H c' \<and> hts c' = hts c"
proof -
  define meas where "meas = (\<lambda>c. (deferred (wk c i), sqe_wait env (cx_sqes c)))"
  have wf: "wf (inv_image (less_than <*lex*> less_than) meas)" by auto
  show ?thesis using assms
  proof (induction c rule: wf_induct_rule [OF wf])
    case (1 c)
    note inv = \<open>dp_inv env H c\<close> and i = \<open>i < length (cx_workers c)\<close>
    let ?w = "wk c i"
    show ?case
    proof (cases "w_recv_defer_tail ?w \<noteq> w_recv_defer_head ?w \<and> w_recv_inflight ?w < kRecvBudget \<and> \<not> w_recv_paused ?w")
      case False
      then have "DrainDeferredRecvs env i c = Some c" by (subst DrainDeferredRecvs.simps) (auto simp: Let_def)
      then show ?thesis using inv by simp
    next
      case True
      define fd where "fd = w_recv_defer_buf ?w ! w_recv_defer_tail ?w"
      define c1 where "c1 = set_wk i (?w\<lparr>w_recv_defer_tail := (w_recv_defer_tail ?w + 1) mod kRecvDeferSize\<rparr>) c"
      define c2 where "c2 = (if dp_fd fd \<and> w_fd_map ?w fd \<noteq> None then SubmitRecvNow env i fd c1 else c1)"
      have eq: "DrainDeferredRecvs env i c = DrainDeferredRecvs env i c2"
        using True by (subst DrainDeferredRecvs.simps) (auto simp: Let_def fd_def c1_def c2_def)
      have d1: "deferred ?w = Suc (deferred (wk c1 i))" "cx_sqes c1 = cx_sqes c"
        using deferred_pop [OF dp_invD(8) [OF inv i]] True i by (simp_all add: c1_def)
      have inv1: "dp_inv env H c1" unfolding c1_def
        using dp_invD(8) [OF inv i] by (intro dp_inv_set_wk [OF inv]) (simp_all add: worker_aux_def kRecvDeferSize_def)
      have i1: "i < length (cx_workers c1)" using i by (simp add: c1_def)
      have inv2: "dp_inv env H c2" "hts c2 = hts c" "core c2 = core c"
        using inv1 SubmitRecvNow_inv [OF inv1] by (simp_all add: c2_def) (simp_all add: c1_def)
      have "(meas c2, meas c) \<in> less_than <*lex*> less_than"
        using SubmitRecvNow_deferred [OF inv1 i1, of fd] d1 sqe_wait_Suc [of env "cx_sqes c"] inv
        by (auto simp: meas_def c2_def dp_inv_def fixed_def)
      then have "(c2, c) \<in> inv_image (less_than <*lex*> less_than) meas" by simp
      from "1.IH" [OF this inv2(1)] coreD(1) [OF inv2(3)] i inv2(2) eq show ?thesis by simp
    qed
  qed
qed

lemma DrainDeferredRecvs_ends:
  assumes "dp_inv env H c" "i < length (cx_workers c)"
  shows "dp_ends env H c (DrainDeferredRecvs env i c)"
  using DrainDeferredRecvs_total [OF assms] core_DrainDeferredRecvs by (auto simp: dp_ends_def intro!: dp_step_hts)

section \<open>Submitting sends\<close>

lemma submit_send_ends:
  assumes "dp_inv env H c" "fits (cx_mem c) (a, n)"
  shows "\<exists>c' ok. submit_send env i fd a n m z c = Some (c', ok) \<and> dp_inv env H c' \<and> hts c' = hts c \<and> cx_mem c' = cx_mem c"
proof (cases "GetSqe env i c")
  case (Pair c' ok)
  note inv = GetSqe_inv(1,2) [OF Pair assms(1)]
  obtain bs where "get_frame a n c' = Some bs" using get_frame_fits [of c' a n] assms(2) inv(2) by auto
  then show ?thesis using Pair inv GetSqe_hts [OF Pair] by (auto simp: submit_send_def split: bool.split)
qed

lemma SubmitPeerSend_eq:
  "SubmitPeerSend env i P a n m c = submit_send env i (p_fd P) a n m (\<not> (p_no_zc P \<or> n \<le> kZcThreshold)) c"
  by (simp add: SubmitPeerSend_def)

lemma submit_next_ends:
  assumes inv: "dp_inv env H c" and p: "peer_in c i p" and k: "p_send_next (pr c i p) = Some k"
  shows "\<exists>c' ok. submit_next env i p c = Some (c', ok) \<and> dp_inv env H c' \<and> dp_step c c'"
proof -
  let ?P = "pr c i p" and ?x = "p_queue (pr c i p) ! k"
  have len: "k < length (p_queue ?P)" using peer_inD(3) [OF inv p] k by (simp add: queue_ok_def)
  then have "fits (cx_mem c) (si_data ?x, si_len ?x)" using queued_used(2) [OF inv p, of ?x] by (simp add: item_frame_def)
  from submit_send_ends [OF inv this, of i "p_fd ?P" "Suc k < length (p_queue ?P)" "\<not> (p_no_zc ?P \<or> si_len ?x \<le> kZcThreshold)"]
  obtain c' ok where c': "SubmitPeerSend env i ?P (si_data ?x) (si_len ?x) (Suc k < length (p_queue ?P)) c = Some (c', ok)"
    "dp_inv env H c'" "hts c' = hts c" unfolding SubmitPeerSend_eq by blast
  then have "core c' = core c" unfolding SubmitPeerSend_eq by (blast dest: core_submit_send)
  with c'(3) have s: "dp_step c c'" by (rule dp_step_hts [rotated])
  have P: "pr c' i p = ?P" using pr_hts [OF c'(3)] peer_inD(1) [OF inv p] by simp
  let ?Q = "?P\<lparr>p_send_next := (if Suc k < length (p_queue ?P) then Some (Suc k) else None),
      p_send_inflight := p_send_inflight ?P + 1\<rparr>"
  have "queue_ok ?Q" by (simp add: queue_ok_def)
  then have "dp_inv env H (set_pr i p ?Q c')" using peer_inD(4) [OF inv p] P by (intro dp_inv_set_pr [OF c'(2)]) simp_all
  moreover have "inflight_ok ?P \<Longrightarrow> inflight_ok ?Q" using k len by (auto simp: inflight_ok_def)
  then have "dp_step c' (set_pr i p ?Q c')" using P by (intro dp_step_set_pr) simp_all
  ultimately show ?thesis using k len c' s P by (cases ok) (auto simp: submit_next_def Let_def intro: dp_step_trans)
qed

lemma submit_next_ends':
  assumes "dp_inv env H c" "peer_in c i p" "p_send_next (pr c i p) \<noteq> None"
  shows "dp_ends env H c (map_option fst (submit_next env i p c))"
  using submit_next_ends [OF assms(1,2)] assms(3) by (fastforce simp: dp_ends_def)

lemma submit_batch_ends:
  assumes "dp_inv env H c" "peer_in c i p"
  shows "dp_ends env H c (submit_batch env i p n c)"
  using assms
proof (induction n arbitrary: c)
  case (Suc n)
  show ?case
  proof (cases "p_send_next (pr c i p) \<noteq> None \<and> p_send_inflight (pr c i p) < kMaxSendsInflight")
    case True
    then obtain c' ok where c': "submit_next env i p c = Some (c', ok)" "dp_inv env H c'" "dp_step c c'"
      using submit_next_ends [OF Suc.prems] by blast
    have "dp_ends env H c (submit_batch env i p n c')"
      using Suc.IH [OF c'(2)] Suc.prems(2) c'(3) by (auto simp: peer_in_step intro: dp_ends_from)
    with True c' show ?thesis by (simp add: dp_ends_same)
  qed (use Suc.prems in \<open>auto intro: dp_ends_same\<close>)
qed (simp add: dp_ends_same)

section \<open>Queueing a frame\<close>

lemma SlabAllocItem_inv:
  assumes "SlabAllocItem env c i = (c', r)" "dp_inv env H c"
  shows "dp_inv env H c'" "hts c' = hts c" "cx_mem c' = cx_mem c" "core c' = core c"
proof -
  show "dp_inv env H c'" using assms
    by (auto simp: SlabAllocItem_def Let_def dp_invD split: if_splits intro!: dp_inv_set_wk)
  show "hts c' = hts c" "cx_mem c' = cx_mem c" using assms(1) by (auto simp: SlabAllocItem_def Let_def split: if_splits)
  show "core c' = core c" using assms(1) by (rule core_SlabAllocItem)
qed

lemma set_wk_pr: "i < length (cx_workers c) \<Longrightarrow> w_ht w = w_ht (wk c i) \<Longrightarrow>
    set_pr i p P (set_wk i w c) = set_wk i (w\<lparr>w_ht := (w_ht (wk c i))[p := P]\<rparr>) c"
  by (simp add: set_pr_def)

lemma append_item_inv:
  assumes inv: "dp_inv env (add_mset (item_frame x) H) c" and p: "peer_in c i p"
  shows "dp_inv env H (append_item i p x c)" "dp_step c (append_item i p x c)"
proof -
  let ?w = "(wk c i)\<lparr>w_send_pressure := w_send_pressure (wk c i) + 1\<rparr>" and ?P = "pr c i p"
  let ?Q = "?P\<lparr>p_queue := p_queue ?P @ [x], p_send_queued := p_send_queued ?P + 1,
     p_send_next := (case p_send_next ?P of None \<Rightarrow> Some (length (p_queue ?P)) | Some k \<Rightarrow> Some k)\<rparr>"
  note b = peer_inD [OF inv p]
  have eq: "append_item i p x c = set_pr i p ?Q (set_wk i ?w c)"
    by (simp add: append_item_def Let_def split: option.split)
  have inv1: "dp_inv env (add_mset (item_frame x) H) (set_wk i ?w c)"
    using inv by (intro dp_inv_set_wk) (simp_all add: dp_invD)
  have q: "queue_ok ?Q" using b(3) by (auto simp: queue_ok_def split: option.splits)
  have "frames_ok H (set_pr i p ?Q (set_wk i ?w c))"
    by (rule frames_ok_move_pr [OF dp_invD(3) [OF inv1]]) (use b in simp_all)
  then show "dp_inv env H (append_item i p x c)" unfolding eq
    using q b(4) inv1 by (intro dp_inv_step [OF inv1] aux_set_pr) (simp_all add: dp_invD)
  have "dp_step (set_wk i ?w c) (set_pr i p ?Q (set_wk i ?w c))"
    by (rule dp_step_set_pr) (auto simp: inflight_ok_def split: option.splits)
  moreover have "dp_step c (set_wk i ?w c)" by (rule dp_step_hts) simp_all
  ultimately show "dp_step c (append_item i p x c)" unfolding eq by (rule dp_step_trans [rotated])
qed

lemma kick_send_ends:
  assumes inv: "dp_inv env H c" and p: "peer_in c i p"
  shows "dp_ends env H c (kick_send env i p c)"
proof -
  let ?P = "pr c i p"
  let ?c = "set_pr i p (?P\<lparr>p_send_pending := True\<rparr>) c"
  let ?w = "(wk ?c i)\<lparr>w_pending_fds := w_pending_fds (wk ?c i) @ [p_fd ?P]\<rparr>"
  note b = peer_inD [OF inv p]
  have c: "dp_inv env H ?c" "dp_step c ?c"
    using b by (auto intro!: dp_inv_set_pr [OF inv] dp_step_set_pr)
  then have "dp_inv env H (set_wk i ?w ?c)" "dp_step ?c (set_wk i ?w ?c)"
    by (auto intro!: dp_inv_set_wk dp_step_hts simp: dp_invD)
  then show ?thesis using c submit_next_ends' [OF inv p] inv
    by (auto simp: kick_send_def Let_def intro!: dp_ends_same intro: dp_step_trans)
qed

lemma pause_recv_inv: "dp_inv env H c \<Longrightarrow> dp_inv env H (pause_recv i c)"
  by (auto simp: pause_recv_def Let_def dp_invD intro!: dp_inv_stat dp_inv_set_wk)

lemma hts_pause_recv [simp]: "hts (pause_recv i c) = hts c"
  by (simp add: pause_recv_def Let_def)

lemma dp_ends_map:
  assumes "dp_ends env H c r" "\<And>c'. dp_inv env H c' \<Longrightarrow> dp_inv env H (f c') \<and> dp_step c' (f c')"
  shows "dp_ends env H c (map_option f r)"
  using assms by (auto simp: dp_ends_def intro: dp_step_trans)

lemma stat_step [simp]: "dp_step c (stat i f c)"
  by (rule dp_step_hts) simp_all

lemma EnqueueSend_ends:
  assumes inv: "dp_inv env (add_mset (a, n) H) c" and p: "peer_in c i p"
  shows "dp_ends env H c (EnqueueSend env i p a n c)"
proof -
  have free: "dp_ends env H c (FrameFree i a (stat i f d))" if "dp_inv env (add_mset (a, n) H) d" "dp_step c d" for f d
    using FrameFree_ends [OF dp_inv_stat [OF that(1)], of i i f] that(2) p dp_stepD(2) [OF that(2)]
    by (auto simp: peer_in_def stat_def intro: dp_ends_from dp_step_trans [OF _ stat_step, unfolded stat_def])
  obtain d r where d: "SlabAllocItem env c i = (d, r)" by (cases "SlabAllocItem env c i")
  note s = SlabAllocItem_inv [OF d inv]
  have cd: "dp_step c d" using s by (intro dp_step_hts)
  have pd: "peer_in d i p" using p cd by (simp add: peer_in_step)
  have "dp_ends env H c (map_option (pause_recv i) (kick_send env i p (append_item i p \<lparr>si_data = a, si_len = n, si_slab = b\<rparr> d)))" for b
  proof (rule dp_ends_map)
    let ?x = "\<lparr>si_data = a, si_len = n, si_slab = b\<rparr>"
    have x: "dp_inv env (add_mset (item_frame ?x) H) d" using s(1) by (simp add: item_frame_def)
    note ap = append_item_inv [OF x pd]
    then show "dp_ends env H c (kick_send env i p (append_item i p ?x d))"
      using kick_send_ends [OF ap(1)] pd cd by (auto simp: peer_in_step intro: dp_ends_from dp_step_trans)
  qed (simp add: pause_recv_inv dp_step_hts)
  then show ?thesis using free [OF inv] free [OF s(1) cd] d by (auto simp: EnqueueSend_def split: option.split)
qed

end
