(* ===== verification/Dp_Complete.thy ===== *)
theory Dp_Complete
  imports Dp_Send
begin

text \<open>
  Send completions: the head of a queue is done, failed, was written in part or has to wait. As
  long as completions arrive only for sends that are in flight, none of them uses a frame or an
  item after it was freed.
\<close>

section \<open>The tables of peers\<close>

lemma hts_set_pr: "i < length (cx_workers c) \<Longrightarrow> hts (set_pr i p P c) = (hts c)[i := (hts c ! i)[p := P]]"
  by (simp add: hts_def set_pr_def set_wk_def map_update wk_def)

lemma sends_ok_update:
  assumes "sends_ok c" "hts c' = (hts c)[i := (hts c ! i)[p := P]]" "inflight_ok P"
  shows "sends_ok c'"
proof (cases "i < length (hts c)")
  case True
  then show ?thesis using assms unfolding sends_ok_hts
    by (auto dest!: subsetD [OF set_update_subset_insert])
next
  case False
  then show ?thesis using assms by (simp add: sends_ok_hts list_update_beyond)
qed

section \<open>An item that is done with\<close>

lemma retire_total:
  assumes inv: "dp_inv env (add_mset (item_frame x) H) c" and i: "i < length (cx_workers c)" and fd: "dp_fd fd"
  shows "\<exists>c'. retire i fd x d c = Some c' \<and> dp_inv env H c' \<and> hts c' = hts c"
proof (cases d)
  case True
  let ?w = "(wk c i)\<lparr>w_notif_map := (w_notif_map (wk c i))(fd := x # w_notif_map (wk c i) fd)\<rparr>"
  have "noticed (w_notif_map ?w) = noticed (w_notif_map (wk c i)) + {#item_frame x#}"
    using noticed_update [OF fd, of "w_notif_map (wk c i)" "x # w_notif_map (wk c i) fd"] by simp
  then have "frames_ok H (set_wk i ?w c)"
    by (intro frames_ok_move [OF dp_invD(3) [OF inv] i]) (simp_all add: w_used_def w_free_def)
  then have "dp_inv env H (set_wk i ?w c)"
    using inv by (intro dp_inv_step [OF inv] aux_set_wk) (simp_all add: dp_invD)
  then show ?thesis using True fd by (simp add: retire_def Let_def)
next
  case False
  then show ?thesis using free_item_ends [OF inv i] hts_free_item by (auto simp: retire_def dp_ends_def)
qed

lemma uncount_eq:
  obtains n m where "uncount i p c = (let d = set_pr i p ((pr c i p)\<lparr>p_send_queued := n\<rparr>) c in
    set_wk i ((wk d i)\<lparr>w_send_pressure := m\<rparr>) d)"
  using that unfolding uncount_def Let_def by blast

lemma uncount_hts: "\<exists>n. hts (uncount i p c) = hts (set_pr i p ((pr c i p)\<lparr>p_send_queued := n\<rparr>) c)"
  by (rule uncount_eq [of i p c]) (auto simp: Let_def)

lemma uncount_inv:
  assumes "dp_inv env H c" "peer_in c i p"
  shows "dp_inv env H (uncount i p c)"
proof -
  have inv: "dp_inv env H (set_pr i p ((pr c i p)\<lparr>p_send_queued := n\<rparr>) c)" for n
    using peer_inD [OF assms] by (intro dp_inv_set_pr [OF assms(1)]) simp_all
  obtain n m where "uncount i p c = (let d = set_pr i p ((pr c i p)\<lparr>p_send_queued := n\<rparr>) c in
    set_wk i ((wk d i)\<lparr>w_send_pressure := m\<rparr>) d)" by (rule uncount_eq)
  then show ?thesis using inv [of n] by (auto simp: Let_def intro!: dp_inv_set_wk dest: dp_invD(8))
qed

lemma resume_recv_total:
  assumes inv: "dp_inv env H c" and i: "i < length (cx_workers c)"
  shows "\<exists>c'. resume_recv env i c = Some c' \<and> dp_inv env H c' \<and> hts c' = hts c"
proof -
  let ?w = "wk c i"
  have w: "dp_inv env H (set_wk i (?w\<lparr>w_recv_pause_countdown := n\<rparr>) c)" "dp_inv env H (set_wk i (?w\<lparr>w_recv_paused := False\<rparr>) c)" for n
    using inv by (auto intro!: dp_inv_set_wk simp: dp_invD)
  show ?thesis using DrainDeferredRecvs_total [OF w(2)] w inv i by (auto simp: resume_recv_def Let_def)
qed

lemma resume_recv_core: "resume_recv env i c = Some c' \<Longrightarrow> core c' = core c"
  by (rule core_resume_recv)

section \<open>A completed send\<close>

lemma pop_head_ok:
  assumes "inflight_ok P" "queue_ok P" "p_send_inflight P > 0"
  shows "\<exists>x Q. pop_head P = Some (x, Q) \<and> p_queue P = x # p_queue Q \<and> queue_ok Q \<and>
    p_send_inflight Q = p_send_inflight P \<and> inflight_ok (Q\<lparr>p_send_inflight := p_send_inflight P - 1\<rparr>) \<and>
    peer_core Q = peer_core P \<and> (fwd_ok P \<longrightarrow> fwd_ok Q)"
proof -
  obtain x xs where q: "p_queue P = x # xs" using assms(1,3) by (cases "p_queue P") (auto simp: inflight_ok_def)
  show ?thesis
  proof (cases "p_send_next P")
    case None
    then show ?thesis using q assms by (cases xs) (auto simp: pop_head_def queue_ok_def inflight_ok_def)
  next
    case (Some k)
    then obtain j where "k = Suc j" "p_send_inflight P \<le> int k" using assms(1,3) by (cases k) (auto simp: inflight_ok_def)
    then show ?thesis using Some q assms by (cases xs) (auto simp: pop_head_def queue_ok_def inflight_ok_def)
  qed
qed

lemma send_completed_ends:
  assumes inv: "dp_inv env H c" and p: "peer_in c i p"
    and pos: "p_send_inflight (pr c i p) > 0" and ok: "inflight_ok ((pr c i p)\<lparr>p_send_inflight := p_send_inflight (pr c i p) - 1\<rparr>)"
    and s: "sends_ok b" "hts c = (hts b)[i := (hts b ! i)[p := pr c i p]]" and core: "core c = core b"
  shows "dp_ends env H b (send_completed env i p c)"
proof -
  let ?P = "(pr c i p)\<lparr>p_send_inflight := p_send_inflight (pr c i p) - 1\<rparr>"
  let ?c = "set_pr i p ?P c"
  have inv': "dp_inv env H ?c" using peer_inD [OF inv p] by (intro dp_inv_set_pr [OF inv]) simp_all
  have "hts ?c = (hts b)[i := (hts b ! i)[p := ?P]]"
    using hts_set_pr [OF peer_inD(1) [OF inv p], of p ?P] s(2)
    by (cases "i < length (hts b)") (simp_all add: list_update_beyond)
  then have "sends_ok ?c" using sends_ok_update [OF s(1) _ ok] by blast
  then have st: "dp_step b ?c" using core by (simp add: dp_step_def)
  have p': "peer_in ?c i p" using p by (simp add: peer_in_def set_pr_def)
  show ?thesis using submit_next_ends' [OF inv' p'] dp_ends_same [OF inv' st] st pos
    by (auto simp: send_completed_def Let_def intro: dp_ends_from)
qed

lemma DrainSendQueue_ends:
  assumes inv: "dp_inv env H c" and p: "peer_in c i p" and s: "sends_ok c"
    and pos: "p_send_inflight (pr c i p) > 0"
  shows "dp_ends env H c (DrainSendQueue env i p d c)"
proof -
  note b = peer_inD [OF inv p]
  obtain x Q where Q: "pop_head (pr c i p) = Some (x, Q)" "p_queue (pr c i p) = x # p_queue Q" "queue_ok Q"
    "p_send_inflight Q = p_send_inflight (pr c i p)" "inflight_ok (Q\<lparr>p_send_inflight := p_send_inflight Q - 1\<rparr>)"
    "peer_core Q = peer_core (pr c i p)" "fwd_ok Q"
    using pop_head_ok [OF sends_okD [OF s inv p] b(3) pos] b(4) by auto
  let ?c1 = "set_pr i p Q c"
  have "frames_ok (add_mset (item_frame x) H) ?c1"
    by (rule frames_ok_move_pr [OF dp_invD(3) [OF inv] b(1,2)]) (simp add: Q(2))
  then have inv1: "dp_inv env (add_mset (item_frame x) H) ?c1"
    using Q inv by (intro dp_inv_step [OF inv] aux_set_pr) (simp_all add: dp_invD)
  have fd: "dp_fd (p_fd Q)" using b(5) Q(6) by (simp add: peer_core_def)
  have i1: "i < length (cx_workers ?c1)" using b(1) by (simp add: set_pr_def)
  obtain c2 where c2: "retire i (p_fd Q) x d ?c1 = Some c2" "dp_inv env H c2" "hts c2 = hts ?c1"
    using retire_total [OF inv1 i1 fd] by blast
  have core2: "core c2 = core c" using core_retire [OF c2(1)] Q(6) by simp
  have p2: "peer_in c2 i p" using p coreD(1) [OF core2] by (simp add: peer_in_def)
  have P2: "pr c2 i p = Q" using pr_hts [OF c2(3) i1] pr_set_pr(1) [OF inv p] by simp
  obtain c3 where c3: "resume_recv env i (uncount i p c2) = Some c3" "dp_inv env H c3" "hts c3 = hts (uncount i p c2)"
    using resume_recv_total [OF uncount_inv [OF c2(2) p2]] peer_inD(1) [OF c2(2) p2] coreD(1) [OF core_uncount] by metis
  have core3: "core c3 = core c" using resume_recv_core [OF c3(1)] core2 by simp
  have p3: "peer_in c3 i p" using p coreD(1) [OF core3] by (simp add: peer_in_def)
  obtain n where n: "hts c3 = hts (set_pr i p (Q\<lparr>p_send_queued := n\<rparr>) c2)"
    using uncount_hts [of i p c2] c3(3) P2 by auto
  have P3: "pr c3 i p = Q\<lparr>p_send_queued := n\<rparr>"
    using pr_hts [OF n] peer_inD(1) [OF c2(2) p2] pr_set_pr(1) [OF c2(2) p2] by (simp add: set_pr_def)
  have h3: "hts c3 = (hts c)[i := (hts c ! i)[p := Q\<lparr>p_send_queued := n\<rparr>]]"
    unfolding n hts_set_pr [OF peer_inD(1) [OF c2(2) p2]] c2(3) hts_set_pr [OF b(1)]
    using b(1) by (simp add: hts_def)
  have in3: "inflight_ok (Q\<lparr>p_send_queued := n, p_send_inflight := p_send_inflight Q - 1\<rparr>)"
    using Q(5) by (simp add: inflight_ok_def)
  have "dp_ends env H c (send_completed env i p c3)"
    using pos Q(4) in3 h3 by (intro send_completed_ends [OF c3(2) p3 _ _ s _ core3]) (simp_all add: P3)
  then show ?thesis using Q(1,2) c2(1) c3(1) by (simp add: DrainSendQueue_def)
qed

section \<open>Notifications\<close>

lemma free_notif_ends:
  assumes inv: "dp_inv env H c" and i: "i < length (cx_workers c)" and fd: "dp_fd fd"
  shows "dp_ends env H c (free_notif i fd c)"
proof (cases "w_notif_map (wk c i) fd")
  case Nil
  then show ?thesis using inv by (simp add: free_notif_def dp_ends_same)
next
  case (Cons x xs)
  let ?w = "(wk c i)\<lparr>w_notif_map := (w_notif_map (wk c i))(fd := xs)\<rparr>"
  have "noticed (w_notif_map ?w) + {#item_frame x#} = noticed (w_notif_map (wk c i))"
    using noticed_update [OF fd, of "w_notif_map (wk c i)" xs] Cons by simp
  then have "frames_ok (add_mset (item_frame x) H) (set_wk i ?w c)"
    by (intro frames_ok_move [OF dp_invD(3) [OF inv] i]) (simp_all add: w_used_def w_free_def)
  then have "dp_inv env (add_mset (item_frame x) H) (set_wk i ?w c)"
    using inv by (intro dp_inv_step [OF inv] aux_set_wk) (simp_all add: dp_invD)
  then have "dp_ends env H (set_wk i ?w c) (free_item i x (set_wk i ?w c))" using i by (intro free_item_ends) simp_all
  moreover have "dp_step c (set_wk i ?w c)" by (rule dp_step_hts) simp_all
  ultimately show ?thesis using Cons by (simp add: free_notif_def dp_ends_from)
qed

lemma free_notifs_ends:
  assumes "dp_inv env H c" "i < length (cx_workers c)" "dp_fd fd"
  shows "dp_ends env H c (free_notifs n i fd c)"
  using assms
proof (induction n arbitrary: c)
  case (Suc n)
  show ?case unfolding free_notifs.simps
    by (rule dp_ends_bind [OF free_notif_ends Suc.IH]) (use Suc.prems dp_stepD(2) in simp_all)
qed (simp add: dp_ends_same)

section \<open>Backing off\<close>

lemma arm_poll_write_inv:
  assumes inv: "dp_inv env H c" and p: "peer_in c i p"
  shows "dp_inv env H (arm_poll_write env i p fd c)" "dp_step c (arm_poll_write env i p fd c)"
proof -
  obtain d ok where d: "GetSqe env i c = (d, ok)" by (cases "GetSqe env i c")
  note g = GetSqe_inv(1) [OF d inv] GetSqe_hts [OF d] core_GetSqe [OF d]
  have s: "dp_step c d" using g by (intro dp_step_hts)
  have p': "peer_in d i p" using p s by (simp add: peer_in_step)
  let ?d = "set_pr i p ((pr d i p)\<lparr>p_poll_write_pending := True\<rparr>) d"
  have "dp_inv env H ?d" using peer_inD [OF g(1) p'] by (intro dp_inv_set_pr [OF g(1)]) simp_all
  then show "dp_inv env H (arm_poll_write env i p fd c)" using g(1) d by (auto simp: arm_poll_write_def split: bool.split)
  have "dp_step d ?d" by (rule dp_step_set_pr) simp_all
  moreover have "dp_step ?d (dp_emit (Sq_poll_write i fd) ?d)" by (rule dp_step_hts) simp_all
  ultimately have "dp_step c (dp_emit (Sq_poll_write i fd) ?d)" using s dp_step_trans by blast
  then show "dp_step c (arm_poll_write env i p fd c)" using s d by (auto simp: arm_poll_write_def split: bool.split)
qed

lemma inflight_dec:
  "inflight_ok P \<Longrightarrow> 0 < p_send_inflight P \<Longrightarrow> inflight_ok (P\<lparr>p_send_inflight := p_send_inflight P - 1\<rparr>)"
  by (auto simp: inflight_ok_def)

lemma set_pr_step:
  assumes inv: "dp_inv env H c" and p: "peer_in c i p" and q: "p_queue P = p_queue (pr c i p)"
    and core: "peer_core P = peer_core (pr c i p)" and ok: "queue_ok P" "fwd_ok P" "inflight_ok (pr c i p) \<Longrightarrow> inflight_ok P"
  shows "dp_inv env H (set_pr i p P c)" "dp_step c (set_pr i p P c)" "peer_in (set_pr i p P c) i p"
proof -
  show "dp_inv env H (set_pr i p P c)" by (rule dp_inv_set_pr [OF inv core ok(1,2) q])
  show "dp_step c (set_pr i p P c)" by (rule dp_step_set_pr [OF core ok(3)])
  then show "peer_in (set_pr i p P c) i p" using p by (simp add: peer_in_step)
qed

lemma back_off_inv:
  assumes inv: "dp_inv env H c" and p: "peer_in c i p" and pos: "0 < p_send_inflight (pr c i p)"
  shows "dp_inv env H (back_off env i p fd c)" "dp_step c (back_off env i p fd c)"
proof -
  let ?P = "pr c i p" and ?n = "p_send_inflight (pr c i p) - 1"
  let ?Q = "?P\<lparr>p_send_inflight := ?n, p_send_next := (if nat ?n < length (p_queue ?P) then Some (nat ?n) else None)\<rparr>"
  note st = set_pr_step [OF inv p, of ?Q]
  have q: "queue_ok ?Q" by (simp add: queue_ok_def)
  have f: "inflight_ok ?P \<Longrightarrow> inflight_ok ?Q" using pos by (auto simp: inflight_ok_def)
  have c: "dp_inv env H (set_pr i p ?Q c)" "dp_step c (set_pr i p ?Q c)" "peer_in (set_pr i p ?Q c) i p"
    using st q f peer_inD(4) [OF inv p] by simp_all
  note a = arm_poll_write_inv [OF c(1,3), of fd]
  show "dp_inv env H (back_off env i p fd c)" using a(1) c(1) by (simp add: back_off_def Let_def)
  have "dp_step c (arm_poll_write env i p fd (set_pr i p ?Q c))" using c(2) a(2) by (rule dp_step_trans)
  then show "dp_step c (back_off env i p fd c)" using c(2) by (simp add: back_off_def Let_def)
qed

section \<open>Flushing and writable sockets\<close>

lemma fd_map_in:
  assumes "dp_inv env H c" "i < length (cx_workers c)" "w_fd_map (wk c i) fd = Some p"
  shows "peer_in c i p"
  using assms dp_invD(7) [OF assms(1,2)] by (auto simp: peer_in_def worker_fixed_def slot_ok_def)

lemma HandlePollWrite_ends:
  assumes inv: "dp_inv env H c" and i: "i < length (cx_workers c)"
  shows "dp_ends env H c (HandlePollWrite env i cqe c)"
proof (cases "peer_at c i (UdFd (cqe_user_data cqe))")
  case None
  then show ?thesis using inv by (simp add: HandlePollWrite_def dp_ends_same)
next
  case (Some p)
  let ?P = "(pr c i p)\<lparr>p_poll_write_pending := False\<rparr>"
  have p: "peer_in c i p" using Some fd_map_in [OF inv i] by (simp add: peer_at_def split: if_splits)
  note b = peer_inD [OF inv p]
  have c: "dp_inv env H (set_pr i p ?P c)" "dp_step c (set_pr i p ?P c)" "peer_in (set_pr i p ?P c) i p"
    using set_pr_step [OF inv p, of ?P] b by simp_all
  have "dp_ends env H (set_pr i p ?P c) (do {
      c \<leftarrow> submit_batch env i p (nat kPollWriteBatch) (set_pr i p ?P c);
      Some (if p_send_next (pr c i p) \<noteq> None \<and> p_send_inflight (pr c i p) < kMaxSendsInflight \<and>
               \<not> p_poll_write_pending (pr c i p)
            then arm_poll_write env i p (UdFd (cqe_user_data cqe)) c else c) })"
    by (rule dp_ends_bind [OF submit_batch_ends [OF c(1,3)]])
      (use c(3) arm_poll_write_inv in \<open>auto simp: peer_in_step intro!: dp_ends_same\<close>)
  then show ?thesis using Some c(2) by (simp add: HandlePollWrite_def Let_def dp_ends_from)
qed

lemma flush_sends_loop_ends:
  assumes "dp_inv env H c" "i < length (cx_workers c)"
  shows "dp_ends env H c (flush_sends_loop env i fds c)"
  using assms
proof (induction fds arbitrary: c)
  case (Cons fd fds)
  show ?case
  proof (cases "if dp_fd fd then w_fd_map (wk c i) fd else None")
    case None
    then show ?thesis using Cons by simp
  next
    case (Some p)
    let ?P = "(pr c i p)\<lparr>p_send_pending := False\<rparr>"
    have p: "peer_in c i p" using Some fd_map_in [OF Cons.prems] by (simp split: if_splits)
    have c: "dp_inv env H (set_pr i p ?P c)" "dp_step c (set_pr i p ?P c)" "peer_in (set_pr i p ?P c) i p"
      using set_pr_step [OF Cons.prems(1) p, of ?P] peer_inD [OF Cons.prems(1) p] by simp_all
    have i: "i < length (cx_workers (set_pr i p ?P c))" using c(3) by (simp add: peer_in_def)
    have "dp_ends env H (set_pr i p ?P c) (do {
        c \<leftarrow> submit_batch env i p (nat kPollWriteBatch) (set_pr i p ?P c); flush_sends_loop env i fds c })"
      by (rule dp_ends_bind [OF submit_batch_ends [OF c(1,3)] Cons.IH]) (use dp_stepD(2) i in simp_all)
    then show ?thesis using Some c(2) Cons.IH [OF c(1) i] by (auto simp: Let_def intro: dp_ends_from)
  qed
qed (simp add: dp_ends_same)

lemma FlushPendingSends_ends:
  assumes "dp_inv env H c" "i < length (cx_workers c)"
  shows "dp_ends env H c (FlushPendingSends env i c)"
  unfolding FlushPendingSends_def
  by (rule dp_ends_bind [OF flush_sends_loop_ends [OF assms]])
    (auto intro!: dp_ends_same dp_inv_set_wk dp_step_hts dest: dp_invD(8))

section \<open>Short writes\<close>

text \<open>
  The rest of the head replaces the head: afterwards the peer is as it was but for its first
  item. When there is no memory for the rest the head is dropped.
\<close>

lemma rest_of_head_inv:
  assumes inv: "dp_inv env (add_mset (item_frame x) H) c" and p: "peer_in c i p"
    and s: "sends_ok b" "hts c = (hts b)[i := (hts b ! i)[p := pr c i p]]" and core: "core c = core b"
    and Q: "Q = (pr c i p)\<lparr>p_queue := x # p_queue (pr c i p), p_send_next := map_option Suc (p_send_next (pr c i p))\<rparr>"
    and ok: "inflight_ok Q"
  shows "dp_inv env H (set_pr i p Q c)" "dp_step b (set_pr i p Q c)" "peer_in (set_pr i p Q c) i p"
proof -
  note b = peer_inD [OF inv p]
  have "frames_ok H (set_pr i p Q c)"
    by (rule frames_ok_move_pr [OF dp_invD(3) [OF inv] b(1,2)]) (simp add: Q)
  moreover have "queue_ok Q" using b(3) by (auto simp: Q queue_ok_def)
  ultimately show "dp_inv env H (set_pr i p Q c)"
    using inv b(4) by (intro dp_inv_step [OF inv] aux_set_pr) (simp_all add: dp_invD Q)
  have "hts (set_pr i p Q c) = (hts b)[i := (hts b ! i)[p := Q]]"
    using hts_set_pr [OF b(1), of p Q] s(2) by (cases "i < length (hts b)") (simp_all add: list_update_beyond)
  then have "sends_ok (set_pr i p Q c)" using sends_ok_update [OF s(1) _ ok] by blast
  then show "dp_step b (set_pr i p Q c)" using core by (simp add: dp_step_def Q)
  show "peer_in (set_pr i p Q c) i p" using p by (simp add: peer_in_def set_pr_def)
qed

lemma tl_queue_ok:
  assumes "inflight_ok P" "queue_ok P" "0 < p_send_inflight P"
  shows "\<exists>nx x xs. (case p_send_next P of None \<Rightarrow> Some None | Some 0 \<Rightarrow> None | Some (Suc k) \<Rightarrow> Some (Some k)) = Some nx \<and>
    p_queue P = x # xs \<and> map_option Suc nx = p_send_next P \<and> queue_ok (P\<lparr>p_queue := xs, p_send_next := nx\<rparr>) \<and>
    inflight_ok (P\<lparr>p_queue := xs, p_send_next := nx, p_send_inflight := p_send_inflight P - 1\<rparr>)"
proof -
  obtain x xs where q: "p_queue P = x # xs" using assms(1,3) by (cases "p_queue P") (auto simp: inflight_ok_def)
  show ?thesis
  proof (cases "p_send_next P")
    case None
    then show ?thesis using q assms by (auto simp: queue_ok_def inflight_ok_def)
  next
    case (Some k)
    then obtain j where "k = Suc j" "p_send_inflight P \<le> int k" using assms(1,3) by (cases k) (auto simp: inflight_ok_def)
    then show ?thesis using Some q assms by (auto simp: queue_ok_def inflight_ok_def)
  qed
qed

lemma resubmit_ends:
  assumes inv: "dp_inv env H c" and p: "peer_in c i p" and pos: "0 < p_send_inflight (pr c i p)" and a: "(a, n) = item_frame x"
    and x: "x \<in> set (p_queue (pr c i p))"
  shows "dp_ends env H c (do { (c, ok) \<leftarrow> submit_send env i fd a n False False c;
    if ok then Some c else Some (set_pr i p ((pr c i p)\<lparr>p_send_inflight := p_send_inflight (pr c i p) - 1\<rparr>) c) })"
proof -
  have "fits (cx_mem c) (a, n)" using queued_used(2) [OF inv p x] a by simp
  from submit_send_ends [OF inv this, of i fd False False]
  obtain d ok where d: "submit_send env i fd a n False False c = Some (d, ok)" "dp_inv env H d" "hts d = hts c" by blast
  have s: "dp_step c d" using core_submit_send [OF d(1)] d(3) by (rule dp_step_hts)
  have p': "peer_in d i p" using p s by (simp add: peer_in_step)
  have P: "pr d i p = pr c i p" using pr_hts [OF d(3)] peer_inD(1) [OF inv p] by simp
  let ?Q = "(pr d i p)\<lparr>p_send_inflight := p_send_inflight (pr d i p) - 1\<rparr>"
  have "dp_inv env H (set_pr i p ?Q d)" "dp_step d (set_pr i p ?Q d)"
    using set_pr_step [OF d(2) p', of ?Q] peer_inD [OF d(2) p'] pos inflight_dec by (simp_all add: P)
  with d s show ?thesis by (cases ok) (auto intro: dp_ends_same dp_step_trans)
qed

lemma replace_head_ends:
  assumes inv: "dp_inv env (add_mset (a, n) H) c" and p: "peer_in c i p" and s: "sends_ok b" and core: "core c = core b"
    and h: "hts c = (hts b)[i := (hts b ! i)[p := pr c i p]]"
    and P: "P = pr b i p" "pr c i p = P\<lparr>p_queue := xs, p_send_next := nx\<rparr>" "p_queue P = y # xs" "map_option Suc nx = p_send_next P"
    and pos: "0 < p_send_inflight P" and ok: "inflight_ok P" "inflight_ok ((pr c i p)\<lparr>p_send_inflight := p_send_inflight (pr c i p) - 1\<rparr>)"
  shows "dp_ends env H b (case SlabAllocItem env c i of
      (c, None) \<Rightarrow> do {
        let c = stat i f c;
        c \<leftarrow> FrameFree i a c;
        let c = set_pr i p ((pr c i p)\<lparr>p_send_inflight := p_send_inflight (pr c i p) - 1\<rparr>) c;
        if p_send_next (pr c i p) \<noteq> None \<and> p_send_inflight (pr c i p) < kMaxSendsInflight
        then map_option fst (submit_next env i p c) else Some c }
    | (c, Some slab) \<Rightarrow> do {
        let peer = pr c i p;
        let c = set_pr i p (peer\<lparr>p_queue := \<lparr>si_data = a, si_len = n, si_slab = slab\<rparr> # p_queue peer,
              p_send_next := map_option Suc (p_send_next peer)\<rparr>) c;
        (c, ok) \<leftarrow> submit_send env i fd a n False False c;
        if ok then Some c
        else Some (set_pr i p ((pr c i p)\<lparr>p_send_inflight := p_send_inflight (pr c i p) - 1\<rparr>) c) })"
proof (cases "SlabAllocItem env c i")
  case (Pair d r)
  note d = SlabAllocItem_inv [OF Pair inv]
  have Pd: "pr d i p = pr c i p" using pr_hts [OF d(2)] peer_inD(1) [OF inv p] by simp
  have pd: "peer_in d i p" using p coreD(1) [OF d(4)] by (simp add: peer_in_def)
  have hd: "hts d = (hts b)[i := (hts b ! i)[p := pr d i p]]" using d(2) h Pd by simp
  have posc: "0 < p_send_inflight (pr c i p)" using pos P by simp
  show ?thesis
  proof (cases r)
    case None
    have "dp_ends env H (stat i f d) (FrameFree i a (stat i f d))"
      using peer_inD(1) [OF d(1) pd] by (intro FrameFree_ends [OF dp_inv_stat [OF d(1)]]) simp
    then obtain e where e: "FrameFree i a (stat i f d) = Some e" "dp_inv env H e" by (auto simp: dp_ends_def)
    note he = hts_FrameFree [OF e(1)] and ce = core_FrameFree [OF e(1)]
    have Pe: "pr e i p = pr c i p" using pr_hts [OF he] peer_inD(1) [OF d(1) pd] Pd by (simp add: stat_def)
    have pe: "peer_in e i p" using pd coreD(1) [OF ce] by (simp add: peer_in_def stat_def)
    have "dp_ends env H b (send_completed env i p e)"
      by (rule send_completed_ends [OF e(2) pe]) (use s posc ok(2) he hd ce d(4) core in \<open>simp_all add: Pe Pd\<close>)
    then show ?thesis using Pair None e(1) posc Pe by (auto simp: send_completed_def Let_def split: if_splits)
  next
    case (Some slab)
    define x where "x = \<lparr>si_data = a, si_len = n, si_slab = slab\<rparr>"
    let ?Q = "(pr d i p)\<lparr>p_queue := x # p_queue (pr d i p), p_send_next := map_option Suc (p_send_next (pr d i p))\<rparr>"
    have Q: "inflight_ok ?Q" using ok(1) P by (simp add: Pd inflight_ok_def)
    have x: "item_frame x = (a, n)" by (simp add: x_def item_frame_def)
    have "core d = core b" using d(4) core by simp
    note rh = rest_of_head_inv [of env x H d i p b ?Q, unfolded x, OF d(1) pd s hd this refl Q]
    have PQ: "pr (set_pr i p ?Q d) i p = ?Q" using pr_set_pr(1) [OF d(1) pd] .
    have "dp_ends env H (set_pr i p ?Q d) (do { (c, ok) \<leftarrow> submit_send env i fd a n False False (set_pr i p ?Q d);
        if ok then Some c else Some (set_pr i p ((pr c i p)\<lparr>p_send_inflight := p_send_inflight (pr c i p) - 1\<rparr>) c) })"
      by (rule resubmit_ends [where x = x, OF rh(1,3)]) (use posc PQ x in \<open>simp_all add: Pd\<close>)
    then show ?thesis using Pair Some rh(2) by (simp add: Let_def x_def dp_ends_from)
  qed
qed

lemma hts_put_frame: "put_frame a bs c = Some c' \<Longrightarrow> hts c' = hts c"
  by (auto simp: put_frame_def split: bind_splits)

lemma short_write_ends:
  assumes inv: "dp_inv env H c" and p: "peer_in c i p" and s: "sends_ok c" and fd: "dp_fd fd"
    and pos: "0 < p_send_inflight (pr c i p)" and sent: "0 \<le> sent" "sent < si_len (hd (p_queue (pr c i p)))"
  shows "dp_ends env H c (short_write env i p fd sent d c)"
proof -
  let ?P = "pr c i p"
  note b = peer_inD [OF inv p]
  obtain nx x xs where q: "(case p_send_next ?P of None \<Rightarrow> Some None | Some 0 \<Rightarrow> None | Some (Suc k) \<Rightarrow> Some (Some k)) = Some nx"
    "p_queue ?P = x # xs" "map_option Suc nx = p_send_next ?P" "queue_ok (?P\<lparr>p_queue := xs, p_send_next := nx\<rparr>)"
    "inflight_ok (?P\<lparr>p_queue := xs, p_send_next := nx, p_send_inflight := p_send_inflight ?P - 1\<rparr>)"
    using tl_queue_ok [OF sends_okD [OF s inv p] b(3) pos] by blast
  define n where "n = si_len x - sent"
  have n: "0 \<le> n" "n + sent = si_len x" using sent(2) q(2) by (simp_all add: n_def)
  obtain c1 a where c1: "FrameAlloc env c i n = (c1, a)" by (cases "FrameAlloc env c i n")
  note A = FrameAlloc_inv [OF inv b(1) c1 n(1)] FrameAlloc_step [OF c1] hts_FrameAlloc [OF c1]
  have p1: "peer_in c1 i p" using p A(2) by (simp add: peer_in_step)
  have P1: "pr c1 i p = ?P" using pr_hts [OF A(3) b(1)] .
  show ?thesis
  proof (cases "a = 0")
    case True
    have "dp_ends env H c1 (DrainSendQueue env i p d c1)"
      by (rule DrainSendQueue_ends) (use A True p1 dp_stepD(3) [OF A(2) s] pos in \<open>simp_all add: P1\<close>)
    then show ?thesis using True c1 A(2) q(2) by (simp add: short_write_def n_def dp_ends_from)
  next
    case False
    with A(1) have inv1: "dp_inv env (add_mset (a, n) H) c1" by simp
    obtain m where m: "cx_mem c1 (si_data x) = Some m" "si_len x \<le> int (length m)"
      using queued_used(2) [OF inv1 p1, of x] q(2) P1 by (auto simp: item_frame_def fits_def)
    obtain bs where bs: "rd sent n m = Some bs" using m(2) n sent(1) by (simp add: rd_defined)
    have "int (length bs) = n" using rd_length [OF bs] n(1) by simp
    then obtain c2 where c2: "put_frame a bs c1 = Some c2" "dp_inv env (add_mset (a, n) H) c2"
      using put_frame_ends [OF inv1, of bs] by (auto simp: dp_ends_def)
    note h2 = hts_put_frame [OF c2(1)] and k2 = core_put_frame [OF c2(1)]
    have p2: "peer_in c2 i p" using p1 coreD(1) [OF k2] by (simp add: peer_in_def)
    have P2: "pr c2 i p = ?P" using pr_hts [OF h2 peer_inD(1) [OF inv1 p1]] P1 by simp
    let ?Q = "?P\<lparr>p_queue := xs, p_send_next := nx\<rparr>"
    let ?c3 = "set_pr i p ?Q c2"
    note b2 = peer_inD [OF c2(2) p2]
    have "frames_ok (add_mset (item_frame x) (add_mset (a, n) H)) ?c3"
      by (rule frames_ok_move_pr [OF dp_invD(3) [OF c2(2)] b2(1,2)]) (simp add: P2 q(2))
    then have inv3: "dp_inv env (add_mset (item_frame x) (add_mset (a, n) H)) ?c3"
      using q(4) b(4) by (intro dp_inv_step [OF c2(2)] aux_set_pr) (simp_all add: dp_invD [OF c2(2)] P2)
    have i3: "i < length (cx_workers ?c3)" using b2(1) by (simp add: set_pr_def)
    obtain c4 where c4: "retire i fd x d ?c3 = Some c4" "dp_inv env (add_mset (a, n) H) c4" "hts c4 = hts ?c3"
      using retire_total [OF inv3 i3 fd] by blast
    have k4: "core c4 = core c" using core_retire [OF c4(1)] k2 dp_stepD(1) [OF A(2)] by (simp add: P2)
    have p4: "peer_in c4 i p" using p coreD(1) [OF k4] by (simp add: peer_in_def)
    have P4: "pr c4 i p = ?Q" using pr_hts [OF c4(3) i3] pr_set_pr(1) [OF c2(2) p2] by simp
    have h4: "hts c4 = (hts c)[i := (hts c ! i)[p := pr c4 i p]]"
      unfolding c4(3) hts_set_pr [OF b2(1)] h2 A(3) P4 ..
    have ok4: "inflight_ok ((pr c4 i p)\<lparr>p_send_inflight := p_send_inflight (pr c4 i p) - 1\<rparr>)" using q(5) by (simp add: P4)
    note R = replace_head_ends [OF c4(2) p4 s k4 h4 refl P4 q(2,3) pos sends_okD [OF s inv p] ok4]
    have e: "short_write env i p fd sent d c = (case SlabAllocItem env c4 i of
              (c, None) \<Rightarrow> do {
                let c = stat i (\<lambda>s. s\<lparr>st_slab_exhausts := st_slab_exhausts s + 1\<rparr>) c;
                c \<leftarrow> FrameFree i a c;
                let c = set_pr i p ((pr c i p)\<lparr>p_send_inflight := p_send_inflight (pr c i p) - 1\<rparr>) c;
                if p_send_next (pr c i p) \<noteq> None \<and> p_send_inflight (pr c i p) < kMaxSendsInflight
                then map_option fst (submit_next env i p c) else Some c }
            | (c, Some slab) \<Rightarrow> do {
                let peer = pr c i p;
                let c = set_pr i p (peer\<lparr>p_queue := \<lparr>si_data = a, si_len = n, si_slab = slab\<rparr> # p_queue peer,
                      p_send_next := map_option Suc (p_send_next peer)\<rparr>) c;
                (c, ok) \<leftarrow> submit_send env i fd a n False False c;
                if ok then Some c
                else Some (set_pr i p ((pr c i p)\<lparr>p_send_inflight := p_send_inflight (pr c i p) - 1\<rparr>) c) })"
    proof (cases "SlabAllocItem env c4 i")
      case (Pair e r)
      then show ?thesis using False c1 q(1,2) m bs c2(1) c4(1)
        by (cases r) (simp_all add: short_write_def Let_def P2 n_def [symmetric])
    qed
    show ?thesis unfolding e by (rule R)
  qed
qed

section \<open>Send completions\<close>

text \<open>What a closed connection tells the control plane.\<close>

lemma NotifyPeerClose_eq:
  assumes "is_Key (p_key (pr c i p))"
  shows "NotifyPeerClose i p c = Some (dp_emit (Pipe_write i (be32 (word_of_int (p_fd (pr c i p))) @
    derp_frame Frame_kPeerGone (p_key (pr c i p) @ [PeerGoneReason_byte Gone_kDisconnected]))) c)"
proof -
  let ?f = "derp_frame Frame_kPeerGone (p_key (pr c i p) @ [PeerGoneReason_byte Gone_kDisconnected])"
  have "length ?f = 38" using assms by (simp add: derp_frame_def is_Key_def)
  then show ?thesis using BuildPeerGone_builds [OF assms, of "replicate 38 0" Gone_kDisconnected]
    by (simp add: NotifyPeerClose_def builds_def wrote_def rd_0_all)
qed

lemma dp_step_emit [simp]: "dp_step c (dp_emit e c)"
  by (rule dp_step_hts) simp_all

lemma NotifyPeerClose_ends:
  assumes "dp_inv env H c" "peer_in c i p"
  shows "dp_ends env H c (NotifyPeerClose i p c)"
  using NotifyPeerClose_eq [OF peer_inD(6) [OF assms]] assms(1) by (simp add: dp_ends_same)

lemma hts_NotifyPeerClose: "NotifyPeerClose i p c = Some c' \<Longrightarrow> hts c' = hts c"
  by (auto simp: NotifyPeerClose_def split: bind_splits)

text \<open>A completion that is not a notification answers a send that is in flight.\<close>

definition send_expected :: "Ctx \<Rightarrow> nat \<Rightarrow> Cqe \<Rightarrow> bool" where
  "send_expected c i cqe \<longleftrightarrow> \<not> cqe_notif cqe \<longrightarrow>
     (\<forall>p. peer_at c i (UdFd (cqe_user_data cqe)) = Some p \<longrightarrow> 0 < p_send_inflight (pr c i p))"

lemma peer_at_in:
  assumes "dp_inv env H c" "i < length (cx_workers c)" "peer_at c i fd = Some p"
  shows "peer_in c i p" "dp_fd fd"
  using assms fd_map_in [OF assms(1,2)] by (auto simp: peer_at_def split: if_splits)

lemma zc_unsupported_ends:
  assumes inv: "dp_inv env H c" and p: "peer_in c i p" and pos: "0 < p_send_inflight (pr c i p)"
  shows "dp_ends env H c
    (let peer = pr c i p; n = p_send_inflight peer - 1;
         c = set_pr i p (peer\<lparr>p_no_zc := True, p_zc_draining := True, p_send_inflight := n\<rparr>) c in
     if n = 0 then
       (let peer = pr c i p;
            c = set_pr i p (peer\<lparr>p_zc_draining := False,
                  p_send_next := (if p_queue peer = [] then None else Some 0)\<rparr>) c in
        submit_batch env i p (nat kMaxSendsInflight) c)
     else Some c)"
proof -
  let ?n = "p_send_inflight (pr c i p) - 1"
  let ?P = "(pr c i p)\<lparr>p_no_zc := True, p_zc_draining := True, p_send_inflight := ?n\<rparr>"
  have c: "dp_inv env H (set_pr i p ?P c)" "dp_step c (set_pr i p ?P c)" "peer_in (set_pr i p ?P c) i p"
    using set_pr_step [OF inv p, of ?P] peer_inD [OF inv p] inflight_dec [OF _ pos] by (simp_all add: inflight_ok_def)
  have P: "pr (set_pr i p ?P c) i p = ?P" by (rule pr_set_pr(1) [OF inv p])
  let ?Q = "?P\<lparr>p_zc_draining := False, p_send_next := (if p_queue ?P = [] then None else Some 0)\<rparr>"
  have q: "queue_ok ?Q" "fwd_ok ?Q" "?n = 0 \<Longrightarrow> inflight_ok ?Q" "p_queue ?Q = p_queue (pr (set_pr i p ?P c) i p)"
    "peer_core ?Q = peer_core (pr (set_pr i p ?P c) i p)"
    using peer_inD(4) [OF inv p] unfolding P by (auto simp: queue_ok_def inflight_ok_def)
  have d: "dp_inv env H (set_pr i p ?Q (set_pr i p ?P c))" "dp_step (set_pr i p ?P c) (set_pr i p ?Q (set_pr i p ?P c))"
    "peer_in (set_pr i p ?Q (set_pr i p ?P c)) i p" if "?n = 0"
    by (rule set_pr_step [OF c(1,3) q(4,5,1,2)]; use q(3) that in blast)+
  have "dp_ends env H c (submit_batch env i p (nat kMaxSendsInflight) (set_pr i p ?Q (set_pr i p ?P c)))" if "?n = 0"
    by (rule dp_ends_from [OF dp_ends_from [OF submit_batch_ends [OF d(1) [OF that] d(3) [OF that]] d(2) [OF that]] c(2)])
  then show ?thesis using dp_ends_same [OF c(1,2)] unfolding Let_def P by (cases "?n = 0") (simp_all only: if_True if_False simp_thms)
qed

lemma HandleSendCqe_ends:
  assumes inv: "dp_inv env H c" and i: "i < length (cx_workers c)" and s: "sends_ok c" and e: "send_expected c i cqe"
  shows "dp_ends env H c (HandleSendCqe env i cqe c)"
proof -
  let ?fd = "UdFd (cqe_user_data cqe)"
  show ?thesis
  proof (cases "cqe_notif cqe \<or> peer_at c i ?fd = None")
    case True
    then show ?thesis using free_notif_ends [OF inv i] free_notifs_ends [OF inv i] dp_ends_same [OF inv]
      by (auto simp: HandleSendCqe_def Let_def)
  next
    case False
    then obtain p where p: "peer_at c i ?fd = Some p" by blast
    note pin = peer_at_in(1) [OF inv i p] and fd = peer_at_in(2) [OF inv i p]
    have pos: "0 < p_send_inflight (pr c i p)" using e False p by (simp add: send_expected_def)
    have fail: "dp_ends env H c (do { c \<leftarrow> r; DrainSendQueue env i p d (stat i f c) })"
      if r: "\<exists>c'. r = Some c' \<and> dp_inv env H c' \<and> core c' = core c \<and> hts c' = hts c" for r d f
    proof -
      obtain c' where c': "r = Some c'" "dp_inv env H c'" "core c' = core c" "hts c' = hts c" using r by blast
      have st: "dp_step c (stat i f c')" using c' by (intro dp_step_hts) simp_all
      have "dp_ends env H (stat i f c') (DrainSendQueue env i p d (stat i f c'))"
        using c' pr_hts [OF c'(4) i] pos pin by (intro DrainSendQueue_ends dp_inv_stat dp_stepD(3) [OF st s]) (simp_all add: peer_in_step [OF st])
      then show ?thesis using c'(1) st by (simp add: dp_ends_from)
    qed
    have close: "\<exists>c'. NotifyPeerClose i p (stat i f c) = Some c' \<and> dp_inv env H c' \<and> core c' = core c \<and> hts c' = hts c" for f
      using NotifyPeerClose_eq [of "stat i f c" i p] peer_inD(6) [OF inv pin] inv by simp
    have other: "\<exists>c'. Some (stat i f c) = Some c' \<and> dp_inv env H c' \<and> core c' = core c \<and> hts c' = hts c" for f
      using inv by simp
    have waits: "dp_ends env H c (Some (back_off env i p ?fd (stat i f c)))" "dp_ends env H c (Some (back_off env i p ?fd c))" for f
      using back_off_inv [OF dp_inv_stat [OF inv, of i f], of i p ?fd] back_off_inv [OF inv pin pos, of ?fd] pos pin
      by (auto intro!: dp_ends_same intro: dp_step_trans [OF stat_step] simp: peer_in_step [OF stat_step])
    have drained: "dp_ends env H c (DrainSendQueue env i p d (stat i f c))" for d f
      using fail [of "Some c" d f] inv by simp
    have short: "dp_ends env H c (short_write env i p ?fd (cqe_res cqe) d (stat i f c))"
      if "\<not> cqe_res cqe < 0" "cqe_res cqe < si_len (hd (p_queue (pr c i p)))" for d f
      using short_write_ends [OF dp_inv_stat [OF inv, of i f] _ dp_stepD(3) [OF stat_step s, of i f] fd, of i p "cqe_res cqe" d] that pos pin
      by (auto simp: peer_in_step [OF stat_step] intro: dp_ends_from)
    show ?thesis
    proof (cases "cqe_res cqe < 0")
      case True
      then show ?thesis
        using False p zc_unsupported_ends [OF inv pin pos] waits fail [OF close] fail [OF other]
        unfolding HandleSendCqe_def Let_def by simp
    next
      case nonneg: False
      then show ?thesis using False p drained short unfolding HandleSendCqe_def Let_def by simp
    qed
  qed
qed

end
