(* ===== verification/Dp_Deliver.thy ===== *)
theory Dp_Deliver
  imports Dp_Complete
begin

text \<open>
  Forwarding keeps the invariant: whatever complete frame a peer sends, its dispatch ends, uses
  no freed buffer and accounts for every frame it allocates.
\<close>

section \<open>Cross-shard push\<close>

lemma xfer_ring_in:
  assumes "dp_inv env H c" "i < length (cx_workers c)" "d < length (cx_workers c)"
  shows "i < length (w_xfer_inbox (wk c d))" "xfer_ring_inv (w_xfer_inbox (wk c d) ! i)"
proof -
  note a = dp_invD(8) [OF assms(1,3)]
  show "i < length (w_xfer_inbox (wk c d))" using a assms(2) dp_invD(4) [OF assms(1)] by (simp add: worker_aux_def)
  then show "xfer_ring_inv (w_xfer_inbox (wk c d) ! i)" using a by (simp add: worker_aux_def)
qed

lemma worker_aux_inbox: "worker_aux w \<Longrightarrow> xfer_ring_inv r \<Longrightarrow> worker_aux (w\<lparr>w_xfer_inbox := (w_xfer_inbox w)[i := r]\<rparr>)"
  by (auto simp: worker_aux_def dest!: subsetD [OF set_update_subset_insert])

text \<open>Replacing a ring moves the frames that it holds more or less.\<close>

lemma ring_move:
  assumes inv: "dp_inv env H c" and i: "i < length (cx_workers c)" and d: "d < length (cx_workers c)" and r: "xfer_ring_inv r"
    and m: "mset (map xfer_frame (xfer_ring_contents r)) + H' =
      mset (map xfer_frame (xfer_ring_contents (w_xfer_inbox (wk c d) ! i))) + H"
  shows "dp_inv env H' (set_wk d ((wk c d)\<lparr>w_xfer_inbox := (w_xfer_inbox (wk c d))[i := r]\<rparr>) c)"
proof -
  let ?w = "(wk c d)\<lparr>w_xfer_inbox := (w_xfer_inbox (wk c d))[i := r]\<rparr>"
  note x = xfer_ring_in [OF inv i d]
  have "travelling (w_xfer_inbox ?w) + H' = travelling (w_xfer_inbox (wk c d)) + H"
    using moved [OF travelling_update [OF x(1), of r] m] by simp
  then have "frames_ok H' (set_wk d ?w c)"
    by (intro frames_ok_move [OF dp_invD(3) [OF inv] d]) (simp_all add: w_used_def w_free_def ac_simps)
  then show ?thesis
    using dp_invD(8) [OF inv d] r by (intro dp_inv_step [OF inv] aux_set_wk dp_invD(2) [OF inv] worker_aux_inbox) simp_all
qed

lemma xfer_send_ends:
  assumes inv: "dp_inv env (add_mset (a, n) H) c" and i: "i < length (cx_workers c)" and d: "d < length (cx_workers c)"
    and fd: "dp_fd fd"
  shows "dp_ends env H c (xfer_send i d fd a n c)"
proof -
  define x where "x = \<lparr>x_dst_fd = fd, x_frame = a, x_frame_len = n, x_dst_gen = w_fd_gen (wk c d) fd\<rparr>"
  note r = xfer_ring_in [OF inv i d]
  obtain ring rc where p: "XferSpscPush (w_xfer_inbox (wk c d) ! i) x = (ring, rc)" by fastforce
  show ?thesis
  proof (cases "0 \<le> rc")
    case True
    have "xfer_push x (w_xfer_inbox (wk c d) ! i) = Some ring" using p True by (simp add: xfer_push_def)
    with r(2) have ring: "xfer_ring_inv ring" "xfer_ring_contents ring = xfer_ring_contents (w_xfer_inbox (wk c d) ! i) @ [x]"
      by (auto elim: xq.push_cases [where x = x])
    let ?w = "(wk c d)\<lparr>w_xfer_inbox := (w_xfer_inbox (wk c d))[i := ring]\<rparr>"
    let ?v = "?w\<lparr>w_pending_sources := w_pending_sources (wk c d) OR worker_bit i\<rparr>"
    have "dp_inv env H (set_wk d ?w c)"
      by (rule ring_move [OF inv i d ring(1)]) (simp add: ring(2) x_def xfer_frame_def)
    then have "dp_inv env H (set_wk d ?v (set_wk d ?w c))"
      by (rule dp_inv_set_wk) (use d worker_aux_inbox [OF dp_invD(8) [OF inv d] ring(1)] in \<open>simp_all add: wk_set_wk\<close>)
    then have v: "dp_inv env H (set_wk d ?v c)" "dp_step c (set_wk d ?v c)" by (simp_all add: dp_step_hts)
    let ?u = "(wk (set_wk d ?v c) i)\<lparr>w_xfer_signal_pending := w_xfer_signal_pending (wk (set_wk d ?v c) i) OR worker_bit d\<rparr>"
    have "dp_inv env H (set_wk i ?u (set_wk d ?v c))" by (rule dp_inv_set_wk [OF v(1)]) (use dp_invD(8) [OF v(1)] in simp_all)
    moreover have "dp_step c (set_wk i ?u (set_wk d ?v c))"
      by (rule dp_step_trans [OF v(2)]) (simp add: dp_step_hts)
    ultimately show ?thesis using p v fd True by (simp add: xfer_send_def x_def Let_def dp_ends_same)
  next
    case False
    have "dp_ends env H c (do { c \<leftarrow> FrameFree i a c;
        let c = stat i f c; let w = wk c i;
        Some (set_wk i (w\<lparr>w_send_pressure := w_send_pressure w + 1\<rparr>) c) })" for f
      unfolding Let_def
      by (rule dp_ends_bind [OF FrameFree_ends [OF inv i]])
        (auto intro!: dp_ends_same dp_inv_set_wk dp_step_hts dest: dp_invD(8) [OF dp_inv_stat])
    then show ?thesis using p fd False by (simp add: xfer_send_def x_def Let_def)
  qed
qed

lemma XferPush_ends:
  assumes "dp_inv env (add_mset (a, n) H) c" "i < length (cx_workers c)" "dp_fd fd" "0 \<le> d"
  shows "dp_ends env H c (XferPush i d fd a n c)"
  using FrameFree_ends [OF assms(1,2)] xfer_send_ends [OF assms(1,2) _ assms(3), of "nat d"] assms(4)
  by (auto simp: XferPush_def)

section \<open>Copies\<close>

text \<open>Allocating and filling a frame, and what is done with it.\<close>

lemma alloc_copy_ends:
  assumes inv: "dp_inv env H c" and i: "i < length (cx_workers c)"
    and use: "\<And>a c'. dp_inv env (add_mset (a, int (length bs)) H) c' \<Longrightarrow> dp_step c c' \<Longrightarrow> dp_ends env H c' (f a c')"
    and none: "\<And>c'. dp_inv env H c' \<Longrightarrow> dp_step c c' \<Longrightarrow> dp_ends env H c' (g c')"
  shows "dp_ends env H c (case FrameAlloc env c i (int (length bs)) of
    (c, a) \<Rightarrow> if a = 0 then g c else do { c \<leftarrow> put_frame a bs c; f a c })"
proof (cases "FrameAlloc env c i (int (length bs))")
  case (Pair c1 a)
  note A = FrameAlloc_inv [OF inv i Pair] FrameAlloc_step [OF Pair]
  show ?thesis
  proof (cases "a = 0")
    case True
    then show ?thesis using Pair A none [of c1] by (auto intro: dp_ends_from)
  next
    case False
    with A(1) have inv1: "dp_inv env (add_mset (a, int (length bs)) H) c1" by simp
    have "dp_ends env H c1 (do { c \<leftarrow> put_frame a bs c1; f a c })"
      by (rule dp_ends_bind [OF put_frame_ends [OF inv1] use]) (use A(2) dp_step_trans in auto)
    then show ?thesis using Pair False A(2) by (auto intro: dp_ends_from)
  qed
qed

lemma send_copy_ends:
  assumes "dp_inv env H c" "peer_in c i p"
  shows "dp_ends env H c (send_copy env i p bs c)"
  unfolding send_copy_def
  using assms(2) by (intro alloc_copy_ends [OF assms(1) peer_inD(1) [OF assms], where g = Some] EnqueueSend_ends)
    (simp_all add: peer_in_step dp_ends_same)

section \<open>Finding a peer\<close>

lemma probe_loop_in:
  "probe_loop e t k es key idxs tomb = Some j \<Longrightarrow> j \<in> set idxs \<or> tomb = Some j"
  by (induction e t k es key idxs tomb rule: probe_loop.induct) (fastforce split: if_splits option.splits)+

lemma HtLookup_in: "HtLookup w key = Some p \<Longrightarrow> p < kHtCapacity"
  using probe_seq_covers [of key]
  by (auto simp: HtLookup_def HtFind_def split: option.splits if_splits dest!: probe_loop_in)

lemma route_in:
  assumes "dp_inv env H c" "i < length (cx_workers c)" "RouteLookup (w_routes (wk c i)) k = Some r"
  shows "0 \<le> r_worker_id (w_routes (wk c i) ! r)" "r_worker_id (w_routes (wk c i) ! r) < int (length (cx_workers c))"
    "dp_fd (r_fd (w_routes (wk c i) ! r))"
proof -
  have "r < kHtCapacity" "r_occupied (w_routes (wk c i) ! r) = 1"
    using assms(3) probe_seq_covers [of k] by (auto simp: RouteLookup_def RouteFind_def split: option.splits if_splits dest!: probe_loop_in)
  then have "route_ok (length (cx_workers c)) (w_routes (wk c i) ! r)" "r_occupied (w_routes (wk c i) ! r) = 1"
    using dp_invD(7) [OF assms(1,2)] by (simp_all add: worker_fixed_def)
  then show "0 \<le> r_worker_id (w_routes (wk c i) ! r)" "r_worker_id (w_routes (wk c i) ! r) < int (length (cx_workers c))"
    "dp_fd (r_fd (w_routes (wk c i) ! r))" by (simp_all add: route_ok_def)
qed

section \<open>HD data\<close>

lemma fwd_ok_rule:
  assumes "fwd_ok P" "slot_ok (fr_peer (f (p_fwd P ! r)))" "remote_ok (fr_dst_fd (f (p_fwd P ! r))) (fr_dst_worker (f (p_fwd P ! r)))"
  shows "fwd_ok (set_rule r f P)"
  using assms by (auto simp: fwd_ok_def set_rule_def dest!: subsetD [OF set_update_subset_insert])

lemma set_rule_keeps [simp]: "queue_ok (set_rule r f P) = queue_ok P" "inflight_ok (set_rule r f P) = inflight_ok P"
  "p_queue (set_rule r f P) = p_queue P" "p_fwd1_peer (set_rule r f P) = p_fwd1_peer P"
  by (simp_all add: set_rule_def)

lemma fwd_okD:
  assumes "fwd_ok P"
  shows "slot_ok (p_fwd1_peer P)" "remote_ok (p_fwd1_dst_fd P) (p_fwd1_dst_worker P)"
    "r < kMaxPeerRules \<Longrightarrow> slot_ok (fr_peer (p_fwd P ! r))"
    "r < kMaxPeerRules \<Longrightarrow> remote_ok (fr_dst_fd (p_fwd P ! r)) (fr_dst_worker (p_fwd P ! r))"
  using assms by (auto simp: fwd_ok_def)

text \<open>The peer a cached slot names, if it is live, and the change of a rule.\<close>

lemma live_slot:
  assumes "(case s of None \<Rightarrow> None | Some d \<Rightarrow> if q d then Some d else None) = Some d" "slot_ok s"
  shows "d < kHtCapacity"
  using assms by (auto simp: slot_ok_def split: option.splits if_splits)

lemma set_fwd_step:
  assumes "dp_inv env H c" "peer_in c i p" "fwd_ok P" "queue_ok P = queue_ok (pr c i p)" "inflight_ok P = inflight_ok (pr c i p)"
    "p_queue P = p_queue (pr c i p)" "peer_core P = peer_core (pr c i p)"
  shows "dp_inv env H (set_pr i p P c)" "dp_step c (set_pr i p P c)" "peer_in (set_pr i p P c) i q = (q < kHtCapacity)"
    "i < length (cx_workers (set_pr i p P c))"
proof -
  show "dp_inv env H (set_pr i p P c)" "dp_step c (set_pr i p P c)"
    using set_pr_step [OF assms(1,2,6,7)] assms peer_inD [OF assms(1,2)] by simp_all
  show "peer_in (set_pr i p P c) i q = (q < kHtCapacity)" "i < length (cx_workers (set_pr i p P c))"
    using assms(2) by (simp_all add: peer_in_def set_pr_def)
qed

lemma resolved_rule:
  assumes "fwd_ok P"
  shows "d < kHtCapacity \<Longrightarrow> r < kMaxPeerRules \<Longrightarrow> fwd_ok (set_rule r (\<lambda>f. f\<lparr>fr_peer := Some d\<rparr>) P)"
    "d < kHtCapacity \<Longrightarrow> fwd_ok (P\<lparr>p_fwd1_peer := Some d\<rparr>)"
    "dp_fd fd \<Longrightarrow> 0 \<le> w \<Longrightarrow> r < kMaxPeerRules \<Longrightarrow> fwd_ok (set_rule r (\<lambda>f. f\<lparr>fr_dst_fd := fd, fr_dst_worker := w\<rparr>) P)"
    "dp_fd fd \<Longrightarrow> 0 \<le> w \<Longrightarrow> fwd_ok (P\<lparr>p_fwd1_dst_fd := fd, p_fwd1_dst_worker := w\<rparr>)"
  using assms fwd_okD(3,4) [OF assms, of r]
  by (auto intro!: fwd_ok_rule simp: slot_ok_def remote_ok_def) (auto simp: fwd_ok_def slot_ok_def remote_ok_def)

lemma ForwardHdData1_ends:
  assumes inv: "dp_inv env H c" and p: "peer_in c i p"
  shows "dp_ends env H c (ForwardHdData1 env i p frame c)"
  unfolding ForwardHdData1_def
proof (rule alloc_copy_ends [OF inv peer_inD(1) [OF inv p]])
  fix a c1
  assume inv1: "dp_inv env (add_mset (a, int (length frame)) H) c1" and s: "dp_step c c1"
  have p1: "peer_in c1 i p" using p s by (simp add: peer_in_step)
  note b = peer_inD [OF inv1 p1] and f = fwd_okD [OF peer_inD(4) [OF inv1 p1]]
  have slot: "peer_in c1 i d" if "d < kHtCapacity" for d using that b(1) by (simp add: peer_in_def)
  let ?P = "pr c1 i p" and ?k = "fr_key (p_fwd (pr c1 i p) ! 0)"
  have k: "(0::nat) < kMaxPeerRules" by (simp add: kMaxPeerRules_def)
  have local: "dp_ends env H c1 (EnqueueSend env i d a (int (length frame))
      (set_pr i p (set_rule 0 (\<lambda>f. f\<lparr>fr_peer := Some d\<rparr>) (?P\<lparr>p_fwd1_peer := Some d\<rparr>)) c1))"
    if d: "HtLookup (wk c1 i) ?k = Some d" for d
  proof -
    let ?Q = "set_rule 0 (\<lambda>f. f\<lparr>fr_peer := Some d\<rparr>) (?P\<lparr>p_fwd1_peer := Some d\<rparr>)"
    have "fwd_ok ?Q" using resolved_rule(1,2) [OF _ HtLookup_in [OF d]] b(4) k by blast
    then have "dp_inv env (add_mset (a, int (length frame)) H) (set_pr i p ?Q c1)" "dp_step c1 (set_pr i p ?Q c1)" "peer_in (set_pr i p ?Q c1) i d"
      using set_fwd_step [OF inv1 p1, of ?Q] HtLookup_in [OF d] by simp_all
    then show ?thesis using EnqueueSend_ends dp_ends_from by blast
  qed
  have remote: "dp_ends env H c1 (XferPush i w fd a (int (length frame))
      (set_pr i p (set_rule 0 (\<lambda>f. f\<lparr>fr_dst_fd := fd, fr_dst_worker := w\<rparr>) (?P\<lparr>p_fwd1_dst_fd := fd, p_fwd1_dst_worker := w\<rparr>)) c1))"
    if "dp_fd fd" "0 \<le> w" for fd w
  proof -
    let ?Q = "set_rule 0 (\<lambda>f. f\<lparr>fr_dst_fd := fd, fr_dst_worker := w\<rparr>) (?P\<lparr>p_fwd1_dst_fd := fd, p_fwd1_dst_worker := w\<rparr>)"
    have "fwd_ok ?Q" using resolved_rule(3,4) [OF _ that] b(4) k by blast
    then have "dp_inv env (add_mset (a, int (length frame)) H) (set_pr i p ?Q c1)" "dp_step c1 (set_pr i p ?Q c1)"
      "i < length (cx_workers (set_pr i p ?Q c1))"
      using set_fwd_step [OF inv1 p1, of ?Q] by simp_all
    then show ?thesis using XferPush_ends that dp_ends_from by blast
  qed
  have drop: "dp_ends env H c1 (FrameFree i a (stat i f c1))" for f
    using FrameFree_ends [OF dp_inv_stat [OF inv1], of i] b(1) by (auto intro: dp_ends_from [OF _ stat_step])
  show "dp_ends env H c1
     (let peer = pr c1 i p; len = int (length frame) in
      case (case p_fwd1_peer peer of None \<Rightarrow> None | Some d \<Rightarrow> if p_occupied (pr c1 i d) = 1 then Some d else None) of
        None \<Rightarrow>
          if 0 \<le> p_fwd1_dst_fd peer then XferPush i (p_fwd1_dst_worker peer) (p_fwd1_dst_fd peer) a len c1
          else (case HtLookup (wk c1 i) (fr_key (p_fwd peer ! 0)) of
            None \<Rightarrow>
              (case RouteLookup (w_routes (wk c1 i)) (fr_key (p_fwd peer ! 0)) of
                 None \<Rightarrow> FrameFree i a (stat i (\<lambda>s. s\<lparr>st_hd_fwd_no_route := st_hd_fwd_no_route s + 1\<rparr>) c1)
               | Some r \<Rightarrow>
                   (let rt = w_routes (wk c1 i) ! r;
                        peer = set_rule 0 (\<lambda>f. f\<lparr>fr_dst_fd := r_fd rt, fr_dst_worker := r_worker_id rt\<rparr>)
                          (peer\<lparr>p_fwd1_dst_fd := r_fd rt, p_fwd1_dst_worker := r_worker_id rt\<rparr>) in
                    XferPush i (r_worker_id rt) (r_fd rt) a len (set_pr i p peer c1)))
          | Some d \<Rightarrow>
              EnqueueSend env i d a len
                (set_pr i p (set_rule 0 (\<lambda>f. f\<lparr>fr_peer := Some d\<rparr>) (peer\<lparr>p_fwd1_peer := Some d\<rparr>)) c1))
      | Some d \<Rightarrow> EnqueueSend env i d a len c1)"
    unfolding Let_def
    using f(2) local remote drop EnqueueSend_ends [OF inv1 slot [OF live_slot [OF _ f(1)]]] route_in [OF inv1 b(1)]
      XferPush_ends [OF inv1 b(1)]
    by (auto split: option.split simp: remote_ok_def)
qed (simp add: dp_ends_same)

lemma broadcast_hd_ends:
  assumes "dp_inv env H c" "i < length (cx_workers c)" "set qs \<subseteq> {..<kHtCapacity}"
  shows "dp_ends env H c (broadcast_hd env i src frame qs c)"
  using assms
proof (induction qs arbitrary: c)
  case (Cons q qs)
  have "dp_ends env H c (do { c \<leftarrow> send_copy env i q frame c; broadcast_hd env i src frame qs c })"
    by (rule dp_ends_bind [OF send_copy_ends Cons.IH]) (use Cons.prems dp_stepD(2) in \<open>auto simp: peer_in_def\<close>)
  then show ?case using Cons by simp
qed (simp add: dp_ends_same)

lemma rule_local_ends:
  assumes inv: "dp_inv env (add_mset (a, n) H) c" and p: "peer_in c i p" and r: "r < kMaxPeerRules" and d: "d < kHtCapacity"
  shows "dp_ends env H c (EnqueueSend env i d a n (set_pr i p (set_rule r (\<lambda>f. f\<lparr>fr_peer := Some d\<rparr>) (pr c i p)) c))"
proof -
  note Q = set_fwd_step [OF inv p resolved_rule(1) [OF peer_inD(4) [OF inv p] d r]]
  show ?thesis by (rule dp_ends_from [OF EnqueueSend_ends [OF Q(1)]]) (use Q(2,3) d in simp_all)
qed

lemma rule_remote_ends:
  assumes inv: "dp_inv env (add_mset (a, n) H) c" and p: "peer_in c i p" and r: "r < kMaxPeerRules" and d: "dp_fd fd" "0 \<le> w"
  shows "dp_ends env H c (XferPush i w fd a n
    (set_pr i p (set_rule r (\<lambda>f. f\<lparr>fr_dst_fd := fd, fr_dst_worker := w\<rparr>) (pr c i p)) c))"
proof -
  note Q = set_fwd_step [OF inv p resolved_rule(3) [OF peer_inD(4) [OF inv p] d r]]
  show ?thesis by (rule dp_ends_from [OF XferPush_ends [OF Q(1) Q(4) d]]) (use Q(2) in simp_all)
qed

lemma rules_loop_ends:
  assumes "dp_inv env H c" "peer_in c i src" "set rs \<subseteq> {..<kMaxPeerRules}"
  shows "\<exists>c' ok. rules_loop env i src frame rs c = Some (c', ok) \<and> dp_inv env H c' \<and> dp_step c c'"
  using assms
proof (induction rs arbitrary: c)
  case (Cons r rs)
  let ?n = "int (length frame)"
  note inv = Cons.prems(1) and src = Cons.prems(2)
  obtain c1 a where A: "FrameAlloc env c i ?n = (c1, a)" by (cases "FrameAlloc env c i ?n")
  note A1 = FrameAlloc_inv [OF inv peer_inD(1) [OF inv src] A] FrameAlloc_step [OF A]
  show ?case
  proof (cases "a = 0")
    case True
    then show ?thesis using A A1 by auto
  next
    case False
    with A1(1) have "dp_inv env (add_mset (a, ?n) H) c1" by simp
    from put_frame_ends [OF this, of frame] obtain c2
      where c2: "put_frame a frame c1 = Some c2" "dp_inv env (add_mset (a, ?n) H) c2" "dp_step c1 c2" by (auto simp: dp_ends_def)
    have p2: "peer_in c2 i src" using src A1(2) c2(3) by (simp add: peer_in_step)
    note b = peer_inD [OF c2(2) p2]
    let ?f = "p_fwd (pr c2 i src) ! r"
    have r: "r < kMaxPeerRules" using Cons.prems(3) by simp
    note f = fwd_okD(3,4) [OF b(4) r]
    have go: "\<exists>c' ok. (do { c \<leftarrow> D; rules_loop env i src frame rs c }) = Some (c', ok) \<and> dp_inv env H c' \<and> dp_step c c'"
      if D: "dp_ends env H c2 D" for D
    proof -
      obtain c3 where c3: "D = Some c3" "dp_inv env H c3" "dp_step c2 c3" using D by (auto simp: dp_ends_def)
      then have st: "dp_step c c3" using A1(2) c2(3) dp_step_trans by blast
      have "\<exists>c' ok. rules_loop env i src frame rs c3 = Some (c', ok) \<and> dp_inv env H c' \<and> dp_step c3 c'"
        using Cons.IH [OF c3(2)] src st Cons.prems(3) by (simp add: peer_in_step)
      then show ?thesis using c3(1) st dp_step_trans by fastforce
    qed
    show ?thesis
    proof (cases "case fr_peer ?f of None \<Rightarrow> None | Some d \<Rightarrow> if p_occupied (pr c2 i d) = 1 then Some d else None")
      case (Some d)
      have "dp_ends env H c2 (EnqueueSend env i d a ?n c2)"
        using live_slot [OF Some f(1)] b(1) by (intro EnqueueSend_ends [OF c2(2)]) (simp add: peer_in_def)
      from go [OF this] show ?thesis using A False c2(1) Some by (simp add: Let_def)
    next
      case None
      show ?thesis
      proof (cases "0 \<le> fr_dst_fd ?f")
        case True
        then have "dp_ends env H c2 (XferPush i (fr_dst_worker ?f) (fr_dst_fd ?f) a ?n c2)"
          using f(2) by (intro XferPush_ends [OF c2(2) b(1)]) (simp_all add: remote_ok_def)
        from go [OF this] show ?thesis using A False c2(1) None True by (simp add: Let_def)
      next
        case cached: False
        show ?thesis
        proof (cases "HtLookup (wk c2 i) (fr_key ?f)")
          case (Some d)
          from go [OF rule_local_ends [OF c2(2) p2 r HtLookup_in [OF Some]]] show ?thesis
            using A False c2(1) None cached Some by (simp add: Let_def)
        next
          case unknown: None
          show ?thesis
          proof (cases "RouteLookup (w_routes (wk c2 i)) (fr_key ?f)")
            case nowhere: None
            from go [OF FrameFree_ends [OF c2(2) b(1)]] show ?thesis
              using A False c2(1) None cached unknown nowhere by (simp add: Let_def)
          next
            case (Some k)
            note rt = route_in [OF c2(2) b(1) Some]
            have "\<not> r_fd (w_routes (wk c2 i) ! k) < 0" using rt(3) by (simp add: dp_fd_def)
            then show ?thesis using go [OF rule_remote_ends [OF c2(2) p2 r rt(3,1)]] A False c2(1) None cached unknown Some
              by (simp add: Let_def)
          qed
        qed
      qed
    qed
  qed
qed auto

section \<open>The bridge\<close>

lemma bridge_out:
  assumes "is_Key k" "int (length p) \<le> kMaxFramePayload"
  shows "\<exists>m. BridgeHdToDerp p (int (length p)) k (replicate (nat (kFrameHeaderSize + kKeySize + kMaxFramePayload)) 0)
      (kFrameHeaderSize + kKeySize + kMaxFramePayload) = Some (m, int (length p) + 37) \<and>
    rd 0 (int (length p) + 37) m = Some (derp_frame Frame_kRecvPacket (k @ p))"
proof -
  let ?n = "kFrameHeaderSize + kKeySize + kMaxFramePayload"
  have len: "length (derp_frame Frame_kRecvPacket (k @ p)) = length p + 37" using assms(1) by (simp add: derp_frame_def is_Key_def)
  have "BridgeHdToDerp p (int (length p)) k (replicate (nat ?n) 0) ?n =
      Some (wrote (derp_frame Frame_kRecvPacket (k @ p)) (replicate (nat ?n) 0), int (length p) + 37)"
    using BridgeHdToDerp_frame [of "int (length p)" p k ?n "replicate (nat ?n) 0"] assms by simp
  moreover have "rd 0 (int (length p) + 37) (wrote (derp_frame Frame_kRecvPacket (k @ p)) (replicate (nat ?n) 0)) =
      Some (derp_frame Frame_kRecvPacket (k @ p))"
    using rd_wrote_prefix [of 0 "[]" "int (length p) + 37" "derp_frame Frame_kRecvPacket (k @ p)" "[]"] len by simp
  ultimately show ?thesis by blast
qed

lemma bridge_loop_ends:
  assumes "dp_inv env H c" "peer_in c i src" "set qs \<subseteq> {..<kHtCapacity}" "int (length p) \<le> kMaxFramePayload"
  shows "dp_ends env H c (bridge_loop env i src p qs c)"
  using assms
proof (induction qs arbitrary: c)
  case (Cons q qs)
  note inv = Cons.prems(1) and src = Cons.prems(2)
  obtain m where m: "BridgeHdToDerp p (int (length p)) (p_key (pr c i src)) (replicate (nat (kFrameHeaderSize + kKeySize + kMaxFramePayload)) 0)
      (kFrameHeaderSize + kKeySize + kMaxFramePayload) = Some (m, int (length p) + 37)"
    "rd 0 (int (length p) + 37) m = Some (derp_frame Frame_kRecvPacket (p_key (pr c i src) @ p))"
    using bridge_out [OF peer_inD(6) [OF inv src] Cons.prems(4)] by blast
  have "dp_ends env H c (do { c \<leftarrow> send_copy env i q bs c; bridge_loop env i src p qs c })" for bs
    by (rule dp_ends_bind [OF send_copy_ends Cons.IH])
      (use Cons.prems peer_inD(1) [OF inv src] in \<open>auto simp: peer_in_step peer_in_def dest: dp_stepD(2)\<close>)
  then show ?case using Cons m by (simp add: Let_def)
qed (simp add: dp_ends_same)

lemma ForwardHdData_ends:
  assumes inv: "dp_inv env H c" and p: "peer_in c i p" and len: "int (length frame) \<le> kHdFrameHeaderSize + kMaxFramePayload"
  shows "dp_ends env H c (ForwardHdData env i p frame c)"
proof (cases "p_fwd_count (pr c i p) \<le> 0")
  case True
  then show ?thesis using broadcast_hd_ends [OF inv peer_inD(1) [OF inv p], of "[0..<kHtCapacity]"]
    by (auto simp: ForwardHdData_def lessThan_atLeast0)
next
  case False
  have "set [0..<nat (p_fwd_count (pr c i p))] \<subseteq> {..<kMaxPeerRules}" using peer_inD(7) [OF inv p] by auto
  then obtain c' ok where c': "rules_loop env i p frame [0..<nat (p_fwd_count (pr c i p))] c = Some (c', ok)" "dp_inv env H c'" "dp_step c c'"
    using rules_loop_ends [OF inv p] by blast
  have "dp_ends env H c' (bridge_loop env i p (drop (nat kHdFrameHeaderSize) frame) [0..<kHtCapacity] c')"
    using c' p len by (intro bridge_loop_ends) (auto simp: peer_in_step)
  then show ?thesis using False c' by (auto simp: ForwardHdData_def intro: dp_ends_from dp_ends_same)
qed

section \<open>Mesh and fleet data\<close>

lemma local_peer_in:
  assumes "dp_inv env H c" "i < length (cx_workers c)" "local_peer c i k = Some d"
  shows "peer_in c i d"
  using dp_invD(7) [OF assms(1,2)] assms(2,3)
  by (auto simp: local_peer_def worker_fixed_def slot_ok_def peer_in_def split: option.splits if_splits)

lemma find_mesh_in:
  assumes inv: "dp_inv env H c" and f: "find_mesh_worker c i k = Some (wi, fd)"
  shows "dp_fd fd"
proof -
  obtain m d where w: "wi < length (cx_workers c)" "w_peer_id_map (wk c wi) = Some m" "m k = Some d" "fd = p_fd (pr c wi d)"
    using f by (auto simp: find_mesh_worker_def find_Some_iff split: option.splits)
  have "d < kHtCapacity" using dp_invD(7) [OF inv w(1)] w(2,3) by (auto simp: worker_fixed_def slot_ok_def)
  then show ?thesis using peer_inD(5) [OF inv, of wi d] w(1,4) by (simp add: peer_in_def)
qed

lemma counted_ends:
  assumes "dp_ends env H c r"
  shows "dp_ends env H c (do { c \<leftarrow> r; Some (stat i f c) })"
  by (rule dp_ends_bind [OF assms]) (simp add: dp_ends_same)

lemma DispatchMesh_ends:
  assumes inv: "dp_inv env H c" and p: "peer_in c i p"
  shows "dp_ends env H c (DispatchMesh env i p payload c)"
proof (cases "int (length payload) < kHdMeshDstSize")
  case True
  then show ?thesis using inv by (simp add: DispatchMesh_def dp_ends_same)
next
  case False
  obtain dst where dst: "HdReadMeshDst payload = Some dst" using False by (cases payload) (auto simp: HdReadMeshDst_def rd8_def)
  let ?bs = "mesh_bytes (p_peer_id (pr c i p)) (drop (nat kHdMeshDstSize) payload)"
  let ?n = "int (length ?bs)"
  have "dp_ends env H c (case FrameAlloc env c i ?n of (c, buf) \<Rightarrow>
      if buf = 0 then Some c
      else do {
        c \<leftarrow> put_frame buf ?bs c;
        c \<leftarrow> (case (if dst > 0 then local_peer c i dst else None) of
            Some d \<Rightarrow> EnqueueSend env i d buf ?n c
          | None \<Rightarrow> (case find_mesh_worker c i dst of
                Some (wi, dst_fd) \<Rightarrow> XferPush i (int wi) dst_fd buf ?n c
              | None \<Rightarrow> FrameFree i buf c));
        Some (stat i (\<lambda>s. s\<lparr>st_hd_mesh_forwards := st_hd_mesh_forwards s + 1\<rparr>) c) })"
  proof (rule alloc_copy_ends [OF inv peer_inD(1) [OF inv p]], rule counted_ends)
    fix a c1
    assume inv1: "dp_inv env (add_mset (a, ?n) H) c1" and s: "dp_step c c1"
    have i: "i < length (cx_workers c1)" using peer_inD(1) [OF inv p] dp_stepD(2) [OF s] by simp
    show "dp_ends env H c1 (case (if dst > 0 then local_peer c1 i dst else None) of
            Some d \<Rightarrow> EnqueueSend env i d a ?n c1
          | None \<Rightarrow> (case find_mesh_worker c1 i dst of
                Some (wi, dst_fd) \<Rightarrow> XferPush i (int wi) dst_fd a ?n c1
              | None \<Rightarrow> FrameFree i a c1))"
      using EnqueueSend_ends [OF inv1 local_peer_in [OF inv1 i]] FrameFree_ends [OF inv1 i] XferPush_ends [OF inv1 i find_mesh_in [OF inv1]]
      by (auto split: option.split)
  qed (simp add: dp_ends_same)
  then show ?thesis using False dst unfolding DispatchMesh_def Let_def by (simp del: kHdMeshDstSize_def)
qed

lemma DispatchFleet_ends:
  assumes inv: "dp_inv env H c" and p: "peer_in c i p"
  shows "dp_ends env H c (DispatchFleet env i p frame payload c)"
proof -
  note i = peer_inD(1) [OF inv p]
  have counted: "dp_ends env H c (case FrameAlloc env c i (int (length bs)) of (c, buf) \<Rightarrow>
      if buf = 0 then Some c
      else do {
        c \<leftarrow> put_frame buf bs c;
        c \<leftarrow> EnqueueSend env i d buf (int (length bs)) c;
        Some (stat i (\<lambda>s. s\<lparr>st_hd_fleet_forwards := st_hd_fleet_forwards s + 1\<rparr>) c) })"
    if "local_peer c i k = Some d" for bs d k
    by (rule alloc_copy_ends [OF inv i], rule counted_ends, rule EnqueueSend_ends)
      (use local_peer_in [OF inv i that] in \<open>simp_all add: peer_in_step dp_ends_same\<close>)
  show ?thesis
  proof (cases "int (length payload) < kHdFleetDstSize")
    case False
    have "\<exists>b. rd8 k payload = Some b" if "0 \<le> k" "k < 4" for k using that False by (simp add: rd8_def)
    from this [of 0] this [of 1] this [of 2] this [of 3]
    obtain r q where "HdReadFleetRelay payload = Some r" "HdReadFleetPeer payload = Some q"
      by (auto simp: HdReadFleetRelay_def HdReadFleetPeer_def)
    then show ?thesis using False counted inv unfolding DispatchFleet_def Let_def
      by (auto simp: dp_ends_same simp del: const_simps split: option.split)
  qed (use inv in \<open>simp add: DispatchFleet_def dp_ends_same\<close>)
qed

section \<open>Dispatch\<close>

lemma DispatchHdFrame_ends:
  assumes inv: "dp_inv env H c" and p: "peer_in c i p" and n: "0 \<le> n" "n \<le> kMaxFramePayload" "kHdFrameHeaderSize + n \<le> int (length hdr)"
  shows "dp_ends env H c (DispatchHdFrame env i p hdr n c)"
proof -
  obtain ty where ty: "HdReadFrameType hdr = Some ty" using n by (cases hdr) (auto simp: HdReadFrameType_def rd8_def)
  obtain frame where f: "rd 0 (kHdFrameHeaderSize + n) hdr = Some frame" using n by (simp add: rd_defined)
  have len: "int (length frame) = kHdFrameHeaderSize + n" using rd_length [OF f] n by simp
  have pong: "dp_ends env H c (do {
       (pong, n) \<leftarrow> HdBuildPong (replicate (nat (kHdFrameHeaderSize + kHdPingDataSize)) 0) (drop (nat kHdFrameHeaderSize) frame);
       send_copy env i p pong c })" if "n = kHdPingDataSize"
  proof -
    have "int (length (drop (nat kHdFrameHeaderSize) frame)) = kHdPingDataSize" using len that by simp
    from HdBuildPong_builds [OF this, of "replicate 12 0"] that len send_copy_ends [OF inv p] show ?thesis
      by (simp add: builds_def hd_frame_def)
  qed
  have cast: "dp_ends env H c (broadcast_hd env i p frame [0..<kHtCapacity] c)"
    by (rule broadcast_hd_ends [OF inv peer_inD(1) [OF inv p]]) auto
  have "dp_ends env H c (ForwardHdData env i p frame c)" by (rule ForwardHdData_ends [OF inv p]) (use len n in simp)
  then show ?thesis using ty f pong cast ForwardHdData1_ends [OF inv p] DispatchMesh_ends [OF inv p] DispatchFleet_ends [OF inv p] inv
    unfolding DispatchHdFrame_def Let_def by (simp add: dp_ends_same)
qed

lemma bridge_in:
  assumes "kKeySize \<le> int (length p)" "int (length p) \<le> kMaxFramePayload"
  shows "\<exists>m bs. BridgeDerpToHd p (int (length p)) (replicate (nat (kHdFrameHeaderSize + kMaxFramePayload)) 0)
      (kHdFrameHeaderSize + kMaxFramePayload) = Some (m, int (length p) - 28) \<and> rd 0 (int (length p) - 28) m = Some bs"
proof -
  let ?n = "kHdFrameHeaderSize + kMaxFramePayload"
  have "BridgeDerpToHd p (int (length p)) (replicate (nat ?n) 0) ?n =
    Some (wrote (hd_frame HdFrame_kData (take (nat (int (length p)) - 32) (drop 32 p))) (replicate (nat ?n) 0), int (length p) - 28)"
    using assms by (intro BridgeDerpToHd_frame) simp_all
  moreover have "length (wrote bs m) \<ge> length m" for bs m by (simp add: wrote_def)
  ultimately show ?thesis using assms by (auto simp: rd_def wrote_def)
qed

lemma ForwardMsg_ends:
  assumes inv: "dp_inv env H c" and p: "peer_in c i p" and len: "int (length payload) \<le> kMaxFramePayload"
  shows "dp_ends env H c (ForwardMsg env i ty payload p c)"
proof (cases "\<not> w_running (wk c i) \<or> ty \<noteq> Frame_kSendPacket \<or> int (length payload) < kKeySize")
  case True
  then show ?thesis using inv by (auto simp: ForwardMsg_def intro: dp_ends_same)
next
  case False
  note i = peer_inD(1) [OF inv p]
  let ?d = "drop (nat kKeySize) payload"
  let ?n = "kFrameHeaderSize + kKeySize + (int (length payload) - kKeySize)"
  let ?k = "p_key (pr c i p)"
  let ?bs = "derp_frame Frame_kRecvPacket (?k @ ?d)"
  have n: "?n = int (length ?bs)" using False peer_inD(6) [OF inv p] by (simp add: derp_frame_def is_Key_def)
  have bridge: "dp_ends env H c1 (do {
      c \<leftarrow> FrameFree i a c1;
      let sz = kHdFrameHeaderSize + kMaxFramePayload;
      (hd_frame, hd_len) \<leftarrow> BridgeDerpToHd payload (int (length payload)) (replicate (nat sz) 0) sz;
      if hd_len > 0 then do { bs \<leftarrow> rd 0 hd_len hd_frame; send_copy env i dst bs c } else Some c })"
    if "dp_inv env (add_mset (a, ?n) H) c1" "peer_in c1 i dst" for a c1 dst
  proof -
    obtain m bs where m: "BridgeDerpToHd payload (int (length payload)) (replicate (nat (kHdFrameHeaderSize + kMaxFramePayload)) 0)
      (kHdFrameHeaderSize + kMaxFramePayload) = Some (m, int (length payload) - 28)" "rd 0 (int (length payload) - 28) m = Some bs"
      using bridge_in [of payload] False len by auto
    show ?thesis unfolding Let_def m(1)
      by (rule dp_ends_bind [OF FrameFree_ends [OF that(1) peer_inD(1) [OF that]]])
        (use m(2) that(2) False send_copy_ends in \<open>auto simp: peer_in_step intro: dp_ends_same\<close>)
  qed
  define K where "K = (\<lambda>a c. case HtLookup (wk c i) (take (nat kKeySize) payload) of
          Some dst \<Rightarrow>
            if p_protocol (pr c i dst) = Protocol_kHd then do {
              c \<leftarrow> FrameFree i a c;
              let sz = kHdFrameHeaderSize + kMaxFramePayload;
              (hd_frame, hd_len) \<leftarrow> BridgeDerpToHd payload (int (length payload)) (replicate (nat sz) 0) sz;
              if hd_len > 0 then do { bs \<leftarrow> rd 0 hd_len hd_frame; send_copy env i dst bs c } else Some c }
            else EnqueueSend env i dst a ?n c
        | None \<Rightarrow>
            (case RouteLookup (w_routes (wk c i)) (take (nat kKeySize) payload) of
               None \<Rightarrow> FrameFree i a c
             | Some r \<Rightarrow>
                 (let rt = w_routes (wk c i) ! r in
                  if r_worker_id rt < 0 \<or> r_worker_id rt \<ge> int (length (cx_workers c)) then None
                  else xfer_send i (nat (r_worker_id rt)) (r_fd rt) a ?n c)))"
  have K: "dp_ends env H c1 (K a c1)" if inv1: "dp_inv env (add_mset (a, int (length ?bs)) H) c1" and s: "dp_step c c1" for a c1
  proof -
    have i1: "i < length (cx_workers c1)" using i dp_stepD(2) [OF s] by simp
    have slot: "peer_in c1 i d" if "HtLookup (wk c1 i) k = Some d" for k d using HtLookup_in [OF that] i1 by (simp add: peer_in_def)
    have "dp_ends env H c1 (xfer_send i (nat (r_worker_id (w_routes (wk c1 i) ! r))) (r_fd (w_routes (wk c1 i) ! r)) a ?n c1)"
      if "RouteLookup (w_routes (wk c1 i)) k = Some r" for k r
      using route_in [OF inv1 i1 that] inv1 i1 unfolding n by (intro xfer_send_ends) simp_all
    then show ?thesis
      using bridge [of a c1] EnqueueSend_ends [of env a ?n H c1 i] slot inv1 FrameFree_ends [OF inv1 i1]
      unfolding n Let_def K_def by (auto split: option.split dest: route_in(1,2) [OF inv1 i1])
  qed
  have e: "ForwardMsg env i ty payload p c = (case FrameAlloc env c i ?n of (c1, a) \<Rightarrow>
      if a = 0 then Some c1
      else cx_mem c1 a \<bind> (\<lambda>m. BuildRecvPacket m (p_key (pr c1 i p)) ?d (int (length payload) - kKeySize) \<bind>
        (\<lambda>(m, l). K a (c1\<lparr>cx_mem := (cx_mem c1)(a \<mapsto> m)\<rparr>))))"
    unfolding ForwardMsg_def Let_def K_def using False by (simp del: const_simps)
  have put: "cx_mem c1 a \<bind> (\<lambda>m. BuildRecvPacket m (p_key (pr c1 i p)) ?d (int (length payload) - kKeySize) \<bind>
        (\<lambda>(m, l). f (c1\<lparr>cx_mem := (cx_mem c1)(a \<mapsto> m)\<rparr>))) = put_frame a ?bs c1 \<bind> f"
    if A: "FrameAlloc env c i ?n = (c1, a)" "a \<noteq> 0" for c1 a and f :: "Ctx \<Rightarrow> Ctx ub"
  proof -
    have k: "p_key (pr c1 i p) = ?k" using pr_hts [OF hts_FrameAlloc [OF A(1)] i] by simp
    have "dp_inv env (add_mset (a, ?n) H) c1" using FrameAlloc_inv [OF inv i A(1)] A(2) n by simp
    from frames_ok_held [OF dp_invD(3) [OF this], of "(a, ?n)"]
    obtain m where m: "cx_mem c1 a = Some m" "length ?bs \<le> length m" unfolding n by (auto simp: fits_def)
    have d: "int (length payload) - kKeySize = int (length ?d)" using False by simp
    show ?thesis using BuildRecvPacket_builds [OF peer_inD(6) [OF inv p] d, of m] m unfolding k
      by (simp add: builds_def put_frame_def wr_start)
  qed
  have "dp_ends env H c (case FrameAlloc env c i (int (length ?bs)) of (c1, a) \<Rightarrow>
      if a = 0 then Some c1 else do { c \<leftarrow> put_frame a ?bs c1; K a c })"
    by (rule alloc_copy_ends [OF inv i K]) (simp_all add: dp_ends_same)
  then show ?thesis unfolding e n [symmetric] using put
    by (cases "FrameAlloc env c i ?n") (simp del: const_simps split: if_splits)
qed

lemma DispatchFrame_ends:
  assumes inv: "dp_inv env H c" and p: "peer_in c i p" and n: "0 \<le> n" "n \<le> kMaxFramePayload"
    and len: "FrameHdrSize (pr c i p) + n \<le> int (length hdr)"
  shows "dp_ends env H c (DispatchFrame env i p hdr n c)"
proof (cases "p_protocol (pr c i p) = Protocol_kHd")
  case True
  then show ?thesis using DispatchHdFrame_ends [OF inv p n] len by (simp add: DispatchFrame_def FrameHdrSize_def)
next
  case False
  obtain ty where "ReadFrameType hdr = Some ty" using len n False by (cases hdr) (auto simp: ReadFrameType_def rd8_def FrameHdrSize_def)
  moreover obtain payload where "rd kFrameHeaderSize n hdr = Some payload" using len n False by (simp add: rd_defined FrameHdrSize_def)
  moreover from this have "int (length payload) \<le> kMaxFramePayload" using rd_length n by fastforce
  ultimately show ?thesis using False ForwardMsg_ends [OF inv p] by (simp add: DispatchFrame_def)
qed

end
