(* ===== verification/Dp_Receive.thy ===== *)
theory Dp_Receive
  imports Dp_Deliver
begin

text \<open>
  Receiving: both handlers cut the bytes of a connection into the same frames, whatever pieces
  they arrive in, and dispatch each of them once and in order.
\<close>

section \<open>Cutting a stream\<close>

lemma sint_valid:
  assumes "IsValidPeerPayloadLen P n"
  shows "sint n = uint n" "0 \<le> sint n" "sint n \<le> kMaxFramePayload"
proof -
  have u: "uint n \<le> 65536" using assms by (simp add: IsValidPeerPayloadLen_def HdIsValidPayloadLen_def IsValidPayloadLen_def split: if_splits)
  then have "uint n < 2 ^ 31" by simp
  then show "sint n = uint n" by (simp add: sint_uint signed_take_bit_eq_if_positive bit_iff_odd_drop_bit take_bit_int_eq_self
        drop_bit_eq_div)
  then show "0 \<le> sint n" "sint n \<le> kMaxFramePayload" using u by simp_all
qed

text \<open>
  The frames that are complete, what is left, and whether it begins with a header that announces
  too long a payload.
\<close>

function cut_frames :: "Peer \<Rightarrow> bytes \<Rightarrow> bytes list \<times> bytes \<times> bool" where
  "cut_frames P buf =
     (if FrameHdrSize P \<le> int (length buf) then
        (case ReadPeerPayloadLen P buf of
           None \<Rightarrow> ([], buf, False)
         | Some n \<Rightarrow>
             if \<not> IsValidPeerPayloadLen P n then ([], buf, True)
             else (let l = nat (FrameHdrSize P + sint n) in
               if length buf < l then ([], buf, False)
               else (case cut_frames P (drop l buf) of (fs, rest, bad) \<Rightarrow> (take l buf # fs, rest, bad))))
      else ([], buf, False))"
  by auto
termination
  by (relation "measure (\<lambda>(P, buf). length buf)")
    (auto simp: FrameHdrSize_def dest: sint_valid(2) split: if_splits)

declare cut_frames.simps [simp del]

text \<open>Bytes that hold no complete frame.\<close>

definition partial_frame :: "Peer \<Rightarrow> bytes \<Rightarrow> bool" where
  "partial_frame P t \<longleftrightarrow> int (length t) < FrameHdrSize P \<or>
     (\<exists>n. ReadPeerPayloadLen P t = Some n \<and> IsValidPeerPayloadLen P n \<and> int (length t) < FrameHdrSize P + sint n)"

lemma ReadPeerPayloadLen_defined: "FrameHdrSize P \<le> int (length buf) \<Longrightarrow> \<exists>n. ReadPeerPayloadLen P buf = Some n"
  by (cases "p_protocol P = Protocol_kHd")
    (simp_all add: ReadPeerPayloadLen_def HdReadPayloadLen_def ReadPayloadLen_def FrameHdrSize_def rd8_def)

lemma ReadPeerPayloadLen_prefix:
  "FrameHdrSize P \<le> int (length a) \<Longrightarrow> ReadPeerPayloadLen P (a @ b) = ReadPeerPayloadLen P a"
  by (cases "p_protocol P = Protocol_kHd")
    (simp_all add: ReadPeerPayloadLen_def HdReadPayloadLen_def ReadPayloadLen_def FrameHdrSize_def rd8_def nth_append)

lemma cut_partial: "partial_frame P t \<Longrightarrow> cut_frames P t = ([], t, False)"
  by (subst cut_frames.simps) (auto simp: partial_frame_def Let_def split: option.split)

lemma cut_rest:
  assumes "cut_frames P buf = (fs, t, bad)"
  shows "concat fs @ t = buf" "\<not> bad \<Longrightarrow> partial_frame P t"
proof -
  have "concat fs @ t = buf \<and> (\<not> bad \<longrightarrow> partial_frame P t)" using assms
  proof (induction P buf arbitrary: fs t bad rule: cut_frames.induct)
    case (1 P buf)
    show ?case
    proof (cases "FrameHdrSize P \<le> int (length buf)")
      case False
      then show ?thesis using "1.prems" by (auto simp: cut_frames.simps [of P buf] partial_frame_def)
    next
      case True
      then obtain n where n: "ReadPeerPayloadLen P buf = Some n" using ReadPeerPayloadLen_defined by blast
      let ?l = "nat (FrameHdrSize P + sint n)"
      show ?thesis
      proof (cases "IsValidPeerPayloadLen P n \<and> \<not> length buf < ?l")
        case False
        then show ?thesis using "1.prems" True n by (auto simp: cut_frames.simps [of P buf] partial_frame_def Let_def split: if_splits)
      next
        case l: True
        obtain gs u b where r: "cut_frames P (drop ?l buf) = (gs, u, b)" by (cases "cut_frames P (drop ?l buf)")
        have "concat gs @ u = drop ?l buf \<and> (\<not> b \<longrightarrow> partial_frame P u)"
          using "1.IH" [OF True n _ refl _ r] l by simp
        moreover have "fs = take ?l buf # gs" "t = u" "bad = b"
          using "1.prems" True n l r by (simp_all add: cut_frames.simps [of P buf] Let_def)
        ultimately show ?thesis by simp
      qed
    qed
  qed
  then show "concat fs @ t = buf" "\<not> bad \<Longrightarrow> partial_frame P t" by simp_all
qed

text \<open>The frame at the front.\<close>

lemma cut_front:
  assumes "FrameHdrSize P \<le> int (length buf)" "ReadPeerPayloadLen P buf = Some n" "IsValidPeerPayloadLen P n"
    "FrameHdrSize P + sint n \<le> int (length buf)"
  shows "cut_frames P buf = (case cut_frames P (drop (nat (FrameHdrSize P + sint n)) buf) of
    (fs, t, bad) \<Rightarrow> (take (nat (FrameHdrSize P + sint n)) buf # fs, t, bad))"
proof -
  have "\<not> length buf < nat (FrameHdrSize P + sint n)" using assms(4) by linarith
  then show ?thesis using assms by (subst cut_frames.simps) (simp add: Let_def)
qed

lemma cut_bad:
  assumes "FrameHdrSize P \<le> int (length buf)" "ReadPeerPayloadLen P buf = Some n" "\<not> IsValidPeerPayloadLen P n"
  shows "cut_frames P buf = ([], buf, True)"
  using assms by (subst cut_frames.simps) simp

section \<open>Receive buffers\<close>

definition rebuf :: "nat \<Rightarrow> nat \<Rightarrow> bytes option \<Rightarrow> int \<Rightarrow> u64 \<Rightarrow> u64 \<Rightarrow> Ctx \<Rightarrow> Ctx" where
  "rebuf i p b n w s c = set_pr i p ((pr c i p)\<lparr>p_rbuf := b, p_rbuf_len := n, p_recv_bytes_window := w, p_window_start_ns := s\<rparr>) c"

definition recv_same :: "nat \<Rightarrow> nat \<Rightarrow> Ctx \<Rightarrow> Ctx \<Rightarrow> bool" where
  "recv_same i p c c' \<longleftrightarrow> (\<exists>b n w s. core c' = core (rebuf i p b n w s c))"

lemma core_rebuf_cong:
  assumes "core c' = core c"
  shows "core (rebuf i p b n w s c') = core (rebuf i p b n w s c)"
proof (cases "i < length (cx_workers c)")
  case False
  then show ?thesis using assms coreD(1) [OF assms] by (simp add: rebuf_def set_pr_def set_wk_def list_update_beyond core_def)
next
  case True
  let ?u = "\<lambda>P. P\<lparr>p_rbuf := b, p_rbuf_len := n, p_recv_bytes_window := w, p_window_start_ns := s\<rparr>"
  have w: "worker_core (wk c' i) = worker_core (wk c i)" using coreD(5) [OF assms True] .
  have u: "peer_core (?u P) = peer_core (?u Q)" if "peer_core P = peer_core Q" for P Q
    using that by (simp add: peer_core_def)
  have "(map peer_core (w_ht (wk c' i)))[p := peer_core (?u (pr c' i p))] =
      (map peer_core (w_ht (wk c i)))[p := peer_core (?u (pr c i p))]"
    using worker_coreD(7) [OF w] u [OF worker_coreD(11) [OF w]] w unfolding pr_def
    by (cases "p < length (w_ht (wk c i))") (simp_all add: worker_core_def list_update_beyond)
  then have "worker_core ((wk c' i)\<lparr>w_ht := (w_ht (wk c' i))[p := ?u (pr c' i p)]\<rparr>) =
      worker_core ((wk c i)\<lparr>w_ht := (w_ht (wk c i))[p := ?u (pr c i p)]\<rparr>)"
    using w by (simp add: worker_core_def map_update)
  then show ?thesis using assms by (simp add: rebuf_def set_pr_def core_def set_wk_def map_update)
qed

lemma rebuf_rebuf [simp]: "rebuf i p b n w s (rebuf i p b' n' w' s' c) = rebuf i p b n w s c"
  by (cases "i < length (cx_workers c)"; cases "p < length (w_ht (wk c i))")
    (simp_all add: rebuf_def set_pr_def pr_def wk_set_wk list_update_beyond set_wk_def wk_def)

lemma recv_same_core: "core c' = core c \<Longrightarrow> recv_same i p c c'"
proof -
  have "rebuf i p (p_rbuf (pr c i p)) (p_rbuf_len (pr c i p)) (p_recv_bytes_window (pr c i p)) (p_window_start_ns (pr c i p)) c = c"
    by (cases "p < length (w_ht (wk c i))") (simp_all add: rebuf_def set_pr_def pr_def set_wk_def wk_def list_update_beyond)
  then show "core c' = core c \<Longrightarrow> recv_same i p c c'" unfolding recv_same_def by metis
qed

lemma recv_same_trans:
  assumes "recv_same i p c c'" "recv_same i p c' d"
  shows "recv_same i p c d"
proof -
  obtain b n w s where 1: "core c' = core (rebuf i p b n w s c)" using assms(1) by (auto simp: recv_same_def)
  obtain b' n' w' s' where "core d = core (rebuf i p b' n' w' s' c')" using assms(2) by (auto simp: recv_same_def)
  also have "\<dots> = core (rebuf i p b' n' w' s' (rebuf i p b n w s c))" by (rule core_rebuf_cong [OF 1])
  finally show ?thesis unfolding recv_same_def by auto
qed

lemma recv_same_set: "recv_same i p c (set_rbuf i p b n c)"
proof -
  have "set_rbuf i p b n c = rebuf i p (Some b) n (p_recv_bytes_window (pr c i p)) (p_window_start_ns (pr c i p)) c"
    by (simp add: set_rbuf_def rebuf_def)
  then show ?thesis unfolding recv_same_def by metis
qed

lemma recv_same_step: "dp_step c c' \<Longrightarrow> recv_same i p c c'"
  by (simp add: recv_same_core dp_step_def)

text \<open>The invariant does not depend on the receive buffers.\<close>

lemma dp_inv_rbuf:
  assumes inv: "dp_inv env H c" and p: "peer_in c i p" and P: "p_fd P = p_fd (pr c i p)" "p_key P = p_key (pr c i p)"
    "p_fwd_count P \<le> int kMaxPeerRules" "queue_ok P" "fwd_ok P" "p_queue P = p_queue (pr c i p)"
  shows "dp_inv env H (set_pr i p P c)"
proof -
  note b = peer_inD [OF inv p]
  let ?w = "(wk c i)\<lparr>w_ht := (w_ht (wk c i))[p := P]\<rparr>"
  have "worker_fixed n ?w" if "worker_fixed n (wk c i)" for n
    using that b P by (auto simp: worker_fixed_def dest!: subsetD [OF set_update_subset_insert])
  then have "fixed env (set_pr i p P c)"
    using dp_invD(1,7) [OF inv] b(1)
    by (auto simp: fixed_def malloc_ok_def set_pr_def set_wk_def wk_def dest!: subsetD [OF set_update_subset_insert])
  then show ?thesis using inv P by (auto simp: dp_inv_def intro!: aux_set_pr)
qed

lemma set_rbuf_inv:
  assumes inv: "dp_inv env H c" and p: "peer_in c i p"
  shows "dp_inv env H (set_rbuf i p b n c)" "peer_in (set_rbuf i p b n c) i p" "sends_ok c \<Longrightarrow> sends_ok (set_rbuf i p b n c)"
    "pr (set_rbuf i p b n c) i p = (pr c i p)\<lparr>p_rbuf := Some b, p_rbuf_len := n\<rparr>"
proof -
  let ?P = "(pr c i p)\<lparr>p_rbuf := Some b, p_rbuf_len := n\<rparr>"
  show "dp_inv env H (set_rbuf i p b n c)"
    unfolding set_rbuf_def using peer_inD [OF inv p] by (intro dp_inv_rbuf [OF inv p]) simp_all
  show "peer_in (set_rbuf i p b n c) i p" using p by (simp add: peer_in_def set_rbuf_def set_pr_def)
  show "pr (set_rbuf i p b n c) i p = ?P" unfolding set_rbuf_def by (rule pr_set_pr(1) [OF inv p])
  assume s: "sends_ok c"
  have "inflight_ok ?P" using sends_okD [OF s inv p] by simp
  then show "sends_ok (set_rbuf i p b n c)"
    unfolding set_rbuf_def by (rule sends_ok_update [OF s hts_set_pr [OF peer_inD(1) [OF inv p]]])
qed

section \<open>What a receive does\<close>

text \<open>
  The frames that are dispatched and the notice of a broken connection, in order; in between
  only the buffer of the peer, its rate window and the counters change.
\<close>

datatype recv_event = Frame bytes | Closed

inductive dispatches :: "dp_env \<Rightarrow> nat \<Rightarrow> nat \<Rightarrow> recv_event list \<Rightarrow> Ctx \<Rightarrow> Ctx \<Rightarrow> bool" for env i p where
  disp_nil: "dispatches env i p [] c c"
| disp_frame: "dispatches env i p evs c c' \<Longrightarrow>
    DispatchFrame env i p f (int (length f) - FrameHdrSize (pr c' i p)) c' = Some c'' \<Longrightarrow> dispatches env i p (evs @ [Frame f]) c c''"
| disp_closed: "dispatches env i p evs c c' \<Longrightarrow> NotifyPeerClose i p c' = Some c'' \<Longrightarrow> dispatches env i p (evs @ [Closed]) c c''"
| disp_rbuf: "dispatches env i p evs c c' \<Longrightarrow> dispatches env i p evs c (set_rbuf i p b n c')"
| disp_window: "dispatches env i p evs c c' \<Longrightarrow>
    dispatches env i p evs c (set_pr i p ((pr c' i p)\<lparr>p_recv_bytes_window := w, p_window_start_ns := s\<rparr>) c')"
| disp_stat: "dispatches env i p evs c c' \<Longrightarrow> dispatches env i p evs c (stat i f c')"

lemma dispatches_append: "dispatches env i p evs' c' d \<Longrightarrow> dispatches env i p evs c c' \<Longrightarrow> dispatches env i p (evs @ evs') c d"
  by (induction rule: dispatches.induct) (auto simp: append_assoc [symmetric] simp del: append_assoc intro: dispatches.intros)

definition recv_to :: "dp_env \<Rightarrow> held \<Rightarrow> nat \<Rightarrow> nat \<Rightarrow> recv_event list \<Rightarrow> Ctx \<Rightarrow> Ctx \<Rightarrow> bool" where
  "recv_to env H i p evs c c' \<longleftrightarrow> dispatches env i p evs c c' \<and> dp_inv env H c' \<and> peer_in c' i p \<and> recv_same i p c c' \<and>
     (sends_ok c \<longrightarrow> sends_ok c')"

lemma recv_toD:
  assumes "recv_to env H i p evs c c'"
  shows "dispatches env i p evs c c'" "dp_inv env H c'" "peer_in c' i p" "recv_same i p c c'" "sends_ok c \<Longrightarrow> sends_ok c'"
  using assms by (simp_all add: recv_to_def)

lemma recv_to_refl: "dp_inv env H c \<Longrightarrow> peer_in c i p \<Longrightarrow> recv_to env H i p [] c c"
  by (simp add: recv_to_def disp_nil recv_same_core)

lemma recv_to_trans: "recv_to env H i p evs c c' \<Longrightarrow> recv_to env H i p evs' c' d \<Longrightarrow> recv_to env H i p (evs @ evs') c d"
  by (auto simp: recv_to_def intro: dispatches_append recv_same_trans)

lemma recv_to_rbuf: "dp_inv env H c \<Longrightarrow> peer_in c i p \<Longrightarrow> recv_to env H i p [] c (set_rbuf i p b n c)"
  by (simp add: recv_to_def disp_rbuf disp_nil set_rbuf_inv recv_same_set)

lemma recv_to_stat: "dp_inv env H c \<Longrightarrow> peer_in c i p \<Longrightarrow> recv_to env H i p [] c (stat i f c)"
  using dp_stepD(3) [OF stat_step] by (auto simp: recv_to_def disp_stat disp_nil recv_same_core peer_in_def)

lemma recv_to_closed:
  assumes "dp_inv env H c" "peer_in c i p"
  shows "\<exists>c'. NotifyPeerClose i p c = Some c' \<and> recv_to env H i p [Closed] c c' \<and> core c' = core c"
proof -
  obtain c' where c': "NotifyPeerClose i p c = Some c'" "dp_inv env H c'" "dp_step c c'"
    using NotifyPeerClose_ends [OF assms] by (auto simp: dp_ends_def)
  then show ?thesis using assms disp_closed [OF disp_nil c'(1)] dp_stepD [OF c'(3)]
    by (auto simp: recv_to_def recv_same_core peer_in_step)
qed

lemma recv_to_frame:
  assumes inv: "dp_inv env H c" and p: "peer_in c i p" and n: "0 \<le> n" "n \<le> kMaxFramePayload" "FrameHdrSize (pr c i p) + n \<le> int (length buf)"
  shows "\<exists>c'. DispatchFrame env i p buf n c = Some c' \<and>
    recv_to env H i p [Frame (take (nat (FrameHdrSize (pr c i p) + n)) buf)] c c' \<and> core c' = core c"
proof -
  let ?P = "pr c i p"
  let ?f = "take (nat (FrameHdrSize ?P + n)) buf"
  have h: "4 \<le> FrameHdrSize ?P" by (simp add: FrameHdrSize_def)
  have len: "int (length ?f) = FrameHdrSize ?P + n" using n h by simp
  have ne: "buf \<noteq> []" "?f \<noteq> []" using n h by auto
  have r: "HdReadFrameType ?f = HdReadFrameType buf" "ReadFrameType ?f = ReadFrameType buf"
    "rd 0 (FrameHdrSize ?P + n) ?f = rd 0 (FrameHdrSize ?P + n) buf" "rd (FrameHdrSize ?P) n ?f = rd (FrameHdrSize ?P) n buf"
    using n h ne by (simp_all add: HdReadFrameType_def ReadFrameType_def rd8_def rd_def drop_take nat_diff_distrib [symmetric])
  have t: "DispatchFrame env i p ?f n c = DispatchFrame env i p buf n c"
    using r by (cases "p_protocol ?P = Protocol_kHd")
      (simp_all add: DispatchFrame_def DispatchHdFrame_def FrameHdrSize_def del: const_simps)
  obtain c' where c': "DispatchFrame env i p buf n c = Some c'" "dp_inv env H c'" "dp_step c c'"
    using DispatchFrame_ends [OF inv p n] by (auto simp: dp_ends_def)
  have "dispatches env i p ([] @ [Frame ?f]) c c'"
    using disp_frame [OF disp_nil, of env i p ?f c c'] t c'(1) len by simp
  then show ?thesis using c' p dp_stepD [OF c'(3)] by (auto simp: recv_to_def recv_same_core peer_in_step)
qed

text \<open>Only the protocol of a peer decides how its stream is cut.\<close>

lemma proto_cong:
  assumes "p_protocol P = p_protocol Q"
  shows "FrameHdrSize P = FrameHdrSize Q" "ReadPeerPayloadLen P = ReadPeerPayloadLen Q"
    "IsValidPeerPayloadLen P = IsValidPeerPayloadLen Q" "partial_frame P = partial_frame Q"
  using assms by (auto simp: FrameHdrSize_def ReadPeerPayloadLen_def IsValidPeerPayloadLen_def partial_frame_def fun_eq_iff)

lemma cut_cong:
  assumes "p_protocol P = p_protocol Q"
  shows "cut_frames P buf = cut_frames Q buf"
  using assms
proof (induction P buf rule: cut_frames.induct)
  case (1 P buf)
  note pc = proto_cong [OF "1.prems"]
  have "cut_frames P (drop (nat (FrameHdrSize Q + sint n)) buf) = cut_frames Q (drop (nat (FrameHdrSize Q + sint n)) buf)"
    if "FrameHdrSize Q \<le> int (length buf)" "ReadPeerPayloadLen Q buf = Some n" "IsValidPeerPayloadLen Q n"
      "\<not> length buf < nat (FrameHdrSize Q + sint n)" for n
    using "1.IH" [of n] "1.prems" that by (simp add: pc)
  then show ?case by (subst (1 2) cut_frames.simps) (simp add: pc Let_def split: option.split)
qed

lemma core_protocol:
  assumes "core c' = core c" "dp_inv env H c" "peer_in c i p"
  shows "p_protocol (pr c' i p) = p_protocol (pr c i p)" "p_occupied (pr c' i p) = p_occupied (pr c i p)"
    "p_rbuf (pr c' i p) = p_rbuf (pr c i p)" "p_rbuf_len (pr c' i p) = p_rbuf_len (pr c i p)"
  using worker_coreD(11) [OF coreD(5) [OF assms(1) peer_inD(1) [OF assms(2,3)]] peer_inD(2) [OF assms(2,3)]]
  by (simp_all add: pr_def peer_core_def)

section \<open>Frames in a provided buffer\<close>

lemma provided_frames_spec:
  assumes "dp_inv env H c" "peer_in c i p" "cut_frames (pr c i p) buf = (fs, t, bad)"
  shows "\<exists>c'. provided_frames env i p (FrameHdrSize (pr c i p)) True buf c = Some (t, bad, c') \<and>
    recv_to env H i p (map Frame fs @ (if bad then [Closed] else [])) c c' \<and> core c' = core c"
  using assms
proof (induction "length buf" arbitrary: buf c fs rule: less_induct)
  case less
  let ?P = "pr c i p"
  note inv = less.prems(1) and p = less.prems(2)
  show ?case
  proof (cases "FrameHdrSize ?P \<le> int (length buf)")
    case False
    then have "partial_frame ?P buf" by (simp add: partial_frame_def)
    from cut_partial [OF this] less.prems(3) False recv_to_refl [OF inv p] show ?thesis
      by (subst provided_frames.simps) simp
  next
    case hdr: True
    obtain n where n: "ReadPeerPayloadLen ?P buf = Some n" using ReadPeerPayloadLen_defined [OF hdr] by blast
    show ?thesis
    proof (cases "IsValidPeerPayloadLen ?P n")
      case False
      from cut_bad [OF hdr n False] less.prems(3) have "fs = []" "t = buf" "bad" by simp_all
      then show ?thesis using recv_to_closed [OF inv p] hdr n False by (subst provided_frames.simps) auto
    next
      case valid: True
      note s = sint_valid(2,3) [OF valid]
      let ?l = "FrameHdrSize ?P + sint n"
      show ?thesis
      proof (cases "int (length buf) < ?l")
        case True
        then have "partial_frame ?P buf" using n valid by (auto simp: partial_frame_def)
        from cut_partial [OF this] less.prems(3) hdr n valid True recv_to_refl [OF inv p] show ?thesis
          by (subst provided_frames.simps) (simp add: Let_def)
      next
        case False
        obtain gs where g: "cut_frames ?P (drop (nat ?l) buf) = (gs, t, bad)" "fs = take (nat ?l) buf # gs"
          using cut_front [OF hdr n valid] False less.prems(3) by (auto split: prod.splits)
        obtain c1 where c1: "DispatchFrame env i p buf (sint n) c = Some c1"
          "recv_to env H i p [Frame (take (nat ?l) buf)] c c1" "core c1 = core c"
          using recv_to_frame [OF inv p s, of buf] False by (meson not_less)
        note pc = core_protocol(1) [OF c1(3) inv p]
        have "0 < ?l" using s(1) by (simp add: FrameHdrSize_def)
        then have "length (drop (nat ?l) buf) < length buf" using False by simp
        from less.hyps [OF this recv_toD(2,3) [OF c1(2)]] cut_cong [OF pc] g(1)
        obtain c2 where c2: "provided_frames env i p (FrameHdrSize (pr c1 i p)) True (drop (nat ?l) buf) c1 = Some (t, bad, c2)"
          "recv_to env H i p (map Frame gs @ (if bad then [Closed] else [])) c1 c2" "core c2 = core c1" by auto
        show ?thesis using hdr n valid False c1 c2 g(2) recv_to_trans [OF c1(2) c2(2)] proto_cong(1) [OF pc]
          by (subst provided_frames.simps) (simp add: Let_def)
      qed
    qed
  qed
qed

section \<open>Frames in the peer's buffer\<close>

definition in_rbuf :: "Peer \<Rightarrow> bytes \<Rightarrow> bool" where
  "in_rbuf P t \<longleftrightarrow> (\<exists>b. p_rbuf P = Some b \<and> int (length b) = kReadBufSize \<and> p_rbuf_len P = int (length t) \<and> take (length t) b = t)"

lemma in_rbufD:
  assumes "in_rbuf P t"
  obtains b where "p_rbuf P = Some (t @ b)" "int (length t + length b) = kReadBufSize" "p_rbuf_len P = int (length t)"
proof -
  obtain b where b: "p_rbuf P = Some b" "int (length b) = kReadBufSize" "p_rbuf_len P = int (length t)" "take (length t) b = t"
    using assms by (auto simp: in_rbuf_def)
  have "b = t @ drop (length t) b" using b(4) by (metis append_take_drop_id)
  moreover have "length (take (length t) b) = length t" using b(4) by simp
  then have "length t \<le> length b" by simp
  ultimately show ?thesis using that [of "drop (length t) b"] b by simp
qed

lemma in_rbufI: "p_rbuf P = Some (t @ b) \<Longrightarrow> int (length t + length b) = kReadBufSize \<Longrightarrow> p_rbuf_len P = int (length t) \<Longrightarrow> in_rbuf P t"
  by (simp add: in_rbuf_def)

lemma in_rbuf_core:
  assumes "core c' = core c" "dp_inv env H c" "peer_in c i p"
  shows "in_rbuf (pr c' i p) t = in_rbuf (pr c i p) t"
  using core_protocol [OF assms] by (simp add: in_rbuf_def)

text \<open>Moving what follows a frame to the front.\<close>

lemma shift_rbuf:
  assumes "int (length buf + length b) = kReadBufSize" "0 \<le> l" "l \<le> int (length buf)"
  shows "\<exists>m. (if int (length buf) - l > 0 then memcpy 0 (buf @ b) l (int (length buf) - l) (buf @ b) else Some (buf @ b)) =
      Some (drop (nat l) buf @ m) \<and> int (length (drop (nat l) buf) + length m) = kReadBufSize"
proof (cases "int (length buf) - l > 0")
  case True
  have n: "nat (int (length buf) - l) = length (drop (nat l) buf)" using assms by auto
  have "memcpy 0 (buf @ b) l (int (length buf) - l) (buf @ b) = wr 0 (drop (nat l) buf) (buf @ b)"
    using assms True by (simp add: memcpy_defined n)
  then show ?thesis using True assms by (simp add: wr_0)
next
  case False
  then show ?thesis using assms by auto
qed

lemma single_frames_spec:
  assumes "dp_inv env H c" "peer_in c i p" "in_rbuf (pr c i p) buf" "cut_frames (pr c i p) buf = (fs, t, bad)"
  shows "\<exists>c'. single_frames env i p (FrameHdrSize (pr c i p)) True c = Some (bad, c') \<and>
    recv_to env H i p (map Frame fs @ (if bad then [Closed] else [])) c c' \<and> in_rbuf (pr c' i p) t"
  using assms
proof (induction "length buf" arbitrary: buf c fs rule: less_induct)
  case less
  let ?P = "pr c i p"
  note inv = less.prems(1) and p = less.prems(2)
  obtain b where b: "p_rbuf ?P = Some (buf @ b)" "int (length buf + length b) = kReadBufSize" "p_rbuf_len ?P = int (length buf)"
    using in_rbufD [OF less.prems(3)] by blast
  show ?case
  proof (cases "FrameHdrSize ?P \<le> int (length buf)")
    case False
    then have "partial_frame ?P buf" by (simp add: partial_frame_def)
    from cut_partial [OF this] less.prems(3,4) False recv_to_refl [OF inv p] b show ?thesis
      by (subst single_frames.simps) simp
  next
    case hdr: True
    obtain n where n: "ReadPeerPayloadLen ?P buf = Some n" using ReadPeerPayloadLen_defined [OF hdr] by blast
    have n': "ReadPeerPayloadLen ?P (buf @ b) = Some n" using n ReadPeerPayloadLen_prefix [OF hdr] by simp
    show ?thesis
    proof (cases "IsValidPeerPayloadLen ?P n")
      case False
      from cut_bad [OF hdr n False] less.prems(4) have e: "fs = []" "t = buf" "bad" by simp_all
      obtain c' where c': "NotifyPeerClose i p c = Some c'" "recv_to env H i p [Closed] c c'" "core c' = core c"
        using recv_to_closed [OF inv p] by blast
      then show ?thesis using e hdr n' False b less.prems(3) in_rbuf_core [OF c'(3) inv p]
        by (subst single_frames.simps) simp
    next
      case valid: True
      note s = sint_valid(2,3) [OF valid]
      let ?l = "FrameHdrSize ?P + sint n"
      show ?thesis
      proof (cases "int (length buf) < ?l")
        case True
        then have "partial_frame ?P buf" using n valid by (auto simp: partial_frame_def)
        from cut_partial [OF this] less.prems(3,4) hdr n' valid True recv_to_refl [OF inv p] b show ?thesis
          by (subst single_frames.simps) (simp add: Let_def)
      next
        case False
        obtain gs where g: "cut_frames ?P (drop (nat ?l) buf) = (gs, t, bad)" "fs = take (nat ?l) buf # gs"
          using cut_front [OF hdr n valid] False less.prems(4) by (auto simp: not_less split: prod.splits)
        have l: "0 < ?l" "?l \<le> int (length buf)" using s(1) False by (simp_all add: FrameHdrSize_def)
        have "take (nat ?l) (buf @ b) = take (nat ?l) buf" using l by simp
        moreover have "?l \<le> int (length (buf @ b))" using l by simp
        ultimately obtain c1 where c1: "DispatchFrame env i p (buf @ b) (sint n) c = Some c1"
          "recv_to env H i p [Frame (take (nat ?l) buf)] c c1" "core c1 = core c"
          using recv_to_frame [OF inv p s, of "buf @ b"] by metis
        note cp = core_protocol [OF c1(3) inv p]
        obtain m where m: "(if int (length buf) - ?l > 0 then memcpy 0 (buf @ b) ?l (int (length buf) - ?l) (buf @ b) else Some (buf @ b)) =
            Some (drop (nat ?l) buf @ m)" "int (length (drop (nat ?l) buf) + length m) = kReadBufSize"
          using shift_rbuf [OF b(2), of ?l] l by (metis less_imp_le)
        define c2 where "c2 = set_rbuf i p (drop (nat ?l) buf @ m) (int (length buf) - ?l) c1"
        note rb = set_rbuf_inv [OF recv_toD(2,3) [OF c1(2)]]
        have r2: "recv_to env H i p [Frame (take (nat ?l) buf)] c c2"
          using recv_to_trans [OF c1(2) recv_to_rbuf [OF recv_toD(2,3) [OF c1(2)]]] by (simp add: c2_def)
        have P2: "pr c2 i p = (pr c1 i p)\<lparr>p_rbuf := Some (drop (nat ?l) buf @ m), p_rbuf_len := int (length buf) - ?l\<rparr>"
          unfolding c2_def by (rule rb(4))
        then have pc: "p_protocol (pr c2 i p) = p_protocol ?P" using cp(1) by simp
        have "in_rbuf (pr c2 i p) (drop (nat ?l) buf)" using P2 m(2) l by (intro in_rbufI [where b = m]) simp_all
        moreover have "length (drop (nat ?l) buf) < length buf" using l by simp
        ultimately obtain c3 where c3: "single_frames env i p (FrameHdrSize (pr c2 i p)) True c2 = Some (bad, c3)"
          "recv_to env H i p (map Frame gs @ (if bad then [Closed] else [])) c2 c3" "in_rbuf (pr c3 i p) t"
          using less.hyps [OF _ recv_toD(2,3) [OF r2]] cut_cong [OF pc] g(1) by metis
        have "single_frames env i p (FrameHdrSize ?P) True c = single_frames env i p (FrameHdrSize ?P) True c2"
          using hdr b n' valid False c1(1) cp(3,4) m(1) by (subst single_frames.simps) (simp add: Let_def c2_def split: if_splits)
        then show ?thesis using c3 g(2) recv_to_trans [OF r2 c3(2)] proto_cong(1) [OF pc] by simp
      qed
    qed
  qed
qed

section \<open>Completing a partial frame\<close>

lemma fill_header_spec:
  assumes "h \<le> int (length t + length b)"
  shows "\<exists>u b' rest. fill_header h (t @ b) (int (length t)) bs = Some (u @ b', int (length u), rest) \<and> t @ bs = u @ rest \<and>
    length u + length b' = length t + length b \<and> (int (length u) < h \<longrightarrow> rest = []) \<and> (u = t \<or> int (length u) \<le> h) \<and> length t \<le> length u"
  using assms
proof (induction bs arbitrary: t b)
  case (Cons x bs)
  show ?case
  proof (cases "int (length t) < h")
    case True
    then obtain y b1 where b: "b = y # b1" using Cons.prems by (cases b) auto
    have "wr (int (length t)) [x] (t @ b) = Some ((t @ [x]) @ b1)" by (simp add: wr_append b)
    moreover obtain u b' rest where u: "fill_header h ((t @ [x]) @ b1) (int (length (t @ [x]))) bs = Some (u @ b', int (length u), rest)"
      "(t @ [x]) @ bs = u @ rest" "length u + length b' = length (t @ [x]) + length b1" "int (length u) < h \<longrightarrow> rest = []"
      "u = t @ [x] \<or> int (length u) \<le> h" "length (t @ [x]) \<le> length u"
      using Cons.IH [of "t @ [x]" b1] Cons.prems b by auto
    ultimately show ?thesis using True b by (intro exI [of _ u] exI [of _ b'] exI [of _ rest]) (auto simp: add.commute)
  next
    case False
    then show ?thesis by (auto intro!: exI)
  qed
qed auto

text \<open>
  A partial frame and more bytes: either there is still no complete frame, or the header is
  broken, or the first frame is dispatched.
\<close>

lemma complete_partial_spec:
  assumes inv: "dp_inv env H c" and p: "peer_in c i p" and t: "in_rbuf (pr c i p) t" "partial_frame (pr c i p) t"
    and bs: "cut_frames (pr c i p) (t @ bs) = (fs, r, bad)"
  shows "\<exists>c' rest. complete_partial env i p bs c = Some (c', rest) \<and>
    (case rest of
       None \<Rightarrow> fs = [] \<and> recv_to env H i p (if bad then [Closed] else []) c c' \<and> in_rbuf (pr c' i p) (if bad then [] else r)
     | Some buf \<Rightarrow> \<exists>gs. cut_frames (pr c i p) buf = (gs, r, bad) \<and>
         recv_to env H i p (map Frame (take (length fs - length gs) fs)) c c' \<and> drop (length fs - length gs) fs = gs \<and>
         length gs \<le> length fs \<and> in_rbuf (pr c' i p) [] \<and> length buf \<le> length bs)"
proof -
  let ?P = "pr c i p"
  let ?h = "FrameHdrSize ?P"
  obtain b where b: "p_rbuf ?P = Some (t @ b)" "int (length t + length b) = kReadBufSize" "p_rbuf_len ?P = int (length t)"
    using in_rbufD [OF t(1)] by blast
  show ?thesis
  proof (cases "t = []")
    case True
    then show ?thesis using bs b(3) t(1) recv_to_refl [OF inv p] by (simp add: complete_partial_def Let_def)
  next
    case t0: False
    have h: "0 < ?h" "?h \<le> int (length t + length b)" using b(2) by (auto simp: FrameHdrSize_def)
    obtain u b' rest where u: "fill_header ?h (t @ b) (int (length t)) bs = Some (u @ b', int (length u), rest)" "t @ bs = u @ rest"
      "length u + length b' = length t + length b" "int (length u) < ?h \<longrightarrow> rest = []" "u = t \<or> int (length u) \<le> ?h" "length t \<le> length u"
      using fill_header_spec [OF h(2)] by blast
    define c1 where "c1 = set_rbuf i p (u @ b') (int (length u)) c"
    note rb = set_rbuf_inv [OF inv p, of "u @ b'" "int (length u)", folded c1_def]
    have r1: "recv_to env H i p [] c c1" unfolding c1_def by (rule recv_to_rbuf [OF inv p])
    have len: "int (length u + length b') = kReadBufSize" using u(3) b(2) by simp
    have part: "complete_partial env i p bs c = Some (c', None) \<Longrightarrow> partial_frame ?P (t @ bs) \<Longrightarrow> in_rbuf (pr c' i p) (t @ bs) \<Longrightarrow>
        recv_to env H i p [] c c' \<Longrightarrow> ?thesis" for c'
      using bs cut_partial [of ?P "t @ bs"] by auto
    show ?thesis
    proof (cases "int (length u) < ?h")
      case True
      then have e: "rest = []" "t @ bs = u" using u(2,4) by simp_all
      have "in_rbuf (pr c1 i p) u" using rb(4) len by (auto intro!: in_rbufI)
      moreover have "partial_frame ?P u" using True by (simp add: partial_frame_def)
      moreover have "complete_partial env i p bs c = Some (c1, None)"
        using True u(1) b t0 by (simp add: complete_partial_def Let_def c1_def)
      ultimately show ?thesis using part r1 unfolding e(2) by blast
    next
      case hdr: False
      have P1: "pr c1 i p = ?P\<lparr>p_rbuf := Some (u @ b'), p_rbuf_len := int (length u)\<rparr>" by (rule rb(4))
      obtain n where n: "ReadPeerPayloadLen ?P u = Some n" using ReadPeerPayloadLen_defined [of ?P u] hdr by auto
      have n1: "ReadPeerPayloadLen ?P (u @ x) = Some n" for x using n ReadPeerPayloadLen_prefix [of ?P u x] hdr by simp
      have hl: "?h \<le> int (length (t @ bs))" using hdr u(2) by simp
      have nt: "ReadPeerPayloadLen ?P (t @ bs) = Some n" using n1 u(2) by simp
      show ?thesis
      proof (cases "IsValidPeerPayloadLen ?P n")
        case False
        from cut_bad [OF hl nt False] bs have e: "fs = []" "bad" by simp_all
        obtain c2 where c2: "NotifyPeerClose i p c1 = Some c2" "recv_to env H i p [Closed] c1 c2" "core c2 = core c1"
          using recv_to_closed [OF rb(1,2)] by blast
        note rb2 = set_rbuf_inv [OF recv_toD(2,3) [OF c2(2)], of "u @ b'" 0]
        have "recv_to env H i p [Closed] c (set_rbuf i p (u @ b') 0 c2)"
          using recv_to_trans [OF recv_to_trans [OF r1 c2(2)] recv_to_rbuf [OF recv_toD(2,3) [OF c2(2)]]] by simp
        moreover have "in_rbuf (pr (set_rbuf i p (u @ b') 0 c2) i p) []" using rb2(4) len by (auto intro!: in_rbufI)
        moreover have "complete_partial env i p bs c = Some (set_rbuf i p (u @ b') 0 c2, None)"
          using b t0 u(1) hdr n1 False c2(1) by (simp add: complete_partial_def Let_def c1_def [symmetric])
        ultimately show ?thesis using e by auto
      next
        case valid: True
        note s = sint_valid(2,3) [OF valid]
        define need where "need = ?h + sint n - int (length u)"
        have need0: "0 \<le> need"
        proof (cases "u = t")
          case True
          then show ?thesis using t(2) n1 [of "[]"] hdr by (auto simp: partial_frame_def need_def)
        next
          case False
          then show ?thesis using u(5) s(1) by (auto simp: need_def)
        qed
        have kb: "?h + sint n \<le> kReadBufSize" using s(2) by (simp add: FrameHdrSize_def)
        show ?thesis
        proof (cases "need > int (length rest)")
          case True
          have "length rest \<le> length b'" using True kb len by (simp add: need_def)
          then have w: "wr (int (length u)) rest (u @ b') = Some ((u @ rest) @ drop (length rest) b')" by (simp add: wr_append)
          let ?c2 = "set_rbuf i p ((u @ rest) @ drop (length rest) b') (int (length u) + int (length rest)) c1"
          have "recv_to env H i p [] c ?c2" using recv_to_trans [OF r1 recv_to_rbuf [OF rb(1,2)]] by simp
          moreover have "in_rbuf (pr ?c2 i p) (t @ bs)" unfolding u(2)
            using set_rbuf_inv(4) [OF rb(1,2)] len \<open>length rest \<le> length b'\<close> by (auto intro!: in_rbufI [where b = "drop (length rest) b'"])
          moreover have "partial_frame ?P (t @ bs)" using nt valid True u(2) by (auto simp: partial_frame_def need_def)
          moreover have "complete_partial env i p bs c = Some (?c2, None)"
            using b t0 u(1) hdr n1 valid True w by (simp add: complete_partial_def Let_def c1_def [symmetric] need_def)
          ultimately show ?thesis using part by blast
        next
          case enough: False
          define k where "k = nat need"
          have k: "need = int k" "k \<le> length rest" using need0 enough by (simp_all add: k_def)
          have kb': "k \<le> length b'" using kb len k(1) need_def by simp
          let ?b2 = "u @ take k rest @ drop k b'"
          have w: "wr (int (length u)) (take k rest) (u @ b') = Some ?b2" using kb' k(2) by (simp add: wr_append min_def)
          define c2 where "c2 = set_rbuf i p ?b2 (int (length u)) c1"
          note rb2 = set_rbuf_inv [OF rb(1,2), of ?b2 "int (length u)", folded c2_def]
          have pc: "p_protocol (pr c2 i p) = p_protocol ?P" using rb2(4) P1 by simp
          note pcc = proto_cong [OF pc]
          have l: "nat (?h + sint n) = length u + k" "?h + sint n \<le> int (length ?b2)" using k need_def kb' by simp_all
          obtain c3 where c3: "DispatchFrame env i p ?b2 (sint n) c2 = Some c3"
            "recv_to env H i p [Frame (take (nat (?h + sint n)) ?b2)] c2 c3" "core c3 = core c2"
            using recv_to_frame [OF rb2(1,2) s, of ?b2] l(2) pcc(1) by auto
          define c4 where "c4 = set_rbuf i p ?b2 0 c3"
          note rb4 = set_rbuf_inv [OF recv_toD(2,3) [OF c3(2)], of ?b2 0, folded c4_def]
          have f: "take (nat (?h + sint n)) ?b2 = take (length u + k) (t @ bs)" "drop (length u + k) (t @ bs) = drop k rest"
            unfolding l(1) u(2) using k(2) by (simp_all add: min_def)
          have r2: "recv_to env H i p [] c1 c2" unfolding c2_def by (rule recv_to_rbuf [OF rb(1,2)])
          have r4: "recv_to env H i p [Frame (take (length u + k) (t @ bs))] c c4"
            using recv_to_trans [OF recv_to_trans [OF recv_to_trans [OF r1 r2] c3(2)] recv_to_rbuf [OF recv_toD(2,3) [OF c3(2)]]]
            unfolding c4_def f(1) [symmetric] by (simp only: append_Nil append_Nil2)
          have front: "cut_frames ?P (t @ bs) = (case cut_frames ?P (drop k rest) of (gs, r, bad) \<Rightarrow> (take (length u + k) (t @ bs) # gs, r, bad))"
            using cut_front [OF hl nt valid] u(2) k(2) l(1) f(2) need_def k(1) by (simp add: l(1))
          obtain gs where gs: "cut_frames ?P (drop k rest) = (gs, r, bad)" "fs = take (length u + k) (t @ bs) # gs"
            using front bs by (cases "cut_frames ?P (drop k rest)") auto
          have "in_rbuf (pr c4 i p) []" using rb4(4) len kb' k(2) by (auto intro!: in_rbufI simp: min_def)
          moreover have "length rest \<le> length bs"
            using arg_cong [OF u(2), of length] u(6) by simp
          moreover have "complete_partial env i p bs c = Some (c4, Some (drop k rest))"
            using b t0 u(1) hdr n1 valid enough need0 w c3(1) k
            by (simp add: complete_partial_def Let_def c1_def [symmetric] need_def [symmetric] rd_def c2_def [symmetric] c4_def)
          ultimately show ?thesis using gs r4 by (auto intro!: exI [of _ gs])
        qed
      qed
    qed
  qed
qed

section \<open>The handlers\<close>

lemma cut_append:
  assumes "cut_frames P a = (es, t, False)" "cut_frames P (t @ b) = (fs, r, bad)"
  shows "cut_frames P (a @ b) = (es @ fs, r, bad)"
  using assms
proof (induction P a arbitrary: es rule: cut_frames.induct)
  case (1 P a)
  show ?case
  proof (cases "partial_frame P a")
    case True
    then show ?thesis using "1.prems" cut_partial by auto
  next
    case False
    then have h: "FrameHdrSize P \<le> int (length a)" by (auto simp: partial_frame_def)
    then obtain n where n: "ReadPeerPayloadLen P a = Some n" using ReadPeerPayloadLen_defined by blast
    have v: "IsValidPeerPayloadLen P n" using cut_bad [OF h n] "1.prems"(1) by auto
    let ?l = "FrameHdrSize P + sint n"
    have l: "?l \<le> int (length a)" using False n v by (auto simp: partial_frame_def not_less)
    obtain gs where g: "cut_frames P (drop (nat ?l) a) = (gs, t, False)" "es = take (nat ?l) a # gs"
      using cut_front [OF h n v l] "1.prems"(1) by (auto split: prod.splits)
    have "cut_frames P (drop (nat ?l) a @ b) = (gs @ fs, r, bad)"
      using "1.IH" [OF h n _ refl _ g(1) "1.prems"(2)] v l by simp
    moreover have "ReadPeerPayloadLen P (a @ b) = Some n" "FrameHdrSize P \<le> int (length (a @ b))" "?l \<le> int (length (a @ b))"
      using n ReadPeerPayloadLen_prefix [OF h] h l by simp_all
    ultimately show ?thesis using cut_front [of P "a @ b" n] v l g(2) by simp
  qed
qed

lemma recv_same_at:
  assumes "recv_same i p c c'" "peer_in c i p" "dp_inv env H c"
  shows "peer_at c' i fd = peer_at c i fd" "w_running (wk c' i) = w_running (wk c i)" "p_protocol (pr c' i p) = p_protocol (pr c i p)"
    "p_occupied (pr c' i p) = p_occupied (pr c i p)"
proof -
  obtain b n w s where e: "core c' = core (rebuf i p b n w s c)" using assms(1) by (auto simp: recv_same_def)
  let ?d = "rebuf i p b n w s c"
  note i = peer_inD(1,2) [OF assms(3,2)]
  have i': "i < length (cx_workers ?d)" using i(1) by (simp add: rebuf_def set_pr_def)
  have d: "w_fd_map (wk ?d i) = w_fd_map (wk c i)" "w_running (wk ?d i) = w_running (wk c i)"
    using i(1) by (simp_all add: rebuf_def set_pr_def)
  have P: "pr ?d i p = (pr c i p)\<lparr>p_rbuf := b, p_rbuf_len := n, p_recv_bytes_window := w, p_window_start_ns := s\<rparr>"
    unfolding rebuf_def by (rule pr_set_pr(1) [OF assms(3,2)])
  note cw = coreD(5) [OF e i']
  show "peer_at c' i fd = peer_at c i fd" "w_running (wk c' i) = w_running (wk c i)"
    using worker_coreD(1,2) [OF cw] d by (simp_all add: peer_at_def)
  have "p < length (w_ht (wk ?d i))" using i by (simp add: rebuf_def set_pr_def)
  from worker_coreD(11) [OF cw this] P
  show "p_protocol (pr c' i p) = p_protocol (pr c i p)" "p_occupied (pr c' i p) = p_occupied (pr c i p)"
    by (simp_all add: pr_def peer_core_def)
qed

lemma rate_limit_spec:
  assumes inv: "dp_inv env H c" and p: "peer_in c i p" and r: "rate_limit env i p n c = (c', over)"
  shows "recv_to env H i p [] c c' \<and> in_rbuf (pr c' i p) t = in_rbuf (pr c i p) t"
proof -
  let ?P = "\<lambda>w s. (pr c i p)\<lparr>p_recv_bytes_window := w, p_window_start_ns := s\<rparr>"
  have set: "recv_to env H i p [] c (set_pr i p (?P w s) c) \<and> in_rbuf (pr (set_pr i p (?P w s) c) i p) t = in_rbuf (pr c i p) t" for w s
  proof -
    have e: "set_pr i p (?P w s) c = rebuf i p (p_rbuf (pr c i p)) (p_rbuf_len (pr c i p)) w s c" by (simp add: rebuf_def)
    have "dp_inv env H (set_pr i p (?P w s) c)" using peer_inD [OF inv p] by (intro dp_inv_rbuf [OF inv p]) simp_all
    moreover have "peer_in (set_pr i p (?P w s) c) i p" using p by (simp add: peer_in_def set_pr_def)
    moreover have "sends_ok (set_pr i p (?P w s) c)" if "sends_ok c"
      by (rule sends_ok_update [OF that hts_set_pr [OF peer_inD(1) [OF inv p]]]) (use sends_okD [OF that inv p] in simp)
    moreover have "recv_same i p c (set_pr i p (?P w s) c)" unfolding e recv_same_def by blast
    ultimately show ?thesis using pr_set_pr(1) [OF inv p, of "?P w s"] disp_window [OF disp_nil]
      by (auto simp: recv_to_def in_rbuf_def)
  qed
  define P1 where "P1 = (if de_now env - p_window_start_ns (pr c i p) > 1000000000
     then (pr c i p)\<lparr>p_recv_bytes_window := 0, p_window_start_ns := de_now env\<rparr> else pr c i p)"
  have "P1\<lparr>p_recv_bytes_window := p_recv_bytes_window P1 + word_of_int n\<rparr> =
      ?P (p_recv_bytes_window P1 + word_of_int n) (p_window_start_ns P1)" by (simp add: P1_def)
  then have c1: "\<exists>w s f. c' = set_pr i p (?P w s) c \<or> c' = stat i f (set_pr i p (?P w s) c) \<or> c' = c"
    using r unfolding rate_limit_def P1_def [symmetric] Let_def by (auto split: if_splits)
  note s1 = conjunct1 [OF set]
  have "recv_to env H i p [] c (stat i f (set_pr i p (?P w s) c))" for w s f
    using recv_to_trans [OF s1 recv_to_stat [OF recv_toD(2,3) [OF s1]]] by (simp only: append_Nil)
  then show ?thesis using c1 set recv_to_refl [OF inv p] by (elim exE disjE) simp_all
qed

definition over_rate :: "dp_env \<Rightarrow> nat \<Rightarrow> nat \<Rightarrow> Cqe \<Rightarrow> Ctx \<Rightarrow> bool" where
  "over_rate env i p cqe c = snd (rate_limit env i p (cqe_res cqe)
     (stat i (\<lambda>s. s\<lparr>st_recv_bytes := st_recv_bytes s + word_of_int (cqe_res cqe)\<rparr>) c))"

lemma provided_spec:
  assumes inv: "dp_inv env H c" and i: "i < length (cx_workers c)" and at: "peer_at c i (UdFd (cqe_user_data cqe)) = Some p"
    and run: "w_running (wk c i)" and res: "cqe_res cqe = int (length (cqe_data cqe))" "cqe_data cqe \<noteq> []" "cqe_res cqe \<le> kReadBufSize"
    and t: "in_rbuf (pr c i p) t" "partial_frame (pr c i p) t" and cut: "cut_frames (pr c i p) (t @ cqe_data cqe) = (fs, r, bad)"
    and rate: "\<not> over_rate env i p cqe c"
  shows "\<exists>c1. recv_to env H i p (map Frame fs @ (if bad then [Closed] else [])) c c1 \<and>
    in_rbuf (pr c1 i p) (if bad then [] else r) \<and>
    HandleRecvProvided env i cqe ms c = Some (if ms then c1 else SubmitRecv env i (UdFd (cqe_user_data cqe)) c1)"
proof -
  let ?fd = "UdFd (cqe_user_data cqe)"
  note p = peer_at_in(1) [OF inv i at]
  define cs where "cs = stat i (\<lambda>s. s\<lparr>st_recv_bytes := st_recv_bytes s + word_of_int (cqe_res cqe)\<rparr>) c"
  have rs: "recv_to env H i p [] c cs" unfolding cs_def by (rule recv_to_stat [OF inv p])
  obtain c0 where rl: "rate_limit env i p (cqe_res cqe) cs = (c0, False)" using rate by (auto simp: over_rate_def cs_def prod_eq_iff)
  note lim = rate_limit_spec [OF recv_toD(2,3) [OF rs] rl]
  have r0: "recv_to env H i p [] c c0" using recv_to_trans [OF rs conjunct1 [OF lim]] by simp
  note i0 = recv_toD(2,3) [OF r0]
  note same0 = recv_same_at [OF recv_toD(4) [OF r0] p inv]
  have P0: "in_rbuf (pr c0 i p) t" "partial_frame (pr c0 i p) t" "cut_frames (pr c0 i p) (t @ cqe_data cqe) = (fs, r, bad)"
    using lim t cut proto_cong(4) [OF same0(3)] cut_cong [OF same0(3)] by (auto simp: cs_def)
  have pos: "\<not> cqe_res cqe \<le> 0" using res by (cases "cqe_data cqe") simp_all
  note run_def = recv_provided_def cs_def [symmetric] rl prod.case bool.case if_not_P [OF pos]
  obtain c1 rest where c1: "complete_partial env i p (cqe_data cqe) c0 = Some (c1, rest)" and sp: "case rest of
       None \<Rightarrow> fs = [] \<and> recv_to env H i p (if bad then [Closed] else []) c0 c1 \<and> in_rbuf (pr c1 i p) (if bad then [] else r)
     | Some buf \<Rightarrow> \<exists>gs. cut_frames (pr c0 i p) buf = (gs, r, bad) \<and>
         recv_to env H i p (map Frame (take (length fs - length gs) fs)) c0 c1 \<and> drop (length fs - length gs) fs = gs \<and>
         length gs \<le> length fs \<and> in_rbuf (pr c1 i p) [] \<and> length buf \<le> length (cqe_data cqe)"
    using complete_partial_spec [OF i0, of t "cqe_data cqe" fs r bad] P0 by blast
  have body: "\<exists>c2. recv_provided env i ?fd p cqe c = Some c2 \<and>
      recv_to env H i p (map Frame fs @ (if bad then [Closed] else [])) c0 c2 \<and> in_rbuf (pr c2 i p) (if bad then [] else r)"
  proof (cases rest)
    case None
    then show ?thesis using sp c1 unfolding run_def by simp
  next
    case (Some buf)
    then obtain gs where gs: "cut_frames (pr c0 i p) buf = (gs, r, bad)" "recv_to env H i p (map Frame (take (length fs - length gs) fs)) c0 c1"
      "drop (length fs - length gs) fs = gs" "in_rbuf (pr c1 i p) []" "length buf \<le> length (cqe_data cqe)" using sp by auto
    note i1 = recv_toD(2,3) [OF gs(2)]
    note same = recv_same_at [OF recv_toD(4) [OF gs(2)] i0(2,1)]
    have run1: "w_running (wk c1 i)" using same(2) same0(2) run by simp
    obtain c2 where c2: "provided_frames env i p (FrameHdrSize (pr c1 i p)) True buf c1 = Some (r, bad, c2)"
      "recv_to env H i p (map Frame gs @ (if bad then [Closed] else [])) c1 c2" "core c2 = core c1"
      using provided_frames_spec [OF i1] gs(1) cut_cong [OF same(3)] by metis
    have all: "recv_to env H i p (map Frame fs @ (if bad then [Closed] else [])) c0 c2"
    proof -
      have "map Frame (take (length fs - length gs) fs) @ map Frame gs = map Frame fs"
        by (metis append_take_drop_id gs(3) map_append)
      then show ?thesis using recv_to_trans [OF gs(2) c2(2)] by (metis append_assoc)
    qed
    have in2: "in_rbuf (pr c2 i p) []" using in_rbuf_core [OF c2(3) i1] gs(4) by simp
    show ?thesis
    proof (cases "bad \<or> r = []")
      case True
      then show ?thesis using Some c1 run1 c2(1) all in2 unfolding run_def by auto
    next
      case False
      obtain b where b: "p_rbuf (pr c2 i p) = Some b" "int (length b) = kReadBufSize" using in2 by (auto simp: in_rbuf_def)
      have "length r \<le> length buf" using cut_rest(1) [OF gs(1)] by auto
      then have "length r \<le> length b" using gs(5) res b(2) by linarith
      then have w: "wr 0 r b = Some (r @ drop (length r) b)" by (simp add: wr_0)
      let ?c3 = "set_rbuf i p (r @ drop (length r) b) (int (length r)) c2"
      have "recv_to env H i p (map Frame fs @ (if bad then [Closed] else [])) c0 ?c3"
        using recv_to_trans [OF all recv_to_rbuf [OF recv_toD(2,3) [OF all]]] by simp
      moreover have "in_rbuf (pr ?c3 i p) r"
        using set_rbuf_inv(4) [OF recv_toD(2,3) [OF all]] b(2) \<open>length r \<le> length b\<close> by (auto intro!: in_rbufI)
      moreover have "recv_provided env i ?fd p cqe c = Some ?c3"
        using Some c1 run1 c2(1) False b(1) w unfolding run_def by simp
      ultimately show ?thesis using False by auto
    qed
  qed
  then obtain c2 where c2: "recv_provided env i ?fd p cqe c = Some c2"
      "recv_to env H i p (map Frame fs @ (if bad then [Closed] else [])) c0 c2" "in_rbuf (pr c2 i p) (if bad then [] else r)" by blast
  have "recv_to env H i p (map Frame fs @ (if bad then [Closed] else [])) c c2"
    using recv_to_trans [OF r0 c2(2)] by simp
  moreover from this have "peer_at c2 i ?fd = Some p" using recv_same_at(1) [OF recv_toD(4) p inv] at by metis
  ultimately show ?thesis using c2 at by (auto simp: HandleRecvProvided_def)
qed

text \<open>
  Single receives: the buffer has room for what arrives, because that is how much the receive
  asked for, and it is read back from there.
\<close>

lemma single_spec:
  assumes inv: "dp_inv env H c" and i: "i < length (cx_workers c)" and at: "peer_at c i (UdFd (cqe_user_data cqe)) = Some p"
    and run: "w_running (wk c i)" and res: "cqe_res cqe = int (length (cqe_data cqe))" "cqe_data cqe \<noteq> []"
    and t: "in_rbuf (pr c i p) t" "int (length t) + cqe_res cqe \<le> kReadBufSize"
    and cut: "cut_frames (pr c i p) (t @ cqe_data cqe) = (fs, r, bad)"
  shows "\<exists>c1. recv_to env H i p (map Frame fs @ (if bad then [Closed] else [])) c c1 \<and> in_rbuf (pr c1 i p) r \<and>
    HandleRecvSingle env i cqe c =
      Some (if \<not> bad \<and> p_occupied (pr c i p) = 1 then SubmitRecv env i (UdFd (cqe_user_data cqe)) c1 else c1)"
proof -
  let ?fd = "UdFd (cqe_user_data cqe)"
  note p = peer_at_in(1) [OF inv i at]
  define c0 where "c0 = stat i (\<lambda>s. s\<lparr>st_recv_bytes := st_recv_bytes s + word_of_int (cqe_res cqe)\<rparr>) c"
  have r0: "recv_to env H i p [] c c0" unfolding c0_def by (rule recv_to_stat [OF inv p])
  note i0 = recv_toD(2,3) [OF r0]
  have P0: "pr c0 i p = pr c i p" by (simp add: c0_def)
  have pos: "\<not> cqe_res cqe \<le> 0" using res by (cases "cqe_data cqe") simp_all
  obtain b where b: "p_rbuf (pr c i p) = Some (t @ b)" "int (length t + length b) = kReadBufSize" "p_rbuf_len (pr c i p) = int (length t)"
    using in_rbufD [OF t(1)] by blast
  have l: "length (cqe_data cqe) \<le> length b" using t(2) res(1) b(2) by linarith
  let ?b1 = "(t @ cqe_data cqe) @ drop (length (cqe_data cqe)) b"
  have w: "wr (int (length t)) (cqe_data cqe) (t @ b) = Some ?b1" using l by (simp add: wr_append)
  define c1 where "c1 = set_rbuf i p ?b1 (int (length t) + cqe_res cqe) c0"
  note rb = set_rbuf_inv [OF i0, of ?b1 "int (length t) + cqe_res cqe", folded c1_def]
  have r1: "recv_to env H i p [] c c1" using recv_to_trans [OF r0 recv_to_rbuf [OF i0]] by (simp add: c1_def)
  have in1: "in_rbuf (pr c1 i p) (t @ cqe_data cqe)"
    using rb(4) res(1) b(2) l by (intro in_rbufI [where b = "drop (length (cqe_data cqe)) b"]) simp_all
  have pc: "p_protocol (pr c1 i p) = p_protocol (pr c i p)" using rb(4) P0 by simp
  obtain c2 where c2: "single_frames env i p (FrameHdrSize (pr c1 i p)) True c1 = Some (bad, c2)"
      "recv_to env H i p (map Frame fs @ (if bad then [Closed] else [])) c1 c2" "in_rbuf (pr c2 i p) r"
    using single_frames_spec [OF rb(1,2) in1] cut cut_cong [OF pc] by metis
  have all: "recv_to env H i p (map Frame fs @ (if bad then [Closed] else [])) c c2" using recv_to_trans [OF r1 c2(2)] by simp
  have run1: "w_running (wk c1 i)" using recv_same_at(2) [OF recv_toD(4) [OF r1] p inv] run by simp
  have "HandleRecvSingle env i cqe c = Some (if \<not> bad \<and> p_occupied (pr c2 i p) = 1 then SubmitRecv env i ?fd c2 else c2)"
    unfolding HandleRecvSingle_def Let_def at option.case if_not_P [OF pos] c0_def [symmetric] P0 b bind.bind_lunit w c1_def [symmetric]
    using run1 c2(1) by simp
  then show ?thesis using all c2(3) recv_same_at(4) [OF recv_toD(4) [OF all] p inv] by auto
qed

text \<open>Over the rate the bytes are dropped, also those that continue a frame.\<close>

lemma rate_limit_drops:
  assumes inv: "dp_inv env H c" and i: "i < length (cx_workers c)" and at: "peer_at c i (UdFd (cqe_user_data cqe)) = Some p"
    and pos: "0 < cqe_res cqe" and t: "in_rbuf (pr c i p) t"
    and over: "over_rate env i p cqe c"
  shows "\<exists>c1. recv_to env H i p [] c c1 \<and> in_rbuf (pr c1 i p) t \<and>
    HandleRecvProvided env i cqe ms c = Some (if ms then c1 else SubmitRecv env i (UdFd (cqe_user_data cqe)) c1)"
proof -
  note p = peer_at_in(1) [OF inv i at]
  define c0 where "c0 = stat i (\<lambda>s. s\<lparr>st_recv_bytes := st_recv_bytes s + word_of_int (cqe_res cqe)\<rparr>) c"
  have r0: "recv_to env H i p [] c c0" unfolding c0_def by (rule recv_to_stat [OF inv p])
  obtain c1 where c1: "rate_limit env i p (cqe_res cqe) c0 = (c1, True)" using over by (auto simp: over_rate_def c0_def prod_eq_iff)
  have "recv_to env H i p [] c0 c1" "in_rbuf (pr c1 i p) t"
    using rate_limit_spec [OF recv_toD(2,3) [OF r0] c1, of t] t by (simp_all add: c0_def)
  then have "recv_to env H i p [] c c1" "in_rbuf (pr c1 i p) t" using recv_to_trans [OF r0] by fastforce+
  moreover have "\<not> cqe_res cqe \<le> 0" using pos by simp
  then have "recv_provided env i (UdFd (cqe_user_data cqe)) p cqe c = Some c1"
    unfolding recv_provided_def c0_def [symmetric] c1 by simp
  moreover have "peer_at c1 i (UdFd (cqe_user_data cqe)) = Some p"
    using recv_same_at(1) [OF recv_toD(4) p inv] calculation(1) at by metis
  ultimately show ?thesis using at by (auto simp: HandleRecvProvided_def)
qed

end
