(* ===== verification/Dp_Rounds.thy ===== *)
theory Dp_Rounds
  imports Dp_Receive
begin

text \<open>
  Transfers between workers, and the events of a worker: each of them ends and keeps the
  invariant.
\<close>

section \<open>Transfers\<close>

lemma accept_xfer_ends:
  assumes inv: "dp_inv env (add_mset (xfer_frame x) H) c" and i: "i < length (cx_workers c)"
  shows "dp_ends env H c (accept_xfer env i x c)"
proof -
  have inv': "dp_inv env (add_mset (x_frame x, x_frame_len x) H) c" using inv by (simp add: xfer_frame_def)
  show ?thesis
    using FrameFree_ends [OF inv' i] EnqueueSend_ends [OF inv' peer_at_in(1) [OF inv i]]
    by (auto simp: accept_xfer_def split: option.split)
qed

text \<open>The inboxes are touched by nothing that a transfer does.\<close>

definition inboxes :: "Ctx \<Rightarrow> XferSpscRing list list" where
  "inboxes c = map w_xfer_inbox (cx_workers c)"

lemma inboxes_set_wk [simp]: "w_xfer_inbox w = w_xfer_inbox (wk c i) \<Longrightarrow> inboxes (set_wk i w c) = inboxes c"
  by (cases "i < length (cx_workers c)")
    (simp_all add: inboxes_def set_wk_def wk_def map_update list_update_same_conv list_update_beyond)

lemma inboxes_fields [simp]: "inboxes (c\<lparr>cx_mem := m\<rparr>) = inboxes c" "inboxes (c\<lparr>cx_mallocs := n\<rparr>) = inboxes c"
  "inboxes (c\<lparr>cx_sqes := n\<rparr>) = inboxes c" "inboxes (dp_emit e c) = inboxes c" "inboxes (stat i f c) = inboxes c"
  "inboxes (set_pr i p P c) = inboxes c"
  by (simp_all add: inboxes_def stat_def set_pr_def) (simp_all add: inboxes_def [symmetric])

lemma inboxes_FrameFree: "FrameFree i a c = Some c' \<Longrightarrow> inboxes c' = inboxes c"
  by (auto simp: FrameFree_def FrameReturnPush_def Let_def split: if_splits option.splits)

lemma inboxes_submit_send: "submit_send env i fd a n m z c = Some (c', ok) \<Longrightarrow> inboxes c' = inboxes c"
  by (auto simp: submit_send_def GetSqe_def Let_def split: prod.splits bool.splits bind_splits if_splits)

lemma inboxes_submit_next: "submit_next env i p c = Some (c', ok) \<Longrightarrow> inboxes c' = inboxes c"
  by (auto simp: submit_next_def SubmitPeerSend_def Let_def split: option.splits if_splits bind_splits dest!: inboxes_submit_send)

lemma inboxes_append_item [simp]: "inboxes (append_item i p x c) = inboxes c"
  by (simp add: append_item_def Let_def)

lemma inboxes_pause_recv [simp]: "inboxes (pause_recv i c) = inboxes c"
  by (simp add: pause_recv_def Let_def)

lemma inboxes_kick_send: "kick_send env i p c = Some c' \<Longrightarrow> inboxes c' = inboxes c"
  by (auto simp: kick_send_def Let_def split: if_splits dest!: inboxes_submit_next)

lemma inboxes_SlabAllocItem: "SlabAllocItem env c i = (c', r) \<Longrightarrow> inboxes c' = inboxes c"
  by (auto simp: SlabAllocItem_def Let_def split: if_splits)

lemma inboxes_EnqueueSend: "EnqueueSend env i p a n c = Some c' \<Longrightarrow> inboxes c' = inboxes c"
  by (auto simp: EnqueueSend_def split: if_splits prod.splits option.splits
      dest!: inboxes_FrameFree inboxes_SlabAllocItem inboxes_kick_send)

lemma inboxes_accept: "accept_xfer env i x c = Some c' \<Longrightarrow> inboxes c' = inboxes c"
  by (auto simp: accept_xfer_def split: option.splits if_splits dest!: inboxes_FrameFree inboxes_EnqueueSend)

text \<open>One ring: with enough fuel it is emptied, and the other rings are as before.\<close>

lemma pop_Some: "xfer_pop r = Some (x, r') \<Longrightarrow> XferSpscPop r = (r', 0, Some x)"
  by (auto simp: xfer_pop_def split: prod.splits if_splits)

lemma pop_None: "xfer_pop r = None \<Longrightarrow> \<exists>rc. XferSpscPop r = (r, rc, None)"
  by (auto simp: xfer_pop_def XferSpscPop_def Let_def split: if_splits)

lemma xfer_take_inv:
  assumes inv: "dp_inv env H c" and i: "i < length (cx_workers c)" and src: "src < length (w_xfer_inbox (wk c i))" and r: "xfer_ring_inv r"
    and x: "xfer_ring_contents (w_xfer_inbox (wk c i) ! src) = x # xfer_ring_contents r"
  shows "dp_inv env (add_mset (xfer_frame x) H) (set_wk i ((wk c i)\<lparr>w_xfer_inbox := (w_xfer_inbox (wk c i))[src := r]\<rparr>) c)"
proof -
  have "frames_ok (add_mset (xfer_frame x) H) (set_wk i ((wk c i)\<lparr>w_xfer_inbox := (w_xfer_inbox (wk c i))[src := r]\<rparr>) c)"
    using moved [OF travelling_update [OF src, of r], of "add_mset (xfer_frame x) H" H] x
    by (intro frames_ok_move [OF dp_invD(3) [OF inv] i]) (simp_all add: w_used_def w_free_def ac_simps)
  then show ?thesis using dp_invD(8) [OF inv i] r
    by (intro dp_inv_step [OF inv] aux_set_wk dp_invD(2) [OF inv] worker_aux_inbox) simp_all
qed

lemma xfer_loop_ends:
  assumes "dp_inv env H c" "i < length (cx_workers c)" "src < kMaxWorkers"
    "length (xfer_ring_contents (inboxes c ! i ! src)) \<le> n"
  shows "\<exists>c'. xfer_loop n env i src c = Some c' \<and> dp_inv env H c' \<and> dp_step c c' \<and>
    (\<exists>r. xfer_ring_contents r = [] \<and> inboxes c' = (inboxes c)[i := (inboxes c ! i)[src := r]])"
  using assms
proof (induction n arbitrary: c)
  case (Suc n)
  let ?w = "wk c i"
  note inv = Suc.prems(1) and i = Suc.prems(2)
  have src: "src < length (w_xfer_inbox ?w)" "xfer_ring_inv (w_xfer_inbox ?w ! src)"
    using dp_invD(8) [OF inv i] Suc.prems(3) by (auto simp: worker_aux_def)
  have ib: "inboxes c ! i = w_xfer_inbox ?w" using i by (simp add: inboxes_def wk_def)
  from src(2) show ?case
  proof (cases rule: xq.pop_cases)
    case empty
    have "(inboxes c)[i := (inboxes c ! i)[src := inboxes c ! i ! src]] = inboxes c" by simp
    then show ?thesis using inv pop_None [OF empty(2)] empty(1) ib by (auto intro!: exI [of _ "inboxes c ! i ! src"])
  next
    case (some x xs r)
    let ?c = "set_wk i (?w\<lparr>w_xfer_inbox := (w_xfer_inbox ?w)[src := r]\<rparr>) c"
    have inv1: "dp_inv env (add_mset (xfer_frame x) H) ?c" using xfer_take_inv [OF inv i src(1) some(3)] some(1,4) by simp
    obtain c1 where c1: "accept_xfer env i x ?c = Some c1" "dp_inv env H c1" "dp_step ?c c1"
      using accept_xfer_ends [OF inv1] i by (auto simp: dp_ends_def)
    have b1: "inboxes c1 = (inboxes c)[i := (inboxes c ! i)[src := r]]"
      using inboxes_accept [OF c1(1)] ib by (simp add: inboxes_def set_wk_def map_update)
    have i1: "i < length (inboxes c)" "src < length (inboxes c ! i)" using i src(1) ib by (simp_all add: inboxes_def)
    then have r1: "inboxes c1 ! i ! src = r" "inboxes c1 ! i = (inboxes c ! i)[src := r]" using b1 by simp_all
    have l: "length (xfer_ring_contents (inboxes c1 ! i ! src)) \<le> n" using Suc.prems(4) some(1,4) ib r1(1) by simp
    have s1: "dp_step c c1" using c1(3) dp_step_trans [of c ?c c1] by (simp add: dp_step_hts)
    obtain c2 q where c2: "xfer_loop n env i src c1 = Some c2" "dp_inv env H c2" "dp_step c1 c2" "xfer_ring_contents q = []"
        "inboxes c2 = (inboxes c1)[i := (inboxes c1 ! i)[src := q]]"
      using Suc.IH [OF c1(2) _ Suc.prems(3) l] dp_stepD(2) [OF s1] i by auto
    have "inboxes c2 = (inboxes c)[i := (inboxes c ! i)[src := q]]" using c2(5) b1 r1(2) by simp
    then show ?thesis using c2 c1(1) pop_Some [OF some(2)] dp_step_trans [OF s1 c2(3)] by auto
  qed
next
  case 0
  have "(inboxes c)[i := (inboxes c ! i)[src := inboxes c ! i ! src]] = inboxes c" by simp
  then show ?case using 0 by (auto intro!: exI [of _ "inboxes c ! i ! src"])
qed

lemma set_bits_in: "src \<in> set (set_bits m) \<Longrightarrow> src < kMaxWorkers"
  by (simp add: set_bits_def)

lemma xfer_ring_bound:
  assumes "dp_inv env H c" "i < length (cx_workers c)" "src < kMaxWorkers"
  shows "length (xfer_ring_contents (inboxes c ! i ! src)) \<le> kXferSpscSize"
proof -
  have "xfer_ring_inv (w_xfer_inbox (wk c i) ! src)" using dp_invD(8) [OF assms(1,2)] assms(3) by (auto simp: worker_aux_def)
  from xq.bounded [OF this] show ?thesis using assms(2) by (simp add: inboxes_def wk_def)
qed

lemma xfer_sources_ends:
  assumes "dp_inv env H c" "i < length (cx_workers c)" "\<forall>s \<in> set srcs. s < kMaxWorkers"
  shows "\<exists>c'. xfer_sources srcs env i c = Some c' \<and> dp_inv env H c' \<and> dp_step c c' \<and>
    (\<forall>s < kMaxWorkers. s \<in> set srcs \<or> xfer_ring_contents (inboxes c ! i ! s) = [] \<longrightarrow> xfer_ring_contents (inboxes c' ! i ! s) = [])"
  using assms
proof (induction srcs arbitrary: c)
  case (Cons src srcs)
  note inv = Cons.prems(1) and i = Cons.prems(2)
  have src: "src < kMaxWorkers" using Cons.prems(3) by simp
  obtain c1 r where c1: "xfer_loop kXferSpscSize env i src c = Some c1" "dp_inv env H c1" "dp_step c c1" "xfer_ring_contents r = []"
      "inboxes c1 = (inboxes c)[i := (inboxes c ! i)[src := r]]"
    using xfer_loop_ends [OF inv i src xfer_ring_bound [OF inv i src]] by blast
  obtain c2 where c2: "xfer_sources srcs env i c1 = Some c2" "dp_inv env H c2" "dp_step c1 c2"
      "\<forall>s < kMaxWorkers. s \<in> set srcs \<or> xfer_ring_contents (inboxes c1 ! i ! s) = [] \<longrightarrow> xfer_ring_contents (inboxes c2 ! i ! s) = []"
    using Cons.IH [OF c1(2)] dp_stepD(2) [OF c1(3)] i Cons.prems(3) by auto
  have i': "i < length (inboxes c)" "length (inboxes c ! i) = kMaxWorkers"
    using i dp_invD(8) [OF inv i] by (simp_all add: inboxes_def worker_aux_def wk_def)
  then have "xfer_ring_contents (inboxes c1 ! i ! s) = []" if "s = src \<or> xfer_ring_contents (inboxes c ! i ! s) = []" "s < kMaxWorkers" for s
    using that c1(4,5) by (cases "s = src") auto
  then show ?case using c1 c2 dp_step_trans by (auto intro!: exI [of _ c2])
qed auto

lemma ProcessXfer_ends:
  assumes inv: "dp_inv env H c" and i: "i < length (cx_workers c)"
  shows "\<exists>c'. ProcessXfer env i c = Some c' \<and> dp_inv env H c' \<and> dp_step c c' \<and>
    (\<forall>s < kMaxWorkers. bit (w_pending_sources (wk c i)) s \<longrightarrow> xfer_ring_contents (w_xfer_inbox (wk c' i) ! s) = [])"
proof -
  let ?c = "set_wk i ((wk c i)\<lparr>w_pending_sources := 0\<rparr>) c"
  have inv1: "dp_inv env H ?c" by (rule dp_inv_set_wk [OF inv]) (use dp_invD(8) [OF inv] in simp_all)
  obtain c' where c': "xfer_sources (set_bits (w_pending_sources (wk c i))) env i ?c = Some c'" "dp_inv env H c'" "dp_step ?c c'"
      "\<forall>s < kMaxWorkers. s \<in> set (set_bits (w_pending_sources (wk c i))) \<longrightarrow> xfer_ring_contents (inboxes c' ! i ! s) = []"
    using xfer_sources_ends [OF inv1, of i "set_bits (w_pending_sources (wk c i))"] i set_bits_in by auto
  have st: "dp_step c c'" using c'(3) dp_step_trans [of c ?c c'] by (simp add: dp_step_hts)
  have "inboxes c' ! i = w_xfer_inbox (wk c' i)" using dp_stepD(2) [OF st] i by (simp add: inboxes_def wk_def)
  then show ?thesis using c' st by (auto simp: ProcessXfer_def Let_def set_bits_def)
qed

lemma fold_emit [simp]:
  "core (fold (\<lambda>d. dp_emit (f d)) ds c) = core c" "hts (fold (\<lambda>d. dp_emit (f d)) ds c) = hts c"
  "dp_inv env H c \<Longrightarrow> dp_inv env H (fold (\<lambda>d. dp_emit (f d)) ds c)"
  by (induction ds arbitrary: c) simp_all

lemma FlushXferSignals_ends: "dp_inv env H c \<Longrightarrow> dp_ends env H c (Some (FlushXferSignals i c))"
  unfolding FlushXferSignals_def Let_def
  by (rule dp_ends_same) (auto intro!: dp_step_hts fold_emit(3) dp_inv_set_wk dest: dp_invD(8))

lemma SubmitPollMultishot_ends:
  assumes "dp_inv env H c"
  shows "dp_ends env H c (Some (SubmitPollMultishot env i op c))"
proof (cases "GetSqe env i c")
  case (Pair c' ok)
  then show ?thesis using GetSqe_inv(1) [OF Pair assms] GetSqe_hts [OF Pair] core_GetSqe [OF Pair]
    by (auto simp: SubmitPollMultishot_def intro!: dp_ends_same dp_step_hts split: bool.split)
qed

lemma rearm_ends: "dp_inv env H c \<Longrightarrow> dp_ends env H c (Some (rearm env i cqe op c))"
  using SubmitPollMultishot_ends by (auto simp: rearm_def intro: dp_ends_same)

section \<open>Connections\<close>

text \<open>
  A socket that is known belongs to a live peer, which has a receive buffer; with provided
  buffers that holds less than a frame. Receive buffers have their size.
\<close>

definition rb_ok :: "Peer \<Rightarrow> bool" where
  "rb_ok P \<longleftrightarrow> (\<forall>b. p_rbuf P = Some b \<longrightarrow> int (length b) = kReadBufSize)"

definition conn_ok :: "Worker \<Rightarrow> bool" where
  "conn_ok w \<longleftrightarrow> (\<forall>P \<in> set (w_ht w). rb_ok P) \<and> (\<forall>fd p. dp_fd fd \<longrightarrow> w_fd_map w fd = Some p \<longrightarrow>
     p_occupied (w_ht w ! p) = 1 \<and> p_fd (w_ht w ! p) = fd \<and>
     (\<exists>t. in_rbuf (w_ht w ! p) t \<and> (w_use_provided_bufs w \<longrightarrow> partial_frame (w_ht w ! p) t)))"

definition conns_ok :: "Ctx \<Rightarrow> bool" where
  "conns_ok c \<longleftrightarrow> (\<forall>i < length (cx_workers c). conn_ok (wk c i))"

definition dp_good :: "dp_env \<Rightarrow> Ctx \<Rightarrow> bool" where
  "dp_good env c \<longleftrightarrow> dp_inv env {#} c \<and> sends_ok c \<and> conns_ok c"

text \<open>Ending well, with \<open>n\<close> workers as before.\<close>

definition good_ends :: "dp_env \<Rightarrow> nat \<Rightarrow> Ctx ub \<Rightarrow> bool" where
  "good_ends env n r \<longleftrightarrow> (\<exists>c'. r = Some c' \<and> dp_good env c' \<and> length (cx_workers c') = n)"

lemma in_rbuf_peer_core: "peer_core P = peer_core Q \<Longrightarrow> in_rbuf P t = in_rbuf Q t \<and> partial_frame P t = partial_frame Q t"
  using proto_cong(4) [of P Q] by (auto simp: peer_core_def in_rbuf_def)

lemma conn_ok_slot:
  assumes "conn_ok w" "w_fd_map w' = w_fd_map w" "w_use_provided_bufs w' = w_use_provided_bufs w"
    "\<And>fd p. dp_fd fd \<Longrightarrow> w_fd_map w fd = Some p \<Longrightarrow> peer_core (w_ht w' ! p) = peer_core (w_ht w ! p) \<or>
      (p_occupied (w_ht w' ! p) = 1 \<and> p_fd (w_ht w' ! p) = fd \<and>
        (\<exists>t. in_rbuf (w_ht w' ! p) t \<and> (w_use_provided_bufs w \<longrightarrow> partial_frame (w_ht w' ! p) t)))"
    "\<forall>P \<in> set (w_ht w'). rb_ok P"
  shows "conn_ok w'"
  unfolding conn_ok_def
proof (rule conjI [OF assms(5)], intro allI impI)
  fix fd p
  assume fd: "dp_fd fd" "w_fd_map w' fd = Some p"
  let ?ok = "\<lambda>w. p_occupied (w_ht w ! p) = 1 \<and> p_fd (w_ht w ! p) = fd \<and>
     (\<exists>t. in_rbuf (w_ht w ! p) t \<and> (w_use_provided_bufs w \<longrightarrow> partial_frame (w_ht w ! p) t))"
  have "?ok w" using assms(1,2) fd unfolding conn_ok_def by metis
  moreover have "?ok w'" if e: "peer_core (w_ht w' ! p) = peer_core (w_ht w ! p)"
    using \<open>?ok w\<close> in_rbuf_peer_core [OF e] e assms(3) by (auto simp: peer_core_def)
  moreover have "w_fd_map w fd = Some p" using assms(2) fd(2) by simp
  ultimately show "?ok w'" using assms(4) [OF fd(1)] unfolding assms(3) by blast
qed

lemma conn_ok_core:
  assumes "worker_core w' = worker_core w" "conn_ok w" "\<forall>fd. slot_ok (w_fd_map w fd)" "length (w_ht w) = kHtCapacity"
  shows "conn_ok w'"
proof (rule conn_ok_slot [OF assms(2)])
  note D = worker_coreD [OF assms(1)]
  show "w_fd_map w' = w_fd_map w" "w_use_provided_bufs w' = w_use_provided_bufs w" by (rule D)+
  have "rb_ok (w_ht w' ! j)" if "j < length (w_ht w)" for j
    using D(11) [OF that] assms(2) that by (auto simp: conn_ok_def rb_ok_def peer_core_def)
  then show "\<forall>P \<in> set (w_ht w'). rb_ok P" using D(7) by (auto simp: in_set_conv_nth)
qed (use worker_coreD(11) [OF assms(1)] assms(3,4) in \<open>auto simp: slot_ok_def\<close>)

lemma worker_slots:
  assumes "dp_inv env H c" "i < length (cx_workers c)"
  shows "\<forall>fd. slot_ok (w_fd_map (wk c i) fd)" "length (w_ht (wk c i)) = kHtCapacity"
  using dp_invD(7) [OF assms] by (simp_all add: worker_fixed_def)

lemma conns_core:
  assumes "core c' = core c" "conns_ok c" "dp_inv env H c"
  shows "conns_ok c'"
  using assms(2) coreD(1,5) [OF assms(1)] conn_ok_core worker_slots [OF assms(3)]
  by (auto simp: conns_ok_def)

lemma good_from:
  assumes "dp_good env c" "dp_ends env {#} c r"
  shows "good_ends env (length (cx_workers c)) r"
proof -
  obtain c' where c': "r = Some c'" "dp_inv env {#} c'" "dp_step c c'" using assms(2) by (auto simp: dp_ends_def)
  have g: "dp_inv env {#} c" "sends_ok c" "conns_ok c" using assms(1) by (simp_all add: dp_good_def)
  show ?thesis using c' conns_core [OF dp_stepD(1) [OF c'(3)] g(3,1)] dp_stepD(2,3) [OF c'(3)] g(2)
    by (simp add: good_ends_def dp_good_def)
qed

lemma good_bind:
  "good_ends env n r \<Longrightarrow> (\<And>c'. dp_good env c' \<Longrightarrow> length (cx_workers c') = n \<Longrightarrow> good_ends env n (f c')) \<Longrightarrow> good_ends env n (r \<bind> f)"
  by (auto simp: good_ends_def)

lemma good_Some [simp]: "good_ends env n (Some c) \<longleftrightarrow> dp_good env c \<and> length (cx_workers c) = n"
  by (simp add: good_ends_def)

text \<open>A receive leaves only its own peer in another state.\<close>

lemma good_recv:
  assumes good: "dp_good env c" and at: "peer_at c i fd = Some p" and i: "i < length (cx_workers c)"
    and to: "recv_to env {#} i p evs c c1" and t: "in_rbuf (pr c1 i p) t" "w_use_provided_bufs (wk c i) \<Longrightarrow> partial_frame (pr c1 i p) t"
  shows "dp_good env c1"
proof -
  have inv: "dp_inv env {#} c" and conns: "conns_ok c" and s: "sends_ok c" using good by (simp_all add: dp_good_def)
  note p = peer_at_in(1) [OF inv i at]
  obtain b n w s where e: "core c1 = core (rebuf i p b n w s c)" using recv_toD(4) [OF to] by (auto simp: recv_same_def)
  let ?d = "rebuf i p b n w s c"
  let ?P = "(pr c i p)\<lparr>p_rbuf := b, p_rbuf_len := n, p_recv_bytes_window := w, p_window_start_ns := s\<rparr>"
  have d: "wk ?d j = (if j = i then (wk c i)\<lparr>w_ht := (w_ht (wk c i))[p := ?P]\<rparr> else wk c j)" for j
    using i by (simp add: rebuf_def set_pr_def wk_set_wk)
  have len: "length (cx_workers c1) = length (cx_workers c)" using coreD(1) [OF e] by (simp add: rebuf_def set_pr_def)
  have "conn_ok (wk c1 j)" if j: "j < length (cx_workers c)" for j
  proof -
    have wc: "worker_core (wk c1 j) = worker_core (wk ?d j)" using coreD(5) [OF e] j by (simp add: rebuf_def set_pr_def)
    note D = worker_coreD [OF wc]
    have same: "w_fd_map (wk ?d j) = w_fd_map (wk c j)" "w_use_provided_bufs (wk ?d j) = w_use_provided_bufs (wk c j)"
      "length (w_ht (wk ?d j)) = length (w_ht (wk c j))" by (simp_all add: d)
    show ?thesis
    proof (rule conn_ok_slot [where w = "wk c j"])
      show "conn_ok (wk c j)" using conns j by (simp add: conns_ok_def)
      show "w_fd_map (wk c1 j) = w_fd_map (wk c j)" "w_use_provided_bufs (wk c1 j) = w_use_provided_bufs (wk c j)"
        using D same by simp_all
      have "rb_ok (w_ht (wk c1 j) ! q)" if "q < length (w_ht (wk c j))" for q
      proof (cases "j = i \<and> q = p")
        case True
        then show ?thesis using t(1) by (auto simp: rb_ok_def in_rbuf_def pr_def)
      next
        case False
        have "rb_ok (w_ht (wk c j) ! q)" using conns j that by (simp add: conns_ok_def conn_ok_def)
        moreover have "p_rbuf (w_ht (wk c1 j) ! q) = p_rbuf (w_ht (wk ?d j) ! q)" using D(11) [of q] same(3) that by (simp add: peer_core_def)
        ultimately show ?thesis using False by (auto simp: d rb_ok_def)
      qed
      then show "\<forall>P \<in> set (w_ht (wk c1 j)). rb_ok P" using D(7) same(3) by (auto simp: in_set_conv_nth)
      fix fd' q
      assume q: "dp_fd fd'" "w_fd_map (wk c j) fd' = Some q"
      then have ql: "q < length (w_ht (wk c j))" using worker_slots [OF inv j] by (auto simp: slot_ok_def)
      then have pc: "peer_core (w_ht (wk c1 j) ! q) = peer_core (w_ht (wk ?d j) ! q)" using D(11) same(3) by simp
      show "peer_core (w_ht (wk c1 j) ! q) = peer_core (w_ht (wk c j) ! q) \<or>
          (p_occupied (w_ht (wk c1 j) ! q) = 1 \<and> p_fd (w_ht (wk c1 j) ! q) = fd' \<and>
            (\<exists>t. in_rbuf (w_ht (wk c1 j) ! q) t \<and> (w_use_provided_bufs (wk c j) \<longrightarrow> partial_frame (w_ht (wk c1 j) ! q) t)))"
      proof (cases "j = i \<and> q = p")
        case True
        have "p_occupied (pr c i p) = 1 \<and> p_fd (pr c i p) = fd'"
          using conns i q True unfolding conns_ok_def conn_ok_def pr_def by blast
        moreover have "peer_core (pr c1 i p) = peer_core ?P" using pc True ql by (simp add: d pr_def)
        ultimately show ?thesis using t True by (auto simp: pr_def peer_core_def)
      next
        case False
        then show ?thesis using pc by (auto simp: d)
      qed
    qed
  qed
  then show ?thesis using recv_toD [OF to] s good len by (simp add: dp_good_def conns_ok_def)
qed

section \<open>Receive completions\<close>

text \<open>
  What is promised of a receive: the bytes it tells, as many as there was room for, while the
  worker runs.
\<close>

definition recv_expected :: "Ctx \<Rightarrow> nat \<Rightarrow> Cqe \<Rightarrow> bool" where
  "recv_expected c i cqe \<longleftrightarrow> 0 < cqe_res cqe \<longrightarrow>
     w_running (wk c i) \<and> cqe_res cqe = int (length (cqe_data cqe)) \<and>
     (if cqe_buffer cqe then w_use_provided_bufs (wk c i) \<and> cqe_res cqe \<le> kReadBufSize
      else \<forall>p. peer_at c i (UdFd (cqe_user_data cqe)) = Some p \<longrightarrow> p_rbuf_len (pr c i p) + cqe_res cqe \<le> kReadBufSize)"

lemma length_SubmitRecv [simp]: "length (cx_workers (SubmitRecv env i fd c)) = length (cx_workers c)"
  by (rule coreD(1)) simp

lemma length_forget_fd [simp]: "length (cx_workers (forget_fd i fd c)) = length (cx_workers c)"
  by (simp add: forget_fd_def)

lemma length_recv: "recv_same i p c c' \<Longrightarrow> length (cx_workers c') = length (cx_workers c)"
  by (auto simp: recv_same_def rebuf_def set_pr_def dest: coreD(1))

lemma good_inv: "dp_good env c \<Longrightarrow> dp_inv env {#} c"
  by (simp add: dp_good_def)

lemma good_conn:
  assumes "dp_good env c" "i < length (cx_workers c)" "peer_at c i fd = Some p"
  shows "p_occupied (pr c i p) = 1" "p_fd (pr c i p) = fd" "\<exists>t. in_rbuf (pr c i p) t \<and> (w_use_provided_bufs (wk c i) \<longrightarrow> partial_frame (pr c i p) t)"
    "dp_fd fd" "w_fd_map (wk c i) fd = Some p"
proof -
  have "dp_fd fd \<and> w_fd_map (wk c i) fd = Some p" using assms(3) by (auto simp: peer_at_def split: if_splits)
  then show "p_occupied (pr c i p) = 1" "p_fd (pr c i p) = fd" "\<exists>t. in_rbuf (pr c i p) t \<and> (w_use_provided_bufs (wk c i) \<longrightarrow> partial_frame (pr c i p) t)"
    "dp_fd fd" "w_fd_map (wk c i) fd = Some p"
    using assms(1,2) unfolding dp_good_def conns_ok_def conn_ok_def pr_def by blast+
qed

lemma fixed_set_wk:
  assumes "fixed env c" "i < length (cx_workers c)" "worker_fixed (length (cx_workers c)) w"
    "w_frame_pool w = w_frame_pool (wk c i)" "w_frame_pool_end w = w_frame_pool_end (wk c i)"
  shows "fixed env (set_wk i w c)"
proof -
  have "FramePoolOwns w a = FramePoolOwns (wk c i) a" for a using assms(4,5) by (simp add: FramePoolOwns_def)
  then show ?thesis using assms(1,2,3)
    by (auto simp: fixed_def malloc_ok_def set_wk_def wk_def dest!: subsetD [OF set_update_subset_insert])
qed

lemma good_set_wk:
  assumes good: "dp_good env c" and i: "i < length (cx_workers c)" and w: "worker_fixed (length (cx_workers c)) w" "worker_aux w"
    "w_frames w = w_frames (wk c i)" "conn_ok w" "\<forall>P \<in> set (w_ht w). inflight_ok P"
  shows "dp_good env (set_wk i w c)"
proof -
  have "w_frame_pool w = w_frame_pool (wk c i)" "w_frame_pool_end w = w_frame_pool_end (wk c i)" using w(3) by (simp_all add: w_frames_def)
  then have "fixed env (set_wk i w c)" using good i w by (intro fixed_set_wk) (auto simp: dp_good_def dp_inv_def)
  moreover have "aux (set_wk i w c)" using good w(2) by (intro aux_set_wk) (auto simp: dp_good_def dp_inv_def)
  moreover have "sends_ok (set_wk i w c)" using good w(5)
    by (auto simp: dp_good_def sends_ok_def set_wk_def dest!: subsetD [OF set_update_subset_insert])
  moreover have "conns_ok (set_wk i w c)" using good w(4) by (auto simp: dp_good_def conns_ok_def wk_set_wk)
  ultimately show ?thesis using good w(3) by (simp add: dp_good_def dp_inv_def)
qed

lemma worker_good:
  assumes "dp_good env c" "i < length (cx_workers c)"
  shows "worker_fixed (length (cx_workers c)) (wk c i)" "worker_aux (wk c i)" "conn_ok (wk c i)" "\<forall>P \<in> set (w_ht (wk c i)). inflight_ok P"
  using dp_invD(7,8) [OF good_inv [OF assms(1)] assms(2)] assms by (auto simp: dp_good_def conns_ok_def sends_ok_def wk_def)

lemma forget_fd_good:
  assumes "dp_good env c" "i < length (cx_workers c)"
  shows "dp_good env (forget_fd i fd c)"
  unfolding forget_fd_def
  using worker_good [OF assms] by (intro good_set_wk [OF assms]) (auto simp: worker_fixed_def slot_ok_def conn_ok_def w_frames_def w_used_def w_free_def)

lemma close_good:
  assumes "dp_good env c" "i < length (cx_workers c)" "peer_at c i fd = Some p"
  shows "good_ends env (length (cx_workers c)) (do { c \<leftarrow> NotifyPeerClose i p c; Some (forget_fd i fd c) })"
proof -
  note inv = good_inv [OF assms(1)]
  obtain c1 where c1: "NotifyPeerClose i p c = Some c1" "dp_inv env {#} c1" "dp_step c c1"
    using NotifyPeerClose_ends [OF inv peer_at_in(1) [OF inv assms(2,3)]] by (auto simp: dp_ends_def)
  then have "dp_good env c1" using good_from [OF assms(1), of "Some c1"] by (simp add: dp_ends_def)
  then show ?thesis using c1(1) forget_fd_good [of env c1 i fd] dp_stepD(2) [OF c1(3)] assms(2) by simp
qed

lemma SubmitRecv_good: "dp_good env c \<Longrightarrow> dp_good env (SubmitRecv env i fd c)"
  using good_from [of env c "Some (SubmitRecv env i fd c)"] SubmitRecv_inv [OF good_inv] by (simp add: dp_ends_same dp_step_hts)

lemma HandleRecvProvided_good:
  assumes good: "dp_good env c" and i: "i < length (cx_workers c)" and e: "recv_expected c i cqe" "cqe_buffer cqe"
  shows "good_ends env (length (cx_workers c)) (HandleRecvProvided env i cqe ms c)"
proof (cases "peer_at c i (UdFd (cqe_user_data cqe))")
  case None
  then show ?thesis using good by (simp add: HandleRecvProvided_def)
next
  case (Some p)
  let ?fd = "UdFd (cqe_user_data cqe)"
  note inv = good_inv [OF good] and conn = good_conn [OF good i Some]
  show ?thesis
  proof (cases "0 < cqe_res cqe")
    case False
    have "good_ends env (length (cx_workers c)) (recv_provided env i ?fd p cqe c)"
      using False close_good [OF good i Some] good by (auto simp: recv_provided_def)
    then show ?thesis using Some SubmitRecv_good by (auto simp: HandleRecvProvided_def good_ends_def Let_def)
  next
    case True
    have x: "w_running (wk c i)" "cqe_res cqe = int (length (cqe_data cqe))" "cqe_data cqe \<noteq> []" "cqe_res cqe \<le> kReadBufSize"
      "w_use_provided_bufs (wk c i)" using e True by (auto simp: recv_expected_def)
    then obtain t where t: "in_rbuf (pr c i p) t" "partial_frame (pr c i p) t" using conn(3) by blast
    obtain fs r bad where cut: "cut_frames (pr c i p) (t @ cqe_data cqe) = (fs, r, bad)" by (metis prod_cases3)
    have "\<exists>evs c1 u. recv_to env {#} i p evs c c1 \<and> in_rbuf (pr c1 i p) u \<and> partial_frame (pr c i p) u \<and>
      HandleRecvProvided env i cqe ms c = Some (if ms then c1 else SubmitRecv env i ?fd c1)"
    proof (cases "over_rate env i p cqe c")
      case over: True
      show ?thesis using rate_limit_drops [OF inv i Some True t(1) over, of ms] t(2) by blast
    next
      case False
      have "partial_frame (pr c i p) (if bad then [] else r)" using cut_rest(2) [OF cut] by (auto simp: partial_frame_def FrameHdrSize_def)
      then show ?thesis using provided_spec [OF inv i Some x(1-4) t cut False, of ms] by blast
    qed
    then obtain evs c1 u where c1: "recv_to env {#} i p evs c c1" "in_rbuf (pr c1 i p) u" "partial_frame (pr c i p) u"
      "HandleRecvProvided env i cqe ms c = Some (if ms then c1 else SubmitRecv env i ?fd c1)" by blast
    have "partial_frame (pr c1 i p) u"
      using c1(3) proto_cong(4) [OF recv_same_at(3) [OF recv_toD(4) [OF c1(1)] peer_at_in(1) [OF inv i Some] inv]] by simp
    then have "dp_good env c1" using good_recv [OF good Some i c1(1,2)] by simp
    then show ?thesis using c1(4) SubmitRecv_good length_recv [OF recv_toD(4) [OF c1(1)]] by simp
  qed
qed

lemma HandleRecvSingle_good:
  assumes good: "dp_good env c" and i: "i < length (cx_workers c)" and e: "recv_expected c i cqe" "\<not> cqe_buffer cqe"
    "\<not> w_use_provided_bufs (wk c i)"
  shows "good_ends env (length (cx_workers c)) (HandleRecvSingle env i cqe c)"
proof (cases "peer_at c i (UdFd (cqe_user_data cqe))")
  case None
  then show ?thesis using good by (simp add: HandleRecvSingle_def)
next
  case (Some p)
  note inv = good_inv [OF good] and conn = good_conn [OF good i Some]
  show ?thesis
  proof (cases "0 < cqe_res cqe")
    case False
    then show ?thesis using Some close_good [OF good i Some] good by (auto simp: HandleRecvSingle_def)
  next
    case True
    have x: "w_running (wk c i)" "cqe_res cqe = int (length (cqe_data cqe))" "cqe_data cqe \<noteq> []"
      "p_rbuf_len (pr c i p) + cqe_res cqe \<le> kReadBufSize" using e True Some by (auto simp: recv_expected_def)
    obtain t where t: "in_rbuf (pr c i p) t" using conn(3) by blast
    then have t2: "int (length t) + cqe_res cqe \<le> kReadBufSize" using x(4) by (auto simp: in_rbuf_def)
    obtain fs r bad where cut: "cut_frames (pr c i p) (t @ cqe_data cqe) = (fs, r, bad)" by (metis prod_cases3)
    obtain c1 where c1: "recv_to env {#} i p (map Frame fs @ (if bad then [Closed] else [])) c c1" "in_rbuf (pr c1 i p) r"
      "HandleRecvSingle env i cqe c = Some (if \<not> bad \<and> p_occupied (pr c i p) = 1 then SubmitRecv env i (UdFd (cqe_user_data cqe)) c1 else c1)"
      using single_spec [OF inv i Some x(1-3) t t2 cut] by blast
    have "dp_good env c1" using good_recv [OF good Some i c1(1,2)] e(3) by simp
    then show ?thesis using c1(3) SubmitRecv_good length_recv [OF recv_toD(4) [OF c1(1)]] by simp
  qed
qed

lemma HandleRecvCqe_good:
  assumes good: "dp_good env c" and i: "i < length (cx_workers c)" and e: "recv_expected c i cqe"
  shows "good_ends env (length (cx_workers c)) (HandleRecvCqe env i cqe c)"
proof -
  define d where "d = (if cqe_more cqe then c else
     set_wk i ((wk c i)\<lparr>w_recv_inflight := (if w_recv_inflight (wk c i) - 1 < 0 then 0 else w_recv_inflight (wk c i) - 1)\<rparr>) c)"
  have stays: "dp_good env (set_wk i w c)" if "w_frames w = w_frames (wk c i)" "worker_core w = worker_core (wk c i)" "worker_aux w"
    "w_ht w = w_ht (wk c i)" "dp_good env c" for w c
    using good_from [OF that(5), of "Some (set_wk i w c)"] that dp_inv_set_wk [OF good_inv [OF that(5)]]
    by (simp add: dp_ends_same dp_step_hts)
  have d: "dp_good env d" "i < length (cx_workers d)" "peer_at d i = peer_at c i" "w_running (wk d i) = w_running (wk c i)" "pr d = pr c"
    "w_use_provided_bufs (wk d i) = w_use_provided_bufs (wk c i)"
    using i good worker_good(2) [OF good i]
    by (auto simp: d_def peer_at_def fun_eq_iff intro!: stays)
  have dl: "length (cx_workers d) = length (cx_workers c)" by (simp add: d_def)
  have x: "recv_expected d i cqe" using e unfolding recv_expected_def d(3-6) .
  let ?fd = "UdFd (cqe_user_data cqe)"
  have multi: "dp_good env (set_wk i ((wk c i)\<lparr>w_use_multishot_recv := False\<rparr>) c)" if "dp_good env c" "i < length (cx_workers c)" for c
    using that worker_good(2) [OF that] by (intro stays) (auto simp: w_frames_def w_used_def w_free_def worker_aux_def)
  have st: "dp_good env (stat i f d)" for f using d(1) good_from [OF d(1), of "Some (stat i f d)"] good_inv [OF d(1)]
    by (simp add: dp_ends_same dp_step_hts)
  show ?thesis
  proof (cases "cqe_buffer cqe \<or> \<not> w_use_provided_bufs (wk d i)")
    case True
    then show ?thesis using HandleRecvProvided_good [OF d(1,2) x] HandleRecvSingle_good [OF d(1,2) x] dl unfolding HandleRecvCqe_def Let_def d_def [symmetric]
      by auto
  next
    case False
    then show ?thesis unfolding HandleRecvCqe_def Let_def d_def [symmetric]
      using close_good [OF d(1,2)] d(1,2) st SubmitRecv_good multi dl
      by (auto split: option.split)
  qed
qed

end
