(* ===== verification/Dp_Commands.thy ===== *)
theory Dp_Commands
  imports Dp_Rounds
begin

text \<open>
  Commands of the control plane: adding, removing and writing to peers keeps the invariant.
\<close>

section \<open>Removing a peer\<close>

text \<open>Freeing frames and items does not look at the table of peers.\<close>

definition set_ht :: "nat \<Rightarrow> Peer list \<Rightarrow> Ctx \<Rightarrow> Ctx" where
  "set_ht i ht c = set_wk i ((wk c i)\<lparr>w_ht := ht\<rparr>) c"

lemma set_ht_wk: "wk (set_ht i ht c) j = (if j = i \<and> i < length (cx_workers c) then (wk c i)\<lparr>w_ht := ht\<rparr> else wk c j)"
  by (simp add: set_ht_def wk_set_wk)

lemma set_ht_fields [simp]: "cx_mem (set_ht i ht c) = cx_mem c" "set_ht i ht c\<lparr>cx_mem := m\<rparr> = set_ht i ht (c\<lparr>cx_mem := m\<rparr>)"
  "length (cx_workers (set_ht i ht c)) = length (cx_workers c)"
  by (simp_all add: set_ht_def set_wk_def)

lemma set_ht_set_wk:
  assumes "\<And>w. g (w\<lparr>w_ht := ht\<rparr>) = (g w)\<lparr>w_ht := ht\<rparr>"
  shows "set_wk k (g (wk (set_ht i ht c) k)) (set_ht i ht c) = set_ht i ht (set_wk k (g (wk c k)) c)"
  using assms by (cases "i < length (cx_workers c)"; cases "k < length (cx_workers c)"; cases "k = i")
    (simp_all add: set_ht_def set_wk_def wk_def list_update_beyond list_update_swap)

lemma FramePoolOwns_set_ht [simp]: "FramePoolOwns (wk (set_ht i ht c) j) a = FramePoolOwns (wk c j) a"
  by (simp add: set_ht_wk FramePoolOwns_def)

lemma FramePoolOwnerId_set_ht [simp]: "FramePoolOwnerId (set_ht i ht c) j a = FramePoolOwnerId c j a"
  by (simp add: FramePoolOwnerId_def)

lemma FrameFree_set_ht: "FrameFree j a (set_ht i ht c) = map_option (set_ht i ht) (FrameFree j a c)"
proof -
  have own: "set_wk j ((wk (set_ht i ht d) j)\<lparr>w_frame_pool_free := a # w_frame_pool_free (wk (set_ht i ht d) j)\<rparr>) (set_ht i ht d) =
      set_ht i ht (set_wk j ((wk d j)\<lparr>w_frame_pool_free := a # w_frame_pool_free (wk d j)\<rparr>) d)" for d
    by (rule set_ht_set_wk [where g = "\<lambda>w. w\<lparr>w_frame_pool_free := a # w_frame_pool_free w\<rparr>"]) simp
  have push: "FrameReturnPush k j a (set_ht i ht d) = set_ht i ht (FrameReturnPush k j a d)" for k d
    unfolding FrameReturnPush_def Let_def
    by (rule set_ht_set_wk [where g = "\<lambda>w. w\<lparr>w_frame_return_inbox := (w_frame_return_inbox w)[j := a # w_frame_return_inbox w ! j]\<rparr>"]) simp
  show ?thesis by (simp add: FrameFree_def Let_def own push split: option.split)
qed

lemma free_items_set_ht: "free_items j xs (set_ht i ht c) = map_option (set_ht i ht) (free_items j xs c)"
proof (induction xs arbitrary: c)
  case (Cons x xs)
  have "SlabFreeItem j x (set_ht i ht d) = set_ht i ht (SlabFreeItem j x d)" for d
    using set_ht_set_wk [where g = "\<lambda>w. w\<lparr>w_slab_free := w_slab_free w + 1\<rparr>", of ht j i d] by (simp add: SlabFreeItem_def)
  then have "free_item j x (set_ht i ht c) = map_option (set_ht i ht) (free_item j x c)"
    by (cases "FrameFree j (si_data x) c") (simp_all add: free_item_def FrameFree_set_ht)
  then show ?case by (cases "free_item j x c") (simp_all add: Cons.IH)
qed simp

lemma pressure_ht: "w\<lparr>w_send_pressure := s, w_ht := h\<rparr> = w\<lparr>w_ht := h, w_send_pressure := s\<rparr>" for w :: Worker
  by (cases w) simp

lemma hts_free_items: "free_items i xs c = Some c' \<Longrightarrow> hts c' = hts c"
  by (induction xs arbitrary: c) (auto split: bind_splits dest: hts_free_item)

lemma w_ht_hts: "hts c' = hts c \<Longrightarrow> i < length (cx_workers c) \<Longrightarrow> w_ht (wk c' i) = w_ht (wk c i)"
  by (metis hts_def length_map nth_map wk_def)

definition gone :: "Peer \<Rightarrow> Peer" where
  "gone P = P\<lparr>p_queue := [], p_send_next := None, p_send_inflight := 0, p_send_queued := 0,
     p_send_pending := False, p_rbuf := None, p_rbuf_len := 0, p_occupied := 2\<rparr>"

lemma gone_ok:
  "p_fd (gone P) = p_fd P" "p_key (gone P) = p_key P" "p_fwd_count (gone P) = p_fwd_count P" "fwd_ok (gone P) = fwd_ok P"
  "queue_ok (gone P)" "inflight_ok (gone P)" "p_queue (gone P) = []" "rb_ok (gone P)"
  by (simp_all add: gone_def rb_ok_def fwd_ok_def queue_ok_def inflight_ok_def)

text \<open>Replacing the peer in a slot that no socket refers to.\<close>

lemma conn_ok_other:
  assumes "conn_ok w" "\<forall>fd. dp_fd fd \<longrightarrow> w_fd_map w fd \<noteq> Some p" "w_fd_map w' = w_fd_map w"
    "w_use_provided_bufs w' = w_use_provided_bufs w" "w_ht w' = (w_ht w)[p := P]" "rb_ok P"
  shows "conn_ok w'"
proof (rule conn_ok_slot [OF assms(1,3,4)])
  show "\<forall>P \<in> set (w_ht w'). rb_ok P"
    using assms(1,5,6) by (auto simp: conn_ok_def dest!: subsetD [OF set_update_subset_insert])
qed (use assms(2,5) in \<open>auto simp: nth_list_update\<close>)

lemma worker_fixed_ht:
  assumes "worker_fixed n w" "dp_fd (p_fd P)" "is_Key (p_key P)" "p_fwd_count P \<le> int kMaxPeerRules"
  shows "worker_fixed n (w\<lparr>w_ht := (w_ht w)[p := P]\<rparr>)"
  using assms by (auto simp: worker_fixed_def dest!: subsetD [OF set_update_subset_insert])

lemma remove_queue:
  assumes good: "dp_good env c" and p: "peer_in c i p" and free: "\<forall>fd. dp_fd fd \<longrightarrow> w_fd_map (wk c i) fd \<noteq> Some p"
    and q: "mset xs + mset ys = mset (p_queue (pr c i p))"
  shows "\<exists>g. dp_inv env (mset (map item_frame ys)) g \<and> sends_ok g \<and> conns_ok g \<and>
    g = set_ht i ((w_ht (wk c i))[p := gone (pr c i p)]) (set_wk i ((wk c i)\<lparr>w_notif_map := (w_notif_map (wk c i))
      (p_fd (pr c i p) := xs @ w_notif_map (wk c i) (p_fd (pr c i p)))\<rparr>) c)"
proof -
  note inv = good_inv [OF good]
  note b = peer_inD [OF inv p]
  let ?P = "pr c i p" and ?w = "wk c i"
  let ?m = "(w_notif_map ?w)(p_fd ?P := xs @ w_notif_map ?w (p_fd ?P))"
  let ?v = "?w\<lparr>w_notif_map := ?m, w_ht := (w_ht ?w)[p := gone ?P]\<rparr>"
  define g where "g = set_wk i ?v c"
  have g: "g = set_ht i ((w_ht ?w)[p := gone ?P]) (set_wk i (?w\<lparr>w_notif_map := ?m\<rparr>) c)"
    using b(1) by (simp add: g_def set_ht_def)
  have used: "w_used ?v + mset (map item_frame ys) = w_used ?w + {#}"
  proof -
    have "queued ((w_ht ?w)[p := gone ?P]) + mset (map item_frame (p_queue ?P)) = queued (w_ht ?w)"
      using queued_update [OF b(2), of "gone ?P"] by (simp add: gone_ok pr_def)
    moreover have "noticed ?m = noticed (w_notif_map ?w) + mset (map item_frame xs)"
      using noticed_update [OF b(5), of "w_notif_map ?w" "xs @ w_notif_map ?w (p_fd ?P)"] by (simp add: ac_simps)
    moreover have "mset (map item_frame (p_queue ?P)) = mset (map item_frame xs) + mset (map item_frame ys)"
      using arg_cong [OF q, of "image_mset item_frame"] by simp
    ultimately show ?thesis by (simp add: w_used_def ac_simps)
  qed
  then have "frames_ok (mset (map item_frame ys)) g"
    unfolding g_def by (rule frames_ok_move [OF dp_invD(3) [OF inv] b(1)]) (simp_all add: w_free_def)
  moreover have "fixed env g" unfolding g_def
  proof (rule fixed_set_wk [OF dp_invD(1) [OF inv] b(1)])
    have "worker_fixed (length (cx_workers c)) (?w\<lparr>w_notif_map := ?m\<rparr>)" using dp_invD(7) [OF inv b(1)] by (simp add: worker_fixed_def)
    from worker_fixed_ht [OF this, of "gone ?P" p] show "worker_fixed (length (cx_workers c)) ?v" using b by (simp add: gone_ok)
  qed simp_all
  moreover have "aux g" unfolding g_def using worker_aux_ht [of "?w\<lparr>w_notif_map := ?m\<rparr>" "gone ?P" p] dp_invD(8) [OF inv b(1)] b(4)
    by (intro aux_set_wk dp_invD(2) [OF inv]) (simp add: gone_ok)
  moreover have "sends_ok g" using good gone_ok(6) [of ?P] worker_good(4) [OF good b(1)] unfolding g_def
    by (auto simp: dp_good_def sends_ok_def set_wk_def dest!: subsetD [OF set_update_subset_insert])
  moreover have "conns_ok g" unfolding g_def conns_ok_def
    using good conn_ok_other [OF worker_good(3) [OF good b(1)] free, of ?v "gone ?P"] gone_ok(8) by (auto simp: wk_set_wk dp_good_def conns_ok_def)
  ultimately show ?thesis using g by (auto simp: dp_inv_def)
qed

lemma HtRemove_good:
  assumes good: "dp_good env c" and i: "i < length (cx_workers c)"
    and free: "\<And>p fd. HtLookup (wk c i) key = Some p \<Longrightarrow> dp_fd fd \<Longrightarrow> w_fd_map (wk c i) fd \<noteq> Some p"
  shows "good_ends env (length (cx_workers c)) (HtRemove env i key c)"
proof (cases "HtLookup (wk c i) key")
  case None
  then show ?thesis using good by (simp add: HtRemove_def)
next
  case (Some p)
  have p: "peer_in c i p" using HtLookup_in [OF Some] i by (simp add: peer_in_def)
  note inv = good_inv [OF good]
  note b = peer_inD [OF inv p]
  let ?P = "pr c i p" and ?w = "wk c i"
  let ?n = "nat (p_send_inflight ?P)"
  define c1 where "c1 = set_wk i (?w\<lparr>w_notif_map := (w_notif_map ?w)(p_fd ?P := rev (take ?n (p_queue ?P)) @ w_notif_map ?w (p_fd ?P))\<rparr>) c"
  let ?ht = "(w_ht ?w)[p := gone ?P]"
  have "mset (rev (take ?n (p_queue ?P))) + mset (drop ?n (p_queue ?P)) = mset (p_queue ?P)"
    by (metis append_take_drop_id mset_append mset_rev)
  from remove_queue [OF good p _ this] free [OF Some]
  have g1: "dp_inv env (mset (map item_frame (drop ?n (p_queue ?P)))) (set_ht i ?ht c1)" "sends_ok (set_ht i ?ht c1)" "conns_ok (set_ht i ?ht c1)"
    by (auto simp: c1_def)
  obtain g2 where g2: "free_items i (drop ?n (p_queue ?P)) (set_ht i ?ht c1) = Some g2" "dp_inv env {#} g2" "dp_step (set_ht i ?ht c1) g2"
    using free_items_ends [of env "drop ?n (p_queue ?P)" "{#}" "set_ht i ?ht c1" i] g1(1) i by (auto simp: dp_ends_def c1_def)
  then obtain c2 where c2: "free_items i (drop ?n (p_queue ?P)) c1 = Some c2" "g2 = set_ht i ?ht c2" by (auto simp: free_items_set_ht)
  have good2: "dp_good env g2"
    using g1 g2 conns_core [OF dp_stepD(1) [OF g2(3)] g1(3,1)] dp_stepD(3) [OF g2(3)] by (simp add: dp_good_def)
  have h1: "hts c2 = hts c" using hts_free_items [OF c2(1)] by (simp add: c1_def)
  have h: "hts c2 = hts c" "length (cx_workers c2) = length (cx_workers c)" using h1 map_eq_imp_length_eq [OF h1 [unfolded hts_def]] by simp_all
  have ht2: "w_ht (wk c2 i) = w_ht ?w" by (rule w_ht_hts [OF h(1) i])
  have c3: "set_pr i p (gone (pr (set_wk i ((wk c2 i)\<lparr>w_send_pressure := s\<rparr>) c2) i p)) (set_wk i ((wk c2 i)\<lparr>w_send_pressure := s\<rparr>) c2) =
      set_wk i ((wk g2 i)\<lparr>w_send_pressure := s\<rparr>) g2" for s
    using i h(2) ht2 by (simp add: set_pr_def pr_def wk_set_wk c2(2) set_ht_def pressure_ht)
  have stays: "dp_good env (set_wk i w d)" if "dp_good env d" "i < length (cx_workers d)" "\<exists>s n. w = (wk d i)\<lparr>w_send_pressure := s, w_peer_count := n\<rparr>" for w d
  proof -
    from that(3) obtain s n where w: "w = (wk d i)\<lparr>w_send_pressure := s, w_peer_count := n\<rparr>" by blast
    show ?thesis unfolding w using worker_good [OF that(1,2)]
      by (intro good_set_wk [OF that(1,2)]) (simp_all add: worker_fixed_def conn_ok_def worker_aux_def w_frames_def w_used_def w_free_def)
  qed
  define s where "s = (if w_send_pressure (wk c2 i) - p_send_queued ?P < 0 then 0 else w_send_pressure (wk c2 i) - p_send_queued ?P)"
  define c4 where "c4 = set_wk i ((wk g2 i)\<lparr>w_send_pressure := s\<rparr>) g2"
  define k where "k = (if w_peer_count (wk c4 i) > 0 then w_peer_count (wk c4 i) - 1 else w_peer_count (wk c4 i))"
  define c5 where "c5 = set_wk i ((wk c4 i)\<lparr>w_peer_count := k\<rparr>) c4"
  have l2: "i < length (cx_workers g2)" "i < length (cx_workers c4)" using i h(2) by (simp_all add: c2(2) c4_def)
  have l5: "length (cx_workers c4) = length (cx_workers c)" "length (cx_workers c5) = length (cx_workers c)"
    using h(2) by (simp_all add: c2(2) c4_def c5_def)
  have "(wk g2 i)\<lparr>w_send_pressure := s\<rparr> = (wk g2 i)\<lparr>w_send_pressure := s, w_peer_count := w_peer_count (wk g2 i)\<rparr>" by simp
  then have good4: "dp_good env c4" unfolding c4_def by (intro stays [OF good2 l2(1)]) blast
  have "(wk c4 i)\<lparr>w_peer_count := k\<rparr> = (wk c4 i)\<lparr>w_send_pressure := w_send_pressure (wk c4 i), w_peer_count := k\<rparr>" by simp
  then have good5: "dp_good env c5" unfolding c5_def by (intro stays [OF good4 l2(2)]) blast
  have good6: "dp_good env (set_wk i ((wk c5 i)\<lparr>w_recv_paused := False\<rparr>) c5)"
    using good_from [OF good5, of "Some (set_wk i ((wk c5 i)\<lparr>w_recv_paused := False\<rparr>) c5)"] l2 good5
      dp_inv_set_wk [OF good_inv [OF good5], of "(wk c5 i)\<lparr>w_recv_paused := False\<rparr>" i] dp_invD(8) [OF good_inv [OF good5]]
    by (auto simp: dp_ends_same dp_step_hts)
  have drain: "good_ends env (length (cx_workers c)) (DrainDeferredRecvs env i (set_wk i ((wk c5 i)\<lparr>w_recv_paused := False\<rparr>) c5))"
    using good_from [OF good6 DrainDeferredRecvs_ends [OF good_inv [OF good6], of i]] l2(2) l5 by (simp add: c5_def)
  have "HtRemove env i key c = (if w_recv_paused (wk c5 i) \<and> w_recv_pause_countdown (wk c5 i) \<le> 0 \<and>
        w_send_pressure (wk c5 i) \<le> SendPressureLow (w_peer_count (wk c5 i))
      then DrainDeferredRecvs env i (set_wk i ((wk c5 i)\<lparr>w_recv_paused := False\<rparr>) c5) else Some c5)"
    (is "_ = ?r")
  proof -
    have w5: "wk c5 i = (wk c4 i)\<lparr>w_peer_count := k\<rparr>" using l2(2) by (simp add: c5_def)
    have ok: "\<not> (take ?n (p_queue ?P) \<noteq> [] \<and> \<not> dp_fd (p_fd ?P))" using b(5) by simp
    show ?thesis
      unfolding HtRemove_def Some option.case Let_def if_not_P [OF ok] c1_def [symmetric] c2(1) bind.bind_lunit s_def [symmetric]
        gone_def [symmetric] c3 c4_def [symmetric] k_def [symmetric] w5 [symmetric]
      unfolding w5 c5_def [symmetric] by simp
  qed
  then show ?thesis using drain good5 l5(2) by simp
qed

section \<open>Adding a peer\<close>

lemma probe_again:
  assumes "probe_loop E T K es k idxs tomb = Some p" "tomb \<noteq> Some p" "\<not> E e" "\<not> T e" "K e = k" "p < length es"
  shows "probe_loop E T K (es[p := e]) k idxs tomb' = Some p"
  using assms
proof (induction idxs arbitrary: tomb tomb')
  case (Cons idx idxs)
  show ?case
  proof (cases "idx = p")
    case True
    then show ?thesis using Cons.prems(3-6) by simp
  next
    case False
    then have e: "es[p := e] ! idx = es ! idx" by simp
    show ?thesis using Cons.prems False Cons.IH [of "Some idx"] Cons.IH [of tomb] by (auto simp: e split: if_splits option.splits)
  qed
qed simp

lemma probe_slot:
  assumes "probe_loop E T K es k idxs tomb = Some p"
  shows "tomb = Some p \<or> p \<in> set idxs \<and> (E (es ! p) \<or> T (es ! p) \<or> K (es ! p) = k)"
  using assms by (induction idxs arbitrary: tomb) (fastforce split: if_splits option.splits)+

lemma HtFind_slot:
  assumes "HtFind w key = Some p" "HtLookup w key = None"
  shows "p < kHtCapacity" "p_occupied (w_ht w ! p) \<noteq> 1"
proof -
  have "p \<in> set (probe_seq key) \<and> (p_occupied (w_ht w ! p) = 0 \<or> p_occupied (w_ht w ! p) = 2 \<or> p_key (w_ht w ! p) = key)"
    using probe_slot [OF assms(1) [unfolded HtFind_def]] by simp
  then show "p < kHtCapacity" "p_occupied (w_ht w ! p) \<noteq> 1" using probe_seq_covers [of key] assms by (auto simp: HtLookup_def)
qed

lemma HtLookup_inserted:
  assumes "HtFind w key = Some p" "p < length (w_ht w)" "p_occupied P = 1" "p_key P = key"
  shows "HtLookup (w\<lparr>w_ht := (w_ht w)[p := P]\<rparr>) key = Some p"
  using probe_again [OF assms(1) [unfolded HtFind_def], of P None] assms by (simp add: HtLookup_def HtFind_def)

text \<open>What a slot holds after a peer was put into it.\<close>

definition fresh :: "int \<Rightarrow> Key \<Rightarrow> bytes \<Rightarrow> Peer \<Rightarrow> Peer" where
  "fresh fd key b P = P\<lparr>p_rbuf := Some b, p_fd := fd, p_key := key, p_rbuf_len := 0, p_occupied := 1,
     p_queue := [], p_send_next := None, p_send_inflight := 0, p_send_queued := 0, p_no_zc := False,
     p_zc_draining := False, p_poll_write_pending := False, p_send_pending := False, p_peer_id := 0,
     p_fwd_count := 0, p_fwd1_dst_fd := -1, p_fwd1_dst_worker := -1, p_fwd1_peer := None,
     p_fwd := map (\<lambda>f. f\<lparr>fr_peer := None, fr_dst_worker := -1, fr_dst_fd := -1\<rparr>) (p_fwd P),
     p_recv_bytes_window := 0, p_window_start_ns := 0\<rparr>"

lemma fresh_ok:
  assumes "fwd_ok P"
  shows "p_fd (fresh fd key b P) = fd" "p_key (fresh fd key b P) = key" "p_fwd_count (fresh fd key b P) = 0" "p_occupied (fresh fd key b P) = 1"
    "queue_ok (fresh fd key b P)" "inflight_ok (fresh fd key b P)" "fwd_ok (fresh fd key b P)" "p_queue (fresh fd key b P) = []"
    "p_rbuf (fresh fd key b P) = Some b" "p_rbuf_len (fresh fd key b P) = 0"
  using assms by (auto simp: fresh_def fwd_ok_def queue_ok_def inflight_ok_def slot_ok_def remote_ok_def)

lemma good_mallocs: "dp_good env c \<Longrightarrow> dp_good env (c\<lparr>cx_mallocs := n\<rparr>)"
  by (simp add: dp_good_def dp_inv_def fixed_def malloc_ok_def aux_def sends_ok_def conns_ok_def)

lemma frames_ok_less:
  assumes ok: "frames_ok H c" and i: "i < length (cx_workers c)" and u: "w_used w \<subseteq># w_used (wk c i)" and f: "w_free w = w_free (wk c i)"
    and own: "\<And>a. FramePoolOwns w a = FramePoolOwns (wk c i) a"
  shows "frames_ok H (set_wk i w c)"
proof -
  obtain D where D: "w_used (wk c i) = w_used w + D" using u by (auto simp: mset_subset_eq_exists_conv)
  have "frames_ok (H + D) (set_wk i w c)"
    by (rule frames_ok_move [OF ok i _ f own]) (simp add: D ac_simps)
  moreover have "count (image_mset fst (u + H) + f) a \<le> count (image_mset fst (u + (H + D)) + f) a" for u f a by simp
  ultimately show ?thesis unfolding frames_ok_def by (meson order_trans set_mset_mono subset_iff mset_subset_eq_add_left subset_mset.add_left_mono)
qed

lemma conn_slot_free: "conn_ok w \<Longrightarrow> p_occupied (w_ht w ! p) \<noteq> 1 \<Longrightarrow> \<forall>fd. dp_fd fd \<longrightarrow> w_fd_map w fd \<noteq> Some p"
  by (auto simp: conn_ok_def)

lemma insert_good:
  assumes good: "dp_good env c" and p: "peer_in c i p" and nocc: "p_occupied (pr c i p) \<noteq> 1"
    and key: "is_Key key" and fd: "dp_fd fd" and b: "int (length b) = kReadBufSize"
  shows "dp_good env (set_pr i p (fresh fd key b (pr c i p)) c)"
proof -
  note inv = good_inv [OF good]
  note B = peer_inD [OF inv p] and W = worker_good [OF good peer_inD(1) [OF inv p]]
  let ?P = "fresh fd key b (pr c i p)" and ?w = "wk c i"
  let ?v = "?w\<lparr>w_ht := (w_ht ?w)[p := ?P]\<rparr>"
  note F = fresh_ok [OF B(4), of fd key b]
  have "queued ((w_ht ?w)[p := ?P]) \<subseteq># queued (w_ht ?w)"
    using queued_update [OF B(2), of ?P] F(8) by (simp add: mset_subset_eq_exists_conv) metis
  then have "frames_ok {#} (set_wk i ?v c)"
    by (intro frames_ok_less [OF dp_invD(3) [OF inv] B(1)]) (simp_all add: w_used_def w_free_def)
  moreover have "fixed env (set_wk i ?v c)"
    by (rule fixed_set_wk [OF dp_invD(1) [OF inv] B(1) worker_fixed_ht [OF W(1)]]) (use fd key F in simp_all)
  moreover have "aux (set_wk i ?v c)" by (rule aux_set_wk [OF dp_invD(2) [OF inv] worker_aux_ht [OF W(2) F(5,7)]])
  moreover have "sends_ok (set_wk i ?v c)" using good W(4) F(6)
    by (auto simp: dp_good_def sends_ok_def set_wk_def dest!: subsetD [OF set_update_subset_insert])
  moreover have "conn_ok ?v"
    using F(9) b by (intro conn_ok_other [OF W(3) conn_slot_free [OF W(3)], of p _ ?P]) (use nocc in \<open>simp_all add: rb_ok_def pr_def\<close>)
  then have "conns_ok (set_wk i ?v c)" using good by (auto simp: dp_good_def conns_ok_def wk_set_wk)
  ultimately show ?thesis by (simp add: dp_good_def dp_inv_def set_pr_def)
qed

text \<open>Inserting a key that is not there: the table is full, memory is out, or the peer is found under its key.\<close>

lemma HtInsert_good:
  assumes good: "dp_good env c" and i: "i < length (cx_workers c)" and new: "HtLookup (wk c i) key = None"
    and key: "is_Key key" and fd: "dp_fd fd"
  shows "\<exists>c'. fst (HtInsert env i fd key c) = c' \<and> dp_good env c' \<and> length (cx_workers c') = length (cx_workers c) \<and>
    (HtLookup (wk c' i) key = None \<or>
     (\<exists>p b P. HtLookup (wk c' i) key = Some p \<and> p < kHtCapacity \<and> pr c' i p = fresh fd key b P \<and> int (length b) = kReadBufSize \<and>
        (\<forall>fd. dp_fd fd \<longrightarrow> w_fd_map (wk c' i) fd \<noteq> Some p)))"
proof (cases "HtFind (wk c i) key")
  case None
  then show ?thesis using good new by (simp add: HtInsert_def)
next
  case (Some p)
  note inv = good_inv [OF good] and sl = HtFind_slot [OF Some new]
  have p: "peer_in c i p" using i sl by (simp add: peer_in_def)
  note B = peer_inD [OF inv p]
  have done_with: "\<exists>p' b P. HtLookup (wk e i) key = Some p' \<and> p' < kHtCapacity \<and> pr e i p' = fresh fd key b P \<and>
      int (length b) = kReadBufSize \<and> (\<forall>fd. dp_fd fd \<longrightarrow> w_fd_map (wk e i) fd \<noteq> Some p')" "dp_good env e"
    if c: "e = set_pr i p (fresh fd key b (pr c i p)) d" "d = c \<or> (\<exists>n. d = c\<lparr>cx_mallocs := n\<rparr>)" and b: "int (length b) = kReadBufSize" for b d e
  proof -
    have d: "dp_good env d" "wk d = wk c" "pr d = pr c" "length (cx_workers d) = length (cx_workers c)"
      using c(2) good good_mallocs by (auto simp: fun_eq_iff)
    have p': "peer_in d i p" "p_occupied (pr d i p) \<noteq> 1" using p d sl(2) by (simp_all add: peer_in_def pr_def)
    show "dp_good env e" unfolding c(1) using insert_good [OF d(1) p' key fd b] d(3) by simp
    have w: "wk e i = (wk c i)\<lparr>w_ht := (w_ht (wk c i))[p := fresh fd key b (pr c i p)]\<rparr>"
      using B(1) d(2,4) by (simp add: c(1) set_pr_def)
    have "HtLookup (wk e i) key = Some p" unfolding w
      by (rule HtLookup_inserted [OF Some B(2)]) (simp_all add: fresh_ok [OF B(4)])
    moreover have "pr e i p = fresh fd key b (pr c i p)" using B(2) by (simp add: pr_def w)
    moreover have "\<forall>fd. dp_fd fd \<longrightarrow> w_fd_map (wk e i) fd \<noteq> Some p"
      using conn_slot_free [OF worker_good(3) [OF good i]] sl(2) by (simp add: w)
    ultimately show "\<exists>p' b P. HtLookup (wk e i) key = Some p' \<and> p' < kHtCapacity \<and> pr e i p' = fresh fd key b P \<and>
      int (length b) = kReadBufSize \<and> (\<forall>fd. dp_fd fd \<longrightarrow> w_fd_map (wk e i) fd \<noteq> Some p')" using sl(1) b by blast
  qed
  show ?thesis
  proof (cases "p_rbuf (pr c i p)")
    case None
    let ?d = "c\<lparr>cx_mallocs := cx_mallocs c + 1\<rparr>"
    show ?thesis
    proof (cases "de_malloc env (cx_mallocs c) (cx_mem c) = 0")
      case True
      then show ?thesis using Some None good_mallocs [OF good] new by (simp add: HtInsert_def Let_def)
    next
      case False
      have "fst (HtInsert env i fd key c) = set_pr i p (fresh fd key (replicate (nat kReadBufSize) 0) (pr c i p)) ?d"
        using Some None False by (simp add: HtInsert_def Let_def fresh_def)
      then show ?thesis using done_with [where d = ?d and b = "replicate (nat kReadBufSize) 0"] by (auto simp: set_pr_def)
    qed
  next
    case b: (Some b)
    have "int (length b) = kReadBufSize" using worker_good(3) [OF good i] b B(2) by (auto simp: conn_ok_def rb_ok_def pr_def)
    moreover have "fst (HtInsert env i fd key c) = set_pr i p (fresh fd key b (pr c i p)) c"
      using Some b by (simp add: HtInsert_def Let_def fresh_def)
    ultimately show ?thesis using done_with [where d = c and b = b] by (auto simp: set_pr_def)
  qed
qed

text \<open>Routes of all workers.\<close>

lemma zip_map_same: "map (\<lambda>(w, t). g w t) (zip ws (map f ws)) = map (\<lambda>w. g w (f w)) ws"
  by (induction ws) simp_all

lemma routes_good:
  assumes good: "dp_good env c"
    and f: "\<And>t. length (f t) = length t" "\<And>t. \<forall>r \<in> set t. route_ok (length (cx_workers c)) r \<Longrightarrow> \<forall>r \<in> set (f t). route_ok (length (cx_workers c)) r"
  shows "dp_good env (set_routes (map f (map w_routes (cx_workers c))) c)"
proof -
  let ?u = "\<lambda>w. w\<lparr>w_routes := f (w_routes w)\<rparr>"
  define d where "d = c\<lparr>cx_workers := map ?u (cx_workers c)\<rparr>"
  have e: "set_routes (map f (map w_routes (cx_workers c))) c = d"
    unfolding set_routes_def d_def map_map comp_def zip_map_same by simp
  have ok: "worker_fixed n w \<Longrightarrow> worker_fixed n (?u w)" "worker_aux (?u w) = worker_aux w" "conn_ok (?u w) = conn_ok w"
    "FramePoolOwns (?u w) a = FramePoolOwns w a" "w_frames (?u w) = w_frames w" if "n = length (cx_workers c)" for n w a
    using f that by (auto simp: worker_fixed_def worker_aux_def conn_ok_def FramePoolOwns_def w_frames_def w_used_def w_free_def)
  have "fixed env d" using good ok(1,4) by (auto simp: d_def dp_good_def dp_inv_def fixed_def malloc_ok_def)
  moreover have "aux d" using good ok(2) by (auto simp: d_def dp_good_def dp_inv_def aux_def)
  moreover have "frames_ok {#} d"
    using good frames_ok_same [of d c "{#}"] ok(5) by (simp add: d_def dp_good_def dp_inv_def comp_def)
  moreover have "sends_ok d" using good by (auto simp: d_def dp_good_def sends_ok_def)
  moreover have "conns_ok d" using good ok(3) by (auto simp: d_def dp_good_def conns_ok_def wk_def)
  ultimately show ?thesis unfolding e by (simp add: dp_good_def dp_inv_def)
qed

lemma RouteSet_ok:
  assumes "0 \<le> k" "k < int n" "dp_fd fd"
  shows "length (RouteSet t key k fd) = length t" "\<forall>r \<in> set t. route_ok n r \<Longrightarrow> \<forall>r \<in> set (RouteSet t key k fd). route_ok n r"
  using assms by (auto simp: RouteSet_def route_ok_def split: option.split dest!: subsetD [OF set_update_subset_insert])

lemma RouteRemove_ok:
  shows "length (RouteRemove t key) = length t" "\<forall>r \<in> set t. route_ok n r \<Longrightarrow> \<forall>r \<in> set (RouteRemove t key). route_ok n r"
  by (auto simp: RouteRemove_def route_ok_def split: option.split dest!: subsetD [OF set_update_subset_insert])

lemma add_route_good:
  assumes "dp_good env c" "i < length (cx_workers c)" "dp_fd fd"
  shows "dp_good env (set_routes (BroadcastRouteAdd (map w_routes (cx_workers c)) key (int i) fd) c)"
  unfolding BroadcastRouteAdd_def 
proof (rule routes_good [OF assms(1)])
  have i: "0 \<le> int i" "int i < int (length (cx_workers c))" using assms(2) by simp_all
  show "length (RouteSet t key (int i) fd) = length t" for t by (rule RouteSet_ok(1) [OF i assms(3)])
  show "\<forall>r \<in> set (RouteSet t key (int i) fd). route_ok (length (cx_workers c)) r"
    if "\<forall>r \<in> set t. route_ok (length (cx_workers c)) r" for t by (rule RouteSet_ok(2) [OF i assms(3) that])
qed

lemma remove_route_good: "dp_good env c \<Longrightarrow> dp_good env (set_routes (BroadcastRouteRemove (map w_routes (cx_workers c)) key) c)"
  unfolding BroadcastRouteRemove_def by (rule routes_good) (simp_all add: RouteRemove_ok)

lemma set_routes_wk [simp]:
  assumes "length ts = length (cx_workers c)"
  shows "length (cx_workers (set_routes ts c)) = length (cx_workers c)"
    "i < length (cx_workers c) \<Longrightarrow> wk (set_routes ts c) i = (wk c i)\<lparr>w_routes := ts ! i\<rparr>"
  using assms by (simp_all add: set_routes_def wk_def)

text \<open>Changing a peer that no socket refers to, and connecting it.\<close>

lemma good_set_pr:
  assumes good: "dp_good env c" and p: "peer_in c i p" and free: "\<forall>fd. dp_fd fd \<longrightarrow> w_fd_map (wk c i) fd \<noteq> Some p"
    and P: "p_queue P = p_queue (pr c i p)" "dp_fd (p_fd P)" "is_Key (p_key P)" "p_fwd_count P \<le> int kMaxPeerRules"
      "queue_ok P" "fwd_ok P" "inflight_ok P" "rb_ok P"
  shows "dp_good env (set_pr i p P c)"
proof -
  note inv = good_inv [OF good]
  note B = peer_inD [OF inv p] and W = worker_good [OF good peer_inD(1) [OF inv p]]
  show ?thesis unfolding set_pr_def
  proof (rule good_set_wk [OF good B(1)])
    show "worker_fixed (length (cx_workers c)) ((wk c i)\<lparr>w_ht := (w_ht (wk c i))[p := P]\<rparr>)" by (rule worker_fixed_ht [OF W(1) P(2-4)])
    show "worker_aux ((wk c i)\<lparr>w_ht := (w_ht (wk c i))[p := P]\<rparr>)" by (rule worker_aux_ht [OF W(2) P(5,6)])
    show "w_frames ((wk c i)\<lparr>w_ht := (w_ht (wk c i))[p := P]\<rparr>) = w_frames (wk c i)" using P(1) B(2) by (intro w_frames_ht) (simp_all add: pr_def)
    show "conn_ok ((wk c i)\<lparr>w_ht := (w_ht (wk c i))[p := P]\<rparr>)" by (rule conn_ok_other [OF W(3) free _ _ _ P(8)]) simp_all
    show "\<forall>Q \<in> set (w_ht ((wk c i)\<lparr>w_ht := (w_ht (wk c i))[p := P]\<rparr>)). inflight_ok Q"
      using W(4) P(7) by (auto dest!: subsetD [OF set_update_subset_insert])
  qed
qed

lemma partial_Nil [simp]: "partial_frame P []"
  by (simp add: partial_frame_def FrameHdrSize_def)

lemma connect_good:
  assumes good: "dp_good env c" and p: "peer_in c i p" and fd: "dp_fd fd" and P: "p_fd (pr c i p) = fd" "p_occupied (pr c i p) = 1" "in_rbuf (pr c i p) []"
    and m: "w = (wk c i)\<lparr>w_fd_map := (w_fd_map (wk c i))(fd := Some p), w_fd_gen := g, w_peer_count := n\<rparr>"
  shows "dp_good env (set_wk i w c)"
proof -
  note inv = good_inv [OF good]
  note B = peer_inD [OF inv p] and W = worker_good [OF good peer_inD(1) [OF inv p]]
  have "p < kHtCapacity" using p by (simp add: peer_in_def)
  moreover have "\<exists>t. in_rbuf (w_ht (wk c i) ! p) t \<and> (u \<longrightarrow> partial_frame (w_ht (wk c i) ! p) t)" for u
    using P(3) partial_Nil unfolding pr_def by blast
  ultimately show ?thesis using W P unfolding m
    by (intro good_set_wk [OF good B(1)])
      (auto simp: worker_fixed_def slot_ok_def worker_aux_def conn_ok_def w_frames_def w_used_def w_free_def pr_def)
qed

lemma id_map_good:
  assumes good: "dp_good env c" and i: "i < length (cx_workers c)" and m: "\<forall>f k. m = Some f \<longrightarrow> slot_ok (f k)"
  shows "dp_good env (set_wk i ((wk c i)\<lparr>w_peer_id_map := m\<rparr>) c)"
  using worker_good [OF good i] m
  by (intro good_set_wk [OF good i]) (auto simp: worker_fixed_def worker_aux_def conn_ok_def w_frames_def w_used_def w_free_def)

lemma ProcessCmdAdd_good:
  assumes good: "dp_good env c" and i: "i < length (cx_workers c)" and key: "is_Key (cmd_key cmd)"
    and new: "HtLookup (wk c i) (cmd_key cmd) = None"
  shows "good_ends env (length (cx_workers c)) (ProcessCmdAdd env i cmd c)"
proof (cases "dp_fd (cmd_fd cmd)")
  case False
  then show ?thesis using good by (simp add: ProcessCmdAdd_def)
next
  case fd: True
  let ?fd = "cmd_fd cmd"
  define c0 where "c0 = fst (HtInsert env i ?fd (cmd_key cmd) c)"
  have c0: "dp_good env c0" "length (cx_workers c0) = length (cx_workers c)"
    "HtLookup (wk c0 i) (cmd_key cmd) = None \<or>
     (\<exists>p b P. HtLookup (wk c0 i) (cmd_key cmd) = Some p \<and> p < kHtCapacity \<and> pr c0 i p = fresh ?fd (cmd_key cmd) b P \<and>
        int (length b) = kReadBufSize \<and> (\<forall>fd. dp_fd fd \<longrightarrow> w_fd_map (wk c0 i) fd \<noteq> Some p))"
    using HtInsert_good [OF good i new key fd] by (auto simp: c0_def)
  show ?thesis
  proof (cases "HtLookup (wk c0 i) (cmd_key cmd)")
    case None
    then show ?thesis using fd c0(1,2) by (simp add: ProcessCmdAdd_def Let_def c0_def)
  next
    case (Some p)
    then obtain b P where x: "p < kHtCapacity" "pr c0 i p = fresh ?fd (cmd_key cmd) b P" "int (length b) = kReadBufSize"
      "\<forall>fd. dp_fd fd \<longrightarrow> w_fd_map (wk c0 i) fd \<noteq> Some p" using c0(3) by auto
    have p: "peer_in c0 i p" using x(1) i c0(2) by (simp add: peer_in_def)
    note B = peer_inD [OF good_inv [OF c0(1)] p]
    let ?Q = "(pr c0 i p)\<lparr>p_protocol := cmd_protocol cmd, p_peer_id := cmd_peer_id cmd\<rparr>"
    define c1 where "c1 = set_pr i p ?Q c0"
    have ok: "inflight_ok (pr c0 i p)" using c0(1) sends_okD [OF _ good_inv [OF c0(1)] p] by (simp add: dp_good_def)
    have rb: "rb_ok ?Q" using x(2,3) by (simp add: fresh_def rb_ok_def)
    have g1: "dp_good env c1" unfolding c1_def by (rule good_set_pr [OF c0(1) p x(4)]) (use B ok rb in simp_all)
    have p1: "peer_in c1 i p" "pr c1 i p = ?Q" "i < length (cx_workers c1)"
      using pr_set_pr(1) [OF good_inv [OF c0(1)] p] p by (simp_all add: c1_def peer_in_def set_pr_def)
    define c2 where "c2 = set_wk i ((wk c1 i)\<lparr>w_fd_map := (w_fd_map (wk c1 i))(?fd := Some p),
      w_fd_gen := (w_fd_gen (wk c1 i))(?fd := w_fd_gen (wk c1 i) ?fd + 1), w_peer_count := w_peer_count (wk c1 i) + 1\<rparr>) c1"
    have g2: "dp_good env c2" unfolding c2_def
      by (rule connect_good [OF g1 p1(1) fd _ _ _ refl]) (use x(3) in \<open>simp_all add: p1(2) x(2) fresh_def in_rbuf_def\<close>)
    define m where "m = (case w_peer_id_map (wk c2 i) of Some m \<Rightarrow> (c2, Some m)
      | None \<Rightarrow> (c2\<lparr>cx_mallocs := cx_mallocs c2 + 1\<rparr>, if de_malloc env (cx_mallocs c2) (cx_mem c2) = 0 then None else Some (\<lambda>_. None)))"
    define c3 where "c3 = (if cmd_protocol cmd = Protocol_kHd \<and> cmd_peer_id cmd > 0 then
        set_wk i ((wk c2 i)\<lparr>w_peer_id_map := map_option (\<lambda>m. m(cmd_peer_id cmd := Some p)) (snd m)\<rparr>) (fst m) else c2)"
    have i2: "i < length (cx_workers c2)" using p1(3) by (simp add: c2_def)
    have l2: "length (cx_workers c2) = length (cx_workers c)" using c0(2) by (simp add: c2_def c1_def set_pr_def)
    have g3: "dp_good env c3 \<and> length (cx_workers c3) = length (cx_workers c)"
    proof -
      have "dp_good env (fst m)" "wk (fst m) i = wk c2 i" "length (cx_workers (fst m)) = length (cx_workers c2)"
        using g2 good_mallocs [OF g2] by (simp_all add: m_def split: option.split)
      moreover have "slot_ok (f k)" if "snd m = Some f" for f k
        using that worker_good(1) [OF g2 i2] by (auto simp: m_def worker_fixed_def slot_ok_def split: option.splits if_splits)
      ultimately have "dp_good env (set_wk i ((wk (fst m) i)\<lparr>w_peer_id_map := map_option (\<lambda>m. m(cmd_peer_id cmd := Some p)) (snd m)\<rparr>) (fst m))"
        using i2 x(1) by (intro id_map_good) (auto simp: slot_ok_def split: if_splits)
      with \<open>wk (fst m) i = wk c2 i\<close> \<open>length (cx_workers (fst m)) = length (cx_workers c2)\<close> show ?thesis using g2 l2 by (simp add: c3_def)
    qed
    define c4 where "c4 = set_routes (BroadcastRouteAdd (map w_routes (cx_workers c3)) (cmd_key cmd) (int i) ?fd) c3"
    have g4: "dp_good env c4" "length (cx_workers c4) = length (cx_workers c)"
      using g3 i add_route_good [of env c3 i ?fd] fd by (simp_all add: c4_def BroadcastRouteAdd_def)
    have p4: "peer_in c4 i p" using g4(2) x(1) i by (simp add: peer_in_def)
    have "dp_ends env {#} c4 (Some (set_pr i p ((pr c4 i p)\<lparr>p_no_zc := True\<rparr>) c4))"
      using good_inv [OF g4(1)] peer_inD [OF good_inv [OF g4(1)] p4] by (intro dp_ends_same dp_inv_set_pr dp_step_set_pr) simp_all
    from good_from [OF g4(1) this] have g5: "dp_good env (set_pr i p ((pr c4 i p)\<lparr>p_no_zc := True\<rparr>) c4)" by simp
    have "ProcessCmdAdd env i cmd c =
        Some (SubmitRecv env i ?fd (if de_unix env ?fd then set_pr i p ((pr c4 i p)\<lparr>p_no_zc := True\<rparr>) c4 else c4))"
      unfolding ProcessCmdAdd_def Let_def c0_def [symmetric] Some option.case c1_def [symmetric] c2_def [symmetric] m_def [symmetric]
        case_prod_beta c3_def [symmetric] c4_def [symmetric] using fd by simp
    then show ?thesis using g4 g5 SubmitRecv_good by (simp add: set_pr_def)
  qed
qed

section \<open>Forgetting and removing\<close>

lemma forget_peer_good:
  assumes good: "dp_good env c" and p: "peer_in c i p"
  shows "dp_good env (forget_peer i p c)" "\<forall>fd. dp_fd fd \<longrightarrow> w_fd_map (wk (forget_peer i p c) i) fd \<noteq> Some p"
    "w_ht (wk (forget_peer i p c) i) = w_ht (wk c i)" "length (cx_workers (forget_peer i p c)) = length (cx_workers c)"
proof -
  note inv = good_inv [OF good]
  note B = peer_inD [OF inv p] and W = worker_good [OF good peer_inD(1) [OF inv p]]
  show "dp_good env (forget_peer i p c)" unfolding forget_peer_def Let_def using W
    by (intro good_set_wk [OF good B(1)])
      (auto simp: worker_fixed_def slot_ok_def worker_aux_def conn_ok_def w_frames_def w_used_def w_free_def split: if_splits)
  show "\<forall>fd. dp_fd fd \<longrightarrow> w_fd_map (wk (forget_peer i p c) i) fd \<noteq> Some p"
    using W(3) B(1,5) by (auto simp: forget_peer_def Let_def conn_ok_def pr_def)
  show "w_ht (wk (forget_peer i p c) i) = w_ht (wk c i)" "length (cx_workers (forget_peer i p c)) = length (cx_workers c)"
    using B(1) by (simp_all add: forget_peer_def Let_def)
qed

lemma HtLookup_ht: "w_ht w' = w_ht w \<Longrightarrow> HtLookup w' key = HtLookup w key"
  by (simp add: HtLookup_def HtFind_def split: option.split)

lemma good_emit: "dp_good env c \<Longrightarrow> dp_good env (dp_emit e c)"
  using good_from [of env c "Some (dp_emit e c)"] good_inv by (simp add: dp_ends_same dp_step_hts)

lemma forgotten_remove_good:
  assumes good: "dp_good env c" and i: "i < length (cx_workers c)" and l: "HtLookup (wk c i) key = Some p"
    and d: "d = forget_peer i p c \<or> d = dp_emit e (forget_peer i p c)"
  shows "good_ends env (length (cx_workers c)) (HtRemove env i key d)"
proof -
  have p: "peer_in c i p" using HtLookup_in [OF l] i by (simp add: peer_in_def)
  note F = forget_peer_good [OF good p]
  have w: "wk d i = wk (forget_peer i p c) i" "dp_good env d" "length (cx_workers d) = length (cx_workers c)" using d F good_emit by auto
  show ?thesis using F(2) i l w HtLookup_ht [OF F(3), of key] HtRemove_good [OF w(2), of i key] by auto
qed

lemma length_BroadcastRouteRemove [simp]: "length (BroadcastRouteRemove ts key) = length ts"
  by (simp add: BroadcastRouteRemove_def)

lemma ProcessCmdRemove_good:
  assumes good: "dp_good env c" and i: "i < length (cx_workers c)"
  shows "good_ends env (length (cx_workers c)) (ProcessCmdRemove env i cmd c)"
proof (cases "HtLookup (wk c i) (cmd_key cmd)")
  case None
  then show ?thesis using good by (simp add: ProcessCmdRemove_def)
next
  case (Some p)
  have "good_ends env (length (cx_workers c)) (HtRemove env i (cmd_key cmd) (if dp_fd fd then dp_emit (Sys_close fd) (forget_peer i p c) else forget_peer i p c))" for fd
    by (rule forgotten_remove_good [OF good i Some, where e = "Sys_close fd"]) simp
  then show ?thesis unfolding ProcessCmdRemove_def Let_def Some option.case by (rule good_bind) (simp add: remove_route_good)
qed

lemma ProcessCmdMovePeerOut_good:
  assumes good: "dp_good env c" and i: "i < length (cx_workers c)"
  shows "good_ends env (length (cx_workers c)) (ProcessCmdMovePeerOut env i cmd c)"
proof (cases "HtLookup (wk c i) (cmd_key cmd)")
  case None
  then show ?thesis using good by (simp add: ProcessCmdMovePeerOut_def)
next
  case (Some p)
  then obtain c1 where c1: "HtRemove env i (cmd_key cmd) (forget_peer i p c) = Some c1" "dp_good env c1" "length (cx_workers c1) = length (cx_workers c)"
    using forgotten_remove_good [OF good i Some, of "forget_peer i p c"] by (auto simp: good_ends_def)
  have i1: "i < length (cx_workers c1)" using c1(3) i by simp
  have "dp_good env (set_wk i ((wk c1 i)\<lparr>w_peer_count := n\<rparr>) c1)" for n
    using worker_good [OF c1(2) i1]
    by (intro good_set_wk [OF c1(2) i1]) (simp_all add: worker_fixed_def conn_ok_def worker_aux_def w_frames_def w_used_def w_free_def)
  then show ?thesis using Some c1(1,3) by (simp add: ProcessCmdMovePeerOut_def Let_def)
qed

section \<open>Writing\<close>

lemma frames_ok_shorter:
  assumes "frames_ok (add_mset (a, n) H) c" "0 \<le> m" "m \<le> n"
  shows "frames_ok (add_mset (a, m) H) c"
  using assms by (auto simp: frames_ok_def fits_def)

lemma send_write_ends:
  assumes inv: "dp_inv env (add_mset (d, n) H) c" and p: "peer_in c i p" and n: "0 \<le> n"
  shows "dp_ends env (add_mset (d, n) H) c (case FrameAlloc env c i (kFrameHeaderSize + n) of
     (c, frame) \<Rightarrow> if frame = 0 then Some c
       else do { bs \<leftarrow> get_frame d n c; c \<leftarrow> put_frame frame bs c; EnqueueSend env i p frame n c })"
proof (cases "FrameAlloc env c i (kFrameHeaderSize + n)")
  case (Pair c1 a)
  have n5: "0 \<le> kFrameHeaderSize + n" using n by simp
  note A = FrameAlloc_inv [OF inv peer_inD(1) [OF inv p] Pair n5] FrameAlloc_step [OF Pair]
  show ?thesis
  proof (cases "a = 0")
    case True
    then show ?thesis using Pair A by (simp add: dp_ends_same)
  next
    case False
    with A(1) have inv1: "dp_inv env (add_mset (a, kFrameHeaderSize + n) (add_mset (d, n) H)) c1" by simp
    then have inv2: "dp_inv env (add_mset (a, n) (add_mset (d, n) H)) c1"
      using frames_ok_shorter [OF dp_invD(3) [OF inv1] n] by (simp add: dp_inv_def)
    have "fits (cx_mem c1) (d, n)" using frames_okD(2) [OF dp_invD(3) [OF inv2], of "(d, n)"] by simp
    then obtain b where b: "cx_mem c1 d = Some b" "n \<le> int (length b)" by (auto simp: fits_def)
    then have bs: "get_frame d n c1 = Some (take (nat n) b)" "int (length (take (nat n) b)) \<le> n"
      using n by (auto simp: get_frame_def rd_def)
    have "dp_ends env (add_mset (d, n) H) c1 (do { c \<leftarrow> put_frame a (take (nat n) b) c1; EnqueueSend env i p a n c })"
      by (rule dp_ends_bind [OF put_frame_ends [OF inv2 bs(2)] EnqueueSend_ends]) (use p A(2) in \<open>simp_all add: peer_in_step\<close>)
    then show ?thesis using Pair False bs(1) A(2) by (auto intro: dp_ends_from)
  qed
qed

lemma ProcessCmdWrite_good:
  assumes good: "dp_good env c" and i: "i < length (cx_workers c)"
    and data: "frames_ok {#(cmd_data cmd, cmd_data_len cmd)#} c"
  shows "good_ends env (length (cx_workers c)) (ProcessCmdWrite env i cmd c)"
proof -
  let ?d = "(cmd_data cmd, cmd_data_len cmd)"
  have inv: "dp_inv env {#?d#} c" using good_inv [OF good] data by (simp add: dp_inv_def)
  have fit: "fits (cx_mem c) ?d" using frames_okD(2) [OF data, of ?d] by simp
  define r where "r = (case HtLookup (wk c i) (cmd_key cmd) of
      None \<Rightarrow> Some c
    | Some p \<Rightarrow> (case FrameAlloc env c i (kFrameHeaderSize + cmd_data_len cmd) of
        (c, frame) \<Rightarrow> if frame = 0 then Some c
          else do { bs \<leftarrow> get_frame (cmd_data cmd) (cmd_data_len cmd) c; c \<leftarrow> put_frame frame bs c; EnqueueSend env i p frame (cmd_data_len cmd) c }))"
  have "dp_ends env {#?d#} c r"
    using send_write_ends [of env "cmd_data cmd" "cmd_data_len cmd" "{#}" c i] inv fit i HtLookup_in
    by (auto simp: r_def fits_def peer_in_def dp_ends_same split: option.split)
  then obtain c1 where c1: "r = Some c1" "dp_inv env {#?d#} c1" "dp_step c c1" by (auto simp: dp_ends_def)
  let ?c = "c1\<lparr>cx_mem := (cx_mem c1)(cmd_data cmd := None)\<rparr>"
  have fr: "frames_ok {#} ?c" using frames_ok_drop [OF dp_invD(3) [OF c1(2)]] .
  have "dp_inv env {#} ?c" by (rule dp_inv_step [OF c1(2) _ _ fr]) (use dp_invD(2) [OF c1(2)] in simp_all)
  moreover have "dp_step c ?c" using dp_step_trans [OF c1(3), of ?c] by (simp add: dp_step_hts)
  ultimately have g: "dp_good env ?c" using good_from [OF good, of "Some ?c"] by (simp add: dp_ends_same)
  have "cmd_data cmd \<noteq> 0" "cx_mem c1 (cmd_data cmd) \<noteq> None"
    using fit frames_okD(2) [OF dp_invD(3) [OF c1(2)], of ?d] by (auto simp: fits_def)
  then have "ProcessCmdWrite env i cmd c = Some ?c" unfolding ProcessCmdWrite_def r_def [symmetric] c1(1) by simp
  then show ?thesis using g dp_stepD(2) [OF c1(3)] by simp
qed

section \<open>Forwarding rules\<close>

text \<open>Changing what a peer forwards to.\<close>

lemma good_set_rules:
  assumes good: "dp_good env c" and p: "peer_in c i p"
    and P: "P = (pr c i p)\<lparr>p_fwd := f, p_fwd1_peer := d, p_fwd1_dst_fd := fd, p_fwd1_dst_worker := w, p_fwd_count := n\<rparr>"
    and ok: "n \<le> int kMaxPeerRules" "fwd_ok P"
  shows "dp_good env (set_pr i p P c)"
proof -
  note inv = good_inv [OF good]
  note B = peer_inD [OF inv p] and W = worker_good [OF good peer_inD(1) [OF inv p]]
  have in_ok: "inflight_ok (pr c i p)" using W(4) B(2) by (simp add: pr_def)
  let ?w = "(wk c i)\<lparr>w_ht := (w_ht (wk c i))[p := P]\<rparr>"
  show ?thesis unfolding set_pr_def
  proof (rule good_set_wk [OF good B(1)])
    show "worker_fixed (length (cx_workers c)) ?w" using B ok(1) P by (intro worker_fixed_ht [OF W(1)]) simp_all
    show "worker_aux ?w" using B(3) P by (intro worker_aux_ht [OF W(2) _ ok(2)]) simp
    show "w_frames ?w = w_frames (wk c i)" using P B(2) by (intro w_frames_ht) (simp_all add: pr_def)
    show "\<forall>Q \<in> set (w_ht ?w). inflight_ok Q" using W(4) in_ok P by (auto dest!: subsetD [OF set_update_subset_insert])
    show "conn_ok ?w"
    proof (rule conn_ok_slot [OF W(3)])
      have "rb_ok (pr c i p)" using W(3) B(2) by (simp add: conn_ok_def pr_def)
      then show "\<forall>Q \<in> set (w_ht ?w). rb_ok Q" using W(3) P by (auto simp: conn_ok_def rb_ok_def dest!: subsetD [OF set_update_subset_insert])
      fix fd q
      assume q: "dp_fd fd" "w_fd_map (wk c i) fd = Some q"
      have old: "p_occupied (w_ht (wk c i) ! q) = 1 \<and> p_fd (w_ht (wk c i) ! q) = fd \<and>
          (\<exists>t. in_rbuf (w_ht (wk c i) ! q) t \<and> (w_use_provided_bufs (wk c i) \<longrightarrow> partial_frame (w_ht (wk c i) ! q) t))"
        using W(3) q by (auto simp: conn_ok_def)
      have "in_rbuf P t = in_rbuf (pr c i p) t \<and> partial_frame P t = partial_frame (pr c i p) t" for t
        using proto_cong(4) [of P "pr c i p"] P by (simp add: in_rbuf_def)
      then show "peer_core (w_ht ?w ! q) = peer_core (w_ht (wk c i) ! q) \<or>
          (p_occupied (w_ht ?w ! q) = 1 \<and> p_fd (w_ht ?w ! q) = fd \<and>
            (\<exists>t. in_rbuf (w_ht ?w ! q) t \<and> (w_use_provided_bufs (wk c i) \<longrightarrow> partial_frame (w_ht ?w ! q) t)))"
        using old P B(2) by (cases "q = p") (auto simp: pr_def)
    qed simp_all
  qed
qed

definition rules_only :: "Peer \<Rightarrow> Peer \<Rightarrow> bool" where
  "rules_only P Q \<longleftrightarrow> Q = P\<lparr>p_fwd := p_fwd Q, p_fwd1_peer := p_fwd1_peer Q, p_fwd1_dst_fd := p_fwd1_dst_fd Q,
     p_fwd1_dst_worker := p_fwd1_dst_worker Q, p_fwd_count := p_fwd_count Q\<rparr>"

lemma rules_onlyI:
  "rules_only P (P\<lparr>p_fwd := f\<rparr>)" "rules_only P (P\<lparr>p_fwd1_peer := d\<rparr>)" "rules_only P (P\<lparr>p_fwd_count := n\<rparr>)" "rules_only P P"
  "rules_only P (P\<lparr>p_fwd1_dst_fd := x, p_fwd1_dst_worker := y\<rparr>)" "rules_only P (set_rule k g P)"
  by (cases P; simp add: rules_only_def set_rule_def)+

lemma rules_only_trans: "rules_only P Q \<Longrightarrow> rules_only Q R \<Longrightarrow> rules_only P R"
  by (cases P; cases Q; cases R) (simp add: rules_only_def)

lemma ProcessCmdSetFwdRule_good:
  assumes good: "dp_good env c" and i: "i < length (cx_workers c)"
  shows "good_ends env (length (cx_workers c)) (Some (ProcessCmdSetFwdRule i cmd c))"
proof (cases "HtLookup (wk c i) (cmd_key cmd)")
  case None
  then show ?thesis using good by (simp add: ProcessCmdSetFwdRule_def)
next
  case (Some p)
  note inv = good_inv [OF good]
  have p: "peer_in c i p" using HtLookup_in [OF Some] i by (simp add: peer_in_def)
  note B = peer_inD [OF inv p]
  show ?thesis
  proof (cases "p_fwd_count (pr c i p) \<ge> int kMaxPeerRules")
    case True
    then show ?thesis using good Some by (simp add: ProcessCmdSetFwdRule_def)
  next
    case room: False
    let ?P = "pr c i p" and ?w = "wk c i"
    define k where "k = nat (p_fwd_count ?P)"
    define dst where "dst = HtLookup ?w (cmd_dst_key cmd)"
    define P1 where "P1 = set_rule k (\<lambda>f. f\<lparr>fr_key := cmd_dst_key cmd, fr_peer := dst\<rparr>) ?P"
    define P2 where "P2 = (if dst = None then
        (case RouteLookup (w_routes ?w) (cmd_dst_key cmd) of
           None \<Rightarrow> P1
         | Some r \<Rightarrow> set_rule k (\<lambda>f. f\<lparr>fr_dst_worker := r_worker_id (w_routes ?w ! r), fr_dst_fd := r_fd (w_routes ?w ! r)\<rparr>) P1)
      else P1)"
    define P3 where "P3 = (if k = 0 then
        (let peer = P2\<lparr>p_fwd1_peer := dst\<rparr> in
         if dst = None then peer\<lparr>p_fwd1_dst_fd := fr_dst_fd (p_fwd peer ! 0), p_fwd1_dst_worker := fr_dst_worker (p_fwd peer ! 0)\<rparr> else peer)
      else P2)"
    have dst: "slot_ok dst" using HtLookup_in [of ?w "cmd_dst_key cmd"] by (auto simp: slot_ok_def dst_def)
    have kl: "k < kMaxPeerRules" using room by (simp add: k_def kMaxPeerRules_def)
    have rule_ok: "slot_ok (fr_peer (p_fwd Q ! k))" "remote_ok (fr_dst_fd (p_fwd Q ! k)) (fr_dst_worker (p_fwd Q ! k))" if "fwd_ok Q" for Q
      using that kl by (simp_all add: fwd_ok_def)
    have ok1: "fwd_ok P1" unfolding P1_def using dst rule_ok [OF B(4)] by (intro fwd_ok_rule [OF B(4)]) simp_all
    have ok2: "fwd_ok P2"
    proof -
      have "remote_ok (r_fd (w_routes ?w ! r)) (r_worker_id (w_routes ?w ! r))" if "RouteLookup (w_routes ?w) (cmd_dst_key cmd) = Some r" for r
        using route_in [OF inv i that] by (simp add: remote_ok_def)
      then show ?thesis unfolding P2_def using ok1 rule_ok(1) [OF ok1] by (auto split: option.split intro!: fwd_ok_rule [OF ok1])
    qed
    have ok3: "fwd_ok P3"
    proof -
      have "p_fwd P2 ! 0 \<in> set (p_fwd P2)" using ok2 kl by (simp add: fwd_ok_def)
      then show ?thesis using ok2 dst by (auto simp: P3_def fwd_ok_def Let_def)
    qed
    have only: "rules_only ?P P3"
    proof -
      have 1: "rules_only ?P P1" by (simp add: P1_def rules_onlyI)
      have 2: "rules_only P1 P2" by (simp add: P2_def rules_onlyI split: option.split)
      have 3: "rules_only P2 P3" unfolding P3_def Let_def
        using rules_only_trans [OF rules_onlyI(2) rules_onlyI(5)] by (auto simp: rules_onlyI)
      show ?thesis using rules_only_trans [OF rules_only_trans [OF 1 2] 3] .
    qed
    let ?Q = "P3\<lparr>p_fwd_count := p_fwd_count P3 + 1\<rparr>"
    have "p_fwd_count P3 = p_fwd_count ?P"
      by (simp add: P3_def P2_def P1_def set_rule_def Let_def split: option.split)
    then have n: "p_fwd_count P3 + 1 \<le> int kMaxPeerRules" using room by simp
    have "rules_only ?P ?Q" by (rule rules_only_trans [OF only rules_onlyI(3)])
    then have Q: "?Q = ?P\<lparr>p_fwd := p_fwd ?Q, p_fwd1_peer := p_fwd1_peer ?Q, p_fwd1_dst_fd := p_fwd1_dst_fd ?Q,
        p_fwd1_dst_worker := p_fwd1_dst_worker ?Q, p_fwd_count := p_fwd_count ?Q\<rparr>" by (simp only: rules_only_def)
    have "dp_good env (set_pr i p ?Q c)" by (rule good_set_rules [OF good p Q]) (use n ok3 in simp_all)
    moreover have "ProcessCmdSetFwdRule i cmd c = set_pr i p ?Q c"
      unfolding ProcessCmdSetFwdRule_def Some option.case if_not_P [OF room] Let_def k_def [symmetric] dst_def [symmetric] P1_def [symmetric]
        P2_def [symmetric] P3_def [symmetric, unfolded Let_def] ..
    ultimately show ?thesis by (simp add: set_pr_def)
  qed
qed

section \<open>All commands\<close>

text \<open>
  What is promised of a command: a key is not added again while its peer is connected, and the
  data of a write is a buffer of the command alone.
\<close>

definition cmd_ok :: "Ctx \<Rightarrow> nat \<Rightarrow> Cmd \<Rightarrow> bool" where
  "cmd_ok c i cmd \<longleftrightarrow> is_Key (cmd_key cmd) \<and>
     (cmd_type cmd = kCmdAddPeer \<longrightarrow> HtLookup (wk c i) (cmd_key cmd) = None) \<and>
     (cmd_type cmd = kCmdWrite \<longrightarrow> frames_ok {#(cmd_data cmd, cmd_data_len cmd)#} c)"

lemma ProcessCmd_good:
  assumes good: "dp_good env c" and i: "i < length (cx_workers c)" and ok: "cmd_ok c i cmd"
  shows "good_ends env (length (cx_workers c)) (ProcessCmd env i cmd c)"
proof (cases "cmd_type cmd")
  case kCmdStop
  have "dp_good env (set_wk i ((wk c i)\<lparr>w_running := False\<rparr>) c)" using worker_good [OF good i]
    by (intro good_set_wk [OF good i]) (simp_all add: worker_fixed_def conn_ok_def worker_aux_def w_frames_def w_used_def w_free_def)
  then show ?thesis using kCmdStop by (simp add: ProcessCmd_def)
qed (use ok ProcessCmdAdd_good [OF good i] ProcessCmdRemove_good [OF good i] ProcessCmdWrite_good [OF good i]
    ProcessCmdSetFwdRule_good [OF good i] ProcessCmdMovePeerOut_good [OF good i] in \<open>simp_all add: ProcessCmd_def cmd_ok_def\<close>)

end
