(* ===== verification/Dp_Lifecycle.thy ===== *)
theory Dp_Lifecycle
  imports Dp_Events
begin

text \<open>
  Setting up and taking down the data plane, from \<^verbatim>\<open>src/data_plane.cc\<close>: the slab and the frame
  pool of a worker, \<^verbatim>\<open>WorkerInit\<close>, \<^verbatim>\<open>WorkerInitRing\<close>, \<^verbatim>\<open>DpInit\<close>, \<^verbatim>\<open>WorkerDestroy\<close>,
  \<^verbatim>\<open>DpDestroy\<close> and \<^verbatim>\<open>DpGetStats\<close>.
\<close>

section \<open>Setting up\<close>

text \<open>
  What the system calls and allocations of worker \<open>i\<close> return; \<open>ie_pool\<close> is the address of the
  frame pool, 0 when there is no memory.
\<close>

record init_env =
  ie_worker :: "nat \<Rightarrow> bool"
  ie_pipe :: "nat \<Rightarrow> bool"
  ie_event_fd :: "nat \<Rightarrow> bool"
  ie_xfer_efd :: "nat \<Rightarrow> bool"
  ie_inbox :: "nat \<Rightarrow> nat \<Rightarrow> bool"
  ie_slab :: "nat \<Rightarrow> bool"
  ie_pool :: "nat \<Rightarrow> nat"

definition WorkerStats_init :: WorkerStats where
  "WorkerStats_init = \<lparr>st_send_drops = 0, st_xfer_drops = 0, st_slab_exhausts = 0, st_recv_bytes = 0, st_send_bytes = 0,
     st_send_epipe = 0, st_send_econnreset = 0, st_send_eagain = 0, st_send_other_err = 0, st_recv_enobufs = 0,
     st_send_queue_drops = 0, st_sq_overflow = 0, st_recv_pauses = 0, st_frame_pool_hits = 0, st_frame_pool_misses = 0,
     st_hd_mesh_forwards = 0, st_hd_fleet_forwards = 0, st_rate_limit_drops = 0, st_hd_fwd_no_rule = 0,
     st_hd_fwd_no_route = 0, st_hd_fwd_same_worker = 0\<rparr>"

definition CmdRing_zero :: CmdRing where
  "CmdRing_zero = \<lparr>cr_cmds = replicate kCmdRingSize (Cmd_init kCmdAddPeer), cr_head = 0, cr_tail = 0\<rparr>"

definition XferSpscRing_zero :: XferSpscRing where
  "XferSpscRing_zero = \<lparr>xr_items = replicate kXferSpscSize \<lparr>x_dst_fd = 0, x_frame = 0, x_frame_len = 0, x_dst_gen = 0\<rparr>,
     xr_head = 0, xr_tail = 0\<rparr>"

text \<open>A worker of zero bytes: no inboxes yet.\<close>

definition Worker_zero :: Worker where
  "Worker_zero = \<lparr>w_running = False, w_use_provided_bufs = False, w_use_multishot_recv = False,
     w_ht = replicate kHtCapacity Peer_init, w_fd_map = (\<lambda>_. None), w_peer_id_map = None, w_fd_gen = (\<lambda>_. 0),
     w_notif_map = (\<lambda>_. []), w_routes = replicate kHtCapacity Route_init, w_cmd_ring = CmdRing_zero, w_xfer_inbox = [],
     w_recv_inflight = 0, w_recv_defer_buf = replicate kRecvDeferSize 0, w_recv_defer_head = 0, w_recv_defer_tail = 0,
     w_send_pressure = 0, w_recv_paused = False, w_recv_pause_countdown = 0, w_peer_count = 0, w_pending_fds = [],
     w_xfer_signal_pending = 0, w_pending_sources = 0, w_slab_free = 0, w_frame_pool = 0, w_frame_pool_end = 0,
     w_frame_pool_free = [], w_frame_return_inbox = replicate kMaxWorkers [], w_stats = WorkerStats_init\<rparr>"

definition SlabInit :: "bool \<Rightarrow> Worker \<Rightarrow> Worker option" where
  "SlabInit ok w = (if ok then Some (w\<lparr>w_slab_free := kSlabSize\<rparr>) else None)"

definition pool_frames :: "nat \<Rightarrow> nat list" where
  "pool_frames base = map (\<lambda>k. base + k * nat kFramePoolBufSize) [0..<kFramePoolCount]"

definition FramePoolInit :: "nat \<Rightarrow> Worker \<Rightarrow> Worker option" where
  "FramePoolInit base w =
     (if base = 0 then None
      else Some (w\<lparr>w_frame_pool := base, w_frame_pool_end := base + kFramePoolCount * nat kFramePoolBufSize,
             w_frame_pool_free := pool_frames base, w_frame_return_inbox := replicate kMaxWorkers []\<rparr>))"

text \<open>\<^const>\<open>None\<close>: -1, with everything closed and freed that was acquired before.\<close>

definition WorkerInit :: "init_env \<Rightarrow> nat \<Rightarrow> Worker option" where
  "WorkerInit e i =
     (let w = Worker_zero\<lparr>w_running := True\<rparr> in
      if \<not> ie_pipe e i then None
      else if \<not> ie_event_fd e i then None
      else if \<not> ie_xfer_efd e i then None
      else (let w = w\<lparr>w_cmd_ring := RingInit (w_cmd_ring w)\<rparr> in
        if \<not> list_all (ie_inbox e i) [0..<kMaxWorkers] then None
        else (let w = w\<lparr>w_xfer_inbox := replicate kMaxWorkers (XferSpscInit XferSpscRing_zero)\<rparr> in do {
          w \<leftarrow> SlabInit (ie_slab e i) w;
          FramePoolInit (ie_pool e i) w })))"

fun init_workers :: "init_env \<Rightarrow> nat list \<Rightarrow> Worker list option" where
  "init_workers e [] = Some []"
| "init_workers e (i # is) =
     (if \<not> ie_worker e i then None
      else do { w \<leftarrow> WorkerInit e i; ws \<leftarrow> init_workers e is; Some (w # ws) })"

text \<open>When a worker fails, the ones before it are destroyed.\<close>

definition DpInit :: "init_env \<Rightarrow> int \<Rightarrow> Ctx option" where
  "DpInit e num_workers =
     (let n = (if num_workers < 1 then 1 else num_workers);
          n = (if n > int kMaxWorkers then int kMaxWorkers else n) in do {
        ws \<leftarrow> init_workers e [0..<nat n];
        Some \<lparr>cx_workers = ws, cx_relay_id = 0, cx_relay_peer_map = (\<lambda>_. 0), cx_peer_rate_limit = 0,
          cx_mem = Map.empty, cx_mallocs = 0, cx_sqes = 0, cx_calls = []\<rparr> })"

section \<open>The ring of a worker\<close>

text \<open>Which attempts to set up a ring succeed, and what can be registered with it.\<close>

record ring_env =
  re_sqpoll :: bool
  re_defer :: bool
  re_coop :: bool
  re_basic :: bool
  re_files :: bool
  re_pbufs :: bool
  re_buf_ring :: bool

datatype ring_mode = Ring_sqpoll | Ring_defer | Ring_coop | Ring_basic

definition ring_setup :: "bool \<Rightarrow> ring_env \<Rightarrow> ring_mode option" where
  "ring_setup sqpoll e =
     (if sqpoll \<and> re_sqpoll e then Some Ring_sqpoll
      else if re_defer e then Some Ring_defer
      else if re_coop e then Some Ring_coop
      else if re_basic e then Some Ring_basic
      else None)"

text \<open>The worker, the mode of its ring and whether its files are registered.\<close>

definition WorkerInitRing :: "bool \<Rightarrow> ring_env \<Rightarrow> Worker \<Rightarrow> (Worker \<times> ring_mode \<times> bool) option" where
  "WorkerInitRing sqpoll e w = do {
     m \<leftarrow> ring_setup sqpoll e;
     let p = (re_pbufs e \<and> re_buf_ring e);
     Some (w\<lparr>w_use_provided_bufs := p, w_use_multishot_recv := p\<rparr>, m, re_files e) }"

text \<open>The beginning of \<^verbatim>\<open>WorkerRun\<close>; the worker ends at once when there is no ring.\<close>

definition worker_start :: "bool \<Rightarrow> ring_env \<Rightarrow> dp_env \<Rightarrow> nat \<Rightarrow> Ctx \<Rightarrow> Ctx option" where
  "worker_start sqpoll e env i c = do {
     (w, m, fixed_files) \<leftarrow> WorkerInitRing sqpoll e (wk c i);
     Some (SubmitPollMultishot env i kOpPollXfer (SubmitPollMultishot env i kOpPollCmd (set_wk i w c))) }"

section \<open>The loops of a worker\<close>

text \<open>What waiting for completions gives: nothing in time (or an interrupt), an error, or completions.\<close>

datatype wait_result = Wait_timeout | Wait_error | Wait_cqes "Cqe list"

text \<open>
  The loop of \<^verbatim>\<open>WorkerRun\<close>, on what its waits give; peeking without a completion submits and
  waits again, which changes nothing here. A wait that was interrupted while peeking is a round
  without completions.
\<close>

fun worker_loop :: "dp_env \<Rightarrow> nat \<Rightarrow> wait_result list \<Rightarrow> Ctx \<Rightarrow> Ctx ub" where
  "worker_loop env i [] c = Some c"
| "worker_loop env i (r # rs) c =
     (if \<not> w_running (wk c i) then Some c
      else case r of
        Wait_timeout \<Rightarrow> worker_loop env i rs c
      | Wait_error \<Rightarrow> Some c
      | Wait_cqes cqes \<Rightarrow> do { c \<leftarrow> worker_round env i cqes c; worker_loop env i rs c })"

fun drain_cqes :: "dp_env \<Rightarrow> nat \<Rightarrow> Cqe list \<Rightarrow> Ctx \<Rightarrow> Ctx ub" where
  "drain_cqes env i [] c = Some c"
| "drain_cqes env i (cqe # cqes) c = do { c \<leftarrow> drain_cqe env i cqe c; drain_cqes env i cqes c }"

text \<open>The loop at the end: at most 50 waits, fewer when no notification is outstanding.\<close>

definition kDrainIters :: nat where "kDrainIters = 50"

fun drain_loop :: "nat \<Rightarrow> dp_env \<Rightarrow> nat \<Rightarrow> wait_result list \<Rightarrow> Ctx \<Rightarrow> Ctx ub" where
  "drain_loop 0 env i rs c = Some c"
| "drain_loop (Suc n) env i [] c = Some c"
| "drain_loop (Suc n) env i (r # rs) c =
     (case r of
        Wait_timeout \<Rightarrow>
          (if list_all (\<lambda>fd. w_notif_map (wk c i) (int fd) = []) [0..<nat kMaxFd] then Some c
           else drain_loop n env i rs c)
      | Wait_error \<Rightarrow> Some c
      | Wait_cqes cqes \<Rightarrow> do { c \<leftarrow> drain_cqes env i cqes c; drain_loop n env i rs c })"

text \<open>The thread of a worker; \<open>rs\<close> and \<open>ds\<close> are what the waits of the two loops give.\<close>

definition WorkerRun :: "bool \<Rightarrow> ring_env \<Rightarrow> dp_env \<Rightarrow> nat \<Rightarrow> wait_result list \<Rightarrow> wait_result list \<Rightarrow> Ctx \<Rightarrow> Ctx ub" where
  "WorkerRun sqpoll e env i rs ds c =
     (case worker_start sqpoll e env i c of
        None \<Rightarrow> Some c
      | Some c \<Rightarrow> do { c \<leftarrow> worker_loop env i rs c; drain_loop kDrainIters env i ds c })"

section \<open>Taking down\<close>

text \<open>
  Which worker owns a buffer, when some workers have been destroyed: their pointers are null,
  and looking into one is undefined.
\<close>

fun owner_search :: "nat list \<Rightarrow> Ctx \<Rightarrow> nat \<Rightarrow> nat \<Rightarrow> nat list \<Rightarrow> nat option ub" where
  "owner_search null c i buf [] = Some None"
| "owner_search null c i buf (j # js) =
     (if j = i then owner_search null c i buf js
      else if j \<in> set null then None
      else if FramePoolOwns (wk c j) buf then Some (Some j)
      else owner_search null c i buf js)"

definition FrameFree_among :: "nat list \<Rightarrow> nat \<Rightarrow> nat \<Rightarrow> Ctx \<Rightarrow> Ctx ub" where
  "FrameFree_among null i buf c =
     (if buf = 0 \<or> FramePoolOwns (wk c i) buf then FrameFree i buf c
      else do {
        owner \<leftarrow> owner_search null c i buf [0..<length (cx_workers c)];
        FrameFree i buf c })"

fun destroy_items :: "nat list \<Rightarrow> nat \<Rightarrow> SendItem list \<Rightarrow> Ctx \<Rightarrow> Ctx ub" where
  "destroy_items null i [] c = Some c"
| "destroy_items null i (x # xs) c = do {
     c \<leftarrow> FrameFree_among null i (si_data x) c;
     destroy_items null i xs (SlabFreeItem i x c) }"

text \<open>The queue of a live peer is freed, and the receive buffer of every peer.\<close>

fun destroy_peers :: "nat list \<Rightarrow> nat \<Rightarrow> nat list \<Rightarrow> Ctx \<Rightarrow> Ctx ub" where
  "destroy_peers null i [] c = Some c"
| "destroy_peers null i (p # ps) c = do {
     c \<leftarrow> (if p_occupied (pr c i p) = 1 then do {
            c \<leftarrow> destroy_items null i (p_queue (pr c i p)) c;
            Some (set_pr i p ((pr c i p)\<lparr>p_queue := []\<rparr>) c) }
          else Some c);
     destroy_peers null i ps (set_pr i p ((pr c i p)\<lparr>p_rbuf := None\<rparr>) c) }"

fun destroy_notifs :: "nat list \<Rightarrow> nat \<Rightarrow> int list \<Rightarrow> Ctx \<Rightarrow> Ctx ub" where
  "destroy_notifs null i [] c = Some c"
| "destroy_notifs null i (fd # fds) c = do {
     let items = w_notif_map (wk c i) fd;
     c \<leftarrow> destroy_items null i items (set_wk i ((wk c i)\<lparr>w_notif_map := (w_notif_map (wk c i))(fd := [])\<rparr>) c);
     destroy_notifs null i fds c }"

fun destroy_cmds :: "nat \<Rightarrow> nat \<Rightarrow> Ctx \<Rightarrow> Ctx ub" where
  "destroy_cmds 0 i c = Some c"
| "destroy_cmds (Suc n) i c =
     (case RingPop (w_cmd_ring (wk c i)) of
        (ring, rc, Some cmd) \<Rightarrow>
          (let c = set_wk i ((wk c i)\<lparr>w_cmd_ring := ring\<rparr>) c in
           if cmd_type cmd = kCmdWrite \<and> cmd_data cmd \<noteq> 0 then
             (if cx_mem c (cmd_data cmd) = None then None
              else destroy_cmds n i (c\<lparr>cx_mem := (cx_mem c)(cmd_data cmd := None)\<rparr>))
           else destroy_cmds n i c)
      | (ring, rc, None) \<Rightarrow> Some c)"

fun destroy_xfers :: "nat \<Rightarrow> nat list \<Rightarrow> nat \<Rightarrow> nat \<Rightarrow> Ctx \<Rightarrow> Ctx ub" where
  "destroy_xfers 0 null i src c = Some c"
| "destroy_xfers (Suc n) null i src c =
     (case XferSpscPop (w_xfer_inbox (wk c i) ! src) of
        (ring, rc, Some x) \<Rightarrow> do {
          c \<leftarrow> FrameFree_among null i (x_frame x) (set_wk i ((wk c i)\<lparr>w_xfer_inbox := (w_xfer_inbox (wk c i))[src := ring]\<rparr>) c);
          destroy_xfers n null i src c }
      | (ring, rc, None) \<Rightarrow> Some c)"

fun destroy_inboxes :: "nat list \<Rightarrow> nat \<Rightarrow> nat list \<Rightarrow> Ctx \<Rightarrow> Ctx ub" where
  "destroy_inboxes null i [] c = Some c"
| "destroy_inboxes null i (src # srcs) c = do {
     c \<leftarrow> destroy_xfers kXferSpscSize null i src c;
     destroy_inboxes null i srcs c }"

definition FramePoolDestroy :: "Worker \<Rightarrow> Worker" where
  "FramePoolDestroy w = w\<lparr>w_frame_pool := 0, w_frame_pool_end := 0, w_frame_pool_free := [],
     w_frame_return_inbox := replicate kMaxWorkers []\<rparr>"

definition SlabDestroy :: "Worker \<Rightarrow> Worker" where
  "SlabDestroy w = w\<lparr>w_slab_free := 0\<rparr>"

definition WorkerDestroy :: "nat list \<Rightarrow> nat \<Rightarrow> Ctx \<Rightarrow> Ctx ub" where
  "WorkerDestroy null i c = do {
     c \<leftarrow> destroy_peers null i [0..<kHtCapacity] c;
     c \<leftarrow> destroy_notifs null i (map int [0..<nat kMaxFd]) c;
     c \<leftarrow> destroy_cmds kCmdRingSize i c;
     c \<leftarrow> destroy_inboxes null i [0..<kMaxWorkers] c;
     let w = (wk c i)\<lparr>w_xfer_inbox := [], w_peer_id_map := None\<rparr>;
     Some (set_wk i (SlabDestroy (FramePoolDestroy w)) c) }"

fun destroy_workers :: "nat list \<Rightarrow> nat list \<Rightarrow> Ctx \<Rightarrow> Ctx ub" where
  "destroy_workers null [] c = Some c"
| "destroy_workers null (i # is) c = do {
     c \<leftarrow> WorkerDestroy null i c;
     destroy_workers (i # null) is c }"

definition DpDestroy :: "Ctx \<Rightarrow> Ctx ub" where
  "DpDestroy c = destroy_workers [] [0..<length (cx_workers c)] c"

section \<open>Statistics\<close>

text \<open>The sums are those of 64-bit counters.\<close>

definition DpGetStats :: "Ctx \<Rightarrow> u64 \<times> u64 \<times> u64 \<times> u64 \<times> u64" where
  "DpGetStats c =
     fold (\<lambda>w (sd, xd, se, rb, sb). (sd + st_send_drops (w_stats w), xd + st_xfer_drops (w_stats w),
         se + st_slab_exhausts (w_stats w), rb + st_recv_bytes (w_stats w), sb + st_send_bytes (w_stats w)))
       (cx_workers c) (0, 0, 0, 0, 0)"

end
