(* ===== verification/Dp_Safety.thy ===== *)
theory Dp_Safety
  imports Dp_Commands Dp_Lifecycle
begin

text \<open>
  The data plane as a whole: a new one satisfies the invariant, every round of every worker
  keeps it, and no round runs into undefined behaviour.
\<close>

section \<open>A new data plane\<close>

lemma pool_frames_distinct: "distinct (pool_frames base)"
  by (simp add: pool_frames_def distinct_map inj_on_def)

lemma pool_frames_in: "a \<in> set (pool_frames base) \<Longrightarrow> base \<le> a \<and> a < base + kFramePoolCount * nat kFramePoolBufSize"
  by (auto simp: pool_frames_def)

text \<open>\<^verbatim>\<open>calloc\<close> returns pools that do not overlap.\<close>

definition pools_apart :: "Worker list \<Rightarrow> bool" where
  "pools_apart ws \<longleftrightarrow> (\<forall>i < length ws. \<forall>j < length ws. i \<noteq> j \<longrightarrow> (\<forall>a. \<not> (FramePoolOwns (ws ! i) a \<and> FramePoolOwns (ws ! j) a)))"

definition new_worker :: "nat \<Rightarrow> Worker" where
  "new_worker base = Worker_zero\<lparr>w_running := True, w_xfer_inbox := replicate kMaxWorkers XferSpscRing_zero, w_slab_free := kSlabSize,
     w_frame_pool := base, w_frame_pool_end := base + kFramePoolCount * nat kFramePoolBufSize, w_frame_pool_free := pool_frames base\<rparr>"

lemma WorkerInit_new: "WorkerInit e i = Some w \<Longrightarrow> w = new_worker (ie_pool e i) \<and> ie_pool e i \<noteq> 0"
  by (auto simp: WorkerInit_def SlabInit_def FramePoolInit_def new_worker_def Worker_zero_def RingInit_def XferSpscInit_def
      CmdRing_zero_def XferSpscRing_zero_def Let_def split: if_splits)

lemma init_workers_new: "init_workers e is = Some ws \<Longrightarrow> length ws = length is \<and> (\<forall>w \<in> set ws. \<exists>b. w = new_worker b \<and> b \<noteq> 0)"
  by (induction "is" arbitrary: ws) (auto split: if_splits bind_splits dest!: WorkerInit_new)

lemma new_worker_fields:
  "w_ht (new_worker b) = replicate kHtCapacity Peer_init" "w_fd_map (new_worker b) = (\<lambda>_. None)" "w_peer_id_map (new_worker b) = None"
  "w_routes (new_worker b) = replicate kHtCapacity Route_init" "w_notif_map (new_worker b) = (\<lambda>_. [])"
  "w_xfer_inbox (new_worker b) = replicate kMaxWorkers XferSpscRing_zero" "w_frame_return_inbox (new_worker b) = replicate kMaxWorkers []"
  "w_recv_defer_buf (new_worker b) = replicate kRecvDeferSize 0" "w_recv_defer_head (new_worker b) = 0" "w_recv_defer_tail (new_worker b) = 0"
  "w_frame_pool_free (new_worker b) = pool_frames b" "w_frame_pool (new_worker b) = b"
  "w_frame_pool_end (new_worker b) = b + kFramePoolCount * nat kFramePoolBufSize"
  by (simp_all add: new_worker_def Worker_zero_def)

lemma zero_ring: "xfer_ring_inv XferSpscRing_zero" "xfer_ring_contents XferSpscRing_zero = []"
  by (simp_all add: xfer_ring_inv_def XferSpscRing_zero_def xfer_ring_contents_def ring_contents_def kXferSpscSize_def ring_len_def)

lemma sum_list_empty: "sum_list (replicate n {#}) = {#}" "\<forall>x \<in> set xs. f x = {#} \<Longrightarrow> (\<Sum>x\<leftarrow>xs. f x) = {#}"
proof -
  show "sum_list (replicate n {#}) = {#}" by (induction n) simp_all
  show "\<forall>x \<in> set xs. f x = {#} \<Longrightarrow> (\<Sum>x\<leftarrow>xs. f x) = {#}" by (induction xs) simp_all
qed

lemma Peer_init_ok: "queue_ok Peer_init" "fwd_ok Peer_init" "inflight_ok Peer_init" "rb_ok Peer_init" "dp_fd (p_fd Peer_init)"
  "is_Key (p_key Peer_init)" "p_fwd_count Peer_init = 0" "p_queue Peer_init = []"
  by (auto simp: Peer_init_def queue_ok_def fwd_ok_def inflight_ok_def rb_ok_def dp_fd_def slot_ok_def remote_ok_def zero_Key_def is_Key_def)

lemma new_worker_ok:
  shows "worker_fixed n (new_worker b)" "worker_aux (new_worker b)" "conn_ok (new_worker b)" "\<forall>P \<in> set (w_ht (new_worker b)). inflight_ok P"
    "w_used (new_worker b) = {#}" "w_free (new_worker b) = mset (pool_frames b)"
proof -
  have z: "queued (replicate m Peer_init) = {#}" "travelling (replicate m XferSpscRing_zero) = {#}" for m
    by (induction m) (simp_all add: queued_def travelling_def Peer_init_ok zero_ring)
  show "w_used (new_worker b) = {#}" "w_free (new_worker b) = mset (pool_frames b)"
    by (simp_all add: w_used_def w_free_def new_worker_fields z noticed_def sum_list_empty)
  show "worker_fixed n (new_worker b)" "worker_aux (new_worker b)" "conn_ok (new_worker b)" "\<forall>P \<in> set (w_ht (new_worker b)). inflight_ok P"
    by (auto simp: worker_fixed_def worker_aux_def conn_ok_def new_worker_fields Peer_init_ok slot_ok_def route_ok_def Route_init_def
        zero_ring kRecvDeferSize_def)
qed

lemma free_apart:
  assumes "pools_apart ws" "\<forall>w \<in> set ws. \<exists>b. w = new_worker b"
  shows "count (\<Sum>w\<leftarrow>ws. w_free w) a \<le> 1"
  using assms
proof (induction ws)
  case (Cons w ws)
  obtain b where b: "w = new_worker b" using Cons.prems by auto
  have own: "FramePoolOwns v a" if "a \<in># w_free v" "\<exists>b. v = new_worker b" for v
    using that pool_frames_in by (auto simp: new_worker_ok FramePoolOwns_def new_worker_fields)
  have ap: "pools_apart ws" using Cons.prems(1) by (fastforce simp: pools_apart_def)
  have 1: "count (w_free w) a \<le> 1" using pool_frames_distinct [of b] by (simp add: b new_worker_ok distinct_count_atmost_1)
  show ?case
  proof (cases "a \<in># w_free w")
    case True
    then have o: "FramePoolOwns w a" using own b by auto
    have "a \<notin># w_free v" if v: "v \<in> set ws" for v
    proof
      assume "a \<in># w_free v"
      then have "FramePoolOwns v a" using own v Cons.prems(2) by auto
      moreover obtain j where "j < length ws" "ws ! j = v" using v by (auto simp: in_set_conv_nth)
      moreover have "\<not> (FramePoolOwns ((w # ws) ! 0) a \<and> FramePoolOwns ((w # ws) ! Suc j) a)" if "j < length ws" for j
        using Cons.prems(1) that unfolding pools_apart_def by (metis Suc_less_eq length_Cons nat.distinct(1) zero_less_Suc)
      ultimately show False using o by auto
    qed
    then have "count (\<Sum>w\<leftarrow>ws. w_free w) a = 0" by (induction ws) (auto simp: not_in_iff)
    then show ?thesis using 1 by simp
  next
    case False
    then show ?thesis using Cons.IH [OF ap] Cons.prems(2) by (simp add: not_in_iff)
  qed
qed simp

lemma new_good:
  assumes ws: "\<forall>w \<in> set (cx_workers c). \<exists>b. w = new_worker b \<and> b \<noteq> 0" and len: "length (cx_workers c) \<le> kMaxWorkers"
    and apart: "pools_apart (cx_workers c)" and mem: "cx_mem c = Map.empty" and env: "malloc_ok env c" "sqe_fair env"
  shows "dp_good env c"
proof -
  have "fixed env c" using ws len env new_worker_ok(1) by (auto simp: fixed_def)
  moreover have "aux c" using ws new_worker_ok(2) by (auto simp: aux_def)
  moreover have "frames_ok {#} c"
  proof -
    have "used c = {#}" unfolding used_def using ws new_worker_ok(5) by (intro sum_list_empty(2)) auto
    moreover have "count (free c) a \<le> 1" for a unfolding free_def using free_apart [OF apart] ws by blast
    moreover have "a \<noteq> 0" if "a \<in># free c" for a
    proof -
      from that obtain w where "w \<in> set (cx_workers c)" "a \<in># w_free w" unfolding free_def by (induction "cx_workers c") auto
      then show ?thesis using ws pool_frames_in by (fastforce simp: new_worker_ok)
    qed
    moreover have "FramePoolOwns w a" if "w \<in> set (cx_workers c)" "a \<in># w_free w" for w a
      using that ws pool_frames_in by (fastforce simp: new_worker_ok FramePoolOwns_def new_worker_fields)
    ultimately show ?thesis using mem by (simp add: frames_ok_def)
  qed
  moreover have "sends_ok c" using ws new_worker_ok(4) by (auto simp: sends_ok_def)
  moreover have "conns_ok c" using ws new_worker_ok(3) by (metis conns_ok_def nth_mem wk_def)
  ultimately show ?thesis by (simp add: dp_good_def dp_inv_def)
qed

lemma DpInit_good:
  assumes "DpInit e n = Some c" "pools_apart (cx_workers c)" "malloc_ok env c" "sqe_fair env"
  shows "dp_good env c" "\<forall>w \<in> set (cx_workers c). w_fd_map w = (\<lambda>_. None)" "1 \<le> length (cx_workers c)"
proof -
  obtain ws where ws: "init_workers e [0..<nat (if (if n < 1 then 1 else n) > int kMaxWorkers then int kMaxWorkers else if n < 1 then 1 else n)] = Some ws"
    "cx_workers c = ws" "cx_mem c = Map.empty" using assms(1) by (auto simp: DpInit_def Let_def split: bind_splits)
  note W = init_workers_new [OF ws(1)]
  then have len: "length ws \<le> kMaxWorkers" "1 \<le> length ws" by (auto simp: kMaxWorkers_def)
  show "dp_good env c" using W len assms ws by (intro new_good) auto
  show "\<forall>w \<in> set (cx_workers c). w_fd_map w = (\<lambda>_. None)" using W ws(2) by (auto simp: new_worker_fields)
  show "1 \<le> length (cx_workers c)" using len ws(2) by simp
qed

section \<open>Rounds\<close>

text \<open>
  What is promised of the commands a worker finds, each in the state it is executed in, and of
  a completion: it answers a request that is pending.
\<close>

fun cmds_ok :: "nat \<Rightarrow> dp_env \<Rightarrow> nat \<Rightarrow> Ctx \<Rightarrow> bool" where
  "cmds_ok 0 env i c = True"
| "cmds_ok (Suc n) env i c =
     (case RingPop (w_cmd_ring (wk c i)) of
        (ring, rc, Some cmd) \<Rightarrow>
          (let c = set_wk i ((wk c i)\<lparr>w_cmd_ring := ring\<rparr>) c in
           cmd_ok c i cmd \<and> (case ProcessCmd env i cmd c of None \<Rightarrow> True | Some c \<Rightarrow> cmds_ok n env i c))
      | (ring, rc, None) \<Rightarrow> True)"

definition cqe_ok :: "dp_env \<Rightarrow> nat \<Rightarrow> Cqe \<Rightarrow> Ctx \<Rightarrow> bool" where
  "cqe_ok env i cqe c =
     (if bit (cqe_user_data cqe) 63 then frames_ok {#(unat (cqe_user_data cqe AND NOT (push_bit 63 1)), 0)#} c
      else (let op = UdOp (cqe_user_data cqe) in
        if op = kOpRecv then recv_expected c i cqe
        else if op = kOpSend then send_expected c i cqe
        else if op = kOpPollCmd then cmds_ok kCmdRingSize env i c
        else True))"

fun cqes_ok :: "dp_env \<Rightarrow> nat \<Rightarrow> Cqe list \<Rightarrow> Ctx \<Rightarrow> bool" where
  "cqes_ok env i [] c = True"
| "cqes_ok env i (cqe # cqes) c =
     (cqe_ok env i cqe c \<and> (case process_cqe env i cqe c of None \<Rightarrow> True | Some c \<Rightarrow> cqes_ok env i cqes c))"

lemma cmd_ring_good:
  assumes "dp_good env c" "i < length (cx_workers c)"
  shows "dp_good env (set_wk i ((wk c i)\<lparr>w_cmd_ring := r\<rparr>) c)"
  using worker_good [OF assms]
  by (intro good_set_wk [OF assms]) (simp_all add: worker_fixed_def conn_ok_def worker_aux_def w_frames_def w_used_def w_free_def)

lemma commands_loop_good:
  assumes "dp_good env c" "i < length (cx_workers c)" "cmds_ok n env i c"
  shows "good_ends env (length (cx_workers c)) (commands_loop n env i c)"
  using assms
proof (induction n arbitrary: c)
  case (Suc n)
  obtain ring rc got where pop: "RingPop (w_cmd_ring (wk c i)) = (ring, rc, got)" by (metis prod_cases3)
  show ?case
  proof (cases got)
    case None
    then show ?thesis using pop Suc.prems(1) by simp
  next
    case (Some cmd)
    let ?c = "set_wk i ((wk c i)\<lparr>w_cmd_ring := ring\<rparr>) c"
    have g: "dp_good env ?c" "i < length (cx_workers ?c)" using cmd_ring_good [OF Suc.prems(1,2)] Suc.prems(2) by simp_all
    have ok: "cmd_ok ?c i cmd" using Suc.prems(3) pop Some by (simp add: Let_def)
    from ProcessCmd_good [OF g ok] obtain d where d: "ProcessCmd env i cmd ?c = Some d" "dp_good env d" "length (cx_workers d) = length (cx_workers c)"
      by (auto simp: good_ends_def)
    have "cmds_ok n env i d" using Suc.prems(3) pop Some d(1) by (simp add: Let_def)
    from Suc.IH [OF d(2) _ this] show ?thesis using pop Some d Suc.prems(2) by simp
  qed
qed simp

lemma ProcessXfer_good: "dp_good env c \<Longrightarrow> i < length (cx_workers c) \<Longrightarrow> good_ends env (length (cx_workers c)) (ProcessXfer env i c)"
  using ProcessXfer_ends [OF good_inv, of env c i] by (intro good_from) (auto simp: dp_ends_def)

lemma rearm_good: "dp_good env c \<Longrightarrow> good_ends env (length (cx_workers c)) (Some (rearm env i cqe op c))"
  by (rule good_from [OF _ rearm_ends [OF good_inv]])

lemma process_cqe_good:
  assumes good: "dp_good env c" and i: "i < length (cx_workers c)" and ok: "cqe_ok env i cqe c"
  shows "good_ends env (length (cx_workers c)) (process_cqe env i cqe c)"
proof -
  note inv = good_inv [OF good]
  let ?a = "unat (cqe_user_data cqe AND NOT (push_bit 63 1))" and ?op = "UdOp (cqe_user_data cqe)"
  have arm: "good_ends env (length (cx_workers c)) (do { c \<leftarrow> r; Some (rearm env i cqe op c) })"
    if "good_ends env (length (cx_workers c)) r" for r op
    using that rearm_good by (intro good_bind [OF that]) metis
  show ?thesis
  proof (cases "bit (cqe_user_data cqe) 63")
    case True
    have "dp_inv env (add_mset (?a, 0) {#}) c" using ok True inv by (simp add: cqe_ok_def dp_inv_def)
    from good_from [OF good FrameFree_ends [OF this i]] show ?thesis using True by (simp add: process_cqe_def)
  next
    case False
    have "good_ends env (length (cx_workers c)) (HandleSendCqe env i cqe c)" if "send_expected c i cqe"
      using good that by (intro good_from [OF good HandleSendCqe_ends [OF inv i]]) (simp_all add: dp_good_def)
    moreover have "good_ends env (length (cx_workers c)) (HandlePollWrite env i cqe c)"
      by (rule good_from [OF good HandlePollWrite_ends [OF inv i]])
    ultimately show ?thesis
      using ok False HandleRecvCqe_good [OF good i, of cqe] arm [OF commands_loop_good [OF good i, of kCmdRingSize]]
        arm [OF ProcessXfer_good [OF good i]] good
      by (auto simp: process_cqe_def cqe_ok_def Let_def ProcessCommands_def kOpRecv_def kOpSend_def kOpPollCmd_def kOpPollXfer_def kOpPollWrite_def)
  qed
qed

lemma cqe_loop_good:
  assumes "dp_good env c" "i < length (cx_workers c)" "cqes_ok env i cqes c"
  shows "good_ends env (length (cx_workers c)) (cqe_loop env i cqes c)"
  using assms
proof (induction cqes arbitrary: c)
  case (Cons cqe cqes)
  obtain d where d: "process_cqe env i cqe c = Some d" "dp_good env d" "length (cx_workers d) = length (cx_workers c)"
    using process_cqe_good [OF Cons.prems(1,2), of cqe] Cons.prems(3) by (auto simp: good_ends_def)
  then show ?case using Cons.IH [OF d(2)] Cons.prems(2,3) by simp
qed simp

lemma worker_round_good:
  assumes good: "dp_good env c" and i: "i < length (cx_workers c)" and ok: "cqes_ok env i (take kMaxCqeBatch cqes) c"
  shows "good_ends env (length (cx_workers c)) (worker_round env i cqes c)"
proof -
  let ?n = "length (cx_workers c)"
  have flush: "good_ends env ?n (FlushPendingSends env i d)" if "dp_good env d" "length (cx_workers d) = ?n" for d
    using good_from [OF that(1) FlushPendingSends_ends [OF good_inv [OF that(1)], of i]] i that(2) by simp
  have signals: "dp_good env (FlushXferSignals i d) \<and> length (cx_workers (FlushXferSignals i d)) = ?n" if "dp_good env d" "length (cx_workers d) = ?n" for d
    using good_from [OF that(1) FlushXferSignals_ends [OF good_inv [OF that(1)], of i]] that(2) by simp
  have drain: "good_ends env ?n (DrainDeferredRecvs env i d)" if "dp_good env d" "length (cx_workers d) = ?n" for d
    using good_from [OF that(1) DrainDeferredRecvs_ends [OF good_inv [OF that(1)], of i]] i that(2) by simp
  have back_in: "good_ends env ?n (Some (FrameReturnDrain i d))" if "dp_good env d" "length (cx_workers d) = ?n" for d
    using good_from [OF that(1) dp_ends_same [OF FrameReturnDrain_inv [OF good_inv [OF that(1)], of i]]] i that(2) by (simp add: dp_step_hts)
  show ?thesis unfolding worker_round_def
    apply (rule good_bind [OF cqe_loop_good [OF good i ok]])
    apply (rule good_bind, rule flush, use signals in simp, use signals in simp)
    apply (rule good_bind, use ProcessXfer_good i in metis)
    apply (rule good_bind, rule flush, assumption, assumption)
    apply (rule good_bind, rule drain, assumption, assumption)
    apply (rule back_in, assumption, assumption)
    done
qed

section \<open>The drain at the end\<close>

definition drain_ok :: "dp_env \<Rightarrow> nat \<Rightarrow> Cqe \<Rightarrow> Ctx \<Rightarrow> bool" where
  "drain_ok env i cqe c \<longleftrightarrow>
     (if bit (cqe_user_data cqe) 63 then frames_ok {#(unat (cqe_user_data cqe AND NOT (push_bit 63 1)), 0)#} c
      else UdOp (cqe_user_data cqe) = kOpSend \<longrightarrow> send_expected c i cqe)"

fun drains_ok :: "dp_env \<Rightarrow> nat \<Rightarrow> Cqe list \<Rightarrow> Ctx \<Rightarrow> bool" where
  "drains_ok env i [] c = True"
| "drains_ok env i (cqe # cqes) c =
     (drain_ok env i cqe c \<and> (case drain_cqe env i cqe c of None \<Rightarrow> True | Some c \<Rightarrow> drains_ok env i cqes c))"

lemma drain_as_process: "drain_cqe env i cqe c \<noteq> Some c \<Longrightarrow> drain_cqe env i cqe c = process_cqe env i cqe c"
  by (auto simp: drain_cqe_def process_cqe_def Let_def kOpSend_def kOpPollWrite_def kOpRecv_def kOpPollCmd_def kOpPollXfer_def split: if_splits)

lemma drain_cqe_good:
  assumes "dp_good env c" "i < length (cx_workers c)" "drain_ok env i cqe c"
  shows "good_ends env (length (cx_workers c)) (drain_cqe env i cqe c)"
proof (cases "drain_cqe env i cqe c = Some c")
  case False
  have "cqe_ok env i cqe c"
    using False assms(3)
    by (auto simp: cqe_ok_def drain_ok_def drain_cqe_def Let_def kOpSend_def kOpPollWrite_def kOpRecv_def kOpPollCmd_def split: if_splits)
  then show ?thesis using process_cqe_good [OF assms(1,2)] drain_as_process [OF False] by simp
qed (use assms in \<open>simp add: good_ends_def\<close>)

lemma drain_cqes_good:
  assumes "dp_good env c" "i < length (cx_workers c)" "drains_ok env i cqes c"
  shows "good_ends env (length (cx_workers c)) (drain_cqes env i cqes c)"
  using assms
proof (induction cqes arbitrary: c)
  case (Cons cqe cqes)
  obtain d where d: "drain_cqe env i cqe c = Some d" "dp_good env d" "length (cx_workers d) = length (cx_workers c)"
    using drain_cqe_good [OF Cons.prems(1,2), of cqe] Cons.prems(3) by (auto simp: good_ends_def)
  then show ?case using Cons.IH [OF d(2)] Cons.prems(2,3) by simp
qed (simp add: good_ends_def)

end
