(* ===== verification/Dp_Packet.thy ===== *)
theory Dp_Packet
  imports Dp_Safety
begin

text \<open>
  The path of a packet: what a DERP client sends to a key is what the client with that key is
  sent, with the sender's key in front, on the same worker or through the ring to another one.
\<close>

section \<open>What waits to be sent\<close>

definition queues :: "Ctx \<Rightarrow> SendItem list list list" where
  "queues c = map (\<lambda>w. map p_queue (w_ht w)) (cx_workers c)"

definition item_bytes :: "Ctx \<Rightarrow> SendItem \<Rightarrow> bytes" where
  "item_bytes c x = take (nat (si_len x)) (the (cx_mem c (si_data x)))"

definition waiting :: "Ctx \<Rightarrow> nat \<Rightarrow> nat \<Rightarrow> bytes list" where
  "waiting c i p = map (item_bytes c) (p_queue (pr c i p))"

lemma queues_pr: "i < length (cx_workers c) \<Longrightarrow> p < length (w_ht (wk c i)) \<Longrightarrow> p_queue (pr c i p) = queues c ! i ! p"
  by (simp add: queues_def pr_def wk_def)

lemma queues_hts: "hts c' = hts c \<Longrightarrow> queues c' = queues c"
proof -
  have "queues c = map (map p_queue) (hts c)" for c by (simp add: queues_def hts_def)
  then show "hts c' = hts c \<Longrightarrow> queues c' = queues c" by simp
qed

lemma queues_set_wk [simp]: "w_ht w = w_ht (wk c i) \<Longrightarrow> queues (set_wk i w c) = queues c"
  by (rule queues_hts) simp

lemma queues_fields [simp]: "queues (c\<lparr>cx_mem := m\<rparr>) = queues c" "queues (c\<lparr>cx_mallocs := n\<rparr>) = queues c"
  "queues (c\<lparr>cx_sqes := n\<rparr>) = queues c" "queues (dp_emit e c) = queues c" "queues (stat i f c) = queues c"
  by (rule queues_hts; simp)+

lemma queues_set_pr: "i < length (cx_workers c) \<Longrightarrow> queues (set_pr i p P c) = (queues c)[i := (queues c ! i)[p := p_queue P]]"
  by (simp add: queues_def set_pr_def set_wk_def map_update wk_def)

lemma queues_set_pr_same [simp]: "p_queue P = p_queue (pr c i p) \<Longrightarrow> queues (set_pr i p P c) = queues c"
proof (cases "i < length (cx_workers c)")
  case True
  assume P: "p_queue P = p_queue (pr c i p)"
  have "(queues c ! i)[p := p_queue P] = queues c ! i"
    using P True by (cases "p < length (w_ht (wk c i))") (simp_all add: queues_def wk_def pr_def list_update_beyond map_update [symmetric])
  then show ?thesis using queues_set_pr [OF True] by simp
qed (simp add: set_pr_def set_wk_def list_update_beyond queues_def)

lemma mem_GetSqe: "GetSqe env i c = (c', ok) \<Longrightarrow> cx_mem c' = cx_mem c"
  by (auto simp: GetSqe_def Let_def stat_def split: if_splits)

lemma mem_submit_next: "submit_next env i p c = Some (c', ok) \<Longrightarrow> cx_mem c' = cx_mem c"
  by (auto simp: submit_next_def SubmitPeerSend_def submit_send_def set_pr_def Let_def
      split: option.splits if_splits bind_splits prod.splits bool.splits dest!: mem_GetSqe)

lemma queues_submit_next: "submit_next env i p c = Some (c', ok) \<Longrightarrow> queues c' = queues c"
  by (auto simp: submit_next_def SubmitPeerSend_def submit_send_def Let_def
      split: option.splits if_splits bind_splits prod.splits bool.splits dest!: GetSqe_hts queues_hts)

lemma kick_send_keeps:
  assumes "kick_send env i p c = Some c'"
  shows "cx_mem c' = cx_mem c \<and> queues c' = queues c"
  using assms by (auto simp: kick_send_def Let_def split: if_splits dest: mem_submit_next queues_submit_next)
    (auto simp: set_pr_def)

lemma pause_recv_keeps [simp]: "cx_mem (pause_recv i c) = cx_mem c" "queues (pause_recv i c) = queues c"
proof -
  show "cx_mem (pause_recv i c) = cx_mem c" by (simp add: pause_recv_def stat_def Let_def)
  show "queues (pause_recv i c) = queues c" by (simp add: pause_recv_def Let_def)
qed

text \<open>A frame is enqueued when the queue has room and there is an item for it.\<close>

lemma EnqueueSend_ok:
  assumes inv: "dp_inv env (add_mset (a, n) H) c" and p: "peer_in c i p"
    and room: "p_send_queued (pr c i p) < kMaxSendQueueDepth" and slab: "0 < w_slab_free (wk c i)"
  shows "\<exists>c'. EnqueueSend env i p a n c = Some c' \<and> dp_inv env H c' \<and> dp_step c c' \<and> cx_mem c' = cx_mem c \<and>
    queues c' = (queues c)[i := (queues c ! i)[p := p_queue (pr c i p) @ [\<lparr>si_data = a, si_len = n, si_slab = True\<rparr>]]]"
proof -
  note b = peer_inD(1,2) [OF inv p]
  obtain c' where c': "EnqueueSend env i p a n c = Some c'" "dp_inv env H c'" "dp_step c c'"
    using EnqueueSend_ends [OF inv p] by (auto simp: dp_ends_def)
  let ?x = "\<lparr>si_data = a, si_len = n, si_slab = True\<rparr>"
  define d where "d = set_wk i ((wk c i)\<lparr>w_slab_free := w_slab_free (wk c i) - 1\<rparr>) c"
  obtain e where e: "kick_send env i p (append_item i p ?x d) = Some e" "c' = pause_recv i e"
    using c'(1) room slab by (auto simp: EnqueueSend_def SlabAllocItem_def d_def Let_def)
  have "queues (append_item i p ?x d) = (queues c)[i := (queues c ! i)[p := p_queue (pr c i p) @ [?x]]]"
    using b by (simp add: append_item_def Let_def queues_set_pr d_def)
  moreover have "cx_mem (append_item i p ?x d) = cx_mem c" by (simp add: append_item_def Let_def set_pr_def d_def)
  ultimately show ?thesis using c' e kick_send_keeps [OF e(1)] by simp
qed

text \<open>Allocation changes memory that nothing used.\<close>

lemma free_mem:
  assumes "dp_inv env H c" "i < length (cx_workers c)" "a \<in> set (w_frame_pool_free (wk c i))"
  shows "cx_mem c a = None"
proof -
  have "w_free (wk c i) \<subseteq># free c" unfolding free_def wk_def using assms(2) by (intro elem_sum_list) simp
  moreover have "a \<in># w_free (wk c i)" using assms(3) by (simp add: w_free_def)
  ultimately show ?thesis using frames_okD(3) [OF dp_invD(3) [OF assms(1)]] mset_subset_eqD by metis
qed

lemma FrameAlloc_mem:
  assumes inv: "dp_inv env H c" and i: "i < length (cx_workers c)" and r: "FrameAlloc env c i n = (c', a)" and a: "a \<noteq> 0"
  shows "cx_mem c a = None" "b \<noteq> a \<Longrightarrow> cx_mem c' b = cx_mem c b"
proof -
  have take: "cx_mem d a = None \<and> (b \<noteq> a \<longrightarrow> cx_mem c' b = cx_mem d b)"
    if "pool_take i d = Some (c', a)" "dp_inv env H d" "i < length (cx_workers d)" for d
    using that(1) free_mem [OF that(2,3)] by (auto simp: pool_take_def Let_def stat_def split: list.splits)
  have miss: "cx_mem d a = None \<and> (b \<noteq> a \<longrightarrow> cx_mem c' b = cx_mem d b)" if "dp_malloc env (stat i f d) n = (c', a)" "dp_inv env H d" for f d
  proof -
    have m: "cx_mem (stat i f d) = cx_mem d" by (simp add: stat_def)
    have "a = de_malloc env (cx_mallocs (stat i f d)) (cx_mem d)" using that(1) a m by (auto simp: dp_malloc_def Let_def split: if_splits)
    then have "cx_mem d a = None" using dp_invD(5) [OF that(2)] a unfolding malloc_ok_def by metis
    then show ?thesis using that(1) a m by (auto simp: dp_malloc_def Let_def split: if_splits)
  qed
  have d: "dp_inv env H (FrameReturnDrain i c)" "i < length (cx_workers (FrameReturnDrain i c))" "cx_mem (FrameReturnDrain i c) = cx_mem c"
    using FrameReturnDrain_inv [OF inv i] coreD(1) [OF core_FrameReturnDrain] i by (auto simp: FrameReturnDrain_def Let_def)
  have "cx_mem c a = None \<and> (b \<noteq> a \<longrightarrow> cx_mem c' b = cx_mem c b)"
    using r take [OF _ inv i] take [OF _ d(1,2)] miss [OF _ inv] miss [OF _ d(1)] d(3)
    by (auto simp: FrameAlloc_def Let_def split: if_splits option.splits)
  then show "cx_mem c a = None" "b \<noteq> a \<Longrightarrow> cx_mem c' b = cx_mem c b" by simp_all
qed

section \<open>On one worker\<close>

lemma waiting_keeps:
  assumes inv: "dp_inv env H c" and p: "peer_in c i p" and q: "p_queue (pr c' i p) = p_queue (pr c i p)"
    and m: "\<And>b. cx_mem c b \<noteq> None \<Longrightarrow> cx_mem c' b = cx_mem c b"
  shows "waiting c' i p = waiting c i p"
proof -
  have "cx_mem c' (si_data x) = cx_mem c (si_data x)" if "x \<in> set (p_queue (pr c i p))" for x
    using queued_used(2) [OF inv p that] m by (auto simp: fits_def item_frame_def)
  then show ?thesis unfolding waiting_def q by (simp add: item_bytes_def)
qed

text \<open>What allocation leaves alone besides.\<close>

definition side :: "Ctx \<Rightarrow> (nat \<times> XferSpscRing list \<times> u32) list" where
  "side c = map (\<lambda>w. (w_slab_free w, w_xfer_inbox w, w_pending_sources w)) (cx_workers c)"

lemma side_set_wk [simp]:
  assumes "w_slab_free w = w_slab_free (wk c i)" "w_xfer_inbox w = w_xfer_inbox (wk c i)" "w_pending_sources w = w_pending_sources (wk c i)"
  shows "side (set_wk i w c) = side c"
  using assms by (cases "i < length (cx_workers c)")
    (simp_all add: side_def set_wk_def wk_def map_update list_update_same_conv list_update_beyond)

lemma side_fields [simp]: "side (c\<lparr>cx_mem := m\<rparr>) = side c" "side (c\<lparr>cx_mallocs := n\<rparr>) = side c" "side (stat i f c) = side c"
  "side (FrameReturnDrain i c) = side c"
  by (simp_all add: stat_def FrameReturnDrain_def Let_def) (simp_all add: side_def)

lemma side_FrameAlloc:
  assumes "FrameAlloc env c i n = (c', a)"
  shows "side c' = side c"
proof -
  have take: "pool_take i d = Some (c', a) \<Longrightarrow> side c' = side d" for d
    by (auto simp: pool_take_def Let_def split: list.splits)
  have miss: "dp_malloc env d n = (c', a) \<Longrightarrow> side c' = side d" for d
    by (auto simp: dp_malloc_def Let_def split: if_splits)
  show ?thesis using assms by (auto simp: FrameAlloc_def Let_def split: if_splits option.splits dest!: take miss)
qed

lemma sideD:
  assumes "side c' = side c" "j < length (cx_workers c)"
  shows "w_slab_free (wk c' j) = w_slab_free (wk c j)" "w_xfer_inbox (wk c' j) = w_xfer_inbox (wk c j)"
    "w_pending_sources (wk c' j) = w_pending_sources (wk c j)"
proof -
  have "length (cx_workers c') = length (cx_workers c)" using assms(1) map_eq_imp_length_eq unfolding side_def by blast
  then have "side c' ! j = (w_slab_free (wk c' j), w_xfer_inbox (wk c' j), w_pending_sources (wk c' j))"
    "side c ! j = (w_slab_free (wk c j), w_xfer_inbox (wk c j), w_pending_sources (wk c j))"
    using assms(2) by (simp_all add: side_def wk_def)
  then show "w_slab_free (wk c' j) = w_slab_free (wk c j)" "w_xfer_inbox (wk c' j) = w_xfer_inbox (wk c j)"
    "w_pending_sources (wk c' j) = w_pending_sources (wk c j)" using assms(1) by simp_all
qed

text \<open>The frame that a packet becomes, written into a new buffer.\<close>

lemma packet_frame:
  assumes inv: "dp_inv env H c" and p: "peer_in c i p" and run: "w_running (wk c i)" and derp: "p_protocol (pr c i p) = Protocol_kDerp"
    and dst: "is_Key dst" and buf: "snd (FrameAlloc env c i (kFrameHeaderSize + kKeySize + int (length data))) \<noteq> 0"
    and len: "kKeySize + int (length data) \<le> kMaxFramePayload"
  defines "frame \<equiv> derp_frame Frame_kRecvPacket (p_key (pr c i p) @ data)"
  shows "\<exists>a c1. dp_inv env (add_mset (a, int (length frame)) H) c1 \<and> dp_step c c1 \<and> hts c1 = hts c \<and>
    (\<exists>m. cx_mem c1 a = Some m \<and> take (length frame) m = frame) \<and> (\<forall>b. cx_mem c b \<noteq> None \<longrightarrow> cx_mem c1 b = cx_mem c b) \<and>
    side c1 = side c \<and>
    DispatchFrame env i p (derp_frame Frame_kSendPacket (dst @ data)) (kKeySize + int (length data)) c =
      (case HtLookup (wk c1 i) dst of
         Some q \<Rightarrow>
           if p_protocol (pr c1 i q) = Protocol_kHd then do {
             c \<leftarrow> FrameFree i a c1;
             let sz = kHdFrameHeaderSize + kMaxFramePayload;
             (hd_frame, hd_len) \<leftarrow> BridgeDerpToHd (dst @ data) (int (length (dst @ data))) (replicate (nat sz) 0) sz;
             if hd_len > 0 then do { bs \<leftarrow> rd 0 hd_len hd_frame; send_copy env i q bs c } else Some c }
           else EnqueueSend env i q a (int (length frame)) c1
       | None \<Rightarrow>
           (case RouteLookup (w_routes (wk c1 i)) dst of
              None \<Rightarrow> FrameFree i a c1
            | Some r \<Rightarrow>
                (let rt = w_routes (wk c1 i) ! r in
                 if r_worker_id rt < 0 \<or> r_worker_id rt \<ge> int (length (cx_workers c1)) then None
                 else xfer_send i (nat (r_worker_id rt)) (r_fd rt) a (int (length frame)) c1)))"
proof -
  let ?n = "kFrameHeaderSize + kKeySize + int (length data)"
  note i = peer_inD(1) [OF inv p] and key = peer_inD(6) [OF inv p]
  obtain d a where A: "FrameAlloc env c i ?n = (d, a)" "a \<noteq> 0" using buf by (cases "FrameAlloc env c i ?n") simp
  have n: "int (length frame) = ?n" using key by (simp add: frame_def derp_frame_def is_Key_def)
  have inv1: "dp_inv env (add_mset (a, ?n) H) d" using FrameAlloc_inv [OF inv i A(1)] A(2) by simp
  from frames_ok_held [OF dp_invD(3) [OF inv1], of "(a, ?n)"]
  obtain m where m: "cx_mem d a = Some m" "length frame \<le> length m" using n by (auto simp: fits_def)
  have k: "p_key (pr d i p) = p_key (pr c i p)" using pr_hts [OF hts_FrameAlloc [OF A(1)] i] by simp
  define c1 where "c1 = d\<lparr>cx_mem := (cx_mem d)(a \<mapsto> frame @ drop (length frame) m)\<rparr>"
  have put: "put_frame a frame d = Some c1" using m by (simp add: put_frame_def wr_0 c1_def)
  from put_frame_ends [OF inv1, of frame] put n
  have E: "dp_inv env (add_mset (a, ?n) H) c1" "dp_step d c1" by (simp_all add: dp_ends_def)
  have build: "BuildRecvPacket m (p_key (pr d i p)) data (int (length data)) = Some (frame @ drop (length frame) m, ?n)"
    using BuildRecvPacket_builds [OF key refl, of m data] m(2) n unfolding k frame_def by (simp add: builds_def wrote_def)
  have hts1: "hts c1 = hts c" using hts_FrameAlloc [OF A(1)] by (simp add: c1_def)
  have mem: "cx_mem c1 b = cx_mem c b" if "cx_mem c b \<noteq> None" for b
    using FrameAlloc_mem [OF inv i A] that by (cases "b = a") (auto simp: c1_def)
  have fields: "side c1 = side c" using side_FrameAlloc [OF A(1)] by (simp add: c1_def)
  have d32: "length dst = 32" using dst by (simp add: is_Key_def)
  have ty: "ReadFrameType (derp_frame Frame_kSendPacket (dst @ data)) = Some Frame_kSendPacket"
    by (simp add: ReadFrameType_def derp_frame_def rd8_def FrameType_of_def)
  have pay: "rd kFrameHeaderSize (kKeySize + int (length data)) (derp_frame Frame_kSendPacket (dst @ data)) = Some (dst @ data)"
    using d32 by (simp add: rd_def derp_frame_def)
  have "DispatchFrame env i p (derp_frame Frame_kSendPacket (dst @ data)) (kKeySize + int (length data)) c =
      ForwardMsg env i Frame_kSendPacket (dst @ data) p c"
    unfolding DispatchFrame_def ty pay using derp by simp
  also have "\<dots> = (case HtLookup (wk c1 i) dst of
         Some q \<Rightarrow>
           if p_protocol (pr c1 i q) = Protocol_kHd then do {
             c \<leftarrow> FrameFree i a c1;
             let sz = kHdFrameHeaderSize + kMaxFramePayload;
             (hd_frame, hd_len) \<leftarrow> BridgeDerpToHd (dst @ data) (int (length (dst @ data))) (replicate (nat sz) 0) sz;
             if hd_len > 0 then do { bs \<leftarrow> rd 0 hd_len hd_frame; send_copy env i q bs c } else Some c }
           else EnqueueSend env i q a (int (length frame)) c1
       | None \<Rightarrow>
           (case RouteLookup (w_routes (wk c1 i)) dst of
              None \<Rightarrow> FrameFree i a c1
            | Some r \<Rightarrow>
                (let rt = w_routes (wk c1 i) ! r in
                 if r_worker_id rt < 0 \<or> r_worker_id rt \<ge> int (length (cx_workers c1)) then None
                 else xfer_send i (nat (r_worker_id rt)) (r_fd rt) a (int (length frame)) c1)))"
  proof -
    have e: "take (nat kKeySize) (dst @ data) = dst" "drop (nat kKeySize) (dst @ data) = data"
      "int (length (dst @ data)) - kKeySize = int (length data)" "\<not> int (length (dst @ data)) < kKeySize" using d32 by simp_all
    show ?thesis unfolding ForwardMsg_def Let_def e if_not_P [OF e(4)] A(1) prod.case if_not_P [OF A(2)] m(1) bind.bind_lunit build n
        c1_def [symmetric] using run by simp
  qed
  finally show ?thesis using E hts1 mem fields n dp_step_trans [OF FrameAlloc_step [OF A(1)] E(2)] by (intro exI [of _ a] exI [of _ c1]) (auto simp: c1_def)
qed

text \<open>What waits after a frame was enqueued.\<close>

lemma waiting_append:
  assumes inv: "dp_inv env (add_mset (a, int (length f)) H) c1" and q: "peer_in c1 i q" and m: "cx_mem c1 a = Some m" "take (length f) m = f"
    and r: "cx_mem c2 = cx_mem c1" "queues c2 = (queues c1)[i := (queues c1 ! i)[q := p_queue (pr c1 i q) @ [\<lparr>si_data = a, si_len = int (length f), si_slab = s\<rparr>]]]"
    and st: "dp_step c1 c2"
  shows "waiting c2 i q = waiting c1 i q @ [f]"
    "peer_in c1 j k \<Longrightarrow> (j, k) \<noteq> (i, q) \<Longrightarrow> waiting c2 j k = waiting c1 j k"
proof -
  note b = peer_inD(1,2) [OF inv q]
  have ib: "item_bytes c2 = item_bytes c1" by (simp add: fun_eq_iff item_bytes_def r(1))
  have len: "length (cx_workers c2) = length (cx_workers c1)" "j < length (cx_workers c1) \<Longrightarrow> length (w_ht (wk c2 j)) = length (w_ht (wk c1 j))" for j
    using coreD(1,5) [OF dp_stepD(1) [OF st]] worker_coreD(7) by auto
  have ql: "i < length (queues c1)" "q < length (queues c1 ! i)" using b by (simp_all add: queues_def wk_def)
  have "p_queue (pr c2 i q) = p_queue (pr c1 i q) @ [\<lparr>si_data = a, si_len = int (length f), si_slab = s\<rparr>]"
    using queues_pr [of i c2 q] b len r(2) ql by simp
  then show "waiting c2 i q = waiting c1 i q @ [f]" using m by (simp add: waiting_def ib) (simp add: item_bytes_def)
  assume k: "peer_in c1 j k" "(j, k) \<noteq> (i, q)"
  note kb = peer_inD(1,2) [OF inv k(1)]
  have "queues c2 ! j ! k = queues c1 ! j ! k"
  proof (cases "j = i")
    case True
    then have "k \<noteq> q" using k(2) by simp
    then show ?thesis using True ql(1) r(2) by simp
  qed (use r(2) in simp)
  then have "p_queue (pr c2 j k) = p_queue (pr c1 j k)" using queues_pr [of j c2 k] queues_pr [of j c1 k] kb len by simp
  then show "waiting c2 j k = waiting c1 j k" by (simp add: waiting_def ib)
qed

lemma waiting_new:
  assumes "dp_inv env H c" "hts c1 = hts c" "\<forall>b. cx_mem c b \<noteq> None \<longrightarrow> cx_mem c1 b = cx_mem c b" "peer_in c i p"
  shows "waiting c1 i p = waiting c i p"
  using assms pr_hts [OF assms(2) peer_inD(1) [OF assms(1,4)]] by (intro waiting_keeps) auto

lemma local_packet:
  assumes good: "dp_good env c" and p: "peer_in c i p" "p_protocol (pr c i p) = Protocol_kDerp" and run: "w_running (wk c i)"
    and dst: "is_Key dst" "HtLookup (wk c i) dst = Some q" "p_protocol (pr c i q) = Protocol_kDerp"
    and len: "kKeySize + int (length data) \<le> kMaxFramePayload"
    and room: "p_send_queued (pr c i q) < kMaxSendQueueDepth" "0 < w_slab_free (wk c i)"
      "snd (FrameAlloc env c i (kFrameHeaderSize + kKeySize + int (length data))) \<noteq> 0"
  shows "\<exists>c'. DispatchFrame env i p (derp_frame Frame_kSendPacket (dst @ data)) (kKeySize + int (length data)) c = Some c' \<and> dp_good env c' \<and>
    waiting c' i q = waiting c i q @ [derp_frame Frame_kRecvPacket (p_key (pr c i p) @ data)] \<and>
    (\<forall>j k. peer_in c j k \<longrightarrow> (j, k) \<noteq> (i, q) \<longrightarrow> waiting c' j k = waiting c j k)"
proof -
  note inv = good_inv [OF good] and i = peer_inD(1) [OF good_inv [OF good] p(1)]
  let ?f = "derp_frame Frame_kRecvPacket (p_key (pr c i p) @ data)"
  let ?d = "DispatchFrame env i p (derp_frame Frame_kSendPacket (dst @ data)) (kKeySize + int (length data)) c"
  obtain a c1 m where c1: "dp_inv env (add_mset (a, int (length ?f)) {#}) c1" "dp_step c c1" "hts c1 = hts c" "cx_mem c1 a = Some m"
      "take (length ?f) m = ?f" "\<forall>b. cx_mem c b \<noteq> None \<longrightarrow> cx_mem c1 b = cx_mem c b" "side c1 = side c"
      "HtLookup (wk c1 i) dst = Some q \<Longrightarrow> p_protocol (pr c1 i q) = Protocol_kDerp \<Longrightarrow> ?d = EnqueueSend env i q a (int (length ?f)) c1"
    using packet_frame [OF inv p(1) run p(2) dst(1) room(3) len] by auto
  have pr1: "pr c1 i q = pr c i q" using pr_hts [OF c1(3) i] .
  have "HtLookup (wk c1 i) dst = Some q" using HtLookup_ht [OF w_ht_hts [OF c1(3) i]] dst(2) by simp
  then have eq: "?d = EnqueueSend env i q a (int (length ?f)) c1" using c1(8) dst(3) pr1 by simp
  have q: "peer_in c1 i q" using HtLookup_in [OF dst(2)] i dp_stepD(2) [OF c1(2)] by (simp add: peer_in_def)
  obtain c2 where c2: "EnqueueSend env i q a (int (length ?f)) c1 = Some c2" "dp_inv env {#} c2" "dp_step c1 c2" "cx_mem c2 = cx_mem c1"
      "queues c2 = (queues c1)[i := (queues c1 ! i)[q := p_queue (pr c1 i q) @ [\<lparr>si_data = a, si_len = int (length ?f), si_slab = True\<rparr>]]]"
    using EnqueueSend_ok [OF c1(1) q] room(1,2) pr1 sideD(1) [OF c1(7) i] by auto
  note W = waiting_append [OF c1(1) q c1(4,5) c2(4,5,3)]
  have "dp_good env c2" using good_from [OF good, of "Some c2"] c2(2) dp_step_trans [OF c1(2) c2(3)] by (simp add: dp_ends_same)
  moreover have "waiting c1 j k = waiting c j k" if "peer_in c j k" for j k by (rule waiting_new [OF inv c1(3,6) that])
  moreover have "peer_in c i q" using q peer_in_step [OF c1(2)] by simp
  ultimately show ?thesis using eq c2(1) W peer_in_step [OF c1(2)] by (intro exI [of _ c2]) simp
qed

section \<open>Between workers\<close>

text \<open>Pushing to an empty ring.\<close>

lemma xfer_send_first:
  assumes inv: "dp_inv env (add_mset (a, n) H) c" and i: "i < length (cx_workers c)" and d: "d < length (cx_workers c)" "d \<noteq> i" and fd: "dp_fd fd"
    and empty: "xfer_ring_contents (w_xfer_inbox (wk c d) ! i) = []" "w_pending_sources (wk c d) = 0"
  shows "\<exists>c' ring x. xfer_send i d fd a n c = Some c' \<and> dp_inv env H c' \<and> dp_step c c' \<and> hts c' = hts c \<and> cx_mem c' = cx_mem c \<and>
    wk c' d = (wk c d)\<lparr>w_xfer_inbox := (w_xfer_inbox (wk c d))[i := ring], w_pending_sources := worker_bit i\<rparr> \<and>
    xfer_ring_inv ring \<and> xfer_ring_contents ring = [x] \<and> x = \<lparr>x_dst_fd = fd, x_frame = a, x_frame_len = n, x_dst_gen = w_fd_gen (wk c d) fd\<rparr>"
proof -
  define x where "x = \<lparr>x_dst_fd = fd, x_frame = a, x_frame_len = n, x_dst_gen = w_fd_gen (wk c d) fd\<rparr>"
  note r = xfer_ring_in [OF inv i d(1)]
  obtain ring rc where p: "XferSpscPush (w_xfer_inbox (wk c d) ! i) x = (ring, rc)" by fastforce
  obtain c' where c': "xfer_send i d fd a n c = Some c'" "dp_inv env H c'" "dp_step c c'"
    using xfer_send_ends [OF inv i d(1) fd] by (auto simp: dp_ends_def)
  have ring: "0 \<le> rc" "xfer_ring_inv ring" "xfer_ring_contents ring = [x]"
    using xq.push_room [OF r(2), of x] empty(1) p by (auto simp: xfer_push_def kXferSpscSize_def split: if_splits)
  have "c' = (let c = set_wk d ((wk c d)\<lparr>w_xfer_inbox := (w_xfer_inbox (wk c d))[i := ring], w_pending_sources := worker_bit i\<rparr>) c; w = wk c i in
      if rc = 1 then set_wk i (w\<lparr>w_xfer_signal_pending := w_xfer_signal_pending w OR worker_bit d\<rparr>) c else c)"
    using c'(1) p fd ring(1) empty(2) by (simp add: xfer_send_def x_def Let_def)
  then have "hts c' = hts c" "cx_mem c' = cx_mem c"
    "wk c' d = (wk c d)\<lparr>w_xfer_inbox := (w_xfer_inbox (wk c d))[i := ring], w_pending_sources := worker_bit i\<rparr>"
    using d by (simp_all add: Let_def wk_set_wk)
  then show ?thesis using c' ring unfolding x_def by blast
qed

lemma filter_one: "filter (\<lambda>j. j = i) [0..<n] = (if i < n then [i] else [])"
  by (induction n) auto

lemma set_bits_worker: "i < kMaxWorkers \<Longrightarrow> set_bits (worker_bit i) = [i]"
proof -
  assume i: "i < kMaxWorkers"
  have "bit (worker_bit i) j \<longleftrightarrow> j = i" if "j < kMaxWorkers" for j
    using i that by (auto simp: worker_bit_def bit_simps kMaxWorkers_def)
  then have "filter (\<lambda>j. bit (worker_bit i) j) [0..<kMaxWorkers] = filter (\<lambda>j. j = i) [0..<kMaxWorkers]" by (intro filter_cong) auto
  also have "\<dots> = [i]" using i filter_one [of i kMaxWorkers] by simp
  finally show ?thesis by (simp add: set_bits_def)
qed

text \<open>One transfer in one inbox: it is accepted, and the ring is empty.\<close>

lemma ProcessXfer_one:
  assumes inv: "dp_inv env H c" and d: "d < length (cx_workers c)" and i: "i < kMaxWorkers" and src: "w_pending_sources (wk c d) = worker_bit i"
    and ring: "xfer_ring_contents (w_xfer_inbox (wk c d) ! i) = [x]"
  shows "\<exists>r. xfer_ring_inv r \<and> xfer_ring_contents r = [] \<and>
    (let c1 = set_wk d ((wk c d)\<lparr>w_pending_sources := 0, w_xfer_inbox := (w_xfer_inbox (wk c d))[i := r]\<rparr>) c in
     dp_inv env (add_mset (xfer_frame x) H) c1 \<and> dp_step c c1 \<and> hts c1 = hts c \<and>
     ProcessXfer env d c = accept_xfer env d x c1)"
proof -
  define c0 where "c0 = set_wk d ((wk c d)\<lparr>w_pending_sources := 0\<rparr>) c"
  have inv0: "dp_inv env H c0" unfolding c0_def by (rule dp_inv_set_wk [OF inv]) (use dp_invD(8) [OF inv] in simp_all)
  have w0: "wk c0 d = (wk c d)\<lparr>w_pending_sources := 0\<rparr>" "d < length (cx_workers c0)" using d by (simp_all add: c0_def)
  have ib: "i < length (w_xfer_inbox (wk c d))" "xfer_ring_inv (w_xfer_inbox (wk c d) ! i)"
    using dp_invD(8) [OF inv d] i by (auto simp: worker_aux_def)
  from ib(2) obtain r where r: "xfer_pop (w_xfer_inbox (wk c d) ! i) = Some (x, r)" "xfer_ring_inv r" "xfer_ring_contents r = []"
    using ring by (auto elim: xq.pop_cases)
  define c1 where "c1 = set_wk d ((wk c0 d)\<lparr>w_xfer_inbox := (w_xfer_inbox (wk c0 d))[i := r]\<rparr>) c0"
  have inv1: "dp_inv env (add_mset (xfer_frame x) H) c1" unfolding c1_def
    by (rule xfer_take_inv [OF inv0 w0(2)]) (use ib(1) w0(1) r ring in simp_all)
  have c1: "c1 = set_wk d ((wk c d)\<lparr>w_pending_sources := 0, w_xfer_inbox := (w_xfer_inbox (wk c d))[i := r]\<rparr>) c"
    unfolding c1_def w0(1) by (simp add: c0_def)
  have st: "dp_step c c1" "hts c1 = hts c" unfolding c1 by (simp_all add: dp_step_hts)
  have empty: "xfer_loop n env d i c2 = Some c2" if "inboxes c2 = inboxes c1" for n c2
  proof -
    have l: "length (cx_workers c2) = length (cx_workers c1)" using arg_cong [OF that, of length] by (simp add: inboxes_def del: length_map) (metis length_map)
    have "w_xfer_inbox (wk c2 d) = w_xfer_inbox (wk c1 d)"
      using that l d unfolding inboxes_def wk_def c1 by (metis length_set_wk nth_map)
    then have "w_xfer_inbox (wk c2 d) ! i = r" using ib(1) d by (simp add: c1)
    moreover obtain rc where "XferSpscPop r = (r, rc, None)" using pop_None [OF xq.pop_empty [OF r(2,3)]] by blast
    ultimately show ?thesis by (cases n) simp_all
  qed
  have "xfer_loop kXferSpscSize env d i c0 = accept_xfer env d x c1"
  proof -
    obtain n where n: "kXferSpscSize = Suc n" by (cases kXferSpscSize) (simp_all add: kXferSpscSize_def)
    have "XferSpscPop (w_xfer_inbox (wk c0 d) ! i) = (r, 0, Some x)" using pop_Some [OF r(1)] w0(1) by simp
    then have "xfer_loop kXferSpscSize env d i c0 = accept_xfer env d x c1 \<bind> xfer_loop n env d i"
      by (simp add: n c1_def)
    also have "\<dots> = accept_xfer env d x c1"
      using empty inboxes_accept by (cases "accept_xfer env d x c1") auto
    finally show ?thesis .
  qed
  then have "ProcessXfer env d c = accept_xfer env d x c1"
    using set_bits_worker [OF i] by (cases "accept_xfer env d x c1") (simp_all add: ProcessXfer_def src c0_def [symmetric] Let_def)
  then show ?thesis using r inv1 st unfolding c1 Let_def by blast
qed

lemma remote_packet:
  assumes good: "dp_good env c" and p: "peer_in c i p" "p_protocol (pr c i p) = Protocol_kDerp" and run: "w_running (wk c i)"
    and dst: "is_Key dst" "HtLookup (wk c i) dst = None" "RouteLookup (w_routes (wk c i)) dst = Some r"
    and to: "r_worker_id (w_routes (wk c i) ! r) = int d" "d \<noteq> i" "peer_at c d (r_fd (w_routes (wk c i) ! r)) = Some q"
    and len: "kKeySize + int (length data) \<le> kMaxFramePayload"
    and room: "p_send_queued (pr c d q) < kMaxSendQueueDepth" "0 < w_slab_free (wk c d)"
      "snd (FrameAlloc env c i (kFrameHeaderSize + kKeySize + int (length data))) \<noteq> 0"
    and idle: "xfer_ring_contents (w_xfer_inbox (wk c d) ! i) = []" "w_pending_sources (wk c d) = 0"
  shows "\<exists>c'. DispatchFrame env i p (derp_frame Frame_kSendPacket (dst @ data)) (kKeySize + int (length data)) c \<bind> ProcessXfer env d = Some c' \<and>
    dp_good env c' \<and> waiting c' d q = waiting c d q @ [derp_frame Frame_kRecvPacket (p_key (pr c i p) @ data)] \<and>
    (\<forall>j k. peer_in c j k \<longrightarrow> (j, k) \<noteq> (d, q) \<longrightarrow> waiting c' j k = waiting c j k)"
proof -
  note inv = good_inv [OF good] and i = peer_inD(1) [OF good_inv [OF good] p(1)]
  let ?f = "derp_frame Frame_kRecvPacket (p_key (pr c i p) @ data)" and ?fd = "r_fd (w_routes (wk c i) ! r)"
  let ?d = "DispatchFrame env i p (derp_frame Frame_kSendPacket (dst @ data)) (kKeySize + int (length data)) c"
  have d: "d < length (cx_workers c)" "dp_fd ?fd" using route_in [OF inv i dst(3)] to(1) by simp_all
  obtain a c1 m where c1: "dp_inv env (add_mset (a, int (length ?f)) {#}) c1" "dp_step c c1" "hts c1 = hts c" "cx_mem c1 a = Some m"
      "take (length ?f) m = ?f" "\<forall>b. cx_mem c b \<noteq> None \<longrightarrow> cx_mem c1 b = cx_mem c b" "side c1 = side c"
      "HtLookup (wk c1 i) dst = None \<Longrightarrow> RouteLookup (w_routes (wk c1 i)) dst = Some r \<Longrightarrow>
        ?d = (let rt = w_routes (wk c1 i) ! r in
          if r_worker_id rt < 0 \<or> r_worker_id rt \<ge> int (length (cx_workers c1)) then None
          else xfer_send i (nat (r_worker_id rt)) (r_fd rt) a (int (length ?f)) c1)"
    using packet_frame [OF inv p(1) run p(2) dst(1) room(3) len] by auto
  note core1 = worker_coreD [OF coreD(5) [OF dp_stepD(1) [OF c1(2)] d(1)]] and len1 = dp_stepD(2) [OF c1(2)]
  have rt1: "w_routes (wk c1 i) = w_routes (wk c i)" using worker_coreD(5) [OF coreD(5) [OF dp_stepD(1) [OF c1(2)] i]] .
  have "HtLookup (wk c1 i) dst = None" using HtLookup_ht [OF w_ht_hts [OF c1(3) i]] dst(2) by simp
  then have eq: "?d = xfer_send i d ?fd a (int (length ?f)) c1" using c1(8) dst(3) rt1 to(1) d(1) len1 by simp
  note S = sideD [OF c1(7) d(1)]
  obtain c2 ring x where c2: "xfer_send i d ?fd a (int (length ?f)) c1 = Some c2" "dp_inv env {#} c2" "dp_step c1 c2" "hts c2 = hts c1"
      "cx_mem c2 = cx_mem c1" "wk c2 d = (wk c1 d)\<lparr>w_xfer_inbox := (w_xfer_inbox (wk c1 d))[i := ring], w_pending_sources := worker_bit i\<rparr>"
      "xfer_ring_contents ring = [x]" "x = \<lparr>x_dst_fd = ?fd, x_frame = a, x_frame_len = int (length ?f), x_dst_gen = w_fd_gen (wk c1 d) ?fd\<rparr>"
    using xfer_send_first [OF c1(1) _ _ to(2) d(2)] i d(1) len1 idle S by auto
  have ib: "i < length (w_xfer_inbox (wk c1 d))" "i < kMaxWorkers" using xfer_ring_in(1) [OF c1(1)] i d(1) len1 dp_invD(4) [OF inv] by auto
  have d2: "d < length (cx_workers c2)" using dp_stepD(2) [OF c2(3)] len1 d(1) by simp
  have "w_pending_sources (wk c2 d) = worker_bit i" "xfer_ring_contents (w_xfer_inbox (wk c2 d) ! i) = [x]" using c2(6,7) ib(1) by simp_all
  from ProcessXfer_one [OF c2(2) d2 ib(2) this]
  obtain c3 s where c3: "dp_inv env (add_mset (xfer_frame x) {#}) c3" "dp_step c2 c3" "hts c3 = hts c2" "ProcessXfer env d c2 = accept_xfer env d x c3"
      "c3 = set_wk d ((wk c2 d)\<lparr>w_pending_sources := 0, w_xfer_inbox := s\<rparr>) c2" by (auto simp: Let_def)
  have w3: "wk c3 d = (wk c1 d)\<lparr>w_pending_sources := 0, w_xfer_inbox := s\<rparr>" using d2 c2(6) by (simp add: c3(5))
  have inv3: "dp_inv env (add_mset (a, int (length ?f)) {#}) c3" using c3(1) by (simp add: c2(8) xfer_frame_def)
  have at: "peer_at c3 d ?fd = Some q" using to(3) w3 core1(2) by (simp add: peer_at_def split: if_splits)
  have q3: "peer_in c3 d q" using peer_at_in(1) [OF inv3 _ at] d2 dp_stepD(2) [OF c3(2)] by simp
  have h3: "hts c3 = hts c" "cx_mem c3 = cx_mem c1" using c1(3) c2(4,5) c3(3,5) by simp_all
  have pr3: "pr c3 d q = pr c d q" using pr_hts [OF h3(1) d(1)] .
  obtain c4 where c4: "EnqueueSend env d q a (int (length ?f)) c3 = Some c4" "dp_inv env {#} c4" "dp_step c3 c4" "cx_mem c4 = cx_mem c3"
      "queues c4 = (queues c3)[d := (queues c3 ! d)[q := p_queue (pr c3 d q) @ [\<lparr>si_data = a, si_len = int (length ?f), si_slab = True\<rparr>]]]"
    using EnqueueSend_ok [OF inv3 q3] room(1,2) pr3 S(1) w3 by auto
  have "accept_xfer env d x c3 = Some c4" using c4(1) at w3 by (simp add: accept_xfer_def c2(8))
  then have run4: "?d \<bind> ProcessXfer env d = Some c4" using eq c2(1) c3(4) by simp
  have st: "dp_step c c4" using dp_step_trans [OF dp_step_trans [OF dp_step_trans [OF c1(2) c2(3)] c3(2)] c4(3)] .
  have m3: "cx_mem c3 a = Some m" "\<forall>b. cx_mem c b \<noteq> None \<longrightarrow> cx_mem c3 b = cx_mem c b" using h3(2) c1(4,6) by simp_all
  note W = waiting_append [OF inv3 q3 m3(1) c1(5) c4(4,5,3)]
  have old: "waiting c3 j k = waiting c j k" if "peer_in c j k" for j k by (rule waiting_new [OF inv h3(1) m3(2) that])
  have in3: "peer_in c3 j k = peer_in c j k" for j k
    using peer_in_step [OF dp_step_trans [OF dp_step_trans [OF c1(2) c2(3)] c3(2)]] .
  have "dp_good env c4" using good_from [OF good, of "Some c4"] c4(2) st by (simp add: dp_ends_same)
  then show ?thesis using run4 W old in3 q3 by (intro exI [of _ c4]) simp
qed

end
