(* ===== verification/Dp_History.thy ===== *)
theory Dp_History
  imports Dp_Packet
begin

text \<open>
  Histories of the data plane: an example state, that commands are executed until their ring is
  empty, and that every sequence of rounds and commands keeps the invariant.
\<close>

section \<open>A data plane with two clients\<close>

text \<open>Two workers, a client on each and a route to the second: what the theorems are tried on.\<close>

definition ex_env :: dp_env where
  "ex_env = \<lparr>de_malloc = (\<lambda>n m. if m 1 = None then 1 else 0), de_sqe = (\<lambda>n. True), de_now = 0, de_unix = (\<lambda>fd. False)\<rparr>"

definition ex_key :: Key where "ex_key = replicate 32 1"

definition ex_new :: Ctx where
  "ex_new = \<lparr>cx_workers = [new_worker 4096, new_worker 40000000], cx_relay_id = 0, cx_relay_peer_map = (\<lambda>_. 0), cx_peer_rate_limit = 0,
     cx_mem = Map.empty, cx_mallocs = 0, cx_sqes = 0, cx_calls = []\<rparr>"

definition ex_slot :: "Key \<Rightarrow> nat" where "ex_slot key = hd (probe_seq key)"

definition ex_add :: "nat \<Rightarrow> int \<Rightarrow> Key \<Rightarrow> Ctx \<Rightarrow> Ctx" where
  "ex_add i fd key c =
     (let c = set_pr i (ex_slot key) (fresh fd key (replicate (nat kReadBufSize) 0) (pr c i (ex_slot key))) c in
      set_wk i ((wk c i)\<lparr>w_fd_map := (w_fd_map (wk c i))(fd := Some (ex_slot key))\<rparr>) c)"

definition ex_ctx :: Ctx where
  "ex_ctx = (let c = ex_add 1 6 ex_key (ex_add 0 5 zero_Key ex_new) in
     set_routes (BroadcastRouteAdd (map w_routes (cx_workers c)) ex_key 1 6) c)"

lemma ex_pools: "FramePoolOwns (new_worker b) a \<longleftrightarrow> b \<le> a \<and> a < b + 33554432"
  by (simp add: FramePoolOwns_def new_worker_fields kFramePoolCount_def)

lemma ex_new_good: "dp_good ex_env ex_new"
proof (rule new_good)
  show "pools_apart (cx_workers ex_new)" by (auto simp: pools_apart_def ex_new_def ex_pools less_Suc_eq)
  show "malloc_ok ex_env ex_new" by (auto simp: malloc_ok_def ex_env_def ex_new_def ex_pools)
  show "sqe_fair ex_env" by (auto simp: sqe_fair_def ex_env_def)
qed (auto simp: ex_new_def kMaxWorkers_def)

lemma ex_slot_in: "ex_slot key < kHtCapacity"
  using probe_seq_covers [of key] hd_in_set [of "probe_seq key"] by (cases "probe_seq key") (auto simp: ex_slot_def probe_seq_def kHtCapacity_def)

lemma ex_add_good:
  assumes good: "dp_good env c" and i: "i < length (cx_workers c)" and nocc: "p_occupied (pr c i (ex_slot key)) \<noteq> 1" and "is_Key key" "dp_fd fd"
  shows "dp_good env (ex_add i fd key c)"
proof -
  let ?p = "ex_slot key"
  have p: "peer_in c i ?p" using i ex_slot_in by (simp add: peer_in_def)
  let ?b = "replicate (nat kReadBufSize) 0 :: bytes"
  let ?c = "set_pr i ?p (fresh fd key ?b (pr c i ?p)) c"
  have g: "dp_good env ?c" by (rule insert_good [OF good p nocc assms(4,5)]) simp
  have p': "peer_in ?c i ?p" "pr ?c i ?p = fresh fd key ?b (pr c i ?p)"
    using p pr_set_pr(1) [OF good_inv [OF good] p] by (simp_all add: peer_in_def set_pr_def)
  note F = fresh_ok [OF peer_inD(4) [OF good_inv [OF good] p], of fd key ?b]
  have "in_rbuf (pr ?c i ?p) []" using F p'(2) by (simp add: in_rbuf_def)
  then have "dp_good env (set_wk i ((wk ?c i)\<lparr>w_fd_map := (w_fd_map (wk ?c i))(fd := Some ?p), w_fd_gen := w_fd_gen (wk ?c i),
      w_peer_count := w_peer_count (wk ?c i)\<rparr>) ?c)"
    using F p'(2) by (intro connect_good [OF g p'(1) assms(5) _ _ _ refl]) simp_all
  then show ?thesis by (simp add: ex_add_def Let_def)
qed

lemma ex_keys: "is_Key zero_Key" "is_Key ex_key" "dp_fd 5" "dp_fd 6"
  by (simp_all add: is_Key_def zero_Key_def ex_key_def dp_fd_def)

lemma ex_new_wk: "wk ex_new 0 = new_worker 4096" "wk ex_new 1 = new_worker 40000000" "length (cx_workers ex_new) = 2"
  by (simp_all add: ex_new_def wk_def)

lemma ex_ctx_wk:
  "length (cx_workers ex_ctx) = 2"
  "wk ex_ctx 0 = (new_worker 4096)\<lparr>w_ht := (replicate kHtCapacity Peer_init)[ex_slot zero_Key := fresh 5 zero_Key (replicate (nat kReadBufSize) 0) Peer_init],
     w_fd_map := (\<lambda>_. None)(5 := Some (ex_slot zero_Key)), w_routes := RouteSet (replicate kHtCapacity Route_init) ex_key 1 6\<rparr>"
  "wk ex_ctx 1 = (new_worker 40000000)\<lparr>w_ht := (replicate kHtCapacity Peer_init)[ex_slot ex_key := fresh 6 ex_key (replicate (nat kReadBufSize) 0) Peer_init],
     w_fd_map := (\<lambda>_. None)(6 := Some (ex_slot ex_key)), w_routes := RouteSet (replicate kHtCapacity Route_init) ex_key 1 6\<rparr>"
proof -
  let ?c = "ex_add 1 6 ex_key (ex_add 0 5 zero_Key ex_new)"
  have l: "length (cx_workers ?c) = 2" by (simp add: ex_add_def Let_def set_pr_def ex_new_wk)
  have w: "wk ?c 0 = (new_worker 4096)\<lparr>w_ht := (replicate kHtCapacity Peer_init)[ex_slot zero_Key := fresh 5 zero_Key (replicate (nat kReadBufSize) 0) Peer_init],
       w_fd_map := (\<lambda>_. None)(5 := Some (ex_slot zero_Key))\<rparr>"
    "wk ?c 1 = (new_worker 40000000)\<lparr>w_ht := (replicate kHtCapacity Peer_init)[ex_slot ex_key := fresh 6 ex_key (replicate (nat kReadBufSize) 0) Peer_init],
       w_fd_map := (\<lambda>_. None)(6 := Some (ex_slot ex_key))\<rparr>"
    by (simp_all add: ex_add_def Let_def set_pr_def wk_set_wk ex_new_wk [simplified] pr_def new_worker_fields ex_slot_in)
  show "length (cx_workers ex_ctx) = 2" using l by (simp add: ex_ctx_def Let_def BroadcastRouteAdd_def)
  have r: "w_routes (cx_workers ?c ! j) = replicate kHtCapacity Route_init" if "j < 2" for j
    using that w by (auto simp: less_Suc_eq numeral_2_eq_2 wk_def new_worker_fields)
  show "wk ex_ctx 0 = (new_worker 4096)\<lparr>w_ht := (replicate kHtCapacity Peer_init)[ex_slot zero_Key := fresh 5 zero_Key (replicate (nat kReadBufSize) 0) Peer_init],
     w_fd_map := (\<lambda>_. None)(5 := Some (ex_slot zero_Key)), w_routes := RouteSet (replicate kHtCapacity Route_init) ex_key 1 6\<rparr>"
    "wk ex_ctx 1 = (new_worker 40000000)\<lparr>w_ht := (replicate kHtCapacity Peer_init)[ex_slot ex_key := fresh 6 ex_key (replicate (nat kReadBufSize) 0) Peer_init],
     w_fd_map := (\<lambda>_. None)(6 := Some (ex_slot ex_key)), w_routes := RouteSet (replicate kHtCapacity Route_init) ex_key 1 6\<rparr>"
    using w l r by (simp_all add: ex_ctx_def Let_def BroadcastRouteAdd_def)
qed

lemma ex_ctx_good: "dp_good ex_env ex_ctx"
proof -
  let ?c = "ex_add 0 5 zero_Key ex_new"
  have occ: "p_occupied (pr ex_new 0 (ex_slot zero_Key)) \<noteq> 1" "p_occupied (pr ?c 1 (ex_slot ex_key)) \<noteq> 1"
    using ex_slot_in [of zero_Key] ex_slot_in [of ex_key]
    by (simp_all add: pr_def ex_add_def Let_def set_pr_def wk_set_wk ex_new_wk [simplified] new_worker_fields Peer_init_def)
  have g1: "dp_good ex_env ?c" by (rule ex_add_good [OF ex_new_good _ occ(1) ex_keys(1,3)]) (simp add: ex_new_wk)
  have l: "length (cx_workers ?c) = 2" by (simp add: ex_add_def Let_def set_pr_def ex_new_wk)
  have g2: "dp_good ex_env (ex_add 1 6 ex_key ?c)" by (rule ex_add_good [OF g1 _ occ(2) ex_keys(2,4)]) (simp add: l)
  have "1 < length (cx_workers (ex_add 1 6 ex_key ?c))" by (simp add: ex_add_def Let_def set_pr_def ex_new_wk)
  from add_route_good [OF g2 this ex_keys(4), of ex_key] show ?thesis by (simp add: ex_ctx_def Let_def)
qed

section \<open>Commands leave the rings alone\<close>

definition rings :: "Ctx \<Rightarrow> CmdRing list" where
  "rings c = map w_cmd_ring (cx_workers c)"

lemma rings_core: "core c' = core c \<Longrightarrow> rings c' = rings c"
proof -
  assume "core c' = core c"
  then have m: "map worker_core (cx_workers c') = map worker_core (cx_workers c)" by (simp add: core_def)
  have "rings c = map (\<lambda>(a, b, d, e, f, g, h, r, k). r) (map worker_core (cx_workers c))" for c
    by (simp add: rings_def worker_core_def comp_def)
  then show "rings c' = rings c" by (simp only: m)
qed

lemma rings_set_wk [simp]: "w_cmd_ring w = w_cmd_ring (wk c i) \<Longrightarrow> rings (set_wk i w c) = rings c"
  by (cases "i < length (cx_workers c)")
    (simp_all add: rings_def set_wk_def wk_def map_update list_update_same_conv list_update_beyond)

lemma ring_set_wk [simp]: "w_cmd_ring w = w_cmd_ring (wk c i) \<Longrightarrow> w_cmd_ring (wk (set_wk i w c) j) = w_cmd_ring (wk c j)"
  by (auto simp: wk_set_wk)

lemma rings_fields [simp]: "rings (c\<lparr>cx_mem := m\<rparr>) = rings c" "rings (c\<lparr>cx_mallocs := n\<rparr>) = rings c" "rings (dp_emit e c) = rings c"
  "rings (set_pr i p P c) = rings c" "rings (stat i f c) = rings c" "rings (SubmitRecv env i fd c) = rings c"
  by (simp_all add: set_pr_def stat_def) (simp_all add: rings_def [symmetric] rings_core [OF core_SubmitRecv], simp_all add: rings_def)

lemma rings_set_routes [simp]: "length ts = length (cx_workers c) \<Longrightarrow> rings (set_routes ts c) = rings c"
  by (rule nth_equalityI) (simp_all add: rings_def set_routes_def)

lemma rings_HtInsert: "rings (fst (HtInsert env i fd key c)) = rings c"
  by (auto simp: HtInsert_def Let_def split: option.split)

lemma rings_HtRemove: "HtRemove env i key c = Some c' \<Longrightarrow> rings c' = rings c"
  by (auto simp: HtRemove_def Let_def split: option.splits if_splits bind_splits
      dest!: rings_core [OF core_DrainDeferredRecvs] rings_core [OF core_free_items])

lemma rings_forget_peer [simp]: "rings (forget_peer i p c) = rings c"
  by (simp add: forget_peer_def Let_def)

lemma rings_ProcessCmdAdd: "ProcessCmdAdd env i cmd c = Some c' \<Longrightarrow> rings c' = rings c"
  by (auto simp: ProcessCmdAdd_def Let_def rings_HtInsert BroadcastRouteAdd_def split: option.splits if_splits)

lemma rings_ProcessCmd:
  assumes "ProcessCmd env i cmd c = Some c'"
  shows "rings c' = rings c"
proof (cases "cmd_type cmd")
  case kCmdAddPeer
  then show ?thesis using assms rings_ProcessCmdAdd by (simp add: ProcessCmd_def)
next
  case kCmdRemovePeer
  then show ?thesis using assms by (auto simp: ProcessCmd_def ProcessCmdRemove_def Let_def split: option.splits bind_splits dest!: rings_HtRemove)
next
  case kCmdMovePeerOut
  then show ?thesis using assms by (auto simp: ProcessCmd_def ProcessCmdMovePeerOut_def Let_def split: option.splits bind_splits dest!: rings_HtRemove)
next
  case kCmdWrite
  have send: "(case FrameAlloc env c i n of (c, frame) \<Rightarrow> if frame = 0 then Some c
      else do { bs \<leftarrow> get_frame a m c; c \<leftarrow> put_frame frame bs c; EnqueueSend env i p frame m c }) = Some d \<Longrightarrow> rings d = rings c" for a n m p d
    by (cases "FrameAlloc env c i n") (auto split: if_splits bind_splits
        dest!: rings_core [OF core_FrameAlloc] rings_core [OF core_put_frame] rings_core [OF core_EnqueueSend])
  show ?thesis using kCmdWrite assms
    by (auto simp: ProcessCmd_def ProcessCmdWrite_def split: option.splits bind_splits if_splits dest!: send)
next
  case kCmdSetFwdRule
  then show ?thesis using assms by (auto simp: ProcessCmd_def ProcessCmdSetFwdRule_def Let_def split: option.splits if_splits)
next
  case kCmdStop
  then show ?thesis using assms by (auto simp: ProcessCmd_def)
qed

lemma cmd_pop_Some: "cmd_pop r = Some (x, r') \<Longrightarrow> RingPop r = (r', 0, Some x)"
  by (auto simp: cmd_pop_def split: prod.splits if_splits)

lemma cmd_pop_None: "cmd_pop r = None \<Longrightarrow> \<exists>rc. RingPop r = (r, rc, None)"
  by (auto simp: cmd_pop_def RingPop_def split: if_splits)

lemma commands_loop_drains:
  assumes "dp_good env c" "i < length (cx_workers c)" "cmds_ok n env i c" "cmd_ring_inv (w_cmd_ring (wk c i))"
    "length (cmd_ring_contents (w_cmd_ring (wk c i))) \<le> n"
  shows "\<exists>c'. commands_loop n env i c = Some c' \<and> dp_good env c' \<and> cmd_ring_contents (w_cmd_ring (wk c' i)) = []"
  using assms
proof (induction n arbitrary: c)
  case (Suc n)
  from Suc.prems(4) show ?case
  proof (cases rule: cq.pop_cases)
    case empty
    then show ?thesis using Suc.prems(1) cmd_pop_None [OF empty(2)] by auto
  next
    case (some cmd cmds r)
    note pop = cmd_pop_Some [OF some(2)]
    let ?c = "set_wk i ((wk c i)\<lparr>w_cmd_ring := r\<rparr>) c"
    have g: "dp_good env ?c" "i < length (cx_workers ?c)" using cmd_ring_good [OF Suc.prems(1,2)] Suc.prems(2) by simp_all
    have ok: "cmd_ok ?c i cmd" using Suc.prems(3) pop by (simp add: Let_def)
    from ProcessCmd_good [OF g ok] obtain d where d: "ProcessCmd env i cmd ?c = Some d" "dp_good env d" "length (cx_workers d) = length (cx_workers c)"
      by (auto simp: good_ends_def)
    have "rings d ! i = rings ?c ! i" using rings_ProcessCmd [OF d(1)] by simp
    then have r: "w_cmd_ring (wk d i) = r" using d(3) Suc.prems(2) by (simp add: rings_def wk_def set_wk_def)
    have "cmds_ok n env i d" using Suc.prems(3) pop d(1) by (simp add: Let_def)
    from Suc.IH [OF d(2) _ this] show ?thesis using pop d some Suc.prems(2,5) r by simp
  qed
qed simp

section \<open>Histories\<close>

text \<open>Rounds of the workers, batches of completions after their loops ended, and commands that other threads enqueue between them.\<close>

datatype dp_act = Round nat "Cqe list" | Drain nat "Cqe list" | Command nat Cmd

fun dp_acts :: "dp_env \<Rightarrow> dp_act list \<Rightarrow> Ctx \<Rightarrow> Ctx ub" where
  "dp_acts env [] c = Some c"
| "dp_acts env (Round i cqes # as) c = do { c \<leftarrow> worker_round env i cqes c; dp_acts env as c }"
| "dp_acts env (Drain i cqes # as) c = do { c \<leftarrow> drain_cqes env i cqes c; dp_acts env as c }"
| "dp_acts env (Command i cmd # as) c = dp_acts env as (fst (EnqueueCmd i cmd c))"

fun acts_ok :: "dp_env \<Rightarrow> dp_act list \<Rightarrow> Ctx \<Rightarrow> bool" where
  "acts_ok env [] c = True"
| "acts_ok env (Round i cqes # as) c =
     (i < length (cx_workers c) \<and> cqes_ok env i (take kMaxCqeBatch cqes) c \<and>
      (case worker_round env i cqes c of None \<Rightarrow> True | Some c \<Rightarrow> acts_ok env as c))"
| "acts_ok env (Drain i cqes # as) c =
     (i < length (cx_workers c) \<and> drains_ok env i cqes c \<and>
      (case drain_cqes env i cqes c of None \<Rightarrow> True | Some c \<Rightarrow> acts_ok env as c))"
| "acts_ok env (Command i cmd # as) c = (i < length (cx_workers c) \<and> acts_ok env as (fst (EnqueueCmd i cmd c)))"

lemma enqueue_loop_good:
  assumes "dp_good env c" "i < length (cx_workers c)"
  shows "dp_good env (fst (enqueue_loop n i cmd c))"
  using assms by (induction n) (auto simp: good_emit cmd_ring_good split: prod.split)

lemma dp_acts_good:
  assumes "dp_good env c" "acts_ok env as c"
  shows "\<exists>c'. dp_acts env as c = Some c' \<and> dp_good env c'"
  using assms
proof (induction as arbitrary: c)
  case (Cons a as)
  show ?case
  proof (cases a)
    case (Round i cqes)
    obtain d where "worker_round env i cqes c = Some d" "dp_good env d"
      using worker_round_good [OF Cons.prems(1), of i cqes] Cons.prems(2) Round by (auto simp: good_ends_def)
    then show ?thesis using Cons.IH [of d] Cons.prems(2) Round by simp
  next
    case (Drain i cqes)
    obtain d where "drain_cqes env i cqes c = Some d" "dp_good env d"
      using drain_cqes_good [OF Cons.prems(1), of i cqes] Cons.prems(2) Drain by (auto simp: good_ends_def)
    then show ?thesis using Cons.IH [of d] Cons.prems(2) Drain by simp
  next
    case (Command i cmd)
    then show ?thesis using Cons.IH [of "fst (EnqueueCmd i cmd c)"] Cons.prems enqueue_loop_good by (simp add: EnqueueCmd_def)
  qed
qed simp

text \<open>All workers set up their rings.\<close>

fun start_workers :: "bool \<Rightarrow> (nat \<Rightarrow> ring_env) \<Rightarrow> dp_env \<Rightarrow> nat list \<Rightarrow> Ctx \<Rightarrow> Ctx option" where
  "start_workers sqpoll es env [] c = Some c"
| "start_workers sqpoll es env (i # is) c = do { c \<leftarrow> worker_start sqpoll (es i) env i c; start_workers sqpoll es env is c }"

lemma SubmitPollMultishot_good:
  assumes "dp_good env c"
  shows "dp_good env (SubmitPollMultishot env i op c)" "core (SubmitPollMultishot env i op c) = core c"
proof -
  note e = SubmitPollMultishot_ends [OF good_inv [OF assms], of i op]
  show "dp_good env (SubmitPollMultishot env i op c)" using good_from [OF assms e] by simp
  show "core (SubmitPollMultishot env i op c) = core c" using e by (simp add: dp_ends_def dp_step_def)
qed

lemma worker_start_good:
  assumes good: "dp_good env c" and i: "i < length (cx_workers c)" and none: "\<forall>w \<in> set (cx_workers c). w_fd_map w = (\<lambda>_. None)"
    and r: "worker_start sqpoll e env i c = Some c'"
  shows "dp_good env c' \<and> length (cx_workers c') = length (cx_workers c) \<and> (\<forall>w \<in> set (cx_workers c'). w_fd_map w = (\<lambda>_. None))"
proof -
  obtain b where c': "c' = SubmitPollMultishot env i kOpPollXfer (SubmitPollMultishot env i kOpPollCmd
      (set_wk i ((wk c i)\<lparr>w_use_provided_bufs := b, w_use_multishot_recv := b\<rparr>) c))"
    using r by (auto simp: worker_start_def WorkerInitRing_def Let_def split: bind_splits)
  define d where "d = set_wk i ((wk c i)\<lparr>w_use_provided_bufs := b, w_use_multishot_recv := b\<rparr>) c"
  have w: "w_fd_map (wk c i) = (\<lambda>_. None)" using none i by (simp add: wk_def)
  have g: "dp_good env d" unfolding d_def using worker_good [OF good i] w
    by (intro good_set_wk [OF good i]) (simp_all add: worker_fixed_def worker_aux_def conn_ok_def w_frames_def w_used_def w_free_def)
  note S = SubmitPollMultishot_good [OF g, of i kOpPollCmd]
  have c: "core c' = core d" using SubmitPollMultishot_good(2) [OF S(1), of i kOpPollXfer] S(2) unfolding c' d_def by simp
  have nd: "\<forall>w \<in> set (cx_workers d). w_fd_map w = (\<lambda>_. None)"
    using none w by (auto simp: d_def set_wk_def dest!: subsetD [OF set_update_subset_insert])
  have "w_fd_map (wk c' j) = (\<lambda>_. None)" if "j < length (cx_workers c)" for j
    using worker_coreD(2) [OF coreD(5) [OF c]] nd that by (simp add: d_def wk_def)
  then show ?thesis using SubmitPollMultishot_good(1) [OF S(1), of i kOpPollXfer] coreD(1) [OF c] unfolding c' d_def
    by (auto simp: in_set_conv_nth wk_def)
qed

lemma start_workers_good:
  assumes "dp_good env c" "\<forall>i \<in> set is. i < length (cx_workers c)" "\<forall>w \<in> set (cx_workers c). w_fd_map w = (\<lambda>_. None)"
    "start_workers sqpoll es env is c = Some c'"
  shows "dp_good env c'"
  using assms
proof (induction "is" arbitrary: c)
  case (Cons i "is")
  obtain d where d: "worker_start sqpoll (es i) env i c = Some d" "start_workers sqpoll es env is d = Some c'"
    using Cons.prems(4) by (auto split: bind_splits)
  then show ?case using worker_start_good [OF Cons.prems(1) _ Cons.prems(3) d(1)] Cons.IH [of d] Cons.prems(2) by simp
qed simp

end
