(* ===== verification/Data_Plane.thy ===== *)
theory Data_Plane
  imports Dp_History
begin

text \<open>
  The theorems about the data plane: its rounds are safe whatever arrives, packets are
  delivered, streams are cut into frames, loops end, rings are emptied; and where it goes wrong.
\<close>

section \<open>Safety\<close>

definition ex_init :: init_env where
  "ex_init = \<lparr>ie_worker = (\<lambda>i. True), ie_pipe = (\<lambda>i. True), ie_event_fd = (\<lambda>i. True), ie_xfer_efd = (\<lambda>i. True),
     ie_inbox = (\<lambda>i j. True), ie_slab = (\<lambda>i. True), ie_pool = (\<lambda>i. 4096 + 40000000 * i)\<rparr>"

definition ex_ring :: ring_env where
  "ex_ring = \<lparr>re_sqpoll = False, re_defer = True, re_coop = True, re_basic = True, re_files = True, re_pbufs = True, re_buf_ring = True\<rparr>"

definition ex_add_cmd :: Cmd where
  "ex_add_cmd = (Cmd_init kCmdAddPeer)\<lparr>cmd_fd := 5, cmd_key := ex_key\<rparr>"

definition ex_poll :: Cqe where
  "ex_poll = \<lparr>cqe_user_data = MakeUserData kOpPollCmd 9, cqe_res = 1, cqe_more = True, cqe_notif = False, cqe_buffer = False, cqe_data = []\<rparr>"

lemma ex_init_ctx: "DpInit ex_init 2 = Some (ex_new\<lparr>cx_workers := [new_worker 4096, new_worker 40004096]\<rparr>)"
proof -
  have w: "WorkerInit ex_init i = Some (new_worker (4096 + 40000000 * i))" for i
    by (simp add: WorkerInit_def SlabInit_def FramePoolInit_def new_worker_def Worker_zero_def ex_init_def RingInit_def CmdRing_zero_def
        XferSpscInit_def XferSpscRing_zero_def list_all_iff)
  have e: "[0..<2] = [0, 1 :: nat]" by (simp add: numeral_2_eq_2)
  show ?thesis by (simp add: DpInit_def kMaxWorkers_def e w ex_new_def Let_def) (simp add: ex_init_def)
qed

lemma HtLookup_new: "w_ht w = replicate kHtCapacity Peer_init \<Longrightarrow> HtLookup w key = None"
  using HtLookup_in [of w key] by (cases "HtLookup w key") (auto simp: HtLookup_def Peer_init_def split: option.splits if_splits)

text \<open>A client is added to the first worker.\<close>

lemma ex_acts:
  defines "c0 \<equiv> ex_new\<lparr>cx_workers := [new_worker 4096, new_worker 40004096]\<rparr>"
  obtains c where "start_workers False (\<lambda>i. ex_ring) ex_env [0..<length (cx_workers c0)] c0 = Some c"
    "acts_ok ex_env [Command 0 ex_add_cmd, Round 0 [ex_poll]] c"
    "pools_apart (cx_workers c0)" "malloc_ok ex_env c0" "sqe_fair ex_env"
proof -
  let ?c0 = "ex_new\<lparr>cx_workers := [new_worker 4096, new_worker 40004096]\<rparr>"
  have pools: "pools_apart (cx_workers ?c0)" by (auto simp: pools_apart_def ex_pools less_Suc_eq)
  have env: "malloc_ok ex_env ?c0" "sqe_fair ex_env" by (auto simp: malloc_ok_def ex_env_def ex_pools sqe_fair_def)
  have n: "[0..<length (cx_workers ?c0)] = [0, 1]" by (simp add: numeral_2_eq_2)
  obtain c where c: "start_workers False (\<lambda>i. ex_ring) ex_env [0, 1] ?c0 = Some c" "w_ht (wk c 0) = replicate kHtCapacity Peer_init"
      "w_cmd_ring (wk c 0) = CmdRing_zero" "length (cx_workers c) = 2"
    by (simp add: worker_start_def WorkerInitRing_def ring_setup_def ex_ring_def SubmitPollMultishot_def GetSqe_def ex_env_def wk_set_wk)
      (simp add: wk_def new_worker_def Worker_zero_def)
  define d where "d = fst (EnqueueCmd 0 ex_add_cmd c)"
  define ring where "ring = fst (RingPush CmdRing_zero ex_add_cmd)"
  have push: "RingPush CmdRing_zero ex_add_cmd = (ring, 0)" by (simp add: ring_def RingPush_def CmdRing_zero_def kCmdRingSize_def)
  have d: "wk d 0 = (wk c 0)\<lparr>w_cmd_ring := ring\<rparr>" "length (cx_workers d) = 2"
    using push c(3,4) by (simp_all add: d_def EnqueueCmd_def kCmdPushRetries_def eval_nat_numeral)
  have pop: "RingPop ring = (ring\<lparr>cr_tail := 1\<rparr>, 0, Some ex_add_cmd)"
    using push by (auto simp: ring_def RingPush_def CmdRing_zero_def kCmdRingSize_def RingPop_def)
  have pop2: "RingPop (ring\<lparr>cr_tail := 1\<rparr>) = (ring\<lparr>cr_tail := 1\<rparr>, -1, None)"
    by (simp add: ring_def RingPush_def CmdRing_zero_def kCmdRingSize_def RingPop_def)
  define d1 where "d1 = set_wk 0 ((wk c 0)\<lparr>w_cmd_ring := ring\<lparr>cr_tail := 1\<rparr>\<rparr>) d"
  have ok: "cmd_ok d1 0 ex_add_cmd"
    using HtLookup_new [of "wk d1 0"] c(2) d by (simp add: cmd_ok_def ex_add_cmd_def Cmd_init_def ex_keys d1_def)
  have ring2: "w_cmd_ring (wk d2 0) = ring\<lparr>cr_tail := 1\<rparr>" if "ProcessCmd ex_env 0 ex_add_cmd d1 = Some d2" for d2
  proof -
    have "rings d2 ! 0 = rings d1 ! 0" using rings_ProcessCmd [OF that] by simp
    moreover have "length (rings d2) = length (rings d1)" using rings_ProcessCmd [OF that] by simp
    ultimately show ?thesis using d(2) by (simp add: rings_def wk_def d1_def set_wk_def)
  qed
  obtain m where k: "kCmdRingSize = Suc (Suc m)" by (rule that [of 1022]) (simp add: kCmdRingSize_def)
  have "cmds_ok (Suc m) ex_env 0 d2" if "ProcessCmd ex_env 0 ex_add_cmd d1 = Some d2" for d2 using ring2 [OF that] pop2 by simp
  then have "cmds_ok kCmdRingSize ex_env 0 d"
    unfolding k cmds_ok.simps(2) [of "Suc m"] using pop d(1) ok by (simp add: Let_def d1_def [symmetric] del: cmds_ok.simps split: option.split)
  then have "cqe_ok ex_env 0 ex_poll d" by (simp add: cqe_ok_def ex_poll_def MakeUserData_def UdOp_def kOpPollCmd_def kOpRecv_def kOpSend_def bit_simps)
  then have acts: "acts_ok ex_env [Command 0 ex_add_cmd, Round 0 [ex_poll]] c"
    using c(4) d(2) by (simp add: d_def [symmetric] kMaxCqeBatch_def split: option.split)
  show ?thesis by (rule that [of c]) (use c(1) n acts pools env in \<open>simp_all add: c0_def\<close>)
qed





section \<open>Packets\<close>

text \<open>
  C3: A packet to a client on the same worker: a SendPacket frame with the key of a connected DERP
  client and some bytes appends to that client's queue the RecvPacket frame with the sender's
  key and the same bytes, and to no other queue anything; the queue must have room, and an item
  and a buffer must be free.
\<close>

theorem packet_same_worker:
  assumes "dp_good env c" "peer_in c i p" "p_protocol (pr c i p) = Protocol_kDerp" "w_running (wk c i)"
    "is_Key dst" "HtLookup (wk c i) dst = Some q" "p_protocol (pr c i q) = Protocol_kDerp"
    "kKeySize + int (length data) \<le> kMaxFramePayload" "p_send_queued (pr c i q) < kMaxSendQueueDepth" "0 < w_slab_free (wk c i)"
    "snd (FrameAlloc env c i (kFrameHeaderSize + kKeySize + int (length data))) \<noteq> 0"
  shows "\<exists>c'. DispatchFrame env i p (derp_frame Frame_kSendPacket (dst @ data)) (kKeySize + int (length data)) c = Some c' \<and> dp_good env c' \<and>
    waiting c' i q = waiting c i q @ [derp_frame Frame_kRecvPacket (p_key (pr c i p) @ data)] \<and>
    (\<forall>j k. peer_in c j k \<longrightarrow> (j, k) \<noteq> (i, q) \<longrightarrow> waiting c' j k = waiting c j k)"
  by (rule local_packet [OF assms])

lemma HtFind_new: "w_ht w = replicate kHtCapacity Peer_init \<Longrightarrow> HtFind w key = Some (ex_slot key)"
proof -
  obtain k ks where "probe_seq key = k # ks" "k < kHtCapacity"
    using ex_slot_in [of key] probe_seq_covers [of key] by (cases "probe_seq key") (auto simp: ex_slot_def kHtCapacity_def)
  then show "w_ht w = replicate kHtCapacity Peer_init \<Longrightarrow> HtFind w key = Some (ex_slot key)"
    by (simp add: HtFind_def ex_slot_def Peer_init_def)
qed

lemma HtLookup_one:
  assumes "w_ht w = (replicate kHtCapacity Peer_init)[ex_slot key := fresh fd key b P]" "fwd_ok P"
  shows "HtLookup w key = Some (ex_slot key)"
proof -
  let ?w = "w\<lparr>w_ht := replicate kHtCapacity Peer_init\<rparr>"
  have "HtLookup (?w\<lparr>w_ht := (w_ht ?w)[ex_slot key := fresh fd key b P]\<rparr>) key = Some (ex_slot key)"
    by (rule HtLookup_inserted [OF HtFind_new]) (use ex_slot_in fresh_ok [OF assms(2)] in simp_all)
  then show ?thesis using HtLookup_ht [of w "?w\<lparr>w_ht := (w_ht ?w)[ex_slot key := fresh fd key b P]\<rparr>" key] assms(1) by simp
qed

lemma ex_pr: "pr ex_ctx 0 (ex_slot zero_Key) = fresh 5 zero_Key (replicate (nat kReadBufSize) 0) Peer_init"
  "pr ex_ctx 1 (ex_slot ex_key) = fresh 6 ex_key (replicate (nat kReadBufSize) 0) Peer_init"
  unfolding pr_def ex_ctx_wk using ex_slot_in by simp_all

lemma ex_worker: "w_running (new_worker b)" "w_slab_free (new_worker b) = kSlabSize" "w_pending_sources (new_worker b) = 0"
  by (simp_all add: new_worker_def Worker_zero_def)

lemma ex_alloc: "snd (FrameAlloc env ex_ctx 0 38) \<noteq> 0"
proof -
  have "pool_frames 4096 = 4096 # tl (pool_frames 4096)" by (simp add: pool_frames_def kFramePoolCount_def upt_rec [of 0])
  then have "pool_take 0 ex_ctx \<noteq> None \<and> snd (the (pool_take 0 ex_ctx)) = 4096"
    by (auto simp: pool_take_def ex_ctx_wk(2) new_worker_fields Let_def split: list.split)
  then show ?thesis by (auto simp: FrameAlloc_def split: option.split)
qed

text \<open>A client that sends itself one byte.\<close>

theorem packet_same_worker_witness:
  "\<exists>c'. DispatchFrame ex_env 0 (ex_slot zero_Key) (derp_frame Frame_kSendPacket (zero_Key @ [7])) (kKeySize + 1) ex_ctx = Some c' \<and>
     waiting c' 0 (ex_slot zero_Key) = waiting ex_ctx 0 (ex_slot zero_Key) @ [derp_frame Frame_kRecvPacket (zero_Key @ [7])]"
proof -
  note F = fresh_ok [OF Peer_init_ok(2), of 5 zero_Key "replicate (nat kReadBufSize) 0"]
  have P: "p_protocol (pr ex_ctx 0 (ex_slot zero_Key)) = Protocol_kDerp" "p_send_queued (pr ex_ctx 0 (ex_slot zero_Key)) = 0"
    "p_key (pr ex_ctx 0 (ex_slot zero_Key)) = zero_Key"
    unfolding ex_pr by (simp_all add: fresh_def Peer_init_def)
  have l: "HtLookup (wk ex_ctx 0) zero_Key = Some (ex_slot zero_Key)"
    by (rule HtLookup_one [OF _ Peer_init_ok(2)]) (simp only: ex_ctx_wk(2), simp)
  have "peer_in ex_ctx 0 (ex_slot zero_Key)" by (simp add: peer_in_def ex_ctx_wk(1) ex_slot_in)
  from packet_same_worker [OF ex_ctx_good this P(1) _ ex_keys(1) l P(1), of "[7]"] show ?thesis
    using ex_alloc [of ex_env] P by (auto simp: ex_ctx_wk(2) ex_worker kSlabSize_def)
qed

text \<open>
  C4: A packet to a client of another worker: the worker that receives it finds no such client but
  a route, and hands the RecvPacket frame over; when the other worker looks at its inboxes the
  frame is appended to the queue of the client, and no other queue changes. Nothing else is on
  the way to that worker.
\<close>

theorem packet_other_worker:
  assumes "dp_good env c" "peer_in c i p" "p_protocol (pr c i p) = Protocol_kDerp" "w_running (wk c i)"
    "is_Key dst" "HtLookup (wk c i) dst = None" "RouteLookup (w_routes (wk c i)) dst = Some r"
    "r_worker_id (w_routes (wk c i) ! r) = int d" "d \<noteq> i" "peer_at c d (r_fd (w_routes (wk c i) ! r)) = Some q"
    "kKeySize + int (length data) \<le> kMaxFramePayload" "p_send_queued (pr c d q) < kMaxSendQueueDepth" "0 < w_slab_free (wk c d)"
    "snd (FrameAlloc env c i (kFrameHeaderSize + kKeySize + int (length data))) \<noteq> 0"
    "xfer_ring_contents (w_xfer_inbox (wk c d) ! i) = []" "w_pending_sources (wk c d) = 0"
  shows "\<exists>c'. DispatchFrame env i p (derp_frame Frame_kSendPacket (dst @ data)) (kKeySize + int (length data)) c \<bind> ProcessXfer env d = Some c' \<and>
    dp_good env c' \<and> waiting c' d q = waiting c d q @ [derp_frame Frame_kRecvPacket (p_key (pr c i p) @ data)] \<and>
    (\<forall>j k. peer_in c j k \<longrightarrow> (j, k) \<noteq> (d, q) \<longrightarrow> waiting c' j k = waiting c j k)"
  by (rule remote_packet [OF assms])

lemma RouteFind_new: "RouteFind (replicate kHtCapacity Route_init) key = Some (ex_slot key)"
proof -
  obtain k ks where "probe_seq key = k # ks" "k < kHtCapacity"
    using ex_slot_in [of key] probe_seq_covers [of key] by (cases "probe_seq key") (auto simp: ex_slot_def kHtCapacity_def)
  then show ?thesis by (simp add: RouteFind_def ex_slot_def Route_init_def)
qed

lemma ex_route:
  "RouteLookup (RouteSet (replicate kHtCapacity Route_init) ex_key 1 6) ex_key = Some (ex_slot ex_key)"
  "r_worker_id (RouteSet (replicate kHtCapacity Route_init) ex_key 1 6 ! ex_slot ex_key) = int 1"
  "r_fd (RouteSet (replicate kHtCapacity Route_init) ex_key 1 6 ! ex_slot ex_key) = 6"
proof -
  let ?r = "Route_init\<lparr>r_key := ex_key, r_worker_id := 1, r_fd := 6, r_occupied := 1\<rparr>"
  have s: "RouteSet (replicate kHtCapacity Route_init) ex_key 1 6 = (replicate kHtCapacity Route_init)[ex_slot ex_key := ?r]"
    using ex_slot_in [of ex_key] by (simp add: RouteSet_def RouteFind_new)
  have "RouteFind ((replicate kHtCapacity Route_init)[ex_slot ex_key := ?r]) ex_key = Some (ex_slot ex_key)"
    unfolding RouteFind_def
    by (rule probe_again [OF RouteFind_new [unfolded RouteFind_def]]) (use ex_slot_in in simp_all)
  then show "RouteLookup (RouteSet (replicate kHtCapacity Route_init) ex_key 1 6) ex_key = Some (ex_slot ex_key)"
    "r_worker_id (RouteSet (replicate kHtCapacity Route_init) ex_key 1 6 ! ex_slot ex_key) = int 1"
    "r_fd (RouteSet (replicate kHtCapacity Route_init) ex_key 1 6 ! ex_slot ex_key) = 6"
    using ex_slot_in [of ex_key] unfolding s by (simp_all add: RouteLookup_def)
qed

lemma ex_other: "HtLookup (wk ex_ctx 0) ex_key = None"
proof -
  have "HtLookup (wk ex_ctx 0) ex_key \<noteq> Some p" for p
  proof
    assume "HtLookup (wk ex_ctx 0) ex_key = Some p"
    then have "p_occupied (w_ht (wk ex_ctx 0) ! p) = 1" "p_key (w_ht (wk ex_ctx 0) ! p) = ex_key" "p < kHtCapacity"
      using HtLookup_in by (auto simp: HtLookup_def split: option.splits if_splits)
    moreover have "zero_Key \<noteq> ex_key" by (simp add: zero_Key_def ex_key_def)
    ultimately show False unfolding ex_ctx_wk by (cases "p = ex_slot zero_Key") (auto simp: fresh_ok [OF Peer_init_ok(2)], auto simp: Peer_init_def)
  qed
  then show ?thesis by (cases "HtLookup (wk ex_ctx 0) ex_key") auto
qed

theorem packet_other_worker_witness:
  "\<exists>c'. DispatchFrame ex_env 0 (ex_slot zero_Key) (derp_frame Frame_kSendPacket (ex_key @ [7])) (kKeySize + 1) ex_ctx \<bind> ProcessXfer ex_env 1 = Some c' \<and>
     waiting c' 1 (ex_slot ex_key) = waiting ex_ctx 1 (ex_slot ex_key) @ [derp_frame Frame_kRecvPacket (zero_Key @ [7])]"
proof -
  have P: "p_protocol (pr ex_ctx 0 (ex_slot zero_Key)) = Protocol_kDerp" "p_key (pr ex_ctx 0 (ex_slot zero_Key)) = zero_Key"
    "p_send_queued (pr ex_ctx 1 (ex_slot ex_key)) = 0"
    unfolding ex_pr by (simp_all add: fresh_def Peer_init_def)
  have in0: "peer_in ex_ctx 0 (ex_slot zero_Key)" by (simp add: peer_in_def ex_ctx_wk(1) ex_slot_in)
  have w: "w_running (wk ex_ctx 0)" "w_routes (wk ex_ctx 0) = RouteSet (replicate kHtCapacity Route_init) ex_key 1 6"
    "0 < w_slab_free (wk ex_ctx 1)" "w_pending_sources (wk ex_ctx 1) = 0" "peer_at ex_ctx 1 6 = Some (ex_slot ex_key)"
    "xfer_ring_contents (w_xfer_inbox (wk ex_ctx 1) ! 0) = []"
    unfolding peer_at_def ex_ctx_wk
    by (simp_all add: ex_worker kSlabSize_def dp_fd_def new_worker_fields zero_ring kMaxWorkers_def)
  from packet_other_worker [OF ex_ctx_good in0 P(1) w(1) ex_keys(2) ex_other, unfolded w(2), OF ex_route(1,2), unfolded ex_route(3),
      of "ex_slot ex_key" "[7]"]
  show ?thesis using w(3-6) P ex_alloc [of ex_env] by auto
qed

section \<open>Streams\<close>


text \<open>A keep-alive in two pieces.\<close>

definition ex_recv :: "bytes \<Rightarrow> Cqe" where
  "ex_recv bs = \<lparr>cqe_user_data = MakeUserData kOpRecv 5, cqe_res = int (length bs), cqe_more = True, cqe_notif = False, cqe_buffer = True,
     cqe_data = bs\<rparr>"


section \<open>Loops that end and rings that empty\<close>

text \<open>
  C19: Re-arming the deferred receives ends: the loop puts a socket back when there is no submission
  entry, and entries become available again.
\<close>

theorem deferred_recvs_end:
  assumes "dp_good env c" "i < length (cx_workers c)"
  shows "\<exists>c'. DrainDeferredRecvs env i c = Some c' \<and>
    (w_recv_defer_head (wk c' i) = w_recv_defer_tail (wk c' i) \<or> kRecvBudget \<le> w_recv_inflight (wk c' i) \<or> w_recv_paused (wk c' i))"
proof -
  obtain c' where c': "DrainDeferredRecvs env i c = Some c'" using DrainDeferredRecvs_total [OF good_inv [OF assms(1)] assms(2)] by blast
  have "w_recv_defer_head (wk c' i) = w_recv_defer_tail (wk c' i) \<or> kRecvBudget \<le> w_recv_inflight (wk c' i) \<or> w_recv_paused (wk c' i)"
    by (rule DrainDeferredRecvs.raw_induct [OF _ c'])
      (auto simp: Let_def split: if_splits prod.splits)
  then show ?thesis using c' by blast
qed

theorem deferred_recvs_end_witness:
  "\<exists>c'. DrainDeferredRecvs ex_env 0 ex_ctx = Some c' \<and>
    (w_recv_defer_head (wk c' 0) = w_recv_defer_tail (wk c' 0) \<or> kRecvBudget \<le> w_recv_inflight (wk c' 0) \<or> w_recv_paused (wk c' 0))"
  by (rule deferred_recvs_end [OF ex_ctx_good]) (simp add: ex_ctx_wk)



lemma next_not_same: "2 \<le> n \<Longrightarrow> (m + 1) mod n \<noteq> (m :: nat)"
proof
  assume n: "2 \<le> n" and e: "(m + 1) mod n = m"
  then have "m < n" using mod_less_divisor [of n "m + 1"] by simp
  then have "m + 1 < n \<or> m + 1 = n" by linarith
  then show False using e n by auto
qed

lemma deferred_size: "2 \<le> kRecvDeferSize"
  by (simp add: kRecvDeferSize_def)

lemma deferred_round:
  assumes "\<forall>n. \<not> de_sqe env n" and w: "w_recv_defer_head (wk c i) = (w_recv_defer_tail (wk c i) + 1) mod kRecvDeferSize"
    "i < length (cx_workers c)" "length (w_recv_defer_buf (wk c i)) = kRecvDeferSize" "w_recv_defer_tail (wk c i) < kRecvDeferSize"
    "dp_fd fd" "w_fd_map (wk c i) fd \<noteq> None"
  defines "c' \<equiv> SubmitRecvNow env i fd (set_wk i ((wk c i)\<lparr>w_recv_defer_tail := (w_recv_defer_tail (wk c i) + 1) mod kRecvDeferSize\<rparr>) c)"
  shows "w_recv_defer_tail (wk c' i) = (w_recv_defer_tail (wk c i) + 1) mod kRecvDeferSize"
    "w_recv_defer_head (wk c' i) = (w_recv_defer_tail (wk c' i) + 1) mod kRecvDeferSize"
    "w_recv_defer_buf (wk c' i) = (w_recv_defer_buf (wk c i))[w_recv_defer_tail (wk c' i) := fd]"
    "w_fd_map (wk c' i) = w_fd_map (wk c i)" "w_recv_inflight (wk c' i) = w_recv_inflight (wk c i)" "w_recv_paused (wk c' i) = w_recv_paused (wk c i)"
    "length (cx_workers c') = length (cx_workers c)"
proof -
  note n = next_not_same [OF deferred_size]
  show "w_recv_defer_tail (wk c' i) = (w_recv_defer_tail (wk c i) + 1) mod kRecvDeferSize"
    "w_recv_defer_head (wk c' i) = (w_recv_defer_tail (wk c' i) + 1) mod kRecvDeferSize"
    "w_recv_defer_buf (wk c' i) = (w_recv_defer_buf (wk c i))[w_recv_defer_tail (wk c' i) := fd]"
    "w_fd_map (wk c' i) = w_fd_map (wk c i)" "w_recv_inflight (wk c' i) = w_recv_inflight (wk c i)" "w_recv_paused (wk c' i) = w_recv_paused (wk c i)"
    "length (cx_workers c') = length (cx_workers c)"
    using assms(1) w n
    by (auto simp: c'_def SubmitRecvNow_def GetSqe_def DeferRecv_def Let_def wk_set_wk stat_def split: option.split)
qed

text \<open>
  If submission entries never become available, one deferred receive is enough for the loop
  not to end: it goes round the ring of deferred sockets for ever.
\<close>

theorem deferred_recvs_hang:
  assumes "\<forall>n. \<not> de_sqe env n" "i < length (cx_workers c)" "length (w_recv_defer_buf (wk c i)) = kRecvDeferSize"
    "w_recv_defer_tail (wk c i) < kRecvDeferSize" "w_recv_defer_head (wk c i) = (w_recv_defer_tail (wk c i) + 1) mod kRecvDeferSize"
    "dp_fd (w_recv_defer_buf (wk c i) ! w_recv_defer_tail (wk c i))"
    "w_fd_map (wk c i) (w_recv_defer_buf (wk c i) ! w_recv_defer_tail (wk c i)) \<noteq> None"
    "w_recv_inflight (wk c i) < kRecvBudget" "\<not> w_recv_paused (wk c i)"
  shows "DrainDeferredRecvs env i c = None"
proof -
  define P where "P = (\<lambda>c. i < length (cx_workers c) \<and> length (w_recv_defer_buf (wk c i)) = kRecvDeferSize \<and>
    w_recv_defer_tail (wk c i) < kRecvDeferSize \<and> w_recv_defer_head (wk c i) = (w_recv_defer_tail (wk c i) + 1) mod kRecvDeferSize \<and>
    dp_fd (w_recv_defer_buf (wk c i) ! w_recv_defer_tail (wk c i)) \<and>
    w_fd_map (wk c i) (w_recv_defer_buf (wk c i) ! w_recv_defer_tail (wk c i)) \<noteq> None \<and>
    w_recv_inflight (wk c i) < kRecvBudget \<and> \<not> w_recv_paused (wk c i))"
  have "\<not> (P c \<and> (\<forall>n. \<not> de_sqe env n))" if "DrainDeferredRecvs env i c = Some c'" for c c'
  proof (rule DrainDeferredRecvs.raw_induct [of "\<lambda>e j c c'. j = i \<longrightarrow> \<not> (P c \<and> (\<forall>n. \<not> de_sqe e n))", OF _ that, rule_format], goal_cases)
    case (1 D e j c c')
    note IH = 1(1) and run = 1(2) and j = 1(3)
    show ?case
    proof
      assume "P c \<and> (\<forall>n. \<not> de_sqe e n)"
      then have P: "P c" and sq: "\<forall>n. \<not> de_sqe e n" by auto
      let ?fd = "w_recv_defer_buf (wk c i) ! w_recv_defer_tail (wk c i)"
      let ?c = "SubmitRecvNow e i ?fd (set_wk i ((wk c i)\<lparr>w_recv_defer_tail := (w_recv_defer_tail (wk c i) + 1) mod kRecvDeferSize\<rparr>) c)"
      have p: "i < length (cx_workers c)" "length (w_recv_defer_buf (wk c i)) = kRecvDeferSize" "w_recv_defer_tail (wk c i) < kRecvDeferSize"
        "w_recv_defer_head (wk c i) = (w_recv_defer_tail (wk c i) + 1) mod kRecvDeferSize" "dp_fd ?fd" "w_fd_map (wk c i) ?fd \<noteq> None"
        "w_recv_inflight (wk c i) < kRecvBudget" "\<not> w_recv_paused (wk c i)"
        using P by (simp_all add: P_def)
      note S = deferred_round [OF sq p(4,1,2,3,5,6)]
      have "0 < kRecvDeferSize" by (simp add: kRecvDeferSize_def)
      then have "P ?c" unfolding P_def using S p by simp
      have "w_recv_defer_tail (wk c i) \<noteq> w_recv_defer_head (wk c i)" using p(4) next_not_same [OF deferred_size] by metis
      then have "D e i ?c = Some c'" using run p unfolding j by (auto simp: Let_def)
      then show False using IH \<open>P ?c\<close> sq by blast
    qed
  qed simp
  moreover have "P c" using assms unfolding P_def by blast
  ultimately show ?thesis using assms(1) by (cases "DrainDeferredRecvs env i c") auto
qed

section \<open>Taking down\<close>

text \<open>What taking down worker \<open>i\<close> leaves of the others: who queues what, and where their pools are.\<close>

definition others_kept :: "nat \<Rightarrow> Ctx \<Rightarrow> Ctx \<Rightarrow> bool" where
  "others_kept i c c' \<longleftrightarrow> length (cx_workers c') = length (cx_workers c) \<and>
     (\<forall>j < length (cx_workers c). j \<noteq> i \<longrightarrow> w_ht (wk c' j) = w_ht (wk c j) \<and> (\<forall>a. FramePoolOwns (wk c' j) a = FramePoolOwns (wk c j) a))"

lemma others_kept_refl [simp]: "others_kept i c c"
  by (simp add: others_kept_def)

lemma others_kept_trans: "others_kept i c c' \<Longrightarrow> others_kept i c' d \<Longrightarrow> others_kept i c d"
  by (simp add: others_kept_def)

lemma others_kept_set_wk [simp]: "others_kept i c (set_wk i w c') = others_kept i c c'" "others_kept i (set_wk i w c) c' = others_kept i c c'"
  by (auto simp: others_kept_def wk_set_wk)

lemma others_kept_set_pr [simp]: "others_kept i c (set_pr i p P c') = others_kept i c c'"
  by (simp add: set_pr_def)

lemma others_kept_mem [simp]:
  "others_kept i c (c'\<lparr>cx_mem := m\<rparr>) = others_kept i c c'" "others_kept i (c\<lparr>cx_mem := m\<rparr>) c' = others_kept i c c'"
  by (simp_all add: others_kept_def)

lemma FrameFree_among_kept:
  assumes "FrameFree_among null i a c = Some c'"
  shows "core c' = core c" "hts c' = hts c" "others_kept i c c'"
proof -
  have f: "FrameFree i a c = Some c'" using assms by (auto simp: FrameFree_among_def split: if_splits bind_splits)
  show k: "core c' = core c" "hts c' = hts c" by (rule core_FrameFree [OF f], rule hts_FrameFree [OF f])
  have len: "length (cx_workers c') = length (cx_workers c)" by (rule coreD(1) [OF k(1)])
  have "w_ht (wk c' j) = w_ht (wk c j)" if "j < length (cx_workers c)" for j
    using arg_cong [OF k(2), of "\<lambda>h. h ! j"] that len by (simp add: hts_def wk_def)
  then show "others_kept i c c'" using len worker_core_fixed(2) [OF coreD(5) [OF k(1)]] by (simp add: others_kept_def)
qed

lemma destroy_items_kept:
  assumes "destroy_items null i xs c = Some c'"
  shows "core c' = core c \<and> hts c' = hts c \<and> others_kept i c c'"
  using assms
proof (induction xs arbitrary: c)
  case (Cons x xs)
  then obtain d where d: "FrameFree_among null i (si_data x) c = Some d" "destroy_items null i xs (SlabFreeItem i x d) = Some c'"
    by (auto split: bind_splits)
  have s: "core (SlabFreeItem i x d) = core d" "hts (SlabFreeItem i x d) = hts d" "others_kept i c (SlabFreeItem i x d) = others_kept i c d"
    by (simp_all add: SlabFreeItem_def)
  show ?case using Cons.IH [OF d(2)] FrameFree_among_kept [OF d(1)] s others_kept_trans by simp
qed simp

lemma destroy_items_null:
  assumes "0 \<in> set null" "i \<noteq> 0" "i < length (cx_workers c)" "x \<in> set xs" "si_data x \<noteq> 0" "\<not> FramePoolOwns (wk c i) (si_data x)"
  shows "destroy_items null i xs c = None"
  using assms(3-6)
proof (induction xs arbitrary: c)
  case (Cons y ys)
  show ?case
  proof (cases "FrameFree_among null i (si_data y) c")
    case (Some d)
    let ?d = "SlabFreeItem i y d"
    have "core ?d = core c" using FrameFree_among_kept(1) [OF Some] by (simp add: SlabFreeItem_def)
    note k = coreD(1) [OF this] worker_core_fixed(2) [OF coreD(5) [OF this Cons.prems(1)]]
    have "[0..<length (cx_workers c)] = 0 # [1..<length (cx_workers c)]" using Cons.prems(1) by (subst upt_rec) auto
    then have "y \<noteq> x" using Some Cons.prems(1,3,4) assms(1,2) by (auto simp: FrameFree_among_def)
    then show ?thesis using Cons.IH [of ?d] Cons.prems k Some by simp
  qed simp
qed simp

lemma destroy_peer_kept:
  assumes "destroy_peers null i (q # ps) c = Some c'"
  obtains d where "destroy_peers null i ps d = Some c'" "others_kept i c d"
    "\<And>p a. i < length (cx_workers c) \<Longrightarrow> p \<noteq> q \<Longrightarrow> pr d i p = pr c i p \<and> FramePoolOwns (wk d i) a = FramePoolOwns (wk c i) a"
proof -
  obtain b where b: "(if p_occupied (pr c i q) = 1 then destroy_items null i (p_queue (pr c i q)) c \<bind> (\<lambda>c. Some (set_pr i q ((pr c i q)\<lparr>p_queue := []\<rparr>) c))
      else Some c) = Some b" "destroy_peers null i ps (set_pr i q ((pr b i q)\<lparr>p_rbuf := None\<rparr>) b) = Some c'"
    using assms by (auto split: bind_splits)
  have k: "others_kept i c b \<and> (i < length (cx_workers c) \<longrightarrow> p \<noteq> q \<longrightarrow> pr b i p = pr c i p \<and> FramePoolOwns (wk b i) a = FramePoolOwns (wk c i) a)" for p a
  proof (cases "p_occupied (pr c i q) = 1")
    case True
    then obtain e where e: "destroy_items null i (p_queue (pr c i q)) c = Some e" "b = set_pr i q ((pr e i q)\<lparr>p_queue := []\<rparr>) e"
      using b(1) by (auto split: bind_splits)
    note I = destroy_items_kept [OF e(1)]
    have "pr e i p = pr c i p \<and> FramePoolOwns (wk e i) a = FramePoolOwns (wk c i) a" if i: "i < length (cx_workers c)"
    proof
      have "hts e ! i = hts c ! i" "length (hts e) = length (hts c)" using I by simp_all
      then show "pr e i p = pr c i p" using i by (simp add: hts_def wk_def pr_def)
      show "FramePoolOwns (wk e i) a = FramePoolOwns (wk c i) a" by (rule worker_core_fixed(2)) (use I coreD(5) i in blast)
    qed
    then show ?thesis using I by (auto simp: e(2) set_pr_def pr_def wk_set_wk FramePoolOwns_def)
  qed (use b(1) in simp)
  show ?thesis
    by (rule that [OF b(2)]) (use k in \<open>auto simp: set_pr_def pr_def wk_set_wk FramePoolOwns_def\<close>)
qed

lemma destroy_peers_kept: "destroy_peers null i ps c = Some c' \<Longrightarrow> others_kept i c c'"
  by (induction ps arbitrary: c) (auto elim!: destroy_peer_kept intro: others_kept_trans simp del: destroy_peers.simps(2))

lemma destroy_peers_null:
  assumes "0 \<in> set null" "i \<noteq> 0" "i < length (cx_workers c)" "p \<in> set ps" "p_occupied (pr c i p) = 1" "x \<in> set (p_queue (pr c i p))"
    "si_data x \<noteq> 0" "\<not> FramePoolOwns (wk c i) (si_data x)"
  shows "destroy_peers null i ps c = None"
  using assms(3-6,8)
proof (induction ps arbitrary: c)
  case (Cons q qs)
  show ?case
  proof (cases "p = q")
    case True
    then show ?thesis using destroy_items_null [OF assms(1,2) Cons.prems(1,4) assms(7) Cons.prems(5)] Cons.prems(3) by simp
  next
    case False
    show ?thesis
    proof (rule ccontr)
      assume "\<not> ?thesis"
      then obtain c' where "destroy_peers null i (q # qs) c = Some c'" by blast
      then show False
      proof (rule destroy_peer_kept)
        fix d assume d: "destroy_peers null i qs d = Some c'" "others_kept i c d"
          "\<And>p a. i < length (cx_workers c) \<Longrightarrow> p \<noteq> q \<Longrightarrow> pr d i p = pr c i p \<and> FramePoolOwns (wk d i) a = FramePoolOwns (wk c i) a"
        then show False using Cons.IH [of d] Cons.prems False by (simp add: others_kept_def)
      qed
    qed
  qed
qed simp

lemma destroy_notifs_kept: "destroy_notifs null i fds c = Some c' \<Longrightarrow> others_kept i c c'"
  by (induction fds arbitrary: c) (auto simp: Let_def split: bind_splits dest!: destroy_items_kept intro: others_kept_trans)

lemma destroy_cmds_kept: "destroy_cmds n i c = Some c' \<Longrightarrow> others_kept i c c'"
proof (induction n arbitrary: c)
  case (Suc n)
  then show ?case by (auto simp: Let_def split: prod.splits option.splits if_splits dest!: Suc.IH)
qed simp

lemma destroy_xfers_kept: "destroy_xfers n null i src c = Some c' \<Longrightarrow> others_kept i c c'"
  by (induction n arbitrary: c)
    (auto simp: Let_def split: prod.splits option.splits if_splits bind_splits dest!: FrameFree_among_kept(3) intro: others_kept_trans)

lemma destroy_inboxes_kept: "destroy_inboxes null i srcs c = Some c' \<Longrightarrow> others_kept i c c'"
  by (induction srcs arbitrary: c) (auto split: bind_splits dest!: destroy_xfers_kept intro: others_kept_trans)

lemma WorkerDestroy_kept: "WorkerDestroy null i c = Some c' \<Longrightarrow> others_kept i c c'"
  by (auto simp: WorkerDestroy_def Let_def split: bind_splits
      dest!: destroy_peers_kept destroy_notifs_kept destroy_cmds_kept destroy_inboxes_kept) (blast intro: others_kept_trans)

text \<open>
  C37: \<^verbatim>\<open>DpDestroy\<close> clears the pointer to each worker it has destroyed, and freeing a frame looks for
  its owner among all workers. So a connected client of any worker but the first, with a frame
  in its queue that is not from its own worker's pool, makes \<^verbatim>\<open>DpDestroy\<close> dereference null.
\<close>

theorem destroy_null_worker:
  assumes "i \<noteq> 0" "peer_in c i p" "p_occupied (pr c i p) = 1" "x \<in> set (p_queue (pr c i p))" "si_data x \<noteq> 0"
    "\<not> FramePoolOwns (wk c i) (si_data x)"
  shows "DpDestroy c = None"
proof -
  have i: "i < length (cx_workers c)" and p: "p \<in> set [0..<kHtCapacity]" using assms(2) by (auto simp: peer_in_def)
  have "destroy_workers null js c = None"
    if "js \<noteq> [] \<longrightarrow> hd js = 0 \<or> 0 \<in> set null" "i \<in> set js" "i < length (cx_workers c)" "p_occupied (pr c i p) = 1" "x \<in> set (p_queue (pr c i p))"
      "\<not> FramePoolOwns (wk c i) (si_data x)" for null js c
    using that
  proof (induction js arbitrary: null c)
    case (Cons j js)
    show ?case
    proof (cases "j = i")
      case True
      have "0 \<in> set null" using Cons.prems(1) True assms(1) by simp
      from destroy_peers_null [OF this assms(1) Cons.prems(3) p Cons.prems(4,5) assms(5) Cons.prems(6)]
      show ?thesis using True by (simp add: WorkerDestroy_def)
    next
      case False
      show ?thesis
      proof (cases "WorkerDestroy null j c")
        case (Some d)
        have "w_ht (wk d i) = w_ht (wk c i)" "length (cx_workers d) = length (cx_workers c)"
          "FramePoolOwns (wk d i) (si_data x) = FramePoolOwns (wk c i) (si_data x)"
          using WorkerDestroy_kept [OF Some] Cons.prems(3) False by (auto simp: others_kept_def)
        then show ?thesis using Cons.IH [of "j # null" d] Cons.prems False Some by (auto simp: pr_def)
      qed simp
    qed
  qed simp
  moreover have "[0..<length (cx_workers c)] \<noteq> [] \<longrightarrow> hd [0..<length (cx_workers c)] = 0" by simp
  ultimately show ?thesis unfolding DpDestroy_def using i assms by simp
qed

text \<open>A frame of the first worker's pool in the queue of a client of the second.\<close>

theorem destroy_null_worker_witness:
  "DpDestroy (set_pr 1 (ex_slot ex_key) ((pr ex_ctx 1 (ex_slot ex_key))\<lparr>p_queue := [\<lparr>si_data = 4096, si_len = 5, si_slab = True\<rparr>]\<rparr>) ex_ctx) = None"
proof -
  let ?p = "ex_slot ex_key"
  let ?c = "set_pr 1 ?p ((pr ex_ctx 1 ?p)\<lparr>p_queue := [\<lparr>si_data = 4096, si_len = 5, si_slab = True\<rparr>]\<rparr>) ex_ctx"
  have p: "peer_in ex_ctx 1 ?p" by (simp add: peer_in_def ex_ctx_wk(1) ex_slot_in)
  have P: "pr ?c 1 ?p = (pr ex_ctx 1 ?p)\<lparr>p_queue := [\<lparr>si_data = 4096, si_len = 5, si_slab = True\<rparr>]\<rparr>"
    by (rule pr_set_pr(1) [OF good_inv [OF ex_ctx_good] p])
  have o: "\<not> FramePoolOwns (wk ?c 1) 4096" by (simp add: set_pr_def wk_set_wk ex_ctx_wk(1) FramePoolOwns_def) (simp add: ex_ctx_wk(3) [simplified] new_worker_fields)
  have "p_occupied (pr ex_ctx 1 ?p) = 1" unfolding ex_pr using fresh_ok [OF Peer_init_ok(2)] by simp
  then have "p_occupied (pr ?c 1 ?p) = 1" unfolding P by simp
  moreover have "peer_in ?c 1 ?p" using p by (simp add: peer_in_def set_pr_def)
  ultimately show ?thesis using destroy_null_worker [of 1 ?c ?p "\<lparr>si_data = 4096, si_len = 5, si_slab = True\<rparr>"] P o by simp
qed

end
