(* ===== verification/Spec2Isabelle.thy ===== *)
theory Spec2Isabelle
  imports Hd_Codec Hd_Policy Hd_Resolver Relay_Table Dp_Shared Stun Cp_Registry Cp_Pipe Data_Plane
begin

text \<open>
  Verification of Hyper-DERP: the relay's wire protocols, tables and policy logic.
\<close>

end
